(* ===== verification/Prelude.thy ===== *)
theory Prelude
  imports Main "HOL-Library.AList" "HOL-Library.Multiset"
begin

text \<open>
  Shared vocabulary of the development: Python dictionaries as insertion-ordered association
  lists, bounded double-ended queues, and the generic list facts the components use.

  A Python \<open>dict\<close> keeps its insertion order, and several parts of the code iterate over one, so
  a dictionary is an association list with distinct keys: \<open>AList.update\<close> overwrites in place or
  appends, \<open>AList.delete\<close> removes, and \<open>map_of\<close> reads.  A \<open>deque(maxlen=n)\<close> is a list whose
  append drops from the left.
\<close>

named_theorems dict_simps \<open>reading and writing dictionaries\<close>
named_theorems wf_intros \<open>introduction rules for well-formedness invariants\<close>

type_synonym str = string
type_synonym ('k, 'v) dict = "('k \<times> 'v) list"

abbreviation dget :: "('k, 'v) dict \<Rightarrow> 'k \<Rightarrow> 'v option" where
  "dget d k \<equiv> map_of d k"

abbreviation dset :: "'k \<Rightarrow> 'v \<Rightarrow> ('k, 'v) dict \<Rightarrow> ('k, 'v) dict" where
  "dset k v d \<equiv> AList.update k v d"

abbreviation dpop :: "'k \<Rightarrow> ('k, 'v) dict \<Rightarrow> ('k, 'v) dict" where
  "dpop k d \<equiv> AList.delete k d"

abbreviation dkeys :: "('k, 'v) dict \<Rightarrow> 'k list" where
  "dkeys d \<equiv> map fst d"

definition dget_or :: "'v \<Rightarrow> ('k, 'v) dict \<Rightarrow> 'k \<Rightarrow> 'v" where
  "dget_or x d k = (case dget d k of None \<Rightarrow> x | Some v \<Rightarrow> v)"

definition dwf :: "('k, 'v) dict \<Rightarrow> bool" where
  "dwf d \<longleftrightarrow> distinct (dkeys d)"

lemma dget_dset [dict_simps, simp]: "dget (dset k v d) j = (if j = k then Some v else dget d j)"
  by (simp add: update_conv)

lemma dget_dpop [dict_simps, simp]: "dget (dpop k d) j = (if j = k then None else dget d j)"
  by (simp add: delete_conv)

lemma dwf_Nil [simp, wf_intros]: "dwf []"
  by (simp add: dwf_def)

lemma dwf_dset [wf_intros, simp]: "dwf d \<Longrightarrow> dwf (dset k v d)"
  by (simp add: dwf_def distinct_update)

lemma dwf_dpop [wf_intros, simp]: "dwf d \<Longrightarrow> dwf (dpop k d)"
  by (simp add: dwf_def distinct_delete)

lemma dwf_map_vals [simp]: "dwf (map (\<lambda>(k, v). (k, f k v)) d) = dwf d"
  by (simp add: dwf_def comp_def case_prod_unfold)

lemma dwf_filter [wf_intros]: "dwf d \<Longrightarrow> dwf (filter P d)"
  by (simp add: dwf_def distinct_map_filter)

lemma dwf_Some_iff: "dwf d \<Longrightarrow> dget d k = Some v \<longleftrightarrow> (k, v) \<in> set d"
  by (simp add: dwf_def)

lemma dget_map_vals [simp]:
  "dget (map (\<lambda>(k, v). (k, f k v)) d) k = map_option (f k) (dget d k)"
  by (induction d) auto

lemma dget_None_iff: "dget d k = None \<longleftrightarrow> k \<notin> set (dkeys d)"
  by (simp add: map_of_eq_None_iff)

lemma dkeys_iff: "k \<in> set (dkeys d) \<longleftrightarrow> (\<exists>v. dget d k = Some v)"
  using dget_None_iff [of d k] by auto

lemma dget_or_dset [simp]: "dget_or x (dset k v d) j = (if j = k then v else dget_or x d j)"
  by (simp add: dget_or_def)

lemma length_dset: "length (dset k v d) = (if dget d k = None then Suc (length d) else length d)"
  by (induction d) auto

lemma length_dpop: "length (dpop k d) \<le> length d"
  by (simp add: AList.delete_eq)

lemma dwf_ConsE:
  assumes "dwf ((k, v) # d)"
  shows "dget d k = None" "dwf d"
  using assms by (auto simp: dwf_def map_of_eq_None_iff)

text \<open>Every entry of a well-formed dictionary satisfies a property kept by writes.\<close>

definition dall :: "('k \<Rightarrow> 'v \<Rightarrow> bool) \<Rightarrow> ('k, 'v) dict \<Rightarrow> bool" where
  "dall P d \<longleftrightarrow> list_all (\<lambda>(k, v). P k v) d"

lemma dall_Nil [simp]: "dall P []"
  by (simp add: dall_def)

lemma dall_Cons [simp]: "dall P ((k, v) # d) \<longleftrightarrow> P k v \<and> dall P d"
  by (simp add: dall_def)

lemma dall_dset [wf_intros]: "dall P d \<Longrightarrow> P k v \<Longrightarrow> dall P (dset k v d)"
  by (induction d) auto

lemma dall_dpop [wf_intros]: "dall P d \<Longrightarrow> dall P (dpop k d)"
  by (induction d) (auto simp: AList.delete_eq)

lemma dall_get: "dall P d \<Longrightarrow> dget d k = Some v \<Longrightarrow> P k v"
  by (induction d) (auto split: if_splits)

lemma dget_or_dall: "dall P d \<Longrightarrow> P k x \<Longrightarrow> P k (dget_or x d k)"
  unfolding dget_or_def by (cases "dget d k") (auto dest: dall_get)

lemma dall_mem: "dall P d \<Longrightarrow> (k, v) \<in> set d \<Longrightarrow> P k v"
  by (auto simp: dall_def list_all_iff)

lemma dallI: "(\<And>k v. (k, v) \<in> set d \<Longrightarrow> P k v) \<Longrightarrow> dall P d"
  by (auto simp: dall_def list_all_iff)

lemma dall_map_vals:
  "dall P d \<Longrightarrow> (\<And>k v. P k v \<Longrightarrow> Q k (f k v)) \<Longrightarrow> dall Q (map (\<lambda>(k, v). (k, f k v)) d)"
  by (induction d) auto

lemma dall_filter [wf_intros]: "dall P d \<Longrightarrow> dall P (filter Q d)"
  by (auto simp: dall_def list_all_iff)

section \<open>Double-ended queues\<close>

text \<open>\<open>deque(maxlen=n).append(x)\<close>: when full, the leftmost element is dropped.\<close>

definition deque_append :: "nat \<Rightarrow> 'a \<Rightarrow> 'a list \<Rightarrow> 'a list" where
  "deque_append n x q = drop (Suc (length q) - n) (q @ [x])"

lemma length_deque_append: "length (deque_append n x q) = min n (Suc (length q))"
  by (auto simp: deque_append_def)

lemma last_deque_append: "0 < n \<Longrightarrow> last (deque_append n x q) = x"
  by (auto simp: deque_append_def last_drop)

lemma deque_append_nonempty: "0 < n \<Longrightarrow> deque_append n x q \<noteq> []"
  by (auto simp: deque_append_def)

lemma set_deque_append: "set (deque_append n x q) \<subseteq> insert x (set q)"
  by (auto simp: deque_append_def dest: in_set_dropD)

text \<open>\<open>while q and q[0] is too old: q.popleft()\<close>.\<close>

fun expire_left :: "('a \<Rightarrow> bool) \<Rightarrow> 'a list \<Rightarrow> 'a list" where
  "expire_left old [] = []"
| "expire_left old (x # xs) = (if old x then expire_left old xs else x # xs)"

lemma expire_left_dropWhile: "expire_left old xs = dropWhile old xs"
  by (induction xs) auto

lemma length_expire_left: "length (expire_left old xs) \<le> length xs"
  by (simp add: expire_left_dropWhile length_dropWhile_le)

lemma set_expire_left: "set (expire_left old xs) \<subseteq> set xs"
  by (auto simp: expire_left_dropWhile dest: set_dropWhileD)

lemma expire_left_hd: "expire_left p xs = y # ys \<Longrightarrow> \<not> p y"
  by (induction xs) (auto split: if_splits)

lemma expire_left_idem [simp]: "expire_left old (expire_left old xs) = expire_left old xs"
  by (induction xs) auto

text \<open>On a buffer whose times do not decrease, the left-to-right expiry is exactly the filter.\<close>

lemma expire_left_sorted:
  fixes t :: "'a \<Rightarrow> int"
  assumes "sorted (map t xs)"
  shows "expire_left (\<lambda>x. t x < c) xs = filter (\<lambda>x. c \<le> t x) xs"
  using assms by (induction xs) (auto simp: not_less intro!: filter_True[symmetric])

text \<open>The elements of a bounded buffer after any number of appends: a suffix of the history.\<close>

definition suffix_of :: "'a list \<Rightarrow> 'a list \<Rightarrow> bool" where
  "suffix_of xs ys \<longleftrightarrow> (\<exists>zs. ys = zs @ xs)"

lemma suffix_of_refl [simp]: "suffix_of xs xs"
  by (simp add: suffix_of_def)

lemma suffix_of_trans: "suffix_of xs ys \<Longrightarrow> suffix_of ys zs \<Longrightarrow> suffix_of xs zs"
  by (auto simp: suffix_of_def)

lemma suffix_of_drop [simp]: "suffix_of (drop n xs) xs"
  by (metis append_take_drop_id suffix_of_def)

lemma suffix_of_expire: "suffix_of (expire_left old xs) xs"
  by (metis expire_left_dropWhile suffix_of_def takeWhile_dropWhile_id)

lemma suffix_of_snoc: "suffix_of xs ys \<Longrightarrow> suffix_of (xs @ [x]) (ys @ [x])"
  by (auto simp: suffix_of_def)

lemma suffix_of_set: "suffix_of xs ys \<Longrightarrow> set xs \<subseteq> set ys"
  by (auto simp: suffix_of_def)

lemma suffix_of_sorted:
  "suffix_of xs ys \<Longrightarrow> sorted (map f ys) \<Longrightarrow> sorted (map f xs)"
  by (auto simp: suffix_of_def sorted_append)

lemma suffix_of_length: "suffix_of xs ys \<Longrightarrow> length xs \<le> length ys"
  by (auto simp: suffix_of_def)

lemma deque_append_suffix: "suffix_of (deque_append n x q) (q @ [x])"
  unfolding deque_append_def by (rule suffix_of_drop)

section \<open>Sorting the way Python sorts\<close>

text \<open>
  \<open>sorted(xs, key=f)\<close> is stable; with \<open>reverse=True\<close> Python keeps the original order of equal
  elements too, so it is the stable sort by the negated key.
\<close>

definition py_sorted :: "('a \<Rightarrow> 'b::linorder) \<Rightarrow> 'a list \<Rightarrow> 'a list" where
  "py_sorted f xs = sort_key f xs"

definition py_sorted_desc :: "('a \<Rightarrow> 'b::linorder) \<Rightarrow> 'a list \<Rightarrow> 'a list" where
  "py_sorted_desc f xs = rev (sort_key f (rev xs))"

lemma mset_py_sorted_desc [simp]: "mset (py_sorted_desc f xs) = mset xs"
  by (simp add: py_sorted_desc_def)

lemma set_py_sorted_desc [simp]: "set (py_sorted_desc f xs) = set xs"
  by (simp add: py_sorted_desc_def)

lemma length_py_sorted_desc [simp]: "length (py_sorted_desc f xs) = length xs"
  by (simp add: py_sorted_desc_def)

lemma py_sorted_desc_Nil [simp]: "py_sorted_desc f [] = []"
  by (simp add: py_sorted_desc_def)

lemma sorted_py_sorted_desc: "sorted_wrt (\<lambda>x y. f y \<le> f x) (py_sorted_desc f xs)"
proof -
  have "sorted_wrt (\<lambda>x y. f x \<le> f y) (sort_key f (rev xs))"
    using sorted_sort_key [of f "rev xs"] by (simp add: sorted_wrt_map)
  then show ?thesis
    by (simp add: py_sorted_desc_def sorted_wrt_rev)
qed

end
