(* ===== verification/PyStr.thy ===== *)
theory PyStr
  imports Prelude "HOL-Library.Sublist" "HOL-Library.List_Lexorder" "HOL-Library.Char_ord"
begin

text \<open>
  The operations of Python's \<open>str\<close> that the code uses.  A string is a list of characters with
  code points below 256; case mapping is the ASCII one.  Strings are ordered lexicographically by
  code point (\<open>List_Lexorder\<close> over \<open>Char_ord\<close>), as Python orders them.
\<close>

subsection \<open>Containment, prefixes and suffixes\<close>

text \<open>\<open>p in s\<close>\<close>

fun str_in :: "str \<Rightarrow> str \<Rightarrow> bool" where
  "str_in p [] = (p = [])"
| "str_in p (c # cs) = (prefix p (c # cs) \<or> str_in p cs)"

lemma str_in_sublist: "str_in p s = sublist p s"
  by (induction s) (auto simp: sublist_Cons_right)

lemma str_in_append: "str_in p s \<Longrightarrow> str_in p (x @ s @ y)"
  by (auto simp: str_in_sublist sublist_def) (metis append.assoc)

lemma str_in_refl [simp]: "str_in p (x @ p @ y)"
  by (auto simp: str_in_sublist sublist_def)

lemma str_in_trans: "str_in p q \<Longrightarrow> str_in q s \<Longrightarrow> str_in p s"
  by (simp add: str_in_sublist)

text \<open>\<open>s.startswith(p)\<close> and \<open>s.endswith(p)\<close>\<close>

abbreviation startswith :: "str \<Rightarrow> str \<Rightarrow> bool" where
  "startswith s p \<equiv> prefix p s"

definition endswith :: "str \<Rightarrow> str \<Rightarrow> bool" where
  "endswith s p \<longleftrightarrow> prefix (rev p) (rev s)"

definition any_in :: "str list \<Rightarrow> str \<Rightarrow> bool" where
  "any_in ws s \<longleftrightarrow> list_ex (\<lambda>w. str_in w s) ws"

lemma any_in_iff: "any_in ws s \<longleftrightarrow> (\<exists>w \<in> set ws. str_in w s)"
  by (simp add: any_in_def list_ex_iff)

subsection \<open>Case\<close>

definition lower_char :: "char \<Rightarrow> char" where
  "lower_char c =
     (let n = of_char c :: nat in if 65 \<le> n \<and> n \<le> 90 then char_of (n + 32) else c)"

definition upper_char :: "char \<Rightarrow> char" where
  "upper_char c =
     (let n = of_char c :: nat in if 97 \<le> n \<and> n \<le> 122 then char_of (n - 32) else c)"

definition lower :: "str \<Rightarrow> str" where
  "lower s = map lower_char s"

text \<open>\<open>s.capitalize()\<close>\<close>

definition capitalize :: "str \<Rightarrow> str" where
  "capitalize s = (case s of [] \<Rightarrow> [] | c # cs \<Rightarrow> upper_char c # lower cs)"

definition upper :: "str \<Rightarrow> str" where
  "upper s = map upper_char s"

lemma length_lower [simp]: "length (lower s) = length s"
  by (simp add: lower_def)

lemma lower_append: "lower (s @ t) = lower s @ lower t"
  by (simp add: lower_def)

lemma lower_char_idem [simp]: "lower_char (lower_char c) = lower_char c"
proof -
  have "(of_char c :: nat) < 256" by simp
  then show ?thesis
    by (auto simp: lower_char_def Let_def)
qed

lemma lower_idem [simp]: "lower (lower s) = lower s"
  by (simp add: lower_def)

subsection \<open>Splitting and joining\<close>

text \<open>\<open>s.split(sep)\<close> for a one-character separator: never the empty list.\<close>

fun split_on :: "char \<Rightarrow> str \<Rightarrow> str list" where
  "split_on sep [] = [[]]"
| "split_on sep (c # cs) =
     (if c = sep then [] # split_on sep cs
      else (case split_on sep cs of [] \<Rightarrow> [[c]] | p # ps \<Rightarrow> (c # p) # ps))"

text \<open>\<open>sep.join(parts)\<close>\<close>

fun join :: "str \<Rightarrow> str list \<Rightarrow> str" where
  "join sep [] = []"
| "join sep [p] = p"
| "join sep (p # q # ps) = p @ sep @ join sep (q # ps)"

text \<open>\<open>s.rsplit(sep, n)\<close>: at most \<open>n\<close> splits, counted from the right.\<close>

definition rsplit :: "char \<Rightarrow> nat \<Rightarrow> str \<Rightarrow> str list" where
  "rsplit sep n s =
     (let ps = split_on sep s in
      if length ps \<le> Suc n then ps
      else join [sep] (take (length ps - n) ps) # drop (length ps - n) ps)"

lemma split_on_nonempty [simp]: "split_on sep s \<noteq> []"
  by (induction s) (auto split: list.splits)

lemma join_split_on: "join [sep] (split_on sep s) = s"
proof (induction s)
  case (Cons c cs)
  then show ?case
    by (cases "split_on sep cs" rule: list.exhaust; cases "tl (split_on sep cs)")
       (auto split: list.splits)
qed simp

lemma split_on_no_sep: "sep \<notin> set s \<Longrightarrow> split_on sep s = [s]"
  by (induction s) auto

lemma split_on_append:
  "sep \<notin> set s \<Longrightarrow> split_on sep (s @ sep # t) = s # split_on sep t"
  by (induction s) auto

lemma split_on_parts: "p \<in> set (split_on sep s) \<Longrightarrow> sep \<notin> set p"
  by (induction s arbitrary: p) (auto split: list.splits if_splits)

lemma join_Cons: "ps \<noteq> [] \<Longrightarrow> join sep (p # ps) = p @ sep @ join sep ps"
  by (cases ps) auto

lemma join_append:
  "ps \<noteq> [] \<Longrightarrow> qs \<noteq> [] \<Longrightarrow> join sep (ps @ qs) = join sep ps @ sep @ join sep qs"
proof (induction ps)
  case (Cons p ps)
  then show ?case by (cases ps) (auto simp: join_Cons)
qed simp

text \<open>Splitting is inverted by joining, whatever the number of splits allowed.\<close>

lemma join_rsplit: "join [sep] (rsplit sep n s) = s"
proof (cases "length (split_on sep s) \<le> Suc n")
  case True
  then show ?thesis by (simp add: rsplit_def Let_def join_split_on)
next
  case False
  let ?ps = "split_on sep s" and ?k = "length (split_on sep s) - n"
  have s: "s = join [sep] (take ?k ?ps @ drop ?k ?ps)"
    by (simp add: join_split_on)
  have t: "take ?k ?ps \<noteq> []" using False by simp
  show ?thesis
  proof (cases "drop ?k ?ps = []")
    case True
    with False s show ?thesis by (simp add: rsplit_def Let_def)
  next
    case d: False
    with s t have "s = join [sep] (take ?k ?ps) @ [sep] @ join [sep] (drop ?k ?ps)"
      by (metis join_append)
    with False d show ?thesis by (simp add: rsplit_def Let_def join_Cons)
  qed
qed

lemma length_rsplit: "length (rsplit sep n s) \<le> Suc n"
  by (auto simp: rsplit_def Let_def)

subsection \<open>Stripping\<close>

definition is_space :: "char \<Rightarrow> bool" where
  "is_space c \<longleftrightarrow>
     (let n = of_char c :: nat in
      (9 \<le> n \<and> n \<le> 13) \<or> (28 \<le> n \<and> n \<le> 32) \<or> n = 133 \<or> n = 160)"

definition strip :: "str \<Rightarrow> str" where
  "strip s = rev (dropWhile is_space (rev (dropWhile is_space s)))"

lemma length_strip: "length (strip s) \<le> length s"
  unfolding strip_def length_rev
  using length_dropWhile_le [of is_space "rev (dropWhile is_space s)"] length_dropWhile_le [of is_space s]
  by simp

subsection \<open>Numbers\<close>

definition digit_char :: "nat \<Rightarrow> char" where
  "digit_char d = char_of (48 + d mod 10)"

fun show_nat :: "nat \<Rightarrow> str" where
  "show_nat n = (if n < 10 then [digit_char n] else show_nat (n div 10) @ [digit_char (n mod 10)])"

declare show_nat.simps [simp del]

definition show_int :: "int \<Rightarrow> str" where
  "show_int n = (if n < 0 then CHR ''-'' # show_nat (nat (- n)) else show_nat (nat n))"

definition is_digit :: "char \<Rightarrow> bool" where
  "is_digit c \<longleftrightarrow> (let n = of_char c :: nat in 48 \<le> n \<and> n \<le> 57)"

definition digit_val :: "char \<Rightarrow> nat" where
  "digit_val c = of_char c - 48"

definition read_nat :: "str \<Rightarrow> nat" where
  "read_nat s = fold (\<lambda>c acc. 10 * acc + digit_val c) s 0"

lemma digit_val_digit_char: "digit_val (digit_char d) = d mod 10"
proof -
  have "48 + d mod 10 < (256::nat)"
    using mod_less_divisor [of 10 d] by linarith
  then show ?thesis
    by (simp add: digit_val_def digit_char_def)
qed

lemma is_digit_digit_char: "is_digit (digit_char d)"
proof -
  have "48 + d mod 10 \<le> (57::nat)"
    using mod_less_divisor [of 10 d] by linarith
  then show ?thesis
    by (simp add: is_digit_def digit_char_def)
qed

lemma read_show_nat: "read_nat (show_nat n) = n"
proof (induction n rule: show_nat.induct)
  case (1 n)
  then show ?case
    by (subst show_nat.simps) (auto simp: read_nat_def digit_val_digit_char)
qed

lemma show_nat_digits: "\<forall>c \<in> set (show_nat n). is_digit c"
proof (induction n rule: show_nat.induct)
  case (1 n)
  then show ?case
    by (subst show_nat.simps) (auto simp: is_digit_digit_char)
qed

lemma show_nat_nonempty [simp]: "show_nat n \<noteq> []"
  by (subst show_nat.simps) simp

text \<open>Zero-padded decimal of a fixed width, as \<open>strftime\<close> prints its fields.\<close>

definition pad0 :: "nat \<Rightarrow> nat \<Rightarrow> str" where
  "pad0 w n = (let s = show_nat n in replicate (w - length s) (CHR ''0'') @ s)"

subsection \<open>repr\<close>

text \<open>
  \<open>repr(s)\<close>: single quotes unless the text has a single quote and no double quote; backslash,
  the chosen quote and the control characters are escaped.
\<close>

definition squote :: char where "squote = CHR 0x27"
definition dquote :: char where "dquote = CHR 0x22"
definition bslash :: char where "bslash = CHR 0x5C"

definition hex_char :: "nat \<Rightarrow> char" where
  "hex_char d = (if d < 10 then char_of (48 + d) else char_of (87 + d))"

definition repr_char :: "char \<Rightarrow> char \<Rightarrow> str" where
  "repr_char q c =
     (let n = of_char c :: nat in
      if c = q \<or> c = bslash then [bslash, c]
      else if n = 10 then [bslash, CHR ''n'']
      else if n = 13 then [bslash, CHR ''r'']
      else if n = 9 then [bslash, CHR ''t'']
      else if n < 32 \<or> (127 \<le> n \<and> n \<le> 160) \<or> n = 173
        then [bslash, CHR ''x'', hex_char (n div 16), hex_char (n mod 16)]
      else [c])"

definition py_repr :: "str \<Rightarrow> str" where
  "py_repr s =
     (let q = (if squote \<in> set s \<and> dquote \<notin> set s then dquote else squote)
      in [q] @ concat (map (repr_char q) s) @ [q])"

text \<open>\<open>{x!r}\<close> and \<open>{x}\<close> of a \<open>str | None\<close> value in an f-string.\<close>

definition repr_opt :: "str option \<Rightarrow> str" where
  "repr_opt x = (case x of None \<Rightarrow> ''None'' | Some s \<Rightarrow> py_repr s)"

text \<open>\<open>x or ""\<close> of a \<open>str | None\<close>\<close>

definition the_default_str :: "str option \<Rightarrow> str" where
  "the_default_str x = (case x of None \<Rightarrow> [] | Some s \<Rightarrow> s)"

definition str_opt :: "str option \<Rightarrow> str" where
  "str_opt x = (case x of None \<Rightarrow> ''None'' | Some s \<Rightarrow> s)"

text \<open>The arrow U+2192 of the evidence summaries, written as its UTF-8 bytes.\<close>

definition arrow :: str where
  "arrow = [CHR 0xE2, CHR 0x86, CHR 0x92]"

text \<open>The em dash U+2014, likewise.\<close>

definition em_dash :: str where
  "em_dash = [CHR 0xE2, CHR 0x80, CHR 0x94]"

end
