(* ===== verification/PyRegex.thy ===== *)
theory PyRegex
  imports PyStr
begin

text \<open>
  The fragment of Python's \<open>re\<close> that the code uses, as a backtracking matcher: \<open>rm r st\<close> lists
  every way to match \<open>r\<close> at the state \<open>st\<close>, in the order the engine tries them, so the head of
  the list is the match \<open>re\<close> reports.  A state is the position, the rest of the text and the
  groups captured so far.  \<open>re_match\<close> anchors at the start, \<open>re_search\<close> takes the leftmost start.
\<close>

record rstate =
  rpos :: nat
  rrest :: str
  rgroups :: "(nat, str) dict"

datatype regex =
    REps
  | RSet "char \<Rightarrow> bool"
  | RSeq regex regex
  | RAlt regex regex
  | RStar regex
  | RGroup nat regex
  | RBegin
  | REnd

text \<open>Greedy repetition: an iteration that consumes nothing is not repeated.\<close>

fun rstar :: "(rstate \<Rightarrow> rstate list) \<Rightarrow> nat \<Rightarrow> rstate \<Rightarrow> rstate list" where
  "rstar f 0 st = [st]"
| "rstar f (Suc n) st =
     concat (map (\<lambda>st'. if length (rrest st') < length (rrest st) then rstar f n st' else [])
       (f st)) @ [st]"

fun rset :: "(char \<Rightarrow> bool) \<Rightarrow> rstate \<Rightarrow> rstate list" where
  "rset p st =
     (case rrest st of
        [] \<Rightarrow> []
      | c # cs \<Rightarrow> if p c then [st\<lparr>rpos := Suc (rpos st), rrest := cs\<rparr>] else [])"

declare rset.simps [simp del]

lemma rset_Nil [simp]: "rrest st = [] \<Longrightarrow> rset p st = []"
  by (simp add: rset.simps)

lemma rset_Cons [simp]:
  "rrest st = c # cs \<Longrightarrow>
     rset p st = (if p c then [st\<lparr>rpos := Suc (rpos st), rrest := cs\<rparr>] else [])"
  by (simp add: rset.simps)

lemma rset_False [simp]: "rset (\<lambda>_. False) st = []"
  by (cases "rrest st") auto

primrec rm :: "regex \<Rightarrow> rstate \<Rightarrow> rstate list" where
  "rm REps = (\<lambda>st. [st])"
| "rm (RSet p) = rset p"
| "rm (RSeq a b) = (\<lambda>st. concat (map (rm b) (rm a st)))"
| "rm (RAlt a b) = (\<lambda>st. rm a st @ rm b st)"
| "rm (RStar a) = (\<lambda>st. rstar (rm a) (length (rrest st)) st)"
| "rm (RGroup n a) =
     (\<lambda>st. map (\<lambda>st'. st'\<lparr>rgroups :=
        dset n (take (length (rrest st) - length (rrest st')) (rrest st)) (rgroups st')\<rparr>)
        (rm a st))"
| "rm RBegin = (\<lambda>st. if rpos st = 0 then [st] else [])"
| "rm REnd = (\<lambda>st. if rrest st = [] \<or> rrest st = [CHR 0x0A] then [st] else [])"

definition re_match :: "regex \<Rightarrow> str \<Rightarrow> rstate option" where
  "re_match r s =
     (case rm r \<lparr>rpos = 0, rrest = s, rgroups = []\<rparr> of [] \<Rightarrow> None | st # _ \<Rightarrow> Some st)"

fun re_search_from :: "regex \<Rightarrow> nat \<Rightarrow> str \<Rightarrow> rstate option" where
  "re_search_from r n s =
     (case rm r \<lparr>rpos = n, rrest = s, rgroups = []\<rparr> of
        st # _ \<Rightarrow> Some st
      | [] \<Rightarrow> (case s of [] \<Rightarrow> None | c # cs \<Rightarrow> re_search_from r (Suc n) cs))"

declare re_search_from.simps [simp del]

definition re_search :: "regex \<Rightarrow> str \<Rightarrow> rstate option" where
  "re_search r s = re_search_from r 0 s"

definition re_found :: "regex \<Rightarrow> str \<Rightarrow> bool" where
  "re_found r s \<longleftrightarrow> re_search r s \<noteq> None"

text \<open>\<open>match.group(i) or match.group(j)\<close>: the first group that is set and not empty.\<close>

definition group_or :: "nat \<Rightarrow> nat \<Rightarrow> rstate \<Rightarrow> str option" where
  "group_or i j st =
     (case dget (rgroups st) i of
        Some g \<Rightarrow> if g \<noteq> [] then Some g else dget (rgroups st) j
      | None \<Rightarrow> dget (rgroups st) j)"

subsection \<open>Notation of the patterns\<close>

definition word_char :: "char \<Rightarrow> bool" where
  "word_char c \<longleftrightarrow>
     (let n = of_char c :: nat in
      (48 \<le> n \<and> n \<le> 57) \<or> (65 \<le> n \<and> n \<le> 90) \<or> n = 95 \<or> (97 \<le> n \<and> n \<le> 122)
      \<or> n = 170 \<or> n = 178 \<or> n = 179 \<or> n = 181 \<or> n = 185 \<or> n = 186 \<or> (188 \<le> n \<and> n \<le> 190)
      \<or> (192 \<le> n \<and> n \<le> 214) \<or> (216 \<le> n \<and> n \<le> 246) \<or> 248 \<le> n)"

definition alnum_ascii :: "char \<Rightarrow> bool" where
  "alnum_ascii c \<longleftrightarrow>
     (let n = of_char c :: nat in
      (48 \<le> n \<and> n \<le> 57) \<or> (65 \<le> n \<and> n \<le> 90) \<or> (97 \<le> n \<and> n \<le> 122))"

definition not_newline :: "char \<Rightarrow> bool" where
  "not_newline c \<longleftrightarrow> c \<noteq> CHR 0x0A"

definition r_plus :: "regex \<Rightarrow> regex" where
  "r_plus r = RSeq r (RStar r)"

definition r_opt :: "regex \<Rightarrow> regex" where
  "r_opt r = RAlt r REps"

fun r_atleast :: "nat \<Rightarrow> regex \<Rightarrow> regex" where
  "r_atleast 0 r = RStar r"
| "r_atleast (Suc n) r = RSeq r (r_atleast n r)"

fun r_seqs :: "regex list \<Rightarrow> regex" where
  "r_seqs [] = REps"
| "r_seqs (r # rs) = RSeq r (r_seqs rs)"

fun r_alts :: "regex list \<Rightarrow> regex" where
  "r_alts [] = RSet (\<lambda>_. False)"
| "r_alts [r] = r"
| "r_alts (r # rs) = RAlt r (r_alts rs)"

text \<open>A literal text, case-sensitive and under \<open>re.IGNORECASE\<close>.\<close>

fun r_lit :: "str \<Rightarrow> regex" where
  "r_lit [] = REps"
| "r_lit (c # cs) = RSeq (RSet (\<lambda>x. x = c)) (r_lit cs)"

fun r_ilit :: "str \<Rightarrow> regex" where
  "r_ilit [] = REps"
| "r_ilit (c # cs) = RSeq (RSet (\<lambda>x. lower_char x = lower_char c)) (r_ilit cs)"

subsection \<open>Facts about the matcher\<close>

lemma rstar_suffix:
  assumes "\<And>st st'. st' \<in> set (f st) \<Longrightarrow> suffix_of (rrest st') (rrest st)"
  shows "st' \<in> set (rstar f n st) \<Longrightarrow> suffix_of (rrest st') (rrest st)"
proof (induction n arbitrary: st)
  case (Suc n)
  then show ?case
    by (auto split: if_splits dest!: assms intro: suffix_of_trans)
qed simp

lemma rm_suffix: "st' \<in> set (rm r st) \<Longrightarrow> suffix_of (rrest st') (rrest st)"
proof (induction r arbitrary: st st')
  case (RSet p)
  then show ?case
    by (cases "rrest st") (auto simp: suffix_of_def split: if_splits)
next
  case (RSeq r1 r2)
  then show ?case by (fastforce intro: suffix_of_trans)
next
  case (RStar r)
  then show ?case by (auto intro: rstar_suffix)
qed (auto split: if_splits)

text \<open>The fuel of a repetition is enough: any larger bound gives the same matches.\<close>

lemma rstar_enough:
  "length (rrest st) \<le> n \<Longrightarrow> rstar f n st = rstar f (length (rrest st)) st"
proof (induction n arbitrary: st rule: less_induct)
  case (less n)
  show ?case
  proof (cases "length (rrest st)")
    case 0
    then show ?thesis by (cases n) auto
  next
    case (Suc m)
    with less.prems obtain k where n: "n = Suc k" "m \<le> k" by (cases n) auto
    have "rstar f k st' = rstar f m st'" if "length (rrest st') < length (rrest st)" for st'
    proof -
      from that Suc have l: "length (rrest st') \<le> m" by simp
      with n have "rstar f k st' = rstar f (length (rrest st')) st'"
        using less.IH [of k st'] by simp
      moreover have "rstar f m st' = rstar f (length (rrest st')) st'"
        using less.IH [of m st'] l n by simp
      ultimately show ?thesis by simp
    qed
    then have eq: "(\<lambda>st'. if length (rrest st') < length (rrest st) then rstar f k st' else []) =
        (\<lambda>st'. if length (rrest st') < length (rrest st) then rstar f m st' else [])"
      by auto
    show ?thesis
      unfolding n(1) Suc rstar.simps using eq Suc by simp
  qed
qed

lemma re_search_from_None:
  "re_search_from r n s = None \<longleftrightarrow>
     (\<forall>k \<le> length s. rm r \<lparr>rpos = n + k, rrest = drop k s, rgroups = []\<rparr> = [])"
proof (induction s arbitrary: n)
  case Nil
  then show ?case by (subst re_search_from.simps) (auto split: list.splits)
next
  case (Cons c cs)
  have "(\<forall>k \<le> length (c # cs). rm r \<lparr>rpos = n + k, rrest = drop k (c # cs), rgroups = []\<rparr> = []) \<longleftrightarrow>
      rm r \<lparr>rpos = n, rrest = c # cs, rgroups = []\<rparr> = [] \<and>
      (\<forall>k \<le> length cs. rm r \<lparr>rpos = Suc n + k, rrest = drop k cs, rgroups = []\<rparr> = [])"
    (is "(\<forall>k \<le> _. ?Q k) \<longleftrightarrow> _ \<and> (\<forall>k \<le> _. ?R k)")
  proof -
    have "?Q (Suc k) \<longleftrightarrow> ?R k" for k by simp
    moreover have "(\<forall>k \<le> Suc m. ?Q k) \<longleftrightarrow> ?Q 0 \<and> (\<forall>k \<le> m. ?Q (Suc k))" for m
      by (metis Suc_le_mono le0 not0_implies_Suc)
    ultimately show ?thesis by simp
  qed
  then show ?case
    using Cons.IH by (subst re_search_from.simps) (auto split: list.splits)
qed

lemma re_found_iff:
  "re_found r s \<longleftrightarrow> (\<exists>k \<le> length s. rm r \<lparr>rpos = k, rrest = drop k s, rgroups = []\<rparr> \<noteq> [])"
proof -
  have "re_search r s = None \<longleftrightarrow>
      (\<forall>k \<le> length s. rm r \<lparr>rpos = k, rrest = drop k s, rgroups = []\<rparr> = [])"
    unfolding re_search_def by (subst re_search_from_None) simp
  then show ?thesis by (auto simp: re_found_def)
qed

lemma re_found_RAlt: "re_found (RAlt a b) s \<longleftrightarrow> re_found a s \<or> re_found b s"
  by (auto simp: re_found_iff)

lemma re_found_r_alts: "re_found (r_alts rs) s \<longleftrightarrow> (\<exists>r \<in> set rs. re_found r s)"
proof (induction rs rule: r_alts.induct)
  case 1
  then show ?case by (auto simp: re_found_iff split: list.splits)
qed (auto simp: re_found_RAlt)

text \<open>Searching a literal without regard to case is containment of the lowered texts.\<close>

lemma rm_r_ilit:
  "rm (r_ilit p) st =
     (if prefix (lower p) (lower (rrest st))
      then [st\<lparr>rpos := rpos st + length p, rrest := drop (length p) (rrest st)\<rparr>] else [])"
proof (induction p arbitrary: st)
  case Nil
  then show ?case by (simp add: lower_def)
next
  case (Cons c cs)
  then show ?case
    by (cases "rrest st") (auto simp: lower_def)
qed

lemma str_in_drop: "str_in p s \<longleftrightarrow> (\<exists>k \<le> length s. prefix p (drop k s))"
proof (induction s)
  case (Cons c cs)
  show ?case
  proof
    assume "str_in p (c # cs)"
    then consider "prefix p (c # cs)" | "str_in p cs" by auto
    then show "\<exists>k \<le> length (c # cs). prefix p (drop k (c # cs))"
    proof cases
      case 1
      then show ?thesis by (intro exI [of _ 0]) simp
    next
      case 2
      with Cons.IH obtain k where "k \<le> length cs" "prefix p (drop k cs)" by auto
      then show ?thesis by (intro exI [of _ "Suc k"]) simp
    qed
  next
    assume "\<exists>k \<le> length (c # cs). prefix p (drop k (c # cs))"
    then obtain k where "k \<le> length (c # cs)" "prefix p (drop k (c # cs))" by auto
    then show "str_in p (c # cs)"
      using Cons.IH by (cases k) auto
  qed
qed simp

lemma lower_drop: "lower (drop k s) = drop k (lower s)"
  by (simp add: lower_def drop_map)

lemma re_found_r_ilit: "re_found (r_ilit p) s \<longleftrightarrow> str_in (lower p) (lower s)"
  by (auto simp: re_found_iff rm_r_ilit str_in_drop lower_drop)

subsection \<open>Classes repeated greedily\<close>

lemma rstar_rset:
  "length (rrest st) \<le> n \<Longrightarrow>
   rstar (rset p) n st =
     map (\<lambda>k. st\<lparr>rpos := rpos st + k, rrest := drop k (rrest st)\<rparr>)
       (rev [0..<Suc (length (takeWhile p (rrest st)))])"
proof (induction n arbitrary: st)
  case 0
  then show ?case by simp
next
  case (Suc n)
  show ?case
  proof (cases "rrest st")
    case Nil
    then show ?thesis by simp
  next
    case (Cons c cs)
    let ?st = "st\<lparr>rpos := Suc (rpos st), rrest := cs\<rparr>" and ?m = "length (takeWhile p cs)"
    have "rev [0..<Suc (Suc ?m)] = map Suc (rev [0..<Suc ?m]) @ [0]"
      unfolding upt_conv_Cons [OF zero_less_Suc] rev.simps map_Suc_upt [symmetric] rev_map ..
    then show ?thesis
      using Suc.IH [of ?st] Suc.prems Cons
      by (cases "p c") (simp_all add: rev_map comp_def del: upt_Suc, simp)
  qed
qed

lemma rm_star_set:
  "rm (RStar (RSet p)) st =
     map (\<lambda>k. st\<lparr>rpos := rpos st + k, rrest := drop k (rrest st)\<rparr>)
       (rev [0..<Suc (length (takeWhile p (rrest st)))])"
  by (simp add: rstar_rset)

subsection \<open>The first match\<close>

text \<open>\<open>leads r st st'\<close>: the match of \<open>r\<close> the engine tries first at \<open>st\<close> ends in \<open>st'\<close>.\<close>

definition leads :: "regex \<Rightarrow> rstate \<Rightarrow> rstate \<Rightarrow> bool" where
  "leads r st st' \<longleftrightarrow> (\<exists>tl. rm r st = st' # tl)"

lemma leads_eps: "leads REps st st"
  by (simp add: leads_def)

lemma leads_seq: "leads a st st' \<Longrightarrow> leads b st' st'' \<Longrightarrow> leads (RSeq a b) st st''"
  by (auto simp: leads_def)

lemma leads_alt: "leads a st st' \<Longrightarrow> leads (RAlt a b) st st'"
  by (auto simp: leads_def)

lemma leads_opt: "leads r st st' \<Longrightarrow> leads (r_opt r) st st'"
  by (simp add: r_opt_def leads_alt)

lemma leads_opt_skip: "rm r st = [] \<Longrightarrow> leads (r_opt r) st st"
  by (simp add: r_opt_def leads_def)

lemma leads_set:
  "rrest st = c # cs \<Longrightarrow> p c \<Longrightarrow> leads (RSet p) st (st\<lparr>rpos := Suc (rpos st), rrest := cs\<rparr>)"
  by (simp add: leads_def)

lemma leads_plus_set:
  assumes "rrest st = xs @ ys" "xs \<noteq> []" "\<forall>x \<in> set xs. p x" "ys = [] \<or> \<not> p (hd ys)"
  shows "leads (r_plus (RSet p)) st (st\<lparr>rpos := rpos st + length xs, rrest := ys\<rparr>)"
proof -
  obtain c cs where xs: "xs = c # cs" using assms(2) by (cases xs) auto
  have "takeWhile p (cs @ ys) = cs"
    using assms(3,4) by (cases ys) (auto simp: xs)
  then have "leads (RStar (RSet p)) (st\<lparr>rpos := Suc (rpos st), rrest := cs @ ys\<rparr>)
      (st\<lparr>rpos := rpos st + length xs, rrest := ys\<rparr>)"
    by (simp add: leads_def rm_star_set xs del: rm.simps)
  then show ?thesis
    unfolding r_plus_def using assms(1,3) by (intro leads_seq [OF leads_set]) (auto simp: xs)
qed

lemma leads_group:
  "leads r st st' \<Longrightarrow> leads (RGroup n r) st (st'\<lparr>rgroups :=
     dset n (take (length (rrest st) - length (rrest st')) (rrest st)) (rgroups st')\<rparr>)"
  by (auto simp: leads_def)

lemma leads_ilit:
  "prefix (lower p) (lower (rrest st)) \<Longrightarrow>
   leads (r_ilit p) st (st\<lparr>rpos := rpos st + length p, rrest := drop (length p) (rrest st)\<rparr>)"
  by (simp add: leads_def rm_r_ilit)

lemma re_search_from_leads:
  assumes "k \<le> length s" "leads r \<lparr>rpos = n + k, rrest = drop k s, rgroups = []\<rparr> st"
    and "\<And>j. j < k \<Longrightarrow> rm r \<lparr>rpos = n + j, rrest = drop j s, rgroups = []\<rparr> = []"
  shows "re_search_from r n s = Some st"
  using assms
proof (induction k arbitrary: n s)
  case 0
  then show ?case by (subst re_search_from.simps) (auto simp: leads_def)
next
  case (Suc k)
  then obtain c cs where s: "s = c # cs" by (cases s) auto
  have "re_search_from r (Suc n) cs = Some st"
    using Suc.prems Suc.prems(3) [of "Suc j" for j] by (intro Suc.IH) (auto simp: s)
  then show ?case
    using Suc.prems(3) [of 0] by (subst re_search_from.simps) (simp add: s)
qed

lemma re_search_leads:
  assumes "k \<le> length s" "leads r \<lparr>rpos = k, rrest = drop k s, rgroups = []\<rparr> st"
    and "\<And>j. j < k \<Longrightarrow> rm r \<lparr>rpos = j, rrest = drop j s, rgroups = []\<rparr> = []"
  shows "re_search r s = Some st"
  unfolding re_search_def using assms re_search_from_leads [of k s r 0 st] by simp

text \<open>Two literals with text of one line between them.\<close>

lemma rm_seq_nonempty: "st' \<in> set (rm x st) \<Longrightarrow> rm y st' \<noteq> [] \<Longrightarrow> rm (RSeq x y) st \<noteq> []"
  by auto

lemma lower_take_prefix:
  assumes "prefix (lower a) (lower t)"
  shows "lower (take (length a) t) = lower a"
proof -
  obtain r where "lower t = lower a @ r" using assms by (auto simp: prefix_def)
  then have "take (length a) (lower t) = lower a" by (simp add: lower_def)
  then show ?thesis by (simp add: lower_def take_map)
qed

lemma re_found_between:
  "re_found (r_seqs [r_ilit a, RStar (RSet p), r_ilit b]) s \<longleftrightarrow>
     (\<exists>u x v y w. s = u @ x @ v @ y @ w \<and> lower x = lower a \<and> lower y = lower b \<and> list_all p v)"
  (is "?L \<longleftrightarrow> ?R")
proof
  assume ?L
  then obtain k where k: "k \<le> length s"
    "rm (r_seqs [r_ilit a, RStar (RSet p), r_ilit b]) \<lparr>rpos = k, rrest = drop k s, rgroups = []\<rparr> \<noteq> []"
    by (auto simp: re_found_iff)
  let ?t = "drop (length a) (drop k s)"
  from k(2) obtain m where a: "prefix (lower a) (lower (drop k s))"
    and m: "m \<le> length (takeWhile p ?t)" and b: "prefix (lower b) (lower (drop m ?t))"
    by (auto simp: rm_r_ilit rm_star_set less_Suc_eq_le simp del: drop_drop rm.simps(5) upt_Suc
        split: if_splits)
  have "s = take k s @ take (length a) (drop k s) @ take m ?t @ take (length b) (drop m ?t)
      @ drop (length b) (drop m ?t)"
    by (simp only: append_take_drop_id)
  moreover have "lower (take (length a) (drop k s)) = lower a" "lower (take (length b) (drop m ?t)) = lower b"
    by (rule lower_take_prefix [OF a], rule lower_take_prefix [OF b])
  moreover have "list_all p (take m ?t)"
  proof -
    have "set (take m ?t) \<subseteq> set (take (length (takeWhile p ?t)) ?t)"
      using m by (rule set_take_subset_set_take)
    then show ?thesis
      unfolding takeWhile_eq_take [symmetric] list_all_iff by (blast dest: set_takeWhileD)
  qed
  ultimately show ?R by blast
next
  assume ?R
  then obtain u x v y w where s: "s = u @ x @ v @ y @ w" "lower x = lower a" "lower y = lower b" "list_all p v"
    by blast
  have len: "length x = length a" "length y = length b"
    using s(2,3) by (auto simp: lower_def dest: map_eq_imp_length_eq)
  have "length v \<le> length (takeWhile p (v @ y @ w))"
    using s(4) by (simp add: list_all_iff takeWhile_append2)
  then have star: "\<lparr>rpos = i + length v, rrest = y @ w, rgroups = []\<rparr>
      \<in> set (rm (RStar (RSet p)) \<lparr>rpos = i, rrest = v @ y @ w, rgroups = []\<rparr>)" for i
    unfolding rm_star_set by (auto simp: less_Suc_eq_le simp del: upt_Suc intro!: image_eqI [of _ _ "length v"])
  have "rm (r_seqs [r_ilit a, RStar (RSet p), r_ilit b])
      \<lparr>rpos = length u, rrest = drop (length u) s, rgroups = []\<rparr> \<noteq> []"
    unfolding r_seqs.simps
  proof (rule rm_seq_nonempty [OF _ rm_seq_nonempty [OF star rm_seq_nonempty]])
    show "\<lparr>rpos = length u + length a, rrest = v @ y @ w, rgroups = []\<rparr>
        \<in> set (rm (r_ilit a) \<lparr>rpos = length u, rrest = drop (length u) s, rgroups = []\<rparr>)"
      using s len by (simp add: rm_r_ilit lower_def)
    show "\<lparr>rpos = length u + length a + length v + length b, rrest = w, rgroups = []\<rparr>
        \<in> set (rm (r_ilit b) \<lparr>rpos = length u + length a + length v, rrest = y @ w, rgroups = []\<rparr>)"
      using s len by (simp add: rm_r_ilit lower_def)
  qed simp
  then show ?L unfolding re_found_iff by (intro exI [of _ "length u"]) (simp add: s)
qed

end
