(* ===== verification/PyTime.thy ===== *)
theory PyTime
  imports PyRegex
begin

text \<open>
  \<open>datetime\<close> and \<open>timedelta\<close>: an instant is the number of microseconds since the epoch (UTC), a
  duration is a number of microseconds.  The clock is never read inside a definition: an operation
  that calls \<open>datetime.now()\<close> takes the reading as its argument.  Also the duration strings
  (\<open>15m\<close>, \<open>2h\<close>, \<open>1d\<close>) that the configuration, the coordinator and the scout parse.
\<close>

type_synonym instant = int
type_synonym duration = int

definition seconds :: "int \<Rightarrow> duration" where "seconds n = n * 1000000"
definition minutes :: "int \<Rightarrow> duration" where "minutes n = seconds (60 * n)"
definition hours :: "int \<Rightarrow> duration" where "hours n = minutes (60 * n)"
definition days :: "int \<Rightarrow> duration" where "days n = hours (24 * n)"

lemmas duration_defs = seconds_def minutes_def hours_def days_def

datatype py_exn = ValueError | OverflowError | TypeError | IndexError | OtherError str

subsection \<open>Formatting\<close>

text \<open>Year, month and day of a day number counted from 1970-01-01 (proleptic Gregorian).\<close>

definition civil :: "int \<Rightarrow> int \<times> int \<times> int" where
  "civil n =
     (let z = n + 719468; era = z div 146097; doe = z mod 146097;
          yoe = (doe - doe div 1460 + doe div 36524 - doe div 146096) div 365;
          doy = doe - (365 * yoe + yoe div 4 - yoe div 100);
          mp = (5 * doy + 2) div 153;
          d = doy - (153 * mp + 2) div 5 + 1;
          m = (if mp < 10 then mp + 3 else mp - 9);
          y = yoe + era * 400 + (if m \<le> 2 then 1 else 0)
      in (y, m, d))"

definition time_fields :: "instant \<Rightarrow> (int \<times> int \<times> int) \<times> (int \<times> int \<times> int) \<times> int" where
  "time_fields t =
     (let s = t div 1000000; sod = s mod 86400 in
      (civil (s div 86400), (sod div 3600, sod div 60 mod 60, sod mod 60), t mod 1000000))"

definition date_text :: "instant \<Rightarrow> str" where
  "date_text t =
     (case time_fields t of ((y, m, d), (hh, mm, ss), us) \<Rightarrow>
        pad0 4 (nat y) @ ''-'' @ pad0 2 (nat m) @ ''-'' @ pad0 2 (nat d) @ ''T''
        @ pad0 2 (nat hh) @ '':'' @ pad0 2 (nat mm) @ '':'' @ pad0 2 (nat ss))"

text \<open>\<open>t.astimezone(UTC).strftime("%Y-%m-%dT%H:%M:%S.000Z")\<close>\<close>

definition evidence_time :: "instant \<Rightarrow> str" where
  "evidence_time t = date_text t @ ''.000Z''"

text \<open>\<open>t.isoformat()\<close> of an aware UTC datetime\<close>

definition isoformat :: "instant \<Rightarrow> str" where
  "isoformat t =
     date_text t
     @ (if t mod 1000000 = 0 then '''' else ''.'' @ pad0 6 (nat (t mod 1000000)))
     @ ''+00:00''"

text \<open>\<open>t.strftime("%Y-%m-%dT%H:%M:%S.%f")[:-3] + "Z"\<close>\<close>

definition iso_millis :: "instant \<Rightarrow> str" where
  "iso_millis t = date_text t @ ''.'' @ pad0 3 (nat (t mod 1000000 div 1000)) @ ''Z''"

subsection \<open>Duration strings\<close>

text \<open>\<open>^([0-9]+)(m|h|d)$\<close>: the pattern of the configuration, the coordinator and the scout.\<close>

definition duration_re :: regex where
  "duration_re =
     r_seqs [RBegin, RGroup 1 (r_plus (RSet is_digit)),
       RGroup 2 (RSet (\<lambda>c. c = CHR ''m'' \<or> c = CHR ''h'' \<or> c = CHR ''d'')), REnd]"

text \<open>
  The amount and the unit letter of a matched string.  \<open>int\<close> refuses more than 4300 digits with a
  \<open>ValueError\<close>.
\<close>

definition duration_parts :: "str \<Rightarrow> (py_exn + nat \<times> char) option" where
  "duration_parts s =
     map_option (\<lambda>st.
       let g1 = the (dget (rgroups st) 1); g2 = the (dget (rgroups st) 2) in
       if 4300 < length g1 then Inl ValueError else Inr (read_nat g1, hd g2)) (re_match duration_re s)"

text \<open>\<open>timedelta(minutes=n)\<close> and its kin overflow beyond 999999999 days.\<close>

definition mk_timedelta :: "int \<Rightarrow> char \<Rightarrow> py_exn + duration" where
  "mk_timedelta n u =
     (let d = (if u = CHR ''m'' then minutes n else if u = CHR ''h'' then hours n else days n) in
      if days 1000000000 \<le> d then Inl OverflowError else Inr d)"

definition parse_duration :: "str \<Rightarrow> py_exn + duration" where
  "parse_duration s =
     (case duration_parts s of
        None \<Rightarrow> Inl ValueError
      | Some (Inl e) \<Rightarrow> Inl e
      | Some (Inr (n, u)) \<Rightarrow> mk_timedelta (int n) u)"

subsection \<open>What the duration pattern accepts\<close>

definition unit_char :: "char \<Rightarrow> bool" where
  "unit_char c \<longleftrightarrow> c = CHR ''m'' \<or> c = CHR ''h'' \<or> c = CHR ''d''"

lemma unit_not_digit: "unit_char c \<Longrightarrow> \<not> is_digit c"
  by (auto simp: unit_char_def is_digit_def)

text \<open>
  A greedy run over a character class gives its matches from the longest to the empty one.
\<close>

lemma rstar_rset_split:
  assumes "\<forall>c \<in> set ds. p c" and "rest = [] \<or> \<not> p (hd rest)"
  shows "length ds \<le> n \<Longrightarrow>
    rstar (rset p) n \<lparr>rpos = k, rrest = ds @ rest, rgroups = g\<rparr> =
      map (\<lambda>i. \<lparr>rpos = k + i, rrest = drop i ds @ rest, rgroups = g\<rparr>) (rev [0..<Suc (length ds)])"
  using assms
proof (induction ds arbitrary: n k)
  case Nil
  then show ?case
    by (cases n; cases rest) auto
next
  case (Cons d ds)
  then obtain m where n: "n = Suc m" "length ds \<le> m" by (cases n) auto
  have "rstar (rset p) n \<lparr>rpos = k, rrest = (d # ds) @ rest, rgroups = g\<rparr> =
      rstar (rset p) m \<lparr>rpos = Suc k, rrest = ds @ rest, rgroups = g\<rparr> @
      [\<lparr>rpos = k, rrest = (d # ds) @ rest, rgroups = g\<rparr>]"
    using Cons.prems n by simp
  also have "\<dots> = map (\<lambda>i. \<lparr>rpos = Suc k + i, rrest = drop i ds @ rest, rgroups = g\<rparr>)
       (rev [0..<Suc (length ds)]) @ [\<lparr>rpos = k, rrest = (d # ds) @ rest, rgroups = g\<rparr>]"
    using Cons n by simp
  also have "\<dots> = map (\<lambda>i. \<lparr>rpos = k + i, rrest = drop i (d # ds) @ rest, rgroups = g\<rparr>)
       (rev [0..<Suc (length (d # ds))])"
    by (simp add: upt_conv_Cons map_Suc_upt [symmetric] rev_map comp_def del: upt_Suc)
  finally show ?case .
qed

lemma concat_rev_last:
  "(\<And>i. i < n \<Longrightarrow> f i = []) \<Longrightarrow> concat (map f (rev [0..<Suc n])) = f n"
  by simp

definition duration_shape :: "str \<Rightarrow> (str \<times> char) option" where
  "duration_shape s =
     (case (takeWhile is_digit s, dropWhile is_digit s) of
        (d # ds, u # us) \<Rightarrow>
          if unit_char u \<and> (us = [] \<or> us = [CHR 0x0A]) then Some (d # ds, u) else None
      | _ \<Rightarrow> None)"

lemma re_match_duration:
  "map_option (\<lambda>st. (the (dget (rgroups st) 1), the (dget (rgroups st) 2))) (re_match duration_re s) =
     map_option (\<lambda>(ds, u). (ds, [u])) (duration_shape s)"
proof -
  define tail where "tail = dropWhile is_digit s"
  have s: "s = takeWhile is_digit s @ tail" by (simp add: tail_def)
  have hd: "tail = [] \<or> \<not> is_digit (hd tail)" unfolding tail_def using hd_dropWhile [of is_digit s] by blast
  show ?thesis
  proof (cases "takeWhile is_digit s")
    case Nil
    with hd have "rset is_digit \<lparr>rpos = 0, rrest = s, rgroups = []\<rparr> = []"
      using s by (cases s) auto
    then show ?thesis
      using Nil by (simp add: re_match_def duration_re_def r_plus_def duration_shape_def)
  next
    case (Cons d ds)
    then have all: "is_digit d" "\<forall>c \<in> set ds. is_digit c"
      by (metis list.set_intros(1) set_takeWhileD, metis list.set_intros(2) set_takeWhileD)
    from s Cons have s': "s = d # ds @ tail" by simp
    let ?n = "length ds"
    let ?st = "\<lambda>i. \<lparr>rpos = Suc i, rrest = drop i ds @ tail, rgroups = [(1::nat, take (Suc i) s)]\<rparr>"
    have run: "rm (RGroup 1 (r_plus (RSet is_digit))) \<lparr>rpos = 0, rrest = s, rgroups = []\<rparr> =
        map ?st (rev [0..<Suc ?n])"
    proof -
      have "rm (r_plus (RSet is_digit)) \<lparr>rpos = 0, rrest = s, rgroups = []\<rparr> =
          rstar (rset is_digit) (length (ds @ tail)) \<lparr>rpos = 1, rrest = ds @ tail, rgroups = []\<rparr>"
        using all by (simp add: r_plus_def s')
      also have "\<dots> = map (\<lambda>i. \<lparr>rpos = 1 + i, rrest = drop i ds @ tail, rgroups = []\<rparr>)
          (rev [0..<Suc ?n])"
        by (rule rstar_rset_split) (use all hd in auto)
      finally show ?thesis
        by (auto simp: s' Suc_diff_le simp del: upt_Suc intro!: map_cong)
    qed
    have digit: "rset (\<lambda>c. c = CHR ''m'' \<or> c = CHR ''h'' \<or> c = CHR ''d'') (?st i) = []"
      if "i < ?n" for i
    proof -
      from that obtain c cs where c: "drop i ds = c # cs" by (metis Cons_nth_drop_Suc)
      then have "is_digit c" using all(2) by (metis in_set_dropD list.set_intros(1))
      then show ?thesis using c unit_not_digit by (auto simp: unit_char_def)
    qed
    let ?last = "RSeq (RGroup 2 (RSet (\<lambda>c. c = CHR ''m'' \<or> c = CHR ''h'' \<or> c = CHR ''d''))) (RSeq REnd REps)"
    have "rm duration_re \<lparr>rpos = 0, rrest = s, rgroups = []\<rparr> =
        concat (map (rm ?last) (map ?st (rev [0..<Suc ?n])))"
      by (simp only: duration_re_def r_seqs.simps rm.simps(3) [of RBegin] rm.simps(7) rstate.select_convs
          if_True list.map concat.simps append_Nil2 rm.simps(3) [of "RGroup 1 _"] run refl)
    also have "\<dots> = rm ?last (?st ?n)"
      using digit by simp
    finally have eq: "rm duration_re \<lparr>rpos = 0, rrest = s, rgroups = []\<rparr> = rm ?last (?st ?n)" .
    have ts: "take (Suc ?n) s = d # ds" by (simp add: s')
    have shape: "duration_shape s =
        (case tail of [] \<Rightarrow> None
         | u # us \<Rightarrow> if unit_char u \<and> (us = [] \<or> us = [CHR 0x0A]) then Some (d # ds, u) else None)"
      unfolding duration_shape_def by (simp add: Cons tail_def [symmetric] split: list.splits)
    show ?thesis
      unfolding re_match_def eq shape
      by (cases tail) (auto simp: ts unit_char_def)
  qed
qed

lemma duration_parts_shape:
  "duration_parts s =
     map_option (\<lambda>(ds, u). if 4300 < length ds then Inl ValueError else Inr (read_nat ds, u))
       (duration_shape s)"
  using re_match_duration [of s]
  by (cases "re_match duration_re s"; cases "duration_shape s")
     (auto simp: duration_parts_def Let_def)

lemma duration_shape_Some:
  "duration_shape s = Some (ds, u) \<longleftrightarrow>
     ds \<noteq> [] \<and> (\<forall>c \<in> set ds. is_digit c) \<and> unit_char u \<and> (s = ds @ [u] \<or> s = ds @ [u, CHR 0x0A])"
  (is "?l \<longleftrightarrow> ?r")
proof
  assume l: ?l
  obtain a as where t: "takeWhile is_digit s = a # as"
    using l by (cases "takeWhile is_digit s") (simp_all add: duration_shape_def)
  obtain b us where d: "dropWhile is_digit s = b # us"
    using l t by (cases "dropWhile is_digit s") (simp_all add: duration_shape_def)
  have f: "ds = takeWhile is_digit s" "dropWhile is_digit s = u # us"
      "unit_char u" "us = [] \<or> us = [CHR 0x0A]"
    using l t d by (auto simp: duration_shape_def split: if_splits)
  have "s = ds @ u # us" unfolding f(1) f(2) [symmetric] by simp
  moreover have "\<forall>c \<in> set ds. is_digit c" unfolding f(1) by (auto dest: set_takeWhileD)
  moreover have "ds \<noteq> []" unfolding f(1) t by simp
  ultimately show ?r using f(3,4) by blast
next
  assume r: ?r
  then have "\<not> is_digit u" using unit_not_digit by blast
  with r have "takeWhile is_digit s = ds" "dropWhile is_digit s = u # drop (Suc (length ds)) s"
    by (auto simp: takeWhile_append2 dropWhile_append2)
  with r show ?l
    by (auto simp: duration_shape_def split: list.splits)
qed

end
