(* ===== verification/PyValue.thy ===== *)
theory PyValue
  imports PyTime
begin

text \<open>
  The values found in a Kubernetes object: \<open>None\<close>, booleans, integers, strings, lists and
  dictionaries.  Floating-point leaves are not modelled (quantities are strings in the API).
  \<open>py_eq\<close> is Python's \<open>==\<close>: a boolean equals the integer it stands for, and dictionaries are
  compared without regard to order.
\<close>

datatype pyval =
    PNone
  | PBool bool
  | PInt int
  | PStr str
  | PList "pyval list"
  | PDict "(str \<times> pyval) list"

type_synonym pydict = "(str, pyval) dict"

fun as_dict :: "pyval \<Rightarrow> pydict option" where
  "as_dict (PDict d) = Some d"
| "as_dict _ = None"

fun as_list :: "pyval \<Rightarrow> pyval list option" where
  "as_list (PList xs) = Some xs"
| "as_list _ = None"

fun as_str :: "pyval \<Rightarrow> str option" where
  "as_str (PStr s) = Some s"
| "as_str _ = None"

text \<open>\<open>bool(v)\<close>\<close>

fun truthy :: "pyval \<Rightarrow> bool" where
  "truthy PNone = False"
| "truthy (PBool b) = b"
| "truthy (PInt n) = (n \<noteq> 0)"
| "truthy (PStr s) = (s \<noteq> [])"
| "truthy (PList xs) = (xs \<noteq> [])"
| "truthy (PDict d) = (d \<noteq> [])"

text \<open>\<open>d.get(k, default)\<close>\<close>

definition vget :: "pyval \<Rightarrow> pydict \<Rightarrow> str \<Rightarrow> pyval" where
  "vget dflt d k = dget_or dflt d k"

text \<open>\<open>x if isinstance(x, dict) else {}\<close>\<close>

definition dict_or_empty :: "pyval \<Rightarrow> pydict" where
  "dict_or_empty v = (case v of PDict d \<Rightarrow> d | _ \<Rightarrow> [])"

definition list_or_empty :: "pyval \<Rightarrow> pyval list" where
  "list_or_empty v = (case v of PList xs \<Rightarrow> xs | _ \<Rightarrow> [])"

subsection \<open>Equality\<close>

function py_eq :: "pyval \<Rightarrow> pyval \<Rightarrow> bool" where
  "py_eq PNone w = (w = PNone)"
| "py_eq (PBool b) w =
     (case w of PBool c \<Rightarrow> b = c | PInt n \<Rightarrow> n = (if b then 1 else 0) | _ \<Rightarrow> False)"
| "py_eq (PInt m) w =
     (case w of PInt n \<Rightarrow> m = n | PBool c \<Rightarrow> m = (if c then 1 else 0) | _ \<Rightarrow> False)"
| "py_eq (PStr s) w = (w = PStr s)"
| "py_eq (PList xs) w =
     (case w of
        PList ys \<Rightarrow> length xs = length ys \<and> list_all (\<lambda>(x, y). py_eq x y) (zip xs ys)
      | _ \<Rightarrow> False)"
| "py_eq (PDict d) w =
     (case w of
        PDict e \<Rightarrow> length d = length e \<and>
          list_all (\<lambda>(k, v). case dget e k of None \<Rightarrow> False | Some u \<Rightarrow> py_eq v u) d
      | _ \<Rightarrow> False)"
  by pat_completeness auto
termination
proof (relation "measure (\<lambda>(v, w). size v)", goal_cases)
  case 1
  show ?case by simp
next
  case (2 xs w ys p x y)
  then have "x \<in> set xs" by (auto dest: set_zip_leftD)
  then have "size x < Suc (size_list size xs)"
    by (metis less_Suc_eq_le size_list_estimation' order_refl)
  with 2 show ?case by auto
next
  case (3 d w e p k v u)
  then have "(k, v) \<in> set d" by simp
  then have "size v < Suc (size_list (size_prod (\<lambda>_. 0) size) d)"
  proof (induction d)
    case (Cons a d)
    then show ?case by (cases a) auto
  qed simp
  then show ?case by simp
qed

subsection \<open>Text\<close>

text \<open>\<open>repr(v)\<close> and \<open>str(v)\<close>\<close>

fun val_repr :: "pyval \<Rightarrow> str" where
  "val_repr PNone = ''None''"
| "val_repr (PBool b) = (if b then ''True'' else ''False'')"
| "val_repr (PInt n) = show_int n"
| "val_repr (PStr s) = py_repr s"
| "val_repr (PList xs) = ''['' @ join '', '' (map val_repr xs) @ '']''"
| "val_repr (PDict d) =
     ''{'' @ join '', '' (map (\<lambda>(k, v). py_repr k @ '': '' @ val_repr v) d) @ ''}''"

definition py_str :: "pyval \<Rightarrow> str" where
  "py_str v = (case v of PStr s \<Rightarrow> s | _ \<Rightarrow> val_repr v)"

text \<open>\<open>json.dumps(v, separators=(",", ":"))\<close>, with ASCII output\<close>

definition json_char :: "char \<Rightarrow> str" where
  "json_char c =
     (let n = of_char c :: nat in
      if c = dquote \<or> c = bslash then [bslash, c]
      else if n = 10 then [bslash, CHR ''n'']
      else if n = 13 then [bslash, CHR ''r'']
      else if n = 9 then [bslash, CHR ''t'']
      else if n = 8 then [bslash, CHR ''b'']
      else if n = 12 then [bslash, CHR ''f'']
      else if n < 32 \<or> 127 \<le> n
        then [bslash, CHR ''u'', CHR ''0'', CHR ''0'', hex_char (n div 16), hex_char (n mod 16)]
      else [c])"

definition json_text :: "str \<Rightarrow> str" where
  "json_text s = [dquote] @ concat (map json_char s) @ [dquote]"

fun json_dumps :: "pyval \<Rightarrow> str" where
  "json_dumps PNone = ''null''"
| "json_dumps (PBool b) = (if b then ''true'' else ''false'')"
| "json_dumps (PInt n) = show_int n"
| "json_dumps (PStr s) = json_text s"
| "json_dumps (PList xs) = ''['' @ join '','' (map json_dumps xs) @ '']''"
| "json_dumps (PDict d) =
     ''{'' @ join '','' (map (\<lambda>(k, v). json_text k @ '':'' @ json_dumps v) d) @ ''}''"

subsection \<open>Well-formed values and an induction over them\<close>

text \<open>Every dictionary inside has distinct keys, as Python guarantees.\<close>

fun vwf :: "pyval \<Rightarrow> bool" where
  "vwf (PList xs) = list_all vwf xs"
| "vwf (PDict d) = (dwf d \<and> list_all (\<lambda>(k, v). vwf v) d)"
| "vwf _ = True"

lemma vwf_dget: "vwf (PDict d) \<Longrightarrow> dget d k = Some v \<Longrightarrow> vwf v"
  by (auto simp: list_all_iff dest: map_of_SomeD)

lemma vwf_nth: "vwf (PList xs) \<Longrightarrow> i < length xs \<Longrightarrow> vwf (xs ! i)"
  by (simp add: list_all_length)

lemma pyval_induct [case_names PNone PBool PInt PStr PList PDict]:
  assumes "P PNone" "\<And>b. P (PBool b)" "\<And>n. P (PInt n)" "\<And>s. P (PStr s)"
    "\<And>xs. (\<And>x. x \<in> set xs \<Longrightarrow> P x) \<Longrightarrow> P (PList xs)"
    "\<And>d. (\<And>k v. (k, v) \<in> set d \<Longrightarrow> P v) \<Longrightarrow> P (PDict d)"
  shows "P v"
proof (induction v)
  case (PDict d)
  then show ?case using assms(6) by (metis fsts.intros prod.collapse snds.intros snd_conv)
qed (use assms in auto)

lemma py_eq_refl: "vwf v \<Longrightarrow> py_eq v v"
proof (induction v rule: pyval_induct)
  case (PList xs)
  then show ?case
    by (auto simp: list_all_length)
next
  case (PDict d)
  then show ?case
    by (auto simp: list_all_iff dwf_Some_iff [symmetric] split: option.splits)
qed simp_all

end
