(* ===== verification/PyFloat.thy ===== *)
theory PyFloat
  imports Prelude
begin

text \<open>
  Python floats (IEEE-754 binary64) on the range the confidence scores live in.  A float is the
  integer number of units of \<open>2 ^ -64\<close>: every double of magnitude at least \<open>2 ^ -11\<close> is such a
  multiple, and all literals and intermediate scores of the code are larger than that.  An
  operation computes the exact result and rounds it to 53 significant bits, ties to even.
\<close>

type_synonym dbl = int

definition dbl_unit :: int where
  "dbl_unit = 2 ^ 64"

fun bitlen :: "nat \<Rightarrow> nat" where
  "bitlen n = (if n = 0 then 0 else Suc (bitlen (n div 2)))"

declare bitlen.simps [simp del]

definition round_half_even :: "int \<Rightarrow> int \<Rightarrow> int" where
  "round_half_even n d =
     (let q = n div d; r = n mod d in
      if 2 * r < d then q else if d < 2 * r then q + 1 else if even q then q else q + 1)"

text \<open>The double nearest to \<open>n / d\<close> units.\<close>

definition fl_quot :: "int \<Rightarrow> int \<Rightarrow> dbl" where
  "fl_quot n d =
     (let k = bitlen (nat (\<bar>n\<bar> div d)) - 53 in
      sgn n * (round_half_even \<bar>n\<bar> (d * 2 ^ k) * 2 ^ k))"

text \<open>The literal \<open>p / q\<close>, as in \<open>0.15 = dlit 15 100\<close>.\<close>

definition dlit :: "int \<Rightarrow> int \<Rightarrow> dbl" where
  "dlit p q = fl_quot (p * dbl_unit) q"

definition dadd :: "dbl \<Rightarrow> dbl \<Rightarrow> dbl" where
  "dadd x y = fl_quot (x + y) 1"

definition dsub :: "dbl \<Rightarrow> dbl \<Rightarrow> dbl" where
  "dsub x y = fl_quot (x - y) 1"

text \<open>An \<open>int\<close> times a float.\<close>

definition dmul_int :: "int \<Rightarrow> dbl \<Rightarrow> dbl" where
  "dmul_int n x = fl_quot (n * x) 1"

lemmas dbl_defs = dlit_def dadd_def dsub_def dmul_int_def fl_quot_def

lemma round_half_even_one [simp]: "round_half_even n 1 = n"
  by (simp add: round_half_even_def)

lemma bitlen_le: "n < 2 ^ k \<Longrightarrow> bitlen n \<le> k"
proof (induction k arbitrary: n)
  case 0
  then show ?case by (simp add: bitlen.simps)
next
  case (Suc k)
  then have "n div 2 < 2 ^ k" by auto
  with Suc.IH have "bitlen (n div 2) \<le> k" by blast
  then show ?case by (subst bitlen.simps) simp
qed

text \<open>Integers below \<open>2 ^ 53\<close> units are exact.\<close>

lemma fl_quot_exact:
  assumes "\<bar>n\<bar> < 2 ^ 53"
  shows "fl_quot n 1 = n"
proof -
  have "nat \<bar>n\<bar> < 2 ^ 53" using assms by (simp add: nat_less_iff)
  then have "bitlen (nat \<bar>n\<bar>) - 53 = 0" using bitlen_le [of "nat \<bar>n\<bar>" 53] by simp
  then show ?thesis by (simp add: fl_quot_def sgn_mult_abs)
qed

lemma round_half_even_zero: "0 < d \<Longrightarrow> round_half_even 0 d = 0"
  by (simp add: round_half_even_def)

lemma round_half_even_bounds:
  assumes "0 < d"
  shows "\<bar>2 * (round_half_even n d * d - n)\<bar> \<le> d"
proof -
  have n: "n = d * (n div d) + n mod d" by simp
  have r: "0 \<le> n mod d" "n mod d < d" using assms by auto
  consider "round_half_even n d = n div d" "2 * (n mod d) \<le> d"
    | "round_half_even n d = n div d + 1" "d \<le> 2 * (n mod d)"
    by (cases "2 * (n mod d) < d"; cases "d < 2 * (n mod d)"; cases "even (n div d)")
       (auto simp: round_half_even_def Let_def)
  then show ?thesis
  proof cases
    case 1
    then have "round_half_even n d * d - n = - (n mod d)"
      using n by (simp add: mult.commute minus_mod_eq_mult_div [symmetric])
    with 1 r show ?thesis by simp
  next
    case 2
    then have "round_half_even n d * d - n = d - n mod d"
      using n by (simp add: algebra_simps minus_mod_eq_mult_div [symmetric])
    with 2 r show ?thesis by simp
  qed
qed

lemma dlit_examples:
  "dlit 95 100 = 17524406870024073216" "dlit 1 2 = 9223372036854775808"
  "dlit 5 100 = 922337203685477632"
  by (simp_all add: dbl_defs dbl_unit_def round_half_even_def bitlen.simps)


text \<open>The rounding error: half a unit in the last of 53 places.\<close>

lemma fl_quot_error:
  assumes "0 < d" "0 \<le> n" "n div d < 2 ^ b" "53 \<le> b"
  shows "\<bar>2 * (fl_quot n d * d - n)\<bar> \<le> d * 2 ^ (b - 53)"
proof -
  define k where "k = bitlen (nat (n div d)) - 53"
  have "nat (n div d) < 2 ^ b" using assms by (simp add: nat_less_iff)
  then have k: "k \<le> b - 53" using bitlen_le [of "nat (n div d)" b] by (simp add: k_def)
  have f: "fl_quot n d = round_half_even n (d * 2 ^ k) * 2 ^ k"
    using assms(2) by (cases "n = 0") (use assms(1) in \<open>simp_all add: fl_quot_def k_def Let_def round_half_even_zero\<close>)
  have "\<bar>2 * (round_half_even n (d * 2 ^ k) * (d * 2 ^ k) - n)\<bar> \<le> d * 2 ^ k"
    using assms(1) by (intro round_half_even_bounds) simp
  also have "\<dots> \<le> d * 2 ^ (b - 53)" using assms(1) k by simp
  finally show ?thesis by (simp add: f algebra_simps)
qed

lemma fl_quot_cancel:
  assumes "0 < c" "0 < d" "0 \<le> n"
  shows "fl_quot (c * n) (c * d) = fl_quot n d"
proof -
  have "round_half_even (c * n) (c * d * 2 ^ k) = round_half_even n (d * 2 ^ k)" for k
  proof -
    have "(c * n) mod (c * (d * 2 ^ k)) = c * (n mod (d * 2 ^ k))" by simp
    then show ?thesis using assms by (simp add: round_half_even_def Let_def mult.assoc)
  qed
  then show ?thesis using assms by (simp add: fl_quot_def Let_def abs_mult sgn_mult)
qed

text \<open>A quotient of small counts exceeds the literal 0.05 exactly when it exceeds one twentieth.\<close>

lemma fl_quot_above_five_percent:
  assumes "0 \<le> m" "m \<le> n" "0 < n" "n < 2 ^ 40"
  shows "dlit 5 100 < fl_quot (m * dbl_unit) n \<longleftrightarrow> n < 20 * m"
proof -
  let ?x = "fl_quot (m * dbl_unit) n" and ?l = "dlit 5 100"
  have l: "?l = 922337203685477632"
    by (simp add: dbl_defs dbl_unit_def round_half_even_def bitlen.simps)
  have le: "m * dbl_unit div n \<le> dbl_unit"
  proof -
    have "m * dbl_unit \<le> n * dbl_unit" using assms by (intro mult_right_mono) (auto simp: dbl_unit_def)
    then have "m * dbl_unit div n \<le> n * dbl_unit div n" using assms by (intro zdiv_mono1) auto
    then show ?thesis using assms by simp
  qed
  have e: "\<bar>2 * (?x * n - m * dbl_unit)\<bar> \<le> n * 2 ^ 12"
    using fl_quot_error [of n "m * dbl_unit" 65] le assms by (simp add: dbl_unit_def)
  have small: "n < 1099511627776" using assms(4) by simp
  define X where "X = ?x * n"
  have X: "2 * X - 36893488147419103232 * m \<le> 4096 * n" "36893488147419103232 * m - 2 * X \<le> 4096 * n"
    unfolding X_def using e by (simp_all add: dbl_unit_def abs_le_iff mult.commute [of n])
  consider "n < 20 * m" | "n = 20 * m" | "20 * m < n" by linarith
  then show ?thesis
  proof cases
    case 1
    have "922337203685477632 * n < X" using X 1 small by linarith
    then have "?l * n < ?x * n" unfolding l X_def .
    then show ?thesis using assms(3) 1 by (simp add: mult_less_cancel_right)
  next
    case 2
    then have "?x = fl_quot (m * dbl_unit) (m * 20)" by (simp add: mult.commute)
    also have "\<dots> = fl_quot dbl_unit 20" using 2 assms by (intro fl_quot_cancel) (auto simp: dbl_unit_def)
    also have "\<dots> = ?l"
      unfolding l by (simp add: dbl_defs dbl_unit_def round_half_even_def bitlen.simps)
    finally show ?thesis using 2 by simp
  next
    case 3
    have "X < 922337203685477632 * n" using X 3 small by linarith
    then have "?x * n < ?l * n" unfolding l X_def .
    then show ?thesis using assms(3) 3 by (simp add: mult_less_cancel_right)
  qed
qed

text \<open>A quotient that rounds loses at most a part in \<open>2 ^ 53\<close>.\<close>

lemma fl_quot_rel_error:
  assumes "0 < d" "2 ^ 53 \<le> n div d"
  shows "2 ^ 53 * (n - fl_quot n d * d) \<le> n"
proof -
  have pos: "0 \<le> n"
  proof (rule ccontr)
    assume "\<not> 0 \<le> n"
    then have "n div d < 0" using assms(1) pos_imp_zdiv_neg_iff [of d n] by linarith
    with assms(2) zero_le_power [of "2 :: int" 53] show False by linarith
  qed
  have "1 \<le> nat (n div d)" using assms(2) by simp
  from ex_power_ivl1 [OF _ this, of 2] obtain b where b: "2 ^ b \<le> nat (n div d)" "nat (n div d) < 2 ^ (b + 1)"
    by auto
  have low: "(2 :: int) ^ b \<le> n div d"
  proof -
    have "0 \<le> n div d" using assms(2) zero_le_power [of "2 :: int" 53] by linarith
    then have "int (nat (n div d)) = n div d" by simp
    moreover have "int (2 ^ b) \<le> int (nat (n div d))" using b(1) by (simp only: of_nat_le_iff)
    ultimately show ?thesis by simp
  qed
  have high: "n div d < (2 :: int) ^ (b + 1)"
    using b(2) by (metis nat_less_numeral_power_cancel_iff)
  have "53 \<le> b"
  proof (rule ccontr)
    assume "\<not> 53 \<le> b"
    then have "(2 :: int) ^ (b + 1) \<le> 2 ^ 53" by (intro power_increasing) auto
    with high assms(2) show False by linarith
  qed
  then have "\<bar>2 * (fl_quot n d * d - n)\<bar> \<le> d * 2 ^ (b + 1 - 53)"
    using high assms(1) pos by (intro fl_quot_error) simp_all
  then have "2 * (n - fl_quot n d * d) \<le> d * 2 ^ (b - 52)" by simp
  then have "2 ^ 52 * (2 * (n - fl_quot n d * d)) \<le> 2 ^ 52 * (d * 2 ^ (b - 52))" by (intro mult_left_mono) simp_all
  also have "\<dots> = d * 2 ^ (52 + (b - 52))" unfolding power_add by simp
  also have "\<dots> = d * 2 ^ b" using \<open>53 \<le> b\<close> by simp
  also have "\<dots> \<le> d * (n div d)" using low assms(1) by (intro mult_left_mono) simp_all
  also have "\<dots> \<le> n" using assms(1) by (metis mult_div_mod_eq le_add_same_cancel1 pos_mod_sign)
  finally show ?thesis by simp
qed

subsection \<open>Which integers are floats\<close>

text \<open>Integers with 53 significant bits\<close>

definition is_float :: "int \<Rightarrow> bool" where
  "is_float x \<longleftrightarrow> 2 ^ (bitlen (nat \<bar>x\<bar>) - 53) dvd x"

lemma less_bitlen: "n < 2 ^ bitlen n"
proof (induction n rule: bitlen.induct)
  case (1 n)
  show ?case
  proof (cases "n = 0")
    case False
    then have "n div 2 + 1 \<le> 2 ^ bitlen (n div 2)" using 1 by (simp add: Suc_leI)
    moreover have "n < 2 * (n div 2 + 1)" by simp
    ultimately have "n < 2 * 2 ^ bitlen (n div 2)" by linarith
    then show ?thesis using False by (simp add: bitlen.simps [of n])
  qed (simp add: bitlen.simps)
qed

lemma bitlen_mono: "m \<le> n \<Longrightarrow> bitlen m \<le> bitlen n"
  using bitlen_le [of m "bitlen n"] less_bitlen [of n] by simp

lemma int_div_less:
  assumes "0 < c" "a < b * c"
  shows "a div c < (b :: int)"
proof -
  have "a div c * c \<le> a" using assms(1) by (simp add: minus_mod_eq_div_mult [symmetric])
  with assms have "a div c * c < b * c" by linarith
  then show ?thesis using assms(1) by simp
qed

lemma bitlen_shift: "0 < n \<Longrightarrow> bitlen (n * 2 ^ k) = bitlen n + k"
proof (induction k)
  case (Suc k)
  have double: "bitlen (2 * m) = Suc (bitlen m)" if "0 < m" for m using that by (simp add: bitlen.simps [of "2 * m"])
  have "n * 2 ^ Suc k = 2 * (n * 2 ^ k)" by simp
  then have "bitlen (n * 2 ^ Suc k) = bitlen (2 * (n * 2 ^ k))" by (rule arg_cong)
  also have "\<dots> = bitlen n + Suc k" using double [of "n * 2 ^ k"] Suc by simp
  finally show ?case .
qed simp

lemma is_float_scale:
  assumes "is_float x"
  shows "is_float (x * 2 ^ k)"
proof (cases "x = 0")
  case False
  let ?b = "bitlen (nat \<bar>x\<bar>)"
  have "nat \<bar>x * 2 ^ k\<bar> = nat \<bar>x\<bar> * 2 ^ k" by (simp add: abs_mult nat_mult_distrib nat_power_eq)
  then have b: "bitlen (nat \<bar>x * 2 ^ k\<bar>) = ?b + k" using False bitlen_shift [of "nat \<bar>x\<bar>" k] by simp
  have "(2::int) ^ (?b + k - 53) dvd 2 ^ (?b - 53) * 2 ^ k"
    unfolding power_add [symmetric] by (rule le_imp_power_dvd) simp
  also have "\<dots> dvd x * 2 ^ k" using assms by (simp add: is_float_def)
  finally show ?thesis by (simp add: is_float_def b)
qed (simp add: is_float_def)

text \<open>Rounding gives a float.\<close>

lemma is_float_fl_quot:
  assumes "0 < d"
  shows "is_float (fl_quot n d)"
proof -
  define k where "k = bitlen (nat (\<bar>n\<bar> div d)) - 53"
  define q where "q = round_half_even \<bar>n\<bar> (d * 2 ^ k)"
  have f: "fl_quot n d = sgn n * (q * 2 ^ k)" by (simp add: fl_quot_def k_def q_def Let_def)
  have low: "\<bar>n\<bar> div (d * 2 ^ k) < 2 ^ 53"
  proof -
    have "\<bar>n\<bar> div d < 2 ^ bitlen (nat (\<bar>n\<bar> div d))"
      using less_bitlen [of "nat (\<bar>n\<bar> div d)"] assms by (simp add: nat_less_iff pos_imp_zdiv_nonneg_iff)
    also have "\<dots> \<le> 2 ^ (53 + k)" by (intro power_increasing) (simp_all add: k_def)
    finally have "\<bar>n\<bar> div d < 2 ^ 53 * 2 ^ k" by (simp add: power_add)
    then have "\<bar>n\<bar> div d div 2 ^ k < 2 ^ 53" by (intro int_div_less [of "2 ^ k"]) simp_all
    then show ?thesis using assms by (simp add: zdiv_zmult2_eq)
  qed
  have q: "0 \<le> q" "q \<le> 2 ^ 53"
    using low assms by (auto simp: q_def round_half_even_def Let_def pos_imp_zdiv_nonneg_iff add_nonneg_nonneg)
  have "2 ^ (bitlen (nat (q * 2 ^ k)) - 53) dvd q * 2 ^ k"
  proof (cases "q = 2 ^ 53")
    case True
    have "q * 2 ^ k = 2 ^ (53 + k)" by (simp add: True power_add)
    moreover have "bitlen (nat (q * 2 ^ k)) \<le> 54 + k"
      by (rule bitlen_le) (simp add: True nat_mult_distrib nat_power_eq power_add)
    then have "(2::int) ^ (bitlen (nat (q * 2 ^ k)) - 53) dvd 2 ^ (53 + k)" by (intro le_imp_power_dvd) simp
    ultimately show ?thesis by simp
  next
    case False
    with q have "nat (q * 2 ^ k) < 2 ^ (53 + k)" by (simp add: nat_mult_distrib nat_power_eq power_add nat_less_iff)
    then have "bitlen (nat (q * 2 ^ k)) - 53 \<le> k" using bitlen_le by fastforce
    then have "(2::int) ^ (bitlen (nat (q * 2 ^ k)) - 53) dvd 2 ^ k" by (rule le_imp_power_dvd)
    then show ?thesis by simp
  qed
  moreover have "fl_quot 0 d = 0" by (simp add: fl_quot_def)
  ultimately show ?thesis using q(1) by (cases "n = 0") (auto simp: is_float_def f abs_mult sgn_if)
qed

lemma is_float_results [simp]:
  "0 < q \<Longrightarrow> is_float (dlit p q)" "is_float (dadd x y)" "is_float (dsub x y)" "is_float (dmul_int n x)" "is_float 0"
  by (simp_all add: dlit_def dadd_def dsub_def dmul_int_def is_float_fl_quot) (simp add: is_float_def)

lemma is_float_min_max [simp]:
  "is_float x \<Longrightarrow> is_float y \<Longrightarrow> is_float (min x y)" "is_float x \<Longrightarrow> is_float y \<Longrightarrow> is_float (max x y)"
  by (simp_all add: min_def max_def)

end
