(* ===== verification/Models.thy ===== *)
theory Models
  imports PyValue PyFloat
begin

text \<open>
  The data structures of \<open>kuberca/models\<close>: events, resource snapshots and views, and the analysis
  results.  Measured wall-clock durations (\<open>duration_ms\<close>) are never read by
  the code and have no field here.
\<close>

subsection \<open>Enumerations (models/events.py, models/resources.py)\<close>

datatype event_source = CORE_EVENT | POD_PHASE | NODE_CONDITION

datatype severity = INFO | WARNING | ERROR | CRITICAL

datatype diagnosis_source = RULE_ENGINE | LLM | INCONCLUSIVE

datatype evidence_type = EVENT | CHANGE

datatype cache_readiness = READY | WARMING | PARTIALLY_READY | DEGRADED

fun readiness_value :: "cache_readiness \<Rightarrow> str" where
  "readiness_value READY = ''ready''"
| "readiness_value WARMING = ''warming''"
| "readiness_value PARTIALLY_READY = ''partially_ready''"
| "readiness_value DEGRADED = ''degraded''"

fun diagnosis_value :: "diagnosis_source \<Rightarrow> str" where
  "diagnosis_value RULE_ENGINE = ''rule_engine''"
| "diagnosis_value LLM = ''llm''"
| "diagnosis_value INCONCLUSIVE = ''inconclusive''"

lemma readiness_value_inj [simp]: "readiness_value a = readiness_value b \<longleftrightarrow> a = b"
  by (cases a; cases b) auto

fun severity_value :: "severity \<Rightarrow> str" where
  "severity_value INFO = ''info''"
| "severity_value WARNING = ''warning''"
| "severity_value ERROR = ''error''"
| "severity_value CRITICAL = ''critical''"

text \<open>Severities are ordered by the rank the scout gives them (\<open>_SEVERITY_RANK\<close>).\<close>

fun severity_rank :: "severity \<Rightarrow> nat" where
  "severity_rank INFO = 0"
| "severity_rank WARNING = 1"
| "severity_rank ERROR = 2"
| "severity_rank CRITICAL = 3"

lemma severity_rank_inj: "severity_rank a = severity_rank b \<Longrightarrow> a = b"
  by (cases a; cases b) auto

instantiation severity :: linorder
begin

definition less_eq_severity :: "severity \<Rightarrow> severity \<Rightarrow> bool" where
  "a \<le> b \<longleftrightarrow> severity_rank a \<le> severity_rank b"

definition less_severity :: "severity \<Rightarrow> severity \<Rightarrow> bool" where
  "a < b \<longleftrightarrow> severity_rank a < severity_rank b"

instance
  by standard (auto simp: less_eq_severity_def less_severity_def intro: severity_rank_inj)

end

subsection \<open>Events (models/events.py)\<close>

record event_record =
  ev_source :: event_source
  ev_severity :: severity
  ev_reason :: str
  ev_message :: str
  ev_namespace :: str
  ev_kind :: str
  ev_name :: str
  ev_first_seen :: instant
  ev_last_seen :: instant
  ev_id :: str
  ev_cluster_id :: str
  ev_labels :: "(str, str) dict"
  ev_count :: int

subsection \<open>Resources (models/resources.py)\<close>

type_synonym rkey = "str \<times> str \<times> str"

record resource_snapshot =
  sn_kind :: str
  sn_namespace :: str
  sn_name :: str
  sn_spec_hash :: str
  sn_spec :: pydict
  sn_captured_at :: instant
  sn_resource_version :: str

record field_change =
  fc_path :: str
  fc_old :: "str option"
  fc_new :: "str option"
  fc_at :: instant

text \<open>\<open>CachedResourceView\<close>, the redacted view rules and analyzers receive\<close>

record resource_view =
  vw_kind :: str
  vw_namespace :: str
  vw_name :: str
  vw_resource_version :: str
  vw_labels :: "(str, str) dict"
  vw_annotations :: pydict
  vw_spec :: pydict
  vw_status :: pydict
  vw_last_updated :: instant

subsection \<open>Analysis results (models/analysis.py)\<close>

record evidence_item =
  ei_type :: evidence_type
  ei_timestamp :: str
  ei_summary :: str

record affected_resource =
  ar_kind :: str
  ar_namespace :: str
  ar_name :: str

definition affected :: "str \<Rightarrow> str \<Rightarrow> str \<Rightarrow> affected_resource" where
  "affected k ns n = \<lparr>ar_kind = k, ar_namespace = ns, ar_name = n\<rparr>"

record correlation =
  co_changes :: "field_change list"
  co_related :: "resource_view list"
  co_objects :: nat

definition empty_correlation :: correlation where
  "empty_correlation = \<lparr>co_changes = [], co_related = [], co_objects = 0\<rparr>"

record rule_result =
  rr_rule_id :: str
  rr_root_cause :: str
  rr_confidence :: dbl
  rr_evidence :: "evidence_item list"
  rr_affected :: "affected_resource list"
  rr_remediation :: str

record eval_meta =
  em_evaluated :: nat
  em_matched :: nat
  em_warnings :: "str list"

record response_meta =
  rm_version :: str
  rm_schema :: str
  rm_cluster_id :: str
  rm_timestamp :: str
  rm_response_time_ms :: int
  rm_cache_state :: str
  rm_warnings :: "str list"

record rca_response =
  rs_root_cause :: str
  rs_confidence :: dbl
  rs_diagnosed_by :: diagnosis_source
  rs_rule_id :: "str option"
  rs_evidence :: "evidence_item list"
  rs_affected :: "affected_resource list"
  rs_blast_radius :: "affected_resource list option"
  rs_remediation :: str
  rs_meta :: response_meta

text \<open>\<open>StateContextEntry\<close> and \<open>QualityCheckResult\<close>\<close>

record state_entry =
  se_kind :: str
  se_namespace :: str
  se_name :: str
  se_exists :: bool
  se_status :: str
  se_relationship :: str

record quality_result =
  qr_passed :: bool
  qr_failures :: "str list"

text \<open>\<open>models/alerts.py\<close>\<close>

record anomaly_alert =
  al_severity :: severity
  al_kind :: str
  al_name :: str
  al_namespace :: str
  al_reason :: str
  al_summary :: str
  al_detected_at :: instant
  al_count :: int
  al_source_events :: "str list"

end
