(* ===== verification/Confidence.thy ===== *)
theory Confidence
  imports Models
begin

text \<open>
  \<open>kuberca/rules/confidence.py\<close>: the confidence score of a rule match, in binary64 arithmetic, and
  the INV-C01 check on it.
\<close>

definition WITHIN_30_MIN :: duration where "WITHIN_30_MIN = minutes 30"

definition any_within_30min :: "correlation \<Rightarrow> event_record \<Rightarrow> bool" where
  "any_within_30min corr event \<longleftrightarrow>
     list_ex (\<lambda>change. \<bar>ev_last_seen event - fc_at change\<bar> \<le> WITHIN_30_MIN) (co_changes corr)"

definition is_single_resource :: "correlation \<Rightarrow> bool" where
  "is_single_resource corr \<longleftrightarrow> length (co_related corr) \<le> 1"

definition bonus_if :: "bool \<Rightarrow> int \<Rightarrow> dbl \<Rightarrow> dbl" where
  "bonus_if b hundredths score = (if b then dadd score (dlit hundredths 100) else score)"

text \<open>The score before the cap, by the four conditions.\<close>

definition raw_score :: "dbl \<Rightarrow> bool \<Rightarrow> bool \<Rightarrow> bool \<Rightarrow> bool \<Rightarrow> dbl" where
  "raw_score base diffs recent repeated single =
     bonus_if single 5 (bonus_if repeated 5 (bonus_if recent 10 (bonus_if diffs 15 base)))"

definition event_score :: "dbl \<Rightarrow> correlation \<Rightarrow> event_record \<Rightarrow> dbl" where
  "event_score base corr event =
     raw_score base (co_changes corr \<noteq> []) (any_within_30min corr event) (3 \<le> ev_count event)
       (is_single_resource corr)"

text \<open>Whether INV-C01 is logged as violated.\<close>

definition conf_violation :: "dbl \<Rightarrow> correlation \<Rightarrow> event_record \<Rightarrow> bool" where
  "conf_violation base corr event \<longleftrightarrow>
     event_score base corr event < 0 \<or> dlit 95 100 < event_score base corr event"

definition compute_confidence :: "dbl \<Rightarrow> correlation \<Rightarrow> event_record \<Rightarrow> dbl" where
  "compute_confidence base corr event =
     (let score = event_score base corr event; result = min score (dlit 95 100) in
      if score < 0 \<or> dlit 95 100 < score then max 0 (min result (dlit 95 100)) else result)"

subsection \<open>Range\<close>

lemmas dbl_eval = dbl_defs dbl_unit_def round_half_even_def bitlen.simps

lemma dlit_values:
  "dlit 50 100 = 9223372036854775808" "dlit 55 100 = 10145709240540254208"
  "dlit 60 100 = 11068046444225730560" "dlit 65 100 = 11990383647911208960"
  "dlit 10 100 = 1844674407370955264" "dlit 15 100 = 2767011611056432640"
  "dlit 70 100 = 12912720851596685312" "dlit 85 100 = 15679732462653118464"
  "dlit 95 100 = 17524406870024073216" "dlit 5 100 = 922337203685477632"
  by (simp_all add: dbl_eval)

lemma compute_confidence_float [simp]: "is_float base \<Longrightarrow> is_float (compute_confidence base corr event)"
  by (simp add: compute_confidence_def event_score_def raw_score_def bonus_if_def Let_def)

lemma compute_confidence_range: "0 \<le> compute_confidence base corr event"
  "compute_confidence base corr event \<le> dlit 95 100"
  by (auto simp: compute_confidence_def Let_def dlit_values)

subsection \<open>Accuracy\<close>

lemma dlit_error:
  assumes "0 \<le> p" "p < 200"
  shows "\<bar>100 * dlit p 100 - p * dbl_unit\<bar> \<le> 204800"
proof -
  have "p * dbl_unit div 100 < 2 ^ 65" using assms by (simp add: dbl_unit_def)
  then have "\<bar>2 * (fl_quot (p * dbl_unit) 100 * 100 - p * dbl_unit)\<bar> \<le> 100 * 2 ^ (65 - 53)"
    using assms by (intro fl_quot_error) (auto simp: dbl_unit_def)
  then show ?thesis by (simp add: dlit_def)
qed

lemma dadd_error:
  assumes "0 \<le> x + y" "x + y < 2 ^ 65"
  shows "\<bar>dadd x y - (x + y)\<bar> \<le> 2048"
  using fl_quot_error [of 1 "x + y" 65] assms by (simp add: dadd_def)

lemma bonus_error:
  assumes "\<bar>100 * s - e * dbl_unit\<bar> \<le> r" "0 \<le> e" "e \<le> 95" "0 \<le> h" "h \<le> 15" "r \<le> 10000000"
  shows "\<bar>100 * bonus_if b h s - (e + (if b then h else 0)) * dbl_unit\<bar> \<le> r + 409600"
proof (cases b)
  case True
  have l: "\<bar>100 * dlit h 100 - h * dbl_unit\<bar> \<le> 204800" using assms(4,5) by (intro dlit_error) auto
  have e: "0 \<le> e * dbl_unit" "e * dbl_unit \<le> 95 * dbl_unit" "0 \<le> h * dbl_unit" "h * dbl_unit \<le> 15 * dbl_unit"
    using assms by (simp_all add: dbl_unit_def)
  show ?thesis
  proof (cases "e = 0 \<and> h = 0")
    case True
    then have "h = 0" by simp
    then have "dlit h 100 = 0" by (simp add: dbl_eval)
    moreover have "\<bar>s\<bar> \<le> 100000" using assms(1,6) True by simp
    then have "dadd s 0 = s" unfolding dadd_def add_0_right by (intro fl_quot_exact) simp
    ultimately show ?thesis using \<open>b\<close> True assms(1) by (simp add: bonus_if_def)
  next
    case False
    then have "dbl_unit \<le> e * dbl_unit + h * dbl_unit"
      using assms(2,4) by (auto simp: dbl_unit_def)
    with l e assms(1,6) have "0 \<le> s + dlit h 100" "s + dlit h 100 < 2 ^ 65"
      by (simp_all add: dbl_unit_def abs_le_iff)
    then have "\<bar>dadd s (dlit h 100) - (s + dlit h 100)\<bar> \<le> 2048" by (rule dadd_error)
    then show ?thesis
      using \<open>b\<close> l assms(1) by (simp add: bonus_if_def abs_le_iff algebra_simps)
  qed
qed (use assms in \<open>simp add: bonus_if_def\<close>)

definition exact_hundredths :: "int \<Rightarrow> bool \<Rightarrow> bool \<Rightarrow> bool \<Rightarrow> bool \<Rightarrow> int" where
  "exact_hundredths b diffs recent repeated single =
     b + (if diffs then 15 else 0) + (if recent then 10 else 0) + (if repeated then 5 else 0)
     + (if single then 5 else 0)"

lemma raw_score_error:
  assumes "0 \<le> b" "b \<le> 65"
  shows "\<bar>100 * raw_score (dlit b 100) diffs recent repeated single
    - exact_hundredths b diffs recent repeated single * dbl_unit\<bar> \<le> 2000000"
proof -
  let ?e1 = "b + (if diffs then 15 else 0)"
  let ?e2 = "?e1 + (if recent then 10 else 0)"
  let ?e3 = "?e2 + (if repeated then 5 else 0)"
  let ?s1 = "bonus_if diffs 15 (dlit b 100)"
  let ?s2 = "bonus_if recent 10 ?s1"
  let ?s3 = "bonus_if repeated 5 ?s2"
  have "\<bar>100 * dlit b 100 - b * dbl_unit\<bar> \<le> 204800" using assms by (intro dlit_error) auto
  then have "\<bar>100 * ?s1 - ?e1 * dbl_unit\<bar> \<le> 204800 + 409600"
    by (rule bonus_error) (use assms in auto)
  then have "\<bar>100 * ?s2 - ?e2 * dbl_unit\<bar> \<le> (204800 + 409600) + 409600"
    by (rule bonus_error) (use assms in auto)
  then have "\<bar>100 * ?s3 - ?e3 * dbl_unit\<bar> \<le> (204800 + 409600 + 409600) + 409600"
    by (rule bonus_error) (use assms in auto)
  then have "\<bar>100 * bonus_if single 5 ?s3 - (?e3 + (if single then 5 else 0)) * dbl_unit\<bar>
      \<le> (204800 + 409600 + 409600 + 409600) + 409600"
    by (rule bonus_error) (use assms in auto)
  then show ?thesis by (simp add: raw_score_def exact_hundredths_def)
qed

subsection \<open>Properties\<close>

lemma compute_confidence_error:
  assumes "0 \<le> b" "b \<le> 65"
  shows "\<bar>100 * compute_confidence (dlit b 100) corr event
    - min 95 (exact_hundredths b (co_changes corr \<noteq> []) (any_within_30min corr event) (3 \<le> ev_count event)
          (is_single_resource corr)) * dbl_unit\<bar> \<le> 2000000"
proof -
  define e where "e = exact_hundredths b (co_changes corr \<noteq> []) (any_within_30min corr event) (3 \<le> ev_count event)
    (is_single_resource corr)"
  have e: "0 \<le> e" using assms(1) by (simp add: e_def exact_hundredths_def)
  let ?s = "event_score (dlit b 100) corr event"
  have s: "\<bar>100 * ?s - e * dbl_unit\<bar> \<le> 2000000"
    unfolding event_score_def e_def by (rule raw_score_error [OF assms])
  have c: "compute_confidence (dlit b 100) corr event = max 0 (min ?s (dlit 95 100))"
    by (auto simp: compute_confidence_def Let_def dlit_values)
  show ?thesis
    unfolding c e_def [symmetric] using s e by (auto simp: dlit_values dbl_unit_def max_def min_def abs_le_iff)
qed


definition oom_event :: event_record where
  "oom_event =
     \<lparr>ev_source = CORE_EVENT, ev_severity = ERROR, ev_reason = ''OOMKilled'', ev_message = ''out of memory'',
      ev_namespace = ''shop'', ev_kind = ''Pod'', ev_name = ''cart-6f9c-x7k2'', ev_first_seen = 0,
      ev_last_seen = 60000000, ev_id = ''e-1'', ev_cluster_id = ''c-1'', ev_labels = [], ev_count = 4\<rparr>"


lemma no_changes_low:
  assumes "0 \<le> b" "b \<le> 65" "co_changes corr = []"
  shows "compute_confidence (dlit b 100) corr event < dlit 85 100"
proof -
  let ?s = "event_score (dlit b 100) corr event"
  have "\<not> any_within_30min corr event" using assms(3) by (simp add: any_within_30min_def)
  then have "exact_hundredths b (co_changes corr \<noteq> []) (any_within_30min corr event) (3 \<le> ev_count event)
      (is_single_resource corr) \<le> 75"
    using assms by (simp add: exact_hundredths_def)
  then have "100 * ?s \<le> 75 * dbl_unit + 2000000"
    using raw_score_error [OF assms(1,2), of "co_changes corr \<noteq> []" "any_within_30min corr event"
        "3 \<le> ev_count event" "is_single_resource corr"]
    by (simp add: event_score_def dbl_unit_def abs_le_iff)
  then have "?s < dlit 85 100" by (simp add: dlit_values dbl_unit_def)
  then show ?thesis by (auto simp: compute_confidence_def Let_def dlit_values)
qed

text \<open>
  a rule with base 0.60 logs an INV-C01 violation exactly when it earns every bonus: 0.60 + 0.35
  exceeds the literal 0.95 in floating point, so a legitimate score is reported; with base 0.55 or
  0.50 it is never logged.
\<close>

theorem confidence_invariant_false_alarm:
  "(conf_violation (dlit 60 100) corr event \<longleftrightarrow>
      co_changes corr \<noteq> [] \<and> any_within_30min corr event \<and> 3 \<le> ev_count event
      \<and> is_single_resource corr)
   \<and> \<not> conf_violation (dlit 55 100) corr event \<and> \<not> conf_violation (dlit 50 100) corr event"
proof -
  let ?all = "co_changes corr \<noteq> [] \<and> any_within_30min corr event \<and> 3 \<le> ev_count event
      \<and> is_single_resource corr"
  have full: "dlit 95 100 < raw_score (dlit 60 100) True True True True"
    by (simp add: raw_score_def bonus_if_def dlit_values) (simp add: dbl_eval)
  have none: "\<not> conf_violation (dlit b 100) corr event"
    if "b = 55 \<or> b = 50 \<or> b = 60 \<and> \<not> ?all" for b
  proof -
    have "exact_hundredths b (co_changes corr \<noteq> []) (any_within_30min corr event) (3 \<le> ev_count event)
        (is_single_resource corr) \<in> {50..90}"
      using that by (auto simp: exact_hundredths_def)
    then show ?thesis
      using raw_score_error [of b "co_changes corr \<noteq> []" "any_within_30min corr event" "3 \<le> ev_count event"
          "is_single_resource corr"] that
      by (auto simp: conf_violation_def event_score_def dlit_values dbl_unit_def abs_le_iff)
  qed
  have "?all \<Longrightarrow> conf_violation (dlit 60 100) corr event"
    using full by (simp add: conf_violation_def event_score_def)
  then show ?thesis using none by blast
qed

end
