(* ===== verification/Json.thy ===== *)
theory Json
  imports PyValue
begin

text \<open>
  The texts \<open>json.dumps\<close> writes with the separators and the indentation the program asks for.
\<close>

text \<open>The default separators\<close>

fun json_spaced :: "pyval \<Rightarrow> str" where
  "json_spaced PNone = ''null''"
| "json_spaced (PBool b) = (if b then ''true'' else ''false'')"
| "json_spaced (PInt n) = show_int n"
| "json_spaced (PStr s) = json_text s"
| "json_spaced (PList xs) = ''['' @ join '', '' (map json_spaced xs) @ '']''"
| "json_spaced (PDict d) =
     ''{'' @ join '', '' (map (\<lambda>(k, v). json_text k @ '': '' @ json_spaced v) d) @ ''}''"

text \<open>\<open>json.dumps(v, indent=2)\<close>, at the given depth\<close>

definition break_line :: "nat \<Rightarrow> str" where
  "break_line depth = CHR 0x0A # replicate (2 * depth) (CHR '' '')"

fun json_indented :: "nat \<Rightarrow> pyval \<Rightarrow> str" where
  "json_indented depth PNone = ''null''"
| "json_indented depth (PBool b) = (if b then ''true'' else ''false'')"
| "json_indented depth (PInt n) = show_int n"
| "json_indented depth (PStr s) = json_text s"
| "json_indented depth (PList xs) =
     (if xs = [] then ''[]''
      else ''['' @ break_line (Suc depth)
        @ join ('','' @ break_line (Suc depth)) (map (json_indented (Suc depth)) xs)
        @ break_line depth @ '']'')"
| "json_indented depth (PDict d) =
     (if d = [] then ''{}''
      else ''{'' @ break_line (Suc depth)
        @ join ('','' @ break_line (Suc depth))
            (map (\<lambda>(k, v). json_text k @ '': '' @ json_indented (Suc depth) v) d)
        @ break_line depth @ ''}'')"

end
