(* ===== verification/Sha256.thy ===== *)
theory Sha256
  imports PyStr "HOL-Library.Word"
begin

text \<open>
  \<open>hashlib.sha256(value.encode()).hexdigest()\<close>: the UTF-8 encoding, the FIPS 180-4 compression
  function on 32-bit words, and the lower-case hexadecimal text.  The redaction engine uses it for
  the hash tokens, the work queue and the ledger for content hashes.
\<close>

unbundle bit_operations_syntax

type_synonym word32 = "32 word"

text \<open>
  The constants are the first 32 fractional bits of the cube roots of the first 64 primes, and of the
  square roots of the first eight: integer roots of the scaled prime, found bit by bit.
\<close>

definition small_primes :: "int list" where
  "small_primes = filter (\<lambda>p. list_all (\<lambda>q. p mod q \<noteq> 0) [2..p - 1]) [2..311]"

fun int_root :: "nat \<Rightarrow> int \<Rightarrow> nat \<Rightarrow> int \<Rightarrow> int" where
  "int_root k n 0 r = r"
| "int_root k n (Suc b) r = int_root k n b (if (r + 2 ^ b) ^ k \<le> n then r + 2 ^ b else r)"

definition root_bits :: "nat \<Rightarrow> int \<Rightarrow> word32" where
  "root_bits k p = word_of_int (int_root k (p * 2 ^ (32 * k)) 36 0)"

definition round_constants :: "word32 list" where
  "round_constants = map (root_bits 3) small_primes"

definition initial_hash :: "word32 list" where
  "initial_hash = map (root_bits 2) [2, 3, 5, 7, 11, 13, 17, 19]"

definition rotr :: "nat \<Rightarrow> word32 \<Rightarrow> word32" where
  "rotr n w = word_rotr n w"

definition small_sigma0 :: "word32 \<Rightarrow> word32" where
  "small_sigma0 x = rotr 7 x XOR rotr 18 x XOR drop_bit 3 x"

definition small_sigma1 :: "word32 \<Rightarrow> word32" where
  "small_sigma1 x = rotr 17 x XOR rotr 19 x XOR drop_bit 10 x"

definition big_sigma0 :: "word32 \<Rightarrow> word32" where
  "big_sigma0 x = rotr 2 x XOR rotr 13 x XOR rotr 22 x"

definition big_sigma1 :: "word32 \<Rightarrow> word32" where
  "big_sigma1 x = rotr 6 x XOR rotr 11 x XOR rotr 25 x"

text \<open>The message schedule, newest word first.\<close>

fun extend_schedule :: "nat \<Rightarrow> word32 list \<Rightarrow> word32 list" where
  "extend_schedule 0 ws = ws"
| "extend_schedule (Suc n) ws =
     extend_schedule n
       ((small_sigma1 (ws ! 1) + ws ! 6 + small_sigma0 (ws ! 14) + ws ! 15) # ws)"

definition schedule :: "word32 list \<Rightarrow> word32 list" where
  "schedule block = rev (extend_schedule 48 (rev block))"

fun sha_round :: "word32 \<times> word32 \<Rightarrow> word32 list \<Rightarrow> word32 list" where
  "sha_round (k, w) [a, b, c, d, e, f, g, h] =
     (let t1 = h + big_sigma1 e + ((e AND f) XOR (NOT e AND g)) + k + w;
          t2 = big_sigma0 a + ((a AND b) XOR (a AND c) XOR (b AND c))
      in [t1 + t2, a, b, c, d + t1, e, f, g])"
| "sha_round _ hs = hs"

definition compress :: "word32 list \<Rightarrow> word32 list \<Rightarrow> word32 list" where
  "compress block hs =
     map2 (+) hs (fold sha_round (zip round_constants (schedule block)) hs)"

definition be_word :: "nat list \<Rightarrow> word32" where
  "be_word bs = word_of_nat (fold (\<lambda>b acc. 256 * acc + b) bs 0)"

fun chunks :: "nat \<Rightarrow> nat \<Rightarrow> 'a list \<Rightarrow> 'a list list" where
  "chunks n 0 xs = []"
| "chunks n (Suc m) xs = take n xs # chunks n m (drop n xs)"

definition be_bytes :: "nat \<Rightarrow> nat \<Rightarrow> nat list" where
  "be_bytes w n = map (\<lambda>i. n div 256 ^ i mod 256) (rev [0..<w])"

definition pad_message :: "nat list \<Rightarrow> nat list" where
  "pad_message bs =
     bs @ [128] @ replicate ((119 - length bs mod 64) mod 64) 0 @ be_bytes 8 (8 * length bs)"

definition sha256_words :: "nat list \<Rightarrow> word32 list" where
  "sha256_words bs =
     (let m = pad_message bs in
      fold (\<lambda>b. compress (map be_word (chunks 4 16 b))) (chunks 64 (length m div 64) m) initial_hash)"

definition utf8 :: "str \<Rightarrow> nat list" where
  "utf8 s =
     concat (map (\<lambda>c. let n = of_char c :: nat in
       if n < 128 then [n] else [192 + n div 64, 128 + n mod 64]) s)"

definition hex_word :: "word32 \<Rightarrow> str" where
  "hex_word w = map (\<lambda>i. hex_char (unat w div 16 ^ i mod 16)) (rev [0..<8])"

definition sha256_hex :: "str \<Rightarrow> str" where
  "sha256_hex s = concat (map hex_word (sha256_words (utf8 s)))"

subsection \<open>Shape of the digest\<close>

definition is_hex :: "char \<Rightarrow> bool" where
  "is_hex c \<longleftrightarrow> c \<in> set ''0123456789abcdef''"

lemma is_hex_hex_char: "d < 16 \<Longrightarrow> is_hex (hex_char d)"
proof -
  assume "d < 16"
  then have "d \<in> set [0..<16]" by simp
  moreover have "list_all (\<lambda>d. is_hex (hex_char d)) [0..<16]" by code_simp
  ultimately show ?thesis by (simp only: list_all_iff)
qed

lemma hex_word_shape: "length (hex_word w) = 8 \<and> list_all is_hex (hex_word w)"
  by (auto simp: hex_word_def list_all_iff is_hex_hex_char)

lemma length_sha_round: "length hs = 8 \<Longrightarrow> length (sha_round kw hs) = 8"
  by (induction kw hs rule: sha_round.induct) (auto simp: Let_def)

lemma length_sha_rounds: "length hs = 8 \<Longrightarrow> length (fold sha_round kws hs) = 8"
  by (induction kws arbitrary: hs) (auto simp: length_sha_round)

lemma length_compress: "length hs = 8 \<Longrightarrow> length (compress b hs) = 8"
  by (simp add: compress_def length_sha_rounds)

lemma length_sha256_words: "length (sha256_words bs) = 8"
proof -
  have fold8: "length (fold (\<lambda>b. compress (f b)) cs hs) = 8" if "length hs = 8" for f cs hs
    using that by (induction cs arbitrary: hs) (auto simp: length_compress)
  show ?thesis unfolding sha256_words_def Let_def by (rule fold8) (simp add: initial_hash_def)
qed

lemma sha256_hex_shape: "length (sha256_hex s) = 64 \<and> list_all is_hex (sha256_hex s)"
proof -
  have "length (concat (map hex_word ws)) = 8 * length ws \<and> list_all is_hex (concat (map hex_word ws))"
    for ws
    by (induction ws) (use hex_word_shape in auto)
  then show ?thesis by (simp add: sha256_hex_def length_sha256_words)
qed

end
