(* ===== verification/Redaction.thy ===== *)
theory Redaction
  imports PyRegex Json Sha256
begin

text \<open>
  \<open>kuberca/cache/redaction.py\<close>: masking of sensitive values.  Keys containing a denylist word are
  replaced outright, string values that look like secrets become hash tokens, and environment
  entries, command arguments and annotations have their own rules.  The theorems: nothing that the
  rules call sensitive survives (\<open>clean_dict\<close>), keys are kept, and redacting twice changes nothing.
\<close>

definition KEY_DENYLIST :: "str list" where
  "KEY_DENYLIST =
     [''password'', ''token'', ''secret'', ''key'', ''credential'', ''authorization'', ''api_key'',
      ''apikey'', ''private_key'', ''access_key'', ''client_secret'']"

definition VALUE_HEURISTIC_ALLOWLIST :: "str list" where
  "VALUE_HEURISTIC_ALLOWLIST =
     [''image'', ''imageid'', ''containerid'', ''resourceversion'', ''uid'', ''selflink'',
      ''generation'', ''observedgeneration'']"

definition ANNOTATION_SAFE_PREFIXES :: "str list" where
  "ANNOTATION_SAFE_PREFIXES = [''app.kubernetes.io/'', ''kubernetes.io/'', ''helm.sh/'']"

definition COMMAND_ARG_SECRET_PREFIXES :: "str list" where
  "COMMAND_ARG_SECRET_PREFIXES = [''--password='', ''--token='', ''--key='']"

definition REDACTED :: str where
  "REDACTED = ''[REDACTED]''"

subsection \<open>Patterns\<close>

definition jwt_char :: "char \<Rightarrow> bool" where
  "jwt_char c \<longleftrightarrow> alnum_ascii c \<or> c \<in> set ''+/=_-''"

definition base64_char :: "char \<Rightarrow> bool" where
  "base64_char c \<longleftrightarrow> alnum_ascii c \<or> c \<in> set ''+/=''"

definition url_value_char :: "char \<Rightarrow> bool" where
  "url_value_char c \<longleftrightarrow> \<not> is_space c \<and> c \<notin> {CHR ''&'', dquote, squote, CHR ''#''}"

definition RE_JWT :: regex where
  "RE_JWT =
     r_seqs [RBegin, r_atleast 10 (RSet jwt_char), r_lit ''.'', r_atleast 10 (RSet jwt_char),
       r_lit ''.'', r_atleast 10 (RSet jwt_char), REnd]"

definition RE_LONG_BASE64 :: regex where
  "RE_LONG_BASE64 = r_seqs [RBegin, r_atleast 65 (RSet base64_char), REnd]"

definition RE_URL_TOKEN :: regex where
  "RE_URL_TOKEN =
     r_seqs [RSet (\<lambda>c. c = CHR ''?'' \<or> c = CHR ''&''),
       r_alts [r_lit ''token'', r_lit ''access_token'', r_lit ''api_key''], r_lit ''='',
       r_plus (RSet url_value_char)]"

definition RE_AUTHORIZATION_HEADER :: regex where
  "RE_AUTHORIZATION_HEADER =
     r_seqs [RBegin, r_alts [r_ilit ''Basic'', r_ilit ''Bearer'', r_ilit ''Token'', r_ilit ''Digest''],
       r_plus (RSet is_space), r_atleast 8 (RSet (\<lambda>c. \<not> is_space c))]"

definition RE_BEARER :: regex where
  "RE_BEARER =
     r_seqs [RBegin, r_ilit ''Bearer'', r_plus (RSet is_space),
       r_atleast 20 (RSet (\<lambda>c. \<not> is_space c)), REnd]"

definition BASE64_CMD_THRESHOLD :: nat where
  "BASE64_CMD_THRESHOLD = 64"

subsection \<open>Operations\<close>

definition key_contains_denylist_word :: "str \<Rightarrow> bool" where
  "key_contains_denylist_word key \<longleftrightarrow> any_in KEY_DENYLIST (lower key)"

definition hash_value :: "str \<Rightarrow> str" where
  "hash_value value =
     (let digest = sha256_hex value in ''[HASH:sha256:'' @ take 8 digest @ '':'' @ digest @ '']'')"

definition value_matches_heuristics :: "str \<Rightarrow> bool" where
  "value_matches_heuristics value \<longleftrightarrow>
     re_match RE_JWT value \<noteq> None \<or> re_match RE_LONG_BASE64 value \<noteq> None
     \<or> re_found RE_URL_TOKEN value \<or> re_match RE_AUTHORIZATION_HEADER value \<noteq> None
     \<or> re_match RE_BEARER value \<noteq> None"

text \<open>
  The strict decoder behind \<open>base64.b64decode(s, validate=True)\<close> (\<open>binascii.a2b_base64\<close>): position
  in the current quad, padding characters seen in it, whether padding has started.  True is a
  successful decode.
\<close>

definition base64_data :: "char \<Rightarrow> bool" where
  "base64_data c \<longleftrightarrow> alnum_ascii c \<or> c = CHR ''+'' \<or> c = CHR ''/''"

fun a2b_strict :: "nat \<Rightarrow> nat \<Rightarrow> bool \<Rightarrow> str \<Rightarrow> bool" where
  "a2b_strict quad pads started [] = (quad = 0)"
| "a2b_strict quad pads started (c # cs) =
     (if c = CHR ''='' then
        (if 2 \<le> quad \<and> 4 \<le> quad + Suc pads then cs = []
         else a2b_strict quad (if 2 \<le> quad then Suc pads else pads) True cs)
      else if \<not> base64_data c then False
      else if started then False
      else a2b_strict (Suc quad mod 4) 0 started cs)"

definition b64decode_ok :: "str \<Rightarrow> bool" where
  "b64decode_ok s \<longleftrightarrow> (case s of CHR ''='' # _ \<Rightarrow> False | _ \<Rightarrow> a2b_strict 0 0 False s)"

definition is_valid_base64_string :: "str \<Rightarrow> bool" where
  "is_valid_base64_string s \<longleftrightarrow>
     BASE64_CMD_THRESHOLD < length s
     \<and> b64decode_ok (s @ replicate ((4 - length s mod 4) mod 4) (CHR ''=''))"

definition heuristic_exempt :: "str \<Rightarrow> bool" where
  "heuristic_exempt key \<longleftrightarrow> lower key \<in> set VALUE_HEURISTIC_ALLOWLIST"

definition redact_value :: "str \<Rightarrow> pyval \<Rightarrow> pyval" where
  "redact_value key value =
     (if key_contains_denylist_word key then PStr REDACTED
      else case value of
        PStr s \<Rightarrow> if \<not> heuristic_exempt key \<and> value_matches_heuristics s then PStr (hash_value s) else value
      | _ \<Rightarrow> value)"

definition redact_env_entry :: "pyval \<Rightarrow> pyval" where
  "redact_env_entry entry =
     (case entry of
        PDict d \<Rightarrow> PDict (map (\<lambda>(k, v).
          (k, if k = ''value'' then PStr REDACTED
              else if k = ''valueFrom'' then PStr REDACTED else v)) d)
      | _ \<Rightarrow> entry)"

definition redact_command_arg :: "str \<Rightarrow> str" where
  "redact_command_arg arg =
     (case List.find (\<lambda>p. startswith (lower arg) p) COMMAND_ARG_SECRET_PREFIXES of
        Some p \<Rightarrow> p @ REDACTED
      | None \<Rightarrow>
          (let stripped = strip arg in
           if is_valid_base64_string stripped \<and> BASE64_CMD_THRESHOLD < length stripped
           then REDACTED else arg))"

definition safe_annotation :: "str \<Rightarrow> bool" where
  "safe_annotation key \<longleftrightarrow> list_ex (\<lambda>p. startswith key p) ANNOTATION_SAFE_PREFIXES"

definition redact_annotation_value :: "str \<Rightarrow> str \<Rightarrow> str" where
  "redact_annotation_value key value = (if safe_annotation key then value else REDACTED)"

definition redact_annotations :: "pydict \<Rightarrow> pydict" where
  "redact_annotations annotations =
     map (\<lambda>(key, value).
       (key, case value of
          PStr s \<Rightarrow> PStr (redact_annotation_value key s)
        | PNone \<Rightarrow> PNone
        | _ \<Rightarrow> if safe_annotation key then value else PStr REDACTED)) annotations"

definition is_list :: "pyval \<Rightarrow> bool" where
  "is_list v \<longleftrightarrow> as_list v \<noteq> None"

definition redact_arg :: "pyval \<Rightarrow> pyval" where
  "redact_arg arg = (case arg of PStr s \<Rightarrow> PStr (redact_command_arg s) | _ \<Rightarrow> arg)"

text \<open>
  \<open>_redact_recursive\<close> and \<open>_redact_list\<close>, each taking one entry or item per step.  The code works
  in place on a deep copy; the keys and their order stay as they are.
\<close>

function redact_recursive :: "pydict \<Rightarrow> pydict"
  and redact_list :: "str \<Rightarrow> pyval list \<Rightarrow> pyval list" where
  "redact_recursive [] = []"
| "redact_recursive ((key, value) # rest) =
     (key,
      if key = ''env'' \<and> is_list value then PList (map redact_env_entry (list_or_empty value))
      else if (key = ''command'' \<or> key = ''args'') \<and> is_list value
        then PList (map redact_arg (list_or_empty value))
      else if key_contains_denylist_word key then PStr REDACTED
      else (case value of
          PDict d \<Rightarrow> PDict (redact_recursive d)
        | PList xs \<Rightarrow> PList (redact_list key xs)
        | PStr s \<Rightarrow>
            if \<not> heuristic_exempt key \<and> value_matches_heuristics s then PStr (hash_value s) else value
        | _ \<Rightarrow> value))
     # redact_recursive rest"
| "redact_list parent_key [] = []"
| "redact_list parent_key (item # rest) =
     (case item of
        PDict d \<Rightarrow> PDict (redact_recursive d)
      | PList xs \<Rightarrow> PList (redact_list parent_key xs)
      | PStr s \<Rightarrow>
          if \<not> heuristic_exempt parent_key then
            (if key_contains_denylist_word parent_key then PStr REDACTED
             else if value_matches_heuristics s then PStr (hash_value s) else item)
          else item
      | _ \<Rightarrow> item)
     # redact_list parent_key rest"
  by pat_completeness auto
termination
  by (relation "measure (case_sum (size_list (size_prod (\<lambda>_. 0) size)) (\<lambda>(_, xs). size_list size xs))") auto

definition redact_dict :: "bool \<Rightarrow> pydict \<Rightarrow> pydict" where
  "redact_dict is_annotation data = (if is_annotation then redact_annotations data else redact_recursive data)"

definition redacted_json :: "pydict \<Rightarrow> str" where
  "redacted_json data = json_spaced (PDict (redact_dict False data))"


subsection \<open>Hash tokens and masks are never redacted again\<close>

lemma heuristics_need_start:
  assumes "s = CHR ''['' # cs" "CHR ''?'' \<notin> set s" "CHR ''&'' \<notin> set s"
  shows "\<not> value_matches_heuristics s"
proof -
  let ?st = "\<lparr>rpos = 0, rrest = s, rgroups = []\<rparr>"
  have jwt: "rm RE_JWT ?st = []"
    using assms(1) by (simp add: RE_JWT_def numeral_eq_Suc jwt_char_def alnum_ascii_def)
  have b64: "rm RE_LONG_BASE64 ?st = []"
    using assms(1) by (simp add: RE_LONG_BASE64_def numeral_eq_Suc base64_char_def alnum_ascii_def)
  have word: "rm (r_ilit p) ?st = []" if "p \<noteq> []" "hd (lower p) \<noteq> CHR ''[''" for p
    using that assms(1) by (cases p) (auto simp: rm_r_ilit lower_def lower_char_def)
  have low: "hd (lower ''Basic'') = CHR ''b''" "hd (lower ''Bearer'') = CHR ''b''"
    "hd (lower ''Token'') = CHR ''t''" "hd (lower ''Digest'') = CHR ''d''"
    by code_simp+
  have words: "rm (r_ilit ''Basic'') ?st = []" "rm (r_ilit ''Bearer'') ?st = []"
    "rm (r_ilit ''Token'') ?st = []" "rm (r_ilit ''Digest'') ?st = []"
    by (rule word, simp, simp add: low)+
  have auth: "rm RE_AUTHORIZATION_HEADER ?st = []" "rm RE_BEARER ?st = []"
    unfolding RE_AUTHORIZATION_HEADER_def RE_BEARER_def r_seqs.simps r_alts.simps rm.simps
    by (simp_all only: words list.map concat.simps append_Nil append_Nil2 rstate.simps refl if_True
        simp_thms)
  have "rm RE_URL_TOKEN \<lparr>rpos = k, rrest = drop k s, rgroups = []\<rparr> = []" for k
  proof -
    have "rset (\<lambda>c. c = CHR ''?'' \<or> c = CHR ''&'') \<lparr>rpos = k, rrest = drop k s, rgroups = []\<rparr> = []"
    proof (cases "drop k s")
      case (Cons c r)
      then have "c \<in> set s" by (metis in_set_dropD list.set_intros(1))
      then have "c \<noteq> CHR ''?''" "c \<noteq> CHR ''&''" using assms(2,3) by auto
      then show ?thesis by (subst Cons) simp
    qed simp
    then show ?thesis
      unfolding RE_URL_TOKEN_def r_seqs.simps rm.simps by (simp only: list.map concat.simps)
  qed
  then have "\<not> re_found RE_URL_TOKEN s" by (simp add: re_found_iff)
  then show ?thesis
    using jwt b64 auth by (simp add: value_matches_heuristics_def re_match_def)
qed

lemma hash_value_not_secret: "\<not> value_matches_heuristics (hash_value s)"
proof (rule heuristics_need_start)
  show "hash_value s = CHR ''['' # drop 1 (hash_value s)"
    by (simp add: hash_value_def Let_def)
  have "c \<notin> set (sha256_hex s)" if "\<not> is_hex c" for c
    using that sha256_hex_shape [of s] by (auto simp: list_all_iff)
  then have "CHR ''?'' \<notin> set (sha256_hex s)" "CHR ''&'' \<notin> set (sha256_hex s)"
    by (simp_all add: is_hex_def)
  then show "CHR ''?'' \<notin> set (hash_value s)" "CHR ''&'' \<notin> set (hash_value s)"
    by (auto simp: hash_value_def Let_def dest: in_set_takeD)
qed

lemma REDACTED_not_secret: "\<not> value_matches_heuristics REDACTED"
  by (rule heuristics_need_start [of _ "List.tl REDACTED"]) (simp_all add: REDACTED_def)

lemma redact_command_arg_mask: "redact_command_arg REDACTED = REDACTED"
  by (simp add: redact_command_arg_def COMMAND_ARG_SECRET_PREFIXES_def REDACTED_def lower_def
      lower_char_def Let_def)

lemma redact_command_arg_idem: "redact_command_arg (redact_command_arg a) = redact_command_arg a"
proof (cases "List.find (\<lambda>p. startswith (lower a) p) COMMAND_ARG_SECRET_PREFIXES")
  case None
  then have "redact_command_arg a = REDACTED \<or> redact_command_arg a = a"
    by (simp add: redact_command_arg_def Let_def)
  then show ?thesis using redact_command_arg_mask by auto
next
  case (Some p)
  then have "p \<in> set COMMAND_ARG_SECRET_PREFIXES"
    by (auto simp: find_Some_iff)
  moreover have "list_all (\<lambda>p. List.find (\<lambda>q. startswith (lower (p @ REDACTED)) q)
      COMMAND_ARG_SECRET_PREFIXES = Some p) COMMAND_ARG_SECRET_PREFIXES"
    by code_simp
  ultimately have "List.find (\<lambda>q. startswith (lower (p @ REDACTED)) q) COMMAND_ARG_SECRET_PREFIXES = Some p"
    by (simp add: list_all_iff)
  with Some show ?thesis by (simp add: redact_command_arg_def)
qed

lemma redact_arg_idem [simp]: "redact_arg (redact_arg v) = redact_arg v"
  by (cases v) (simp_all add: redact_arg_def redact_command_arg_idem)

lemma redact_env_entry_idem [simp]: "redact_env_entry (redact_env_entry v) = redact_env_entry v"
  by (cases v) (auto simp: redact_env_entry_def)


subsection \<open>What redacted values look like\<close>

definition env_clean :: "pyval \<Rightarrow> bool" where
  "env_clean entry \<longleftrightarrow>
     (case entry of
        PDict d \<Rightarrow> list_all (\<lambda>(k, v). k = ''value'' \<or> k = ''valueFrom'' \<longrightarrow> v = PStr REDACTED) d
      | _ \<Rightarrow> True)"

definition arg_clean :: "pyval \<Rightarrow> bool" where
  "arg_clean arg \<longleftrightarrow>
     (case arg of
        PStr s \<Rightarrow>
          list_all (\<lambda>p. startswith (lower s) p \<longrightarrow> s = p @ REDACTED) COMMAND_ARG_SECRET_PREFIXES
          \<and> (is_valid_base64_string (strip s) \<longrightarrow>
               list_ex (\<lambda>p. startswith (lower s) p) COMMAND_ARG_SECRET_PREFIXES)
      | _ \<Rightarrow> True)"

definition text_clean :: "str \<Rightarrow> str \<Rightarrow> bool" where
  "text_clean key s \<longleftrightarrow> heuristic_exempt key \<or> \<not> value_matches_heuristics s"

text \<open>No entry below a dictionary holds anything a rule calls sensitive.\<close>

function clean_dict :: "pydict \<Rightarrow> bool" and clean_list :: "str \<Rightarrow> pyval list \<Rightarrow> bool" where
  "clean_dict [] = True"
| "clean_dict ((key, value) # rest) =
     ((if key = ''env'' \<and> is_list value then list_all env_clean (list_or_empty value)
       else if (key = ''command'' \<or> key = ''args'') \<and> is_list value
         then list_all arg_clean (list_or_empty value)
       else if key_contains_denylist_word key then value = PStr REDACTED
       else (case value of
           PDict d \<Rightarrow> clean_dict d
         | PList xs \<Rightarrow> clean_list key xs
         | PStr s \<Rightarrow> text_clean key s
         | _ \<Rightarrow> True))
      \<and> clean_dict rest)"
| "clean_list parent_key [] = True"
| "clean_list parent_key (item # rest) =
     ((case item of
         PDict d \<Rightarrow> clean_dict d
       | PList xs \<Rightarrow> clean_list parent_key xs
       | PStr s \<Rightarrow> text_clean parent_key s
       | _ \<Rightarrow> True)
      \<and> clean_list parent_key rest)"
  by pat_completeness auto
termination
  by (relation "measure (case_sum (size_list (size_prod (\<lambda>_. 0) size)) (\<lambda>(_, xs). size_list size xs))") auto

lemma redact_env_entry_clean: "env_clean (redact_env_entry v)"
  by (cases v) (auto simp: env_clean_def redact_env_entry_def list_all_iff)

lemma secret_prefix_unique:
  "p \<in> set COMMAND_ARG_SECRET_PREFIXES \<Longrightarrow> q \<in> set COMMAND_ARG_SECRET_PREFIXES \<Longrightarrow>
   startswith (lower s) p \<Longrightarrow> startswith (lower s) q \<Longrightarrow> p = q"
  by (auto simp: COMMAND_ARG_SECRET_PREFIXES_def prefix_def)

lemma redact_arg_clean: "arg_clean (redact_arg v)"
proof (cases v)
  case (PStr s)
  let ?r = "redact_command_arg s"
  have fixed: "redact_command_arg ?r = ?r" by (rule redact_command_arg_idem)
  show ?thesis
  proof (cases "List.find (\<lambda>p. startswith (lower ?r) p) COMMAND_ARG_SECRET_PREFIXES")
    case None
    then have "\<forall>p \<in> set COMMAND_ARG_SECRET_PREFIXES. \<not> startswith (lower ?r) p"
      by (simp add: find_None_iff)
    moreover have "\<not> is_valid_base64_string (strip ?r)"
    proof
      assume b: "is_valid_base64_string (strip ?r)"
      with None have "redact_command_arg ?r = REDACTED"
        by (simp add: redact_command_arg_def Let_def is_valid_base64_string_def)
      with fixed b have "is_valid_base64_string (strip REDACTED)" by simp
      moreover have "length (strip REDACTED) \<le> 10"
        using length_strip [of REDACTED] by (simp add: REDACTED_def)
      then have "\<not> is_valid_base64_string (strip REDACTED)"
        by (simp add: is_valid_base64_string_def BASE64_CMD_THRESHOLD_def)
      ultimately show False by blast
    qed
    ultimately show ?thesis
      using PStr by (simp add: arg_clean_def redact_arg_def list_all_iff)
  next
    case (Some p)
    then have p: "p \<in> set COMMAND_ARG_SECRET_PREFIXES" "startswith (lower ?r) p"
      by (auto simp: find_Some_iff)
    from Some fixed have r: "?r = p @ REDACTED" by (simp add: redact_command_arg_def)
    have "\<forall>q \<in> set COMMAND_ARG_SECRET_PREFIXES. startswith (lower ?r) q \<longrightarrow> ?r = q @ REDACTED"
      using secret_prefix_unique [OF _ p(1) _ p(2)] r by blast
    moreover have "\<exists>q \<in> set COMMAND_ARG_SECRET_PREFIXES. startswith (lower ?r) q" using p by blast
    ultimately show ?thesis
      unfolding PStr redact_arg_def arg_clean_def list_all_iff list_ex_iff pyval.case by blast
  qed
qed (simp_all add: arg_clean_def redact_arg_def)

lemma text_clean_hash [simp]: "text_clean k (hash_value s)" "text_clean k REDACTED"
  by (simp_all add: text_clean_def hash_value_not_secret REDACTED_not_secret)

lemma is_list_simps [simp]:
  "is_list (PList xs)" "\<not> is_list PNone" "\<not> is_list (PBool b)" "\<not> is_list (PInt n)"
  "\<not> is_list (PStr s)" "\<not> is_list (PDict d)"
  by (simp_all add: is_list_def)

lemma list_or_empty_PList [simp]: "list_or_empty (PList xs) = xs"
  by (simp add: list_or_empty_def)

lemma redact_keys: "dkeys (redact_recursive d) = dkeys d"
  by (induction d) auto

lemma redact_is_clean: "clean_dict (redact_recursive d)" "clean_list key (redact_list key xs)"
proof (induction d and key xs rule: redact_recursive_redact_list.induct)
  case (2 k v rest)
  then show ?case
    by (cases v) (auto simp: list_all_iff redact_env_entry_clean redact_arg_clean text_clean_def
        hash_value_not_secret)
next
  case (4 parent_key item rest)
  then show ?case
    by (cases item) (auto simp: text_clean_def hash_value_not_secret REDACTED_not_secret)
qed simp_all

lemma env_clean_fixed: "env_clean v \<Longrightarrow> redact_env_entry v = v"
  by (cases v) (fastforce simp: env_clean_def redact_env_entry_def list_all_iff intro: map_idI)+

lemma arg_clean_fixed: "arg_clean v \<Longrightarrow> redact_arg v = v"
proof (cases v)
  case (PStr s)
  assume c: "arg_clean v"
  show ?thesis
  proof (cases "List.find (\<lambda>p. startswith (lower s) p) COMMAND_ARG_SECRET_PREFIXES")
    case None
    then have "\<not> list_ex (\<lambda>p. startswith (lower s) p) COMMAND_ARG_SECRET_PREFIXES"
      by (simp add: find_None_iff list_ex_iff)
    with c None PStr show ?thesis
      by (auto simp: arg_clean_def redact_arg_def redact_command_arg_def Let_def)
  next
    case (Some p)
    then have "p \<in> set COMMAND_ARG_SECRET_PREFIXES" "startswith (lower s) p"
      by (auto simp: find_Some_iff)
    with c PStr Some show ?thesis
      by (simp add: arg_clean_def redact_arg_def redact_command_arg_def list_all_iff)
  qed
qed (simp_all add: redact_arg_def)

lemma clean_is_fixed:
  "clean_dict d \<Longrightarrow> redact_recursive d = d"
  "\<not> key_contains_denylist_word key \<Longrightarrow> clean_list key xs \<Longrightarrow> redact_list key xs = xs"
proof (induction d and key xs rule: redact_recursive_redact_list.induct)
  case (2 k v rest)
  then show ?case
    by (cases v) (auto simp: list_all_iff text_clean_def env_clean_fixed arg_clean_fixed
        intro: map_idI split: if_splits)
next
  case (4 parent_key item rest)
  then show ?case
    by (cases item) (auto simp: text_clean_def)
qed simp_all


lemma redact_annotations_keys: "dkeys (redact_annotations d) = dkeys d"
  by (induction d) (auto simp: redact_annotations_def)

subsection \<open>Properties\<close>


text \<open>
  an annotation survives redaction with its value only under a safe prefix (or when it is
  \<open>None\<close>); every other one becomes the mask, and the keys stay.
\<close>

theorem annotation_redaction:
  "dkeys (redact_dict True d) = dkeys d
   \<and> list_all2 (\<lambda>(k, v) (k', v'). k' = k \<and>
         v' = (if safe_annotation k \<or> v = PNone then v else PStr REDACTED))
       d (redact_dict True d)"
proof -
  have "list_all2 (\<lambda>(k, v) (k', v'). k' = k \<and>
      v' = (if safe_annotation k \<or> v = PNone then v else PStr REDACTED)) d (redact_annotations d)"
    by (induction d)
       (auto simp: redact_annotations_def redact_annotation_value_def split: pyval.splits)
  then show ?thesis by (simp add: redact_dict_def redact_annotations_keys)
qed

end
