(* ===== verification/ResourceCache.thy ===== *)
theory ResourceCache
  imports Redaction Models
begin

text \<open>
  \<open>kuberca/cache/resource_cache.py\<close> with \<open>CachedResource\<close> of \<open>models/resources.py\<close>: the store of
  watched objects, its redacted reads, and the readiness state with the divergence checks.  The
  Kubernetes API is a parameter of \<open>populate\<close>: what each list call returned.  The memoised redacted
  view is recomputed here, since every write of the code invalidates it.
\<close>

definition LIST_CAP_DEFAULT :: nat where "LIST_CAP_DEFAULT = 200"
definition LIST_CAP_NODES :: nat where "LIST_CAP_NODES = 2000"
definition NODE_KIND :: str where "NODE_KIND = ''Node''"
definition MISS_RATE_THRESHOLD :: dbl where "MISS_RATE_THRESHOLD = dlit 5 100"
definition MISS_RATE_WINDOW :: duration where "MISS_RATE_WINDOW = minutes 5"
definition RELIST_TIMEOUT_THRESHOLD :: nat where "RELIST_TIMEOUT_THRESHOLD = 2"
definition RELIST_TIMEOUT_WINDOW :: duration where "RELIST_TIMEOUT_WINDOW = minutes 10"
definition RECONNECT_FAILURE_THRESHOLD :: nat where "RECONNECT_FAILURE_THRESHOLD = 3"
definition BURST_WINDOW :: duration where "BURST_WINDOW = minutes 1"
definition PARTIALLY_READY_STALENESS_TIMEOUT :: duration where
  "PARTIALLY_READY_STALENESS_TIMEOUT = minutes 10"
definition MAX_STARTUP_KINDS :: nat where "MAX_STARTUP_KINDS = 18"

record cached_resource =
  cr_kind :: str
  cr_namespace :: str
  cr_name :: str
  cr_resource_version :: str
  cr_labels :: "(str, str) dict"
  cr_annotations :: "(str, str) dict"
  cr_spec :: pydict
  cr_status :: pydict
  cr_last_updated :: instant

type_synonym by_name = "(str, cached_resource) dict"
type_synonym store = "(str, (str, by_name) dict) dict"

record rcache =
  rc_store :: store
  rc_last_updated :: "(str, instant) dict"
  rc_versions :: "(str, str) dict"
  rc_truncated :: "(str, bool) dict"
  rc_ready_kinds :: "str set"
  rc_all_kinds :: "str set"
  rc_readiness :: cache_readiness
  rc_partial_since :: "instant option"
  rc_access :: "(instant \<times> bool) list"
  rc_reconnect_failures :: nat
  rc_relist_times :: "instant list"
  rc_burst_times :: "instant list"

definition cache_init :: rcache where
  "cache_init =
     \<lparr>rc_store = [], rc_last_updated = [], rc_versions = [], rc_truncated = [], rc_ready_kinds = {},
      rc_all_kinds = {}, rc_readiness = WARMING, rc_partial_since = None, rc_access = [],
      rc_reconnect_failures = 0, rc_relist_times = [], rc_burst_times = []\<rparr>"

subsection \<open>Redacted views\<close>

definition text_dict :: "(str, str) dict \<Rightarrow> pydict" where
  "text_dict d = map (\<lambda>(k, v). (k, PStr v)) d"

definition redacted_view :: "cached_resource \<Rightarrow> resource_view" where
  "redacted_view r =
     \<lparr>vw_kind = cr_kind r, vw_namespace = cr_namespace r, vw_name = cr_name r,
      vw_resource_version = cr_resource_version r, vw_labels = cr_labels r,
      vw_annotations = redact_dict True (text_dict (cr_annotations r)),
      vw_spec = redact_dict False (cr_spec r), vw_status = redact_dict False (cr_status r),
      vw_last_updated = cr_last_updated r\<rparr>"

subsection \<open>Store helpers\<close>

definition list_cap :: "str \<Rightarrow> nat" where
  "list_cap kind = (if kind = NODE_KIND then LIST_CAP_NODES else LIST_CAP_DEFAULT)"

definition kind_count :: "rcache \<Rightarrow> str \<Rightarrow> nat" where
  "kind_count c kind = sum_list (map (\<lambda>(ns, per_ns). length per_ns) (dget_or [] (rc_store c) kind))"

text \<open>\<open>self._store[kind][namespace]\<close> on the nested defaultdict: reading creates the entry.\<close>

definition touch :: "str \<Rightarrow> str \<Rightarrow> store \<Rightarrow> store" where
  "touch kind ns st =
     (let ns_map = dget_or [] st kind in dset kind (dset ns (dget_or [] ns_map ns) ns_map) st)"

definition store_put :: "cached_resource \<Rightarrow> store \<Rightarrow> store" where
  "store_put r st =
     (let ns_map = dget_or [] st (cr_kind r); per_ns = dget_or [] ns_map (cr_namespace r) in
      dset (cr_kind r) (dset (cr_namespace r) (dset (cr_name r) r per_ns) ns_map) st)"

definition store_get :: "store \<Rightarrow> str \<Rightarrow> str \<Rightarrow> str \<Rightarrow> cached_resource option" where
  "store_get st kind ns name = dget (dget_or [] (dget_or [] st kind) ns) name"

definition dict_field :: "pydict \<Rightarrow> str \<Rightarrow> pydict" where
  "dict_field d k = dict_or_empty (vget (PDict []) d k)"

definition str_items :: "pyval \<Rightarrow> (str, str) dict" where
  "str_items v = (case v of PDict d \<Rightarrow> map (\<lambda>(k, x). (k, py_str x)) d | _ \<Rightarrow> [])"

subsection \<open>Writes\<close>

definition cache_update :: "instant \<Rightarrow> str \<Rightarrow> str \<Rightarrow> str \<Rightarrow> pydict \<Rightarrow> rcache \<Rightarrow> rcache" where
  "cache_update now kind ns name raw_obj c =
     (let metadata = dict_field raw_obj ''metadata'';
          labels = str_items (vget (PDict []) metadata ''labels'');
          annotations = str_items (vget (PDict []) metadata ''annotations'');
          spec = dict_field raw_obj ''spec'';
          status = dict_field raw_obj ''status'';
          rv = py_str (vget (PStr '''') metadata ''resourceVersion'');
          st = touch kind ns (rc_store c);
          new = \<lparr>cr_kind = kind, cr_namespace = ns, cr_name = name, cr_resource_version = rv,
                 cr_labels = labels, cr_annotations = annotations, cr_spec = spec, cr_status = status,
                 cr_last_updated = now\<rparr>;
          written = c\<lparr>rc_store := store_put new st, rc_last_updated := dset kind now (rc_last_updated c),
                      rc_versions := (if rv \<noteq> [] then dset kind rv (rc_versions c) else rc_versions c)\<rparr>
      in case store_get st kind ns name of
           Some existing \<Rightarrow> written
         | None \<Rightarrow>
             if list_cap kind \<le> kind_count (c\<lparr>rc_store := st\<rparr>) kind
             then c\<lparr>rc_store := st, rc_truncated := dset kind True (rc_truncated c)\<rparr>
             else written)"

definition cache_remove :: "str \<Rightarrow> str \<Rightarrow> str \<Rightarrow> rcache \<Rightarrow> rcache" where
  "cache_remove kind ns name c =
     (case dget (rc_store c) kind of
        None \<Rightarrow> c
      | Some ns_map \<Rightarrow>
          (case dget ns_map ns of
             None \<Rightarrow> c
           | Some per_ns \<Rightarrow>
               if name \<in> set (dkeys per_ns)
               then c\<lparr>rc_store := dset kind (dset ns (dpop name per_ns) ns_map) (rc_store c)\<rparr>
               else c))"

subsection \<open>Divergence and readiness\<close>

definition record_access :: "instant \<Rightarrow> bool \<Rightarrow> rcache \<Rightarrow> rcache" where
  "record_access now hit c =
     c\<lparr>rc_access := expire_left (\<lambda>(ts, _). ts < now - MISS_RATE_WINDOW) (rc_access c @ [(now, hit)])\<rparr>"

definition recent_accesses :: "instant \<Rightarrow> rcache \<Rightarrow> (instant \<times> bool) list" where
  "recent_accesses now c = filter (\<lambda>(ts, _). now - MISS_RATE_WINDOW \<le> ts) (rc_access c)"

definition misses_of :: "(instant \<times> bool) list \<Rightarrow> nat" where
  "misses_of xs = length (filter (\<lambda>(_, hit). \<not> hit) xs)"

definition current_miss_rate :: "instant \<Rightarrow> rcache \<Rightarrow> dbl" where
  "current_miss_rate now c =
     (let recent = recent_accesses now c in
      if recent = [] then 0 else fl_quot (int (misses_of recent) * dbl_unit) (int (length recent)))"

definition recent_relist_timeouts :: "instant \<Rightarrow> rcache \<Rightarrow> nat \<times> rcache" where
  "recent_relist_timeouts now c =
     (let ts = expire_left (\<lambda>t. t < now - RELIST_TIMEOUT_WINDOW) (rc_relist_times c) in
      (length ts, c\<lparr>rc_relist_times := ts\<rparr>))"

definition recent_burst_duration :: "instant \<Rightarrow> rcache \<Rightarrow> duration \<times> rcache" where
  "recent_burst_duration now c =
     (let ts = expire_left (\<lambda>t. t < now - BURST_WINDOW) (rc_burst_times c) in
      (case ts of [] \<Rightarrow> 0 | oldest # _ \<Rightarrow> now - oldest, c\<lparr>rc_burst_times := ts\<rparr>))"

definition is_diverged :: "instant \<Rightarrow> rcache \<Rightarrow> bool \<times> rcache" where
  "is_diverged now c =
     (if MISS_RATE_THRESHOLD < current_miss_rate now c then (True, c)
      else if RECONNECT_FAILURE_THRESHOLD < rc_reconnect_failures c then (True, c)
      else
        let (timeouts, c1) = recent_relist_timeouts now c in
        if RELIST_TIMEOUT_THRESHOLD < timeouts then (True, c1)
        else let (burst, c2) = recent_burst_duration now c1 in (BURST_WINDOW < burst, c2))"

definition recompute_readiness :: "instant \<Rightarrow> rcache \<Rightarrow> rcache" where
  "recompute_readiness now c =
     (if rc_all_kinds c = {} then c\<lparr>rc_readiness := WARMING\<rparr>
      else
        let (diverged, c1) = is_diverged now c in
        if diverged then c1\<lparr>rc_readiness := DEGRADED\<rparr>
        else if rc_all_kinds c1 \<subseteq> rc_ready_kinds c1
          then c1\<lparr>rc_readiness := READY, rc_partial_since := None\<rparr>
        else if rc_ready_kinds c1 \<noteq> {} then
          let since = (case rc_partial_since c1 of None \<Rightarrow> now | Some t \<Rightarrow> t);
              c2 = c1\<lparr>rc_partial_since := Some since\<rparr>
          in if PARTIALLY_READY_STALENESS_TIMEOUT \<le> now - since then c2\<lparr>rc_readiness := DEGRADED\<rparr>
             else c2\<lparr>rc_readiness := PARTIALLY_READY\<rparr>
        else c1\<lparr>rc_readiness := WARMING\<rparr>)"

text \<open>The transitions INV-CS01 allows; the code logs any other one.\<close>

definition valid_transition :: "cache_readiness \<Rightarrow> cache_readiness \<Rightarrow> bool" where
  "valid_transition a b \<longleftrightarrow>
     (a, b) \<in> {(WARMING, PARTIALLY_READY), (WARMING, DEGRADED), (WARMING, READY),
               (PARTIALLY_READY, READY), (PARTIALLY_READY, DEGRADED), (READY, DEGRADED),
               (DEGRADED, READY), (DEGRADED, PARTIALLY_READY)}"

definition cache_readiness_of :: "instant \<Rightarrow> rcache \<Rightarrow> cache_readiness \<times> rcache" where
  "cache_readiness_of now c = (let c1 = recompute_readiness now c in (rc_readiness c1, c1))"

definition notify_reconnect_failure :: "instant \<Rightarrow> rcache \<Rightarrow> rcache" where
  "notify_reconnect_failure now c =
     recompute_readiness now (c\<lparr>rc_reconnect_failures := Suc (rc_reconnect_failures c)\<rparr>)"

definition notify_relist_timeout :: "instant \<Rightarrow> rcache \<Rightarrow> rcache" where
  "notify_relist_timeout now c =
     recompute_readiness now (c\<lparr>rc_relist_times := rc_relist_times c @ [now]\<rparr>)"

definition notify_burst_error :: "instant \<Rightarrow> rcache \<Rightarrow> rcache" where
  "notify_burst_error now c =
     recompute_readiness now (c\<lparr>rc_burst_times := rc_burst_times c @ [now]\<rparr>)"

definition reset_reconnect_failures :: "rcache \<Rightarrow> rcache" where
  "reset_reconnect_failures c = c\<lparr>rc_reconnect_failures := 0\<rparr>"

subsection \<open>Reads\<close>

definition cache_get :: "instant \<Rightarrow> str \<Rightarrow> str \<Rightarrow> str \<Rightarrow> rcache \<Rightarrow> resource_view option \<times> rcache" where
  "cache_get now kind ns name c =
     (case store_get (rc_store c) kind ns name of
        None \<Rightarrow> (None, record_access now False c)
      | Some resource \<Rightarrow> (Some (redacted_view resource), record_access now True c))"

definition candidates :: "rcache \<Rightarrow> str \<Rightarrow> str \<Rightarrow> cached_resource list" where
  "candidates c kind ns =
     (let ns_map = dget_or [] (rc_store c) kind in
      if ns \<noteq> [] then map snd (dget_or [] ns_map ns)
      else concat (map (\<lambda>(_, per_ns). map snd per_ns) ns_map))"

definition cache_list :: "rcache \<Rightarrow> str \<Rightarrow> str \<Rightarrow> resource_view list" where
  "cache_list c kind ns = map redacted_view (take (list_cap kind) (candidates c kind ns))"

definition labels_match :: "(str, str) dict \<Rightarrow> cached_resource \<Rightarrow> bool" where
  "labels_match labels r \<longleftrightarrow> list_all (\<lambda>(k, v). dget (cr_labels r) k = Some v) labels"

definition cache_list_by_label ::
  "rcache \<Rightarrow> str \<Rightarrow> (str, str) dict \<Rightarrow> str \<Rightarrow> resource_view list" where
  "cache_list_by_label c kind labels ns =
     map redacted_view (take (list_cap kind) (filter (labels_match labels) (candidates c kind ns)))"

definition list_truncated :: "rcache \<Rightarrow> str \<Rightarrow> bool" where
  "list_truncated c kind = dget_or False (rc_truncated c) kind"

definition cache_staleness :: "instant \<Rightarrow> rcache \<Rightarrow> str \<Rightarrow> duration option" where
  "cache_staleness now c kind = map_option (\<lambda>last. now - last) (dget (rc_last_updated c) kind)"

definition cache_resource_version :: "rcache \<Rightarrow> str \<Rightarrow> str" where
  "cache_resource_version c kind = dget_or [] (rc_versions c) kind"

subsection \<open>Startup listing\<close>

text \<open>
  An item of a list response after deserialisation: no metadata, or its attributes, \<open>None\<close> where
  the attribute is absent.  A call is skipped when there is no API object or no list method for the
  kind, and may fail; its result carries the items, the resource version and the continue token.
\<close>

record list_item =
  li_namespace :: "str option"
  li_name :: "str option"
  li_resource_version :: "str option"
  li_labels :: pyval
  li_annotations :: pyval
  li_spec :: pyval
  li_status :: pyval

datatype list_outcome =
    NoListCall
  | ListFailed
  | Listed "list_item option list" "str option" bool

definition ingest_object :: "instant \<Rightarrow> str \<Rightarrow> list_item option \<Rightarrow> store \<Rightarrow> store" where
  "ingest_object now kind obj st =
     (case obj of
        None \<Rightarrow> st
      | Some it \<Rightarrow>
          let ns = the_default_str (li_namespace it); name = the_default_str (li_name it) in
          if name = [] then st
          else store_put
            \<lparr>cr_kind = kind, cr_namespace = ns, cr_name = name,
             cr_resource_version = the_default_str (li_resource_version it),
             cr_labels = str_items (li_labels it), cr_annotations = str_items (li_annotations it),
             cr_spec = dict_or_empty (li_spec it), cr_status = dict_or_empty (li_status it),
             cr_last_updated = now\<rparr> st)"

definition list_kind :: "instant \<Rightarrow> str \<Rightarrow> list_outcome \<Rightarrow> rcache \<Rightarrow> rcache" where
  "list_kind now kind outcome c =
     (case outcome of
        NoListCall \<Rightarrow> c
      | ListFailed \<Rightarrow> c
      | Listed items rv continue \<Rightarrow>
          c\<lparr>rc_store := fold (ingest_object now kind) items (rc_store c),
            rc_versions := dset kind (the_default_str rv) (rc_versions c),
            rc_last_updated := dset kind now (rc_last_updated c),
            rc_truncated := dset kind continue (rc_truncated c),
            rc_ready_kinds := insert kind (rc_ready_kinds c)\<rparr>)"

definition default_kinds :: "str list" where
  "default_kinds =
     [''Pod'', ''Node'', ''Deployment'', ''ReplicaSet'', ''StatefulSet'', ''DaemonSet'', ''Service'',
      ''Endpoints'', ''ConfigMap'', ''Secret'', ''PersistentVolumeClaim'', ''PersistentVolume'',
      ''ResourceQuota'', ''Event'', ''Namespace'', ''Job'', ''CronJob'', ''ServiceAccount'']"

definition cache_populate ::
  "instant \<Rightarrow> (str \<Rightarrow> list_outcome) \<Rightarrow> str list \<Rightarrow> rcache \<Rightarrow> rcache" where
  "cache_populate now api kinds c =
     (let target_kinds = take MAX_STARTUP_KINDS (if kinds \<noteq> [] then kinds else default_kinds);
          c0 = c\<lparr>rc_all_kinds := set target_kinds, rc_readiness := WARMING\<rparr>
      in recompute_readiness now (fold (\<lambda>kind. list_kind now kind (api kind)) target_kinds c0))"

subsection \<open>The store as a map\<close>

definition per_name_wf :: "str \<Rightarrow> str \<Rightarrow> by_name \<Rightarrow> bool" where
  "per_name_wf kind ns d \<longleftrightarrow>
     dwf d \<and> dall (\<lambda>name r. cr_kind r = kind \<and> cr_namespace r = ns \<and> cr_name r = name) d"

definition per_kind_wf :: "str \<Rightarrow> (str, by_name) dict \<Rightarrow> bool" where
  "per_kind_wf kind m \<longleftrightarrow> dwf m \<and> dall (per_name_wf kind) m"

definition store_wf :: "store \<Rightarrow> bool" where
  "store_wf st \<longleftrightarrow> dwf st \<and> dall per_kind_wf st"

definition count_of :: "(str, by_name) dict \<Rightarrow> nat" where
  "count_of m = sum_list (map (\<lambda>(ns, per_ns). length per_ns) m)"

lemma kind_count_eq: "kind_count c kind = count_of (dget_or [] (rc_store c) kind)"
  by (simp add: kind_count_def count_of_def)

lemma count_of_dset: "count_of (dset ns x m) + length (dget_or [] m ns) = count_of m + length x"
  by (induction m) (auto simp: count_of_def dget_or_def)

lemma per_name_wf_Nil [simp]: "per_name_wf kind ns []"
  by (simp add: per_name_wf_def)

lemma per_kind_wf_Nil [simp]: "per_kind_wf kind []"
  by (simp add: per_kind_wf_def)

lemma store_wf_kind: "store_wf st \<Longrightarrow> per_kind_wf kind (dget_or [] st kind)"
  unfolding store_wf_def using dget_or_dall [of per_kind_wf st kind "[]"] by simp

lemma per_kind_wf_ns: "per_kind_wf kind m \<Longrightarrow> per_name_wf kind ns (dget_or [] m ns)"
  unfolding per_kind_wf_def using dget_or_dall [of "per_name_wf kind" m ns "[]"] by simp

lemma store_wf_dset:
  "store_wf st \<Longrightarrow> per_kind_wf kind m \<Longrightarrow> store_wf (dset kind m st)"
  by (simp add: store_wf_def dall_dset)

lemma per_kind_wf_dset:
  "per_kind_wf kind m \<Longrightarrow> per_name_wf kind ns d \<Longrightarrow> per_kind_wf kind (dset ns d m)"
  by (simp add: per_kind_wf_def dall_dset)

lemmas store_wf_parts = store_wf_kind per_kind_wf_ns store_wf_dset per_kind_wf_dset

lemma touch_wf: "store_wf st \<Longrightarrow> store_wf (touch kind ns st)"
  by (simp add: touch_def Let_def store_wf_parts)

lemma store_put_wf:
  assumes "store_wf st"
  shows "store_wf (store_put r st)"
proof -
  let ?m = "dget_or [] st (cr_kind r)"
  let ?d = "dget_or [] ?m (cr_namespace r)"
  have d: "per_name_wf (cr_kind r) (cr_namespace r) ?d"
    using assms by (simp add: store_wf_parts)
  then have "per_name_wf (cr_kind r) (cr_namespace r) (dset (cr_name r) r ?d)"
    by (simp add: per_name_wf_def dall_dset)
  then show ?thesis
    using assms by (simp add: store_put_def Let_def store_wf_parts)
qed

lemma touch_get [simp]: "store_get (touch kind ns st) k n m = store_get st k n m"
  by (auto simp: store_get_def touch_def Let_def)

lemma store_put_get:
  "store_get (store_put r st) k n m =
     (if k = cr_kind r \<and> n = cr_namespace r \<and> m = cr_name r then Some r else store_get st k n m)"
  by (auto simp: store_get_def store_put_def Let_def)

lemma touch_count [simp]: "count_of (dget_or [] (touch kind ns st) k) = count_of (dget_or [] st k)"
  using count_of_dset [of ns "dget_or [] (dget_or [] st kind) ns" "dget_or [] st kind"]
  by (auto simp: touch_def Let_def)

lemma store_put_count:
  "count_of (dget_or [] (store_put r st) k) =
     (if k = cr_kind r \<and> store_get st (cr_kind r) (cr_namespace r) (cr_name r) = None
      then Suc (count_of (dget_or [] st k)) else count_of (dget_or [] st k))"
proof -
  let ?m = "dget_or [] st (cr_kind r)"
  let ?d = "dget_or [] ?m (cr_namespace r)"
  show ?thesis
    using count_of_dset [of "cr_namespace r" "dset (cr_name r) r ?d" ?m]
    by (auto simp: store_put_def Let_def store_get_def length_dset)
qed

definition caps_ok :: "rcache \<Rightarrow> bool" where
  "caps_ok c \<longleftrightarrow> (\<forall>kind. kind_count c kind \<le> list_cap kind)"

definition cache_wf :: "rcache \<Rightarrow> bool" where
  "cache_wf c \<longleftrightarrow> store_wf (rc_store c) \<and> caps_ok c"

lemma cache_init_wf [wf_intros]: "cache_wf cache_init"
  by (simp add: cache_wf_def cache_init_def store_wf_def caps_ok_def kind_count_eq count_of_def dget_or_def)

text \<open>The object a watch event describes.\<close>

definition watched :: "instant \<Rightarrow> str \<Rightarrow> str \<Rightarrow> str \<Rightarrow> pydict \<Rightarrow> cached_resource" where
  "watched now kind ns name raw_obj =
     (let metadata = dict_field raw_obj ''metadata'' in
      \<lparr>cr_kind = kind, cr_namespace = ns, cr_name = name,
       cr_resource_version = py_str (vget (PStr '''') metadata ''resourceVersion''),
       cr_labels = str_items (vget (PDict []) metadata ''labels''),
       cr_annotations = str_items (vget (PDict []) metadata ''annotations''),
       cr_spec = dict_field raw_obj ''spec'', cr_status = dict_field raw_obj ''status'',
       cr_last_updated = now\<rparr>)"

definition refuses :: "rcache \<Rightarrow> str \<Rightarrow> str \<Rightarrow> str \<Rightarrow> bool" where
  "refuses c kind ns name \<longleftrightarrow>
     store_get (rc_store c) kind ns name = None \<and> list_cap kind \<le> kind_count c kind"

lemma cache_update_store:
  "rc_store (cache_update now kind ns name raw c) =
     (if refuses c kind ns name then touch kind ns (rc_store c)
      else store_put (watched now kind ns name raw) (touch kind ns (rc_store c)))"
  by (auto simp: cache_update_def Let_def refuses_def watched_def kind_count_eq split: option.splits)

lemma watched_keys [simp]:
  "cr_kind (watched now kind ns name raw) = kind"
  "cr_namespace (watched now kind ns name raw) = ns"
  "cr_name (watched now kind ns name raw) = name"
  by (simp_all add: watched_def Let_def)

lemma cache_update_wf [wf_intros]:
  assumes "cache_wf c"
  shows "cache_wf (cache_update now kind ns name raw c)"
proof -
  have "store_wf (rc_store (cache_update now kind ns name raw c))"
    using assms by (simp add: cache_update_store cache_wf_def touch_wf store_put_wf)
  moreover have "caps_ok (cache_update now kind ns name raw c)"
    unfolding caps_ok_def
  proof
    fix k
    have "count_of (dget_or [] (rc_store c) k) \<le> list_cap k"
      using assms by (simp add: cache_wf_def caps_ok_def kind_count_eq)
    then show "kind_count (cache_update now kind ns name raw c) k \<le> list_cap k"
      by (auto simp: kind_count_eq cache_update_store store_put_count refuses_def)
  qed
  ultimately show ?thesis by (simp add: cache_wf_def)
qed

lemma cache_remove_store:
  "rc_store (cache_remove kind ns name c) =
     (if store_get (rc_store c) kind ns name = None then rc_store c
      else dset kind (dset ns (dpop name (dget_or [] (dget_or [] (rc_store c) kind) ns))
             (dget_or [] (rc_store c) kind)) (rc_store c))"
  by (auto simp: cache_remove_def store_get_def dget_or_def dkeys_iff simp del: set_map
      split: option.splits)

lemma cache_remove_get:
  "store_get (rc_store (cache_remove kind ns name c)) k n m =
     (if k = kind \<and> n = ns \<and> m = name then None else store_get (rc_store c) k n m)"
  by (auto simp: cache_remove_store store_get_def)

lemma cache_remove_wf [wf_intros]:
  assumes "cache_wf c"
  shows "cache_wf (cache_remove kind ns name c)"
proof -
  let ?m = "dget_or [] (rc_store c) kind"
  let ?d = "dget_or [] ?m ns"
  have st: "store_wf (rc_store c)" using assms by (simp add: cache_wf_def)
  then have "per_name_wf kind ns ?d" by (simp add: store_wf_parts)
  then have "per_name_wf kind ns (dpop name ?d)" by (simp add: per_name_wf_def dall_dpop)
  with st have "store_wf (rc_store (cache_remove kind ns name c))"
    by (simp add: cache_remove_store store_wf_parts)
  moreover have "count_of (dset ns (dpop name ?d) ?m) \<le> count_of ?m"
    using count_of_dset [of ns "dpop name ?d" ?m] length_dpop [of name ?d] by simp
  then have "caps_ok (cache_remove kind ns name c)"
    using assms unfolding cache_wf_def caps_ok_def kind_count_eq cache_remove_store
    by (auto intro: order_trans)
  ultimately show ?thesis by (simp add: cache_wf_def)
qed

subsection \<open>Reads\<close>

definition masked_annotations :: "pydict \<Rightarrow> bool" where
  "masked_annotations d \<longleftrightarrow>
     list_all (\<lambda>(k, x). safe_annotation k \<or> x = PNone \<or> x = PStr REDACTED) d"

definition view_clean :: "resource_view \<Rightarrow> bool" where
  "view_clean v \<longleftrightarrow> clean_dict (vw_spec v) \<and> clean_dict (vw_status v) \<and> masked_annotations (vw_annotations v)"

lemma masked_annotations_redacted: "masked_annotations (redact_dict True (text_dict d))"
  by (induction d)
     (auto simp: masked_annotations_def redact_dict_def redact_annotations_def text_dict_def
       redact_annotation_value_def)

lemma redacted_view_clean: "view_clean (redacted_view r)"
  by (simp add: view_clean_def redacted_view_def masked_annotations_redacted)
     (simp add: redact_dict_def redact_is_clean)

lemma record_access_store [simp]: "rc_store (record_access now hit c) = rc_store c"
  by (simp add: record_access_def)

lemma cache_get_fst: "fst (cache_get now k n m c) = map_option redacted_view (store_get (rc_store c) k n m)"
  by (simp add: cache_get_def split: option.splits)

lemma cache_get_store [simp]: "rc_store (snd (cache_get now k n m c)) = rc_store c"
  by (simp add: cache_get_def split: option.splits)

lemma length_candidates: "length (candidates c kind []) = kind_count c kind"
  by (simp add: candidates_def kind_count_def Let_def length_concat comp_def case_prod_unfold)

lemma candidates_iff:
  assumes "store_wf (rc_store c)"
  shows "r \<in> set (candidates c kind ns) \<longleftrightarrow>
    (\<exists>n m. (ns = [] \<or> n = ns) \<and> store_get (rc_store c) kind n m = Some r)"
proof -
  let ?m = "dget_or [] (rc_store c) kind"
  have m: "per_kind_wf kind ?m" using assms by (rule store_wf_kind)
  then have wm: "dwf ?m" by (simp add: per_kind_wf_def)
  have wd: "dwf (dget_or [] ?m n)" for n
    using per_kind_wf_ns [OF m, of n] by (simp add: per_name_wf_def)
  have inner: "r \<in> snd ` set (dget_or [] ?m n) \<longleftrightarrow> (\<exists>x. store_get (rc_store c) kind n x = Some r)" for n
    unfolding store_get_def dwf_Some_iff [OF wd] by force
  have outer: "(n, d) \<in> set ?m \<Longrightarrow> dget_or [] ?m n = d" for n d
    using iffD2 [OF dwf_Some_iff [OF wm]] by (simp add: dget_or_def)
  have "(\<exists>n d. (n, d) \<in> set ?m \<and> r \<in> snd ` set d) \<longleftrightarrow> (\<exists>n. r \<in> snd ` set (dget_or [] ?m n))"
  proof
    assume "\<exists>n d. (n, d) \<in> set ?m \<and> r \<in> snd ` set d"
    then show "\<exists>n. r \<in> snd ` set (dget_or [] ?m n)" using outer by metis
  next
    assume "\<exists>n. r \<in> snd ` set (dget_or [] ?m n)"
    then obtain n where n: "r \<in> snd ` set (dget_or [] ?m n)" ..
    then obtain d where "dget ?m n = Some d" by (cases "dget ?m n") (auto simp: dget_or_def)
    with n show "\<exists>n d. (n, d) \<in> set ?m \<and> r \<in> snd ` set d"
      using dwf_Some_iff [OF wm] by (auto simp: dget_or_def)
  qed
  then have "(\<exists>n d. (n, d) \<in> set ?m \<and> r \<in> snd ` set d) \<longleftrightarrow> (\<exists>n x. store_get (rc_store c) kind n x = Some r)"
    using inner by simp
  moreover have "r \<in> set (candidates c kind []) \<longleftrightarrow> (\<exists>n d. (n, d) \<in> set ?m \<and> r \<in> snd ` set d)"
    by (force simp: candidates_def Let_def)
  ultimately show ?thesis
    by (cases "ns = []") (simp_all add: candidates_def Let_def inner)
qed

subsection \<open>Divergence as a condition on the recent past\<close>

lemma recent_burst_bounded: "recent_burst_duration now c = (d, c') \<Longrightarrow> d \<le> BURST_WINDOW"
  using expire_left_hd [of "\<lambda>t. t < now - BURST_WINDOW" "rc_burst_times c"]
  by (force simp: recent_burst_duration_def Let_def BURST_WINDOW_def minutes_def seconds_def
      split: list.splits)

definition diverged_spec :: "instant \<Rightarrow> rcache \<Rightarrow> bool" where
  "diverged_spec now c \<longleftrightarrow>
     length (recent_accesses now c) < 20 * misses_of (recent_accesses now c)
     \<or> 3 < rc_reconnect_failures c
     \<or> 2 < length (filter (\<lambda>t. now - minutes 10 \<le> t) (rc_relist_times c))"

lemma miss_rate_iff:
  assumes "length (rc_access c) < 2 ^ 40"
  shows "MISS_RATE_THRESHOLD < current_miss_rate now c \<longleftrightarrow>
    length (recent_accesses now c) < 20 * misses_of (recent_accesses now c)"
proof (cases "recent_accesses now c = []")
  case True
  then show ?thesis
    by (simp add: current_miss_rate_def MISS_RATE_THRESHOLD_def misses_of_def dbl_defs dbl_unit_def
        round_half_even_def bitlen.simps)
next
  case False
  let ?xs = "recent_accesses now c"
  have l: "length ?xs < 2 ^ 40"
    unfolding recent_accesses_def by (rule le_less_trans [OF length_filter_le assms])
  have "misses_of ?xs \<le> length ?xs" by (simp add: misses_of_def)
  moreover have "int (length ?xs) < 2 ^ 40" using l by simp
  ultimately have "dlit 5 100 < fl_quot (int (misses_of ?xs) * dbl_unit) (int (length ?xs)) \<longleftrightarrow>
      int (length ?xs) < 20 * int (misses_of ?xs)"
    using False by (intro fl_quot_above_five_percent) auto
  moreover have "int (length ?xs) < 20 * int (misses_of ?xs) \<longleftrightarrow> length ?xs < 20 * misses_of ?xs"
    by linarith
  ultimately show ?thesis using False by (simp add: current_miss_rate_def MISS_RATE_THRESHOLD_def Let_def)
qed

lemma is_diverged_iff:
  assumes "length (rc_access c) < 2 ^ 40" "sorted (rc_relist_times c)"
  shows "fst (is_diverged now c) \<longleftrightarrow> diverged_spec now c"
proof -
  have "expire_left (\<lambda>t. t < now - RELIST_TIMEOUT_WINDOW) (rc_relist_times c) =
      filter (\<lambda>t. now - RELIST_TIMEOUT_WINDOW \<le> t) (rc_relist_times c)"
    using expire_left_sorted [of "\<lambda>t. t" "rc_relist_times c"] assms(2) by simp
  then show ?thesis
    using miss_rate_iff [OF assms(1), of now]
    by (auto dest: recent_burst_bounded simp: is_diverged_def diverged_spec_def recent_relist_timeouts_def Let_def
        RELIST_TIMEOUT_THRESHOLD_def RECONNECT_FAILURE_THRESHOLD_def RELIST_TIMEOUT_WINDOW_def not_less
        split: prod.splits)
qed

lemma is_diverged_keeps [simp]:
  "rc_all_kinds (snd (is_diverged now c)) = rc_all_kinds c"
  "rc_ready_kinds (snd (is_diverged now c)) = rc_ready_kinds c"
  "rc_partial_since (snd (is_diverged now c)) = rc_partial_since c"
  "rc_store (snd (is_diverged now c)) = rc_store c"
  by (simp_all add: is_diverged_def recent_relist_timeouts_def recent_burst_duration_def Let_def)

definition readiness_spec :: "instant \<Rightarrow> rcache \<Rightarrow> cache_readiness" where
  "readiness_spec now c =
     (if rc_all_kinds c = {} then WARMING
      else if diverged_spec now c then DEGRADED
      else if rc_all_kinds c \<subseteq> rc_ready_kinds c then READY
      else if rc_ready_kinds c = {} then WARMING
      else (case rc_partial_since c of
              Some since \<Rightarrow> if minutes 10 \<le> now - since then DEGRADED else PARTIALLY_READY
            | None \<Rightarrow> PARTIALLY_READY))"

lemma recompute_readiness_iff:
  assumes "length (rc_access c) < 2 ^ 40" "sorted (rc_relist_times c)"
  shows "rc_readiness (recompute_readiness now c) = readiness_spec now c"
  using is_diverged_iff [OF assms, of now] is_diverged_keeps [of now c]
  by (auto simp: recompute_readiness_def readiness_spec_def PARTIALLY_READY_STALENESS_TIMEOUT_def
      minutes_def seconds_def Let_def simp del: is_diverged_keeps split: prod.splits option.splits)

subsection \<open>Runs of watch events\<close>

datatype store_event =
    Upsert instant str str str pydict
  | Delete str str str

fun watch_step :: "store_event \<Rightarrow> rcache \<Rightarrow> rcache" where
  "watch_step (Upsert now kind ns name raw) c = cache_update now kind ns name raw c"
| "watch_step (Delete kind ns name) c = cache_remove kind ns name c"

fun watch_run :: "store_event list \<Rightarrow> rcache \<Rightarrow> rcache" where
  "watch_run [] c = c"
| "watch_run (e # es) c = watch_run es (watch_step e c)"

lemma watch_run_wf: "cache_wf c \<Longrightarrow> cache_wf (watch_run es c)"
proof (induction es arbitrary: c)
  case (Cons e es)
  then show ?case by (cases e) (auto intro: wf_intros)
qed simp

subsection \<open>Properties\<close>

text \<open>
  C8: whatever the watchers wrote, everything a read of the cache hands out is redacted: the spec
  and the status contain nothing sensitive, and unsafe annotations are masked.
\<close>

theorem cache_reads_are_redacted:
  "(case fst (cache_get now kind ns name c) of None \<Rightarrow> True | Some v \<Rightarrow> view_clean v)
   \<and> list_all view_clean (cache_list c kind ns)
   \<and> list_all view_clean (cache_list_by_label c kind labels ns)"
  by (simp add: cache_get_fst cache_list_def cache_list_by_label_def list_all_iff redacted_view_clean
      split: option.splits)

text \<open>
  C32: the cache is a map from (kind, namespace, name) to watched objects: \<open>get\<close> after \<open>update\<close> sees
  the new object at its key and every other key unchanged, unless the kind is full and the key is
  new, when nothing changes and the kind is marked truncated; \<open>get\<close> after \<open>remove\<close> misses exactly
  the removed key.
\<close>

theorem cache_is_a_map:
  "fst (cache_get t k n m (cache_update now kind ns name raw c)) =
     (if k = kind \<and> n = ns \<and> m = name \<and> \<not> refuses c kind ns name
      then Some (redacted_view (watched now kind ns name raw))
      else fst (cache_get t k n m c))
   \<and> \<not> (refuses c kind ns name \<and> \<not> list_truncated (cache_update now kind ns name raw c) kind)
   \<and> fst (cache_get t k n m (cache_remove kind ns name c)) =
     (if k = kind \<and> n = ns \<and> m = name then None else fst (cache_get t k n m c))"
proof -
  have "refuses c kind ns name \<Longrightarrow> list_truncated (cache_update now kind ns name raw c) kind"
    by (auto simp: list_truncated_def cache_update_def refuses_def Let_def kind_count_eq)
  then show ?thesis
    by (auto simp: cache_get_fst cache_update_store store_put_get cache_remove_get)
qed

text \<open>
  after any run of watch events on a fresh cache no kind exceeds its cap, and listing a kind
  returns exactly the views of its cached objects, of the given namespace or of all.
\<close>

theorem cache_list_complete:
  "kind_count (watch_run es cache_init) kind \<le> list_cap kind
   \<and> set (cache_list (watch_run es cache_init) kind []) =
       {redacted_view r |r. \<exists>n m. store_get (rc_store (watch_run es cache_init)) kind n m = Some r}"
proof
  let ?c = "watch_run es cache_init"
  have wf: "cache_wf ?c" by (intro watch_run_wf cache_init_wf)
  then show cap: "kind_count ?c kind \<le> list_cap kind"
    by (simp add: cache_wf_def caps_ok_def)
  have st: "store_wf (rc_store ?c)" using wf by (simp add: cache_wf_def)
  have "take (list_cap kind) (candidates ?c kind []) = candidates ?c kind []"
    using cap by (simp add: length_candidates)
  then show "set (cache_list ?c kind []) =
      {redacted_view r |r. \<exists>n m. store_get (rc_store ?c) kind n m = Some r}"
    using candidates_iff [OF st, of _ kind "[]"] by (auto simp: cache_list_def)
qed

text \<open>
  the readiness the cache reports: DEGRADED when more than one access in twenty of the last five
  minutes missed, after more than three reconnect failures or more than two relist timeouts in ten
  minutes (the 429-burst check can never fire); otherwise READY when every registered kind was
  listed, PARTIALLY_READY while some are and for less than ten minutes, WARMING when none is.
\<close>

theorem readiness_characterised:
  assumes "length (rc_access c) < 2 ^ 40" and "sorted (rc_relist_times c)"
  shows "fst (cache_readiness_of now c) = readiness_spec now c"
  by (simp add: cache_readiness_of_def Let_def recompute_readiness_iff [OF assms])

definition demo_populated :: "rcache" where
  "demo_populated = cache_populate 0 (\<lambda>kind. if kind = ''Pod'' then Listed [] None False else ListFailed)
     [''Pod'', ''Node''] cache_init"

theorem readiness_characterised_witness:
  "fst (cache_readiness_of (minutes 1) demo_populated) = PARTIALLY_READY"
proof -
  have "length (rc_access demo_populated) < 2 ^ 40" "sorted (rc_relist_times demo_populated)"
    "readiness_spec (minutes 1) demo_populated = PARTIALLY_READY"
    by (simp_all add: demo_populated_def cache_populate_def cache_init_def MAX_STARTUP_KINDS_def
        list_kind_def recompute_readiness_def is_diverged_def current_miss_rate_def
        recent_relist_timeouts_def recent_burst_duration_def recent_accesses_def readiness_spec_def
        diverged_spec_def misses_of_def Let_def MISS_RATE_THRESHOLD_def dlit_examples
        RECONNECT_FAILURE_THRESHOLD_def RELIST_TIMEOUT_THRESHOLD_def BURST_WINDOW_def
        PARTIALLY_READY_STALENESS_TIMEOUT_def minutes_def seconds_def the_default_str_def)
  then show ?thesis using readiness_characterised [of demo_populated "minutes 1"] by simp
qed

definition unlisted_cache :: "nat \<Rightarrow> rcache" where
  "unlisted_cache failures =
     (notify_reconnect_failure 0 ^^ failures)
       (cache_populate 0 (\<lambda>_. ListFailed) [''Pod''] cache_init)"

lemma unlisted_cache_eq:
  "unlisted_cache failures =
     cache_init\<lparr>rc_all_kinds := {''Pod''}, rc_reconnect_failures := failures,
       rc_readiness := (if 3 < failures then DEGRADED else WARMING)\<rparr>"
proof (induction failures)
  case 0
  then show ?case
    by (simp add: unlisted_cache_def cache_populate_def cache_init_def MAX_STARTUP_KINDS_def
        list_kind_def recompute_readiness_def is_diverged_def current_miss_rate_def
        recent_relist_timeouts_def recent_burst_duration_def recent_accesses_def Let_def
        MISS_RATE_THRESHOLD_def dlit_examples RECONNECT_FAILURE_THRESHOLD_def
        RELIST_TIMEOUT_THRESHOLD_def BURST_WINDOW_def minutes_def seconds_def)
next
  case (Suc n)
  have "unlisted_cache (Suc n) = notify_reconnect_failure 0 (unlisted_cache n)"
    by (simp add: unlisted_cache_def)
  with Suc show ?case
    by (simp add: notify_reconnect_failure_def cache_init_def recompute_readiness_def is_diverged_def
        current_miss_rate_def recent_relist_timeouts_def recent_burst_duration_def
        recent_accesses_def Let_def MISS_RATE_THRESHOLD_def dlit_examples
        RECONNECT_FAILURE_THRESHOLD_def RELIST_TIMEOUT_THRESHOLD_def BURST_WINDOW_def minutes_def
        seconds_def)
qed

text \<open>
  a cache whose startup listing failed for every kind goes from DEGRADED back to WARMING once a
  watcher reconnects, a transition outside the set the code checks as INV-CS01.
\<close>
theorem degraded_to_warming_reachable:
  "rc_readiness (unlisted_cache 4) = DEGRADED
   \<and> fst (cache_readiness_of t (reset_reconnect_failures (unlisted_cache 4))) = WARMING
   \<and> \<not> valid_transition DEGRADED WARMING"
proof -
  have "fst (cache_readiness_of t (reset_reconnect_failures (unlisted_cache 4))) = WARMING"
    unfolding cache_readiness_of_def Let_def fst_conv
    by (subst recompute_readiness_iff)
       (simp_all add: unlisted_cache_eq reset_reconnect_failures_def cache_init_def readiness_spec_def
         diverged_spec_def recent_accesses_def misses_of_def)
  then show ?thesis by (simp add: unlisted_cache_eq valid_transition_def)
qed

end
