(* ===== verification/SpecDiff.thy ===== *)
theory SpecDiff
  imports Models
begin

text \<open>
  \<open>kuberca/ledger/diff.py\<close>: the recursive diff of two specs.  \<open>diff_values\<close> is the code's
  recursion; \<open>same_spec\<close> is the specification of "no change" that an empty diff stands for:
  equality in which a missing entry counts as \<open>None\<close>.
\<close>

definition json_opt :: "pyval \<Rightarrow> str option" where
  "json_opt v = (case v of PNone \<Rightarrow> None | _ \<Rightarrow> Some (json_dumps v))"

definition leaf_change :: "instant \<Rightarrow> str \<Rightarrow> pyval \<Rightarrow> pyval \<Rightarrow> field_change" where
  "leaf_change t path old new =
     \<lparr>fc_path = path, fc_old = json_opt old, fc_new = json_opt new, fc_at = t\<rparr>"

text \<open>The keys of either dictionary, sorted: \<open>sorted(old.keys() | new.keys())\<close>.\<close>

definition all_keys :: "pydict \<Rightarrow> pydict \<Rightarrow> str list" where
  "all_keys d e = sort (remdups (dkeys d @ dkeys e))"

definition child_path :: "str \<Rightarrow> str \<Rightarrow> str" where
  "child_path path key = (if path \<noteq> [] then path @ ''.'' @ key else key)"

definition index_path :: "str \<Rightarrow> nat \<Rightarrow> str" where
  "index_path path i = path @ ''['' @ show_nat i @ '']''"

definition nth_or_none :: "pyval list \<Rightarrow> nat \<Rightarrow> pyval" where
  "nth_or_none xs i = (if i < length xs then xs ! i else PNone)"

lemma size_mem: "x \<in> set xs \<Longrightarrow> size x \<le> size_list size xs"
  by (simp add: size_list_estimation')

lemma size_nth_or_none [simp]: "size (nth_or_none xs i) < size (PList xs)"
  by (simp add: nth_or_none_def less_Suc_eq_le size_mem)

lemma size_vget [simp]: "size (vget PNone d k) < size (PDict d)"
proof -
  have "dget d k = Some v \<Longrightarrow> size v < size (PDict d)" for v
  proof (induction d)
    case (Cons a d)
    then show ?case by (cases a) (auto split: if_splits)
  qed simp
  then show ?thesis by (auto simp: vget_def dget_or_def split: option.splits)
qed

text \<open>
  \<open>_diff_values\<close>, with \<open>_diff_dicts\<close> and \<open>_diff_lists\<close> unfolded into it.  The three branches of
  \<open>_diff_dicts\<close> (key added, removed, common) are one call that reads a missing entry as \<open>None\<close>, as
  the code's three calls do.
\<close>

function diff_values :: "instant \<Rightarrow> str \<Rightarrow> pyval \<Rightarrow> pyval \<Rightarrow> field_change list" where
  "diff_values t path old new =
     (case (old, new) of
        (PDict d, PDict e) \<Rightarrow>
          concat (map (\<lambda>k. diff_values t (child_path path k) (vget PNone d k) (vget PNone e k))
            (all_keys d e))
      | (PList xs, PList ys) \<Rightarrow>
          concat (map (\<lambda>i. diff_values t (index_path path i) (nth_or_none xs i) (nth_or_none ys i))
            [0..<max (length xs) (length ys)])
      | _ \<Rightarrow> if py_eq old new then [] else [leaf_change t path old new])"
  by pat_completeness auto
termination
proof (relation "measure (\<lambda>(t, path, old, new). size old + size new)", goal_cases)
  case 1
  show ?case by simp
next
  case (2 t path old new x y xs ys i)
  then show ?case using size_nth_or_none [of xs i] size_nth_or_none [of ys i] by simp
next
  case (3 t path old new x y d e k)
  then show ?case using size_vget [of d k] size_vget [of e k] by simp
qed

declare diff_values.simps [simp del]

text \<open>\<open>compute_diff\<close>\<close>

definition compute_diff :: "instant \<Rightarrow> pydict \<Rightarrow> pydict \<Rightarrow> field_change list" where
  "compute_diff now old new = sort_key fc_path (diff_values now [] (PDict old) (PDict new))"


subsection \<open>What an empty diff means\<close>

text \<open>Equality in which a missing key or a missing element counts as \<open>None\<close>.\<close>

function same_spec :: "pyval \<Rightarrow> pyval \<Rightarrow> bool" where
  "same_spec v w =
     (case (v, w) of
        (PDict d, PDict e) \<Rightarrow>
          list_all (\<lambda>k. same_spec (vget PNone d k) (vget PNone e k)) (dkeys d @ dkeys e)
      | (PList xs, PList ys) \<Rightarrow>
          list_all (\<lambda>i. same_spec (nth_or_none xs i) (nth_or_none ys i)) [0..<max (length xs) (length ys)]
      | _ \<Rightarrow> py_eq v w)"
  by pat_completeness auto
termination
proof (relation "measure (\<lambda>(v, w). size v + size w)", goal_cases)
  case 1
  show ?case by simp
next
  case (2 v w x y xs ys i)
  then show ?case using size_nth_or_none [of xs i] size_nth_or_none [of ys i] by simp
next
  case (3 v w x y d e k)
  then show ?case using size_vget [of d k] size_vget [of e k] by simp
qed

declare same_spec.simps [simp del]

lemma set_all_keys [simp]: "set (all_keys d e) = set (dkeys d) \<union> set (dkeys e)"
  by (auto simp: all_keys_def)

lemma diff_values_empty_iff: "diff_values t p v w = [] \<longleftrightarrow> same_spec v w"
proof (induction t p v w rule: diff_values.induct)
  case (1 t p v w)
  show ?case
  proof (cases "\<exists>d e. v = PDict d \<and> w = PDict e")
    case True
    then obtain d e where vw: "v = PDict d" "w = PDict e" by auto
    have "diff_values t p v w = [] \<longleftrightarrow>
        (\<forall>k \<in> set (all_keys d e). same_spec (vget PNone d k) (vget PNone e k))"
      unfolding vw by (subst diff_values.simps) (simp add: vw 1(2))
    also have "\<dots> \<longleftrightarrow> same_spec v w"
      unfolding vw by (subst (2) same_spec.simps) (auto simp: list_all_iff)
    finally show ?thesis .
  next
    case nd: False
    show ?thesis
    proof (cases "\<exists>xs ys. v = PList xs \<and> w = PList ys")
      case True
      then obtain xs ys where vw: "v = PList xs" "w = PList ys" by auto
      have "diff_values t p v w = [] \<longleftrightarrow>
          (\<forall>i \<in> set [0..<max (length xs) (length ys)].
             same_spec (nth_or_none xs i) (nth_or_none ys i))"
        unfolding vw by (subst diff_values.simps) (simp add: vw 1(1))
      also have "\<dots> \<longleftrightarrow> same_spec v w"
        unfolding vw by (subst (2) same_spec.simps) (auto simp: list_all_iff)
      finally show ?thesis .
    next
      case False
      with nd show ?thesis
        by (subst diff_values.simps, subst same_spec.simps) (auto split: pyval.splits)
    qed
  qed
qed

lemma compute_diff_empty_iff: "compute_diff t d e = [] \<longleftrightarrow> same_spec (PDict d) (PDict e)"
proof -
  have "compute_diff t d e = [] \<longleftrightarrow> diff_values t [] (PDict d) (PDict e) = []"
    unfolding compute_diff_def by (metis mset_sort mset_zero_iff)
  then show ?thesis by (simp add: diff_values_empty_iff)
qed

text \<open>Equal specs never differ, so \<open>same_spec\<close> contains Python's equality.\<close>

lemma py_eq_same_spec: "vwf v \<Longrightarrow> vwf w \<Longrightarrow> py_eq v w \<Longrightarrow> same_spec v w"
proof (induction v w rule: same_spec.induct)
  case (1 v w)
  show ?case
  proof (cases "\<exists>d e. v = PDict d \<and> w = PDict e")
    case True
    then obtain d e where vw: "v = PDict d" "w = PDict e" by auto
    have de: "dwf d" "dwf e" using "1.prems" vw by auto
    have len: "length d = length e"
      and all: "\<And>k x. (k, x) \<in> set d \<Longrightarrow> (case dget e k of None \<Rightarrow> False | Some y \<Rightarrow> py_eq x y)"
      using "1.prems"(3) vw by (auto simp: list_all_iff)
    have sub: "\<exists>y. dget e k = Some y \<and> py_eq x y" if "dget d k = Some x" for k x
      using all [OF map_of_SomeD [OF that]] by (auto split: option.splits)
    have "set (dkeys d) \<subseteq> set (dkeys e)"
      unfolding dkeys_iff subset_iff using sub by blast
    moreover have "card (set (dkeys d)) = card (set (dkeys e))"
      using de len distinct_card [of "dkeys d"] distinct_card [of "dkeys e"] by (simp add: dwf_def)
    ultimately have keys: "set (dkeys d) = set (dkeys e)"
      by (simp add: card_subset_eq)
    have "same_spec (vget PNone d k) (vget PNone e k)" if "k \<in> set (dkeys d)" for k
    proof -
      from that obtain x where x: "dget d k = Some x"
        unfolding dkeys_iff by blast
      with sub obtain y where y: "dget e k = Some y" "py_eq x y" by blast
      have "vwf x" "vwf y" using "1.prems" vw x y vwf_dget by blast+
      then show ?thesis
        using "1.IH"(2) [of "PDict d" "PDict e" d e k] vw that x y
        by (simp add: vget_def dget_or_def)
    qed
    then show ?thesis
      unfolding vw by (subst same_spec.simps) (auto simp: list_all_iff keys simp del: set_map)
  next
    case nd: False
    show ?thesis
    proof (cases "\<exists>xs ys. v = PList xs \<and> w = PList ys")
      case True
      then obtain xs ys where vw: "v = PList xs" "w = PList ys" by auto
      from "1.prems" vw have l: "length xs = length ys"
        and eq: "\<And>i. i < length xs \<Longrightarrow> py_eq (xs ! i) (ys ! i)"
        by (auto simp: list_all_length)
      have "same_spec (nth_or_none xs i) (nth_or_none ys i)" if "i < length xs" for i
        using "1.IH"(1) [of "PList xs" "PList ys" xs ys i] "1.prems" vw that l eq [of i]
        by (auto simp: nth_or_none_def list_all_length)
      then show ?thesis
        unfolding vw by (subst same_spec.simps) (simp add: list_all_iff l)
    next
      case False
      with nd "1.prems"(3) show ?thesis
        by (subst same_spec.simps) (auto split: pyval.splits)
    qed
  qed
qed

end
