(* ===== verification/BoundedLog.thy ===== *)
theory BoundedLog
  imports Prelude
begin

text \<open>
  The interface of the bounded, time-expiring buffers: the ring buffers of the change ledger and
  the event buffer of the event watcher.  A provider promises that \<open>push\<close> puts the new element at
  the right end, loses elements only at the left end and never exceeds the capacity; the clients'
  lemmas say what the buffer holds after any history of pushes.
\<close>

fun pushes :: "(int \<Rightarrow> 'a \<Rightarrow> 'a list \<Rightarrow> 'a list) \<Rightarrow> (int \<times> 'a) list \<Rightarrow> 'a list \<Rightarrow> 'a list" where
  "pushes push [] q = q"
| "pushes push ((now, x) # xs) q = pushes push xs (push now x q)"

locale bounded_log =
  fixes cap :: nat
    and push :: "int \<Rightarrow> 'a \<Rightarrow> 'a list \<Rightarrow> 'a list"
  assumes push_suffix: "suffix_of (push now x q) (q @ [x])"
    and push_cap: "length (push now x q) \<le> cap"
    and push_nonempty: "push now x q \<noteq> []"
begin

lemma push_last: "last (push now x q) = x"
proof -
  from push_suffix [of now x q] obtain zs where "q @ [x] = zs @ push now x q"
    by (auto simp: suffix_of_def)
  then show ?thesis using push_nonempty [of now x q] by (metis last_appendR last_snoc)
qed

lemma push_set: "set (push now x q) \<subseteq> insert x (set q)"
  using suffix_of_set [OF push_suffix] by auto

lemma pushes_suffix: "suffix_of (pushes push xs q) (q @ map snd xs)"
proof (induction xs arbitrary: q)
  case (Cons a xs)
  obtain now x where a: "a = (now, x)" by (cases a)
  from push_suffix have "suffix_of (push now x q @ map snd xs) ((q @ [x]) @ map snd xs)"
    by (auto simp: suffix_of_def)
  with Cons.IH [of "push now x q"] show ?case by (auto simp: a intro: suffix_of_trans)
qed simp

lemma pushes_cap: "length q \<le> cap \<Longrightarrow> length (pushes push xs q) \<le> cap"
proof (induction xs arbitrary: q)
  case (Cons a xs)
  then show ?case by (cases a) (simp add: push_cap)
qed simp

lemma pushes_last: "xs \<noteq> [] \<Longrightarrow> last (pushes push xs q) = snd (last xs)"
proof (induction xs arbitrary: q)
  case (Cons a xs)
  then show ?case by (cases a; cases xs) (auto simp: push_last)
qed simp

lemma pushes_sorted:
  "sorted (map f (q @ map snd xs)) \<Longrightarrow> sorted (map f (pushes push xs q))"
  using pushes_suffix suffix_of_sorted by blast

end

text \<open>A \<open>deque(maxlen=n)\<close> whose push first expires old elements at the left is such a buffer.\<close>

definition push_expiring ::
  "nat \<Rightarrow> ('a \<Rightarrow> int) \<Rightarrow> int \<Rightarrow> int \<Rightarrow> 'a \<Rightarrow> 'a list \<Rightarrow> 'a list" where
  "push_expiring n time age now x q =
     deque_append n x (expire_left (\<lambda>y. time y < now - age) q)"

lemma push_expiring_bounded_log:
  assumes "0 < n"
  shows "bounded_log n (push_expiring n time age)"
proof
  fix now x q
  show "suffix_of (push_expiring n time age now x q) (q @ [x])"
    unfolding push_expiring_def
    by (rule suffix_of_trans [OF deque_append_suffix suffix_of_snoc [OF suffix_of_expire]])
  show "length (push_expiring n time age now x q) \<le> n"
    by (simp add: push_expiring_def length_deque_append)
  show "push_expiring n time age now x q \<noteq> []"
    unfolding push_expiring_def by (rule deque_append_nonempty [OF assms])
qed

end
