(* ===== verification/ChangeLedger.thy ===== *)
theory ChangeLedger
  imports SpecDiff BoundedLog
begin

text \<open>
  \<open>kuberca/ledger/change_ledger.py\<close>: the in-memory ring buffers of resource snapshots with the
  tiered memory limits, and the retention setting \<open>app.py\<close> passes to it.  The sizes reported by
  \<open>sys.getsizeof\<close> are the parameter \<open>gs\<close>.  The cached memory estimate is invalidated by the code
  on every mutation, so the estimate is recomputed here.
\<close>

definition SOFT_LIMIT :: nat where "SOFT_LIMIT = 150 * 1024 * 1024"
definition HARD_LIMIT :: nat where "HARD_LIMIT = 200 * 1024 * 1024"
definition FAILSAFE_LIMIT :: nat where "FAILSAFE_LIMIT = 300 * 1024 * 1024"

definition FAILSAFE_AGE :: duration where "FAILSAFE_AGE = hours 1"

type_synonym buffers = "(rkey, resource_snapshot list) dict"

record ledger =
  lg_max_versions :: nat
  lg_retention :: duration
  lg_buffers :: buffers

record getsizeof =
  gs_buffers :: "buffers \<Rightarrow> nat"
  gs_key :: "rkey \<Rightarrow> nat"
  gs_deque :: "resource_snapshot list \<Rightarrow> nat"
  gs_snapshot :: "resource_snapshot \<Rightarrow> nat"
  gs_dict :: "pydict \<Rightarrow> nat"
  gs_str :: "str \<Rightarrow> nat"

record ledger_stats =
  st_memory :: nat
  st_resources :: nat
  st_snapshots :: nat

subsection \<open>Operations\<close>

definition ledger_init :: "int \<Rightarrow> int \<Rightarrow> ledger" where
  "ledger_init max_versions retention_hours =
     \<lparr>lg_max_versions = nat (max 1 max_versions), lg_retention = hours retention_hours,
      lg_buffers = []\<rparr>"

definition snap_key :: "resource_snapshot \<Rightarrow> rkey" where
  "snap_key s = (sn_kind s, sn_namespace s, sn_name s)"

definition estimate_snapshot_size :: "getsizeof \<Rightarrow> resource_snapshot \<Rightarrow> nat" where
  "estimate_snapshot_size gs s =
     gs_snapshot gs s + gs_dict gs (sn_spec s) + gs_str gs (sn_spec_hash s) + gs_str gs (sn_kind s)
     + gs_str gs (sn_namespace s) + gs_str gs (sn_name s) + gs_str gs (sn_resource_version s)"

definition estimate_memory :: "getsizeof \<Rightarrow> buffers \<Rightarrow> nat" where
  "estimate_memory gs bs =
     gs_buffers gs bs
     + (\<Sum>(k, buf) \<leftarrow> bs. gs_key gs k + gs_deque gs buf
          + (\<Sum>s \<leftarrow> buf. estimate_snapshot_size gs s))"

definition older_than :: "instant \<Rightarrow> resource_snapshot \<Rightarrow> bool" where
  "older_than cutoff s \<longleftrightarrow> sn_captured_at s < cutoff"

definition expire_buffer :: "ledger \<Rightarrow> instant \<Rightarrow> resource_snapshot list \<Rightarrow> resource_snapshot list" where
  "expire_buffer l now buf = expire_left (older_than (now - lg_retention l)) buf"

definition trim_half :: "'a list \<Rightarrow> 'a list" where
  "trim_half buf = drop (length buf - max 1 (length buf div 2)) buf"

definition soft_trim :: "buffers \<Rightarrow> buffers" where
  "soft_trim bs = map (\<lambda>(k, buf). (k, trim_half buf)) bs"

text \<open>The buffers from the longest to the shortest, until the estimate is below the limit.\<close>

fun failsafe_loop :: "getsizeof \<Rightarrow> instant \<Rightarrow> rkey list \<Rightarrow> buffers \<Rightarrow> buffers" where
  "failsafe_loop gs cutoff [] bs = bs"
| "failsafe_loop gs cutoff (k # ks) bs =
     (let bs' = dset k (expire_left (older_than cutoff) (dget_or [] bs k)) bs in
      if estimate_memory gs bs' < FAILSAFE_LIMIT then bs' else failsafe_loop gs cutoff ks bs')"

definition drop_empty :: "buffers \<Rightarrow> buffers" where
  "drop_empty bs = filter (\<lambda>(k, buf). buf \<noteq> []) bs"

definition failsafe_evict :: "getsizeof \<Rightarrow> instant \<Rightarrow> buffers \<Rightarrow> buffers" where
  "failsafe_evict gs now bs =
     drop_empty (failsafe_loop gs (now - FAILSAFE_AGE)
       (py_sorted_desc (\<lambda>k. length (dget_or [] bs k)) (dkeys bs)) bs)"

text \<open>The buffers after the memory checks, and whether the snapshot is then accepted.\<close>

definition after_failsafe :: "getsizeof \<Rightarrow> instant \<Rightarrow> buffers \<Rightarrow> buffers" where
  "after_failsafe gs now bs =
     (if FAILSAFE_LIMIT \<le> estimate_memory gs bs then failsafe_evict gs now bs else bs)"

definition accepts :: "getsizeof \<Rightarrow> instant \<Rightarrow> buffers \<Rightarrow> bool" where
  "accepts gs now bs \<longleftrightarrow> estimate_memory gs (after_failsafe gs now bs) < HARD_LIMIT"

definition ledger_record :: "getsizeof \<Rightarrow> instant \<Rightarrow> resource_snapshot \<Rightarrow> ledger \<Rightarrow> ledger" where
  "ledger_record gs now snap l =
     (let bs = after_failsafe gs now (lg_buffers l); current = estimate_memory gs bs in
      if HARD_LIMIT \<le> current then l\<lparr>lg_buffers := bs\<rparr>
      else
        let bs1 = (if SOFT_LIMIT \<le> current then soft_trim bs else bs);
            key = snap_key snap;
            buf = expire_buffer l now (dget_or [] bs1 key)
        in l\<lparr>lg_buffers := dset key (deque_append (lg_max_versions l) snap buf) bs1\<rparr>)"

text \<open>\<open>compute_diff\<close> reads the clock for every pair; \<open>clock i\<close> is its reading for pair \<open>i\<close>.\<close>

fun diff_pairs :: "(nat \<Rightarrow> instant) \<Rightarrow> resource_snapshot list \<Rightarrow> field_change list" where
  "diff_pairs clock (a # b # rest) =
     compute_diff (clock 0) (sn_spec a) (sn_spec b) @ diff_pairs (\<lambda>i. clock (Suc i)) (b # rest)"
| "diff_pairs clock _ = []"

definition ledger_window :: "instant \<Rightarrow> rkey \<Rightarrow> duration \<Rightarrow> ledger \<Rightarrow> resource_snapshot list" where
  "ledger_window now key since l =
     filter (\<lambda>s. now - since \<le> sn_captured_at s) (dget_or [] (lg_buffers l) key)"

definition ledger_diff ::
  "instant \<Rightarrow> (nat \<Rightarrow> instant) \<Rightarrow> str \<Rightarrow> str \<Rightarrow> str \<Rightarrow> duration option \<Rightarrow> duration option \<Rightarrow> ledger
   \<Rightarrow> field_change list" where
  "ledger_diff now clock kind namespace name since since_hours l =
     (let w = (case since of Some d \<Rightarrow> d
               | None \<Rightarrow> (case since_hours of Some h \<Rightarrow> h | None \<Rightarrow> hours 2)) in
      case dget (lg_buffers l) (kind, namespace, name) of
        None \<Rightarrow> []
      | Some buf \<Rightarrow>
          if length buf < 2 then []
          else
            let window = filter (\<lambda>s. now - w \<le> sn_captured_at s) buf in
            if length window < 2 then [] else diff_pairs clock window)"

definition ledger_latest :: "str \<Rightarrow> str \<Rightarrow> str \<Rightarrow> ledger \<Rightarrow> resource_snapshot option" where
  "ledger_latest kind namespace name l =
     (case dget (lg_buffers l) (kind, namespace, name) of
        None \<Rightarrow> None
      | Some buf \<Rightarrow> if buf = [] then None else Some (last buf))"

definition ledger_stats_of :: "getsizeof \<Rightarrow> ledger \<Rightarrow> ledger_stats" where
  "ledger_stats_of gs l =
     \<lparr>st_memory = estimate_memory gs (lg_buffers l), st_resources = length (lg_buffers l),
      st_snapshots = (\<Sum>(k, buf) \<leftarrow> lg_buffers l. length buf)\<rparr>"

text \<open>
  \<open>KubeRCAApp._start_ledger\<close>: the hours it reads from the configured retention string.  Only \<open>d\<close> is
  converted.  \<open>int\<close> fails on anything but digits (signs and blanks cannot pass the configuration).
\<close>

definition rstrip_units :: "str \<Rightarrow> str" where
  "rstrip_units s = rev (dropWhile unit_char (rev s))"

definition app_retention_hours :: "str \<Rightarrow> py_exn + int" where
  "app_retention_hours s =
     (let ds = rstrip_units s in
      if ds = [] \<or> \<not> list_all is_digit ds \<or> 4300 < length ds then Inl ValueError
      else Inr (int (read_nat ds) * (if endswith s ''d'' then 24 else 1)))"

subsection \<open>The ring buffers are bounded logs\<close>

interpretation ring: bounded_log "nat (max 1 n)" "push_expiring (nat (max 1 n)) sn_captured_at age"
  for n :: int and age :: int
  by (rule push_expiring_bounded_log) simp

lemma older_than_eq: "older_than c = (\<lambda>s. sn_captured_at s < c)"
  by (simp add: older_than_def fun_eq_iff)

lemma record_push:
  "deque_append (lg_max_versions l) snap (expire_buffer l now buf) =
     push_expiring (lg_max_versions l) sn_captured_at (lg_retention l) now snap buf"
  by (simp add: push_expiring_def expire_buffer_def older_than_eq)

lemma trim_half_suffix: "suffix_of (trim_half buf) buf"
  by (simp add: trim_half_def)

lemma trim_half_nonempty: "buf \<noteq> [] \<Longrightarrow> trim_half buf \<noteq> []"
  by (cases buf) (auto simp: trim_half_def)

lemma trim_half_length: "length (trim_half buf) = min (length buf) (max 1 (length buf div 2))"
  by (auto simp: trim_half_def)

lemma trim_half_last: "buf \<noteq> [] \<Longrightarrow> last (trim_half buf) = last buf"
  by (cases buf) (auto simp: trim_half_def last_drop)

subsection \<open>Invariant\<close>

definition buf_fit :: "nat \<Rightarrow> rkey \<Rightarrow> resource_snapshot list \<Rightarrow> bool" where
  "buf_fit n k buf \<longleftrightarrow> length buf \<le> n \<and> (\<forall>s \<in> set buf. snap_key s = k)"

definition ledger_wf :: "ledger \<Rightarrow> bool" where
  "ledger_wf l \<longleftrightarrow>
     0 < lg_max_versions l \<and> dwf (lg_buffers l)
     \<and> dall (\<lambda>k buf. buf \<noteq> [] \<and> buf_fit (lg_max_versions l) k buf) (lg_buffers l)"

lemma buf_fit_suffix: "buf_fit n k buf \<Longrightarrow> suffix_of buf' buf \<Longrightarrow> buf_fit n k buf'"
  unfolding buf_fit_def by (meson le_trans subsetD suffix_of_length suffix_of_set)

lemma buf_fit_Nil [simp]: "buf_fit n k []"
  by (simp add: buf_fit_def)

lemma failsafe_loop_fit:
  "dwf bs \<Longrightarrow> dall (buf_fit n) bs \<Longrightarrow>
     dwf (failsafe_loop gs c ks bs) \<and> dall (buf_fit n) (failsafe_loop gs c ks bs)"
proof (induction gs c ks bs rule: failsafe_loop.induct)
  case (2 gs c k ks bs)
  let ?bs = "dset k (expire_left (older_than c) (dget_or [] bs k)) bs"
  have "buf_fit n k (dget_or [] bs k)" using "2.prems" by (simp add: dget_or_dall)
  then have "buf_fit n k (expire_left (older_than c) (dget_or [] bs k))"
    by (rule buf_fit_suffix) (rule suffix_of_expire)
  with "2.prems" have "dwf ?bs" "dall (buf_fit n) ?bs" by (simp_all add: dall_dset)
  with "2.IH" show ?case by (simp add: Let_def)
qed simp

lemma failsafe_loop_dwf: "dwf bs \<Longrightarrow> dwf (failsafe_loop gs c ks bs)"
  by (induction gs c ks bs rule: failsafe_loop.induct) (auto simp: Let_def)

lemma drop_empty_ok:
  "dwf bs \<Longrightarrow> dall P bs \<Longrightarrow> dwf (drop_empty bs) \<and> dall (\<lambda>k buf. buf \<noteq> [] \<and> P k buf) (drop_empty bs)"
  by (auto simp: drop_empty_def dwf_filter dall_def list_all_iff)

lemma after_failsafe_ok:
  assumes "dwf bs" "dall (\<lambda>k buf. buf \<noteq> [] \<and> buf_fit n k buf) bs"
  shows "dwf (after_failsafe gs now bs)
    \<and> dall (\<lambda>k buf. buf \<noteq> [] \<and> buf_fit n k buf) (after_failsafe gs now bs)"
proof -
  have "dall (buf_fit n) bs" using assms(2) by (auto simp: dall_def list_all_iff)
  then have "dwf (failsafe_evict gs now bs)
      \<and> dall (\<lambda>k buf. buf \<noteq> [] \<and> buf_fit n k buf) (failsafe_evict gs now bs)"
    unfolding failsafe_evict_def using assms(1) by (intro drop_empty_ok) (simp_all add: failsafe_loop_fit)
  then show ?thesis using assms by (simp add: after_failsafe_def)
qed

lemma soft_trim_ok:
  assumes "dwf bs" "dall (\<lambda>k buf. buf \<noteq> [] \<and> buf_fit n k buf) bs"
  shows "dwf (soft_trim bs) \<and> dall (\<lambda>k buf. buf \<noteq> [] \<and> buf_fit n k buf) (soft_trim bs)"
  unfolding soft_trim_def
proof
  show "dwf (map (\<lambda>(k, buf). (k, trim_half buf)) bs)" using assms(1) by simp
  show "dall (\<lambda>k buf. buf \<noteq> [] \<and> buf_fit n k buf) (map (\<lambda>(k, buf). (k, trim_half buf)) bs)"
    using assms(2)
    by (rule dall_map_vals) (use trim_half_nonempty buf_fit_suffix trim_half_suffix in blast)
qed

lemma push_fit:
  assumes "0 < n" "buf_fit n k buf" "snap_key s = k"
  shows "push_expiring n sn_captured_at age now s buf \<noteq> []
    \<and> buf_fit n k (push_expiring n sn_captured_at age now s buf)"
proof -
  note log = push_expiring_bounded_log [OF assms(1), of sn_captured_at age]
  show ?thesis
    using assms bounded_log.push_nonempty [OF log] bounded_log.push_cap [OF log]
      bounded_log.push_set [OF log, of now s buf] by (auto simp: buf_fit_def)
qed

lemma ledger_init_wf [wf_intros]: "ledger_wf (ledger_init m r)"
  by (simp add: ledger_wf_def ledger_init_def)

lemma ledger_record_wf [wf_intros]:
  assumes "ledger_wf l"
  shows "ledger_wf (ledger_record gs now s l)"
proof -
  let ?n = "lg_max_versions l" and ?P = "\<lambda>k buf. buf \<noteq> [] \<and> buf_fit (lg_max_versions l) k buf"
  define bs where "bs = after_failsafe gs now (lg_buffers l)"
  define bs1 where "bs1 = (if SOFT_LIMIT \<le> estimate_memory gs bs then soft_trim bs else bs)"
  have n: "0 < ?n" using assms by (simp add: ledger_wf_def)
  have bs: "dwf bs \<and> dall ?P bs"
    using assms after_failsafe_ok unfolding bs_def ledger_wf_def by blast
  then have bs1: "dwf bs1 \<and> dall ?P bs1"
    using soft_trim_ok unfolding bs1_def by auto
  let ?buf = "dget_or [] bs1 (snap_key s)"
  have "buf_fit ?n (snap_key s) ?buf"
    unfolding dget_or_def using bs1
    by (cases "dget bs1 (snap_key s)") (auto dest: dall_get)
  then have "?P (snap_key s) (push_expiring ?n sn_captured_at (lg_retention l) now s ?buf)"
    using push_fit [OF n] by blast
  then show ?thesis
    using n bs bs1
    by (auto simp: ledger_record_def Let_def bs_def [symmetric] bs1_def [symmetric] record_push
        ledger_wf_def intro: dall_dset)
qed

subsection \<open>Runs of the ledger\<close>

fun ledger_run :: "getsizeof \<Rightarrow> (instant \<times> resource_snapshot) list \<Rightarrow> ledger \<Rightarrow> ledger" where
  "ledger_run gs [] l = l"
| "ledger_run gs ((now, s) # xs) l = ledger_run gs xs (ledger_record gs now s l)"

text \<open>The snapshots a run accepts, in order.\<close>

fun accepted_run :: "getsizeof \<Rightarrow> (instant \<times> resource_snapshot) list \<Rightarrow> ledger \<Rightarrow> resource_snapshot list" where
  "accepted_run gs [] l = []"
| "accepted_run gs ((now, s) # xs) l =
     (if accepts gs now (lg_buffers l) then [s] else [])
     @ accepted_run gs xs (ledger_record gs now s l)"

lemma ledger_run_wf: "ledger_wf l \<Longrightarrow> ledger_wf (ledger_run gs xs l)"
proof (induction xs arbitrary: l)
  case (Cons a xs)
  then show ?case by (cases a) (simp add: ledger_record_wf)
qed simp

definition history :: "rkey \<Rightarrow> resource_snapshot list \<Rightarrow> resource_snapshot list" where
  "history k h = filter (\<lambda>s. snap_key s = k) h"

definition holds_suffixes :: "buffers \<Rightarrow> resource_snapshot list \<Rightarrow> bool" where
  "holds_suffixes bs h \<longleftrightarrow> (\<forall>k. suffix_of (dget_or [] bs k) (history k h))"

lemma suffix_of_Nil [simp]: "suffix_of [] xs"
  by (simp add: suffix_of_def)

lemma failsafe_loop_suffix:
  "suffix_of (dget_or [] (failsafe_loop gs c ks bs) k) (dget_or [] bs k)"
proof (induction gs c ks bs rule: failsafe_loop.induct)
  case (2 gs c j ks bs)
  let ?bs = "dset j (expire_left (older_than c) (dget_or [] bs j)) bs"
  have "suffix_of (dget_or [] ?bs k) (dget_or [] bs k)"
    by (auto simp: dget_or_def suffix_of_expire)
  with 2 show ?case by (auto simp: Let_def intro: suffix_of_trans)
qed simp

lemma drop_empty_get:
  assumes "dwf bs"
  shows "dget_or [] (drop_empty bs) k = dget_or [] bs k"
proof -
  have wf: "dwf (drop_empty bs)" using assms by (simp add: drop_empty_def dwf_filter)
  have eq: "dget (drop_empty bs) k = Some buf \<longleftrightarrow> dget bs k = Some buf \<and> buf \<noteq> []" for buf
    unfolding dwf_Some_iff [OF wf] dwf_Some_iff [OF assms] by (auto simp: drop_empty_def)
  show ?thesis
  proof (cases "dget (drop_empty bs) k")
    case None
    then have "dget bs k = None \<or> dget bs k = Some []" using eq by (cases "dget bs k") auto
    with None show ?thesis by (auto simp: dget_or_def)
  next
    case (Some buf)
    with eq have "dget bs k = Some buf" by blast
    with Some show ?thesis by (simp add: dget_or_def)
  qed
qed

lemma failsafe_evict_get:
  assumes "dwf bs"
  shows "suffix_of (dget_or [] (failsafe_evict gs now bs) k) (dget_or [] bs k)"
proof -
  have "dwf (failsafe_loop gs c ks bs)" for c ks
    using assms failsafe_loop_dwf by blast
  then show ?thesis
    by (simp add: failsafe_evict_def drop_empty_get failsafe_loop_suffix)
qed

lemma soft_trim_get: "dget_or [] (soft_trim bs) k = trim_half (dget_or [] bs k)"
  unfolding soft_trim_def dget_or_def by (cases "dget bs k") (auto simp: trim_half_def)

lemma holds_suffixes_mono:
  "holds_suffixes bs h \<Longrightarrow> (\<And>k. suffix_of (dget_or [] bs' k) (dget_or [] bs k)) \<Longrightarrow> holds_suffixes bs' h"
  unfolding holds_suffixes_def by (blast intro: suffix_of_trans)

lemma after_failsafe_suffixes:
  "dwf bs \<Longrightarrow> holds_suffixes bs h \<Longrightarrow> holds_suffixes (after_failsafe gs now bs) h"
  unfolding after_failsafe_def by (auto intro: holds_suffixes_mono failsafe_evict_get)

lemma ledger_record_suffixes:
  assumes "ledger_wf l" "holds_suffixes (lg_buffers l) h"
  shows "holds_suffixes (lg_buffers (ledger_record gs now s l))
    (h @ (if accepts gs now (lg_buffers l) then [s] else []))"
proof -
  define bs where "bs = after_failsafe gs now (lg_buffers l)"
  define bs1 where "bs1 = (if SOFT_LIMIT \<le> estimate_memory gs bs then soft_trim bs else bs)"
  have n: "0 < lg_max_versions l" using assms by (simp add: ledger_wf_def)
  have bs: "holds_suffixes bs h"
    using assms after_failsafe_suffixes unfolding bs_def ledger_wf_def by blast
  then have bs1: "holds_suffixes bs1 h"
    unfolding bs1_def by (auto intro: holds_suffixes_mono simp: soft_trim_get trim_half_suffix)
  note push = bounded_log.push_suffix [OF push_expiring_bounded_log [OF n], of sn_captured_at
      "lg_retention l" now s]
  show ?thesis
  proof (cases "accepts gs now (lg_buffers l)")
    case False
    then show ?thesis
      using bs by (simp add: ledger_record_def Let_def accepts_def bs_def not_less)
  next
    case True
    let ?k = "snap_key s" and ?b = "dget_or [] bs1 (snap_key s)"
    have rec: "lg_buffers (ledger_record gs now s l) =
        dset ?k (push_expiring (lg_max_versions l) sn_captured_at (lg_retention l) now s ?b) bs1"
      using True by (simp add: ledger_record_def Let_def accepts_def bs_def bs1_def record_push)
    have "suffix_of (push_expiring (lg_max_versions l) sn_captured_at (lg_retention l) now s ?b)
        (history ?k h @ [s])"
      using push bs1 unfolding holds_suffixes_def by (blast intro: suffix_of_trans suffix_of_snoc)
    then show ?thesis
      using True bs1 unfolding holds_suffixes_def rec
      by (auto simp: dget_or_def history_def)
  qed
qed

lemma ledger_run_suffixes:
  "ledger_wf l \<Longrightarrow> holds_suffixes (lg_buffers l) h \<Longrightarrow>
     holds_suffixes (lg_buffers (ledger_run gs xs l)) (h @ accepted_run gs xs l)"
proof (induction xs arbitrary: l h)
  case (Cons a xs)
  obtain now s where a: "a = (now, s)" by (cases a)
  show ?case
    using Cons.IH [OF ledger_record_wf [OF Cons.prems(1)] ledger_record_suffixes [OF Cons.prems]]
    by (simp add: a)
qed simp

lemma ledger_record_config [simp]:
  "lg_max_versions (ledger_record gs now s l) = lg_max_versions l"
  "lg_retention (ledger_record gs now s l) = lg_retention l"
  by (simp_all add: ledger_record_def Let_def)

lemma ledger_run_config [simp]:
  "lg_max_versions (ledger_run gs xs l) = lg_max_versions l"
  "lg_retention (ledger_run gs xs l) = lg_retention l"
  by (induction xs arbitrary: l) auto

subsection \<open>Failsafe eviction\<close>

lemma expire_left_dropped:
  "\<exists>old. xs = old @ expire_left p xs \<and> (\<forall>x \<in> set old. p x)"
proof -
  have "xs = takeWhile p xs @ expire_left p xs \<and> (\<forall>x \<in> set (takeWhile p xs). p x)"
    by (auto simp: expire_left_dropWhile dest: set_takeWhileD)
  then show ?thesis by blast
qed

definition only_old_dropped :: "instant \<Rightarrow> buffers \<Rightarrow> buffers \<Rightarrow> bool" where
  "only_old_dropped c bs bs' \<longleftrightarrow>
     (\<forall>k. \<exists>old. dget_or [] bs k = old @ dget_or [] bs' k \<and> (\<forall>s \<in> set old. sn_captured_at s < c))"

lemma only_old_dropped_refl: "only_old_dropped c bs bs"
  by (simp add: only_old_dropped_def)

lemma only_old_dropped_trans:
  assumes "only_old_dropped c a b" "only_old_dropped c b d"
  shows "only_old_dropped c a d"
  unfolding only_old_dropped_def
proof
  fix k
  from assms obtain o1 o2 where
    "dget_or [] a k = o1 @ dget_or [] b k" "\<forall>s \<in> set o1. sn_captured_at s < c"
    "dget_or [] b k = o2 @ dget_or [] d k" "\<forall>s \<in> set o2. sn_captured_at s < c"
    unfolding only_old_dropped_def by meson
  then show "\<exists>old. dget_or [] a k = old @ dget_or [] d k \<and> (\<forall>s \<in> set old. sn_captured_at s < c)"
    by (intro exI [of _ "o1 @ o2"]) auto
qed

lemma only_old_dropped_step:
  "only_old_dropped c bs (dset j (expire_left (older_than c) (dget_or [] bs j)) bs)"
  unfolding only_old_dropped_def
proof
  fix k
  show "\<exists>old. dget_or [] bs k =
      old @ dget_or [] (dset j (expire_left (older_than c) (dget_or [] bs j)) bs) k
      \<and> (\<forall>s \<in> set old. sn_captured_at s < c)"
    using expire_left_dropped [of "dget_or [] bs j" "older_than c"]
    by (cases "k = j") (auto simp: dget_or_def older_than_def)
qed

lemma failsafe_loop_only_old: "only_old_dropped c bs (failsafe_loop gs c ks bs)"
proof (induction gs c ks bs rule: failsafe_loop.induct)
  case (2 gs c k ks bs)
  then show ?case
    by (auto simp: Let_def intro: only_old_dropped_step only_old_dropped_trans)
qed (simp add: only_old_dropped_refl)

text \<open>When the loop ends above the limit it has visited every key, and no front is old any more.\<close>

lemma failsafe_loop_other:
  "k \<notin> set ks \<Longrightarrow> dget_or [] (failsafe_loop gs c ks bs) k = dget_or [] bs k"
  by (induction gs c ks bs rule: failsafe_loop.induct) (auto simp: Let_def dget_or_def)

lemma failsafe_loop_keeps_fresh_front:
  "expire_left (older_than c) (dget_or [] bs k) = dget_or [] bs k \<Longrightarrow>
   expire_left (older_than c) (dget_or [] (failsafe_loop gs c ks bs) k) =
     dget_or [] (failsafe_loop gs c ks bs) k"
proof (induction gs c ks bs rule: failsafe_loop.induct)
  case (2 gs c j ks bs)
  then show ?case
    by (cases "k = j") (auto simp: Let_def dget_or_def)
qed simp

lemma failsafe_loop_complete:
  "\<not> estimate_memory gs (failsafe_loop gs c ks bs) < FAILSAFE_LIMIT \<Longrightarrow> k \<in> set ks \<Longrightarrow>
   expire_left (older_than c) (dget_or [] (failsafe_loop gs c ks bs) k) =
     dget_or [] (failsafe_loop gs c ks bs) k"
proof (induction gs c ks bs rule: failsafe_loop.induct)
  case (2 gs c j ks bs)
  let ?bs = "dset j (expire_left (older_than c) (dget_or [] bs j)) bs"
  have nb: "\<not> estimate_memory gs ?bs < FAILSAFE_LIMIT"
    using "2.prems"(1) by (auto simp: Let_def)
  then have eq: "failsafe_loop gs c (j # ks) bs = failsafe_loop gs c ks ?bs"
    by (simp add: Let_def)
  show ?case
  proof (cases "k \<in> set ks")
    case True
    then show ?thesis using 2 nb eq by simp
  next
    case False
    then have "k = j" using "2.prems" by simp
    then show ?thesis
      unfolding eq by (intro failsafe_loop_keeps_fresh_front) (simp add: dget_or_def)
  qed
qed simp

subsection \<open>Concrete inputs\<close>

text \<open>A deployment snapshot per capture time and size models that report constant sizes.\<close>

definition demo_snapshot :: "instant \<Rightarrow> int \<Rightarrow> resource_snapshot" where
  "demo_snapshot t replicas =
     \<lparr>sn_kind = ''Deployment'', sn_namespace = ''default'', sn_name = ''web'', sn_spec_hash = ''h'',
      sn_spec = [(''replicas'', PInt replicas)], sn_captured_at = t, sn_resource_version = ''1''\<rparr>"

definition demo_sizes :: "nat \<Rightarrow> getsizeof" where
  "demo_sizes n = \<lparr>gs_buffers = (\<lambda>_. n), gs_key = (\<lambda>_. 0), gs_deque = (\<lambda>_. 0),
     gs_snapshot = (\<lambda>_. 0), gs_dict = (\<lambda>_. 0), gs_str = (\<lambda>_. 0)\<rparr>"

lemma demo_estimate [simp]: "estimate_memory (demo_sizes n) bs = n"
proof -
  have "estimate_snapshot_size (demo_sizes n) s = 0" for s
    by (simp add: estimate_snapshot_size_def demo_sizes_def)
  then show ?thesis
    by (induction bs) (auto simp: estimate_memory_def demo_sizes_def)
qed

lemmas limit_defs = SOFT_LIMIT_def HARD_LIMIT_def FAILSAFE_LIMIT_def

subsection \<open>Properties\<close>

lemma ledger_init_suffixes: "holds_suffixes (lg_buffers (ledger_init m r)) []"
  by (simp add: holds_suffixes_def ledger_init_def dget_or_def history_def)

lemma diff_pairs_empty_iff:
  "diff_pairs clock xs = [] \<longleftrightarrow>
     successively (\<lambda>a b. same_spec (PDict (sn_spec a)) (PDict (sn_spec b))) xs"
  by (induction clock xs rule: diff_pairs.induct) (auto simp: compute_diff_empty_iff)

lemma diff_pairs_short: "length xs < 2 \<Longrightarrow> diff_pairs clock xs = []"
  by (cases xs; cases "List.tl xs") auto

lemma short_filter: "length xs < n \<Longrightarrow> length (filter P xs) < n"
  using length_filter_le [of P xs] by linarith

definition diff_window :: "duration option \<Rightarrow> duration option \<Rightarrow> duration" where
  "diff_window since since_hours =
     (case since of Some d \<Rightarrow> d
      | None \<Rightarrow> (case since_hours of Some h \<Rightarrow> h | None \<Rightarrow> hours 2))"

lemma ledger_diff_window:
  "ledger_diff now clock kind ns name since sh l =
     diff_pairs clock (ledger_window now (kind, ns, name) (diff_window since sh) l)"
  unfolding ledger_diff_def ledger_window_def dget_or_def Let_def diff_window_def [symmetric]
  by (cases "dget (lg_buffers l) (kind, ns, name)")
     (simp_all add: diff_pairs_short short_filter)

lemma failsafe_loop_keys:
  "set (dkeys (failsafe_loop gs c ks bs)) \<subseteq> set (dkeys bs) \<union> set ks"
proof (induction gs c ks bs rule: failsafe_loop.induct)
  case (2 gs c j ks bs)
  let ?bs = "dset j (expire_left (older_than c) (dget_or [] bs j)) bs"
  have "set (dkeys ?bs) \<subseteq> insert j (set (dkeys bs))"
    using dom_update [of j _ bs] by auto
  with 2 show ?case by (auto simp: Let_def)
qed simp

definition by_length :: "buffers \<Rightarrow> rkey list" where
  "by_length bs = py_sorted_desc (\<lambda>k. length (dget_or [] bs k)) (dkeys bs)"

lemma failsafe_evict_loop:
  "failsafe_evict gs now bs = drop_empty (failsafe_loop gs (now - FAILSAFE_AGE) (by_length bs) bs)"
  by (simp add: failsafe_evict_def by_length_def)

lemma failsafe_loop_fresh_fronts:
  assumes wf: "dwf bs"
    and full: "\<not> estimate_memory gs (failsafe_loop gs c (by_length bs) bs) < FAILSAFE_LIMIT"
    and mem: "(k, buf) \<in> set (drop_empty (failsafe_loop gs c (by_length bs) bs))"
  shows "buf \<noteq> [] \<and> c \<le> sn_captured_at (hd buf)"
proof -
  let ?lp = "failsafe_loop gs c (by_length bs) bs"
  have ne: "buf \<noteq> []" and kb: "(k, buf) \<in> set ?lp" using mem by (auto simp: drop_empty_def)
  have wfl: "dwf ?lp" using wf by (rule failsafe_loop_dwf)
  have get: "dget_or [] ?lp k = buf" using iffD2 [OF dwf_Some_iff [OF wfl] kb] by (simp add: dget_or_def)
  have "k \<in> set (dkeys ?lp)" using kb by force
  then have "k \<in> set (by_length bs)"
    using failsafe_loop_keys [of gs c "by_length bs" bs] by (auto simp: by_length_def)
  with failsafe_loop_complete [OF full] get have "expire_left (older_than c) buf = buf" by metis
  with ne expire_left_hd [of "older_than c" buf "hd buf" "List.tl buf"] show ?thesis
    by (simp add: older_than_def)
qed

text \<open>What one \<open>record\<close> does to the buffer of a key.\<close>

lemma failsafe_account:
  assumes "dwf bs"
  obtains old where "dget_or [] bs k = old @ dget_or [] (after_failsafe gs now bs) k"
    "\<forall>x \<in> set old. sn_captured_at x < now - FAILSAFE_AGE" "estimate_memory gs bs < FAILSAFE_LIMIT \<longrightarrow> old = []"
proof (cases "estimate_memory gs bs < FAILSAFE_LIMIT")
  case True
  then show ?thesis using that [of "[]"] by (simp add: after_failsafe_def)
next
  case False
  have "dwf (failsafe_loop gs c ks bs)" for c ks using assms by (rule failsafe_loop_dwf)
  then have "dget_or [] (after_failsafe gs now bs) k = dget_or [] (failsafe_loop gs (now - FAILSAFE_AGE) (by_length bs) bs) k"
    using False by (simp add: after_failsafe_def failsafe_evict_loop drop_empty_get)
  then show ?thesis
    using False that failsafe_loop_only_old [of "now - FAILSAFE_AGE" bs gs "by_length bs"]
    unfolding only_old_dropped_def by metis
qed

lemma ledger_record_get:
  "dget_or [] (lg_buffers (ledger_record gs now s l)) k =
     (let kept = dget_or [] (after_failsafe gs now (lg_buffers l)) k;
          half = (if SOFT_LIMIT \<le> estimate_memory gs (after_failsafe gs now (lg_buffers l)) then trim_half kept else kept)
      in if \<not> accepts gs now (lg_buffers l) then kept
         else if k = snap_key s then deque_append (lg_max_versions l) s (expire_buffer l now half) else half)"
  by (simp add: ledger_record_def accepts_def Let_def not_less soft_trim_get)

text \<open>
  C3: After any run of \<open>record\<close> calls on a fresh ledger, whatever the memory pressure, the buffer of a
  resource is no longer than the configured depth and is the newest part of what was accepted for the
  resource, in order.  The next call keeps of every buffer all but these snapshots: at the failsafe limit,
  oldest entries of more than an hour; when the snapshot is accepted at the soft limit, the older half; and
  in the buffer of the new snapshot, which is appended, oldest entries beyond the retention and those
  beyond the depth.  A call that is not accepted drops nothing else and adds nothing.
\<close>

theorem ledger_keeps_recent_history:
  assumes "ledger_run gs xs (ledger_init m r) = l"
  shows "suffix_of (dget_or [] (lg_buffers l) k) (history k (accepted_run gs xs (ledger_init m r)))
    \<and> length (dget_or [] (lg_buffers l) k) \<le> nat (max 1 m) \<and> dget (lg_buffers l) k \<noteq> Some []
    \<and> (\<exists>old kept half. dget_or [] (lg_buffers l) k = old @ kept
         \<and> (\<forall>x \<in> set old. sn_captured_at x < now - FAILSAFE_AGE)
         \<and> (estimate_memory gs (lg_buffers l) < FAILSAFE_LIMIT \<longrightarrow> old = [])
         \<and> half = (if SOFT_LIMIT \<le> estimate_memory gs (after_failsafe gs now (lg_buffers l))
                   then drop (length kept - max 1 (length kept div 2)) kept else kept)
         \<and> dget_or [] (lg_buffers (ledger_record gs now s l)) k =
             (if \<not> accepts gs now (lg_buffers l) then kept
              else if k \<noteq> snap_key s then half
              else let buf = dropWhile (\<lambda>x. sn_captured_at x < now - hours r) half @ [s]
                   in drop (length buf - nat (max 1 m)) buf))"
proof -
  have wf: "ledger_wf l" unfolding assms [symmetric] by (intro ledger_run_wf ledger_init_wf)
  have config: "lg_max_versions l = nat (max 1 m)" "lg_retention l = hours r"
    unfolding assms [symmetric] by (simp_all add: ledger_init_def)
  have "holds_suffixes (lg_buffers l) ([] @ accepted_run gs xs (ledger_init m r))"
    unfolding assms [symmetric] by (intro ledger_run_suffixes ledger_init_wf ledger_init_suffixes)
  then have suffix: "suffix_of (dget_or [] (lg_buffers l) k) (history k (accepted_run gs xs (ledger_init m r)))"
    unfolding holds_suffixes_def append_Nil by blast
  have fit: "dget (lg_buffers l) k \<noteq> Some []" "length (dget_or [] (lg_buffers l) k) \<le> nat (max 1 m)"
    using wf config(1) by (cases "dget (lg_buffers l) k";
      auto simp: ledger_wf_def buf_fit_def dget_or_def dest: dall_get)+
  have "dwf (lg_buffers l)" using wf by (simp add: ledger_wf_def)
  then obtain old where "dget_or [] (lg_buffers l) k = old @ dget_or [] (after_failsafe gs now (lg_buffers l)) k"
    "\<forall>x \<in> set old. sn_captured_at x < now - FAILSAFE_AGE" "estimate_memory gs (lg_buffers l) < FAILSAFE_LIMIT \<longrightarrow> old = []"
    by (rule failsafe_account [of "lg_buffers l" k gs now])
  then show ?thesis
    using suffix fit unfolding ledger_record_get [of gs now s l k] Let_def
    by (auto simp: config expire_buffer_def expire_left_dropWhile older_than_eq trim_half_def deque_append_def)
qed

theorem ledger_keeps_recent_history_witness:
  "dget_or [] (lg_buffers (ledger_run (demo_sizes 0)
      [(10, demo_snapshot 10 1), (20, demo_snapshot 20 2), (30, demo_snapshot 30 3)] (ledger_init 2 6)))
      (''Deployment'', ''default'', ''web'') = [demo_snapshot 20 2, demo_snapshot 30 3]"
proof -
  let ?l = "ledger_run (demo_sizes 0) [(10, demo_snapshot 10 1), (20, demo_snapshot 20 2)] (ledger_init 2 6)"
    and ?k = "(''Deployment'', ''default'', ''web'')"
  have buf: "dget_or [] (lg_buffers ?l) ?k = [demo_snapshot 10 1, demo_snapshot 20 2]"
    by (simp add: ledger_record_def after_failsafe_def ledger_init_def limit_defs snap_key_def
        demo_snapshot_def dget_or_def expire_buffer_def older_than_def hours_def minutes_def seconds_def deque_append_def)
  have sizes: "accepts (demo_sizes 0) now bs" "estimate_memory (demo_sizes 0) bs < FAILSAFE_LIMIT"
    "\<not> SOFT_LIMIT \<le> estimate_memory (demo_sizes 0) bs" for now bs
    by (simp_all add: accepts_def limit_defs)
  have key: "snap_key (demo_snapshot t n) = ?k" for t n by (simp add: demo_snapshot_def snap_key_def)
  obtain old kept half where step: "[demo_snapshot 10 1, demo_snapshot 20 2] = old @ kept" "old = []" "half = kept"
    "dget_or [] (lg_buffers (ledger_record (demo_sizes 0) 30 (demo_snapshot 30 3) ?l)) ?k =
      (let buf = dropWhile (\<lambda>x. sn_captured_at x < 30 - hours 6) half @ [demo_snapshot 30 3]
       in drop (length buf - nat (max 1 2)) buf)"
    using ledger_keeps_recent_history [OF refl [of ?l], of ?k 30 "demo_snapshot 30 3"] sizes
    unfolding buf by (auto simp: key)
  have half: "half = [demo_snapshot 10 1, demo_snapshot 20 2]" using step(1-3) by simp
  then have "dropWhile (\<lambda>x. sn_captured_at x < 30 - hours 6) half = half"
    by (simp add: demo_snapshot_def hours_def minutes_def seconds_def)
  then show ?thesis using step(4) half by simp
qed

text \<open>
  once the estimate is between the hard limit and the failsafe limit, every later \<open>record\<close>,
  whatever its snapshot and its time, is dropped and changes nothing: no trim and no expiry ever
  runs there, so the ledger stays full.
\<close>

theorem ledger_hard_limit_is_permanent:
  assumes "HARD_LIMIT \<le> estimate_memory gs (lg_buffers l)"
    and "estimate_memory gs (lg_buffers l) < FAILSAFE_LIMIT"
  shows "ledger_run gs xs l = l \<and> accepted_run gs xs l = []"
proof -
  have "ledger_record gs now s l = l \<and> \<not> accepts gs now (lg_buffers l)" for now s
    using assms by (simp add: ledger_record_def after_failsafe_def accepts_def Let_def)
  then show ?thesis by (induction xs) auto
qed

theorem ledger_hard_limit_is_permanent_witness:
  "ledger_run (demo_sizes HARD_LIMIT) [(10, demo_snapshot 10 1)] (ledger_init 5 6) = ledger_init 5 6
   \<and> accepted_run (demo_sizes HARD_LIMIT) [(10, demo_snapshot 10 1)] (ledger_init 5 6) = []"
  by (rule ledger_hard_limit_is_permanent) (simp_all add: limit_defs)

text \<open>
  below the soft limit \<open>record\<close> makes the snapshot the latest of its resource and leaves the
  buffers of all other resources as they were.
\<close>

theorem ledger_record_is_latest:
  assumes "estimate_memory gs (lg_buffers l) < SOFT_LIMIT" and "ledger_wf l"
  shows "ledger_latest (sn_kind s) (sn_namespace s) (sn_name s) (ledger_record gs now s l) = Some s
    \<and> (\<forall>k. k \<noteq> snap_key s \<longrightarrow>
          dget (lg_buffers (ledger_record gs now s l)) k = dget (lg_buffers l) k)"
proof -
  have lim: "estimate_memory gs (lg_buffers l) < FAILSAFE_LIMIT"
    "estimate_memory gs (lg_buffers l) < HARD_LIMIT"
    using assms by (simp_all add: SOFT_LIMIT_def HARD_LIMIT_def FAILSAFE_LIMIT_def)
  have n: "0 < lg_max_versions l" using assms by (simp add: ledger_wf_def)
  note log = push_expiring_bounded_log [OF n, of sn_captured_at "lg_retention l"]
  have "lg_buffers (ledger_record gs now s l) =
      dset (snap_key s) (push_expiring (lg_max_versions l) sn_captured_at (lg_retention l) now s
        (dget_or [] (lg_buffers l) (snap_key s))) (lg_buffers l)"
    using assms(1) lim
    by (simp add: ledger_record_def Let_def after_failsafe_def record_push)
  moreover note bounded_log.push_last [OF log, of now s] bounded_log.push_nonempty [OF log, of now s]
  ultimately show ?thesis
    by (simp add: ledger_latest_def snap_key_def)
qed

theorem ledger_record_is_latest_witness:
  "ledger_latest ''Deployment'' ''default'' ''web''
     (ledger_record (demo_sizes 0) 10 (demo_snapshot 10 1) (ledger_init 5 6)) = Some (demo_snapshot 10 1)"
  using ledger_record_is_latest [of "demo_sizes 0" "ledger_init 5 6" "demo_snapshot 10 1" 10]
    ledger_init_wf by (simp add: SOFT_LIMIT_def demo_snapshot_def)

text \<open>
  \<open>diff\<close> reports nothing exactly when every two consecutive snapshots inside the window have
  the same spec (a missing entry counting as \<open>None\<close>).
\<close>

theorem ledger_diff_empty_iff:
  "ledger_diff now clock kind ns name since sh l = [] \<longleftrightarrow>
     successively (\<lambda>a b. same_spec (PDict (sn_spec a)) (PDict (sn_spec b)))
       (ledger_window now (kind, ns, name) (diff_window since sh) l)"
  unfolding ledger_diff_window by (rule diff_pairs_empty_iff)

text \<open>
  the failsafe eviction drops, from the left end of the buffers, only snapshots older than one
  hour; and when its loop ends above the failsafe limit, every remaining buffer starts with a
  snapshot that is not that old.
\<close>

theorem failsafe_drops_only_old:
  assumes "dwf bs"
  shows "only_old_dropped (now - FAILSAFE_AGE) bs (failsafe_evict gs now bs)
    \<and> (estimate_memory gs (failsafe_loop gs (now - FAILSAFE_AGE) (by_length bs) bs) < FAILSAFE_LIMIT
       \<or> dall (\<lambda>k buf. buf \<noteq> [] \<and> now - FAILSAFE_AGE \<le> sn_captured_at (hd buf))
           (failsafe_evict gs now bs))"
proof
  let ?lp = "failsafe_loop gs (now - FAILSAFE_AGE) (by_length bs) bs"
  have "dget_or [] (failsafe_evict gs now bs) k = dget_or [] ?lp k" for k
    unfolding failsafe_evict_loop using assms by (intro drop_empty_get failsafe_loop_dwf)
  with failsafe_loop_only_old [of "now - FAILSAFE_AGE" bs gs "by_length bs"]
  show "only_old_dropped (now - FAILSAFE_AGE) bs (failsafe_evict gs now bs)"
    by (simp add: only_old_dropped_def)
  show "estimate_memory gs ?lp < FAILSAFE_LIMIT
      \<or> dall (\<lambda>k buf. buf \<noteq> [] \<and> now - FAILSAFE_AGE \<le> sn_captured_at (hd buf))
          (failsafe_evict gs now bs)"
    unfolding failsafe_evict_loop using failsafe_loop_fresh_fronts [OF assms] by (blast intro: dallI)
qed

theorem failsafe_drops_only_old_witness:
  "only_old_dropped (hours 2 - FAILSAFE_AGE) [(snap_key (demo_snapshot 0 1), [demo_snapshot 0 1, demo_snapshot (hours 2) 2])]
     (failsafe_evict (demo_sizes 0) (hours 2)
       [(snap_key (demo_snapshot 0 1), [demo_snapshot 0 1, demo_snapshot (hours 2) 2])])"
  using failsafe_drops_only_old [of "[(snap_key (demo_snapshot 0 1), [demo_snapshot 0 1, demo_snapshot (hours 2) 2])]"
      "hours 2" "demo_sizes 0"]
  by (simp add: dwf_def FAILSAFE_AGE_def hours_def minutes_def)

text \<open>
  the ledger keeps its snapshots for as many hours as the configured number says, whether the
  unit is minutes or hours; only days are converted.
\<close>

theorem retention_minutes_read_as_hours:
  assumes "ds \<noteq> []" "list_all is_digit ds" "length ds \<le> 4300"
  shows "app_retention_hours (ds @ ''m'') = Inr (int (read_nat ds))
    \<and> app_retention_hours (ds @ ''h'') = Inr (int (read_nat ds))
    \<and> app_retention_hours (ds @ ''d'') = Inr (24 * int (read_nat ds))"
proof -
  have "is_digit (last ds)" using assms by (auto simp: list_all_iff)
  then have "\<not> unit_char (last ds)" using unit_not_digit by blast
  then have "dropWhile unit_char (rev ds) = rev ds"
    using assms(1) by (cases ds rule: rev_cases) auto
  then have "rstrip_units (ds @ [c]) = ds" if "unit_char c" for c
    using that by (simp add: rstrip_units_def)
  then show ?thesis
    using assms by (simp add: app_retention_hours_def unit_char_def endswith_def)
qed

theorem retention_minutes_read_as_hours_witness:
  "app_retention_hours ''30m'' = Inr 30 \<and> app_retention_hours ''2d'' = Inr 48"
  using retention_minutes_read_as_hours [of "''30''"] retention_minutes_read_as_hours [of "''2''"]
  by (simp add: is_digit_def read_nat_def digit_val_def)

end
