(* ===== verification/RuleBase.thy ===== *)
theory RuleBase
  imports Confidence ResourceCache ChangeLedger "HOL-Library.Product_Lexorder"
begin

text \<open>
  \<open>kuberca/rules/base.py\<close> and the helpers the rule files share: the three-phase rule, the engine
  with its priority order and the four confidence bands, and the reads of the cache.  A rule may
  raise in \<open>match\<close> and \<open>explain\<close> (\<open>Inl\<close> of the exception's text); an exception in \<open>correlate\<close> gives
  an empty correlation.  Whether a \<open>correlate\<close> thread finishes within 500 ms is decided by the
  machine and is the parameter \<open>slow\<close>.  The check of INV-C03 only logs.
\<close>

definition MAX_OBJECTS :: nat where "MAX_OBJECTS = 50"

record rule =
  ru_id :: str
  ru_display_name :: str
  ru_priority :: int
  ru_base :: dbl
  ru_dependencies :: "str list"
  ru_paths :: "str list"
  ru_match :: "event_record \<Rightarrow> str + bool"
  ru_correlate :: "instant \<Rightarrow> ledger \<Rightarrow> event_record \<Rightarrow> rcache \<Rightarrow> (str + correlation) \<times> rcache"
  ru_explain :: "event_record \<Rightarrow> correlation \<Rightarrow> str + rule_result"

subsection \<open>Registration\<close>

definition rule_order :: "rule \<Rightarrow> int \<times> str" where
  "rule_order r = (ru_priority r, ru_id r)"

definition register :: "rule \<Rightarrow> rule list \<Rightarrow> rule list" where
  "register r rules = py_sorted rule_order (rules @ [r])"

subsection \<open>Evaluation\<close>

text \<open>The engine's inputs besides the rules: the reading of the clock, the ledger, the slow rules.\<close>

record engine_env =
  en_now :: instant
  en_ledger :: ledger
  en_slow :: "str \<Rightarrow> bool"

definition run_correlate ::
  "engine_env \<Rightarrow> rule \<Rightarrow> event_record \<Rightarrow> rcache \<Rightarrow> correlation \<times> bool \<times> bool \<times> rcache" where
  "run_correlate env r event c =
     (let (res, c') = ru_correlate r (en_now env) (en_ledger env) event c in
      if en_slow env (ru_id r) then (empty_correlation, True, False, c')
      else (case res of
          Inl exc \<Rightarrow> (empty_correlation, False, False, c')
        | Inr corr \<Rightarrow> (corr, False, MAX_OBJECTS < co_objects corr, c')))"

text \<open>The scan: the best result so far, the dependencies of the competing mode, the metadata.\<close>

record scan =
  sc_best :: "rule_result option"
  sc_competing :: "str list option"
  sc_meta :: eval_meta
  sc_cache :: rcache

definition warn :: "str \<Rightarrow> eval_meta \<Rightarrow> eval_meta" where
  "warn w m = m\<lparr>em_warnings := em_warnings m @ [w]\<rparr>"

definition disjoint_deps :: "str list \<Rightarrow> str list \<Rightarrow> bool" where
  "disjoint_deps a b \<longleftrightarrow> list_all (\<lambda>d. d \<notin> set b) a"

definition better :: "rule_result \<Rightarrow> rule_result option \<Rightarrow> bool" where
  "better r best \<longleftrightarrow> (case best of None \<Rightarrow> True | Some b \<Rightarrow> rr_confidence b < rr_confidence r)"

text \<open>One rule: \<open>Inl\<close> is the short-circuit return, \<open>Inr\<close> the state the loop goes on with.\<close>

definition scan_rule ::
  "engine_env \<Rightarrow> event_record \<Rightarrow> rule \<Rightarrow> scan \<Rightarrow> (rule_result \<times> eval_meta \<times> rcache) + scan" where
  "scan_rule env event r s =
     (if (case sc_competing s of None \<Rightarrow> False | Some deps \<Rightarrow> disjoint_deps (ru_dependencies r) deps)
      then Inr s
      else case ru_match r event of
        Inl exc \<Rightarrow>
          Inr (s\<lparr>sc_meta := warn (ru_id r @ '' raised exception during match: '' @ exc) (sc_meta s)\<rparr>)
      | Inr matched \<Rightarrow>
          let m1 = (sc_meta s)\<lparr>em_evaluated := Suc (em_evaluated (sc_meta s))\<rparr> in
          if \<not> matched then Inr (s\<lparr>sc_meta := m1\<rparr>)
          else
            let (corr, timed_out, cap_hit, c) = run_correlate env r event (sc_cache s) in
            if timed_out
            then Inr (s\<lparr>sc_meta := warn (ru_id r @ '' timed out after 500ms'') m1, sc_cache := c\<rparr>)
            else
              let m2 = (if cap_hit
                        then warn (ru_id r @ '' hit object cap ('' @ show_nat (co_objects corr) @ ''/''
                                   @ show_nat MAX_OBJECTS @ '')'') m1
                        else m1)
              in case ru_explain r event corr of
                Inl exc \<Rightarrow>
                  Inr (s\<lparr>sc_meta := warn (ru_id r @ '' raised exception during explain: '' @ exc) m2,
                         sc_cache := c\<rparr>)
              | Inr result \<Rightarrow>
                  let m3 = m2\<lparr>em_matched := Suc (em_matched m2)\<rparr>;
                      s3 = s\<lparr>sc_meta := m3, sc_cache := c\<rparr>
                  in if dlit 85 100 \<le> rr_confidence result then Inl (result, m3, c)
                     else if dlit 70 100 \<le> rr_confidence result then
                       Inr (if better result (sc_best s)
                            then s3\<lparr>sc_best := Some result, sc_competing := Some (ru_dependencies r)\<rparr>
                            else s3)
                     else Inr (if better result (sc_best s) then s3\<lparr>sc_best := Some result\<rparr> else s3))"

fun scan_rules ::
  "engine_env \<Rightarrow> event_record \<Rightarrow> rule list \<Rightarrow> scan \<Rightarrow> rule_result option \<times> eval_meta \<times> rcache" where
  "scan_rules env event [] s = (sc_best s, sc_meta s, sc_cache s)"
| "scan_rules env event (r # rs) s =
     (case scan_rule env event r s of
        Inl (result, m, c) \<Rightarrow> (Some result, m, c)
      | Inr s' \<Rightarrow> scan_rules env event rs s')"

definition evaluate ::
  "engine_env \<Rightarrow> rule list \<Rightarrow> event_record \<Rightarrow> rcache \<Rightarrow> rule_result option \<times> eval_meta \<times> rcache" where
  "evaluate env rules event c =
     scan_rules env event rules
       \<lparr>sc_best = None, sc_competing = None,
        sc_meta = \<lparr>em_evaluated = 0, em_matched = 0, em_warnings = []\<rparr>, sc_cache = c\<rparr>"

subsection \<open>Helpers of the rule files\<close>

text \<open>\<open>_find_owning_deployment\<close> of R01, R02 and R03: only the first matching ReplicaSet counts.\<close>

definition rs_prefix :: "str \<Rightarrow> str" where
  "rs_prefix pod_name =
     (let parts = rsplit (CHR ''-'') 2 pod_name in if 3 \<le> length parts then hd parts else pod_name)"

definition deploy_prefix :: "str \<Rightarrow> str" where
  "deploy_prefix rs_name =
     (let parts = rsplit (CHR ''-'') 1 rs_name in if length parts = 2 then hd parts else rs_name)"

definition owns_pod :: "str \<Rightarrow> resource_view \<Rightarrow> bool" where
  "owns_pod pod_name rs \<longleftrightarrow>
     vw_name rs = rs_prefix pod_name \<or> startswith pod_name (vw_name rs @ ''-'')"

definition owns_rs :: "resource_view \<Rightarrow> resource_view \<Rightarrow> bool" where
  "owns_rs rs deploy \<longleftrightarrow>
     vw_name deploy = deploy_prefix (vw_name rs) \<or> startswith (vw_name rs) (vw_name deploy @ ''-'')"

definition find_owning_deployment :: "str \<Rightarrow> str \<Rightarrow> rcache \<Rightarrow> resource_view option" where
  "find_owning_deployment pod_name ns c =
     (case List.find (owns_pod pod_name) (cache_list c ''ReplicaSet'' ns) of
        None \<Rightarrow> None
      | Some rs \<Rightarrow> List.find (owns_rs rs) (cache_list c ''Deployment'' ns))"

text \<open>
  The variant of R04, R07 and R10 goes on to the next matching ReplicaSet when the first one has no
  Deployment.
\<close>

fun first_deployment :: "str \<Rightarrow> resource_view list \<Rightarrow> resource_view list \<Rightarrow> resource_view option" where
  "first_deployment pod_name [] deploys = None"
| "first_deployment pod_name (rs # rest) deploys =
     (if owns_pod pod_name rs
      then (case List.find (owns_rs rs) deploys of
              Some d \<Rightarrow> Some d
            | None \<Rightarrow> first_deployment pod_name rest deploys)
      else first_deployment pod_name rest deploys)"

definition find_deployment_any :: "str \<Rightarrow> str \<Rightarrow> rcache \<Rightarrow> resource_view option" where
  "find_deployment_any pod_name ns c =
     first_deployment pod_name (cache_list c ''ReplicaSet'' ns) (cache_list c ''Deployment'' ns)"

definition listed_count :: "rcache \<Rightarrow> str \<Rightarrow> str \<Rightarrow> nat" where
  "listed_count c kind ns = length (cache_list c kind ns)"

text \<open>\<open>ledger.diff(kind, namespace, name, since_hours=2.0)\<close>; the clock stands still while an event is evaluated.\<close>

definition recent_diff :: "instant \<Rightarrow> ledger \<Rightarrow> str \<Rightarrow> str \<Rightarrow> str \<Rightarrow> field_change list" where
  "recent_diff now l kind ns name = ledger_diff now (\<lambda>_. now) kind ns name None (Some (hours 2)) l"

text \<open>\<open>max(changes, key=lambda fc: fc.changed_at)\<close>: the first of the latest ones.\<close>

fun latest_change :: "field_change \<Rightarrow> field_change list \<Rightarrow> field_change" where
  "latest_change best [] = best"
| "latest_change best (fc # fcs) = latest_change (if fc_at best < fc_at fc then fc else best) fcs"

definition change_item :: "field_change \<Rightarrow> str \<Rightarrow> evidence_item" where
  "change_item fc summary =
     \<lparr>ei_type = CHANGE, ei_timestamp = evidence_time (fc_at fc), ei_summary = summary\<rparr>"

definition event_item :: "event_record \<Rightarrow> str \<Rightarrow> evidence_item" where
  "event_item event summary =
     \<lparr>ei_type = EVENT, ei_timestamp = evidence_time (ev_last_seen event), ei_summary = summary\<rparr>"

definition count_text :: "event_record \<Rightarrow> str" where
  "count_text event = ''(count='' @ show_int (ev_count event) @ '')''"

definition name_or :: "str \<Rightarrow> resource_view option \<Rightarrow> str" where
  "name_or dflt v = (case v of None \<Rightarrow> dflt | Some d \<Rightarrow> vw_name d)"

definition first_related :: "correlation \<Rightarrow> resource_view option" where
  "first_related corr = (case co_related corr of [] \<Rightarrow> None | v # _ \<Rightarrow> Some v)"

definition deployment_affected :: "resource_view option \<Rightarrow> affected_resource list" where
  "deployment_affected d =
     (case d of None \<Rightarrow> [] | Some v \<Rightarrow> [affected ''Deployment'' (vw_namespace v) (vw_name v)])"

definition pod_affected :: "event_record \<Rightarrow> affected_resource" where
  "pod_affected event = affected ''Pod'' (ev_namespace event) (ev_name event)"

text \<open>\<open>'{path}' {old!r} -> {new!r}\<close> with the arrow\<close>

definition change_text :: "field_change \<Rightarrow> str" where
  "change_text fc =
     [squote] @ fc_path fc @ [squote] @ '' '' @ repr_opt (fc_old fc) @ '' '' @ arrow @ '' ''
     @ repr_opt (fc_new fc)"

text \<open>\<open>d.get("template")\<close>, then \<open>spec\<close>, then \<open>containers\<close>, each \<open>{}\<close> when it is not a dict.\<close>

definition template_containers :: "resource_view \<Rightarrow> pyval" where
  "template_containers d =
     vget (PList []) (dict_field (dict_field (vw_spec d) ''template'') ''spec'') ''containers''"

definition owned_correlation ::
  "(field_change \<Rightarrow> bool) \<Rightarrow> (str \<Rightarrow> str \<Rightarrow> rcache \<Rightarrow> resource_view option)
   \<Rightarrow> instant \<Rightarrow> ledger \<Rightarrow> event_record \<Rightarrow> rcache \<Rightarrow> correlation" where
  "owned_correlation relevant find_owner now l event c =
     (let ns = ev_namespace event; deployment = find_owner (ev_name event) ns c;
          listed = listed_count c ''ReplicaSet'' ns + listed_count c ''Deployment'' ns
      in case deployment of
           None \<Rightarrow> \<lparr>co_changes = [], co_related = [], co_objects = listed\<rparr>
         | Some d \<Rightarrow>
             \<lparr>co_changes = filter relevant (recent_diff now l ''Deployment'' ns (vw_name d)),
              co_related = [d], co_objects = listed + 1\<rparr>)"

end
