(* ===== verification/RuleContract.thy ===== *)
theory RuleContract
  imports RuleBase
begin

text \<open>
  The contract every rule promises the engine (the comments of \<open>Rule.match\<close>, \<open>Rule.correlate\<close> and
  \<open>Rule.explain\<close>), as a locale, and what the engine guarantees for rules that keep it: which rule's
  result is returned, and that no better result is passed over except by the competing-rules mode.
\<close>

text \<open>What a correlation may contain: redacted views, and changes the ledger reported.\<close>

definition from_ledger :: "instant \<Rightarrow> ledger \<Rightarrow> field_change \<Rightarrow> bool" where
  "from_ledger now l fc \<longleftrightarrow> (\<exists>kind ns name. fc \<in> set (recent_diff now l kind ns name))"

definition corr_ok :: "instant \<Rightarrow> ledger \<Rightarrow> correlation \<Rightarrow> bool" where
  "corr_ok now l corr \<longleftrightarrow>
     list_all view_clean (co_related corr) \<and> list_all (from_ledger now l) (co_changes corr)"

text \<open>What a result must look like: the rule's name, a confidence in range, the event as first evidence.\<close>

definition result_ok :: "rule \<Rightarrow> event_record \<Rightarrow> correlation \<Rightarrow> rule_result \<Rightarrow> bool" where
  "result_ok r event corr res \<longleftrightarrow>
     rr_rule_id res = ru_id r
     \<and> is_float (rr_confidence res) \<and> 0 \<le> rr_confidence res \<and> rr_confidence res \<le> dlit 95 100
     \<and> (co_changes corr = [] \<longrightarrow> rr_confidence res < dlit 85 100)
     \<and> (\<exists>summary rest. rr_evidence res = event_item event summary # rest)"

locale rca_rule =
  fixes R :: rule
  assumes match_total: "\<exists>b. ru_match R event = Inr b"
    and correlate_total: "\<exists>corr. fst (ru_correlate R now l event c) = Inr corr \<and> corr_ok now l corr"
    and correlate_reads: "rc_store (snd (ru_correlate R now l event c)) = rc_store c"
    and correlate_pure: "rc_store c = rc_store c' \<Longrightarrow>
      fst (ru_correlate R now l event c) = fst (ru_correlate R now l event c')"
    and explain_ok: "\<exists>res. ru_explain R event corr = Inr res \<and> result_ok R event corr res"
begin

text \<open>The rule's verdict on an event, as a function of the store alone.\<close>

definition verdict :: "instant \<Rightarrow> ledger \<Rightarrow> event_record \<Rightarrow> rcache \<Rightarrow> rule_result" where
  "verdict now l event c =
     projr (ru_explain R event (projr (fst (ru_correlate R now l event c))))"

lemma verdict_store:
  assumes "rc_store c = rc_store c'"
  shows "verdict now l event c = verdict now l event c'"
  unfolding verdict_def correlate_pure [OF assms] ..

lemma verdict_ok:
  "\<exists>corr. corr_ok now l corr \<and> result_ok R event corr (verdict now l event c)"
proof -
  obtain corr where c: "fst (ru_correlate R now l event c) = Inr corr" "corr_ok now l corr"
    using correlate_total by blast
  obtain res where "ru_explain R event corr = Inr res" "result_ok R event corr res"
    using explain_ok by blast
  with c show ?thesis by (auto simp: verdict_def)
qed

lemma verdict_confidence:
  "0 \<le> rr_confidence (verdict now l event c)" "rr_confidence (verdict now l event c) \<le> dlit 95 100"
  using verdict_ok [of now l event c] by (auto simp: result_ok_def)

end

subsection \<open>One step of the engine, for a rule that keeps the contract\<close>

definition verdict_of :: "engine_env \<Rightarrow> event_record \<Rightarrow> rcache \<Rightarrow> rule \<Rightarrow> rule_result" where
  "verdict_of env event c r = rca_rule.verdict r (en_now env) (en_ledger env) event c"

text \<open>The rule matches the event and is not slow: it produces a verdict when it is evaluated.\<close>

definition fires :: "engine_env \<Rightarrow> event_record \<Rightarrow> rule \<Rightarrow> bool" where
  "fires env event r \<longleftrightarrow> ru_match r event = Inr True \<and> \<not> en_slow env (ru_id r)"

definition skipped :: "rule \<Rightarrow> scan \<Rightarrow> bool" where
  "skipped r s \<longleftrightarrow>
     (case sc_competing s of None \<Rightarrow> False | Some deps \<Rightarrow> disjoint_deps (ru_dependencies r) deps)"

lemma run_correlate_store:
  assumes "rca_rule r"
  shows "rc_store (snd (snd (snd (run_correlate env r event c)))) = rc_store c"
  using rca_rule.correlate_reads [OF assms, of "en_now env" "en_ledger env" event c]
  by (auto simp: run_correlate_def split: prod.splits sum.splits)

lemma scan_rule_idle:
  assumes "rca_rule r" "skipped r s \<or> \<not> fires env event r"
  shows "\<exists>m c. scan_rule env event r s = Inr (s\<lparr>sc_meta := m, sc_cache := c\<rparr>) \<and> rc_store c = rc_store (sc_cache s)"
proof (cases "skipped r s")
  case True
  then show ?thesis
    by (intro exI [of _ "sc_meta s"] exI [of _ "sc_cache s"]) (simp add: scan_rule_def skipped_def)
next
  case False
  then have nf: "\<not> fires env event r" using assms(2) by simp
  obtain b where b: "ru_match r event = Inr b" using rca_rule.match_total [OF assms(1)] by blast
  show ?thesis
  proof (cases b)
    case False
    then show ?thesis
      using b \<open>\<not> skipped r s\<close>
      by (intro exI [of _ "(sc_meta s)\<lparr>em_evaluated := Suc (em_evaluated (sc_meta s))\<rparr>"]
          exI [of _ "sc_cache s"]) (simp add: scan_rule_def skipped_def)
  next
    case True
    then have slow: "en_slow env (ru_id r)" using nf b by (simp add: fires_def)
    let ?c = "snd (ru_correlate r (en_now env) (en_ledger env) event (sc_cache s))"
    have "scan_rule env event r s = Inr (s\<lparr>sc_meta := warn (ru_id r @ '' timed out after 500ms'')
        ((sc_meta s)\<lparr>em_evaluated := Suc (em_evaluated (sc_meta s))\<rparr>), sc_cache := ?c\<rparr>)"
      using b True slow \<open>\<not> skipped r s\<close>
      by (simp add: scan_rule_def skipped_def run_correlate_def Let_def case_prod_unfold)
    then show ?thesis using rca_rule.correlate_reads [OF assms(1)] by blast
  qed
qed

lemma scan_rule_fires:
  assumes "rca_rule r" "\<not> skipped r s" "fires env event r"
  defines "res \<equiv> verdict_of env event (sc_cache s) r"
  shows "\<exists>m c. rc_store c = rc_store (sc_cache s) \<and> scan_rule env event r s =
    (if dlit 85 100 \<le> rr_confidence res then Inl (res, m, c)
     else Inr (if better res (sc_best s)
               then s\<lparr>sc_meta := m, sc_cache := c, sc_best := Some res,
                      sc_competing := (if dlit 70 100 \<le> rr_confidence res
                                       then Some (ru_dependencies r) else sc_competing s)\<rparr>
               else s\<lparr>sc_meta := m, sc_cache := c\<rparr>))"
proof -
  let ?run = "ru_correlate r (en_now env) (en_ledger env) event (sc_cache s)"
  obtain corr where corr: "fst ?run = Inr corr" using rca_rule.correlate_total [OF assms(1)] by blast
  obtain x where x: "ru_explain r event corr = Inr x" using rca_rule.explain_ok [OF assms(1)] by blast
  have res: "res = x" using corr x by (simp add: res_def verdict_of_def rca_rule.verdict_def [OF assms(1)])
  have run: "run_correlate env r event (sc_cache s) = (corr, False, MAX_OBJECTS < co_objects corr, snd ?run)"
    using corr assms(3) by (simp add: run_correlate_def fires_def case_prod_unfold)
  have store: "rc_store (snd ?run) = rc_store (sc_cache s)"
    using rca_rule.correlate_reads [OF assms(1)] .
  define m1 where "m1 = (sc_meta s)\<lparr>em_evaluated := Suc (em_evaluated (sc_meta s))\<rparr>"
  define m2 where "m2 = (if MAX_OBJECTS < co_objects corr
      then warn (ru_id r @ '' hit object cap ('' @ show_nat (co_objects corr) @ ''/''
             @ show_nat MAX_OBJECTS @ '')'') m1 else m1)"
  define m3 where "m3 = m2\<lparr>em_matched := Suc (em_matched m2)\<rparr>"
  have "scan_rule env event r s =
    (if dlit 85 100 \<le> rr_confidence x then Inl (x, m3, snd ?run)
     else Inr (if better x (sc_best s)
               then s\<lparr>sc_meta := m3, sc_cache := snd ?run, sc_best := Some x,
                      sc_competing := (if dlit 70 100 \<le> rr_confidence x
                                       then Some (ru_dependencies r) else sc_competing s)\<rparr>
               else s\<lparr>sc_meta := m3, sc_cache := snd ?run\<rparr>))"
    using assms(2,3) x
    by (simp add: scan_rule_def skipped_def fires_def run Let_def m1_def [symmetric] m2_def [symmetric]
        m3_def [symmetric])
  then show ?thesis using store res by blast
qed

subsection \<open>The whole scan\<close>

definition medium :: "engine_env \<Rightarrow> event_record \<Rightarrow> rcache \<Rightarrow> rule \<Rightarrow> bool" where
  "medium env event c r \<longleftrightarrow>
     fires env event r \<and> dlit 70 100 \<le> rr_confidence (verdict_of env event c r)"

text \<open>
  Why a rule that fires is not better than the answer: its confidence is not greater, or its
  dependencies are disjoint from those of a rule of at least medium confidence.
\<close>

definition beaten :: "engine_env \<Rightarrow> event_record \<Rightarrow> rcache \<Rightarrow> rule list \<Rightarrow> rule_result \<Rightarrow> rule \<Rightarrow> bool" where
  "beaten env event c rs ans r \<longleftrightarrow>
     rr_confidence (verdict_of env event c r) \<le> rr_confidence ans
     \<or> (\<exists>m \<in> set rs. medium env event c m \<and> disjoint_deps (ru_dependencies r) (ru_dependencies m))"

text \<open>
  Why the scan goes on after a rule that fires: its confidence is below the short-circuit band, or the rule
  is skipped for its dependencies.
\<close>

definition passed_over :: "engine_env \<Rightarrow> event_record \<Rightarrow> rcache \<Rightarrow> rule list \<Rightarrow> rule \<Rightarrow> bool" where
  "passed_over env event c rs r \<longleftrightarrow>
     rr_confidence (verdict_of env event c r) < dlit 85 100
     \<or> (\<exists>m \<in> set rs. medium env event c m \<and> disjoint_deps (ru_dependencies r) (ru_dependencies m))"

lemma passed_over_mono: "passed_over env event c rs r \<Longrightarrow> set rs \<subseteq> set rs' \<Longrightarrow> passed_over env event c rs' r"
  unfolding passed_over_def by blast

definition all_passed_over :: "engine_env \<Rightarrow> event_record \<Rightarrow> rcache \<Rightarrow> rule list \<Rightarrow> bool" where
  "all_passed_over env event c rs \<longleftrightarrow> (\<forall>q \<in> set rs. fires env event q \<longrightarrow> passed_over env event c rs q)"

lemma all_passed_over_snoc:
  assumes "all_passed_over env event c rs" "fires env event r \<Longrightarrow> passed_over env event c (rs @ [r]) r"
  shows "all_passed_over env event c (rs @ [r])"
  using assms passed_over_mono [of env event c rs _ "rs @ [r]"] by (auto simp: all_passed_over_def)

definition scan_inv :: "engine_env \<Rightarrow> event_record \<Rightarrow> rcache \<Rightarrow> rule list \<Rightarrow> scan \<Rightarrow> bool" where
  "scan_inv env event c rs s \<longleftrightarrow>
     rc_store (sc_cache s) = rc_store c \<and> all_passed_over env event c rs
     \<and> (case sc_best s of
          None \<Rightarrow> sc_competing s = None \<and> (\<forall>r \<in> set rs. \<not> fires env event r)
        | Some b \<Rightarrow> (\<exists>r \<in> set rs. fires env event r \<and> b = verdict_of env event c r)
                    \<and> (\<forall>r \<in> set rs. fires env event r \<longrightarrow> beaten env event c rs b r))
     \<and> (case sc_competing s of
          None \<Rightarrow> True
        | Some deps \<Rightarrow> \<exists>m \<in> set rs. medium env event c m \<and> deps = ru_dependencies m)"

lemma beaten_mono:
  "beaten env event c rs a r \<Longrightarrow> rr_confidence a \<le> rr_confidence b \<Longrightarrow> set rs \<subseteq> set rs' \<Longrightarrow>
   beaten env event c rs' b r"
  unfolding beaten_def by (meson order_trans subsetD)

lemma verdict_of_store:
  "rca_rule r \<Longrightarrow> rc_store c = rc_store c' \<Longrightarrow> verdict_of env event c r = verdict_of env event c' r"
  unfolding verdict_of_def by (rule rca_rule.verdict_store)

lemma scan_step:
  assumes rule: "rca_rule r" and inv: "scan_inv env event c rs s"
  shows "(\<exists>m c'. scan_rule env event r s = Inl (verdict_of env event c r, m, c')
            \<and> fires env event r \<and> dlit 85 100 \<le> rr_confidence (verdict_of env event c r))
    \<or> (\<exists>s'. scan_rule env event r s = Inr s' \<and> scan_inv env event c (rs @ [r]) s')"
proof -
  have store: "rc_store (sc_cache s) = rc_store c" using inv by (simp add: scan_inv_def)
  let ?v = "verdict_of env event c r"
  have v: "verdict_of env event (sc_cache s) r = ?v" using verdict_of_store [OF rule store] .
  consider "skipped r s" "fires env event r" | "\<not> fires env event r" | "\<not> skipped r s" "fires env event r"
    by blast
  then show ?thesis
  proof cases
    case 1
    obtain m c' where s': "scan_rule env event r s = Inr (s\<lparr>sc_meta := m, sc_cache := c'\<rparr>)"
      "rc_store c' = rc_store (sc_cache s)"
      using scan_rule_idle [OF rule] 1 by blast
    obtain deps where deps: "sc_competing s = Some deps" "disjoint_deps (ru_dependencies r) deps"
      using 1(1) by (auto simp: skipped_def split: option.splits)
    then obtain b where b: "sc_best s = Some b" using inv by (auto simp: scan_inv_def split: option.splits)
    have "beaten env event c (rs @ [r]) b r"
      using deps inv by (auto simp: scan_inv_def beaten_def)
    moreover have passed: "all_passed_over env event c (rs @ [r])"
      using deps inv by (intro all_passed_over_snoc) (auto simp: scan_inv_def passed_over_def)
    ultimately have "scan_inv env event c (rs @ [r]) (s\<lparr>sc_meta := m, sc_cache := c'\<rparr>)"
      using inv b deps s'(2) beaten_mono [of env event c rs b _ b "rs @ [r]"]
      by (auto simp: scan_inv_def)
    with s' show ?thesis by blast
  next
    case 2
    obtain m c' where s': "scan_rule env event r s = Inr (s\<lparr>sc_meta := m, sc_cache := c'\<rparr>)"
      "rc_store c' = rc_store (sc_cache s)"
      using scan_rule_idle [OF rule] 2 by blast
    have "all_passed_over env event c (rs @ [r])"
      using 2 inv by (intro all_passed_over_snoc) (simp_all add: scan_inv_def)
    then have "scan_inv env event c (rs @ [r]) (s\<lparr>sc_meta := m, sc_cache := c'\<rparr>)"
      using inv 2 s'(2) beaten_mono [of env event c rs _ _ _ "rs @ [r]"]
      by (fastforce simp: scan_inv_def split: option.splits)
    with s' show ?thesis by blast
  next
    case 3
    obtain m c' where c': "rc_store c' = rc_store (sc_cache s)" and s':
      "scan_rule env event r s =
        (if dlit 85 100 \<le> rr_confidence ?v then Inl (?v, m, c')
         else Inr (if better ?v (sc_best s)
                   then s\<lparr>sc_meta := m, sc_cache := c', sc_best := Some ?v,
                          sc_competing := (if dlit 70 100 \<le> rr_confidence ?v
                                           then Some (ru_dependencies r) else sc_competing s)\<rparr>
                   else s\<lparr>sc_meta := m, sc_cache := c'\<rparr>))"
      using scan_rule_fires [OF rule 3] unfolding v by blast
    show ?thesis
    proof (cases "dlit 85 100 \<le> rr_confidence ?v")
      case True
      with s' 3 show ?thesis by auto
    next
      case False
      then have passed: "all_passed_over env event c (rs @ [r])"
        using inv by (intro all_passed_over_snoc) (auto simp: scan_inv_def passed_over_def)
      show ?thesis
      proof (cases "better ?v (sc_best s)")
        case True
        have "\<forall>q \<in> set (rs @ [r]). fires env event q \<longrightarrow> beaten env event c (rs @ [r]) ?v q"
        proof (cases "sc_best s")
          case None
          then show ?thesis using inv by (auto simp: scan_inv_def beaten_def)
        next
          case (Some b)
          then have "rr_confidence b \<le> rr_confidence ?v" using True by (simp add: better_def)
          with Some inv show ?thesis
            using beaten_mono [of env event c rs b _ ?v "rs @ [r]"]
            by (auto simp: scan_inv_def beaten_def [of env event c "rs @ [r]" ?v r])
        qed
        then have "scan_inv env event c (rs @ [r]) (s\<lparr>sc_meta := m, sc_cache := c', sc_best := Some ?v,
            sc_competing := (if dlit 70 100 \<le> rr_confidence ?v then Some (ru_dependencies r) else sc_competing s)\<rparr>)"
          using inv 3 c' passed by (auto simp: scan_inv_def medium_def split: option.splits)
        with s' True False show ?thesis by auto
      next
        case better: False
        then obtain b where b: "sc_best s = Some b" "rr_confidence ?v \<le> rr_confidence b"
          by (auto simp: better_def split: option.splits)
        then have "beaten env event c (rs @ [r]) b r" by (simp add: beaten_def)
        then have "scan_inv env event c (rs @ [r]) (s\<lparr>sc_meta := m, sc_cache := c'\<rparr>)"
          using inv b c' passed beaten_mono [of env event c rs b _ b "rs @ [r]"]
          by (auto simp: scan_inv_def split: option.splits)
        with s' better False show ?thesis by auto
      qed
    qed
  qed
qed

text \<open>
  What the engine answers, for rules that keep the contract: nothing when no rule fires; otherwise the
  verdict of a firing rule, either in the short-circuit band, all earlier rules passed over, or one that
  beats all rules that fire.
\<close>

definition answer_ok :: "engine_env \<Rightarrow> event_record \<Rightarrow> rcache \<Rightarrow> rule list \<Rightarrow> rule_result option \<Rightarrow> bool" where
  "answer_ok env event c rules ans \<longleftrightarrow>
     (case ans of
        None \<Rightarrow> \<forall>r \<in> set rules. \<not> fires env event r
      | Some a \<Rightarrow>
          \<exists>before r after. rules = before @ r # after \<and> fires env event r \<and> a = verdict_of env event c r
          \<and> (if dlit 85 100 \<le> rr_confidence a then all_passed_over env event c before
             else \<forall>q \<in> set rules. fires env event q \<longrightarrow> beaten env event c rules a q))"

lemma answer_ok_fires:
  "answer_ok env event c rules (Some a) \<Longrightarrow> \<exists>r \<in> set rules. fires env event r \<and> a = verdict_of env event c r"
  by (auto simp: answer_ok_def)

text \<open>A scan that ends without a short circuit answers below that band.\<close>

definition below_short_circuit :: "scan \<Rightarrow> bool" where
  "below_short_circuit s \<longleftrightarrow> (\<forall>b. sc_best s = Some b \<longrightarrow> rr_confidence b < dlit 85 100)"

lemma scan_rule_below:
  assumes "below_short_circuit s" "scan_rule env event r s = Inr s'"
  shows "below_short_circuit s'"
  using assms
  by (auto simp: scan_rule_def below_short_circuit_def Let_def split: if_splits sum.splits prod.splits)

lemma scan_rules_ok:
  assumes "\<forall>r \<in> set rest. rca_rule r" "scan_inv env event c rs s" "below_short_circuit s"
  shows "answer_ok env event c (rs @ rest) (fst (scan_rules env event rest s))"
  using assms
proof (induction rest arbitrary: rs s)
  case Nil
  show ?case
  proof (cases "sc_best s")
    case None
    then show ?thesis using Nil by (simp add: scan_inv_def answer_ok_def)
  next
    case (Some b)
    then obtain r where r: "r \<in> set rs" "fires env event r" "b = verdict_of env event c r"
      "\<forall>q \<in> set rs. fires env event q \<longrightarrow> beaten env event c rs b q"
      using Nil by (auto simp: scan_inv_def)
    from split_list [OF r(1)] obtain before after where "rs = before @ r # after" by blast
    then show ?thesis
      using Some Nil r by (auto simp: answer_ok_def below_short_circuit_def)
  qed
next
  case (Cons r rest)
  then have "rca_rule r" by simp
  from scan_step [OF this Cons.prems(2)] show ?case
  proof (elim disjE exE conjE)
    fix m c'
    assume "scan_rule env event r s = Inl (verdict_of env event c r, m, c')" "fires env event r"
      "dlit 85 100 \<le> rr_confidence (verdict_of env event c r)"
    moreover have "all_passed_over env event c rs" using Cons.prems(2) by (simp add: scan_inv_def)
    ultimately show ?thesis by (auto simp: answer_ok_def)
  next
    fix s'
    assume s': "scan_rule env event r s = Inr s'" "scan_inv env event c (rs @ [r]) s'"
    then have "below_short_circuit s'" using scan_rule_below Cons.prems(3) by blast
    then show ?thesis using Cons.IH [of "rs @ [r]" s'] Cons.prems(1) s' by simp
  qed
qed

lemma evaluate_ok:
  assumes "\<forall>r \<in> set rules. rca_rule r"
  shows "answer_ok env event c rules (fst (evaluate env rules event c))"
proof -
  have "scan_inv env event c []
      \<lparr>sc_best = None, sc_competing = None,
       sc_meta = \<lparr>em_evaluated = 0, em_matched = 0, em_warnings = []\<rparr>, sc_cache = c\<rparr>"
    by (simp add: scan_inv_def all_passed_over_def)
  from scan_rules_ok [OF assms this] show ?thesis by (simp add: evaluate_def below_short_circuit_def)
qed

subsection \<open>Registration order\<close>

definition register_all :: "rule list \<Rightarrow> rule list" where
  "register_all rules = fold register rules []"

lemma register_all_sorted: "register_all rules = sort_key rule_order rules"
proof -
  have stable: "filter (\<lambda>x. rule_order k = rule_order x) (sort_key rule_order xs) =
      filter (\<lambda>x. rule_order k = rule_order x) xs" for k xs
    using sort_key_stable [of rule_order "rule_order k" xs] by (simp add: eq_commute)
  have "fold register rules (sort_key rule_order rs) = sort_key rule_order (rs @ rules)" for rs
  proof (induction rules arbitrary: rs)
    case (Cons r rules)
    have "register r (sort_key rule_order rs) = sort_key rule_order (rs @ [r])"
      unfolding register_def py_sorted_def
    proof (rule properties_for_sort_key)
      show "mset (sort_key rule_order (rs @ [r])) = mset (sort_key rule_order rs @ [r])" by simp
      show "sorted (map rule_order (sort_key rule_order (rs @ [r])))" by simp
      show "\<And>k. k \<in> set (sort_key rule_order (rs @ [r])) \<Longrightarrow>
          filter (\<lambda>x. rule_order k = rule_order x) (sort_key rule_order (rs @ [r])) =
          filter (\<lambda>x. rule_order k = rule_order x) (sort_key rule_order rs @ [r])"
        by (simp only: stable filter_append)
    qed
    then show ?case using Cons.IH [of "rs @ [r]"] by simp
  qed simp
  from this [of "[]"] show ?thesis by (simp add: register_all_def)
qed

lemma register_all_order_independent:
  assumes "mset xs = mset ys" "inj_on rule_order (set xs)"
  shows "register_all xs = register_all ys"
  unfolding register_all_sorted
proof (rule properties_for_sort_key)
  show "mset (sort_key rule_order ys) = mset xs" using assms(1) by simp
  show "sorted (map rule_order (sort_key rule_order ys))" by simp
  fix k assume "k \<in> set (sort_key rule_order ys)"
  then have k: "k \<in> set xs" using assms(1) by (metis set_mset_mset set_sort)
  have eq: "filter (\<lambda>x. rule_order k = rule_order x) zs = filter (\<lambda>x. x = k) zs" if "mset zs = mset xs" for zs
  proof (rule filter_cong [OF refl])
    fix x assume "x \<in> set zs"
    then have "x \<in> set xs" using that by (metis set_mset_mset)
    then show "(rule_order k = rule_order x) = (x = k)" using k assms(2) by (auto dest: inj_onD)
  qed
  have "filter (\<lambda>x. x = k) zs = replicate (count (mset zs) k) k" for zs
    by (induction zs) auto
  then show "filter (\<lambda>x. rule_order k = rule_order x) (sort_key rule_order ys) =
      filter (\<lambda>x. rule_order k = rule_order x) xs"
    using eq [of xs] eq [of "sort_key rule_order ys"] assms(1) by simp
qed

subsection \<open>Proving the contract of a rule\<close>

lemma pure_rule_contract:
  assumes "ru_match R = (\<lambda>event. Inr (m event))"
    and "ru_correlate R = (\<lambda>now l event c. (Inr (f now l event c), c))"
    and "ru_explain R = (\<lambda>event corr. Inr (x event corr))"
    and "\<And>now l event c. corr_ok now l (f now l event c)"
    and "\<And>now l event c c'. rc_store c = rc_store c' \<Longrightarrow> f now l event c = f now l event c'"
    and "\<And>event corr. result_ok R event corr (x event corr)"
  shows "rca_rule R"
proof
  fix now l event c c' corr
  show "\<exists>b. ru_match R event = Inr b" by (simp add: assms(1))
  show "\<exists>corr. fst (ru_correlate R now l event c) = Inr corr \<and> corr_ok now l corr"
    by (simp add: assms(2,4))
  show "rc_store (snd (ru_correlate R now l event c)) = rc_store c" by (simp add: assms(2))
  show "rc_store c = rc_store c' \<Longrightarrow>
      fst (ru_correlate R now l event c) = fst (ru_correlate R now l event c')"
    unfolding assms(2) fst_conv sum.inject by (rule assms(5))
  show "\<exists>res. ru_explain R event corr = Inr res \<and> result_ok R event corr res"
    by (simp add: assms(3,6))
qed

lemma reading_rule_contract:
  assumes "ru_match R = (\<lambda>event. Inr (m event))"
    and "ru_correlate R = (\<lambda>now l event c. (Inr (fst (f now l event c)), snd (f now l event c)))"
    and "ru_explain R = (\<lambda>event corr. Inr (x event corr))"
    and "\<And>now l event c. corr_ok now l (fst (f now l event c))"
    and "\<And>now l event c. rc_store (snd (f now l event c)) = rc_store c"
    and "\<And>now l event c c'. rc_store c = rc_store c' \<Longrightarrow> fst (f now l event c) = fst (f now l event c')"
    and "\<And>event corr. result_ok R event corr (x event corr)"
  shows "rca_rule R"
proof
  fix now l event c c' corr
  show "\<exists>b. ru_match R event = Inr b" by (simp add: assms(1))
  show "\<exists>corr. fst (ru_correlate R now l event c) = Inr corr \<and> corr_ok now l corr"
    by (simp add: assms(2,4))
  show "rc_store (snd (ru_correlate R now l event c)) = rc_store c" by (simp add: assms(2,5))
  show "rc_store c = rc_store c' \<Longrightarrow>
      fst (ru_correlate R now l event c) = fst (ru_correlate R now l event c')"
    unfolding assms(2) fst_conv sum.inject by (rule assms(6))
  show "\<exists>res. ru_explain R event corr = Inr res \<and> result_ok R event corr res"
    by (simp add: assms(3,7))
qed

named_theorems reads_cong \<open>a read of the cache depends on the store alone\<close>

lemma cache_list_cong [reads_cong]: "rc_store c = rc_store c' \<Longrightarrow> cache_list c = cache_list c'"
  by (simp add: cache_list_def candidates_def fun_eq_iff)

lemma cache_get_cong [reads_cong]:
  "rc_store c = rc_store c' \<Longrightarrow> fst (cache_get now k n m c) = fst (cache_get now k n m c')"
  by (simp add: cache_get_fst)

lemma listed_count_cong [reads_cong]: "rc_store c = rc_store c' \<Longrightarrow> listed_count c = listed_count c'"
  using cache_list_cong [of c c'] by (simp add: listed_count_def fun_eq_iff)

lemma find_owning_deployment_cong [reads_cong]:
  "rc_store c = rc_store c' \<Longrightarrow> find_owning_deployment pod ns c = find_owning_deployment pod ns c'"
  unfolding find_owning_deployment_def by (drule cache_list_cong) (simp only:)

lemma find_deployment_any_cong [reads_cong]:
  "rc_store c = rc_store c' \<Longrightarrow> find_deployment_any pod ns c = find_deployment_any pod ns c'"
  unfolding find_deployment_any_def by (drule cache_list_cong) (simp only:)

lemma cache_list_clean: "v \<in> set (cache_list c kind ns) \<Longrightarrow> view_clean v"
  by (auto simp: cache_list_def redacted_view_clean)

lemma cache_get_clean: "fst (cache_get now k n m c) = Some v \<Longrightarrow> view_clean v"
  by (auto simp: cache_get_fst redacted_view_clean)

lemma find_SomeD: "List.find P xs = Some x \<Longrightarrow> x \<in> set xs \<and> P x"
  by (auto simp: find_Some_iff)

lemma find_owning_deployment_clean: "find_owning_deployment pod ns c = Some d \<Longrightarrow> view_clean d"
  by (auto simp: find_owning_deployment_def dest: find_SomeD cache_list_clean split: option.splits)

lemma first_deployment_mem: "first_deployment pod rss ds = Some d \<Longrightarrow> d \<in> set ds"
  by (induction pod rss ds rule: first_deployment.induct)
     (auto dest: find_SomeD split: if_splits option.splits)

lemma find_deployment_any_clean: "find_deployment_any pod ns c = Some d \<Longrightarrow> view_clean d"
  by (auto simp: find_deployment_any_def dest: first_deployment_mem cache_list_clean)

lemma from_ledger_recent [simp]: "fc \<in> set (recent_diff now l kind ns name) \<Longrightarrow> from_ledger now l fc"
  by (auto simp: from_ledger_def)

lemma corr_okI:
  "(\<And>v. v \<in> set (co_related corr) \<Longrightarrow> view_clean v) \<Longrightarrow>
   (\<And>fc. fc \<in> set (co_changes corr) \<Longrightarrow> from_ledger now l fc) \<Longrightarrow> corr_ok now l corr"
  by (simp add: corr_ok_def list_all_iff)

lemma owned_correlation_ok:
  assumes "\<And>d. find_owner (ev_name event) (ev_namespace event) c = Some d \<Longrightarrow> view_clean d"
  shows "corr_ok now l (owned_correlation relevant find_owner now l event c)"
  using assms by (auto simp: owned_correlation_def Let_def intro!: corr_okI split: option.splits)

lemma owned_correlation_cong:
  assumes "\<And>pod ns. find_owner pod ns c = find_owner pod ns c'" "rc_store c = rc_store c'"
  shows "owned_correlation relevant find_owner now l event c =
    owned_correlation relevant find_owner now l event c'"
  using assms(1) listed_count_cong [OF assms(2)] by (simp add: owned_correlation_def)

lemma result_okI:
  assumes "rr_rule_id res = ru_id R" "rr_confidence res = compute_confidence (dlit b 100) corr event"
    and "0 \<le> b" "b \<le> 65" "\<exists>summary rest. rr_evidence res = event_item event summary # rest"
  shows "result_ok R event corr res"
  using assms compute_confidence_range no_changes_low [OF assms(3,4)] by (simp add: result_ok_def)

end
