(* ===== verification/RulesTier1.thy ===== *)
theory RulesTier1
  imports RuleContract
begin

text \<open>
  The tier 1 rules: \<open>r01_oom_killed.py\<close>, \<open>r02_crash_loop.py\<close> and \<open>r03_failed_scheduling.py\<close>, each
  with its match, correlate and explain phases and its texts, and its proof of the rule contract.
\<close>

definition sq :: "str \<Rightarrow> str" where
  "sq s = [squote] @ s @ [squote]"

subsection \<open>R01 OOMKilled\<close>

definition is_memory_change :: "field_change \<Rightarrow> bool" where
  "is_memory_change fc \<longleftrightarrow>
     startswith (fc_path fc) ''spec.template.spec.containers''
     \<and> str_in ''resources'' (fc_path fc) \<and> str_in ''memory'' (fc_path fc)"

definition current_memory_limit :: "resource_view \<Rightarrow> str" where
  "current_memory_limit deployment =
     (case template_containers deployment of
        PList (PDict first # _) \<Rightarrow>
          (case vget PNone first ''resources'' of
             PDict resources \<Rightarrow>
               (case vget PNone resources ''limits'' of
                  PDict limits \<Rightarrow>
                    let limit = vget PNone limits ''memory'' in
                    if truthy limit then py_str limit else ''<unknown>''
                | _ \<Rightarrow> ''<unknown>'')
           | _ \<Rightarrow> ''<unknown>'')
      | _ \<Rightarrow> ''<unknown>'')"

text \<open>The suffix from the first occurrence of \<open>p\<close>, as \<open>s[s.index(p):]\<close>.\<close>

fun from_index :: "str \<Rightarrow> str \<Rightarrow> str option" where
  "from_index p [] = (if p = [] then Some [] else None)"
| "from_index p (c # cs) = (if prefix p (c # cs) then Some (c # cs) else from_index p cs)"

definition container_name_from_path :: "str \<Rightarrow> str" where
  "container_name_from_path field_path =
     (case from_index ''containers'' field_path of
        None \<Rightarrow> ''the affected container''
      | Some s \<Rightarrow> hd (split_on (CHR ''.'') s))"

definition r01_match :: "event_record \<Rightarrow> bool" where
  "r01_match event \<longleftrightarrow> ev_reason event \<in> {''OOMKilled'', ''OOMKilling''}"

definition r01_correlate :: "instant \<Rightarrow> ledger \<Rightarrow> event_record \<Rightarrow> rcache \<Rightarrow> correlation" where
  "r01_correlate = owned_correlation is_memory_change find_owning_deployment"

definition r01_base :: dbl where "r01_base = dlit 55 100"

definition r01_explain :: "event_record \<Rightarrow> correlation \<Rightarrow> rule_result" where
  "r01_explain event corr =
     (let pod = ev_name event; ns = ev_namespace event; deploy = first_related corr;
          top = ''Consider profiling memory usage with `kubectl top pod '' @ pod @ '' -n '' @ ns @ ''`.'';
          trigger = event_item event
            (''Pod '' @ pod @ '' received '' @ ev_reason event @ '' '' @ count_text event @ '': ''
             @ ev_message event);
          (evidence, cause, remedy) =
            (case co_changes corr of
               fc # fcs \<Rightarrow>
                 let latest = latest_change fc fcs; at = isoformat (fc_at latest) in
                 ([trigger, change_item latest
                     (''Memory limit changed on '' @ name_or ''deployment'' deploy @ '' from ''
                      @ repr_opt (fc_old latest) @ '' to '' @ repr_opt (fc_new latest) @ '' at '' @ at)],
                  ''Pod '' @ pod @ '' was OOM-killed. Memory limit was changed from ''
                  @ str_opt (fc_old latest) @ '' to '' @ str_opt (fc_new latest) @ '' in deployment ''
                  @ name_or ''<unknown>'' deploy @ '' at '' @ at @ ''.'',
                  ''Increase memory limit for container ''
                  @ container_name_from_path (fc_path latest) @ '' in deployment ''
                  @ name_or pod deploy @ ''. New limit '' @ str_opt (fc_new latest)
                  @ '' may be insufficient. '' @ top)
             | [] \<Rightarrow>
                 let limit = (case deploy of Some d \<Rightarrow> current_memory_limit d | None \<Rightarrow> ''<unknown>'') in
                 ([trigger],
                  ''Pod '' @ pod @ '' was OOM-killed. No recent memory limit change detected; ''
                  @ ''current limit is '' @ limit @ ''.'',
                  ''Increase memory limit for containers in deployment '' @ name_or pod deploy
                  @ ''. Current limit: '' @ limit @ ''. '' @ top))
      in \<lparr>rr_rule_id = ''R01_oom_killed'', rr_root_cause = cause,
          rr_confidence = compute_confidence r01_base corr event, rr_evidence = evidence,
          rr_affected = pod_affected event # deployment_affected deploy, rr_remediation = remedy\<rparr>)"

definition r01_rule :: rule where
  "r01_rule =
     \<lparr>ru_id = ''R01_oom_killed'', ru_display_name = ''OOMKilled'', ru_priority = 10, ru_base = r01_base,
      ru_dependencies = [''Pod'', ''Deployment'', ''ReplicaSet''],
      ru_paths = [''spec.template.spec.containers''],
      ru_match = (\<lambda>event. Inr (r01_match event)),
      ru_correlate = (\<lambda>now l event c. (Inr (r01_correlate now l event c), c)),
      ru_explain = (\<lambda>event corr. Inr (r01_explain event corr))\<rparr>"

subsection \<open>R02 CrashLoopBackOff\<close>

definition is_relevant_change :: "field_change \<Rightarrow> bool" where
  "is_relevant_change fc \<longleftrightarrow>
     any_in [''image'', ''env'', ''configMap'', ''configmap'', ''data''] (lower (fc_path fc))"

text \<open>The ConfigMap names of the \<open>envFrom\<close> entries of the containers, in order.\<close>

definition config_map_name :: "pyval \<Rightarrow> str list" where
  "config_map_name env_source =
     (case env_source of
        PDict e \<Rightarrow>
          (case vget (PDict []) e ''configMapRef'' of
             PDict cm_ref \<Rightarrow>
               (case vget PNone cm_ref ''name'' of PStr n \<Rightarrow> if n \<noteq> [] then [n] else [] | _ \<Rightarrow> [])
           | _ \<Rightarrow> [])
      | _ \<Rightarrow> [])"

definition container_config_maps :: "pyval \<Rightarrow> str list" where
  "container_config_maps container =
     (case container of
        PDict c \<Rightarrow> concat (map config_map_name (list_or_empty (vget (PList []) c ''envFrom'')))
      | _ \<Rightarrow> [])"

definition diff_configmaps :: "instant \<Rightarrow> ledger \<Rightarrow> str \<Rightarrow> resource_view \<Rightarrow> field_change list" where
  "diff_configmaps now l ns deployment =
     concat (map (recent_diff now l ''ConfigMap'' ns)
       (concat (map container_config_maps (list_or_empty (template_containers deployment)))))"

definition r02_match :: "event_record \<Rightarrow> bool" where
  "r02_match event \<longleftrightarrow>
     (if ev_reason event = ''CrashLoopBackOff'' then True
      else ev_reason event = ''BackOff'' \<and> 3 \<le> ev_count event)"

definition r02_correlate :: "instant \<Rightarrow> ledger \<Rightarrow> event_record \<Rightarrow> rcache \<Rightarrow> correlation" where
  "r02_correlate now l event c =
     (let ns = ev_namespace event;
          listed = listed_count c ''ReplicaSet'' ns + listed_count c ''Deployment'' ns
      in case find_owning_deployment (ev_name event) ns c of
           None \<Rightarrow> \<lparr>co_changes = [], co_related = [], co_objects = listed\<rparr>
         | Some d \<Rightarrow>
             let own = filter is_relevant_change (recent_diff now l ''Deployment'' ns (vw_name d));
                 cms = filter is_relevant_change (diff_configmaps now l ns d)
             in \<lparr>co_changes = own @ cms, co_related = [d], co_objects = listed + 1 + length cms\<rparr>)"

definition classify_change :: "str \<Rightarrow> str" where
  "classify_change field_path =
     (let path_lower = lower field_path in
      if str_in ''image'' path_lower then ''image update''
      else if str_in ''configmap'' path_lower \<or> str_in ''configMap'' path_lower then ''ConfigMap change''
      else if str_in ''env'' path_lower then ''environment variable change''
      else ''configuration change'')"

definition change_summary :: "field_change \<Rightarrow> resource_view option \<Rightarrow> str" where
  "change_summary fc deploy =
     capitalize (classify_change (fc_path fc)) @ '' detected on '' @ name_or ''deployment'' deploy
     @ '' at field '' @ sq (fc_path fc) @ '': '' @ repr_opt (fc_old fc) @ '' '' @ arrow @ '' ''
     @ repr_opt (fc_new fc) @ '' at '' @ isoformat (fc_at fc)"

definition r02_base :: dbl where "r02_base = dlit 50 100"

definition r02_explain :: "event_record \<Rightarrow> correlation \<Rightarrow> rule_result" where
  "r02_explain event corr =
     (let pod = ev_name event; deploy = first_related corr;
          looping = ''Pod '' @ pod @ '' is crash-looping (restart count: '' @ show_int (ev_count event)
            @ ''). '';
          trigger = event_item event
            (''Pod '' @ pod @ '' is in CrashLoopBackOff '' @ count_text event @ '': '' @ ev_message event);
          (evidence, cause) =
            (case co_changes corr of
               fc # fcs \<Rightarrow>
                 let latest = latest_change fc fcs in
                 ([trigger, change_item latest (change_summary latest deploy)],
                  looping @ ''Most recent '' @ classify_change (fc_path latest) @ '' on ''
                  @ name_or ''the deployment'' deploy @ '' at '' @ isoformat (fc_at latest)
                  @ '' may have caused the failure.'')
             | [] \<Rightarrow>
                 ([trigger],
                  looping @ ''No recent image, config, or environment changes detected.''))
      in \<lparr>rr_rule_id = ''R02_crash_loop'', rr_root_cause = cause,
          rr_confidence = compute_confidence r02_base corr event, rr_evidence = evidence,
          rr_affected = pod_affected event # deployment_affected deploy,
          rr_remediation =
            ''Roll back deployment '' @ name_or pod deploy
            @ '' to the previous revision: `kubectl rollout undo deployment/'' @ name_or pod deploy
            @ '' -n '' @ ev_namespace event @ ''`''\<rparr>)"

definition r02_rule :: rule where
  "r02_rule =
     \<lparr>ru_id = ''R02_crash_loop'', ru_display_name = ''CrashLoopBackOff'', ru_priority = 10,
      ru_base = r02_base, ru_dependencies = [''Pod'', ''Deployment'', ''ReplicaSet'', ''ConfigMap''],
      ru_paths = [''spec.template.spec.containers''],
      ru_match = (\<lambda>event. Inr (r02_match event)),
      ru_correlate = (\<lambda>now l event c. (Inr (r02_correlate now l event c), c)),
      ru_explain = (\<lambda>event corr. Inr (r02_explain event corr))\<rparr>"

subsection \<open>R03 FailedScheduling\<close>

datatype scheduler_pattern =
    INSUFFICIENT_RESOURCES | NODE_SELECTOR_MISMATCH | TAINT_TOLERATION | PVC_BINDING | UNKNOWN

definition any_char :: "char \<Rightarrow> bool" where
  "any_char c \<longleftrightarrow> True"

definition RE_INSUFFICIENT :: regex where
  "RE_INSUFFICIENT =
     r_seqs [r_ilit ''Insufficient'', r_plus (RSet is_space),
       RGroup 1 (r_alts [r_ilit ''cpu'', r_ilit ''memory'', r_ilit ''ephemeral-storage''])]"

definition RE_NODE_SELECTOR :: regex where
  "RE_NODE_SELECTOR =
     r_alts [r_ilit ''didn't match Pod's node affinity/selector'',
       r_ilit ''node(s) didn't match node selector'', r_ilit ''didn't match node selector'']"

definition RE_TAINT :: regex where
  "RE_TAINT =
     r_seqs [r_ilit ''had taint'', r_plus (RSet any_char), r_ilit ''that the pod didn't tolerate'']"

definition RE_PVC :: regex where
  "RE_PVC =
     r_seqs [r_ilit ''persistentvolumeclaim'', r_plus (RSet not_newline),
       RGroup 1 (r_alts [r_ilit ''not found'', r_ilit ''unbound''])]"

definition classify_scheduler_message :: "str \<Rightarrow> scheduler_pattern" where
  "classify_scheduler_message message =
     (if re_found RE_INSUFFICIENT message then INSUFFICIENT_RESOURCES
      else if re_found RE_NODE_SELECTOR message then NODE_SELECTOR_MISMATCH
      else if re_found RE_TAINT message then TAINT_TOLERATION
      else if re_found RE_PVC message then PVC_BINDING
      else UNKNOWN)"

definition is_scheduling_relevant :: "field_change \<Rightarrow> bool" where
  "is_scheduling_relevant fc \<longleftrightarrow>
     any_in [''nodeselector'', ''affinity'', ''tolerations'', ''resources.requests'', ''resources.limits'']
       (lower (fc_path fc))"

definition phase_is :: "pyval \<Rightarrow> str \<Rightarrow> resource_view \<Rightarrow> bool" where
  "phase_is dflt phase v \<longleftrightarrow> vget dflt (vw_status v) ''phase'' = PStr phase"

definition r03_match :: "event_record \<Rightarrow> bool" where
  "r03_match event \<longleftrightarrow> ev_reason event = ''FailedScheduling''"

definition r03_correlate :: "instant \<Rightarrow> ledger \<Rightarrow> event_record \<Rightarrow> rcache \<Rightarrow> correlation" where
  "r03_correlate now l event c =
     (let pattern = classify_scheduler_message (ev_message event); ns = ev_namespace event in
      if pattern = UNKNOWN then \<lparr>co_changes = [], co_related = [], co_objects = 0\<rparr>
      else
        let nodes = cache_list c ''Node'' [];
            listed = length nodes + listed_count c ''ReplicaSet'' ns + listed_count c ''Deployment'' ns;
            (related, changes, queried) =
              (case find_owning_deployment (ev_name event) ns c of
                 None \<Rightarrow> (take 5 nodes, [], listed)
               | Some d \<Rightarrow>
                   (take 5 nodes @ [d],
                    filter is_scheduling_relevant (recent_diff now l ''Deployment'' ns (vw_name d)),
                    listed + 1));
            pvcs = (if pattern = PVC_BINDING then cache_list c ''PersistentVolumeClaim'' ns else [])
        in \<lparr>co_changes = changes,
            co_related = related @ filter (\<lambda>pvc. \<not> phase_is (PStr '''') ''Bound'' pvc) pvcs,
            co_objects = queried + length pvcs\<rparr>)"

definition cache_truncated_note :: "correlation \<Rightarrow> bool \<Rightarrow> bool" where
  "cache_truncated_note corr cache_truncated = cache_truncated"

definition truncation_note :: "bool \<Rightarrow> nat \<Rightarrow> str" where
  "truncation_note node_truncated node_count =
     (if node_truncated
      then '' (node analysis based on '' @ show_nat node_count @ '' of available nodes)'' else [])"

definition names_of_kind :: "str \<Rightarrow> correlation \<Rightarrow> str list" where
  "names_of_kind kind corr = map vw_name (filter (\<lambda>r. vw_kind r = kind) (co_related corr))"

definition build_diagnosis ::
  "event_record \<Rightarrow> scheduler_pattern \<Rightarrow> nat \<Rightarrow> correlation \<Rightarrow> resource_view option \<Rightarrow> bool \<Rightarrow> str \<times> str" where
  "build_diagnosis event pattern node_count corr deploy node_truncated =
     (let pod = ev_name event; ns = ev_namespace event; deploy_name = name_or pod deploy;
          checked = ''Checked '' @ show_nat node_count @ '' node(s).'';
          note = truncation_note node_truncated node_count
      in case pattern of
        INSUFFICIENT_RESOURCES \<Rightarrow>
          let resource_type =
                (case re_search RE_INSUFFICIENT (ev_message event) of
                   Some st \<Rightarrow> str_opt (dget (rgroups st) 1) | None \<Rightarrow> ''resource'')
          in (''Pod '' @ pod @ '' could not be scheduled: insufficient '' @ resource_type
              @ '' on available nodes. '' @ checked @ note,
              ''Reduce resource requests for pod '' @ pod @ '' in deployment '' @ deploy_name
              @ '', or scale up the node pool with sufficient '' @ resource_type
              @ ''. Check current usage: `kubectl top nodes`.'')
      | NODE_SELECTOR_MISMATCH \<Rightarrow>
          (''Pod '' @ pod @ '' could not be scheduled: no node satisfies the pod's ''
           @ ''nodeSelector or affinity rules. '' @ checked @ note,
           ''Review the nodeSelector and affinity rules for deployment '' @ deploy_name
           @ ''. Verify that matching nodes exist: `kubectl get nodes --show-labels`.'')
      | TAINT_TOLERATION \<Rightarrow>
          (''Pod '' @ pod @ '' could not be scheduled: node(s) have taints that ''
           @ ''the pod does not tolerate. '' @ checked @ note,
           ''Add the required toleration to deployment '' @ deploy_name
           @ '', or remove/update the taint from the target node(s): ''
           @ ''`kubectl describe nodes | grep Taints`.'')
      | PVC_BINDING \<Rightarrow>
          let unbound_pvcs = names_of_kind ''PersistentVolumeClaim'' corr;
              pvc_list = (if unbound_pvcs \<noteq> [] then join '', '' unbound_pvcs else ''referenced PVC'')
          in (''Pod '' @ pod @ '' could not be scheduled: PersistentVolumeClaim '' @ pvc_list
              @ '' is not bound or not found.'',
              ''Check PVC status: `kubectl get pvc -n '' @ ns
              @ ''`. Ensure the StorageClass exists and PV is available.'')
      | UNKNOWN \<Rightarrow>
          (''Pod '' @ pod @ '' failed scheduling. Scheduler message not in the recognized ''
           @ ''pattern set '' @ em_dash @ '' diagnosis may be incomplete. Message: ''
           @ take 200 (ev_message event),
           ''Inspect the scheduler events for pod '' @ pod @ '': `kubectl describe pod '' @ pod
           @ '' -n '' @ ns @ ''`.''))"

definition r03_base :: dbl where "r03_base = dlit 60 100"

definition r03_explain :: "event_record \<Rightarrow> correlation \<Rightarrow> rule_result" where
  "r03_explain event corr =
     (let pattern = classify_scheduler_message (ev_message event);
          trigger = event_item event
            (''Pod '' @ ev_name event @ '' failed scheduling '' @ count_text event @ '': ''
             @ take 300 (ev_message event));
          deploy = List.find (\<lambda>r. vw_kind r = ''Deployment'') (co_related corr);
          evidence =
            (case co_changes corr of
               fc # fcs \<Rightarrow>
                 let latest = latest_change fc fcs in
                 [trigger, change_item latest
                    (''Scheduling-related field changed: '' @ change_text latest @ '' at ''
                     @ isoformat (fc_at latest))]
             | [] \<Rightarrow> [trigger]);
          node_count = length (names_of_kind ''Node'' corr);
          node_truncated = (0 < length (co_related corr) \<and> cache_truncated_note corr False);
          (cause, remedy) = build_diagnosis event pattern node_count corr deploy node_truncated
      in \<lparr>rr_rule_id = ''R03_failed_scheduling'', rr_root_cause = cause,
          rr_confidence =
            (if pattern = UNKNOWN then r03_base else compute_confidence r03_base corr event),
          rr_evidence = evidence,
          rr_affected = pod_affected event # deployment_affected deploy, rr_remediation = remedy\<rparr>)"

definition r03_rule :: rule where
  "r03_rule =
     \<lparr>ru_id = ''R03_failed_scheduling'', ru_display_name = ''FailedScheduling'', ru_priority = 20,
      ru_base = r03_base, ru_dependencies = [''Pod'', ''Node'', ''Deployment''],
      ru_paths = [''spec.template.spec''],
      ru_match = (\<lambda>event. Inr (r03_match event)),
      ru_correlate = (\<lambda>now l event c. (Inr (r03_correlate now l event c), c)),
      ru_explain = (\<lambda>event corr. Inr (r03_explain event corr))\<rparr>"

subsection \<open>The contract\<close>

lemma r01_contract: "rca_rule r01_rule"
proof (rule pure_rule_contract)
  show "corr_ok now l (r01_correlate now l event c)" for now l event c
    unfolding r01_correlate_def by (intro owned_correlation_ok find_owning_deployment_clean)
  show "rc_store c = rc_store c' \<Longrightarrow> r01_correlate now l event c = r01_correlate now l event c'"
    for now l event c c'
    unfolding r01_correlate_def by (intro owned_correlation_cong find_owning_deployment_cong)
  show "result_ok r01_rule event corr (r01_explain event corr)" for event corr
    by (rule result_okI [of _ _ 55])
       (auto simp: r01_rule_def r01_explain_def r01_base_def Let_def split: list.splits)
qed (simp_all add: r01_rule_def)

lemma r02_contract: "rca_rule r02_rule"
proof (rule pure_rule_contract)
  show "corr_ok now l (r02_correlate now l event c)" for now l event c
    by (auto simp: r02_correlate_def diff_configmaps_def Let_def intro!: corr_okI
        intro: find_owning_deployment_clean split: option.splits)
  show "rc_store c = rc_store c' \<Longrightarrow> r02_correlate now l event c = r02_correlate now l event c'"
    for now l event c c'
    unfolding r02_correlate_def
    by (simp only: find_owning_deployment_cong [of c c'] listed_count_cong [of c c'])
  show "result_ok r02_rule event corr (r02_explain event corr)" for event corr
    by (rule result_okI [of _ _ 50])
       (auto simp: r02_rule_def r02_explain_def r02_base_def Let_def split: list.splits)
qed (simp_all add: r02_rule_def)

lemma r03_contract: "rca_rule r03_rule"
proof (rule pure_rule_contract)
  show "corr_ok now l (r03_correlate now l event c)" for now l event c
    by (auto simp: r03_correlate_def Let_def intro!: corr_okI intro: find_owning_deployment_clean
        cache_list_clean cache_list_clean [OF in_set_takeD] split: option.splits if_splits)
  show "rc_store c = rc_store c' \<Longrightarrow> r03_correlate now l event c = r03_correlate now l event c'"
    for now l event c c'
    unfolding r03_correlate_def
    by (simp only: find_owning_deployment_cong [of c c'] listed_count_cong [of c c'] cache_list_cong [of c c'])
  show "result_ok r03_rule event corr (r03_explain event corr)" for event corr
  proof (cases "classify_scheduler_message (ev_message event) = UNKNOWN")
    case True
    have "is_float (dlit 60 100)" by simp
    note this [unfolded dlit_values]
    then show ?thesis using True
      by (auto simp: result_ok_def r03_rule_def r03_explain_def r03_base_def dlit_values Let_def
          split: list.splits prod.splits)
  next
    case False
    then show ?thesis
      by (intro result_okI [of _ _ 60])
         (auto simp: r03_rule_def r03_explain_def r03_base_def Let_def split: list.splits prod.splits)
  qed
qed (simp_all add: r03_rule_def)

interpretation r01: rca_rule r01_rule by (rule r01_contract)
interpretation r02: rca_rule r02_rule by (rule r02_contract)
interpretation r03: rca_rule r03_rule by (rule r03_contract)

end
