(* ===== verification/RulesTier2a.thy ===== *)
theory RulesTier2a
  imports RulesTier1
begin

text \<open>
  The tier 2 rules \<open>r04_image_pull.py\<close> to \<open>r10_readiness_probe.py\<close>.  A rule that calls
  \<open>cache.get\<close> threads the cache, whose access log every \<open>get\<close> extends.
\<close>

definition path_has :: "str list \<Rightarrow> field_change \<Rightarrow> bool" where
  "path_has keywords fc \<longleftrightarrow> any_in keywords (lower (fc_path fc))"

subsection \<open>R04 ImagePullBackOff\<close>

definition is_image_or_secret_change :: "field_change \<Rightarrow> bool" where
  "is_image_or_secret_change fc \<longleftrightarrow> path_has [''image'', ''imagepullsecret''] fc"

definition r04_match :: "event_record \<Rightarrow> bool" where
  "r04_match event \<longleftrightarrow> ev_reason event \<in> {''ErrImagePull'', ''ImagePullBackOff''}"

definition r04_correlate :: "instant \<Rightarrow> ledger \<Rightarrow> event_record \<Rightarrow> rcache \<Rightarrow> correlation" where
  "r04_correlate = owned_correlation is_image_or_secret_change find_deployment_any"

definition r04_base :: dbl where "r04_base = dlit 60 100"

definition r04_explain :: "event_record \<Rightarrow> correlation \<Rightarrow> rule_result" where
  "r04_explain event corr =
     (let pod = ev_name event; ns = ev_namespace event; deploy = first_related corr;
          trigger = event_item event
            (''Pod '' @ pod @ '' failed to pull image '' @ count_text event @ '': ''
             @ take 300 (ev_message event));
          stuck = ''Pod '' @ pod @ '' cannot pull its image. '';
          (evidence, cause) =
            (case co_changes corr of
               fc # fcs \<Rightarrow>
                 let latest = latest_change fc fcs in
                 ([trigger, change_item latest
                     (''Image/secret field changed on '' @ name_or ''deployment'' deploy @ '': ''
                      @ change_text latest)],
                  stuck @ ''Image was recently changed on '' @ name_or ''the deployment'' deploy
                  @ '' from '' @ str_opt (fc_old latest) @ '' to '' @ str_opt (fc_new latest)
                  @ ''. The new tag may be invalid or the registry may be unreachable.'')
             | [] \<Rightarrow>
                 ([trigger],
                  stuck @ ''No recent image change detected. ''
                  @ ''Check that the image tag exists and registry credentials are valid.''))
      in \<lparr>rr_rule_id = ''R04_image_pull'', rr_root_cause = cause,
          rr_confidence = compute_confidence r04_base corr event, rr_evidence = evidence,
          rr_affected = pod_affected event # deployment_affected deploy,
          rr_remediation =
            ''Verify the image tag exists in the registry. ''
            @ ''Check imagePullSecrets are correct for deployment '' @ name_or pod deploy
            @ ''. Inspect pod events: `kubectl describe pod '' @ pod @ '' -n '' @ ns @ ''`.''\<rparr>)"

definition r04_rule :: rule where
  "r04_rule =
     \<lparr>ru_id = ''R04_image_pull'', ru_display_name = ''ImagePullBackOff'', ru_priority = 15,
      ru_base = r04_base, ru_dependencies = [''Pod'', ''Deployment'', ''ReplicaSet''],
      ru_paths = [''spec.template.spec.containers''],
      ru_match = (\<lambda>event. Inr (r04_match event)),
      ru_correlate = (\<lambda>now l event c. (Inr (r04_correlate now l event c), c)),
      ru_explain = (\<lambda>event corr. Inr (r04_explain event corr))\<rparr>"

subsection \<open>R05 HPA misbehavior\<close>

definition HPA_FAILURE_REASONS :: "str list" where
  "HPA_FAILURE_REASONS =
     [''FailedScale'', ''DesiredReplicasComputed'', ''FailedGetScale'', ''FailedComputeMetricsReplicas'',
      ''FailedGetResourceMetric'', ''FailedGetExternalMetric'', ''FailedGetPodsMetric'',
      ''FailedGetContainerResource'', ''FailedGetObjectMetric'', ''BackoffLimitExceeded'']"

definition RE_HPA_FAIL :: regex where
  "RE_HPA_FAIL =
     r_seqs [r_ilit ''failed'', RStar (RSet not_newline),
       RGroup 1 (r_alts [r_ilit ''scale'', r_ilit ''metric'', r_ilit ''replicas'', r_ilit ''compute''])]"

definition is_hpa_relevant :: "field_change \<Rightarrow> bool" where
  "is_hpa_relevant fc \<longleftrightarrow> path_has [''minreplicas'', ''maxreplicas'', ''metrics'', ''scaledup''] fc"

definition r05_match :: "event_record \<Rightarrow> bool" where
  "r05_match event \<longleftrightarrow>
     (if ev_reason event \<in> set HPA_FAILURE_REASONS then True
      else if ev_kind event = ''HorizontalPodAutoscaler'' then re_found RE_HPA_FAIL (ev_message event)
      else False)"

definition r05_correlate ::
  "instant \<Rightarrow> ledger \<Rightarrow> event_record \<Rightarrow> rcache \<Rightarrow> correlation \<times> rcache" where
  "r05_correlate now l event c =
     (let ns = ev_namespace event; hpa_name = ev_name event;
          (hpa, c1) = cache_get now ''HorizontalPodAutoscaler'' ns hpa_name c
      in case hpa of
           None \<Rightarrow> (\<lparr>co_changes = [], co_related = [], co_objects = 1\<rparr>, c1)
         | Some v \<Rightarrow>
             let changes = filter is_hpa_relevant (recent_diff now l ''HorizontalPodAutoscaler'' ns hpa_name)
             in case vget (PDict []) (vw_spec v) ''scaleTargetRef'' of
                  PDict target \<Rightarrow>
                    (case vget PNone target ''name'' of
                       PStr name \<Rightarrow>
                         if name \<noteq> [] then
                           let kind = py_str (vget (PStr ''Deployment'') target ''kind'');
                               (deploy, c2) = cache_get now kind ns name c1
                           in (\<lparr>co_changes = changes,
                                co_related = v # (case deploy of None \<Rightarrow> [] | Some d \<Rightarrow> [d]),
                                co_objects = 3\<rparr>, c2)
                         else (\<lparr>co_changes = changes, co_related = [v], co_objects = 2\<rparr>, c1)
                     | _ \<Rightarrow> (\<lparr>co_changes = changes, co_related = [v], co_objects = 2\<rparr>, c1))
                | _ \<Rightarrow> (\<lparr>co_changes = changes, co_related = [v], co_objects = 2\<rparr>, c1))"

definition r05_base :: dbl where "r05_base = dlit 50 100"

definition r05_explain :: "event_record \<Rightarrow> correlation \<Rightarrow> rule_result" where
  "r05_explain event corr =
     (let hpa = ev_name event;
          trigger = event_item event
            (''HPA '' @ hpa @ '' scaling failure '' @ count_text event @ '': '' @ take 300 (ev_message event));
          others = filter (\<lambda>r. vw_kind r \<noteq> ev_kind event \<or> vw_name r \<noteq> ev_name event) (co_related corr);
          failing = ''HPA '' @ hpa @ '' is failing to scale. '';
          (evidence, cause) =
            (case co_changes corr of
               fc # fcs \<Rightarrow>
                 let latest = latest_change fc fcs in
                 ([trigger, change_item latest (''HPA spec changed: '' @ change_text latest)],
                  failing @ ''A recent HPA configuration change at '' @ sq (fc_path latest)
                  @ '' may be contributing to the issue.'')
             | [] \<Rightarrow>
                 ([trigger],
                  failing @ ''Check that the target metric is available and the HPA ''
                  @ ''min/max replica bounds are correct.''))
      in \<lparr>rr_rule_id = ''R05_hpa_misbehavior'', rr_root_cause = cause,
          rr_confidence = compute_confidence r05_base corr event, rr_evidence = evidence,
          rr_affected = affected (ev_kind event) (ev_namespace event) hpa
            # map (\<lambda>r. affected (vw_kind r) (vw_namespace r) (vw_name r)) others,
          rr_remediation =
            ''Inspect the HPA status: `kubectl describe hpa '' @ hpa @ '' -n '' @ ev_namespace event
            @ ''`. Verify the metrics server is available and the scale target exists.''\<rparr>)"

definition r05_rule :: rule where
  "r05_rule =
     \<lparr>ru_id = ''R05_hpa_misbehavior'', ru_display_name = ''HPA Misbehavior'', ru_priority = 30,
      ru_base = r05_base, ru_dependencies = [''HorizontalPodAutoscaler'', ''Deployment''],
      ru_paths = [''spec''],
      ru_match = (\<lambda>event. Inr (r05_match event)),
      ru_correlate = (\<lambda>now l event c. (Inr (fst (r05_correlate now l event c)), snd (r05_correlate now l event c))),
      ru_explain = (\<lambda>event corr. Inr (r05_explain event corr))\<rparr>"

subsection \<open>R06 Service unreachable\<close>

definition RE_UNREACHABLE :: regex where
  "RE_UNREACHABLE =
     RGroup 1 (r_alts [r_ilit ''connection refused'', r_ilit ''endpoint not ready'', r_ilit ''no endpoints'',
       r_ilit ''service unavailable'',
       r_seqs [r_ilit ''dial tcp'', RStar (RSet not_newline), r_ilit ''i/o timeout'']])"

definition is_service_relevant :: "field_change \<Rightarrow> bool" where
  "is_service_relevant fc \<longleftrightarrow> path_has [''selector'', ''ports'', ''networkpolicy'', ''ingress'', ''egress''] fc"

definition r06_match :: "event_record \<Rightarrow> bool" where
  "r06_match event \<longleftrightarrow>
     (if ev_reason event \<in> {''FailedSync'', ''NetworkNotReady'', ''NotReady''} then True
      else re_found RE_UNREACHABLE (ev_message event))"

definition r06_correlate ::
  "instant \<Rightarrow> ledger \<Rightarrow> event_record \<Rightarrow> rcache \<Rightarrow> correlation \<times> rcache" where
  "r06_correlate now l event c =
     (let ns = ev_namespace event;
          (direct, c1) = cache_get now ''Service'' ns (ev_name event) c;
          services = cache_list c1 ''Service'' ns;
          (service, queried) =
            (case direct of
               Some s \<Rightarrow> (Some s, 1)
             | None \<Rightarrow> (List.find (\<lambda>svc. startswith (ev_name event) (vw_name svc)) services,
                        1 + length services))
      in case service of
           None \<Rightarrow> (\<lparr>co_changes = [], co_related = [], co_objects = queried\<rparr>, c1)
         | Some s \<Rightarrow>
             (\<lparr>co_changes = filter is_service_relevant (recent_diff now l ''Service'' ns (vw_name s)),
               co_related = [s], co_objects = queried + 1\<rparr>, c1))"

definition r06_base :: dbl where "r06_base = dlit 50 100"

definition r06_explain :: "event_record \<Rightarrow> correlation \<Rightarrow> rule_result" where
  "r06_explain event corr =
     (let ns = ev_namespace event; service = first_related corr; svc_name = name_or (ev_name event) service;
          trigger = event_item event
            (''Service/endpoint unreachable for '' @ ev_name event @ '' '' @ count_text event @ '': ''
             @ take 300 (ev_message event));
          extra = (case service of
              Some s \<Rightarrow> if vw_name s \<noteq> ev_name event
                then [affected ''Service'' (vw_namespace s) (vw_name s)] else []
            | None \<Rightarrow> []);
          (evidence, cause) =
            (case co_changes corr of
               fc # fcs \<Rightarrow>
                 let latest = latest_change fc fcs in
                 ([trigger, change_item latest (''Service field changed: '' @ change_text latest)],
                  ''Service '' @ svc_name @ '' is unreachable. A recent change to '' @ sq (fc_path latest)
                  @ '' may have broken endpoint routing.'')
             | [] \<Rightarrow>
                 ([trigger],
                  ''Service '' @ ev_name event @ '' is unreachable. ''
                  @ ''No recent selector or port changes detected. ''
                  @ ''Check that backing pods are ready and NetworkPolicies permit traffic.''))
      in \<lparr>rr_rule_id = ''R06_service_unreachable'', rr_root_cause = cause,
          rr_confidence = compute_confidence r06_base corr event, rr_evidence = evidence,
          rr_affected = affected (ev_kind event) ns (ev_name event) # extra,
          rr_remediation =
            ''Check endpoint readiness: `kubectl get endpoints -n '' @ ns
            @ ''`. Verify the Service selector matches pod labels: `kubectl describe service ''
            @ svc_name @ '' -n '' @ ns @ ''`.''\<rparr>)"

definition r06_rule :: rule where
  "r06_rule =
     \<lparr>ru_id = ''R06_service_unreachable'', ru_display_name = ''Service Unreachable'', ru_priority = 25,
      ru_base = r06_base, ru_dependencies = [''Service'', ''Pod'', ''Endpoints''],
      ru_paths = [''spec.selector'', ''spec.ports''],
      ru_match = (\<lambda>event. Inr (r06_match event)),
      ru_correlate = (\<lambda>now l event c. (Inr (fst (r06_correlate now l event c)), snd (r06_correlate now l event c))),
      ru_explain = (\<lambda>event corr. Inr (r06_explain event corr))\<rparr>"

subsection \<open>R07 Config drift\<close>

definition RE_CONFIG_MENTION :: regex where
  "RE_CONFIG_MENTION =
     r_alts [r_ilit ''configmap'', r_ilit ''config map'', r_ilit ''secret'', r_ilit ''configuration'']"

definition is_config_change :: "field_change \<Rightarrow> bool" where
  "is_config_change fc \<longleftrightarrow> path_has [''configmap'', ''secret'', ''data''] fc"

definition r07_match :: "event_record \<Rightarrow> bool" where
  "r07_match event \<longleftrightarrow>
     (if ev_reason event \<in> {''BackOff'', ''Failed'', ''FailedMount'', ''Unhealthy''}
      then re_found RE_CONFIG_MENTION (ev_message event) else False)"

text \<open>
  What iterating over \<open>envFrom or []\<close> yields: \<open>None\<close> is the \<open>TypeError\<close> of a number, which ends the
  whole scan; the items of a text or the keys of a dict are no dicts and are passed over.
\<close>

definition env_sources :: "pyval \<Rightarrow> pyval list option" where
  "env_sources env_from =
     (if \<not> truthy env_from then Some []
      else case env_from of
          PList xs \<Rightarrow> Some xs
        | PStr s \<Rightarrow> Some []
        | PDict d \<Rightarrow> Some []
        | _ \<Rightarrow> None)"

fun config_refs :: "pyval list \<Rightarrow> str list" where
  "config_refs [] = []"
| "config_refs (container # rest) =
     (case container of
        PDict d \<Rightarrow>
          (case env_sources (vget PNone d ''envFrom'') of
             None \<Rightarrow> []
           | Some xs \<Rightarrow> concat (map config_map_name xs) @ config_refs rest)
      | _ \<Rightarrow> config_refs rest)"

definition visit_config_map ::
  "instant \<Rightarrow> ledger \<Rightarrow> str \<Rightarrow> str \<Rightarrow> correlation \<times> rcache \<Rightarrow> correlation \<times> rcache" where
  "visit_config_map now l ns cm_name st =
     (let (corr, c) = st; (cm, c1) = cache_get now ''ConfigMap'' ns cm_name c in
      (\<lparr>co_changes = co_changes corr @ filter is_config_change (recent_diff now l ''ConfigMap'' ns cm_name),
        co_related = co_related corr @ (case cm of None \<Rightarrow> [] | Some v \<Rightarrow> [v]),
        co_objects = co_objects corr + 2\<rparr>, c1))"

definition r07_correlate ::
  "instant \<Rightarrow> ledger \<Rightarrow> event_record \<Rightarrow> rcache \<Rightarrow> correlation \<times> rcache" where
  "r07_correlate now l event c =
     (let ns = ev_namespace event;
          listed = listed_count c ''ReplicaSet'' ns + listed_count c ''Deployment'' ns
      in case find_deployment_any (ev_name event) ns c of
           None \<Rightarrow> (\<lparr>co_changes = [], co_related = [], co_objects = listed\<rparr>, c)
         | Some d \<Rightarrow>
             fold (visit_config_map now l ns) (config_refs (list_or_empty (template_containers d)))
               (\<lparr>co_changes = [], co_related = [d], co_objects = listed\<rparr>, c))"

definition r07_base :: dbl where "r07_base = dlit 55 100"

definition last_of_kind :: "str \<Rightarrow> correlation \<Rightarrow> resource_view option" where
  "last_of_kind kind corr = List.find (\<lambda>r. vw_kind r = kind) (rev (co_related corr))"

definition affected_of_kind :: "str \<Rightarrow> correlation \<Rightarrow> affected_resource list" where
  "affected_of_kind kind corr =
     map (\<lambda>r. affected kind (vw_namespace r) (vw_name r)) (filter (\<lambda>r. vw_kind r = kind) (co_related corr))"

definition r07_explain :: "event_record \<Rightarrow> correlation \<Rightarrow> rule_result" where
  "r07_explain event corr =
     (let pod = ev_name event; ns = ev_namespace event; deploy = last_of_kind ''Deployment'' corr;
          trigger = event_item event
            (''Pod '' @ pod @ '' failed with config-related message '' @ count_text event @ '': ''
             @ take 300 (ev_message event));
          (evidence, cause) =
            (case co_changes corr of
               fc # fcs \<Rightarrow>
                 let latest = latest_change fc fcs in
                 ([trigger, change_item latest (''ConfigMap/Secret change detected: '' @ change_text latest)],
                  ''Pod '' @ pod @ '' failed after a configuration change. Field '' @ sq (fc_path latest)
                  @ '' was modified at '' @ isoformat (fc_at latest) @ ''.'')
             | [] \<Rightarrow>
                 ([trigger],
                  ''Pod '' @ pod @ '' failed with a configuration-related error. ''
                  @ ''No recent ConfigMap/Secret changes detected in the 2-hour window.''))
      in \<lparr>rr_rule_id = ''R07_config_drift'', rr_root_cause = cause,
          rr_confidence = compute_confidence r07_base corr event, rr_evidence = evidence,
          rr_affected = pod_affected event # affected_of_kind ''Deployment'' corr,
          rr_remediation =
            ''Review recent ConfigMap/Secret changes: `kubectl get configmap -n '' @ ns
            @ ''`. Roll back deployment '' @ name_or pod deploy
            @ '' if a bad config was applied: `kubectl rollout undo deployment/'' @ name_or pod deploy
            @ '' -n '' @ ns @ ''`.''\<rparr>)"

definition r07_rule :: rule where
  "r07_rule =
     \<lparr>ru_id = ''R07_config_drift'', ru_display_name = ''Config Drift'', ru_priority = 20,
      ru_base = r07_base, ru_dependencies = [''Pod'', ''Deployment'', ''ConfigMap''],
      ru_paths = [''spec.template.spec.containers''],
      ru_match = (\<lambda>event. Inr (r07_match event)),
      ru_correlate = (\<lambda>now l event c. (Inr (fst (r07_correlate now l event c)), snd (r07_correlate now l event c))),
      ru_explain = (\<lambda>event corr. Inr (r07_explain event corr))\<rparr>"

subsection \<open>R08 Volume mount\<close>

definition name_char :: "char \<Rightarrow> bool" where
  "name_char c \<longleftrightarrow> word_char c \<or> c = CHR ''-''"

text \<open>\<open>pvc[- /]?"?([\w-]+)"?|persistentvolumeclaim["/ ]([\w-]+)\<close>, also the pattern of R13.\<close>

definition RE_PVC_NAME :: regex where
  "RE_PVC_NAME =
     r_alts [
       r_seqs [r_ilit ''pvc'', r_opt (RSet (\<lambda>c. c \<in> set ''- /'')), r_opt (RSet (\<lambda>c. c = dquote)),
         RGroup 1 (r_plus (RSet name_char)), r_opt (RSet (\<lambda>c. c = dquote))],
       r_seqs [r_ilit ''persistentvolumeclaim'', RSet (\<lambda>c. c = dquote \<or> c \<in> set ''/ ''),
         RGroup 2 (r_plus (RSet name_char))]]"

definition extract_pvc_name :: "str \<Rightarrow> str option" where
  "extract_pvc_name message =
     (case re_search RE_PVC_NAME message of None \<Rightarrow> None | Some st \<Rightarrow> group_or 1 2 st)"

definition is_volume_relevant :: "field_change \<Rightarrow> bool" where
  "is_volume_relevant fc \<longleftrightarrow> path_has [''volume'', ''pvc'', ''storageclass'', ''accessmode''] fc"

definition r08_match :: "event_record \<Rightarrow> bool" where
  "r08_match event \<longleftrightarrow> ev_reason event \<in> {''FailedMount'', ''FailedAttachVolume''}"

definition bound :: "resource_view \<Rightarrow> bool" where
  "bound pvc \<longleftrightarrow> phase_is (PStr ''Bound'') ''Bound'' pvc"

text \<open>The unbound claims of the namespace that are not yet in the list.\<close>

definition add_unbound :: "resource_view \<Rightarrow> resource_view list \<Rightarrow> resource_view list" where
  "add_unbound pvc related = (if \<not> bound pvc \<and> pvc \<notin> set related then related @ [pvc] else related)"

definition r08_correlate ::
  "instant \<Rightarrow> ledger \<Rightarrow> event_record \<Rightarrow> rcache \<Rightarrow> correlation \<times> rcache" where
  "r08_correlate now l event c =
     (let ns = ev_namespace event;
          (related, changes, queried, c1) =
            (case extract_pvc_name (ev_message event) of
               None \<Rightarrow> ([], [], 0, c)
             | Some pvc_name \<Rightarrow>
                 if pvc_name = [] then ([], [], 0, c)
                 else
                   let (pvc, c1) = cache_get now ''PersistentVolumeClaim'' ns pvc_name c in
                   (case pvc of
                      None \<Rightarrow> ([], [], 1, c1)
                    | Some v \<Rightarrow>
                        ([v], filter is_volume_relevant
                           (recent_diff now l ''PersistentVolumeClaim'' ns pvc_name), 2, c1)));
          all_pvcs = cache_list c1 ''PersistentVolumeClaim'' ns
      in (\<lparr>co_changes = changes, co_related = fold add_unbound all_pvcs related,
           co_objects = queried + length all_pvcs\<rparr>, c1))"

definition unbound_claims :: "correlation \<Rightarrow> str list" where
  "unbound_claims corr =
     map vw_name (filter (\<lambda>r. vw_kind r = ''PersistentVolumeClaim'' \<and> \<not> bound r) (co_related corr))"

definition r08_base :: dbl where "r08_base = dlit 60 100"

definition r08_explain :: "event_record \<Rightarrow> correlation \<Rightarrow> rule_result" where
  "r08_explain event corr =
     (let pod = ev_name event; ns = ev_namespace event; unbound_pvcs = unbound_claims corr;
          trigger = event_item event
            (''Pod '' @ pod @ '' failed to mount/attach volume '' @ count_text event @ '': ''
             @ take 300 (ev_message event));
          (evidence, cause) =
            (if unbound_pvcs \<noteq> [] then
               ([trigger], ''Pod '' @ pod @ '' cannot mount volume: PVC(s) '' @ join '', '' unbound_pvcs
                @ '' are not bound.'')
             else case co_changes corr of
               fc # fcs \<Rightarrow>
                 let latest = latest_change fc fcs in
                 ([trigger, change_item latest (''Volume field changed: '' @ change_text latest)],
                  ''Pod '' @ pod @ '' failed to mount volume after a recent change to ''
                  @ sq (fc_path latest) @ ''.'')
             | [] \<Rightarrow>
                 ([trigger],
                  ''Pod '' @ pod @ '' failed to mount/attach volume. ''
                  @ ''Check PVC binding status and StorageClass availability.''))
      in \<lparr>rr_rule_id = ''R08_volume_mount'', rr_root_cause = cause,
          rr_confidence = compute_confidence r08_base corr event, rr_evidence = evidence,
          rr_affected = pod_affected event # affected_of_kind ''PersistentVolumeClaim'' corr,
          rr_remediation =
            ''Check PVC status: `kubectl get pvc -n '' @ ns
            @ ''`. Verify the StorageClass exists: `kubectl get storageclass`. ''
            @ ''Inspect pod events: `kubectl describe pod '' @ pod @ '' -n '' @ ns @ ''`.''\<rparr>)"

definition r08_rule :: rule where
  "r08_rule =
     \<lparr>ru_id = ''R08_volume_mount'', ru_display_name = ''Volume Mount Failure'', ru_priority = 20,
      ru_base = r08_base, ru_dependencies = [''Pod'', ''PersistentVolumeClaim''],
      ru_paths = [''spec.volumes'', ''spec.template.spec.volumes''],
      ru_match = (\<lambda>event. Inr (r08_match event)),
      ru_correlate = (\<lambda>now l event c. (Inr (fst (r08_correlate now l event c)), snd (r08_correlate now l event c))),
      ru_explain = (\<lambda>event corr. Inr (r08_explain event corr))\<rparr>"

subsection \<open>R09 Node pressure\<close>

definition PRESSURE_REASONS :: "str list" where
  "PRESSURE_REASONS =
     [''NodeHasInsufficientMemory'', ''NodeHasInsufficientDisk'', ''NodeHasDiskPressure'',
      ''NodeHasMemoryPressure'', ''MemoryPressure'', ''DiskPressure'', ''PIDPressure'']"

definition is_pressure_relevant :: "field_change \<Rightarrow> bool" where
  "is_pressure_relevant fc \<longleftrightarrow> path_has [''resources.requests'', ''resources.limits'', ''conditions''] fc"

definition pressure_type :: "str \<Rightarrow> str" where
  "pressure_type reason =
     (let r = lower reason in
      if str_in ''memory'' r then ''memory'' else if str_in ''disk'' r then ''disk''
      else if str_in ''pid'' r then ''PID'' else ''resource'')"

definition r09_match :: "event_record \<Rightarrow> bool" where
  "r09_match event \<longleftrightarrow> ev_reason event \<in> set PRESSURE_REASONS"

definition r09_correlate ::
  "instant \<Rightarrow> ledger \<Rightarrow> event_record \<Rightarrow> rcache \<Rightarrow> correlation \<times> rcache" where
  "r09_correlate now l event c =
     (let (node, c1) = cache_get now ''Node'' [] (ev_name event) c;
          (related, changes, queried) =
            (case node of
               None \<Rightarrow> ([], [], 1)
             | Some v \<Rightarrow> ([v], filter is_pressure_relevant (recent_diff now l ''Node'' [] (ev_name event)), 2));
          all_pods = cache_list c1 ''Pod'' (ev_namespace event);
          node_pods = filter (\<lambda>p. vget PNone (vw_spec p) ''nodeName'' = PStr (ev_name event)) all_pods
      in (\<lparr>co_changes = changes, co_related = related @ take 10 node_pods,
           co_objects = queried + length all_pods\<rparr>, c1))"

definition r09_base :: dbl where "r09_base = dlit 55 100"

definition r09_explain :: "event_record \<Rightarrow> correlation \<Rightarrow> rule_result" where
  "r09_explain event corr =
     (let node = ev_name event; pressure = pressure_type (ev_reason event);
          trigger = event_item event
            (''Node '' @ node @ '' has '' @ pressure @ '' pressure '' @ count_text event @ '': ''
             @ take 300 (ev_message event));
          pods = show_nat (length (names_of_kind ''Pod'' corr)) @ '' pod(s) are running on this node'';
          under = ''Node '' @ node @ '' is under '' @ pressure @ '' pressure. '';
          (evidence, cause) =
            (case co_changes corr of
               fc # fcs \<Rightarrow>
                 let latest = latest_change fc fcs in
                 ([trigger, change_item latest (''Node condition changed: '' @ change_text latest)],
                  under @ ''Condition changed at '' @ isoformat (fc_at latest) @ ''. '' @ pods @ ''.'')
             | [] \<Rightarrow>
                 ([trigger], under @ pods @ '' and may be consuming excessive '' @ pressure @ ''.''))
      in \<lparr>rr_rule_id = ''R09_node_pressure'', rr_root_cause = cause,
          rr_confidence = compute_confidence r09_base corr event, rr_evidence = evidence,
          rr_affected = [affected ''Node'' [] node],
          rr_remediation =
            ''Check node capacity: `kubectl describe node '' @ node @ ''`. Identify high-'' @ pressure
            @ '' pods: `kubectl top pods --sort-by='' @ pressure
            @ ''`. Consider evicting pods or adding node capacity.''\<rparr>)"

definition r09_rule :: rule where
  "r09_rule =
     \<lparr>ru_id = ''R09_node_pressure'', ru_display_name = ''Node Pressure'', ru_priority = 15,
      ru_base = r09_base, ru_dependencies = [''Node'', ''Pod''],
      ru_paths = [''spec.template.spec.containers''],
      ru_match = (\<lambda>event. Inr (r09_match event)),
      ru_correlate = (\<lambda>now l event c. (Inr (fst (r09_correlate now l event c)), snd (r09_correlate now l event c))),
      ru_explain = (\<lambda>event corr. Inr (r09_explain event corr))\<rparr>"

subsection \<open>R10 Readiness probe\<close>

definition PROBE_MIN_COUNT :: int where "PROBE_MIN_COUNT = 3"

definition is_probe_relevant :: "field_change \<Rightarrow> bool" where
  "is_probe_relevant fc \<longleftrightarrow> path_has [''readinessprobe'', ''readiness_probe''] fc"

definition probe_details :: "resource_view \<Rightarrow> str" where
  "probe_details deployment =
     (case template_containers deployment of
        PList (PDict first # _) \<Rightarrow>
          (case vget (PDict []) first ''readinessProbe'' of
             PDict probe \<Rightarrow>
               (case vget (PDict []) probe ''httpGet'' of
                  PDict http \<Rightarrow>
                    ''httpGet path='' @ py_str (vget PNone http ''path'') @ '' port=''
                    @ py_str (vget PNone http ''port'')
                | _ \<Rightarrow>
                    (case vget (PDict []) probe ''tcpSocket'' of
                       PDict tcp \<Rightarrow> ''tcpSocket port='' @ py_str (vget PNone tcp ''port'')
                     | _ \<Rightarrow>
                         (case vget (PDict []) probe ''exec'' of
                            PDict exec_probe \<Rightarrow> ''exec command='' @ py_str (vget PNone exec_probe ''command'')
                          | _ \<Rightarrow> ''<unknown probe config>'')))
           | _ \<Rightarrow> ''<unknown probe config>'')
      | _ \<Rightarrow> ''<unknown probe config>'')"

definition r10_match :: "event_record \<Rightarrow> bool" where
  "r10_match event \<longleftrightarrow>
     (if ev_reason event \<notin> {''Unhealthy'', ''ProbeError'', ''ProbeWarning''} then False
      else if ev_count event < PROBE_MIN_COUNT then False
      else re_found (r_ilit ''readiness probe'') (ev_message event))"

definition r10_correlate :: "instant \<Rightarrow> ledger \<Rightarrow> event_record \<Rightarrow> rcache \<Rightarrow> correlation" where
  "r10_correlate = owned_correlation is_probe_relevant find_deployment_any"

definition r10_base :: dbl where "r10_base = dlit 50 100"

definition r10_explain :: "event_record \<Rightarrow> correlation \<Rightarrow> rule_result" where
  "r10_explain event corr =
     (let pod = ev_name event; ns = ev_namespace event; deploy = first_related corr;
          trigger = event_item event
            (''Pod '' @ pod @ '' readiness probe failing '' @ count_text event @ '': ''
             @ take 300 (ev_message event));
          failing = ''Pod '' @ pod @ '' readiness probe is failing repeatedly '' @ count_text event @ ''. '';
          (evidence, cause) =
            (case co_changes corr of
               fc # fcs \<Rightarrow>
                 let latest = latest_change fc fcs in
                 ([trigger, change_item latest (''Readiness probe config changed: '' @ change_text latest)],
                  failing @ ''Probe configuration was recently changed: '' @ sq (fc_path latest)
                  @ '' updated at '' @ isoformat (fc_at latest) @ ''.'')
             | [] \<Rightarrow>
                 ([trigger],
                  failing @ ''No recent probe configuration change detected. Current probe: ''
                  @ (case deploy of Some d \<Rightarrow> probe_details d | None \<Rightarrow> ''<unknown>'')
                  @ ''. The application may not be ready at the configured probe endpoint.''))
      in \<lparr>rr_rule_id = ''R10_readiness_probe'', rr_root_cause = cause,
          rr_confidence = compute_confidence r10_base corr event, rr_evidence = evidence,
          rr_affected = pod_affected event # deployment_affected deploy,
          rr_remediation =
            ''Inspect probe failure details: `kubectl describe pod '' @ pod @ '' -n '' @ ns
            @ ''`. Verify the readiness probe endpoint is accessible inside the container. ''
            @ ''Consider increasing probe timeoutSeconds/failureThreshold for deployment ''
            @ name_or pod deploy @ ''.''\<rparr>)"

definition r10_rule :: rule where
  "r10_rule =
     \<lparr>ru_id = ''R10_readiness_probe'', ru_display_name = ''Readiness Probe Failure'', ru_priority = 30,
      ru_base = r10_base, ru_dependencies = [''Pod'', ''Deployment'', ''ReplicaSet''],
      ru_paths = [''spec.template.spec.containers''],
      ru_match = (\<lambda>event. Inr (r10_match event)),
      ru_correlate = (\<lambda>now l event c. (Inr (r10_correlate now l event c), c)),
      ru_explain = (\<lambda>event corr. Inr (r10_explain event corr))\<rparr>"

subsection \<open>The contract\<close>

lemma r04_contract: "rca_rule r04_rule"
proof (rule pure_rule_contract)
  show "corr_ok now l (r04_correlate now l event c)" for now l event c
    unfolding r04_correlate_def by (intro owned_correlation_ok find_deployment_any_clean)
  show "rc_store c = rc_store c' \<Longrightarrow> r04_correlate now l event c = r04_correlate now l event c'"
    for now l event c c'
    unfolding r04_correlate_def by (intro owned_correlation_cong find_deployment_any_cong)
  show "result_ok r04_rule event corr (r04_explain event corr)" for event corr
    by (rule result_okI [of _ _ 60])
       (auto simp: r04_rule_def r04_explain_def r04_base_def Let_def split: list.splits)
qed (simp_all add: r04_rule_def)

lemma cache_get_pair:
  "cache_get now k n m c = (map_option redacted_view (store_get (rc_store c) k n m),
     record_access now (store_get (rc_store c) k n m \<noteq> None) c)"
  by (simp add: cache_get_def split: option.splits)

lemma r05_contract: "rca_rule r05_rule"
proof (rule reading_rule_contract)
  show "corr_ok now l (fst (r05_correlate now l event c))" for now l event c
    by (auto simp: r05_correlate_def cache_get_pair redacted_view_clean Let_def intro!: corr_okI
        split: option.splits pyval.splits)
  show "rc_store (snd (r05_correlate now l event c)) = rc_store c" for now l event c
    by (simp add: r05_correlate_def cache_get_pair Let_def split: option.splits pyval.splits)
  show "rc_store c = rc_store c' \<Longrightarrow> fst (r05_correlate now l event c) = fst (r05_correlate now l event c')"
    for now l event c c'
    by (simp add: r05_correlate_def cache_get_pair Let_def split: option.splits pyval.splits)
  show "result_ok r05_rule event corr (r05_explain event corr)" for event corr
    by (rule result_okI [of _ _ 50])
       (auto simp: r05_rule_def r05_explain_def r05_base_def Let_def split: list.splits)
qed (simp_all add: r05_rule_def)

lemma r06_contract: "rca_rule r06_rule"
proof (rule reading_rule_contract)
  show "corr_ok now l (fst (r06_correlate now l event c))" for now l event c
    by (auto simp: r06_correlate_def cache_get_pair redacted_view_clean Let_def intro!: corr_okI
        dest!: find_SomeD intro: cache_list_clean split: option.splits)
  show "rc_store (snd (r06_correlate now l event c)) = rc_store c" for now l event c
    by (simp add: r06_correlate_def cache_get_pair Let_def split: option.splits prod.splits)
  show "fst (r06_correlate now l event c) = fst (r06_correlate now l event c')"
    if "rc_store c = rc_store c'" for now l event c c'
    using that cache_list_cong [of "record_access now b c" "record_access now b c'" for b]
    by (simp add: r06_correlate_def cache_get_pair Let_def split: option.splits prod.splits)
  show "result_ok r06_rule event corr (r06_explain event corr)" for event corr
    by (rule result_okI [of _ _ 50])
       (auto simp: r06_rule_def r06_explain_def r06_base_def Let_def split: list.splits)
qed (simp_all add: r06_rule_def)

lemma visit_config_map_ok:
  assumes "corr_ok now l (fst st)"
  shows "corr_ok now l (fst (visit_config_map now l ns name st))
    \<and> rc_store (snd (visit_config_map now l ns name st)) = rc_store (snd st)"
  using assms
  by (auto simp: visit_config_map_def cache_get_pair corr_ok_def list_all_iff redacted_view_clean
      split: prod.splits option.splits)

lemma visit_config_maps_ok:
  assumes "corr_ok now l (fst st)"
  shows "corr_ok now l (fst (fold (visit_config_map now l ns) names st))
    \<and> rc_store (snd (fold (visit_config_map now l ns) names st)) = rc_store (snd st)"
  using assms
proof (induction names arbitrary: st)
  case (Cons a names)
  show ?case
    using Cons.IH [of "visit_config_map now l ns a st"] visit_config_map_ok [OF Cons.prems, of ns a]
    by simp
qed simp

lemma visit_config_map_cong:
  assumes "fst st = fst st'" and "rc_store (snd st) = rc_store (snd st')"
  shows "fst (visit_config_map now l ns name st) = fst (visit_config_map now l ns name st')"
    and "rc_store (snd (visit_config_map now l ns name st)) =
      rc_store (snd (visit_config_map now l ns name st'))"
  using assms
  by (cases st; cases st'; simp add: visit_config_map_def cache_get_pair split: option.split)+

lemma visit_config_maps_cong:
  assumes "fst st = fst st'" and "rc_store (snd st) = rc_store (snd st')"
  shows "fst (fold (visit_config_map now l ns) names st) =
    fst (fold (visit_config_map now l ns) names st')"
  using assms
proof (induction names arbitrary: st st')
  case (Cons a names)
  show ?case
    using Cons.IH [OF visit_config_map_cong [OF Cons.prems]] by simp
qed simp

lemma r07_contract: "rca_rule r07_rule"
proof (rule reading_rule_contract)
  fix now l and event :: event_record and c
  have start: "corr_ok now l \<lparr>co_changes = [], co_related = [d], co_objects = n\<rparr>"
    if "find_deployment_any (ev_name event) (ev_namespace event) c = Some d" for d n
    using that by (auto intro!: corr_okI intro: find_deployment_any_clean)
  show "corr_ok now l (fst (r07_correlate now l event c))"
    using visit_config_maps_ok start
    by (auto simp: r07_correlate_def Let_def split: option.splits intro!: corr_okI)
  show "rc_store (snd (r07_correlate now l event c)) = rc_store c"
    using visit_config_maps_ok start by (auto simp: r07_correlate_def Let_def split: option.splits)
next
  show "fst (r07_correlate now l event c) = fst (r07_correlate now l event c')"
    if eq: "rc_store c = rc_store c'" for now l event c c'
    unfolding r07_correlate_def Let_def find_deployment_any_cong [OF eq] listed_count_cong [OF eq]
    by (cases "find_deployment_any (ev_name event) (ev_namespace event) c'")
       (simp_all add: visit_config_maps_cong eq)
  show "result_ok r07_rule event corr (r07_explain event corr)" for event corr
    by (rule result_okI [of _ _ 55])
       (auto simp: r07_rule_def r07_explain_def r07_base_def Let_def split: list.splits)
qed (simp_all add: r07_rule_def)

lemma add_unbound_set: "set (fold add_unbound pvcs related) \<subseteq> set related \<union> set pvcs"
proof (induction pvcs arbitrary: related)
  case (Cons a pvcs)
  have "set (add_unbound a related) \<subseteq> insert a (set related)" by (auto simp: add_unbound_def)
  with Cons.IH [of "add_unbound a related"] show ?case by auto
qed simp

lemma r08_contract: "rca_rule r08_rule"
proof (rule reading_rule_contract)
  fix now l and event :: event_record and c
  show "corr_ok now l (fst (r08_correlate now l event c))"
    by (auto simp: r08_correlate_def cache_get_pair redacted_view_clean Let_def intro!: corr_okI
        dest!: subsetD [OF add_unbound_set] intro: cache_list_clean
        split: option.splits prod.splits if_splits)
  show "rc_store (snd (r08_correlate now l event c)) = rc_store c"
    by (auto simp: r08_correlate_def cache_get_pair Let_def split: option.splits prod.splits if_splits)
next
  show "fst (r08_correlate now l event c) = fst (r08_correlate now l event c')"
    if "rc_store c = rc_store c'" for now l event c c'
    using that cache_list_cong [OF that]
      cache_list_cong [of "record_access now b c" "record_access now b c'" for b]
    by (simp add: r08_correlate_def cache_get_pair Let_def split: option.splits prod.splits)
  show "result_ok r08_rule event corr (r08_explain event corr)" for event corr
    by (rule result_okI [of _ _ 60])
       (auto simp: r08_rule_def r08_explain_def r08_base_def Let_def split: list.splits)
qed (simp_all add: r08_rule_def)

lemma r09_contract: "rca_rule r09_rule"
proof (rule reading_rule_contract)
  fix now l and event :: event_record and c
  show "corr_ok now l (fst (r09_correlate now l event c))"
    by (auto simp: r09_correlate_def cache_get_pair redacted_view_clean Let_def intro!: corr_okI
        dest!: in_set_takeD split: option.splits prod.splits)
       (erule cache_list_clean)+
  show "rc_store (snd (r09_correlate now l event c)) = rc_store c"
    by (auto simp: r09_correlate_def cache_get_pair Let_def split: option.splits prod.splits)
next
  show "fst (r09_correlate now l event c) = fst (r09_correlate now l event c')"
    if "rc_store c = rc_store c'" for now l event c c'
    using that cache_list_cong [of "record_access now b c" "record_access now b c'" for b]
    by (simp add: r09_correlate_def cache_get_pair Let_def split: option.splits prod.splits)
  show "result_ok r09_rule event corr (r09_explain event corr)" for event corr
    by (rule result_okI [of _ _ 55])
       (auto simp: r09_rule_def r09_explain_def r09_base_def Let_def split: list.splits)
qed (simp_all add: r09_rule_def)

lemma r10_contract: "rca_rule r10_rule"
proof (rule pure_rule_contract)
  show "corr_ok now l (r10_correlate now l event c)" for now l event c
    unfolding r10_correlate_def by (intro owned_correlation_ok find_deployment_any_clean)
  show "rc_store c = rc_store c' \<Longrightarrow> r10_correlate now l event c = r10_correlate now l event c'"
    for now l event c c'
    unfolding r10_correlate_def by (intro owned_correlation_cong find_deployment_any_cong)
  show "result_ok r10_rule event corr (r10_explain event corr)" for event corr
    by (rule result_okI [of _ _ 50])
       (auto simp: r10_rule_def r10_explain_def r10_base_def Let_def split: list.splits)
qed (simp_all add: r10_rule_def)

interpretation r04: rca_rule r04_rule by (rule r04_contract)
interpretation r05: rca_rule r05_rule by (rule r05_contract)
interpretation r06: rca_rule r06_rule by (rule r06_contract)
interpretation r07: rca_rule r07_rule by (rule r07_contract)
interpretation r08: rca_rule r08_rule by (rule r08_contract)
interpretation r09: rca_rule r09_rule by (rule r09_contract)
interpretation r10: rca_rule r10_rule by (rule r10_contract)

end
