(* ===== verification/RulesTier2b.thy ===== *)
theory RulesTier2b
  imports RulesTier2a
begin

text \<open>
  The tier 2 rules \<open>r11_failedmount_configmap.py\<close> to \<open>r18_claim_lost.py\<close>.  None of them asks the
  ledger, so their correlation carries no change and their confidence never reaches the
  short-circuit band.
\<close>

definition trigger_item :: "event_record \<Rightarrow> str \<Rightarrow> evidence_item" where
  "trigger_item event what =
     event_item event (what @ '' '' @ count_text event @ '': '' @ take 300 (ev_message event))"

definition quiet :: "resource_view list \<Rightarrow> nat \<Rightarrow> correlation" where
  "quiet related queried = \<lparr>co_changes = [], co_related = related, co_objects = queried\<rparr>"

text \<open>\<open>if name: obj = cache.get(kind, namespace, name)\<close>, the lookup of R11 and R12.\<close>

definition named :: "str option \<Rightarrow> bool" where
  "named name = (case name of None \<Rightarrow> False | Some n \<Rightarrow> n \<noteq> [])"

definition or_placeholder :: "str option \<Rightarrow> str" where
  "or_placeholder name = (if named name then the name else ''<name>'')"

definition lookup_named ::
  "instant \<Rightarrow> str \<Rightarrow> str option \<Rightarrow> event_record \<Rightarrow> rcache \<Rightarrow> correlation \<times> rcache" where
  "lookup_named now kind name event c =
     (if \<not> named name then (quiet [] 0, c)
      else
        let (obj, c1) = cache_get now kind (ev_namespace event) (the name) c
        in (quiet (case obj of None \<Rightarrow> [] | Some v \<Rightarrow> [v]) 1, c1))"

definition kind_found :: "str \<Rightarrow> correlation \<Rightarrow> bool" where
  "kind_found kind corr = list_ex (\<lambda>r. vw_kind r = kind) (co_related corr)"

text \<open>\<open>NAME[s]?\s+["']?([\w.-]+)["']?|NAME\s+"?([\w.-]+)"?\s+not found\<close>\<close>

definition quote_char :: "char \<Rightarrow> bool" where
  "quote_char c \<longleftrightarrow> c = dquote \<or> c = squote"

definition object_char :: "char \<Rightarrow> bool" where
  "object_char c \<longleftrightarrow> word_char c \<or> c = CHR ''.'' \<or> c = CHR ''-''"

definition re_object_name :: "str \<Rightarrow> regex" where
  "re_object_name word =
     r_alts [
       r_seqs [r_ilit word, r_opt (r_ilit ''s''), r_plus (RSet is_space), r_opt (RSet quote_char),
         RGroup 1 (r_plus (RSet object_char)), r_opt (RSet quote_char)],
       r_seqs [r_ilit word, r_plus (RSet is_space), r_opt (RSet (\<lambda>c. c = dquote)),
         RGroup 2 (r_plus (RSet object_char)), r_opt (RSet (\<lambda>c. c = dquote)),
         r_plus (RSet is_space), r_ilit ''not found'']]"

definition extract_object_name :: "str \<Rightarrow> str \<Rightarrow> str option" where
  "extract_object_name word message =
     (case re_search (re_object_name word) message of None \<Rightarrow> None | Some st \<Rightarrow> group_or 1 2 st)"

subsection \<open>R11 FailedMount, ConfigMap not found\<close>

definition extract_configmap_name :: "str \<Rightarrow> str option" where
  "extract_configmap_name = extract_object_name ''configmap''"

definition r11_match :: "event_record \<Rightarrow> bool" where
  "r11_match event \<longleftrightarrow>
     (if ev_reason event \<noteq> ''FailedMount'' then False
      else str_in ''configmap'' (lower (ev_message event)))"

definition r11_correlate ::
  "instant \<Rightarrow> ledger \<Rightarrow> event_record \<Rightarrow> rcache \<Rightarrow> correlation \<times> rcache" where
  "r11_correlate now l event c =
     lookup_named now ''ConfigMap'' (extract_configmap_name (ev_message event)) event c"

definition r11_base :: dbl where "r11_base = dlit 60 100"

definition r11_explain :: "event_record \<Rightarrow> correlation \<Rightarrow> rule_result" where
  "r11_explain event corr =
     (let pod = ev_name event; ns = ev_namespace event;
          cm_name = extract_configmap_name (ev_message event)
      in \<lparr>rr_rule_id = ''R11_failedmount_configmap'',
          rr_root_cause =
            (if named cm_name \<and> \<not> kind_found ''ConfigMap'' corr
             then ''Pod '' @ pod @ '' cannot start: ConfigMap '' @ sq (the cm_name)
               @ '' not found in namespace '' @ sq ns @ ''.''
             else ''Pod '' @ pod @ '' failed to mount a ConfigMap volume. ''
               @ ''The referenced ConfigMap may be missing or inaccessible.''),
          rr_confidence = compute_confidence r11_base corr event,
          rr_evidence = [trigger_item event (''Pod '' @ pod @ '' failed to mount ConfigMap'')],
          rr_affected = [pod_affected event],
          rr_remediation =
            ''Verify the ConfigMap exists: `kubectl get configmap '' @ or_placeholder cm_name @ '' -n '' @ ns
            @ ''`. Inspect pod events: `kubectl describe pod '' @ pod @ '' -n '' @ ns @ ''`.''\<rparr>)"

definition r11_rule :: rule where
  "r11_rule =
     \<lparr>ru_id = ''R11_failedmount_configmap'', ru_display_name = ''FailedMount -- ConfigMap Not Found'',
      ru_priority = 20, ru_base = r11_base, ru_dependencies = [''Pod'', ''ConfigMap''],
      ru_paths = [''spec.volumes'', ''spec.template.spec.volumes''],
      ru_match = (\<lambda>event. Inr (r11_match event)),
      ru_correlate = (\<lambda>now l event c. (Inr (fst (r11_correlate now l event c)), snd (r11_correlate now l event c))),
      ru_explain = (\<lambda>event corr. Inr (r11_explain event corr))\<rparr>"

subsection \<open>R12 FailedMount, Secret not found\<close>

definition extract_secret_name :: "str \<Rightarrow> str option" where
  "extract_secret_name = extract_object_name ''secret''"

definition r12_match :: "event_record \<Rightarrow> bool" where
  "r12_match event \<longleftrightarrow>
     (if ev_reason event \<noteq> ''FailedMount'' then False
      else str_in ''secret'' (lower (ev_message event)))"

definition r12_correlate ::
  "instant \<Rightarrow> ledger \<Rightarrow> event_record \<Rightarrow> rcache \<Rightarrow> correlation \<times> rcache" where
  "r12_correlate now l event c =
     lookup_named now ''Secret'' (extract_secret_name (ev_message event)) event c"

definition r12_base :: dbl where "r12_base = dlit 60 100"

definition r12_explain :: "event_record \<Rightarrow> correlation \<Rightarrow> rule_result" where
  "r12_explain event corr =
     (let pod = ev_name event; ns = ev_namespace event;
          secret_name = extract_secret_name (ev_message event)
      in \<lparr>rr_rule_id = ''R12_failedmount_secret'',
          rr_root_cause =
            (if named secret_name \<and> \<not> kind_found ''Secret'' corr
             then ''Pod '' @ pod @ '' cannot start: Secret '' @ sq (the secret_name)
               @ '' not found in namespace '' @ sq ns @ ''.''
             else ''Pod '' @ pod @ '' failed to mount a Secret volume.''),
          rr_confidence = compute_confidence r12_base corr event,
          rr_evidence = [trigger_item event (''Pod '' @ pod @ '' failed to mount Secret'')],
          rr_affected = [pod_affected event],
          rr_remediation =
            ''Verify the Secret exists: `kubectl get secret '' @ or_placeholder secret_name @ '' -n '' @ ns
            @ ''`. Inspect pod events: `kubectl describe pod '' @ pod @ '' -n '' @ ns @ ''`.''\<rparr>)"

definition r12_rule :: rule where
  "r12_rule =
     \<lparr>ru_id = ''R12_failedmount_secret'', ru_display_name = ''FailedMount -- Secret Not Found'',
      ru_priority = 20, ru_base = r12_base, ru_dependencies = [''Pod'', ''Secret''],
      ru_paths = [''spec.volumes'', ''spec.template.spec.volumes''],
      ru_match = (\<lambda>event. Inr (r12_match event)),
      ru_correlate = (\<lambda>now l event c. (Inr (fst (r12_correlate now l event c)), snd (r12_correlate now l event c))),
      ru_explain = (\<lambda>event corr. Inr (r12_explain event corr))\<rparr>"

subsection \<open>R13 FailedMount, PVC not bound\<close>

definition r13_match :: "event_record \<Rightarrow> bool" where
  "r13_match event \<longleftrightarrow>
     (if ev_reason event \<notin> {''FailedMount'', ''FailedAttachVolume''} then False
      else any_in [''pvc'', ''persistentvolumeclaim'', ''not bound''] (lower (ev_message event)))"

definition r13_correlate ::
  "instant \<Rightarrow> ledger \<Rightarrow> event_record \<Rightarrow> rcache \<Rightarrow> correlation \<times> rcache" where
  "r13_correlate now l event c =
     (let (found, c1) =
            lookup_named now ''PersistentVolumeClaim'' (extract_pvc_name (ev_message event)) event c;
          all_pvcs = cache_list c1 ''PersistentVolumeClaim'' (ev_namespace event)
      in (quiet (fold add_unbound all_pvcs (co_related found)) (co_objects found + length all_pvcs), c1))"

definition r13_base :: dbl where "r13_base = dlit 60 100"

definition r13_explain :: "event_record \<Rightarrow> correlation \<Rightarrow> rule_result" where
  "r13_explain event corr =
     (let pod = ev_name event; ns = ev_namespace event; unbound_pvcs = unbound_claims corr
      in \<lparr>rr_rule_id = ''R13_failedmount_pvc'',
          rr_root_cause =
            (if unbound_pvcs \<noteq> []
             then ''Pod '' @ pod @ '' cannot mount volume: PVC(s) '' @ join '', '' unbound_pvcs
               @ '' are not bound.''
             else ''Pod '' @ pod @ '' failed to mount PVC volume. Check PVC binding status.''),
          rr_confidence = compute_confidence r13_base corr event,
          rr_evidence = [trigger_item event (''Pod '' @ pod @ '' FailedMount PVC'')],
          rr_affected = pod_affected event # map (affected ''PersistentVolumeClaim'' ns) unbound_pvcs,
          rr_remediation =
            ''Check PVC status: `kubectl get pvc -n '' @ ns
            @ ''`. Check PV availability: `kubectl get pv`.''\<rparr>)"

definition r13_rule :: rule where
  "r13_rule =
     \<lparr>ru_id = ''R13_failedmount_pvc'', ru_display_name = ''FailedMount -- PVC Not Bound'',
      ru_priority = 20, ru_base = r13_base,
      ru_dependencies = [''Pod'', ''PersistentVolumeClaim'', ''PersistentVolume''],
      ru_paths = [''spec.volumes''],
      ru_match = (\<lambda>event. Inr (r13_match event)),
      ru_correlate = (\<lambda>now l event c. (Inr (fst (r13_correlate now l event c)), snd (r13_correlate now l event c))),
      ru_explain = (\<lambda>event corr. Inr (r13_explain event corr))\<rparr>"

subsection \<open>R14 FailedMount, NFS\<close>

definition NFS_KEYWORDS :: "str list" where
  "NFS_KEYWORDS = [''nfs'', ''stale file handle'', ''mount.nfs'', ''nfs: server'', ''stale nfs'']"

definition r14_match :: "event_record \<Rightarrow> bool" where
  "r14_match event \<longleftrightarrow>
     (if ev_reason event \<noteq> ''FailedMount'' then False
      else any_in NFS_KEYWORDS (lower (ev_message event)))"

definition r14_correlate :: "instant \<Rightarrow> ledger \<Rightarrow> event_record \<Rightarrow> rcache \<Rightarrow> correlation" where
  "r14_correlate now l event c =
     (let pvcs = cache_list c ''PersistentVolumeClaim'' (ev_namespace event)
      in quiet pvcs (length pvcs))"

definition r14_base :: dbl where "r14_base = dlit 55 100"

definition r14_explain :: "event_record \<Rightarrow> correlation \<Rightarrow> rule_result" where
  "r14_explain event corr =
     (let pod = ev_name event; ns = ev_namespace event
      in \<lparr>rr_rule_id = ''R14_failedmount_nfs'',
          rr_root_cause =
            (if str_in ''stale'' (lower (ev_message event))
             then ''Pod '' @ pod @ '' has a stale NFS file handle. ''
               @ ''The NFS server may be unreachable or the export path invalid.''
             else ''Pod '' @ pod @ '' failed to mount NFS volume. ''
               @ ''Check NFS server accessibility and export path.''),
          rr_confidence = compute_confidence r14_base corr event,
          rr_evidence = [trigger_item event (''Pod '' @ pod @ '' NFS mount failure'')],
          rr_affected = [pod_affected event],
          rr_remediation =
            ''Check NFS server connectivity from the node. Verify the NFS export path exists. ''
            @ ''Inspect PV/PVC: `kubectl describe pod '' @ pod @ '' -n '' @ ns @ ''`.''\<rparr>)"

definition r14_rule :: rule where
  "r14_rule =
     \<lparr>ru_id = ''R14_failedmount_nfs'', ru_display_name = ''FailedMount -- NFS/Stale NFS'',
      ru_priority = 22, ru_base = r14_base,
      ru_dependencies = [''Pod'', ''PersistentVolumeClaim'', ''PersistentVolume''],
      ru_paths = [''spec.volumes''],
      ru_match = (\<lambda>event. Inr (r14_match event)),
      ru_correlate = (\<lambda>now l event c. (Inr (r14_correlate now l event c), c)),
      ru_explain = (\<lambda>event corr. Inr (r14_explain event corr))\<rparr>"

subsection \<open>R15 FailedScheduling, node not available\<close>

definition NODE_KEYWORDS :: "str list" where
  "NODE_KEYWORDS = [''nodes are available'', ''didn'' @ [squote] @ ''t match'', ''taints'', ''toleration'', ''affinity'']"

definition r15_match :: "event_record \<Rightarrow> bool" where
  "r15_match event \<longleftrightarrow>
     (if ev_reason event \<noteq> ''FailedScheduling'' then False
      else any_in NODE_KEYWORDS (lower (ev_message event)))"

definition r15_correlate :: "instant \<Rightarrow> ledger \<Rightarrow> event_record \<Rightarrow> rcache \<Rightarrow> correlation" where
  "r15_correlate now l event c =
     (let nodes = cache_list c ''Node'' [] in quiet (take 10 nodes) (length nodes))"

definition r15_base :: dbl where "r15_base = dlit 55 100"

definition r15_explain :: "event_record \<Rightarrow> correlation \<Rightarrow> rule_result" where
  "r15_explain event corr =
     (let pod = ev_name event; ns = ev_namespace event; msg = lower (ev_message event);
          node_count = show_nat (length (co_related corr));
          unscheduled = ''Pod '' @ pod @ '' cannot be scheduled: ''
      in \<lparr>rr_rule_id = ''R15_failedscheduling_node'',
          rr_root_cause =
            (if str_in ''taint'' msg
             then unscheduled @ ''no nodes match required tolerations. '' @ node_count @ '' nodes available.''
             else if str_in ''affinity'' msg
             then unscheduled @ ''node affinity rules cannot be satisfied. '' @ node_count
               @ '' nodes available.''
             else unscheduled @ ''no available nodes meet constraints. '' @ node_count
               @ '' nodes in cluster.''),
          rr_confidence = compute_confidence r15_base corr event,
          rr_evidence = [trigger_item event (''Pod '' @ pod @ '' FailedScheduling'')],
          rr_affected = [pod_affected event],
          rr_remediation =
            ''Check node taints: `kubectl describe nodes | grep -A5 Taints`. ''
            @ ''Check pod tolerations: `kubectl describe pod '' @ pod @ '' -n '' @ ns
            @ ''`. Consider adding nodes or adjusting scheduling constraints.''\<rparr>)"

definition r15_rule :: rule where
  "r15_rule =
     \<lparr>ru_id = ''R15_failedscheduling_node'', ru_display_name = ''FailedScheduling -- Node Not Available'',
      ru_priority = 18, ru_base = r15_base, ru_dependencies = [''Pod'', ''Node''],
      ru_paths = [''spec.template.spec.nodeSelector'', ''spec.template.spec.tolerations''],
      ru_match = (\<lambda>event. Inr (r15_match event)),
      ru_correlate = (\<lambda>now l event c. (Inr (r15_correlate now l event c), c)),
      ru_explain = (\<lambda>event corr. Inr (r15_explain event corr))\<rparr>"

subsection \<open>R16 Exceeded quota\<close>

definition r16_match :: "event_record \<Rightarrow> bool" where
  "r16_match event \<longleftrightarrow>
     (let msg = lower (ev_message event) in
      if str_in ''exceeded quota'' msg then True
      else ev_reason event = ''FailedCreate'' \<and> str_in ''quota'' msg)"

definition r16_correlate :: "instant \<Rightarrow> ledger \<Rightarrow> event_record \<Rightarrow> rcache \<Rightarrow> correlation" where
  "r16_correlate now l event c =
     (let quotas = cache_list c ''ResourceQuota'' (ev_namespace event)
      in quiet quotas (length quotas))"

definition r16_base :: dbl where "r16_base = dlit 65 100"

definition r16_explain :: "event_record \<Rightarrow> correlation \<Rightarrow> rule_result" where
  "r16_explain event corr =
     (let ns = ev_namespace event; quota_names = names_of_kind ''ResourceQuota'' corr
      in \<lparr>rr_rule_id = ''R16_exceed_quota'',
          rr_root_cause =
            (if quota_names \<noteq> []
             then ''Resource quota exceeded in namespace '' @ sq ns @ ''. Quotas: ''
               @ join '', '' quota_names @ ''.''
             else ''Resource quota exceeded in namespace '' @ sq ns @ ''.''),
          rr_confidence = compute_confidence r16_base corr event,
          rr_evidence = [trigger_item event ''Quota exceeded''],
          rr_affected = pod_affected event # map (affected ''ResourceQuota'' ns) quota_names,
          rr_remediation =
            ''Check quota usage: `kubectl describe resourcequota -n '' @ ns
            @ ''`. Request quota increase or reduce resource requests.''\<rparr>)"

definition r16_rule :: rule where
  "r16_rule =
     \<lparr>ru_id = ''R16_exceed_quota'', ru_display_name = ''Exceed Quota'', ru_priority = 15,
      ru_base = r16_base, ru_dependencies = [''Pod'', ''ResourceQuota''],
      ru_paths = [''spec.hard'', ''status.used''],
      ru_match = (\<lambda>event. Inr (r16_match event)),
      ru_correlate = (\<lambda>now l event c. (Inr (r16_correlate now l event c), c)),
      ru_explain = (\<lambda>event corr. Inr (r16_explain event corr))\<rparr>"

subsection \<open>R17 Evicted\<close>

definition r17_match :: "event_record \<Rightarrow> bool" where
  "r17_match event \<longleftrightarrow>
     (if ev_reason event = ''Evicted'' then True
      else ev_reason event \<in> {''Killing'', ''Preempting''} \<and> str_in ''evict'' (lower (ev_message event)))"

definition r17_correlate ::
  "instant \<Rightarrow> ledger \<Rightarrow> event_record \<Rightarrow> rcache \<Rightarrow> correlation \<times> rcache" where
  "r17_correlate now l event c =
     (let (pod, c1) = cache_get now ''Pod'' (ev_namespace event) (ev_name event) c in
      case pod of
        None \<Rightarrow> (quiet [] 1, c1)
      | Some v \<Rightarrow>
          let node_name = py_str (vget (PStr []) (vw_spec v) ''nodeName'') in
          if node_name = [] then (quiet [v] 1, c1)
          else
            let (node, c2) = cache_get now ''Node'' [] node_name c1
            in (quiet (v # (case node of None \<Rightarrow> [] | Some n \<Rightarrow> [n])) 2, c2))"

definition r17_base :: dbl where "r17_base = dlit 60 100"

text \<open>The loop over \<open>status.conditions\<close>: the last pressure condition that is \<open>"True"\<close> counts.\<close>

fun condition_pressure :: "str \<Rightarrow> pyval list \<Rightarrow> str" where
  "condition_pressure pressure [] = pressure"
| "condition_pressure pressure (cond # conds) =
     condition_pressure
       (case cond of
          PDict d \<Rightarrow>
            if vget PNone d ''status'' = PStr ''True'' then
              (let ctype = py_str (vget (PStr []) d ''type'') in
               if str_in ''MemoryPressure'' ctype then ''memory''
               else if str_in ''DiskPressure'' ctype then ''disk'' else pressure)
            else pressure
        | _ \<Rightarrow> pressure) conds"

definition node_pressure :: "resource_view option \<Rightarrow> str" where
  "node_pressure node =
     (case node of
        None \<Rightarrow> ''resource''
      | Some n \<Rightarrow>
          (case vget (PList []) (vw_status n) ''conditions'' of
             PList conds \<Rightarrow> condition_pressure ''resource'' conds
           | _ \<Rightarrow> ''resource''))"

definition r17_explain :: "event_record \<Rightarrow> correlation \<Rightarrow> rule_result" where
  "r17_explain event corr =
     (let pod = ev_name event; ns = ev_namespace event; msg = lower (ev_message event);
          node = List.find (\<lambda>r. vw_kind r = ''Node'') (co_related corr);
          pressure = node_pressure node
      in \<lparr>rr_rule_id = ''R17_evicted'',
          rr_root_cause =
            (if str_in ''memory'' msg \<or> pressure = ''memory''
             then ''Pod '' @ pod @ '' was evicted due to node memory pressure.''
             else if str_in ''disk'' msg \<or> str_in ''ephemeral'' msg \<or> pressure = ''disk''
             then ''Pod '' @ pod @ '' was evicted due to node disk pressure.''
             else ''Pod '' @ pod @ '' was evicted due to node resource pressure.''),
          rr_confidence = compute_confidence r17_base corr event,
          rr_evidence = [trigger_item event (''Pod '' @ pod @ '' evicted'')],
          rr_affected = pod_affected event
            # (case node of None \<Rightarrow> [] | Some n \<Rightarrow> [affected ''Node'' [] (vw_name n)]),
          rr_remediation =
            ''Check node conditions: `kubectl describe node`. Check pod resource usage: `kubectl top pod ''
            @ pod @ '' -n '' @ ns @ ''`. Add resource limits or provision more capacity.''\<rparr>)"

definition r17_rule :: rule where
  "r17_rule =
     \<lparr>ru_id = ''R17_evicted'', ru_display_name = ''Evicted -- Resource Pressure'', ru_priority = 18,
      ru_base = r17_base, ru_dependencies = [''Pod'', ''Node''],
      ru_paths = [''status.conditions''],
      ru_match = (\<lambda>event. Inr (r17_match event)),
      ru_correlate = (\<lambda>now l event c. (Inr (fst (r17_correlate now l event c)), snd (r17_correlate now l event c))),
      ru_explain = (\<lambda>event corr. Inr (r17_explain event corr))\<rparr>"

subsection \<open>R18 Claim lost\<close>

definition LOST_REASONS :: "str list" where
  "LOST_REASONS = [''ClaimLost'', ''VolumeFailedRecycle'', ''VolumeFailedDelete'']"

definition RE_PHASE_LOST :: regex where
  "RE_PHASE_LOST = r_seqs [r_ilit ''phase'', RStar (RSet not_newline), r_ilit ''lost'']"

definition r18_match :: "event_record \<Rightarrow> bool" where
  "r18_match event \<longleftrightarrow>
     (if ev_reason event \<in> set LOST_REASONS then True else re_found RE_PHASE_LOST (ev_message event))"

definition lost_or_failed :: "resource_view \<Rightarrow> bool" where
  "lost_or_failed pv \<longleftrightarrow> phase_is (PStr []) ''Lost'' pv \<or> phase_is (PStr []) ''Failed'' pv"

definition r18_correlate ::
  "instant \<Rightarrow> ledger \<Rightarrow> event_record \<Rightarrow> rcache \<Rightarrow> correlation \<times> rcache" where
  "r18_correlate now l event c =
     (let (pvc, c1) = cache_get now ''PersistentVolumeClaim'' (ev_namespace event) (ev_name event) c;
          pvs = cache_list c1 ''PersistentVolume'' []
      in (quiet ((case pvc of None \<Rightarrow> [] | Some v \<Rightarrow> [v]) @ filter lost_or_failed pvs) (1 + length pvs), c1))"

definition r18_base :: dbl where "r18_base = dlit 55 100"

definition r18_explain :: "event_record \<Rightarrow> correlation \<Rightarrow> rule_result" where
  "r18_explain event corr =
     (let ns = ev_namespace event;
          lost_pvs = map vw_name
            (filter (\<lambda>r. vw_kind r = ''PersistentVolume''
               \<and> (phase_is PNone ''Lost'' r \<or> phase_is PNone ''Failed'' r)) (co_related corr))
      in \<lparr>rr_rule_id = ''R18_claim_lost'',
          rr_root_cause =
            (if lost_pvs \<noteq> []
             then ''PersistentVolume(s) '' @ join '', '' lost_pvs
               @ '' entered Lost/Failed phase. Bound PVCs will lose access to storage.''
             else ''PVC '' @ ev_name event @ '' lost its backing PersistentVolume. ''
               @ ''The storage may have been deleted or become unavailable.''),
          rr_confidence = compute_confidence r18_base corr event,
          rr_evidence = [trigger_item event ''PV/PVC lost event''],
          rr_affected = affected (ev_kind event) ns (ev_name event)
            # map (affected ''PersistentVolume'' []) lost_pvs,
          rr_remediation =
            ''Check PV status: `kubectl get pv`. Check PVC: `kubectl get pvc '' @ ev_name event
            @ '' -n '' @ ns @ ''`. Recover or recreate the backing storage.''\<rparr>)"

definition r18_rule :: rule where
  "r18_rule =
     \<lparr>ru_id = ''R18_claim_lost'', ru_display_name = ''ClaimLost -- PV Lost'', ru_priority = 22,
      ru_base = r18_base, ru_dependencies = [''PersistentVolumeClaim'', ''PersistentVolume''],
      ru_paths = [''status.phase''],
      ru_match = (\<lambda>event. Inr (r18_match event)),
      ru_correlate = (\<lambda>now l event c. (Inr (fst (r18_correlate now l event c)), snd (r18_correlate now l event c))),
      ru_explain = (\<lambda>event corr. Inr (r18_explain event corr))\<rparr>"

subsection \<open>The contract\<close>

text \<open>A correlation without changes is good when its views are.\<close>

lemma quiet_ok: "(\<And>v. v \<in> set vs \<Longrightarrow> view_clean v) \<Longrightarrow> corr_ok now l (quiet vs n)"
  by (simp add: corr_ok_def quiet_def list_all_iff)

lemma quiet_sel [simp]: "co_changes (quiet vs n) = []" "co_related (quiet vs n) = vs"
  "co_objects (quiet vs n) = n"
  by (simp_all add: quiet_def)

lemma trigger_evidence [simp]: "\<exists>summary. trigger_item event what = event_item event summary"
  by (auto simp: trigger_item_def)

lemma lookup_named_eqs:
  "co_related (fst (lookup_named now kind name event c)) =
     (if named name then (case store_get (rc_store c) kind (ev_namespace event) (the name) of
        None \<Rightarrow> [] | Some v \<Rightarrow> [redacted_view v]) else [])"
  "co_changes (fst (lookup_named now kind name event c)) = []"
  "co_objects (fst (lookup_named now kind name event c)) = (if named name then 1 else 0)"
  "rc_store (snd (lookup_named now kind name event c)) = rc_store c"
  by (auto simp: lookup_named_def cache_get_pair Let_def split: option.splits)

lemma lookup_named_clean:
  "v \<in> set (co_related (fst (lookup_named now kind name event c))) \<Longrightarrow> view_clean v"
  by (cases "named name"; cases "store_get (rc_store c) kind (ev_namespace event) (the name)")
    (simp_all add: lookup_named_eqs redacted_view_clean)

lemma lookup_named_ok: "corr_ok now' l (fst (lookup_named now kind name event c))"
proof (rule corr_okI)
  show "v \<in> set (co_related (fst (lookup_named now kind name event c))) \<Longrightarrow> view_clean v" for v
    by (rule lookup_named_clean)
qed (simp add: lookup_named_eqs)

lemma lookup_named_cong:
  "rc_store c = rc_store c' \<Longrightarrow>
     fst (lookup_named now kind name event c) = fst (lookup_named now kind name event c')"
  by (simp add: lookup_named_def cache_get_pair Let_def)

lemma r11_contract: "rca_rule r11_rule"
proof (rule reading_rule_contract)
  show "rc_store c = rc_store c' \<Longrightarrow> fst (r11_correlate now l event c) = fst (r11_correlate now l event c')"
    for now l event c c'
    unfolding r11_correlate_def by (rule lookup_named_cong)
  show "result_ok r11_rule event corr (r11_explain event corr)" for event corr
    by (rule result_okI [of _ _ 60]) (simp_all add: r11_rule_def r11_explain_def r11_base_def Let_def)
qed (simp_all add: r11_rule_def r11_correlate_def lookup_named_ok lookup_named_eqs)

lemma r12_contract: "rca_rule r12_rule"
proof (rule reading_rule_contract)
  show "rc_store c = rc_store c' \<Longrightarrow> fst (r12_correlate now l event c) = fst (r12_correlate now l event c')"
    for now l event c c'
    unfolding r12_correlate_def by (rule lookup_named_cong)
  show "result_ok r12_rule event corr (r12_explain event corr)" for event corr
    by (rule result_okI [of _ _ 60]) (simp_all add: r12_rule_def r12_explain_def r12_base_def Let_def)
qed (simp_all add: r12_rule_def r12_correlate_def lookup_named_ok lookup_named_eqs)

lemma r13_correlate_eq:
  "r13_correlate now l event c =
     (let name = extract_pvc_name (ev_message event);
          found = lookup_named now ''PersistentVolumeClaim'' name event c;
          all_pvcs = cache_list c ''PersistentVolumeClaim'' (ev_namespace event)
      in (quiet (fold add_unbound all_pvcs (co_related (fst found)))
            (co_objects (fst found) + length all_pvcs), snd found))"
  by (simp add: r13_correlate_def Let_def case_prod_beta
      cache_list_cong [OF lookup_named_eqs(4)])

lemma r13_contract: "rca_rule r13_rule"
proof (rule reading_rule_contract)
  show "corr_ok now l (fst (r13_correlate now l event c))" for now l event c
    by (auto simp: r13_correlate_eq Let_def intro!: quiet_ok dest!: subsetD [OF add_unbound_set]
        intro: cache_list_clean lookup_named_clean)
  show "rc_store (snd (r13_correlate now l event c)) = rc_store c" for now l event c
    by (simp add: r13_correlate_eq Let_def lookup_named_eqs)
  show "fst (r13_correlate now l event c) = fst (r13_correlate now l event c')"
    if eq: "rc_store c = rc_store c'" for now l event c c'
    unfolding r13_correlate_eq Let_def cache_list_cong [OF eq] lookup_named_cong [OF eq] by simp
  show "result_ok r13_rule event corr (r13_explain event corr)" for event corr
    by (rule result_okI [of _ _ 60]) (simp_all add: r13_rule_def r13_explain_def r13_base_def Let_def)
qed (simp_all add: r13_rule_def)

lemma r14_contract: "rca_rule r14_rule"
proof (rule pure_rule_contract)
  show "corr_ok now l (r14_correlate now l event c)" for now l event c
    by (auto simp: r14_correlate_def Let_def intro!: quiet_ok intro: cache_list_clean)
  show "r14_correlate now l event c = r14_correlate now l event c'"
    if "rc_store c = rc_store c'" for now l event c c'
    unfolding r14_correlate_def cache_list_cong [OF that] ..
  show "result_ok r14_rule event corr (r14_explain event corr)" for event corr
    by (rule result_okI [of _ _ 55]) (simp_all add: r14_rule_def r14_explain_def r14_base_def Let_def)
qed (simp_all add: r14_rule_def)

lemma r15_contract: "rca_rule r15_rule"
proof (rule pure_rule_contract)
  show "corr_ok now l (r15_correlate now l event c)" for now l event c
    by (auto simp: r15_correlate_def Let_def intro!: quiet_ok dest: in_set_takeD intro: cache_list_clean)
  show "r15_correlate now l event c = r15_correlate now l event c'"
    if "rc_store c = rc_store c'" for now l event c c'
    unfolding r15_correlate_def cache_list_cong [OF that] ..
  show "result_ok r15_rule event corr (r15_explain event corr)" for event corr
    by (rule result_okI [of _ _ 55]) (simp_all add: r15_rule_def r15_explain_def r15_base_def Let_def)
qed (simp_all add: r15_rule_def)

lemma r16_contract: "rca_rule r16_rule"
proof (rule pure_rule_contract)
  show "corr_ok now l (r16_correlate now l event c)" for now l event c
    by (auto simp: r16_correlate_def Let_def intro!: quiet_ok intro: cache_list_clean)
  show "r16_correlate now l event c = r16_correlate now l event c'"
    if "rc_store c = rc_store c'" for now l event c c'
    unfolding r16_correlate_def cache_list_cong [OF that] ..
  show "result_ok r16_rule event corr (r16_explain event corr)" for event corr
    by (rule result_okI [of _ _ 65]) (simp_all add: r16_rule_def r16_explain_def r16_base_def Let_def)
qed (simp_all add: r16_rule_def)

lemma r17_contract: "rca_rule r17_rule"
proof (rule reading_rule_contract)
  show "corr_ok now l (fst (r17_correlate now l event c))" for now l event c
    by (auto simp: r17_correlate_def cache_get_pair Let_def redacted_view_clean intro!: quiet_ok
        split: option.splits)
  show "rc_store (snd (r17_correlate now l event c)) = rc_store c" for now l event c
    by (simp add: r17_correlate_def cache_get_pair Let_def split: option.splits)
  show "fst (r17_correlate now l event c) = fst (r17_correlate now l event c')"
    if "rc_store c = rc_store c'" for now l event c c'
    using that by (simp add: r17_correlate_def cache_get_pair Let_def split: option.splits)
  show "result_ok r17_rule event corr (r17_explain event corr)" for event corr
    by (rule result_okI [of _ _ 60]) (simp_all add: r17_rule_def r17_explain_def r17_base_def Let_def)
qed (simp_all add: r17_rule_def)

lemma r18_contract: "rca_rule r18_rule"
proof (rule reading_rule_contract)
  show "corr_ok now l (fst (r18_correlate now l event c))" for now l event c
    by (auto simp: r18_correlate_def cache_get_pair Let_def redacted_view_clean intro!: quiet_ok
        intro: cache_list_clean split: option.splits)
  show "rc_store (snd (r18_correlate now l event c)) = rc_store c" for now l event c
    by (simp add: r18_correlate_def cache_get_pair Let_def)
  show "fst (r18_correlate now l event c) = fst (r18_correlate now l event c')"
    if "rc_store c = rc_store c'" for now l event c c'
    using that cache_list_cong [of "record_access now b c" "record_access now b c'" for b]
    by (simp add: r18_correlate_def cache_get_pair Let_def)
  show "result_ok r18_rule event corr (r18_explain event corr)" for event corr
    by (rule result_okI [of _ _ 55]) (simp_all add: r18_rule_def r18_explain_def r18_base_def Let_def)
qed (simp_all add: r18_rule_def)

interpretation r11: rca_rule r11_rule by (rule r11_contract)
interpretation r12: rca_rule r12_rule by (rule r12_contract)
interpretation r13: rca_rule r13_rule by (rule r13_contract)
interpretation r14: rca_rule r14_rule by (rule r14_contract)
interpretation r15: rca_rule r15_rule by (rule r15_contract)
interpretation r16: rca_rule r16_rule by (rule r16_contract)
interpretation r17: rca_rule r17_rule by (rule r17_contract)
interpretation r18: rca_rule r18_rule by (rule r18_contract)

end
