(* ===== verification/RuleRegistry.thy ===== *)
theory RuleRegistry
  imports RulesTier2b
begin

text \<open>
  \<open>kuberca/rules/__init__.py\<close>: discovery of the rule modules, the two tiers, the engine the
  application builds; and what that engine guarantees, from the contract of its eighteen rules.
  A module is its name with the concrete rule classes in it, \<open>None\<close> when its import fails.
\<close>

definition TIER1_RULE_IDS :: "str list" where
  "TIER1_RULE_IDS = [''R01_oom_killed'', ''R02_crash_loop'', ''R03_failed_scheduling'']"

definition TIER2_RULE_IDS :: "str list" where
  "TIER2_RULE_IDS =
     [''R04_image_pull'', ''R05_hpa_misbehavior'', ''R06_service_unreachable'', ''R07_config_drift'',
      ''R08_volume_mount'', ''R09_node_pressure'', ''R10_readiness_probe'', ''R11_failedmount_configmap'',
      ''R12_failedmount_secret'', ''R13_failedmount_pvc'', ''R14_failedmount_nfs'',
      ''R15_failedscheduling_node'', ''R16_exceed_quota'', ''R17_evicted'', ''R18_claim_lost'']"

type_synonym rule_module = "str \<times> rule list option"

definition is_rule_module :: "str \<Rightarrow> bool" where
  "is_rule_module name \<longleftrightarrow>
     startswith name ''r'' \<and> (case drop 1 name of [] \<Rightarrow> False | c # _ \<Rightarrow> is_digit c)"

definition add_class :: "rule \<Rightarrow> rule list \<Rightarrow> rule list" where
  "add_class r found = (if ru_id r \<in> set (map ru_id found) then found else found @ [r])"

definition discover_rules :: "rule_module list \<Rightarrow> rule list" where
  "discover_rules modules =
     fold (\<lambda>(name, members) found.
        if \<not> is_rule_module name then found
        else case members of None \<Rightarrow> found | Some classes \<Rightarrow> fold add_class classes found)
       (py_sorted fst modules) []"

definition build_rule_engine :: "bool \<Rightarrow> rule_module list \<Rightarrow> rule list" where
  "build_rule_engine tier2_enabled modules =
     fold (\<lambda>r rules.
        let is_tier1 = ru_id r \<in> set TIER1_RULE_IDS; is_tier2 = ru_id r \<in> set TIER2_RULE_IDS
        in if is_tier1 \<or> is_tier2 \<and> tier2_enabled then register r rules
           else if is_tier2 \<and> \<not> tier2_enabled then rules
           else register r rules)
       (discover_rules modules) []"

text \<open>The package as it is.\<close>

definition RULES_PACKAGE :: "rule_module list" where
  "RULES_PACKAGE =
     [(''base'', Some []), (''confidence'', Some []),
      (''r01_oom_killed'', Some [r01_rule]), (''r02_crash_loop'', Some [r02_rule]),
      (''r03_failed_scheduling'', Some [r03_rule]), (''r04_image_pull'', Some [r04_rule]),
      (''r05_hpa'', Some [r05_rule]), (''r06_service_unreachable'', Some [r06_rule]),
      (''r07_config_drift'', Some [r07_rule]), (''r08_volume_mount'', Some [r08_rule]),
      (''r09_node_pressure'', Some [r09_rule]), (''r10_readiness_probe'', Some [r10_rule]),
      (''r11_failedmount_configmap'', Some [r11_rule]), (''r12_failedmount_secret'', Some [r12_rule]),
      (''r13_failedmount_pvc'', Some [r13_rule]), (''r14_failedmount_nfs'', Some [r14_rule]),
      (''r15_failedscheduling_node'', Some [r15_rule]), (''r16_exceed_quota'', Some [r16_rule]),
      (''r17_evicted'', Some [r17_rule]), (''r18_claim_lost'', Some [r18_rule])]"

definition kuberca_rules :: "bool \<Rightarrow> rule list" where
  "kuberca_rules tier2_enabled = build_rule_engine tier2_enabled RULES_PACKAGE"

subsection \<open>The order of the rules\<close>

lemma tiers_disjoint: "ru_id r \<in> set TIER1_RULE_IDS \<Longrightarrow> ru_id r \<notin> set TIER2_RULE_IDS"
  by (auto simp: TIER1_RULE_IDS_def TIER2_RULE_IDS_def)

lemma build_rule_engine_eq:
  "build_rule_engine tier2 modules =
     sort_key rule_order (filter (\<lambda>r. tier2 \<or> ru_id r \<notin> set TIER2_RULE_IDS) (discover_rules modules))"
proof -
  have step: "(let is_tier1 = ru_id r \<in> set TIER1_RULE_IDS; is_tier2 = ru_id r \<in> set TIER2_RULE_IDS
      in if is_tier1 \<or> is_tier2 \<and> tier2 then register r rules
         else if is_tier2 \<and> \<not> tier2 then rules else register r rules) =
    (if tier2 \<or> ru_id r \<notin> set TIER2_RULE_IDS then register r rules else rules)" for r rules
    using tiers_disjoint [of r] by (auto simp: Let_def)
  have "fold (\<lambda>r rules. if P r then register r rules else rules) rs acc =
      fold register (filter P rs) acc" for P rs acc
    by (induction rs arbitrary: acc) auto
  then show ?thesis
    unfolding build_rule_engine_def step register_all_sorted [symmetric] register_all_def by simp
qed

lemmas rule_records = r01_rule_def r02_rule_def r03_rule_def r04_rule_def r05_rule_def r06_rule_def
  r07_rule_def r08_rule_def r09_rule_def r10_rule_def r11_rule_def r12_rule_def r13_rule_def
  r14_rule_def r15_rule_def r16_rule_def r17_rule_def r18_rule_def

lemma rule_orders:
  "rule_order r01_rule = (10, ''R01_oom_killed'')"
  "rule_order r02_rule = (10, ''R02_crash_loop'')"
  "rule_order r03_rule = (20, ''R03_failed_scheduling'')"
  "rule_order r04_rule = (15, ''R04_image_pull'')"
  "rule_order r05_rule = (30, ''R05_hpa_misbehavior'')"
  "rule_order r06_rule = (25, ''R06_service_unreachable'')"
  "rule_order r07_rule = (20, ''R07_config_drift'')"
  "rule_order r08_rule = (20, ''R08_volume_mount'')"
  "rule_order r09_rule = (15, ''R09_node_pressure'')"
  "rule_order r10_rule = (30, ''R10_readiness_probe'')"
  "rule_order r11_rule = (20, ''R11_failedmount_configmap'')"
  "rule_order r12_rule = (20, ''R12_failedmount_secret'')"
  "rule_order r13_rule = (20, ''R13_failedmount_pvc'')"
  "rule_order r14_rule = (22, ''R14_failedmount_nfs'')"
  "rule_order r15_rule = (18, ''R15_failedscheduling_node'')"
  "rule_order r16_rule = (15, ''R16_exceed_quota'')"
  "rule_order r17_rule = (18, ''R17_evicted'')"
  "rule_order r18_rule = (22, ''R18_claim_lost'')"
  by (simp_all add: rule_order_def rule_records)

lemma rule_ids:
  "ru_id r01_rule = ''R01_oom_killed''"
  "ru_id r02_rule = ''R02_crash_loop''"
  "ru_id r03_rule = ''R03_failed_scheduling''"
  "ru_id r04_rule = ''R04_image_pull''"
  "ru_id r05_rule = ''R05_hpa_misbehavior''"
  "ru_id r06_rule = ''R06_service_unreachable''"
  "ru_id r07_rule = ''R07_config_drift''"
  "ru_id r08_rule = ''R08_volume_mount''"
  "ru_id r09_rule = ''R09_node_pressure''"
  "ru_id r10_rule = ''R10_readiness_probe''"
  "ru_id r11_rule = ''R11_failedmount_configmap''"
  "ru_id r12_rule = ''R12_failedmount_secret''"
  "ru_id r13_rule = ''R13_failedmount_pvc''"
  "ru_id r14_rule = ''R14_failedmount_nfs''"
  "ru_id r15_rule = ''R15_failedscheduling_node''"
  "ru_id r16_rule = ''R16_exceed_quota''"
  "ru_id r17_rule = ''R17_evicted''"
  "ru_id r18_rule = ''R18_claim_lost''"
  by (simp_all add: rule_records)

lemma package_names:
  "map fst RULES_PACKAGE =
     [''base'', ''confidence'', ''r01_oom_killed'', ''r02_crash_loop'', ''r03_failed_scheduling'',
      ''r04_image_pull'', ''r05_hpa'', ''r06_service_unreachable'', ''r07_config_drift'',
      ''r08_volume_mount'', ''r09_node_pressure'', ''r10_readiness_probe'',
      ''r11_failedmount_configmap'', ''r12_failedmount_secret'', ''r13_failedmount_pvc'',
      ''r14_failedmount_nfs'', ''r15_failedscheduling_node'', ''r16_exceed_quota'', ''r17_evicted'',
      ''r18_claim_lost'']"
  by (simp add: RULES_PACKAGE_def)

lemma package_sorted: "py_sorted fst RULES_PACKAGE = RULES_PACKAGE"
proof -
  have "sorted (map fst RULES_PACKAGE)" unfolding package_names by code_simp
  then show ?thesis by (simp add: py_sorted_def sorted_sort_id sort_key_id_if_sorted)
qed

lemma package_discovery:
  "discover_rules RULES_PACKAGE =
     [r01_rule, r02_rule, r03_rule, r04_rule, r05_rule, r06_rule, r07_rule, r08_rule, r09_rule,
      r10_rule, r11_rule, r12_rule, r13_rule, r14_rule, r15_rule, r16_rule, r17_rule, r18_rule]"
  unfolding discover_rules_def package_sorted
  by (simp add: RULES_PACKAGE_def is_rule_module_def is_digit_def add_class_def
      rule_ids)

lemma kuberca_rules_order:
  "kuberca_rules True =
     [r01_rule, r02_rule, r04_rule, r09_rule, r16_rule, r15_rule, r17_rule, r03_rule, r07_rule,
      r08_rule, r11_rule, r12_rule, r13_rule, r14_rule, r18_rule, r06_rule, r05_rule, r10_rule]"
  "kuberca_rules False = [r01_rule, r02_rule, r03_rule]"
proof -
  let ?all = "[r01_rule, r02_rule, r04_rule, r09_rule, r16_rule, r15_rule, r17_rule, r03_rule, r07_rule,
      r08_rule, r11_rule, r12_rule, r13_rule, r14_rule, r18_rule, r06_rule, r05_rule, r10_rule]"
  show "kuberca_rules True = ?all"
    unfolding kuberca_rules_def build_rule_engine_eq package_discovery
    by (simp add: rule_orders)
  show "kuberca_rules False = [r01_rule, r02_rule, r03_rule]"
    unfolding kuberca_rules_def build_rule_engine_eq package_discovery
    by (simp add: rule_orders rule_ids TIER2_RULE_IDS_def)
qed

subsection \<open>What the engine guarantees\<close>

lemma kuberca_rules_contract: "r \<in> set (kuberca_rules tier2) \<Longrightarrow> rca_rule r"
  using r01.rca_rule_axioms r02.rca_rule_axioms r03.rca_rule_axioms r04.rca_rule_axioms
    r05.rca_rule_axioms r06.rca_rule_axioms r07.rca_rule_axioms r08.rca_rule_axioms
    r09.rca_rule_axioms r10.rca_rule_axioms r11.rca_rule_axioms r12.rca_rule_axioms
    r13.rca_rule_axioms r14.rca_rule_axioms r15.rca_rule_axioms r16.rca_rule_axioms
    r17.rca_rule_axioms r18.rca_rule_axioms
  by (cases tier2) (auto simp: kuberca_rules_order)


lemma verdict_of_ok:
  assumes "rca_rule r"
  shows "\<exists>corr. corr_ok (en_now env) (en_ledger env) corr \<and> result_ok r event corr (verdict_of env event c r)"
  using rca_rule.verdict_ok [OF assms, of "en_now env" "en_ledger env" event c]
  unfolding verdict_of_def by blast

lemma evaluate_result:
  assumes "fst (evaluate env (kuberca_rules tier2) event c) = Some a"
  obtains r where "r \<in> set (kuberca_rules tier2)" "fires env event r" "a = verdict_of env event c r"
proof -
  have "answer_ok env event c (kuberca_rules tier2) (fst (evaluate env (kuberca_rules tier2) event c))"
    by (rule evaluate_ok) (blast intro: kuberca_rules_contract)
  then show thesis using assms that answer_ok_fires by fastforce
qed

lemma registered_ids:
  "r \<in> set (kuberca_rules tier2) \<Longrightarrow> ru_id r \<in> set (TIER1_RULE_IDS @ (if tier2 then TIER2_RULE_IDS else []))"
  by (cases tier2) (auto simp: kuberca_rules_order rule_ids TIER1_RULE_IDS_def TIER2_RULE_IDS_def)

text \<open>
  C35: Every answer of the engine names a registered rule, has a binary64 confidence between 0 and 0.95, cites
  the event itself as its first evidence, and has a confidence in the short-circuit band only when
  the ledger reported a field change of the last two hours.
\<close>
theorem engine_result_well_formed:
  "case fst (evaluate env (kuberca_rules tier2) event c) of
     None \<Rightarrow> True
   | Some a \<Rightarrow>
       rr_rule_id a \<in> set (TIER1_RULE_IDS @ (if tier2 then TIER2_RULE_IDS else []))
       \<and> is_float (rr_confidence a) \<and> 0 \<le> rr_confidence a \<and> rr_confidence a \<le> dlit 95 100
       \<and> (\<exists>summary rest. rr_evidence a = event_item event summary # rest)
       \<and> (rr_confidence a < dlit 85 100 \<or> (\<exists>fc. from_ledger (en_now env) (en_ledger env) fc))"
proof (cases "fst (evaluate env (kuberca_rules tier2) event c)")
  case (Some a)
  obtain r where r: "r \<in> set (kuberca_rules tier2)" "a = verdict_of env event c r"
    using evaluate_result [OF Some] .
  obtain corr where corr: "corr_ok (en_now env) (en_ledger env) corr" "result_ok r event corr a"
    using verdict_of_ok [OF kuberca_rules_contract [OF r(1)]] r(2) by blast
  have "\<exists>fc. from_ledger (en_now env) (en_ledger env) fc" if "co_changes corr \<noteq> []"
    using corr(1) that by (cases "co_changes corr") (auto simp: corr_ok_def)
  then show ?thesis
    using corr(2) registered_ids [OF r(1)] by (auto simp: Some result_ok_def)
qed simp

subsection \<open>Discovery and registration do not depend on the file order\<close>

lemma distinct_package: "distinct (map fst RULES_PACKAGE)"
  unfolding package_names by simp

text \<open>
  The engine is the same whatever order the modules of the package are listed in: discovery
  sorts them by name and registration sorts the rules by priority and rule id.
\<close>
theorem engine_ignores_module_order:
  assumes "mset modules = mset RULES_PACKAGE"
  shows "build_rule_engine tier2 modules = kuberca_rules tier2"
proof -
  have "inj_on fst (set RULES_PACKAGE)"
    using distinct_package by (simp add: distinct_map)
  moreover have "set modules = set RULES_PACKAGE" using assms by (metis set_mset_mset)
  ultimately have "sort_key fst modules = sort_key fst RULES_PACKAGE"
    using assms by (intro properties_for_sort_key sort_key_inj_key_eq) auto
  then show ?thesis
    by (simp add: kuberca_rules_def build_rule_engine_def discover_rules_def py_sorted_def)
qed

theorem engine_ignores_module_order_witness:
  "build_rule_engine True (rev RULES_PACKAGE) = kuberca_rules True"
  using engine_ignores_module_order [of "rev RULES_PACKAGE" True] by simp

text \<open>
  The order the engine evaluates the rules in, with their priorities: by priority, ties by rule
  id; without tier 2 the three tier 1 rules remain.
\<close>
theorem engine_rule_order:
  "map rule_order (kuberca_rules True) =
     [(10, ''R01_oom_killed''), (10, ''R02_crash_loop''), (15, ''R04_image_pull''),
      (15, ''R09_node_pressure''), (15, ''R16_exceed_quota''), (18, ''R15_failedscheduling_node''),
      (18, ''R17_evicted''), (20, ''R03_failed_scheduling''), (20, ''R07_config_drift''),
      (20, ''R08_volume_mount''), (20, ''R11_failedmount_configmap''), (20, ''R12_failedmount_secret''),
      (20, ''R13_failedmount_pvc''), (22, ''R14_failedmount_nfs''), (22, ''R18_claim_lost''),
      (25, ''R06_service_unreachable''), (30, ''R05_hpa_misbehavior''), (30, ''R10_readiness_probe'')]
   \<and> map ru_id (kuberca_rules False) = TIER1_RULE_IDS"
  by (simp add: kuberca_rules_order rule_orders rule_ids TIER1_RULE_IDS_def)

subsection \<open>Bookkeeping of an evaluation\<close>

definition meta_ok :: "nat \<Rightarrow> scan \<Rightarrow> bool" where
  "meta_ok n s \<longleftrightarrow> em_matched (sc_meta s) \<le> em_evaluated (sc_meta s) \<and> em_evaluated (sc_meta s) \<le> n"

lemma warn_counts [simp]: "em_matched (warn w m) = em_matched m" "em_evaluated (warn w m) = em_evaluated m"
  by (simp_all add: warn_def)

lemma scan_rule_counts:
  assumes "meta_ok n s"
  shows "case scan_rule env event r s of
      Inl (a, m, c) \<Rightarrow> em_matched m \<le> em_evaluated m \<and> em_evaluated m \<le> Suc n
    | Inr s' \<Rightarrow> meta_ok (Suc n) s'"
proof (cases "skipped r s \<or> ru_match r event \<noteq> Inr True")
  case True
  then show ?thesis
    using assms
    by (cases "ru_match r event") (auto simp: scan_rule_def skipped_def meta_ok_def)
next
  case False
  obtain corr slow cap c where run: "run_correlate env r event (sc_cache s) = (corr, slow, cap, c)"
    by (metis prod_cases4)
  show ?thesis
    using assms False
    by (cases slow; cases "ru_explain r event corr")
      (simp_all add: scan_rule_def skipped_def meta_ok_def run Let_def)
qed

lemma scan_rule_store:
  assumes "rca_rule r"
  shows "rc_store (case scan_rule env event r s of Inl (a, m, c) \<Rightarrow> c | Inr s' \<Rightarrow> sc_cache s') = rc_store (sc_cache s)"
proof (cases "skipped r s \<or> \<not> fires env event r")
  case True
  then show ?thesis using scan_rule_idle [OF assms True] by auto
next
  case False
  then show ?thesis using scan_rule_fires [OF assms, of s env event] by auto
qed

lemma scan_rules_bookkeeping:
  assumes "\<forall>r \<in> set rs. rca_rule r" "meta_ok n s"
    and "scan_rules env event rs s = (ans, m, c)"
  shows "em_matched m \<le> em_evaluated m \<and> em_evaluated m \<le> n + length rs \<and> rc_store c = rc_store (sc_cache s)"
  using assms
proof (induction rs arbitrary: n s)
  case (Cons r rs)
  note counts = scan_rule_counts [OF Cons.prems(2), of env event r]
  note store = scan_rule_store [of r env event s]
  show ?case
  proof (cases "scan_rule env event r s")
    case (Inl x)
    then show ?thesis using Cons.prems counts store by (cases x) auto
  next
    case (Inr s')
    then show ?thesis using Cons.IH [of "Suc n" s'] Cons.prems counts store by simp
  qed
qed (auto simp: meta_ok_def)

text \<open>
  An evaluation leaves the cached resources as they are, evaluates each registered rule at most
  once, and counts no more matches than evaluations.
\<close>
theorem engine_evaluation_reads_only:
  "case evaluate env (kuberca_rules tier2) event c of (ans, m, c') \<Rightarrow>
     rc_store c' = rc_store c \<and> em_matched m \<le> em_evaluated m
     \<and> em_evaluated m \<le> length (TIER1_RULE_IDS @ (if tier2 then TIER2_RULE_IDS else []))"
proof -
  let ?s = "\<lparr>sc_best = None, sc_competing = None,
       sc_meta = \<lparr>em_evaluated = 0, em_matched = 0, em_warnings = []\<rparr>, sc_cache = c\<rparr>"
  have "meta_ok 0 ?s" by (simp add: meta_ok_def)
  moreover have "length (kuberca_rules tier2) =
      length (TIER1_RULE_IDS @ (if tier2 then TIER2_RULE_IDS else []))"
    by (cases tier2) (simp_all add: kuberca_rules_order TIER1_RULE_IDS_def TIER2_RULE_IDS_def)
  moreover obtain ans m c' where ev: "evaluate env (kuberca_rules tier2) event c = (ans, m, c')"
    by (cases "evaluate env (kuberca_rules tier2) event c")
  ultimately show ?thesis
    using scan_rules_bookkeeping [of "kuberca_rules tier2" 0 ?s env event ans m c'] kuberca_rules_contract
      ev [unfolded evaluate_def]
    unfolding ev by simp
qed

end
