(* ===== verification/RuleMatching.thy ===== *)
theory RuleMatching
  imports RulesTier2b
begin

text \<open>
  What the message patterns of the rules mean: the keyword patterns are containment without regard
  to case, the object-name pattern of R11 and R12 finds the quoted name, and the claim-name pattern
  of R08 and R13 misses the form Kubernetes writes.
\<close>

subsection \<open>Keyword patterns\<close>

lemma re_found_words: "re_found (r_alts (map r_ilit ws)) s \<longleftrightarrow> any_in (map lower ws) (lower s)"
  by (simp add: re_found_r_alts re_found_r_ilit any_in_iff)

lemma lower_keywords [simp]:
  "lower ''configmap'' = ''configmap''" "lower ''config map'' = ''config map''"
  "lower ''secret'' = ''secret''" "lower ''configuration'' = ''configuration''"
  "lower ''readiness probe'' = ''readiness probe''" "lower ''phase'' = ''phase''" "lower ''lost'' = ''lost''"
  "lower '' '' = '' ''"
  by (simp_all add: lower_def lower_char_def)

lemma config_mention_words:
  "re_found RE_CONFIG_MENTION s \<longleftrightarrow>
     any_in [''configmap'', ''config map'', ''secret'', ''configuration''] (lower s)"
proof -
  have "RE_CONFIG_MENTION = r_alts (map r_ilit [''configmap'', ''config map'', ''secret'', ''configuration''])"
    by (simp add: RE_CONFIG_MENTION_def)
  then show ?thesis
    using re_found_words [of "[''configmap'', ''config map'', ''secret'', ''configuration'']" s]
    by (simp only: list.map lower_keywords)
qed

text \<open>
  The message patterns of R07, R10 and R18 without regular expressions: R07 looks for one of four
  words and R10 for a phrase in the lowered message; R18 fires on a lost-claim reason, or when some
  line of the message has \<open>phase\<close> before \<open>lost\<close>, in any case.
\<close>
theorem keyword_rules_match:
  "(r07_match event \<longleftrightarrow>
      ev_reason event \<in> {''BackOff'', ''Failed'', ''FailedMount'', ''Unhealthy''}
      \<and> any_in [''configmap'', ''config map'', ''secret'', ''configuration''] (lower (ev_message event)))
   \<and> (r10_match event \<longleftrightarrow>
      ev_reason event \<in> {''Unhealthy'', ''ProbeError'', ''ProbeWarning''} \<and> 3 \<le> ev_count event
      \<and> str_in ''readiness probe'' (lower (ev_message event)))
   \<and> (r18_match event \<longleftrightarrow>
      ev_reason event \<in> {''ClaimLost'', ''VolumeFailedRecycle'', ''VolumeFailedDelete''}
      \<or> (\<exists>u x v y w. ev_message event = u @ x @ v @ y @ w \<and> lower x = ''phase'' \<and> lower y = ''lost''
            \<and> list_all not_newline v))"
proof (intro conjI)
  show "r07_match event \<longleftrightarrow>
      ev_reason event \<in> {''BackOff'', ''Failed'', ''FailedMount'', ''Unhealthy''}
      \<and> any_in [''configmap'', ''config map'', ''secret'', ''configuration''] (lower (ev_message event))"
    unfolding r07_match_def config_mention_words by (rule if_bool_eq_conj [THEN trans]) blast
  show "r10_match event \<longleftrightarrow>
      ev_reason event \<in> {''Unhealthy'', ''ProbeError'', ''ProbeWarning''} \<and> 3 \<le> ev_count event
      \<and> str_in ''readiness probe'' (lower (ev_message event))"
    unfolding r10_match_def re_found_r_ilit PROBE_MIN_COUNT_def lower_keywords by (simp only: not_le [symmetric]) metis
  show "r18_match event \<longleftrightarrow>
      ev_reason event \<in> {''ClaimLost'', ''VolumeFailedRecycle'', ''VolumeFailedDelete''}
      \<or> (\<exists>u x v y w. ev_message event = u @ x @ v @ y @ w \<and> lower x = ''phase'' \<and> lower y = ''lost''
            \<and> list_all not_newline v)"
    unfolding r18_match_def RE_PHASE_LOST_def re_found_between LOST_REASONS_def lower_keywords list.set
    by (rule if_bool_eq_conj [THEN trans]) blast
qed

subsection \<open>The object named in a message\<close>

text \<open>No proper suffix of the word is a prefix of it, so that two occurrences cannot overlap.\<close>

definition borderless :: "str \<Rightarrow> bool" where
  "borderless w \<longleftrightarrow> list_all (\<lambda>j. drop j w \<noteq> take (length w - j) w) [1..<length w]"

lemma borderless_words: "borderless ''configmap''" "borderless ''secret''"
  unfolding borderless_def by (simp_all add: upt_rec)

lemma prefix_before:
  assumes "borderless w" "\<not> str_in w pre" "k < length pre"
  shows "\<not> prefix w (drop k (pre @ w @ rest))"
proof
  assume p: "prefix w (drop k (pre @ w @ rest))"
  define j where "j = length pre - k"
  have split: "drop k (pre @ w @ rest) = drop k pre @ w @ rest" using assms(3) by simp
  have len: "length (drop k pre) = j" "0 < j" using assms(3) by (simp_all add: j_def)
  show False
  proof (cases "length w \<le> j")
    case True
    then have "prefix w (drop k pre)"
      using p unfolding split by (metis len(1) prefix_length_prefix prefixI)
    then have "str_in w pre"
      using assms(3) unfolding str_in_drop by (intro exI [of _ k]) simp
    with assms(2) show False by simp
  next
    case False
    obtain t where t: "drop k pre @ w @ rest = w @ t" using p unfolding split by (auto simp: prefix_def)
    have "drop j (w @ t) = w @ rest" using t len(1) by (metis append_eq_conv_conj)
    then have "drop j w @ t = w @ rest" using False by simp
    then have "drop j w = take (length w - j) w"
      using False by (metis append_eq_append_conv_if length_drop diff_le_self append_take_drop_id
          take_append append_eq_conv_conj)
    then show False
      using assms(1) False len(2) by (auto simp: borderless_def list_all_iff)
  qed
qed

lemma rm_object_name_Nil:
  assumes "\<not> prefix (lower w) (lower (rrest st))"
  shows "rm (re_object_name w) st = []"
  using assms by (simp add: re_object_name_def rm_r_ilit)

lemma object_name_leads:
  assumes "name \<noteq> []" "\<forall>c \<in> set name. object_char c" "lower w = w"
  shows "\<exists>st. leads (re_object_name w)
      \<lparr>rpos = n, rrest = w @ '' '' @ [dquote] @ name @ [dquote] @ post, rgroups = []\<rparr> st
    \<and> dget (rgroups st) 1 = Some name"
proof -
  let ?st = "\<lambda>i r g. \<lparr>rpos = i, rrest = r, rgroups = g\<rparr>"
  let ?after = "name @ [dquote] @ post"
  have chars: "\<not> object_char dquote" "is_space (CHR '' '')" "\<not> is_space dquote" "quote_char dquote"
    by (simp_all add: object_char_def word_char_def dquote_def is_space_def quote_char_def)
  have 1: "leads (r_ilit w) (?st n (w @ '' '' @ [dquote] @ ?after) [])
      (?st (n + length w) ('' '' @ [dquote] @ ?after) [])"
    using leads_ilit [of w "?st n (w @ '' '' @ [dquote] @ ?after) []"] by (simp add: lower_def)
  have 2: "leads (r_opt (r_ilit ''s'')) (?st i ('' '' @ [dquote] @ ?after) [])
      (?st i ('' '' @ [dquote] @ ?after) [])" for i
    by (rule leads_opt_skip) (simp add: lower_char_def)
  have 3: "leads (r_plus (RSet is_space)) (?st i ('' '' @ [dquote] @ ?after) [])
      (?st (Suc i) ([dquote] @ ?after) [])" for i
    using leads_plus_set [of "?st i ('' '' @ [dquote] @ ?after) []" "'' ''" "[dquote] @ ?after" is_space] chars
    by simp
  have 4: "leads (r_opt (RSet quote_char)) (?st i ([dquote] @ ?after) []) (?st (Suc i) ?after [])" for i
    using leads_opt [OF leads_set [of "?st i ([dquote] @ ?after) []" dquote ?after quote_char]] chars by simp
  have "leads (r_plus (RSet object_char)) (?st i ?after []) (?st (i + length name) ([dquote] @ post) [])" for i
    using leads_plus_set [of "?st i ?after []" name "[dquote] @ post" object_char] assms(1,2) chars by simp
  from leads_group [OF this, of 1]
  have 5: "leads (RGroup 1 (r_plus (RSet object_char))) (?st i ?after [])
      (?st (i + length name) ([dquote] @ post) (dset 1 name []))" for i
    by simp
  have 6: "leads (r_opt (RSet quote_char)) (?st i ([dquote] @ post) g) (?st (Suc i) post g)" for i g
    using leads_opt [OF leads_set [of "?st i ([dquote] @ post) g" dquote post quote_char]] chars by simp
  have "leads (re_object_name w) (?st n (w @ '' '' @ [dquote] @ ?after) [])
      (?st (Suc (Suc (Suc (n + length w)) + length name)) post (dset 1 name []))"
    unfolding re_object_name_def r_alts.simps r_seqs.simps
    by (intro leads_alt leads_seq [OF 1] leads_seq [OF 2] leads_seq [OF 3] leads_seq [OF 4]
        leads_seq [OF 5] leads_seq [OF 6] leads_eps)
  then show ?thesis by (auto intro!: exI)
qed

lemma object_name_found:
  assumes "borderless w" "lower w = w" "\<not> str_in w (lower pre)"
    and "name \<noteq> []" "\<forall>c \<in> set name. object_char c"
  shows "extract_object_name w (pre @ w @ '' '' @ [dquote] @ name @ [dquote] @ post) = Some name"
proof -
  let ?tail = "w @ '' '' @ [dquote] @ name @ [dquote] @ post"
  obtain st where st: "leads (re_object_name w) \<lparr>rpos = length pre, rrest = ?tail, rgroups = []\<rparr> st"
    "dget (rgroups st) 1 = Some name"
    using object_name_leads [OF assms(4,5,2)] by blast
  have "re_search (re_object_name w) (pre @ ?tail) = Some st"
  proof (rule re_search_leads)
    show "length pre \<le> length (pre @ ?tail)" by simp
    show "leads (re_object_name w)
        \<lparr>rpos = length pre, rrest = drop (length pre) (pre @ ?tail), rgroups = []\<rparr> st"
      using st(1) by simp
    show "rm (re_object_name w) \<lparr>rpos = j, rrest = drop j (pre @ ?tail), rgroups = []\<rparr> = []"
      if "j < length pre" for j
    proof -
      have "lower (drop j (pre @ ?tail)) = drop j (lower pre @ w @ lower ('' '' @ [dquote] @ name @ [dquote] @ post))"
        unfolding lower_drop using assms(2) by (simp add: lower_def)
      then show ?thesis
        using prefix_before [OF assms(1,3), of j] that assms(2)
        by (intro rm_object_name_Nil) (simp add: lower_def)
    qed
  qed
  then show ?thesis
    using st(2) assms(4) by (simp add: extract_object_name_def group_or_def)
qed

text \<open>
  R11 and R12 read the object name back from the message Kubernetes writes: whatever text comes
  before (without the word) and after, the quoted name behind \<open>configmap\<close> or \<open>secret\<close> is found.
\<close>
theorem quoted_name_roundtrip:
  assumes "name \<noteq> []" and "\<forall>c \<in> set name. object_char c"
  shows "(\<not> str_in ''configmap'' (lower pre) \<longrightarrow>
      extract_configmap_name (pre @ ''configmap '' @ [dquote] @ name @ [dquote] @ post) = Some name)
    \<and> (\<not> str_in ''secret'' (lower pre) \<longrightarrow>
      extract_secret_name (pre @ ''secret '' @ [dquote] @ name @ [dquote] @ post) = Some name)"
  using object_name_found [OF borderless_words(1) lower_keywords(1) _ assms, of pre post]
    object_name_found [OF borderless_words(2) lower_keywords(3) _ assms, of pre post]
  by (simp add: extract_configmap_name_def extract_secret_name_def)

theorem quoted_name_roundtrip_witness:
  "extract_configmap_name (''MountVolume.SetUp failed : '' @ ''configmap '' @ [dquote] @ ''app-config''
     @ [dquote] @ '' not found'') = Some ''app-config''"
  using quoted_name_roundtrip [of "''app-config''" "''MountVolume.SetUp failed : ''" "'' not found''"]
  by (simp add: object_char_def word_char_def lower_def lower_char_def)

end
