(* ===== verification/DependencyGraph.thy ===== *)
theory DependencyGraph
  imports Models
begin

text \<open>
  \<open>kuberca/graph/dependency_graph.py\<close> and \<open>graph/models.py\<close>: the in-memory dependency graph with its
  two adjacency maps, the extraction of edges from a snapshot, breadth-first traversal up to a depth
  and the path search.  Names in owner references and volume sources are strings in the API; another
  value is rendered by \<open>str\<close>.
\<close>

datatype edge_type =
    OWNER_REFERENCE | VOLUME_BINDING | CONFIG_REFERENCE | SERVICE_SELECTOR | NODE_ASSIGNMENT | QUOTA_SCOPE

record graph_node =
  gn_kind :: str
  gn_namespace :: str
  gn_name :: str

definition node_of :: "rkey \<Rightarrow> graph_node" where
  "node_of k = \<lparr>gn_kind = fst k, gn_namespace = fst (snd k), gn_name = snd (snd k)\<rparr>"

definition node_key :: "graph_node \<Rightarrow> rkey" where
  "node_key n = (gn_kind n, gn_namespace n, gn_name n)"

record graph_edge =
  ge_source :: graph_node
  ge_target :: graph_node
  ge_type :: edge_type
  ge_field :: str
  ge_discovered_at :: instant

type_synonym adjacency = "(rkey, (rkey \<times> graph_edge) list) dict"

record graph =
  gr_nodes :: "(rkey, graph_node) dict"
  gr_forward :: adjacency
  gr_reverse :: adjacency

record dependency_result =
  dr_resources :: "graph_node list"
  dr_edges :: "graph_edge list"
  dr_depth :: nat
  dr_truncated :: bool

definition graph_init :: graph where
  "graph_init = \<lparr>gr_nodes = [], gr_forward = [], gr_reverse = []\<rparr>"

definition graph_node_count :: "graph \<Rightarrow> nat" where
  "graph_node_count g = length (gr_nodes g)"

definition graph_edge_count :: "graph \<Rightarrow> nat" where
  "graph_edge_count g = sum_list (map (\<lambda>(_, es). length es) (gr_forward g))"

definition get_node :: "graph \<Rightarrow> rkey \<Rightarrow> graph_node option" where
  "get_node g k = dget (gr_nodes g) k"

subsection \<open>Edges\<close>

abbreviation neighbours :: "adjacency \<Rightarrow> rkey \<Rightarrow> (rkey \<times> graph_edge) list" where
  "neighbours adj k \<equiv> dget_or [] adj k"

definition ensure_node :: "rkey \<Rightarrow> graph \<Rightarrow> graph" where
  "ensure_node k g =
     (if k \<in> set (dkeys (gr_nodes g)) then g else g\<lparr>gr_nodes := dset k (node_of k) (gr_nodes g)\<rparr>)"

definition add_edge :: "rkey \<Rightarrow> rkey \<Rightarrow> graph_edge \<Rightarrow> graph \<Rightarrow> graph" where
  "add_edge source_key target_key edge g =
     g\<lparr>gr_forward := dset source_key (neighbours (gr_forward g) source_key @ [(target_key, edge)]) (gr_forward g),
       gr_reverse := dset target_key (neighbours (gr_reverse g) target_key @ [(source_key, edge)]) (gr_reverse g)\<rparr>"

text \<open>Drop the entries of \<open>adj[k]\<close> that lead to \<open>key\<close>, when \<open>k\<close> has an entry.\<close>

definition drop_links :: "rkey \<Rightarrow> rkey \<Rightarrow> adjacency \<Rightarrow> adjacency" where
  "drop_links key k adj =
     (case dget adj k of None \<Rightarrow> adj | Some es \<Rightarrow> dset k (filter (\<lambda>(j, _). j \<noteq> key) es) adj)"

definition remove_edges_for :: "rkey \<Rightarrow> graph \<Rightarrow> graph" where
  "remove_edges_for key g =
     (case dget (gr_forward g) key of
        None \<Rightarrow> g
      | Some es \<Rightarrow>
          g\<lparr>gr_reverse := fold (\<lambda>(target_key, _). drop_links key target_key) es (gr_reverse g),
            gr_forward := dpop key (gr_forward g)\<rparr>)"

definition remove_resource :: "str \<Rightarrow> str \<Rightarrow> str \<Rightarrow> graph \<Rightarrow> graph" where
  "remove_resource kind ns name g =
     (let key = (kind, ns, name);
          g1 = remove_edges_for key g;
          g2 = (case dget (gr_reverse g1) key of
                  None \<Rightarrow> g1
                | Some es \<Rightarrow>
                    g1\<lparr>gr_forward := fold (\<lambda>(source_key, _). drop_links key source_key) es (gr_forward g1),
                       gr_reverse := dpop key (gr_reverse g1)\<rparr>)
      in g2\<lparr>gr_nodes := dpop key (gr_nodes g2)\<rparr>)"

subsection \<open>Extraction of edges from a snapshot\<close>

text \<open>A declared reference: the key it points at, the edge type and the field it comes from.\<close>

type_synonym reference = "rkey \<times> edge_type \<times> str"

definition named_ref :: "pydict \<Rightarrow> str \<Rightarrow> str \<Rightarrow> str \<Rightarrow> edge_type \<Rightarrow> str \<Rightarrow> reference list" where
  "named_ref d field kind ns ty path =
     (let v = vget (PStr '''') d field in
      if truthy v then [((kind, ns, py_str v), ty, path)] else [])"

definition owner_refs :: "str \<Rightarrow> pydict \<Rightarrow> reference list" where
  "owner_refs ns spec =
     (case vget (PDict []) spec ''metadata'' of
        PDict metadata \<Rightarrow>
          concat (map (\<lambda>ref. case ref of
              PDict r \<Rightarrow>
                (let k = vget (PStr '''') r ''kind''; n = vget (PStr '''') r ''name'' in
                 if truthy k \<and> truthy n
                 then [((py_str k, ns, py_str n), OWNER_REFERENCE, ''metadata.ownerReferences'')] else [])
            | _ \<Rightarrow> [])
            (list_or_empty (vget (PList []) metadata ''ownerReferences'')))
      | _ \<Rightarrow> [])"

definition sub_ref :: "pydict \<Rightarrow> str \<Rightarrow> str \<Rightarrow> str \<Rightarrow> str \<Rightarrow> edge_type \<Rightarrow> str \<Rightarrow> reference list" where
  "sub_ref d sub field kind ns ty path =
     (case vget PNone d sub of PDict r \<Rightarrow> named_ref r field kind ns ty path | _ \<Rightarrow> [])"

definition volume_refs :: "str \<Rightarrow> pyval \<Rightarrow> reference list" where
  "volume_refs ns vol =
     (case vol of
        PDict v \<Rightarrow>
          sub_ref v ''persistentVolumeClaim'' ''claimName'' ''PersistentVolumeClaim'' ns VOLUME_BINDING
            ''spec.volumes[*].persistentVolumeClaim.claimName''
          @ sub_ref v ''configMap'' ''name'' ''ConfigMap'' ns CONFIG_REFERENCE
              ''spec.volumes[*].configMap.name''
          @ sub_ref v ''secret'' ''secretName'' ''Secret'' ns CONFIG_REFERENCE
              ''spec.volumes[*].secret.secretName''
      | _ \<Rightarrow> [])"

definition env_from_refs :: "str \<Rightarrow> pyval \<Rightarrow> reference list" where
  "env_from_refs ns ef =
     (case ef of
        PDict e \<Rightarrow>
          sub_ref e ''configMapRef'' ''name'' ''ConfigMap'' ns CONFIG_REFERENCE
            ''spec.containers[*].envFrom[*].configMapRef''
          @ sub_ref e ''secretRef'' ''name'' ''Secret'' ns CONFIG_REFERENCE
              ''spec.containers[*].envFrom[*].secretRef''
      | _ \<Rightarrow> [])"

definition container_refs :: "str \<Rightarrow> pyval \<Rightarrow> reference list" where
  "container_refs ns container =
     (case container of
        PDict c \<Rightarrow> concat (map (env_from_refs ns) (list_or_empty (vget (PList []) c ''envFrom'')))
      | _ \<Rightarrow> [])"

definition pod_refs :: "str \<Rightarrow> pydict \<Rightarrow> reference list" where
  "pod_refs ns spec =
     (case vget (PDict spec) spec ''spec'' of
        PDict pod_spec \<Rightarrow>
          named_ref pod_spec ''nodeName'' ''Node'' '''' NODE_ASSIGNMENT ''spec.nodeName''
          @ concat (map (volume_refs ns) (list_or_empty (vget (PList []) pod_spec ''volumes'')))
          @ concat (map (container_refs ns) (list_or_empty (vget (PList []) pod_spec ''containers'')))
      | _ \<Rightarrow> [])"

text \<open>\<open>str(d.get("volumeName", "") or "")\<close>\<close>

definition volume_name :: "pydict \<Rightarrow> str" where
  "volume_name d = (let v = vget (PStr '''') d ''volumeName'' in if truthy v then py_str v else [])"

definition claim_refs :: "pydict \<Rightarrow> reference list" where
  "claim_refs spec =
     (let direct = volume_name spec;
          vn = (if direct \<noteq> [] then direct
                else (case vget (PDict []) spec ''spec'' of PDict inner \<Rightarrow> volume_name inner | _ \<Rightarrow> []))
      in if vn \<noteq> [] then [((''PersistentVolume'', '''', vn), VOLUME_BINDING, ''spec.volumeName'')] else [])"

definition declared_refs :: "resource_snapshot \<Rightarrow> reference list" where
  "declared_refs snap =
     owner_refs (sn_namespace snap) (sn_spec snap)
     @ (if sn_kind snap = ''Pod'' then pod_refs (sn_namespace snap) (sn_spec snap) else [])
     @ (if sn_kind snap = ''PersistentVolumeClaim'' then claim_refs (sn_spec snap) else [])"

definition link :: "instant \<Rightarrow> rkey \<Rightarrow> reference \<Rightarrow> graph \<Rightarrow> graph" where
  "link now key ref g =
     (let (target, ty, path) = ref; g1 = ensure_node target g in
      add_edge key target
        \<lparr>ge_source = node_of key, ge_target = dget_or (node_of target) (gr_nodes g1) target,
         ge_type = ty, ge_field = path, ge_discovered_at = now\<rparr> g1)"

definition quota_link :: "instant \<Rightarrow> resource_snapshot \<Rightarrow> rkey \<Rightarrow> graph \<Rightarrow> graph" where
  "quota_link now snap key g =
     (if sn_kind snap = ''ResourceQuota'' \<and> sn_namespace snap \<noteq> [] then
        let ns_key = (''Namespace'', '''', sn_namespace snap); g1 = ensure_node ns_key g in
        add_edge ns_key key
          \<lparr>ge_source = dget_or (node_of ns_key) (gr_nodes g1) ns_key, ge_target = node_of key,
           ge_type = QUOTA_SCOPE, ge_field = ''metadata.namespace'', ge_discovered_at = now\<rparr> g1
      else g)"

definition add_resource :: "instant \<Rightarrow> resource_snapshot \<Rightarrow> graph \<Rightarrow> graph" where
  "add_resource now snap g =
     (let key = (sn_kind snap, sn_namespace snap, sn_name snap);
          g1 = remove_edges_for key g;
          g2 = g1\<lparr>gr_nodes := dset key (node_of key) (gr_nodes g1)\<rparr>;
          g3 = fold (link now key) (declared_refs snap) g2
      in quota_link now snap key g3)"

subsection \<open>Traversal\<close>

text \<open>The loop state: visited keys, the next level, the nodes and edges found.\<close>

type_synonym visit = "rkey list \<times> rkey list \<times> graph_node list \<times> graph_edge list"

definition visit_edge :: "graph \<Rightarrow> rkey \<times> graph_edge \<Rightarrow> visit \<Rightarrow> visit" where
  "visit_edge g ke st =
     (let (k, e) = ke; (visited, next_level, nodes, edges) = st in
      if k \<in> set visited then st
      else (k # visited, next_level @ [k],
            (case dget (gr_nodes g) k of Some n \<Rightarrow> nodes @ [n] | None \<Rightarrow> nodes), edges @ [e]))"

definition visit_level :: "graph \<Rightarrow> adjacency \<Rightarrow> rkey list \<Rightarrow> visit \<Rightarrow> visit" where
  "visit_level g adj level st = fold (\<lambda>k. fold (visit_edge g) (neighbours adj k)) level st"

text \<open>
  The \<open>while\<close> loop by the depth that is left: the depth grows with every level that is not empty,
  and an empty level ends the loop.
\<close>

fun traverse_loop ::
  "graph \<Rightarrow> adjacency \<Rightarrow> nat \<Rightarrow> nat \<Rightarrow> rkey list \<Rightarrow> rkey list \<Rightarrow> graph_node list \<Rightarrow> graph_edge list
   \<Rightarrow> rkey list \<times> rkey list \<times> graph_node list \<times> graph_edge list \<times> nat" where
  "traverse_loop g adj 0 depth level visited nodes edges = (level, visited, nodes, edges, depth)"
| "traverse_loop g adj (Suc left) depth level visited nodes edges =
     (if level = [] then (level, visited, nodes, edges, depth)
      else
        let (visited', next_level, nodes', edges') = visit_level g adj level (visited, [], nodes, edges) in
        traverse_loop g adj left (if next_level \<noteq> [] then Suc depth else depth) next_level visited' nodes' edges')"

definition traverse :: "graph \<Rightarrow> adjacency \<Rightarrow> rkey \<Rightarrow> int \<Rightarrow> dependency_result" where
  "traverse g adj start max_depth =
     (if start \<notin> set (dkeys (gr_nodes g))
      then \<lparr>dr_resources = [], dr_edges = [], dr_depth = 0, dr_truncated = False\<rparr>
      else
        let (level, visited, nodes, edges, depth) =
              traverse_loop g adj (nat max_depth) 0 [start] [start] [] []
        in \<lparr>dr_resources = nodes, dr_edges = edges, dr_depth = depth,
            dr_truncated = level \<noteq> [] \<and> max_depth \<le> int depth
              \<and> list_ex (\<lambda>k. list_ex (\<lambda>(j, _). j \<notin> set visited) (neighbours adj k)) level\<rparr>)"

definition upstream :: "graph \<Rightarrow> rkey \<Rightarrow> int \<Rightarrow> dependency_result" where
  "upstream g k max_depth = traverse g (gr_reverse g) k max_depth"

definition downstream :: "graph \<Rightarrow> rkey \<Rightarrow> int \<Rightarrow> dependency_result" where
  "downstream g k max_depth = traverse g (gr_forward g) k max_depth"

subsection \<open>Path search\<close>

text \<open>One pass over the neighbours of a queue entry: a path to the target, or the grown queue.\<close>

type_synonym path_queue = "(rkey \<times> graph_edge list) list"

fun scan_neighbours ::
  "rkey \<Rightarrow> graph_edge list \<Rightarrow> (rkey \<times> graph_edge) list \<Rightarrow> rkey list \<Rightarrow> path_queue
   \<Rightarrow> graph_edge list + (rkey list \<times> path_queue)" where
  "scan_neighbours target path [] visited queue = Inr (visited, queue)"
| "scan_neighbours target path ((k, e) # nbs) visited queue =
     (if k \<in> set visited then scan_neighbours target path nbs visited queue
      else if k = target then Inl (path @ [e])
      else scan_neighbours target path nbs (k # visited) (queue @ [(k, path @ [e])]))"

definition all_links :: "graph \<Rightarrow> rkey \<Rightarrow> (rkey \<times> graph_edge) list" where
  "all_links g k = neighbours (gr_forward g) k @ neighbours (gr_reverse g) k"

definition linked_keys :: "graph \<Rightarrow> rkey set" where
  "linked_keys g = fst ` (\<Union>(_, es) \<in> set (gr_forward g) \<union> set (gr_reverse g). set es)"

lemma finite_linked_keys [simp]: "finite (linked_keys g)"
  unfolding linked_keys_def by (intro finite_imageI finite_UN_I) auto

lemma all_links_linked: "(k, e) \<in> set (all_links g j) \<Longrightarrow> k \<in> linked_keys g"
proof -
  assume "(k, e) \<in> set (all_links g j)"
  then obtain es where "(j, es) \<in> set (gr_forward g) \<union> set (gr_reverse g)" "(k, e) \<in> set es"
    unfolding all_links_def dget_or_def by (auto split: option.splits dest!: map_of_SomeD [OF sym])
  then show ?thesis unfolding linked_keys_def by (metis (mono_tags, lifting) UN_I case_prod_conv fst_conv image_iff)
qed

lemma scan_neighbours_measure:
  assumes "scan_neighbours target path nbs visited queue = Inr (visited', queue')"
    and "\<forall>(k, e) \<in> set nbs. k \<in> A" and "finite A"
  shows "length queue' + card (A - set visited') \<le> length queue + card (A - set visited)"
  using assms
proof (induction target path nbs visited queue rule: scan_neighbours.induct)
  case (2 target path k e nbs visited queue)
  show ?case
  proof (cases "k \<in> set visited")
    case False
    have "A - set (k # visited) = (A - set visited) - {k}" by auto
    moreover have "k \<in> A - set visited" using "2.prems" False by auto
    ultimately have c: "Suc (card (A - set (k # visited))) = card (A - set visited)"
      using "2.prems"(3) by (metis card_Suc_Diff1 finite_Diff)
    have "k \<noteq> target" using "2.prems"(1) False by auto
    then have "length queue' + card (A - set visited')
        \<le> length (queue @ [(k, path @ [e])]) + card (A - set (k # visited))"
      using 2 False by simp
    with c show ?thesis by simp
  qed (use 2 in auto)
qed simp

function path_loop :: "graph \<Rightarrow> rkey \<Rightarrow> rkey list \<Rightarrow> path_queue \<Rightarrow> graph_edge list option" where
  "path_loop g target visited [] = None"
| "path_loop g target visited ((k, path) # queue) =
     (case scan_neighbours target path (all_links g k) visited queue of
        Inl p \<Rightarrow> Some p
      | Inr (visited', queue') \<Rightarrow> path_loop g target visited' queue')"
  by pat_completeness auto
termination
proof (relation "measure (\<lambda>(g, target, visited, queue).
    length queue + card (linked_keys g - set visited))")
  fix g target visited k path queue x visited' queue'
  assume "scan_neighbours target path (all_links g k) visited queue = Inr x" "(visited', queue') = x"
  then have "length queue' + card (linked_keys g - set visited')
      \<le> length queue + card (linked_keys g - set visited)"
    by (intro scan_neighbours_measure) (auto intro: all_links_linked)
  then show "((g, target, visited', queue'), g, target, visited, (k, path) # queue)
      \<in> measure (\<lambda>(g, target, visited, queue). length queue + card (linked_keys g - set visited))"
    by simp
qed simp

definition path_between :: "graph \<Rightarrow> graph_node \<Rightarrow> graph_node \<Rightarrow> graph_edge list option" where
  "path_between g source target =
     (if node_key source = node_key target then Some []
      else path_loop g (node_key target) [node_key source] [(node_key source, [])])"

subsection \<open>The two adjacency maps mirror each other\<close>

declare split_paired_All [simp del] split_paired_Ex [simp del]

definition mirrored :: "graph \<Rightarrow> bool" where
  "mirrored g \<longleftrightarrow>
     (\<forall>s t e. count (mset (neighbours (gr_forward g) s)) (t, e) =
              count (mset (neighbours (gr_reverse g) t)) (s, e))"

definition edge_ok :: "graph \<Rightarrow> rkey \<Rightarrow> rkey \<times> graph_edge \<Rightarrow> bool" where
  "edge_ok g s te \<longleftrightarrow>
     (let (t, e) = te in dget (gr_nodes g) s = Some (ge_source e) \<and> dget (gr_nodes g) t = Some (ge_target e))"

definition nodes_ok :: "graph \<Rightarrow> bool" where
  "nodes_ok g \<longleftrightarrow> (\<forall>k n. dget (gr_nodes g) k = Some n \<longrightarrow> n = node_of k)"

definition graph_wf :: "graph \<Rightarrow> bool" where
  "graph_wf g \<longleftrightarrow>
     mirrored g \<and> nodes_ok g \<and> (\<forall>s. list_all (edge_ok g s) (neighbours (gr_forward g) s))"

definition not_via :: "rkey \<Rightarrow> rkey \<times> graph_edge \<Rightarrow> bool" where
  "not_via key je \<longleftrightarrow> fst je \<noteq> key"

lemma node_of_key [simp]: "node_key (node_of k) = k"
  by (simp add: node_key_def node_of_def)

lemma count_set: "x \<in> set xs \<longleftrightarrow> 0 < count (mset xs) x"
  by (metis count_greater_zero_iff set_mset_mset)

lemma mirrored_set:
  "mirrored g \<Longrightarrow> (t, e) \<in> set (neighbours (gr_forward g) s) \<longleftrightarrow> (s, e) \<in> set (neighbours (gr_reverse g) t)"
proof -
  assume "mirrored g"
  then have "count (mset (neighbours (gr_forward g) s)) (t, e) = count (mset (neighbours (gr_reverse g) t)) (s, e)"
    unfolding mirrored_def by blast
  then show ?thesis by (simp only: count_set)
qed

lemma drop_links_get:
  "neighbours (drop_links key k adj) j =
     (if j = k then filter (not_via key) (neighbours adj j) else neighbours adj j)"
  by (auto simp: drop_links_def dget_or_def not_via_def case_prod_unfold split: option.splits
      intro!: filter_cong)

lemma fold_drop_links_get:
  "neighbours (fold (\<lambda>(k, _). drop_links key k) es adj) j =
     (if j \<in> fst ` set es then filter (not_via key) (neighbours adj j) else neighbours adj j)"
  by (induction es arbitrary: adj) (auto simp: drop_links_get)

lemma remove_edges_for_forward:
  "neighbours (gr_forward (remove_edges_for key g)) s = (if s = key then [] else neighbours (gr_forward g) s)"
  by (auto simp: remove_edges_for_def dget_or_def split: option.splits)

lemma remove_edges_for_nodes [simp]: "gr_nodes (remove_edges_for key g) = gr_nodes g"
  by (simp add: remove_edges_for_def split: option.splits)

lemma remove_edges_for_reverse:
  assumes "mirrored g"
  shows "neighbours (gr_reverse (remove_edges_for key g)) t = filter (not_via key) (neighbours (gr_reverse g) t)"
proof -
  have "neighbours (gr_reverse (remove_edges_for key g)) t =
      (if t \<in> fst ` set (neighbours (gr_forward g) key)
       then filter (not_via key) (neighbours (gr_reverse g) t) else neighbours (gr_reverse g) t)"
    unfolding remove_edges_for_def
    by (cases "dget (gr_forward g) key") (simp_all add: fold_drop_links_get, simp_all add: dget_or_def)
  moreover have "filter (not_via key) (neighbours (gr_reverse g) t) = neighbours (gr_reverse g) t"
    if "t \<notin> fst ` set (neighbours (gr_forward g) key)"
    using that mirrored_set [OF assms, of t _ key] by (force simp: not_via_def filter_id_conv)
  ultimately show ?thesis by simp
qed

lemma mirrored_remove_edges_for: "mirrored g \<Longrightarrow> mirrored (remove_edges_for key g)"
  unfolding mirrored_def [of "remove_edges_for key g"]
  by (auto simp: remove_edges_for_forward remove_edges_for_reverse not_via_def)
     (simp_all add: mirrored_def)

lemma mirrored_add_edge: "mirrored g \<Longrightarrow> mirrored (add_edge s t e g)"
  by (simp add: mirrored_def add_edge_def)

lemma mirrored_nodes [simp]: "mirrored (g\<lparr>gr_nodes := ns\<rparr>) = mirrored g"
  by (simp add: mirrored_def)

lemma ensure_node_adj [simp]:
  "gr_forward (ensure_node k g) = gr_forward g" "gr_reverse (ensure_node k g) = gr_reverse g"
  by (simp_all add: ensure_node_def)

lemma mirrored_ensure_node [simp]: "mirrored (ensure_node k g) = mirrored g"
  by (simp add: mirrored_def)

lemma ensure_node_get:
  "dget (gr_nodes (ensure_node k g)) j =
     (if j = k \<and> dget (gr_nodes g) k = None then Some (node_of k) else dget (gr_nodes g) j)"
  by (auto simp: ensure_node_def dget_None_iff simp del: set_map)

lemma nodes_ok_ensure: "nodes_ok g \<Longrightarrow> nodes_ok (ensure_node k g)"
  by (auto simp: nodes_ok_def ensure_node_get)

lemma ensure_node_known: "nodes_ok g \<Longrightarrow> dget (gr_nodes (ensure_node k g)) k = Some (node_of k)"
  by (cases "dget (gr_nodes g) k") (auto simp: ensure_node_get nodes_ok_def)

lemma graph_wf_ensure:
  assumes "graph_wf g"
  shows "graph_wf (ensure_node k g)"
proof -
  have "edge_ok (ensure_node k g) s te" if "edge_ok g s te" for s te
    using that by (auto simp: edge_ok_def ensure_node_get split: prod.splits)
  then show ?thesis
    using assms by (auto simp: graph_wf_def nodes_ok_ensure list_all_iff)
qed

lemma graph_wf_add_edge:
  assumes "graph_wf g" "edge_ok g s (t, e)"
  shows "graph_wf (add_edge s t e g)"
proof -
  have ok: "edge_ok (add_edge s t e g) = edge_ok g" and n: "nodes_ok (add_edge s t e g) = nodes_ok g"
    by (simp_all add: edge_ok_def nodes_ok_def add_edge_def fun_eq_iff)
  show ?thesis
    using assms unfolding graph_wf_def ok n by (auto simp: mirrored_add_edge) (simp add: add_edge_def)
qed

lemma link_wf:
  assumes "graph_wf g" "dget (gr_nodes g) key = Some (node_of key)"
  shows "graph_wf (link now key ref g) \<and> dget (gr_nodes (link now key ref g)) key = Some (node_of key)"
proof -
  obtain t ty p where ref: "ref = (t, ty, p)" by (cases ref)
  let ?g = "ensure_node t g"
  have wf: "graph_wf ?g" using assms by (intro graph_wf_ensure)
  have t: "dget (gr_nodes ?g) t = Some (node_of t)"
    using assms by (intro ensure_node_known) (simp add: graph_wf_def)
  have k: "dget (gr_nodes ?g) key = Some (node_of key)" using assms by (simp add: ensure_node_get)
  show ?thesis
    using wf t k by (auto simp: link_def ref Let_def dget_or_def edge_ok_def intro!: graph_wf_add_edge)
      (simp add: add_edge_def)
qed

lemma links_wf:
  assumes "graph_wf g" "dget (gr_nodes g) key = Some (node_of key)"
  shows "graph_wf (fold (link now key) refs g)
    \<and> dget (gr_nodes (fold (link now key) refs g)) key = Some (node_of key)"
  using assms by (induction refs arbitrary: g) (simp_all add: link_wf)

lemma quota_link_wf:
  assumes "graph_wf g" "dget (gr_nodes g) key = Some (node_of key)"
  shows "graph_wf (quota_link now snap key g)"
proof -
  let ?n = "(''Namespace'', '''', sn_namespace snap)"
  let ?g = "ensure_node ?n g"
  have "graph_wf ?g" using assms by (intro graph_wf_ensure)
  moreover have "dget (gr_nodes ?g) ?n = Some (node_of ?n)"
    using assms by (intro ensure_node_known) (simp add: graph_wf_def)
  moreover have "dget (gr_nodes ?g) key = Some (node_of key)" using assms by (simp add: ensure_node_get)
  ultimately show ?thesis
    using assms(1) by (auto simp: quota_link_def Let_def dget_or_def edge_ok_def intro!: graph_wf_add_edge)
qed

lemma remove_edges_for_wf: "graph_wf g \<Longrightarrow> graph_wf (remove_edges_for key g)"
  by (auto simp: graph_wf_def mirrored_remove_edges_for remove_edges_for_forward nodes_ok_def edge_ok_def
      list_all_iff)

lemma set_node_wf:
  assumes "graph_wf g"
  shows "graph_wf (g\<lparr>gr_nodes := dset key (node_of key) (gr_nodes g)\<rparr>)"
proof -
  have "edge_ok (g\<lparr>gr_nodes := dset key (node_of key) (gr_nodes g)\<rparr>) s te" if "edge_ok g s te" for s te
    using that assms by (auto simp: edge_ok_def graph_wf_def nodes_ok_def)
  then show ?thesis
    using assms by (auto simp: graph_wf_def nodes_ok_def list_all_iff)
qed

lemma add_resource_wf [wf_intros]:
  assumes "graph_wf g"
  shows "graph_wf (add_resource now snap g)"
proof -
  let ?key = "(sn_kind snap, sn_namespace snap, sn_name snap)"
  let ?g1 = "remove_edges_for ?key g"
  have "graph_wf (?g1\<lparr>gr_nodes := dset ?key (node_of ?key) (gr_nodes ?g1)\<rparr>)"
    using assms by (intro set_node_wf remove_edges_for_wf)
  then have "graph_wf (fold (link now ?key) (declared_refs snap)
        (?g1\<lparr>gr_nodes := dset ?key (node_of ?key) (gr_nodes ?g1)\<rparr>)) \<and>
      dget (gr_nodes (fold (link now ?key) (declared_refs snap)
        (?g1\<lparr>gr_nodes := dset ?key (node_of ?key) (gr_nodes ?g1)\<rparr>))) ?key = Some (node_of ?key)"
    by (rule links_wf) simp
  then show ?thesis
    unfolding add_resource_def Let_def by (blast intro: quota_link_wf)
qed

subsection \<open>Removing a resource\<close>

lemma remove_resource_adj:
  fixes kind ns name :: str
  assumes "mirrored g"
  defines "r \<equiv> remove_resource kind ns name g" and "key \<equiv> (kind, ns, name)"
  shows "neighbours (gr_forward r) s = (if s = key then [] else filter (not_via key) (neighbours (gr_forward g) s))"
    and "neighbours (gr_reverse r) t = (if t = key then [] else filter (not_via key) (neighbours (gr_reverse g) t))"
    and "dget (gr_nodes r) k = (if k = key then None else dget (gr_nodes g) k)"
proof -
  let ?g1 = "remove_edges_for key g"
  have m1: "mirrored ?g1" using assms(1) by (rule mirrored_remove_edges_for)
  have fwd: "neighbours (gr_forward r) s =
      (if s \<in> fst ` set (neighbours (gr_reverse ?g1) key)
       then filter (not_via key) (neighbours (gr_forward ?g1) s) else neighbours (gr_forward ?g1) s)"
    unfolding r_def remove_resource_def key_def [symmetric] Let_def
    by (cases "dget (gr_reverse ?g1) key") (simp_all add: fold_drop_links_get, simp_all add: dget_or_def)
  have "filter (not_via key) (neighbours (gr_forward ?g1) s) = neighbours (gr_forward ?g1) s"
    if "s \<notin> fst ` set (neighbours (gr_reverse ?g1) key)"
    using that mirrored_set [OF m1, of key _ s] by (force simp: not_via_def filter_id_conv)
  with fwd show "neighbours (gr_forward r) s =
      (if s = key then [] else filter (not_via key) (neighbours (gr_forward g) s))"
    by (auto simp: remove_edges_for_forward)
  have "neighbours (gr_reverse r) t = (if t = key then [] else neighbours (gr_reverse ?g1) t)"
    unfolding r_def remove_resource_def key_def [symmetric] Let_def
    by (cases "dget (gr_reverse ?g1) key") (auto simp: dget_or_def)
  then show "neighbours (gr_reverse r) t =
      (if t = key then [] else filter (not_via key) (neighbours (gr_reverse g) t))"
    by (simp add: remove_edges_for_reverse [OF assms(1)])
  show "dget (gr_nodes r) k = (if k = key then None else dget (gr_nodes g) k)"
    unfolding r_def remove_resource_def key_def [symmetric] Let_def
    by (cases "dget (gr_reverse ?g1) key") simp_all
qed

lemma remove_resource_wf [wf_intros]:
  assumes "graph_wf g"
  shows "graph_wf (remove_resource kind ns name g)"
proof -
  let ?r = "remove_resource kind ns name g" and ?k = "(kind, ns, name)"
  have m: "mirrored g" using assms by (simp add: graph_wf_def)
  note adj = remove_resource_adj [OF m, of kind ns name]
  have "mirrored ?r"
    using m unfolding mirrored_def adj by (auto simp: not_via_def)
  moreover have "nodes_ok ?r" using assms by (simp add: nodes_ok_def graph_wf_def adj)
  moreover have "edge_ok ?r s te" if "te \<in> set (neighbours (gr_forward ?r) s)" for s te
  proof -
    from that have "s \<noteq> ?k" "fst te \<noteq> ?k" "te \<in> set (neighbours (gr_forward g) s)"
      by (auto simp: adj not_via_def split: if_splits)
    moreover from this(3) have "edge_ok g s te" using assms by (auto simp: graph_wf_def list_all_iff)
    ultimately show ?thesis by (auto simp: edge_ok_def adj split: prod.splits)
  qed
  ultimately show ?thesis by (auto simp: graph_wf_def list_all_iff)
qed

lemma graph_init_wf [wf_intros]: "graph_wf graph_init"
  by (simp add: graph_wf_def graph_init_def mirrored_def nodes_ok_def dget_or_def)

subsection \<open>The outgoing edges of a resource are its declared references\<close>

definition edge_of :: "instant \<Rightarrow> rkey \<Rightarrow> reference \<Rightarrow> rkey \<times> graph_edge" where
  "edge_of now key ref =
     (let (t, ty, path) = ref in
      (t, \<lparr>ge_source = node_of key, ge_target = node_of t, ge_type = ty, ge_field = path,
           ge_discovered_at = now\<rparr>))"

lemma link_forward:
  assumes "nodes_ok g"
  shows "neighbours (gr_forward (link now key ref g)) s =
    (if s = key then neighbours (gr_forward g) s @ [edge_of now key ref] else neighbours (gr_forward g) s)"
  using ensure_node_known [OF assms]
  by (auto simp: link_def add_edge_def edge_of_def Let_def dget_or_def split: prod.splits)

lemma link_nodes_ok: "nodes_ok g \<Longrightarrow> nodes_ok (link now key ref g)"
  using nodes_ok_ensure [of g] by (auto simp: link_def add_edge_def nodes_ok_def Let_def split: prod.splits)

lemma links_forward:
  "nodes_ok g \<Longrightarrow> neighbours (gr_forward (fold (link now key) refs g)) s =
    (if s = key then neighbours (gr_forward g) s @ map (edge_of now key) refs else neighbours (gr_forward g) s)"
  by (induction refs arbitrary: g) (auto simp: link_forward link_nodes_ok)

lemma links_nodes_ok: "nodes_ok g \<Longrightarrow> nodes_ok (fold (link now key) refs g)"
  by (induction refs arbitrary: g) (auto simp: link_nodes_ok)

definition snapshot_key :: "resource_snapshot \<Rightarrow> rkey" where
  "snapshot_key snap = (sn_kind snap, sn_namespace snap, sn_name snap)"

definition quota_key :: "resource_snapshot \<Rightarrow> rkey" where
  "quota_key snap = (''Namespace'', '''', sn_namespace snap)"

lemma add_resource_forward:
  assumes "graph_wf g"
  shows "neighbours (gr_forward (add_resource now snap g)) s =
    (if s = snapshot_key snap then map (edge_of now s) (declared_refs snap) else neighbours (gr_forward g) s)
    @ (if sn_kind snap = ''ResourceQuota'' \<and> sn_namespace snap \<noteq> [] \<and> s = quota_key snap
       then [(snapshot_key snap,
              \<lparr>ge_source = node_of (quota_key snap), ge_target = node_of (snapshot_key snap),
               ge_type = QUOTA_SCOPE, ge_field = ''metadata.namespace'', ge_discovered_at = now\<rparr>)]
       else [])"
proof -
  let ?key = "snapshot_key snap"
  let ?g1 = "remove_edges_for ?key g"
  let ?g2 = "?g1\<lparr>gr_nodes := dset ?key (node_of ?key) (gr_nodes ?g1)\<rparr>"
  let ?g3 = "fold (link now ?key) (declared_refs snap) ?g2"
  have ok2: "nodes_ok ?g2" using assms by (simp add: nodes_ok_def graph_wf_def)
  then have ok3: "nodes_ok ?g3" by (rule links_nodes_ok)
  have f3: "neighbours (gr_forward ?g3) s =
      (if s = ?key then map (edge_of now s) (declared_refs snap) else neighbours (gr_forward g) s)"
    using links_forward [OF ok2, of now ?key "declared_refs snap" s]
    by (simp add: remove_edges_for_forward)
  have "dget (gr_nodes (ensure_node (quota_key snap) ?g3)) (quota_key snap) = Some (node_of (quota_key snap))"
    using ok3 by (rule ensure_node_known)
  then show ?thesis
    using f3 unfolding add_resource_def Let_def snapshot_key_def [symmetric]
    by (auto simp: quota_link_def Let_def add_edge_def quota_key_def [symmetric] dget_or_def)
qed

subsection \<open>Breadth-first traversal\<close>

definition nbr :: "adjacency \<Rightarrow> rkey set \<Rightarrow> rkey set" where
  "nbr adj S = {j. \<exists>k \<in> S. \<exists>e. (j, e) \<in> set (neighbours adj k)}"

text \<open>The keys at most \<open>n\<close> edges away.\<close>

fun within :: "adjacency \<Rightarrow> nat \<Rightarrow> rkey \<Rightarrow> rkey set" where
  "within adj 0 s = {s}"
| "within adj (Suc n) s = within adj n s \<union> nbr adj (within adj n s)"

definition adj_known :: "graph \<Rightarrow> adjacency \<Rightarrow> bool" where
  "adj_known g adj \<longleftrightarrow>
     (\<forall>s j e. (j, e) \<in> set (neighbours adj s) \<longrightarrow> dget (gr_nodes g) j = Some (node_of j))"

lemma nbr_Un: "nbr adj (A \<union> B) = nbr adj A \<union> nbr adj B"
  by (auto simp: nbr_def)

lemma nbr_mono: "A \<subseteq> B \<Longrightarrow> nbr adj A \<subseteq> nbr adj B"
  by (auto simp: nbr_def)

lemma graph_wf_known:
  assumes "graph_wf g"
  shows "adj_known g (gr_forward g)" "adj_known g (gr_reverse g)"
proof -
  have ok: "edge_ok g s te" if "te \<in> set (neighbours (gr_forward g) s)" for s te
    using that assms by (auto simp: graph_wf_def list_all_iff)
  have known: "dget (gr_nodes g) k = Some n \<Longrightarrow> n = node_of k" for k n
    using assms by (simp add: graph_wf_def nodes_ok_def)
  have m: "mirrored g" using assms by (simp add: graph_wf_def)
  show "adj_known g (gr_forward g)"
    unfolding adj_known_def using ok known by (fastforce simp: edge_ok_def)
  show "adj_known g (gr_reverse g)"
    unfolding adj_known_def using ok known mirrored_set [OF m] by (fastforce simp: edge_ok_def)
qed

text \<open>What is visited is the start and the nodes reported, in order.\<close>

definition visit_inv :: "rkey \<Rightarrow> visit \<Rightarrow> bool" where
  "visit_inv start st \<longleftrightarrow>
     (let (visited, next_level, nodes, edges) = st in
      rev visited = start # map node_key nodes \<and> distinct visited)"

lemma visit_edge_seen: "j \<in> set visited \<Longrightarrow> visit_edge g (j, e) (visited, rest) = (visited, rest)"
  by (cases rest) (simp add: visit_edge_def)

lemma visit_edge_new:
  "j \<notin> set visited \<Longrightarrow> dget (gr_nodes g) j = Some n \<Longrightarrow>
     visit_edge g (j, e) (visited, nx, nodes, edges) = (j # visited, nx @ [j], nodes @ [n], edges @ [e])"
  by (simp add: visit_edge_def)

lemma nbr_split: "A \<subseteq> B \<Longrightarrow> nbr adj B = nbr adj (B - A) \<union> nbr adj A"
  by (auto simp: nbr_def)

lemma visit_edges:
  assumes "\<forall>(j, e) \<in> set nbs. dget (gr_nodes g) j = Some (node_of j)"
    and "visit_inv start (visited, nx, nodes, edges)"
    and "fold (visit_edge g) nbs (visited, nx, nodes, edges) = (visited', nx', nodes', edges')"
  shows "visit_inv start (visited', nx', nodes', edges') \<and> set visited' = set visited \<union> fst ` set nbs
    \<and> set nx' = set nx \<union> (fst ` set nbs - set visited)"
  using assms
proof (induction nbs arbitrary: visited nx nodes edges)
  case (Cons ke nbs)
  obtain j e where ke: "ke = (j, e)" by (cases ke)
  show ?case
  proof (cases "j \<in> set visited")
    case True
    then have "fold (visit_edge g) nbs (visited, nx, nodes, edges) = (visited', nx', nodes', edges')"
      using Cons.prems(3) by (simp add: ke visit_edge_seen)
    with Cons.IH [OF _ Cons.prems(2)] Cons.prems(1) True show ?thesis by (auto simp: ke)
  next
    case False
    then have "fold (visit_edge g) nbs (j # visited, nx @ [j], nodes @ [node_of j], edges @ [e]) =
        (visited', nx', nodes', edges')"
      using Cons.prems(1,3) by (simp add: ke visit_edge_new)
    moreover have "visit_inv start (j # visited, nx @ [j], nodes @ [node_of j], edges @ [e])"
      using Cons.prems(2) False by (auto simp: visit_inv_def)
    ultimately show ?thesis using Cons.IH [of "j # visited"] Cons.prems(1) False by (auto simp: ke)
  qed
qed simp

lemma visit_level_step:
  assumes "adj_known g adj" "visit_inv start (visited, nx, nodes, edges)"
    and "visit_level g adj level (visited, nx, nodes, edges) = (visited', nx', nodes', edges')"
  shows "visit_inv start (visited', nx', nodes', edges') \<and> set visited' = set visited \<union> nbr adj (set level)
    \<and> set nx' = set nx \<union> (nbr adj (set level) - set visited)"
  using assms(2,3)
proof (induction level arbitrary: visited nx nodes edges)
  case Nil
  then show ?case by (simp add: visit_level_def nbr_def)
next
  case (Cons k level)
  obtain v n ns es where one: "fold (visit_edge g) (neighbours adj k) (visited, nx, nodes, edges) = (v, n, ns, es)"
    by (metis prod_cases4)
  have kn: "\<forall>(j, e) \<in> set (neighbours adj k). dget (gr_nodes g) j = Some (node_of j)"
    using assms(1) by (auto simp: adj_known_def)
  note s1 = visit_edges [OF kn Cons.prems(1) one]
  have rest: "visit_level g adj level (v, n, ns, es) = (visited', nx', nodes', edges')"
    using Cons.prems(2) one by (simp add: visit_level_def)
  have "nbr adj (set (k # level)) = fst ` set (neighbours adj k) \<union> nbr adj (set level)"
    by (force simp: nbr_def)
  with Cons.IH [OF _ rest] s1 show ?case by auto
qed

lemma traverse_loop_inv:
  assumes "adj_known g adj"
    and "visit_inv start (visited, [], nodes, edges)" "set visited = within adj i start"
    and "set level \<subseteq> set visited" "nbr adj (set visited - set level) \<subseteq> set visited"
    and "level \<noteq> [] \<longrightarrow> depth = i"
    and "traverse_loop g adj left depth level visited nodes edges = (level', visited', nodes', edges', depth')"
  shows "visit_inv start (visited', [], nodes', edges') \<and> set visited' = within adj (i + left) start
    \<and> set level' \<subseteq> set visited' \<and> nbr adj (set visited' - set level') \<subseteq> set visited'
    \<and> (level' \<noteq> [] \<longrightarrow> depth' = i + left)"
  using assms(2-)
proof (induction left arbitrary: i depth level visited nodes edges)
  case (Suc left)
  have split: "nbr adj (set visited) \<subseteq> set visited \<union> nbr adj (set level)"
    unfolding nbr_split [OF Suc.prems(3)] using Suc.prems(4) by blast
  show ?case
  proof (cases "level = []")
    case True
    have stable: "within adj (i + n) start = within adj i start" for n
    proof (induction n)
      case (Suc n)
      then show ?case using split True \<open>set visited = within adj i start\<close> by (auto simp: nbr_def)
    qed simp
    show ?thesis using Suc.prems True stable [of "Suc left"] by auto
  next
    case False
    obtain v nx ns es where lev: "visit_level g adj level (visited, [], nodes, edges) = (v, nx, ns, es)"
      by (metis prod_cases4)
    note step = visit_level_step [OF assms(1) Suc.prems(1) lev]
    have v: "set v = within adj (Suc i) start"
      using step split Suc.prems(2,3) nbr_mono [OF Suc.prems(3), of adj] by auto
    have d: "set v - set nx = set visited" using step by auto
    have "visit_inv start (v, [], ns, es)" using step by (auto simp: visit_inv_def)
    moreover have "set nx \<subseteq> set v" using step by auto
    moreover have "nbr adj (set v - set nx) \<subseteq> set v" using d split step by auto
    moreover have "traverse_loop g adj left (if nx \<noteq> [] then Suc depth else depth) nx v ns es =
        (level', visited', nodes', edges', depth')"
      using Suc.prems(6) False lev by simp
    ultimately show ?thesis
      using Suc.IH [of v ns es "Suc i" nx "if nx \<noteq> [] then Suc depth else depth"] v Suc.prems(5) False
      by auto
  qed
qed simp

lemma traverse_correct:
  assumes "adj_known g adj" "start \<in> set (dkeys (gr_nodes g))" "0 \<le> d"
  shows "distinct (map node_key (dr_resources (traverse g adj start d)))
    \<and> set (map node_key (dr_resources (traverse g adj start d))) = within adj (nat d) start - {start}
    \<and> (dr_truncated (traverse g adj start d) \<longleftrightarrow>
         within adj (Suc (nat d)) start \<noteq> within adj (nat d) start)"
proof -
  obtain level visited nodes edges depth where
    loop: "traverse_loop g adj (nat d) 0 [start] [start] [] [] = (level, visited, nodes, edges, depth)"
    by (metis prod_cases5)
  have "visit_inv start ([start], [], [], [])" by (simp add: visit_inv_def)
  then have "visit_inv start (visited, [], nodes, edges) \<and> set visited = within adj (0 + nat d) start
    \<and> set level \<subseteq> set visited \<and> nbr adj (set visited - set level) \<subseteq> set visited
    \<and> (level \<noteq> [] \<longrightarrow> depth = 0 + nat d)"
    by (rule traverse_loop_inv [OF assms(1) _ _ _ _ _ loop]) (auto simp: nbr_def)
  then have inv: "rev visited = start # map node_key nodes" "distinct visited"
    and vis: "set visited = within adj (nat d) start" and sub: "set level \<subseteq> set visited"
    and old: "nbr adj (set visited - set level) \<subseteq> set visited" and dep: "level \<noteq> [] \<longrightarrow> depth = nat d"
    unfolding visit_inv_def Let_def prod.case add_0 by blast+
  have r: "dr_resources (traverse g adj start d) = nodes"
    "dr_truncated (traverse g adj start d) \<longleftrightarrow>
       level \<noteq> [] \<and> d \<le> int depth \<and> \<not> nbr adj (set level) \<subseteq> set visited"
    using assms(2) by (auto simp: traverse_def loop nbr_def list_ex_iff simp del: set_map)
  have dn: "distinct (start # map node_key nodes)" using inv by (metis distinct_rev)
  have "set visited = insert start (set (map node_key nodes))" using inv by (metis list.simps(15) set_rev)
  with dn vis have "set (map node_key nodes) = within adj (nat d) start - {start}" by auto
  moreover have "within adj (Suc (nat d)) start = set visited \<union> nbr adj (set visited)"
    using vis by simp
  then have "within adj (Suc (nat d)) start \<noteq> within adj (nat d) start \<longleftrightarrow>
      \<not> nbr adj (set level) \<subseteq> set visited"
    using old vis nbr_split [OF sub, of adj] by blast
  moreover have "level = [] \<Longrightarrow> nbr adj (set level) = {}" by (simp add: nbr_def)
  moreover have "level \<noteq> [] \<Longrightarrow> d \<le> int depth" using dep assms(3) by simp
  ultimately show ?thesis unfolding r using dn by (metis distinct.simps(2) empty_subsetI)
qed

subsection \<open>Path search\<close>

text \<open>A chain of edges, each taken in either direction.\<close>

fun chain :: "graph \<Rightarrow> rkey \<Rightarrow> graph_edge list \<Rightarrow> rkey \<Rightarrow> bool" where
  "chain g k [] t = (k = t)"
| "chain g k (e # es) t = list_ex (\<lambda>(j, e'). e' = e \<and> chain g j es t) (all_links g k)"

definition linked :: "graph \<Rightarrow> (rkey \<times> rkey) set" where
  "linked g = {(k, j). \<exists>e. (j, e) \<in> set (all_links g k)}"

lemma chain_Cons: "chain g k (e # es) t \<longleftrightarrow> (\<exists>j. (j, e) \<in> set (all_links g k) \<and> chain g j es t)"
  by (force simp: list_ex_iff)

declare chain.simps(2) [simp del] chain_Cons [simp]

lemma chain_snoc: "chain g s p k \<Longrightarrow> (j, e) \<in> set (all_links g k) \<Longrightarrow> chain g s (p @ [e]) j"
proof (induction p arbitrary: s)
  case (Cons a p)
  then show ?case unfolding append_Cons chain_Cons by blast
qed simp

lemma chain_linked: "chain g s p t \<Longrightarrow> (s, t) \<in> (linked g)\<^sup>*"
proof (induction p arbitrary: s)
  case (Cons e p)
  then obtain j where "(j, e) \<in> set (all_links g s)" "chain g j p t" unfolding chain_Cons by blast
  then have "(s, j) \<in> linked g" "(j, t) \<in> (linked g)\<^sup>*" using Cons.IH by (auto simp: linked_def)
  then show ?case by (rule converse_rtrancl_into_rtrancl)
qed simp

definition queue_ok :: "graph \<Rightarrow> rkey \<Rightarrow> path_queue \<Rightarrow> bool" where
  "queue_ok g s queue \<longleftrightarrow> (\<forall>(k, p) \<in> set queue. chain g s p k)"

lemma scan_found:
  assumes "scan_neighbours target path nbs visited queue = Inl p" "chain g s path k"
    and "set nbs \<subseteq> set (all_links g k)"
  shows "chain g s p target"
  using assms
  by (induction target path nbs visited queue rule: scan_neighbours.induct)
     (auto split: if_splits intro: chain_snoc)

lemma scan_grown:
  assumes "scan_neighbours target path nbs visited queue = Inr (visited', queue')" "chain g s path k"
    and "set nbs \<subseteq> set (all_links g k)" "queue_ok g s queue" "target \<notin> set visited"
    and "fst ` set queue \<subseteq> set visited"
  shows "queue_ok g s queue' \<and> target \<notin> set visited' \<and> set visited' = set visited \<union> fst ` set nbs
    \<and> fst ` set queue' \<subseteq> set visited'
    \<and> set visited' - fst ` set queue' \<subseteq> set visited - fst ` set queue"
  using assms
proof (induction target path nbs visited queue rule: scan_neighbours.induct)
  case (2 target path j e nbs visited queue)
  show ?case
  proof (cases "j \<in> set visited")
    case True
    then have "scan_neighbours target path nbs visited queue = Inr (visited', queue')"
      using "2.prems"(1) by simp
    then have ih: "queue_ok g s queue' \<and> target \<notin> set visited' \<and> set visited' = set visited \<union> fst ` set nbs
        \<and> fst ` set queue' \<subseteq> set visited'
        \<and> set visited' - fst ` set queue' \<subseteq> set visited - fst ` set queue"
      using "2.prems"(2-) by (intro "2.IH"(1) [OF True]) simp_all
    have eq: "set visited \<union> fst ` set ((j, e) # nbs) = set visited \<union> fst ` set nbs"
      using True by auto
    show ?thesis unfolding eq by (rule ih)
  next
    case False
    then have jt: "j \<noteq> target" using "2.prems"(1) by auto
    have "chain g s (path @ [e]) j" using "2.prems"(2,3) by (intro chain_snoc) auto
    then have q: "queue_ok g s (queue @ [(j, path @ [e])])" using "2.prems"(4) by (simp add: queue_ok_def)
    have scan: "scan_neighbours target path nbs (j # visited) (queue @ [(j, path @ [e])]) = Inr (visited', queue')"
      using "2.prems"(1) False jt by simp
    have sub: "fst ` set (queue @ [(j, path @ [e])]) \<subseteq> set (j # visited)"
      using "2.prems"(6) by (simp add: subset_insertI2)
    have ih: "queue_ok g s queue' \<and> target \<notin> set visited'
        \<and> set visited' = set (j # visited) \<union> fst ` set nbs \<and> fst ` set queue' \<subseteq> set visited'
        \<and> set visited' - fst ` set queue' \<subseteq> set (j # visited) - fst ` set (queue @ [(j, path @ [e])])"
      using "2.prems"(3,5) jt by (intro "2.IH"(2) [OF False jt scan "2.prems"(2) _ q _ sub]) simp_all
    have eq: "set visited \<union> fst ` set ((j, e) # nbs) = set (j # visited) \<union> fst ` set nbs" by auto
    have less: "set (j # visited) - fst ` set (queue @ [(j, path @ [e])]) \<subseteq> set visited - fst ` set queue"
      by auto
    show ?thesis
      unfolding eq using ih by (elim conjE, intro conjI) (assumption+, erule subset_trans, rule less)
  qed
qed simp

lemma path_loop_correct:
  assumes "queue_ok g s queue" "target \<notin> set visited" "s \<in> set visited" "fst ` set queue \<subseteq> set visited"
    and "\<forall>k \<in> set visited - fst ` set queue. fst ` set (all_links g k) \<subseteq> set visited"
  shows "case path_loop g target visited queue of
      Some p \<Rightarrow> chain g s p target | None \<Rightarrow> (s, target) \<notin> (linked g)\<^sup>*"
  using assms
proof (induction g target visited queue rule: path_loop.induct)
  case (1 g target visited)
  have "(s, k) \<in> (linked g)\<^sup>* \<Longrightarrow> k \<in> set visited" for k
    by (induction rule: rtrancl_induct) (use 1 in \<open>force simp: linked_def\<close>)+
  with 1(2) have "(s, target) \<notin> (linked g)\<^sup>*" by blast
  then show ?case by simp
next
  case (2 g target visited k path queue)
  have ch: "chain g s path k" and q: "queue_ok g s queue" using "2.prems"(1) by (auto simp: queue_ok_def)
  show ?case
  proof (cases "scan_neighbours target path (all_links g k) visited queue")
    case (Inl p)
    then show ?thesis using scan_found [OF Inl ch] by simp
  next
    case (Inr vq)
    obtain v' q' where vq: "vq = (v', q')" by (cases vq)
    note grown = scan_grown [OF Inr [unfolded vq] ch order_refl q "2.prems"(2)]
    have g: "queue_ok g s q' \<and> target \<notin> set v' \<and> set v' = set visited \<union> fst ` set (all_links g k)
        \<and> fst ` set q' \<subseteq> set v' \<and> set v' - fst ` set q' \<subseteq> set visited - fst ` set queue"
      using "2.prems"(4) by (intro grown) simp
    have "fst ` set (all_links g j) \<subseteq> set v'" if "j \<in> set v' - fst ` set q'" for j
    proof (cases "j = k")
      case False
      from that g have "j \<in> set visited - fst ` set queue" by blast
      with False have "j \<in> set visited - fst ` set ((k, path) # queue)" by simp
      with "2.prems"(5) have "fst ` set (all_links g j) \<subseteq> set visited" by blast
      then show ?thesis using g by (metis le_supI1)
    next
      case True
      have "fst ` set (all_links g k) \<subseteq> set v'" using g by blast
      with True show ?thesis by simp
    qed
    then have "case path_loop g target v' q' of
        Some p \<Rightarrow> chain g s p target | None \<Rightarrow> (s, target) \<notin> (linked g)\<^sup>*"
      using g "2.prems"(3) by (intro "2.IH" [OF Inr vq [symmetric]]) auto
    then show ?thesis using Inr vq by simp
  qed
qed

subsection \<open>Properties\<close>

fun graph_run :: "(instant \<times> resource_snapshot + rkey) list \<Rightarrow> graph \<Rightarrow> graph" where
  "graph_run [] g = g"
| "graph_run (Inl (now, snap) # ops) g = graph_run ops (add_resource now snap g)"
| "graph_run (Inr (kind, ns, name) # ops) g = graph_run ops (remove_resource kind ns name g)"

lemma graph_run_wf: "graph_wf g \<Longrightarrow> graph_wf (graph_run ops g)"
  by (induction ops g rule: graph_run.induct) (auto intro: wf_intros)

text \<open>A pod assigned to a node and a quota of its namespace.\<close>

definition demo_pod :: resource_snapshot where
  "demo_pod =
     \<lparr>sn_kind = ''Pod'', sn_namespace = ''default'', sn_name = ''web'', sn_spec_hash = ''h'',
      sn_spec = [(''spec'', PDict [(''nodeName'', PStr ''n1'')])], sn_captured_at = 0,
      sn_resource_version = ''1''\<rparr>"

definition demo_quota :: resource_snapshot where
  "demo_quota = demo_pod\<lparr>sn_kind := ''ResourceQuota'', sn_name := ''q'', sn_spec := []\<rparr>"

definition demo_graph :: graph where
  "demo_graph = graph_run [Inl (0, demo_pod)] graph_init"

lemma demo_graph_wf: "graph_wf demo_graph"
  unfolding demo_graph_def by (intro graph_run_wf graph_init_wf)

lemma demo_graph_node: "(''Pod'', ''default'', ''web'') \<in> set (dkeys (gr_nodes demo_graph))"
  by code_simp

text \<open>
  C4: every operation keeps the graph consistent: the forward and the reverse adjacency mirror each
  other edge by edge, and both ends of every edge are known nodes.
\<close>

theorem graph_stays_consistent: "graph_wf (graph_run ops graph_init)"
  by (intro graph_run_wf graph_init_wf)

text \<open>
  C15: \<open>upstream\<close> and \<open>downstream\<close> report, without duplicates, exactly the other resources at most
  \<open>max_depth\<close> edges away, and \<open>truncated\<close> says exactly whether there is one a step further.
\<close>

theorem traversal_is_bounded_reachability:
  assumes "graph_wf g" and "start \<in> set (dkeys (gr_nodes g))" and "0 \<le> max_depth"
  shows "distinct (map node_key (dr_resources (downstream g start max_depth)))
    \<and> set (map node_key (dr_resources (downstream g start max_depth))) =
        within (gr_forward g) (nat max_depth) start - {start}
    \<and> (dr_truncated (downstream g start max_depth) \<longleftrightarrow>
         within (gr_forward g) (Suc (nat max_depth)) start \<noteq> within (gr_forward g) (nat max_depth) start)
    \<and> set (map node_key (dr_resources (upstream g start max_depth))) =
        within (gr_reverse g) (nat max_depth) start - {start}"
  unfolding downstream_def upstream_def
  using traverse_correct [OF graph_wf_known(1) [OF assms(1)] assms(2,3)]
    traverse_correct [OF graph_wf_known(2) [OF assms(1)] assms(2,3)] by blast

theorem traversal_is_bounded_reachability_witness:
  "set (map node_key (dr_resources (downstream demo_graph (''Pod'', ''default'', ''web'') 3))) =
     within (gr_forward demo_graph) 3 (''Pod'', ''default'', ''web'') - {(''Pod'', ''default'', ''web'')}"
  using traversal_is_bounded_reachability [OF demo_graph_wf demo_graph_node, of 3] by simp

text \<open>
  C30: \<open>path_between\<close> terminates with a chain of edges, each taken in either direction, from the
  source to the target, and with \<open>None\<close> only when there is none.
\<close>

theorem path_between_correct:
  "case path_between g source target of
     Some p \<Rightarrow> chain g (node_key source) p (node_key target)
   | None \<Rightarrow> (node_key source, node_key target) \<notin> (linked g)\<^sup>*"
proof (cases "node_key source = node_key target")
  case False
  have "case path_loop g (node_key target) [node_key source] [(node_key source, [])] of
      Some p \<Rightarrow> chain g (node_key source) p (node_key target)
    | None \<Rightarrow> (node_key source, node_key target) \<notin> (linked g)\<^sup>*"
    using False by (intro path_loop_correct) (auto simp: queue_ok_def)
  with False show ?thesis by (simp add: path_between_def)
qed (simp add: path_between_def)

text \<open>
  after \<open>remove_resource\<close> the resource is gone with every edge at either end of it, and all other
  nodes and edges are as before.
\<close>

theorem remove_resource_is_local:
  assumes "graph_wf g"
  shows "get_node (remove_resource kind ns name g) k =
      (if k = (kind, ns, name) then None else get_node g k)
    \<and> neighbours (gr_forward (remove_resource kind ns name g)) k =
      (if k = (kind, ns, name) then [] else filter (not_via (kind, ns, name)) (neighbours (gr_forward g) k))
    \<and> neighbours (gr_reverse (remove_resource kind ns name g)) k =
      (if k = (kind, ns, name) then [] else filter (not_via (kind, ns, name)) (neighbours (gr_reverse g) k))"
  using assms by (simp add: remove_resource_adj graph_wf_def get_node_def)

theorem remove_resource_is_local_witness:
  "get_node (remove_resource ''Pod'' ''default'' ''web'' demo_graph) (''Pod'', ''default'', ''web'') = None"
  using remove_resource_is_local [OF demo_graph_wf] by simp

text \<open>
  after \<open>add_resource\<close> of anything but a quota, the outgoing edges of the resource are exactly the
  references its snapshot declares, whatever was there before, and no other outgoing edge changes.
\<close>

theorem add_resource_replaces_edges:
  assumes "graph_wf g" and "sn_kind snap \<noteq> ''ResourceQuota''"
  shows "neighbours (gr_forward (add_resource now snap g)) k =
    (if k = snapshot_key snap then map (edge_of now k) (declared_refs snap)
     else neighbours (gr_forward g) k)"
  using assms by (simp add: add_resource_forward)

theorem add_resource_replaces_edges_witness:
  "map fst (neighbours (gr_forward (add_resource 5 demo_pod demo_graph)) (''Pod'', ''default'', ''web'')) =
     [(''Node'', '''', ''n1'')]"
proof -
  have k: "sn_kind demo_pod \<noteq> ''ResourceQuota''"
    and key: "snapshot_key demo_pod = (''Pod'', ''default'', ''web'')"
    by (simp_all add: demo_pod_def snapshot_key_def)
  have refs: "map fst (declared_refs demo_pod) = [(''Node'', '''', ''n1'')]"
    by code_simp
  have "neighbours (gr_forward (add_resource 5 demo_pod demo_graph)) (''Pod'', ''default'', ''web'') =
      map (edge_of 5 (''Pod'', ''default'', ''web'')) (declared_refs demo_pod)"
    using add_resource_replaces_edges [OF demo_graph_wf k, of 5 "(''Pod'', ''default'', ''web'')"] key by simp
  then show ?thesis using refs by (simp add: edge_of_def comp_def case_prod_unfold)
qed

text \<open>
  a quota update is not idempotent: every \<open>add_resource\<close> of the same ResourceQuota appends one
  more edge from its namespace.
\<close>

theorem quota_edges_accumulate:
  assumes "graph_wf g" and "sn_kind snap = ''ResourceQuota''" and "sn_namespace snap \<noteq> []"
  shows "length (neighbours (gr_forward ((add_resource now snap ^^ n) g)) (quota_key snap)) =
    n + length (neighbours (gr_forward g) (quota_key snap))"
proof -
  have ne: "quota_key snap \<noteq> snapshot_key snap"
    using assms(2) by (simp add: quota_key_def snapshot_key_def)
  have "graph_wf ((add_resource now snap ^^ n) g)" for n
    by (induction n) (simp_all add: assms(1) add_resource_wf)
  then show ?thesis
    by (induction n) (simp_all add: add_resource_forward assms(2,3) ne)
qed

theorem quota_edges_accumulate_witness:
  "length (neighbours (gr_forward ((add_resource 0 demo_quota ^^ 2) graph_init)) (''Namespace'', '''', ''default'')) = 2"
proof -
  have q: "sn_kind demo_quota = ''ResourceQuota''" "sn_namespace demo_quota \<noteq> []"
    and key: "quota_key demo_quota = (''Namespace'', '''', ''default'')"
    by (simp_all add: demo_quota_def demo_pod_def quota_key_def)
  have "length (neighbours (gr_forward ((add_resource 0 demo_quota ^^ 2) graph_init)) (quota_key demo_quota)) =
      2 + length (neighbours (gr_forward graph_init) (quota_key demo_quota))"
    by (rule quota_edges_accumulate [OF graph_init_wf q])
  moreover have "length (neighbours (gr_forward graph_init) (quota_key demo_quota)) = 0"
    by (simp add: graph_init_def dget_or_def)
  ultimately show ?thesis unfolding key by linarith
qed

end
