(* ===== verification/CooldownGate.thy ===== *)
theory CooldownGate
  imports PyTime
begin

text \<open>
  The interface of the two alert filters, the scout's per-(resource, reason) cooldown and the
  deduplicator of the notification dispatcher.  A provider lets an item through only when the last
  one with the same key is at least the cooldown away, and remembers exactly the items it let
  through; the clients' lemmas bound how often one key gets through.
\<close>

text \<open>The items a stateful filter lets through, in order, and the state it ends in.\<close>

fun passed :: "('e \<Rightarrow> 's \<Rightarrow> bool \<times> 's) \<Rightarrow> 'e list \<Rightarrow> 's \<Rightarrow> 'e list" where
  "passed step [] s = []"
| "passed step (e # es) s =
     (let (ok, s') = step e s in if ok then e # passed step es s' else passed step es s')"

text \<open>Consecutive times are at least \<open>gap\<close> apart.\<close>

fun spaced :: "duration \<Rightarrow> instant list \<Rightarrow> bool" where
  "spaced gap (s # t # ts) \<longleftrightarrow> gap \<le> t - s \<and> spaced gap (t # ts)"
| "spaced gap _ \<longleftrightarrow> True"

lemma spaced_Cons: "spaced gap (t # ts) \<longleftrightarrow> (case ts of [] \<Rightarrow> True | u # _ \<Rightarrow> gap \<le> u - t) \<and> spaced gap ts"
  by (cases ts) auto

text \<open>Spaced times inside an interval: at most one more than the gaps that fit.\<close>

lemma spaced_span:
  "spaced gap (t # ts) \<Longrightarrow> int (length ts) * gap \<le> last (t # ts) - t"
proof (induction ts arbitrary: t)
  case (Cons u ts)
  then have "int (length ts) * gap \<le> last (u # ts) - u" "gap \<le> u - t" by simp_all
  then show ?case by (simp add: algebra_simps)
qed simp

lemma spaced_count:
  assumes "spaced gap ts" "0 < gap" "\<forall>t \<in> set ts. lo \<le> t \<and> t \<le> hi" "lo \<le> hi"
  shows "int (length ts) \<le> (hi - lo) div gap + 1"
proof (cases ts)
  case Nil
  then show ?thesis using assms(2,4) by (simp add: pos_imp_zdiv_nonneg_iff)
next
  case (Cons u us)
  have "last ts \<in> set ts" using Cons by simp
  then have "last (u # us) - u \<le> hi - lo" using assms(3) Cons by fastforce
  then have "int (length us) * gap \<le> hi - lo"
    using spaced_span [OF assms(1) [unfolded Cons]] by linarith
  from zdiv_mono1 [OF this assms(2)] have "int (length us) \<le> (hi - lo) div gap" using assms(2) by simp
  then show ?thesis by (simp add: Cons)
qed

locale cooldown_gate =
  fixes step :: "'e \<Rightarrow> 's \<Rightarrow> bool \<times> 's"
    and key :: "'e \<Rightarrow> 'k"
    and time :: "'e \<Rightarrow> instant"
    and last_at :: "'s \<Rightarrow> 'k \<Rightarrow> instant option"
    and cooldown :: "'s \<Rightarrow> duration"
  assumes passes_only_cold:
      "fst (step e s) \<Longrightarrow> case last_at s (key e) of None \<Rightarrow> True | Some t \<Rightarrow> cooldown s \<le> time e - t"
    and remembers: "last_at (snd (step e s)) k =
      (if fst (step e s) \<and> k = key e then Some (time e) else last_at s k)"
    and keeps_cooldown: "cooldown (snd (step e s)) = cooldown s"
begin

definition times_of :: "'k \<Rightarrow> 'e list \<Rightarrow> instant list" where
  "times_of k es = map time (filter (\<lambda>e. key e = k) es)"

lemma passed_spaced_from:
  "spaced (cooldown s) ((case last_at s k of None \<Rightarrow> [] | Some t \<Rightarrow> [t]) @ times_of k (passed step es s))"
proof (induction es arbitrary: s)
  case Nil
  then show ?case by (simp add: times_of_def split: option.splits)
next
  case (Cons e es)
  let ?s = "snd (step e s)"
  note ih = Cons.IH [of ?s, unfolded keeps_cooldown]
  show ?case
  proof (cases "fst (step e s) \<and> key e = k")
    case True
    then have "last_at ?s k = Some (time e)" by (simp add: remembers)
    with ih have "spaced (cooldown s) (time e # times_of k (passed step es ?s))" by simp
    moreover have "case last_at s k of None \<Rightarrow> True | Some t \<Rightarrow> cooldown s \<le> time e - t"
      using True passes_only_cold [of e s] by simp
    moreover have "times_of k (passed step (e # es) s) = time e # times_of k (passed step es ?s)"
      using True by (simp add: times_of_def case_prod_beta)
    ultimately show ?thesis by (auto split: option.splits)
  next
    case False
    then have "last_at ?s k = last_at s k" by (auto simp: remembers)
    moreover have "times_of k (passed step (e # es) s) = times_of k (passed step es ?s)"
      using False by (auto simp: times_of_def case_prod_beta)
    ultimately show ?thesis using ih by simp
  qed
qed

lemma passed_spaced: "spaced (cooldown s) (times_of k (passed step es s))"
  using passed_spaced_from [of s k es] by (auto simp: spaced_Cons split: option.splits list.splits)

lemma passed_subset: "set (passed step es s) \<subseteq> set es"
  by (induction es arbitrary: s) (auto simp: case_prod_beta split: if_splits)

text \<open>The storm bound: in an interval, one key gets through at most once per cooldown, plus once.\<close>

lemma passed_bound:
  assumes "0 < cooldown s" "\<forall>e \<in> set es. lo \<le> time e \<and> time e \<le> hi" "lo \<le> hi"
  shows "int (length (filter (\<lambda>e. key e = k) (passed step es s))) \<le> (hi - lo) div cooldown s + 1"
proof -
  have "\<forall>t \<in> set (times_of k (passed step es s)). lo \<le> t \<and> t \<le> hi"
    using assms(2) passed_subset by (fastforce simp: times_of_def)
  from spaced_count [OF passed_spaced assms(1) this assms(3)]
  show ?thesis by (simp add: times_of_def)
qed

end

end
