(* ===== verification/Scout.thy ===== *)
theory Scout
  imports Models CooldownGate
begin

text \<open>
  \<open>kuberca/scout/detector.py\<close>: the anomaly detector with its threshold rules, its rate-of-change
  windows and the per-(resource, reason) cooldown.  A summary template is its parsed form: literal
  text and fields; formatting a field the caller does not supply is the \<open>KeyError\<close> of
  \<open>str.format\<close>.  The alert callback and the alert ids are not modelled.
\<close>

definition key_error :: py_exn where "key_error = OtherError ''KeyError''"

subsection \<open>Rules\<close>

datatype tfield = FReason | FKind | FNamespace | FName | FCount | FDelta | FWindow
datatype tpiece = Lit str | Fld tfield
type_synonym template = "tpiece list"

fun format_template :: "(tfield \<Rightarrow> str option) \<Rightarrow> template \<Rightarrow> str option" where
  "format_template args [] = Some []"
| "format_template args (Lit s # ps) = map_option ((@) s) (format_template args ps)"
| "format_template args (Fld f # ps) =
     (case args f of
        None \<Rightarrow> None
      | Some s \<Rightarrow> map_option ((@) s) (format_template args ps))"

record threshold_rule =
  tr_reason :: str
  tr_threshold :: int
  tr_min_severity :: severity
  tr_template :: template

record rate_rule =
  rt_reason :: str
  rt_delta :: int
  rt_window :: duration
  rt_min_severity :: severity
  rt_template :: template

record rate_window =
  rw_first_count :: int
  rw_first_seen :: instant
  rw_last_count :: int
  rw_last_seen :: instant

definition on_resource :: "str \<Rightarrow> template \<Rightarrow> template" where
  "on_resource title rest =
     Lit (title @ '': '') # Fld FKind # Lit ''/'' # Fld FNamespace # Lit ''/'' # Fld FName # rest"

definition threshold :: "str \<Rightarrow> int \<Rightarrow> severity \<Rightarrow> template \<Rightarrow> threshold_rule" where
  "threshold reason n sev t =
     \<lparr>tr_reason = reason, tr_threshold = n, tr_min_severity = sev, tr_template = t\<rparr>"

definition DEFAULT_THRESHOLD_RULES :: "threshold_rule list" where
  "DEFAULT_THRESHOLD_RULES =
     [threshold ''OOMKilled'' 3 WARNING (on_resource ''OOMKilled'' [Lit '' killed '', Fld FCount, Lit '' times'']),
      threshold ''OOMKilling'' 3 WARNING
        (on_resource ''OOMKilling'' [Lit '' killing process ('', Fld FCount, Lit '' events)'']),
      threshold ''BackOff'' 5 WARNING
        (on_resource ''CrashLoopBackOff'' [Lit '' back-off '', Fld FCount, Lit '' times'']),
      threshold ''FailedScheduling'' 3 WARNING
        (on_resource ''FailedScheduling'' [Lit '' ('', Fld FCount, Lit '' failures)'']),
      threshold ''ImagePullBackOff'' 3 WARNING
        (on_resource ''ImagePullBackOff'' [Lit '' ('', Fld FCount, Lit '' failures)'']),
      threshold ''ErrImagePull'' 3 WARNING
        (on_resource ''ErrImagePull'' [Lit '' ('', Fld FCount, Lit '' failures)'']),
      threshold ''FailedMount'' 3 WARNING
        (on_resource ''FailedMount'' [Lit '' ('', Fld FCount, Lit '' failures)'']),
      threshold ''NodeNotReady'' 1 ERROR
        (on_resource ''NodeNotReady'' [Lit '' ('', Fld FCount, Lit '' events)'']),
      threshold ''MemoryPressure'' 1 WARNING
        [Lit ''MemoryPressure: node '', Fld FKind, Lit ''/'', Fld FNamespace, Lit ''/'', Fld FName],
      threshold ''DiskPressure'' 1 WARNING
        [Lit ''DiskPressure: node '', Fld FKind, Lit ''/'', Fld FNamespace, Lit ''/'', Fld FName]]"

definition rate :: "str \<Rightarrow> int \<Rightarrow> duration \<Rightarrow> template \<Rightarrow> rate_rule" where
  "rate reason n window t =
     \<lparr>rt_reason = reason, rt_delta = n, rt_window = window, rt_min_severity = WARNING, rt_template = t\<rparr>"

definition DEFAULT_RATE_RULES :: "rate_rule list" where
  "DEFAULT_RATE_RULES =
     [rate ''BackOff'' 5 (minutes 5)
        (on_resource ''Rapid CrashLoop escalation''
          [Lit '' +'', Fld FDelta, Lit '' back-offs in '', Fld FWindow]),
      rate ''OOMKilled'' 3 (minutes 10)
        (on_resource ''Rapid OOM escalation'' [Lit '' +'', Fld FDelta, Lit '' OOM kills in '', Fld FWindow]),
      rate ''FailedScheduling'' 5 (minutes 5)
        (on_resource ''Rapid scheduling failures''
          [Lit '' +'', Fld FDelta, Lit '' failures in '', Fld FWindow])]"

subsection \<open>The detector\<close>

type_synonym alert_key = "str \<times> str \<times> str \<times> str"

record detector =
  dt_cooldown :: duration
  dt_threshold_rules :: "threshold_rule list"
  dt_rate_rules :: "rate_rule list"
  dt_cooldowns :: "(alert_key, instant) dict"
  dt_windows :: "(alert_key, rate_window) dict"

definition detector_init :: "str \<Rightarrow> py_exn + detector" where
  "detector_init cooldown =
     (case parse_duration cooldown of
        Inl e \<Rightarrow> Inl e
      | Inr d \<Rightarrow> Inr \<lparr>dt_cooldown = d, dt_threshold_rules = DEFAULT_THRESHOLD_RULES,
          dt_rate_rules = DEFAULT_RATE_RULES, dt_cooldowns = [], dt_windows = []\<rparr>)"

definition add_threshold_rule :: "threshold_rule \<Rightarrow> detector \<Rightarrow> detector" where
  "add_threshold_rule r d = d\<lparr>dt_threshold_rules := dt_threshold_rules d @ [r]\<rparr>"

definition add_rate_rule :: "rate_rule \<Rightarrow> detector \<Rightarrow> detector" where
  "add_rate_rule r d = d\<lparr>dt_rate_rules := dt_rate_rules d @ [r]\<rparr>"

definition set_cooldown :: "str \<Rightarrow> detector \<Rightarrow> py_exn + detector" where
  "set_cooldown cooldown d =
     (case parse_duration cooldown of Inl e \<Rightarrow> Inl e | Inr c \<Rightarrow> Inr (d\<lparr>dt_cooldown := c\<rparr>))"

definition clear_cooldown :: "alert_key \<Rightarrow> detector \<Rightarrow> detector" where
  "clear_cooldown key d = d\<lparr>dt_cooldowns := dpop key (dt_cooldowns d)\<rparr>"

definition clear_all_cooldowns :: "detector \<Rightarrow> detector" where
  "clear_all_cooldowns d = d\<lparr>dt_cooldowns := []\<rparr>"

definition event_key :: "event_record \<Rightarrow> alert_key" where
  "event_key e = (ev_namespace e, ev_kind e, ev_name e, ev_reason e)"

definition in_cooldown :: "detector \<Rightarrow> event_record \<Rightarrow> bool" where
  "in_cooldown d e \<longleftrightarrow>
     (case dget (dt_cooldowns d) (event_key e) of
        None \<Rightarrow> False
      | Some last_alert \<Rightarrow> ev_last_seen e - last_alert < dt_cooldown d)"

definition record_alert :: "event_record \<Rightarrow> detector \<Rightarrow> detector" where
  "record_alert e d = d\<lparr>dt_cooldowns := dset (event_key e) (ev_last_seen e) (dt_cooldowns d)\<rparr>"

definition alert_for :: "event_record \<Rightarrow> str \<Rightarrow> anomaly_alert" where
  "alert_for e summary =
     \<lparr>al_severity = ev_severity e, al_kind = ev_kind e, al_name = ev_name e, al_namespace = ev_namespace e,
      al_reason = ev_reason e, al_summary = summary, al_detected_at = ev_last_seen e,
      al_count = ev_count e, al_source_events = [ev_id e]\<rparr>"

definition severity_meets_minimum :: "severity \<Rightarrow> severity \<Rightarrow> bool" where
  "severity_meets_minimum actual minimum \<longleftrightarrow> severity_rank minimum \<le> severity_rank actual"

fun event_field :: "event_record \<Rightarrow> tfield \<Rightarrow> str option" where
  "event_field e FReason = Some (ev_reason e)"
| "event_field e FKind = Some (ev_kind e)"
| "event_field e FNamespace = Some (ev_namespace e)"
| "event_field e FName = Some (ev_name e)"
| "event_field e _ = None"

definition threshold_args :: "event_record \<Rightarrow> tfield \<Rightarrow> str option" where
  "threshold_args e f = (if f = FCount then Some (show_int (ev_count e)) else event_field e f)"

definition rate_args :: "event_record \<Rightarrow> int \<Rightarrow> str \<Rightarrow> tfield \<Rightarrow> str option" where
  "rate_args e delta window f =
     (if f = FDelta then Some (show_int delta) else if f = FWindow then Some window
      else event_field e f)"

definition format_timedelta :: "duration \<Rightarrow> str" where
  "format_timedelta td =
     (let total_seconds = (if 0 \<le> td then td div 1000000 else - ((- td) div 1000000)) in
      if total_seconds mod 3600 = 0 then show_int (total_seconds div 3600) @ ''h''
      else if total_seconds mod 60 = 0 then show_int (total_seconds div 60) @ ''m''
      else show_int total_seconds @ ''s'')"

definition meets_threshold :: "event_record \<Rightarrow> threshold_rule \<Rightarrow> bool" where
  "meets_threshold e r \<longleftrightarrow>
     tr_reason r = ev_reason e \<and> severity_meets_minimum (ev_severity e) (tr_min_severity r)
     \<and> tr_threshold r \<le> ev_count e"

fun threshold_alert :: "detector \<Rightarrow> event_record \<Rightarrow> threshold_rule list \<Rightarrow> py_exn + anomaly_alert option" where
  "threshold_alert d e [] = Inr None"
| "threshold_alert d e (r # rs) =
     (if \<not> meets_threshold e r then threshold_alert d e rs
      else if in_cooldown d e then Inr None
      else case format_template (threshold_args e) (tr_template r) of
          None \<Rightarrow> Inl key_error
        | Some summary \<Rightarrow> Inr (Some (alert_for e summary)))"

definition fresh_window :: "event_record \<Rightarrow> rate_window" where
  "fresh_window e =
     \<lparr>rw_first_count = ev_count e, rw_first_seen = ev_last_seen e,
      rw_last_count = ev_count e, rw_last_seen = ev_last_seen e\<rparr>"

definition slide_window :: "event_record \<Rightarrow> rate_rule \<Rightarrow> rate_window \<Rightarrow> rate_window" where
  "slide_window e r w =
     (if rt_window r < ev_last_seen e - rw_first_seen w then fresh_window e
      else w\<lparr>rw_last_count := ev_count e, rw_last_seen := ev_last_seen e\<rparr>)"

definition window_delta :: "rate_window \<Rightarrow> int" where
  "window_delta w = max 0 (rw_last_count w - rw_first_count w)"

fun rate_alert ::
  "detector \<Rightarrow> event_record \<Rightarrow> rate_rule list \<Rightarrow> (alert_key, rate_window) dict
   \<Rightarrow> (py_exn + anomaly_alert option) \<times> (alert_key, rate_window) dict" where
  "rate_alert d e [] ws = (Inr None, ws)"
| "rate_alert d e (r # rs) ws =
     (if rt_reason r \<noteq> ev_reason e \<or> \<not> severity_meets_minimum (ev_severity e) (rt_min_severity r)
      then rate_alert d e rs ws
      else case dget ws (event_key e) of
          None \<Rightarrow> rate_alert d e rs (dset (event_key e) (fresh_window e) ws)
        | Some w0 \<Rightarrow>
            let w = slide_window e r w0; ws' = dset (event_key e) w ws in
            if window_delta w < rt_delta r then rate_alert d e rs ws'
            else if in_cooldown d e then (Inr None, ws')
            else (case format_template
                    (rate_args e (window_delta w) (format_timedelta (rt_window r))) (rt_template r) of
                  None \<Rightarrow> Inl key_error
                | Some summary \<Rightarrow> Inr (Some (alert_for e summary)), ws'))"

definition process_event :: "event_record \<Rightarrow> detector \<Rightarrow> (py_exn + anomaly_alert option) \<times> detector" where
  "process_event e d =
     (case threshold_alert d e (dt_threshold_rules d) of
        Inl exc \<Rightarrow> (Inl exc, d)
      | Inr (Some a) \<Rightarrow> (Inr (Some a), record_alert e d)
      | Inr None \<Rightarrow>
          (case rate_alert d e (dt_rate_rules d) (dt_windows d) of
             (Inl exc, ws) \<Rightarrow> (Inl exc, d\<lparr>dt_windows := ws\<rparr>)
           | (Inr None, ws) \<Rightarrow> (Inr None, d\<lparr>dt_windows := ws\<rparr>)
           | (Inr (Some a), ws) \<Rightarrow> (Inr (Some a), record_alert e (d\<lparr>dt_windows := ws\<rparr>))))"

subsection \<open>The cooldown\<close>

definition scout_step :: "event_record \<Rightarrow> detector \<Rightarrow> bool \<times> detector" where
  "scout_step e d =
     (case fst (process_event e d) of Inr (Some a) \<Rightarrow> True | _ \<Rightarrow> False, snd (process_event e d))"

lemma threshold_alert_cold: "threshold_alert d e rs = Inr (Some a) \<Longrightarrow> \<not> in_cooldown d e"
  by (induction rs) (auto split: if_splits)

lemma rate_alert_cold: "rate_alert d e rs ws = (Inr (Some a), ws') \<Longrightarrow> \<not> in_cooldown d e"
  by (induction rs arbitrary: ws) (auto simp: Let_def split: if_splits option.splits)

lemma process_event_cold:
  assumes "fst (process_event e d) = Inr (Some a)"
  shows "\<not> in_cooldown d e"
  using assms
  by (auto simp: process_event_def dest: threshold_alert_cold rate_alert_cold
      split: sum.splits option.splits prod.splits)

lemma process_event_state:
  "dt_cooldown (snd (process_event e d)) = dt_cooldown d"
  "dt_threshold_rules (snd (process_event e d)) = dt_threshold_rules d"
  "dt_rate_rules (snd (process_event e d)) = dt_rate_rules d"
  "dt_cooldowns (snd (process_event e d)) =
     (case fst (process_event e d) of
        Inr (Some a) \<Rightarrow> dset (event_key e) (ev_last_seen e) (dt_cooldowns d) | _ \<Rightarrow> dt_cooldowns d)"
  by (auto simp: process_event_def record_alert_def split: sum.splits option.splits prod.splits)

lemma scout_step_simps:
  "fst (scout_step e d) \<longleftrightarrow> (\<exists>a. fst (process_event e d) = Inr (Some a))"
  "snd (scout_step e d) = snd (process_event e d)"
  by (auto simp: scout_step_def split: sum.splits option.splits)

interpretation scout: cooldown_gate scout_step event_key ev_last_seen "\<lambda>d. dget (dt_cooldowns d)" dt_cooldown
proof
  fix e d k
  show "fst (scout_step e d) \<Longrightarrow>
      case dget (dt_cooldowns d) (event_key e) of None \<Rightarrow> True | Some t \<Rightarrow> dt_cooldown d \<le> ev_last_seen e - t"
    by (auto simp: scout_step_simps in_cooldown_def dest!: process_event_cold split: option.splits)
  show "dget (dt_cooldowns (snd (scout_step e d))) k =
      (if fst (scout_step e d) \<and> k = event_key e then Some (ev_last_seen e) else dget (dt_cooldowns d) k)"
    by (auto simp: scout_step_simps process_event_state split: sum.splits option.splits)
  show "dt_cooldown (snd (scout_step e d)) = dt_cooldown d"
    by (simp add: scout_step_simps process_event_state)
qed

text \<open>
  C37: Alert storms are bounded: of the events of one resource and reason with times between \<open>lo\<close> and
  \<open>hi\<close>, whatever their order and counts, the scout raises at most one alert per cooldown, plus one.
\<close>
theorem scout_alert_bound:
  assumes "0 < dt_cooldown d" and "\<forall>e \<in> set es. lo \<le> ev_last_seen e \<and> ev_last_seen e \<le> hi" and "lo \<le> hi"
  shows "int (length (filter (\<lambda>e. event_key e = k) (passed scout_step es d))) \<le> (hi - lo) div dt_cooldown d + 1"
  by (rule scout.passed_bound [OF assms])

definition default_detector :: detector where
  "default_detector =
     \<lparr>dt_cooldown = minutes 15, dt_threshold_rules = DEFAULT_THRESHOLD_RULES,
      dt_rate_rules = DEFAULT_RATE_RULES, dt_cooldowns = [], dt_windows = []\<rparr>"

definition back_off :: "instant \<Rightarrow> int \<Rightarrow> event_record" where
  "back_off t n =
     \<lparr>ev_source = CORE_EVENT, ev_severity = WARNING, ev_reason = ''BackOff'', ev_message = ''restarting'',
      ev_namespace = ''shop'', ev_kind = ''Pod'', ev_name = ''cart'', ev_first_seen = 0, ev_last_seen = t,
      ev_id = ''e'', ev_cluster_id = '''', ev_labels = [], ev_count = n\<rparr>"

theorem scout_alert_bound_witness:
  "length (filter (\<lambda>e. event_key e = event_key (back_off 0 5))
     (passed scout_step (map (\<lambda>i. back_off (minutes i) (5 + i)) [0..60]) default_detector)) \<le> 5"
  using scout_alert_bound [of default_detector "map (\<lambda>i. back_off (minutes i) (5 + i)) [0..60]" 0 "hours 1"]
  by (simp add: default_detector_def back_off_def duration_defs)

subsection \<open>What an alert means\<close>

definition scout_run :: "event_record list \<Rightarrow> detector \<Rightarrow> detector" where
  "scout_run es d = fold (\<lambda>e d. snd (process_event e d)) es d"

lemma scout_run_rules [simp]:
  "dt_cooldown (scout_run es d) = dt_cooldown d"
  "dt_threshold_rules (scout_run es d) = dt_threshold_rules d"
  "dt_rate_rules (scout_run es d) = dt_rate_rules d"
  unfolding scout_run_def by (induction es arbitrary: d) (simp_all add: process_event_state)

text \<open>Every rate window starts at a recorded event of its resource and reason.\<close>

definition windows_from :: "event_record set \<Rightarrow> (alert_key, rate_window) dict \<Rightarrow> bool" where
  "windows_from hist ws \<longleftrightarrow>
     (\<forall>k w. dget ws k = Some w \<longrightarrow>
        (\<exists>e \<in> hist. event_key e = k \<and> ev_count e = rw_first_count w \<and> ev_last_seen e = rw_first_seen w))"

text \<open>The event \<open>e\<close> is at least \<open>rt_delta r\<close> occurrences after an event of the window.\<close>

definition escalates :: "event_record set \<Rightarrow> event_record \<Rightarrow> rate_rule \<Rightarrow> bool" where
  "escalates hist e r \<longleftrightarrow>
     rt_reason r = ev_reason e \<and> severity_meets_minimum (ev_severity e) (rt_min_severity r)
     \<and> (\<exists>e0 \<in> insert e hist. event_key e0 = event_key e
          \<and> (e0 = e \<or> ev_last_seen e - ev_last_seen e0 \<le> rt_window r)
          \<and> rt_delta r \<le> max 0 (ev_count e - ev_count e0))"

lemma windows_from_mono: "windows_from hist ws \<Longrightarrow> hist \<subseteq> hist' \<Longrightarrow> windows_from hist' ws"
  unfolding windows_from_def by blast

lemma windows_from_set:
  assumes "windows_from hist ws"
    and "\<exists>e \<in> hist. event_key e = k \<and> ev_count e = rw_first_count w \<and> ev_last_seen e = rw_first_seen w"
  shows "windows_from hist (dset k w ws)"
  using assms unfolding windows_from_def by simp

lemma slide_window_from:
  assumes "windows_from hist ws" "dget ws (event_key e) = Some w0"
  shows "\<exists>e0 \<in> insert e hist. event_key e0 = event_key e \<and> ev_count e0 = rw_first_count (slide_window e r w0)
    \<and> ev_last_seen e0 = rw_first_seen (slide_window e r w0)
    \<and> (e0 = e \<or> ev_last_seen e - ev_last_seen e0 \<le> rt_window r)"
proof (cases "rt_window r < ev_last_seen e - rw_first_seen w0")
  case True
  then show ?thesis by (intro bexI [of _ e]) (simp_all add: slide_window_def fresh_window_def)
next
  case False
  obtain e0 where "e0 \<in> hist" "event_key e0 = event_key e" "ev_count e0 = rw_first_count w0"
    "ev_last_seen e0 = rw_first_seen w0"
    using assms unfolding windows_from_def by blast
  then show ?thesis using False by (intro bexI [of _ e0]) (simp_all add: slide_window_def)
qed

lemma slide_window_last: "rw_last_count (slide_window e r w) = ev_count e"
  by (simp add: slide_window_def fresh_window_def)

lemma rate_alert_history:
  assumes "windows_from (insert e hist) ws" "rate_alert d e rs ws = (res, ws')"
  shows "windows_from (insert e hist) ws'
    \<and> (case res of Inr (Some a) \<Rightarrow> (\<exists>r \<in> set rs. escalates hist e r) | _ \<Rightarrow> True)"
  using assms
proof (induction rs arbitrary: ws)
  case (Cons r rs)
  have mono: "(case res of Inr (Some a) \<Rightarrow> (\<exists>r \<in> set rs. escalates hist e r) | _ \<Rightarrow> True) \<Longrightarrow>
    (case res of Inr (Some a) \<Rightarrow> (\<exists>r \<in> set (r # rs). escalates hist e r) | _ \<Rightarrow> True)"
    by (auto split: sum.splits option.splits)
  show ?case
  proof (cases "rt_reason r \<noteq> ev_reason e \<or> \<not> severity_meets_minimum (ev_severity e) (rt_min_severity r)")
    case True
    then have "rate_alert d e rs ws = (res, ws')" using Cons.prems(2) by simp
    from Cons.IH [OF Cons.prems(1) this] mono show ?thesis by blast
  next
    case applies: False
    show ?thesis
    proof (cases "dget ws (event_key e)")
      case None
      have "windows_from (insert e hist) (dset (event_key e) (fresh_window e) ws)"
        by (intro windows_from_set [OF Cons.prems(1)] bexI [of _ e]) (simp_all add: fresh_window_def)
      moreover have "rate_alert d e rs (dset (event_key e) (fresh_window e) ws) = (res, ws')"
        using Cons.prems(2) applies None by simp
      ultimately show ?thesis using Cons.IH mono by blast
    next
      case (Some w0)
      let ?w = "slide_window e r w0"
      obtain e0 where e0: "e0 \<in> insert e (insert e hist)" "event_key e0 = event_key e"
        "ev_count e0 = rw_first_count ?w" "ev_last_seen e0 = rw_first_seen ?w"
        "e0 = e \<or> ev_last_seen e - ev_last_seen e0 \<le> rt_window r"
        using slide_window_from [OF Cons.prems(1) Some] by blast
      have ws1: "windows_from (insert e hist) (dset (event_key e) ?w ws)"
        using e0 by (intro windows_from_set [OF Cons.prems(1)] bexI [of _ e0]) auto
      show ?thesis
      proof (cases "window_delta ?w < rt_delta r")
        case True
        then have "rate_alert d e rs (dset (event_key e) ?w ws) = (res, ws')"
          using Cons.prems(2) applies Some by (simp add: Let_def)
        from Cons.IH [OF ws1 this] mono show ?thesis by blast
      next
        case False
        then have "escalates hist e r"
          using applies e0 by (auto simp: escalates_def window_delta_def slide_window_last)
        then show ?thesis
          using Cons.prems(2) applies Some False ws1
          by (auto simp: Let_def split: if_splits option.splits sum.splits)
      qed
    qed
  qed
qed auto

lemma process_event_history:
  assumes "windows_from hist (dt_windows d)"
  shows "windows_from (insert e hist) (dt_windows (snd (process_event e d)))
    \<and> (case fst (process_event e d) of
         Inr (Some a) \<Rightarrow> (\<exists>r \<in> set (dt_threshold_rules d). meets_threshold e r)
           \<or> (\<exists>r \<in> set (dt_rate_rules d). escalates hist e r)
       | _ \<Rightarrow> True)"
proof -
  have thr: "threshold_alert d e rs = Inr (Some a) \<Longrightarrow> \<exists>r \<in> set rs. meets_threshold e r" for rs a
    by (induction rs) (auto split: if_splits)
  have w: "windows_from (insert e hist) (dt_windows d)" using windows_from_mono [OF assms] by blast
  obtain res ws where rate: "rate_alert d e (dt_rate_rules d) (dt_windows d) = (res, ws)" by fastforce
  show ?thesis
    using rate_alert_history [OF w rate] w thr [of "dt_threshold_rules d"]
    by (auto simp: process_event_def record_alert_def rate split: sum.splits option.splits)
qed

lemma scout_run_windows: "windows_from (set es) (dt_windows (scout_run es default_detector))"
proof (induction es rule: rev_induct)
  case Nil
  then show ?case by (simp add: scout_run_def default_detector_def windows_from_def)
next
  case (snoc e es)
  then show ?case
    using process_event_history [of "set es" "scout_run es default_detector" e]
    by (simp add: scout_run_def)
qed

text \<open>
  No alert without a cause: after any history of events, an alert of the default detector for an
  event is the event reaching the count of a threshold rule for its reason and severity, or the
  event lying a rate rule's number of occurrences above another event of the same resource and
  reason that was seen within the rule's observation window.  And the alert describes that event.
\<close>
theorem scout_alert_justified:
  "case fst (process_event e (scout_run es default_detector)) of
     Inr (Some a) \<Rightarrow>
       ((\<exists>r \<in> set DEFAULT_THRESHOLD_RULES. meets_threshold e r)
        \<or> (\<exists>r \<in> set DEFAULT_RATE_RULES. \<exists>e0 \<in> set es.
             rt_reason r = ev_reason e \<and> event_key e0 = event_key e
             \<and> ev_last_seen e - ev_last_seen e0 \<le> rt_window r \<and> rt_delta r \<le> ev_count e - ev_count e0))
       \<and> a = alert_for e (al_summary a)
   | _ \<Rightarrow> True"
proof -
  let ?d = "scout_run es default_detector"
  have pos: "\<forall>r \<in> set DEFAULT_RATE_RULES. 0 < rt_delta r"
    by (simp add: DEFAULT_RATE_RULES_def rate_def)
  have esc: "\<exists>e0 \<in> set es. rt_reason r = ev_reason e \<and> event_key e0 = event_key e
      \<and> ev_last_seen e - ev_last_seen e0 \<le> rt_window r \<and> rt_delta r \<le> ev_count e - ev_count e0"
    if r: "r \<in> set DEFAULT_RATE_RULES" and x: "escalates (set es) e r" for r
  proof -
    obtain e0 where e0: "e0 \<in> insert e (set es)" "event_key e0 = event_key e"
      "e0 = e \<or> ev_last_seen e - ev_last_seen e0 \<le> rt_window r" "rt_delta r \<le> max 0 (ev_count e - ev_count e0)"
      using x unfolding escalates_def by blast
    have "0 < rt_delta r" using pos r by blast
    then have "e0 \<noteq> e" "rt_delta r \<le> ev_count e - ev_count e0" using e0(4) by auto
    then show ?thesis using e0 x by (auto simp: escalates_def)
  qed
  have shape: "fst (process_event e d) = Inr (Some a) \<Longrightarrow> a = alert_for e (al_summary a)" for d a
  proof -
    have "threshold_alert d e rs = Inr (Some a) \<Longrightarrow> \<exists>s. a = alert_for e s" for rs
      by (induction rs) (auto split: if_splits option.splits)
    moreover have "rate_alert d e rs ws = (Inr (Some a), ws') \<Longrightarrow> \<exists>s. a = alert_for e s" for rs ws ws'
      by (induction rs arbitrary: ws) (auto simp: Let_def split: if_splits option.splits)
    ultimately show "fst (process_event e d) = Inr (Some a) \<Longrightarrow> a = alert_for e (al_summary a)"
      by (fastforce simp: process_event_def alert_for_def split: sum.splits option.splits prod.splits)
  qed
  show ?thesis
    using process_event_history [OF scout_run_windows, of e es] esc shape [of ?d]
    by (auto simp: default_detector_def split: sum.splits option.splits)
qed

subsection \<open>No threshold is missed\<close>

lemma default_templates_format:
  "\<forall>r \<in> set DEFAULT_THRESHOLD_RULES. \<exists>s. format_template (threshold_args e) (tr_template r) = Some s"
  "\<forall>r \<in> set DEFAULT_RATE_RULES. \<exists>s. format_template (rate_args e delta w) (rt_template r) = Some s"
  by (simp_all add: DEFAULT_THRESHOLD_RULES_def DEFAULT_RATE_RULES_def threshold_def rate_def on_resource_def
      threshold_args_def rate_args_def)

lemma threshold_alert_total:
  assumes "\<forall>r \<in> set rs. \<exists>s. format_template (threshold_args e) (tr_template r) = Some s"
  shows "\<exists>out. threshold_alert d e rs = Inr out
    \<and> (out = None \<longleftrightarrow> in_cooldown d e \<or> (\<forall>r \<in> set rs. \<not> meets_threshold e r))"
  using assms by (induction rs) auto

lemma rate_alert_total:
  assumes "\<forall>r \<in> set rs. \<forall>delta w. \<exists>s. format_template (rate_args e delta w) (rt_template r) = Some s"
  shows "\<exists>out. fst (rate_alert d e rs ws) = Inr out"
  using assms
proof (induction rs arbitrary: ws)
  case (Cons r rs)
  have ih: "\<exists>out. fst (rate_alert d e rs ws) = Inr out" for ws
    using Cons by simp
  show ?case
  proof (cases "dget ws (event_key e)")
    case None
    then show ?thesis using ih by simp
  next
    case (Some w0)
    have "\<forall>delta w. \<exists>s. format_template (rate_args e delta w) (rt_template r) = Some s"
      using Cons.prems by simp
    then obtain s where "format_template (rate_args e (window_delta (slide_window e r w0))
        (format_timedelta (rt_window r))) (rt_template r) = Some s"
      by blast
    then show ?thesis using ih Some by (simp add: Let_def)
  qed
qed simp

lemma process_event_threshold:
  "threshold_alert d e (dt_threshold_rules d) = Inr (Some a) \<Longrightarrow> fst (process_event e d) = Inr (Some a)"
  by (simp add: process_event_def)

lemma process_event_rate:
  assumes "threshold_alert d e (dt_threshold_rules d) = Inr None"
    and "fst (rate_alert d e (dt_rate_rules d) (dt_windows d)) = Inr out"
  shows "fst (process_event e d) = Inr out"
  using assms
  by (cases "rate_alert d e (dt_rate_rules d) (dt_windows d)"; cases out) (simp_all add: process_event_def)

text \<open>
  The scout of the application processes every event without raising, and an event that reaches
  the count of a threshold rule for its reason and severity raises an alert unless the last alert of
  that resource and reason is less than the cooldown away.
\<close>
theorem scout_reports_thresholds:
  "\<exists>out. fst (process_event e (scout_run es default_detector)) = Inr out
     \<and> ((\<exists>r \<in> set DEFAULT_THRESHOLD_RULES. meets_threshold e r) \<and> out = None
        \<longrightarrow> in_cooldown (scout_run es default_detector) e)"
proof -
  let ?d = "scout_run es default_detector"
  obtain out where out: "threshold_alert ?d e DEFAULT_THRESHOLD_RULES = Inr out"
    "out = None \<longleftrightarrow> in_cooldown ?d e \<or> (\<forall>r \<in> set DEFAULT_THRESHOLD_RULES. \<not> meets_threshold e r)"
    using threshold_alert_total default_templates_format(1) by blast
  obtain out' where out': "fst (rate_alert ?d e DEFAULT_RATE_RULES (dt_windows ?d)) = Inr out'"
    using rate_alert_total default_templates_format(2) by blast
  have rules: "dt_threshold_rules ?d = DEFAULT_THRESHOLD_RULES" "dt_rate_rules ?d = DEFAULT_RATE_RULES"
    by (simp_all add: default_detector_def)
  show ?thesis
  proof (cases out)
    case None
    then have "in_cooldown ?d e \<or> (\<forall>r \<in> set DEFAULT_THRESHOLD_RULES. \<not> meets_threshold e r)"
      using out(2) by blast
    moreover have "fst (process_event e ?d) = Inr out'"
      using out(1) out' None
      by (intro process_event_rate) (simp_all only: rules)
    ultimately show ?thesis by blast
  next
    case (Some a)
    then have "fst (process_event e ?d) = Inr (Some a)"
      using out(1) by (intro process_event_threshold) (simp only: rules)
    then show ?thesis by blast
  qed
qed

theorem scout_reports_thresholds_witness:
  "\<exists>a. fst (process_event (back_off 0 5) (scout_run [] default_detector)) = Inr (Some a)"
proof -
  obtain out where "fst (process_event (back_off 0 5) (scout_run [] default_detector)) = Inr out"
    "(\<exists>r \<in> set DEFAULT_THRESHOLD_RULES. meets_threshold (back_off 0 5) r) \<and> out = None
      \<longrightarrow> in_cooldown (scout_run [] default_detector) (back_off 0 5)"
    using scout_reports_thresholds by blast
  moreover have "\<exists>r \<in> set DEFAULT_THRESHOLD_RULES. meets_threshold (back_off 0 5) r"
    by (simp add: DEFAULT_THRESHOLD_RULES_def threshold_def meets_threshold_def back_off_def
        severity_meets_minimum_def)
  moreover have "\<not> in_cooldown (scout_run [] default_detector) (back_off 0 5)"
    by (simp add: scout_run_def in_cooldown_def default_detector_def)
  ultimately show ?thesis by (cases out) auto
qed

subsection \<open>Duration strings\<close>

text \<open>
  The duration strings the scout, the coordinator and the configuration accept are exactly a
  non-empty run of at most 4300 digits, a unit letter and perhaps one newline, when the amount stays
  below a thousand million days; the value is the amount in minutes, hours or days.  Everything else
  is an error.
\<close>
theorem duration_strings_accepted:
  "parse_duration s = Inr d \<longleftrightarrow>
     (\<exists>ds u. (s = ds @ [u] \<or> s = ds @ [u, CHR 0x0A]) \<and> ds \<noteq> [] \<and> length ds \<le> 4300
        \<and> list_all is_digit ds \<and> u \<in> {CHR ''m'', CHR ''h'', CHR ''d''}
        \<and> d = int (read_nat ds) * (if u = CHR ''m'' then minutes 1 else if u = CHR ''h'' then hours 1 else days 1)
        \<and> d < days 1000000000)"
    (is "?l \<longleftrightarrow> ?r")
proof -
  have mk: "mk_timedelta (int n) u = Inr d \<longleftrightarrow>
      d = int n * (if u = CHR ''m'' then minutes 1 else if u = CHR ''h'' then hours 1 else days 1)
      \<and> d < days 1000000000" for n u
    by (auto simp: mk_timedelta_def Let_def duration_defs)
  have "?l \<longleftrightarrow> (\<exists>ds u. duration_shape s = Some (ds, u) \<and> length ds \<le> 4300 \<and> mk_timedelta (int (read_nat ds)) u = Inr d)"
  proof (cases "duration_shape s")
    case (Some p)
    then show ?thesis
      by (cases p; cases "4300 < length (fst p)") (auto simp: parse_duration_def duration_parts_shape)
  qed (simp add: parse_duration_def duration_parts_shape)
  also have "\<dots> \<longleftrightarrow> ?r"
    unfolding mk duration_shape_Some unit_char_def list_all_iff by blast
  finally show ?thesis .
qed

end
