(* ===== verification/Notify.thy ===== *)
theory Notify
  imports Models CooldownGate PyValue
begin

text \<open>
  \<open>kuberca/notifications\<close>: the deduplicator and the fan-out of the dispatcher (\<open>manager.py\<close>), the
  three channels' payloads and their reading of a delivery attempt (\<open>slack.py\<close>, \<open>webhook.py\<close>,
  \<open>email.py\<close>), and the factory that enables channels from the configuration (\<open>__init__.py\<close>).  What
  the network answers is an input; the delivery tasks are the list of their outcomes.
\<close>

subsection \<open>Deduplication (manager.py)\<close>

type_synonym dedup_key = "str \<times> str \<times> str \<times> str"

definition DEDUP_COOLDOWN :: duration where "DEDUP_COOLDOWN = minutes 15"

record deduplicator =
  dd_cooldown :: duration
  dd_last_sent :: "(dedup_key, instant) dict"

definition deduplicator_init :: deduplicator where
  "deduplicator_init = \<lparr>dd_cooldown = DEDUP_COOLDOWN, dd_last_sent = []\<rparr>"

definition alert_key_of :: "anomaly_alert \<Rightarrow> dedup_key" where
  "alert_key_of a = (al_namespace a, al_kind a, al_name a, al_reason a)"

definition should_send :: "instant \<Rightarrow> anomaly_alert \<Rightarrow> deduplicator \<Rightarrow> bool \<times> deduplicator" where
  "should_send now a d =
     (case dget (dd_last_sent d) (alert_key_of a) of
        Some last_sent \<Rightarrow>
          if now - last_sent < dd_cooldown d then (False, d)
          else (True, d\<lparr>dd_last_sent := dset (alert_key_of a) now (dd_last_sent d)\<rparr>)
      | None \<Rightarrow> (True, d\<lparr>dd_last_sent := dset (alert_key_of a) now (dd_last_sent d)\<rparr>))"

definition reset_cooldown :: "dedup_key \<Rightarrow> deduplicator \<Rightarrow> deduplicator" where
  "reset_cooldown key d = d\<lparr>dd_last_sent := dpop key (dd_last_sent d)\<rparr>"

subsection \<open>Channels\<close>

text \<open>What one delivery attempt runs into.\<close>

datatype attempt =
    Responded nat
  | TimedOut
  | HttpFailed str
  | SmtpDone
  | SmtpFailed str
  | OsFailed str
  | Raised str

datatype channel_kind = Slack | Email | Webhook

record channel =
  ch_kind :: channel_kind
  ch_target :: str

fun channel_name :: "channel_kind \<Rightarrow> str" where
  "channel_name Slack = ''slack''"
| "channel_name Email = ''email''"
| "channel_name Webhook = ''webhook''"

text \<open>The result of \<open>send\<close>: a boolean, or the exception it lets through.\<close>

fun slack_result :: "attempt \<Rightarrow> str + bool" where
  "slack_result (Responded status) = Inr (status = 200)"
| "slack_result TimedOut = Inr False"
| "slack_result (HttpFailed e) = Inr False"
| "slack_result (OsFailed e) = Inl e"
| "slack_result (SmtpFailed e) = Inl e"
| "slack_result (Raised e) = Inl e"
| "slack_result SmtpDone = Inl ''''"

fun webhook_result :: "attempt \<Rightarrow> str + bool" where
  "webhook_result (Responded status) = Inr (200 \<le> status \<and> status \<le> 299)"
| "webhook_result TimedOut = Inr False"
| "webhook_result (HttpFailed e) = Inr False"
| "webhook_result (OsFailed e) = Inl e"
| "webhook_result (SmtpFailed e) = Inl e"
| "webhook_result (Raised e) = Inl e"
| "webhook_result SmtpDone = Inl ''''"

fun email_result :: "attempt \<Rightarrow> str + bool" where
  "email_result SmtpDone = Inr True"
| "email_result (SmtpFailed e) = Inr False"
| "email_result (OsFailed e) = Inr False"
| "email_result TimedOut = Inr False"
| "email_result (HttpFailed e) = Inl e"
| "email_result (Raised e) = Inl e"
| "email_result (Responded status) = Inl ''''"

fun send_result :: "channel_kind \<Rightarrow> attempt \<Rightarrow> str + bool" where
  "send_result Slack = slack_result"
| "send_result Email = email_result"
| "send_result Webhook = webhook_result"

subsection \<open>Fan-out (manager.py)\<close>

definition send_one :: "(channel \<Rightarrow> anomaly_alert \<Rightarrow> attempt) \<Rightarrow> anomaly_alert \<Rightarrow> channel \<Rightarrow> channel \<times> bool" where
  "send_one world a ch =
     (ch, case send_result (ch_kind ch) (world ch a) of Inl exc \<Rightarrow> False | Inr success \<Rightarrow> success)"

definition fan_out ::
  "(channel \<Rightarrow> anomaly_alert \<Rightarrow> attempt) \<Rightarrow> channel list \<Rightarrow> anomaly_alert \<Rightarrow> (channel \<times> bool) list" where
  "fan_out world channels a = map (send_one world a) channels"

record dispatcher =
  dp_channels :: "channel list"
  dp_dedup :: deduplicator

text \<open>\<open>dispatch\<close> with the deliveries it schedules.\<close>

definition dispatch ::
  "(channel \<Rightarrow> anomaly_alert \<Rightarrow> attempt) \<Rightarrow> instant \<Rightarrow> anomaly_alert \<Rightarrow> dispatcher
   \<Rightarrow> (channel \<times> bool) list \<times> dispatcher" where
  "dispatch world now a d =
     (let (ok, dedup) = should_send now a (dp_dedup d); d' = d\<lparr>dp_dedup := dedup\<rparr> in
      if \<not> ok then ([], d') else (fan_out world (dp_channels d) a, d'))"

subsection \<open>Payloads\<close>

fun slack_color :: "severity \<Rightarrow> str" where
  "slack_color INFO = ''#36a64f''"
| "slack_color WARNING = ''#ffae42''"
| "slack_color ERROR = ''#e01e5a''"
| "slack_color CRITICAL = ''#800000''"

fun slack_emoji :: "severity \<Rightarrow> str" where
  "slack_emoji INFO = '':information_source:''"
| "slack_emoji WARNING = '':warning:''"
| "slack_emoji ERROR = '':x:''"
| "slack_emoji CRITICAL = '':rotating_light:''"

definition newline :: str where "newline = [CHR 0x0A]"

text \<open>\<open>strftime("%Y-%m-%d %H:%M:%S UTC")\<close>\<close>

definition display_time :: "instant \<Rightarrow> str" where
  "display_time t = take 10 (date_text t) @ '' '' @ drop 11 (date_text t) @ '' UTC''"

definition text_block :: "str \<Rightarrow> str \<Rightarrow> pyval" where
  "text_block kind text = PDict [(''type'', PStr kind), (''text'', PStr text)]"

definition slack_payload :: "str \<Rightarrow> anomaly_alert \<Rightarrow> pydict" where
  "slack_payload alert_id a =
     (let title = slack_emoji (al_severity a) @ '' KubeRCA Alert '' @ em_dash @ '' ''
            @ upper (severity_value (al_severity a));
          resource_info =
            ''*Resource:* `'' @ al_kind a @ ''/'' @ al_name a @ ''`'' @ newline
            @ ''*Namespace:* `'' @ al_namespace a @ ''`'' @ newline
            @ ''*Reason:* '' @ al_reason a @ newline
            @ ''*Events:* '' @ show_int (al_count a);
          header = PDict [(''type'', PStr ''header''),
            (''text'', PDict [(''type'', PStr ''plain_text''), (''text'', PStr title), (''emoji'', PBool True)])];
          section1 = PDict [(''type'', PStr ''section''), (''text'', text_block ''mrkdwn'' resource_info)];
          section2 = PDict [(''type'', PStr ''section''),
            (''text'', text_block ''mrkdwn'' (''*Summary:*'' @ newline @ al_summary a))];
          foot = PDict [(''type'', PStr ''context''),
            (''elements'', PList [text_block ''mrkdwn''
              (''Alert ID: `'' @ alert_id @ ''` | Detected at: '' @ display_time (al_detected_at a))])]
      in [(''attachments'', PList [PDict [(''color'', PStr (slack_color (al_severity a))),
            (''blocks'', PList [header, section1, section2, foot])]])])"

definition webhook_payload :: "str \<Rightarrow> anomaly_alert \<Rightarrow> pydict" where
  "webhook_payload alert_id a =
     [(''alert_id'', PStr alert_id), (''severity'', PStr (severity_value (al_severity a))),
      (''resource_kind'', PStr (al_kind a)), (''resource_name'', PStr (al_name a)),
      (''namespace'', PStr (al_namespace a)), (''reason'', PStr (al_reason a)),
      (''summary'', PStr (al_summary a)), (''detected_at'', PStr (isoformat (al_detected_at a))),
      (''event_count'', PInt (al_count a)), (''source_events'', PList (map PStr (al_source_events a)))]"

definition email_subject :: "anomaly_alert \<Rightarrow> str" where
  "email_subject a =
     ''[KubeRCA] '' @ upper (severity_value (al_severity a)) @ '' '' @ em_dash @ '' '' @ al_kind a @ ''/''
     @ al_name a @ '' in '' @ al_namespace a @ '': '' @ al_reason a"

definition email_plain :: "str \<Rightarrow> anomaly_alert \<Rightarrow> str" where
  "email_plain alert_id a =
     ''KubeRCA Alert'' @ newline @ replicate 60 (CHR ''='') @ newline @ newline
     @ ''Severity:   '' @ upper (severity_value (al_severity a)) @ newline
     @ ''Resource:   '' @ al_kind a @ ''/'' @ al_name a @ newline
     @ ''Namespace:  '' @ al_namespace a @ newline
     @ ''Reason:     '' @ al_reason a @ newline
     @ ''Events:     '' @ show_int (al_count a) @ newline
     @ ''Detected:   '' @ display_time (al_detected_at a) @ newline
     @ ''Alert ID:   '' @ alert_id @ newline @ newline
     @ ''Summary'' @ newline @ replicate 60 (CHR ''-'') @ newline
     @ al_summary a @ newline"

subsection \<open>The factory (__init__.py)\<close>

text \<open>
  Parsing the SMTP address is \<open>urllib\<close>'s \<open>urlparse\<close>: \<open>parse_dsn\<close> gives the parsed parts, \<open>None\<close> when
  it raises.
\<close>

record smtp_config =
  sm_host :: str
  sm_port :: int
  sm_username :: str
  sm_password :: str
  sm_from :: str
  sm_tls :: bool

record dsn =
  ds_scheme :: str
  ds_host :: "str option"
  ds_port :: "int option"
  ds_username :: "str option"
  ds_password :: "str option"
  ds_path :: str

definition or_empty :: "str option \<Rightarrow> str" where
  "or_empty s = (case s of None \<Rightarrow> [] | Some x \<Rightarrow> x)"

definition parse_smtp_dsn :: "(str \<Rightarrow> dsn option) \<Rightarrow> str \<Rightarrow> py_exn + smtp_config" where
  "parse_smtp_dsn parse_dsn s =
     (case parse_dsn s of
        None \<Rightarrow> Inl ValueError
      | Some p \<Rightarrow>
          if ds_scheme p \<notin> {''smtp'', ''smtps''} then Inl ValueError
          else
            let tls = (ds_scheme p = ''smtps'');
                port = (case ds_port p of
                    Some n \<Rightarrow> if n \<noteq> 0 then n else if tls then 465 else 587
                  | None \<Rightarrow> if tls then 465 else 587);
                from_addr = dropWhile (\<lambda>c. c = CHR ''/'') (ds_path p);
                host = or_empty (ds_host p)
            in if host = [] then Inl ValueError
               else if from_addr = [] then Inl ValueError
               else Inr \<lparr>sm_host = host, sm_port = port, sm_username = or_empty (ds_username p),
                 sm_password = or_empty (ds_password p), sm_from = from_addr, sm_tls = tls\<rparr>)"

record notification_config =
  nc_slack_ref :: str
  nc_email_ref :: str
  nc_email_to :: str
  nc_webhook_ref :: str

definition build_channels ::
  "(str \<Rightarrow> dsn option) \<Rightarrow> (str \<Rightarrow> str) \<Rightarrow> notification_config \<Rightarrow> channel list" where
  "build_channels parse_dsn environ cfg =
     (if nc_slack_ref cfg \<noteq> [] \<and> environ (nc_slack_ref cfg) \<noteq> []
      then [\<lparr>ch_kind = Slack, ch_target = environ (nc_slack_ref cfg)\<rparr>] else [])
     @ (if nc_email_ref cfg \<noteq> [] \<and> nc_email_to cfg \<noteq> [] \<and> environ (nc_email_ref cfg) \<noteq> []
        then (case parse_smtp_dsn parse_dsn (environ (nc_email_ref cfg)) of
                Inl e \<Rightarrow> []
              | Inr smtp \<Rightarrow> [\<lparr>ch_kind = Email, ch_target = nc_email_to cfg\<rparr>])
        else [])
     @ (if nc_webhook_ref cfg \<noteq> [] \<and> environ (nc_webhook_ref cfg) \<noteq> []
        then [\<lparr>ch_kind = Webhook, ch_target = environ (nc_webhook_ref cfg)\<rparr>] else [])"

definition build_notification_dispatcher ::
  "(str \<Rightarrow> dsn option) \<Rightarrow> (str \<Rightarrow> str) \<Rightarrow> notification_config \<Rightarrow> dispatcher" where
  "build_notification_dispatcher parse_dsn environ cfg =
     \<lparr>dp_channels = build_channels parse_dsn environ cfg, dp_dedup = deduplicator_init\<rparr>"

subsection \<open>Deliveries\<close>

type_synonym timed_alert = "instant \<times> anomaly_alert"

definition dispatch_step :: "(channel \<Rightarrow> anomaly_alert \<Rightarrow> attempt) \<Rightarrow> timed_alert \<Rightarrow> dispatcher \<Rightarrow> bool \<times> dispatcher" where
  "dispatch_step world x d =
     (fst (should_send (fst x) (snd x) (dp_dedup d)), snd (dispatch world (fst x) (snd x) d))"

lemma should_send_cases:
  "should_send now a d =
     (if \<exists>t. dget (dd_last_sent d) (alert_key_of a) = Some t \<and> now - t < dd_cooldown d then (False, d)
      else (True, d\<lparr>dd_last_sent := dset (alert_key_of a) now (dd_last_sent d)\<rparr>))"
  by (auto simp: should_send_def split: option.splits)

lemma dispatch_state: "dp_dedup (snd (dispatch world now a d)) = snd (should_send now a (dp_dedup d))"
  "dp_channels (snd (dispatch world now a d)) = dp_channels d"
  by (simp_all add: dispatch_def Let_def case_prod_beta)

interpretation dispatched: cooldown_gate "dispatch_step world" "\<lambda>x. alert_key_of (snd x)" fst
  "\<lambda>d. dget (dd_last_sent (dp_dedup d))" "\<lambda>d. dd_cooldown (dp_dedup d)"
  for world
  by unfold_locales
    (auto simp: dispatch_step_def dispatch_state should_send_cases split: option.splits if_splits)

text \<open>All deliveries of a run of dispatch calls, in the order of the calls.\<close>

fun dispatch_run ::
  "(channel \<Rightarrow> anomaly_alert \<Rightarrow> attempt) \<Rightarrow> timed_alert list \<Rightarrow> dispatcher
   \<Rightarrow> (timed_alert \<times> channel \<times> bool) list" where
  "dispatch_run world [] d = []"
| "dispatch_run world (x # xs) d =
     (let (sent, d') = dispatch world (fst x) (snd x) d in map (Pair x) sent @ dispatch_run world xs d')"

lemma dispatch_step_simps:
  "fst (dispatch_step world x d) = fst (should_send (fst x) (snd x) (dp_dedup d))"
  "snd (dispatch_step world x d) = snd (dispatch world (fst x) (snd x) d)"
  by (simp_all add: dispatch_step_def)

lemma dispatch_run_passed:
  "dispatch_run world xs d =
     concat (map (\<lambda>x. map (Pair x) (fan_out world (dp_channels d) (snd x)))
       (passed (dispatch_step world) xs d))"
proof (induction xs arbitrary: d)
  case (Cons x xs)
  have sent: "fst (dispatch world (fst x) (snd x) d) =
      (if fst (should_send (fst x) (snd x) (dp_dedup d)) then fan_out world (dp_channels d) (snd x) else [])"
    by (simp add: dispatch_def Let_def case_prod_beta)
  show ?case
    unfolding dispatch_run.simps passed.simps
    by (simp add: Cons.IH case_prod_beta Let_def dispatch_state dispatch_step_simps sent)
qed simp

text \<open>
  What a duplicate is, without the deduplicator's table: an alert is left out when the last alert of the same
  resource and reason that was not left out lies less than the cooldown back.  \<open>known\<close> are the times known at the
  start.
\<close>

fun fresh_alerts :: "duration \<Rightarrow> (dedup_key \<Rightarrow> instant option) \<Rightarrow> timed_alert list \<Rightarrow> timed_alert list" where
  "fresh_alerts cd known [] = []"
| "fresh_alerts cd known (x # xs) =
     (if (case known (alert_key_of (snd x)) of None \<Rightarrow> False | Some t \<Rightarrow> fst x - t < cd)
      then fresh_alerts cd known xs
      else x # fresh_alerts cd (known(alert_key_of (snd x) \<mapsto> fst x)) xs)"

definition fresh_for :: "dispatcher \<Rightarrow> timed_alert list \<Rightarrow> timed_alert list" where
  "fresh_for d xs = fresh_alerts (dd_cooldown (dp_dedup d)) (dget (dd_last_sent (dp_dedup d))) xs"

lemma passed_fresh: "passed (dispatch_step world) xs d = fresh_for d xs"
proof (induction xs arbitrary: d)
  case (Cons x xs)
  have table: "dget (dset k v m) = (dget m)(k \<mapsto> v)" for k v and m :: "(dedup_key, instant) dict"
    by (rule ext) simp
  show ?case
    by (auto simp: fresh_for_def Cons.IH dispatch_step_simps dispatch_state should_send_cases case_prod_beta table
        split: option.splits)
qed (simp add: fresh_for_def)

text \<open>
  C40: Every channel is served alike and no channel is flooded: the deliveries of a run of \<open>dispatch\<close>
  are, for exactly the alerts that are no duplicates, in their order, one attempt on every channel, whatever
  the other channels' attempts ran into; and within any interval a channel gets the alerts of one resource and
  reason at most once per cooldown, plus once.
\<close>
theorem dispatch_serves_every_channel:
  assumes "0 < dd_cooldown (dp_dedup d)" and "\<forall>x \<in> set xs. lo \<le> fst x \<and> fst x \<le> hi" and "lo \<le> hi"
  shows "map (\<lambda>(x, ch, ok). (x, ch)) (dispatch_run world xs d) = [(x, ch). x \<leftarrow> fresh_for d xs, ch \<leftarrow> dp_channels d]
    \<and> (\<forall>(x, ch, ok) \<in> set (dispatch_run world xs d).
         ok \<longleftrightarrow> send_result (ch_kind ch) (world ch (snd x)) = Inr True)
    \<and> int (length (filter (\<lambda>x. alert_key_of (snd x) = k) (fresh_for d xs))) \<le> (hi - lo) div dd_cooldown (dp_dedup d) + 1"
proof (intro conjI)
  have "map (\<lambda>(x, ch, ok). (x, ch)) (concat (map (\<lambda>x. map (Pair x) (fan_out world chs (snd x))) ys)) =
      [(x, ch). x \<leftarrow> ys, ch \<leftarrow> chs]" for chs ys
    by (induction ys) (simp_all add: fan_out_def send_one_def comp_def)
  then show "map (\<lambda>(x, ch, ok). (x, ch)) (dispatch_run world xs d) = [(x, ch). x \<leftarrow> fresh_for d xs, ch \<leftarrow> dp_channels d]"
    unfolding dispatch_run_passed passed_fresh .
  show "\<forall>(x, ch, ok) \<in> set (dispatch_run world xs d).
      ok \<longleftrightarrow> send_result (ch_kind ch) (world ch (snd x)) = Inr True"
    unfolding dispatch_run_passed by (auto simp: fan_out_def send_one_def split: sum.splits)
  show "int (length (filter (\<lambda>x. alert_key_of (snd x) = k) (fresh_for d xs))) \<le> (hi - lo) div dd_cooldown (dp_dedup d) + 1"
    using dispatched.passed_bound [OF assms, where k = k and world = world] unfolding passed_fresh .
qed

definition demo_alert :: anomaly_alert where
  "demo_alert =
     \<lparr>al_severity = ERROR, al_kind = ''Pod'', al_name = ''cart'', al_namespace = ''shop'',
      al_reason = ''OOMKilled'', al_summary = ''killed'', al_detected_at = 0, al_count = 3,
      al_source_events = [''e-1'']\<rparr>"

definition demo_dispatcher :: dispatcher where
  "demo_dispatcher =
     \<lparr>dp_channels = [\<lparr>ch_kind = Slack, ch_target = ''s''\<rparr>, \<lparr>ch_kind = Webhook, ch_target = ''w''\<rparr>],
      dp_dedup = deduplicator_init\<rparr>"

text \<open>Three alerts of one resource and reason, the second one a minute after the first\<close>

definition demo_alerts :: "timed_alert list" where
  "demo_alerts = [(0, demo_alert), (minutes 1, demo_alert), (minutes 15, demo_alert)]"

theorem dispatch_serves_every_channel_witness:
  "map (\<lambda>(x, ch, ok). (fst x, ch_target ch)) (dispatch_run (\<lambda>ch a. TimedOut) demo_alerts demo_dispatcher)
     = [(0, ''s''), (0, ''w''), (minutes 15, ''s''), (minutes 15, ''w'')]"
proof -
  have "0 < dd_cooldown (dp_dedup demo_dispatcher)" "\<forall>x \<in> set demo_alerts. 0 \<le> fst x \<and> fst x \<le> minutes 15" "0 \<le> minutes 15"
    by (simp_all add: demo_dispatcher_def deduplicator_init_def demo_alerts_def DEDUP_COOLDOWN_def duration_defs)
  from conjunct1 [OF dispatch_serves_every_channel [OF this]]
  have "map (\<lambda>(x, ch, ok). (x, ch)) (dispatch_run (\<lambda>ch a. TimedOut) demo_alerts demo_dispatcher)
      = [(x, ch). x \<leftarrow> fresh_for demo_dispatcher demo_alerts, ch \<leftarrow> dp_channels demo_dispatcher]" .
  then have "map (\<lambda>(x, ch). (fst x, ch_target ch)) (map (\<lambda>(x, ch, ok). (x, ch)) (dispatch_run (\<lambda>ch a. TimedOut) demo_alerts demo_dispatcher))
      = map (\<lambda>(x, ch). (fst x, ch_target ch)) [(x, ch). x \<leftarrow> fresh_for demo_dispatcher demo_alerts, ch \<leftarrow> dp_channels demo_dispatcher]"
    by (rule arg_cong)
  moreover have "map (\<lambda>(x, ch). (fst x, ch_target ch)) [(x, ch). x \<leftarrow> fresh_for demo_dispatcher demo_alerts, ch \<leftarrow> dp_channels demo_dispatcher]
      = [(0, ''s''), (0, ''w''), (minutes 15, ''s''), (minutes 15, ''w'')]"
    by code_simp
  ultimately show ?thesis by (simp add: comp_def case_prod_unfold)
qed

end
