(* ===== verification/WorkQueue.thy ===== *)
theory WorkQueue
  imports Models "HOL-Library.Product_Lexorder"
begin

text \<open>
  \<open>kuberca/analyst/queue.py\<close>: the bounded, deduplicated, priority-ordered queue of analysis requests
  with its sliding-window rate limit, as a state machine whose steps are the calls of \<open>submit\<close>, the
  points where a worker coroutine takes an entry or finishes an analysis, the client cancelling a
  future, and the two phases of \<open>stop\<close>.  A future is its number; what an analysis returns is a
  parameter.  \<open>asyncio.PriorityQueue\<close> is the list of its entries in the order it delivers them;
  the readings of the monotonic clock are integers, and two entries with the same priority and
  reading stay in the order they came (Python's heap would compare the items and raise).  The
  effective rates 5, 10 and 20 are exact in binary64.
\<close>

definition QUEUE_MAX_SIZE :: nat where "QUEUE_MAX_SIZE = 100"
definition DEFAULT_RATE :: nat where "DEFAULT_RATE = 20"
definition DEGRADED_RATE :: nat where "DEGRADED_RATE = 5"
definition RATE_HALVE_DURATION :: duration where "RATE_HALVE_DURATION = seconds 300"
definition BACKGROUND_REJECT_THRESHOLD :: nat where "BACKGROUND_REJECT_THRESHOLD = 80"
definition CPU_REDUCTION_THRESHOLD :: dbl where "CPU_REDUCTION_THRESHOLD = dlit 80 1"
definition SENTINEL_PRIORITY :: int where "SENTINEL_PRIORITY = 999"

datatype priority = INTERACTIVE | SYSTEM | BACKGROUND

fun priority_int :: "priority \<Rightarrow> int" where
  "priority_int INTERACTIVE = 1"
| "priority_int SYSTEM = 2"
| "priority_int BACKGROUND = 3"

record queue_full =
  qf_message :: str
  qf_priority :: priority

record work_item =
  wi_resource :: str
  wi_time_window :: str
  wi_priority :: priority
  wi_future :: nat

definition resource_key :: "str \<Rightarrow> str \<times> str" where
  "resource_key resource =
     (case split_on (CHR ''/'') resource of
        [kind, namespace, name] \<Rightarrow> (namespace, name)
      | _ \<Rightarrow> (resource, []))"

definition item_key :: "work_item \<Rightarrow> str \<times> str" where
  "item_key it = resource_key (wi_resource it)"

type_synonym entry = "int \<times> instant \<times> work_item option"

definition entry_key :: "entry \<Rightarrow> int \<times> instant" where
  "entry_key e = (fst e, fst (snd e))"

definition enqueue :: "entry \<Rightarrow> entry list \<Rightarrow> entry list" where
  "enqueue e q =
     takeWhile (\<lambda>x. entry_key x \<le> entry_key e) q @ e # dropWhile (\<lambda>x. entry_key x \<le> entry_key e) q"

datatype worker = Waiting | Busy work_item | Stopped

datatype 'r future = Pending | Result 'r | Failed str | Cancelled

record 'r work_queue =
  wq_entries :: "entry list"
  wq_workers :: "worker list"
  wq_dedup :: "(str \<times> str, work_item) dict"
  wq_running :: bool
  wq_sentinels :: nat
  wq_halved_until :: instant
  wq_stamps :: "instant list"
  wq_futures :: "(nat, 'r future) dict"
  wq_next :: nat

text \<open>
  What the callbacks report at a call: \<open>None\<close> when the callback is absent or raises.
\<close>

record queue_env =
  qe_readiness :: "cache_readiness option"
  qe_cpu :: "dbl option"

subsection \<open>Operations\<close>

definition wq_start :: "nat \<Rightarrow> 'r work_queue" where
  "wq_start cpus =
     \<lparr>wq_entries = [], wq_workers = replicate (max 1 cpus) Waiting, wq_dedup = [], wq_running = True,
      wq_sentinels = 0, wq_halved_until = 0, wq_stamps = [], wq_futures = [], wq_next = 0\<rparr>"

definition effective_rate :: "queue_env \<Rightarrow> instant \<Rightarrow> 'r work_queue \<Rightarrow> nat" where
  "effective_rate env now q =
     (if qe_readiness env = Some DEGRADED then DEGRADED_RATE
      else if now < wq_halved_until q then max 1 (DEFAULT_RATE div 2)
      else max 1 (case qe_cpu env of
          None \<Rightarrow> DEFAULT_RATE
        | Some cpu \<Rightarrow> if CPU_REDUCTION_THRESHOLD < cpu then DEFAULT_RATE div 2 else DEFAULT_RATE))"

text \<open>\<open>Some\<close> rate when the limit is exceeded.\<close>

definition enforce_rate_limit :: "queue_env \<Rightarrow> instant \<Rightarrow> 'r work_queue \<Rightarrow> nat option \<times> 'r work_queue" where
  "enforce_rate_limit env now q =
     (let rate = effective_rate env now q;
          recent = filter (\<lambda>t. now - seconds 60 \<le> t) (wq_stamps q)
      in if rate \<le> length recent then (Some rate, q\<lparr>wq_stamps := recent\<rparr>)
         else (None, q\<lparr>wq_stamps := recent @ [now]\<rparr>))"

definition under_pressure :: "'r work_queue \<Rightarrow> bool" where
  "under_pressure q \<longleftrightarrow>
     dlit (int BACKGROUND_REJECT_THRESHOLD) (int QUEUE_MAX_SIZE)
       < dlit (int (length (wq_entries q))) (int QUEUE_MAX_SIZE)"

definition submit ::
  "queue_env \<Rightarrow> instant \<Rightarrow> str \<Rightarrow> str \<Rightarrow> priority \<Rightarrow> 'r work_queue \<Rightarrow> (queue_full + nat) \<times> 'r work_queue" where
  "submit env now resource time_window priority q =
     (let item = \<lparr>wi_resource = resource, wi_time_window = time_window, wi_priority = priority,
            wi_future = wq_next q\<rparr>;
          reject = (\<lambda>msg q'. (Inl \<lparr>qf_message = msg, qf_priority = priority\<rparr>, q'));
          (exceeded, q1) = enforce_rate_limit env now q;
          depth = show_nat (length (wq_entries q1))
      in case exceeded of
           Some rate \<Rightarrow>
             reject (''Rate limit exceeded: '' @ show_nat rate @ '' requests/min. Please retry later.'') q1
         | None \<Rightarrow>
             (case dget (wq_dedup q1) (item_key item) of
                Some existing \<Rightarrow> (Inr (wi_future existing), q1)
              | None \<Rightarrow>
                  if under_pressure q1 \<and> priority = BACKGROUND then
                    reject (''Queue >80% full ('' @ depth @ ''/'' @ show_nat QUEUE_MAX_SIZE
                      @ ''). Background requests are not accepted.'') q1
                  else if QUEUE_MAX_SIZE \<le> length (wq_entries q1) then
                    reject (''Analysis queue is full ('' @ show_nat QUEUE_MAX_SIZE
                      @ '' items). Please retry later.'') q1
                  else
                    (Inr (wi_future item),
                     q1\<lparr>wq_dedup := dset (item_key item) item (wq_dedup q1),
                        wq_entries := enqueue (priority_int priority, now, Some item) (wq_entries q1),
                        wq_futures := dset (wi_future item) Pending (wq_futures q1),
                        wq_next := Suc (wq_next q1)\<rparr>)))"

text \<open>A worker that waits in \<open>queue.get()\<close> receives the head of the queue.\<close>

definition next_round :: "'r work_queue \<Rightarrow> worker" where
  "next_round q = (if wq_running q then Waiting else Stopped)"

definition worker_take :: "nat \<Rightarrow> 'r work_queue \<Rightarrow> 'r work_queue" where
  "worker_take i q =
     (case wq_entries q of
        [] \<Rightarrow> q
      | (p, t, None) # rest \<Rightarrow> q\<lparr>wq_entries := rest, wq_workers := (wq_workers q)[i := Stopped]\<rparr>
      | (p, t, Some item) # rest \<Rightarrow>
          let q1 = q\<lparr>wq_entries := rest, wq_dedup := dpop (item_key item) (wq_dedup q)\<rparr> in
          if dget (wq_futures q) (wi_future item) = Some Cancelled
          then q1\<lparr>wq_workers := (wq_workers q)[i := next_round q]\<rparr>
          else q1\<lparr>wq_workers := (wq_workers q)[i := Busy item]\<rparr>)"

definition settle :: "nat \<Rightarrow> str + 'r \<Rightarrow> (nat, 'r future) dict \<Rightarrow> (nat, 'r future) dict" where
  "settle f outcome fs =
     (if dget fs f = Some Pending
      then dset f (case outcome of Inl exc \<Rightarrow> Failed exc | Inr r \<Rightarrow> Result r) fs else fs)"

definition worker_finish :: "nat \<Rightarrow> str + 'r \<Rightarrow> 'r work_queue \<Rightarrow> 'r work_queue" where
  "worker_finish i outcome q =
     (case wq_workers q ! i of
        Busy item \<Rightarrow>
          q\<lparr>wq_futures := settle (wi_future item) outcome (wq_futures q),
            wq_workers := (wq_workers q)[i := next_round q]\<rparr>
      | _ \<Rightarrow> q)"

definition cancel_future :: "nat \<Rightarrow> 'r work_queue \<Rightarrow> 'r work_queue" where
  "cancel_future f q =
     (if dget (wq_futures q) f = Some Pending then q\<lparr>wq_futures := dset f Cancelled (wq_futures q)\<rparr> else q)"

definition notify_upstream_429 :: "instant \<Rightarrow> 'r work_queue \<Rightarrow> 'r work_queue" where
  "notify_upstream_429 now q = q\<lparr>wq_halved_until := now + RATE_HALVE_DURATION\<rparr>"

text \<open>\<open>stop\<close>: the flag first, then one sentinel per worker, each put waiting for room.\<close>

definition stop_begin :: "'r work_queue \<Rightarrow> 'r work_queue" where
  "stop_begin q = q\<lparr>wq_running := False, wq_sentinels := length (wq_workers q)\<rparr>"

definition stop_put :: "instant \<Rightarrow> 'r work_queue \<Rightarrow> 'r work_queue" where
  "stop_put now q =
     q\<lparr>wq_sentinels := wq_sentinels q - 1,
       wq_entries := enqueue (SENTINEL_PRIORITY, now, None) (wq_entries q)\<rparr>"

text \<open>The steps of everybody but the callers of \<open>submit\<close>, then all steps.\<close>

inductive wq_internal :: "'r work_queue \<Rightarrow> 'r work_queue \<Rightarrow> bool" where
  step_take: "i < length (wq_workers q) \<Longrightarrow> wq_workers q ! i = Waiting \<Longrightarrow> wq_entries q \<noteq> [] \<Longrightarrow>
    wq_internal q (worker_take i q)"
| step_finish: "i < length (wq_workers q) \<Longrightarrow> wq_workers q ! i = Busy item \<Longrightarrow>
    wq_internal q (worker_finish i outcome q)"
| step_cancel: "wq_internal q (cancel_future f q)"
| step_notify: "wq_internal q (notify_upstream_429 now q)"
| step_stop: "wq_running q \<Longrightarrow> wq_internal q (stop_begin q)"
| step_sentinel: "0 < wq_sentinels q \<Longrightarrow> length (wq_entries q) < QUEUE_MAX_SIZE \<Longrightarrow>
    wq_internal q (stop_put now q)"

inductive wq_step :: "'r work_queue \<Rightarrow> 'r work_queue \<Rightarrow> bool" where
  step_internal: "wq_internal q q' \<Longrightarrow> wq_step q q'"
| step_submit: "wq_step q (snd (submit env now resource time_window priority q))"

inductive wq_reach :: "nat \<Rightarrow> 'r work_queue \<Rightarrow> bool" for cpus where
  reach_start: "wq_reach cpus (wq_start cpus)"
| reach_step: "wq_reach cpus q \<Longrightarrow> wq_step q q' \<Longrightarrow> wq_reach cpus q'"

subsection \<open>The priority order\<close>

locale priority_buffer =
  fixes key :: "'a \<Rightarrow> 'k::linorder"
    and put :: "'a \<Rightarrow> 'a list \<Rightarrow> 'a list"
  assumes put_mset: "mset (put x q) = add_mset x (mset q)"
    and put_sorted: "sorted (map key q) \<Longrightarrow> sorted (map key (put x q))"
begin

lemma put_set: "set (put x q) = insert x (set q)"
  by (metis put_mset set_mset_add_mset_insert set_mset_mset)

lemma put_length: "length (put x q) = Suc (length q)"
  by (metis put_mset size_add_mset size_mset)

lemma head_first: "sorted (map key (x # q)) \<Longrightarrow> y \<in> set (x # q) \<Longrightarrow> key x \<le> key y"
  by auto

end

interpretation entries: priority_buffer entry_key enqueue
proof
  fix x :: entry and q :: "entry list"
  have "mset (takeWhile P q) + mset (dropWhile P q) = mset q" for P
    by (metis mset_append takeWhile_dropWhile_id)
  then show "mset (enqueue x q) = add_mset x (mset q)" by (simp add: enqueue_def)
  show "sorted (map entry_key (enqueue x q))" if sorted: "sorted (map entry_key q)"
  proof -
    let ?P = "\<lambda>y. entry_key y \<le> entry_key x"
    have "sorted (map entry_key (takeWhile ?P q @ dropWhile ?P q))" using sorted by simp
    then have parts: "sorted (map entry_key (takeWhile ?P q))" "sorted (map entry_key (dropWhile ?P q))"
      unfolding map_append sorted_append by blast+
    have low: "entry_key y \<le> entry_key x" if "y \<in> set (takeWhile ?P q)" for y
      using that by (auto dest: set_takeWhileD)
    have high: "entry_key x \<le> entry_key y" if "y \<in> set (dropWhile ?P q)" for y
    proof (cases "dropWhile ?P q")
      case (Cons z zs)
      then have "\<not> ?P z" by (metis hd_dropWhile list.distinct(1) list.sel(1))
      moreover have "entry_key z \<le> entry_key y" using that parts(2) unfolding Cons by auto
      ultimately show ?thesis by simp
    next
      case Nil
      show ?thesis using that unfolding Nil by simp
    qed
    have "sorted (map entry_key (x # dropWhile ?P q))" using parts(2) high by simp
    moreover have "entry_key y \<le> k"
      if "y \<in> set (takeWhile ?P q)" and "k \<in> set (map entry_key (x # dropWhile ?P q))" for y k
      using low [OF that(1)] that(2) high by (auto simp only: list.map list.set set_map insert_iff
          intro: order_trans)
    then have "\<forall>k \<in> set (map entry_key (takeWhile ?P q)). \<forall>k' \<in> set (map entry_key (x # dropWhile ?P q)). k \<le> k'"
      unfolding set_map by blast
    ultimately show ?thesis
      using parts(1) unfolding enqueue_def map_append sorted_append by blast
  qed
qed

subsection \<open>The invariant\<close>

definition queued :: "entry list \<Rightarrow> work_item list" where
  "queued es = concat (map (\<lambda>(p, t, w). case w of None \<Rightarrow> [] | Some it \<Rightarrow> [it]) es)"

definition busy :: "worker list \<Rightarrow> work_item list" where
  "busy ws = concat (map (\<lambda>w. case w of Busy it \<Rightarrow> [it] | _ \<Rightarrow> []) ws)"

text \<open>The requests still in the system: waiting in the queue or in the hands of a worker.\<close>

definition carried :: "'r work_queue \<Rightarrow> work_item list" where
  "carried q = queued (wq_entries q) @ busy (wq_workers q)"

definition entries_ok :: "'r work_queue \<Rightarrow> bool" where
  "entries_ok q \<longleftrightarrow>
     length (wq_entries q) \<le> QUEUE_MAX_SIZE
     \<and> sorted (map entry_key (wq_entries q))
     \<and> (\<forall>(p, t, w) \<in> set (wq_entries q). p = (case w of None \<Rightarrow> SENTINEL_PRIORITY | Some it \<Rightarrow> priority_int (wi_priority it)))"

definition dedup_ok :: "'r work_queue \<Rightarrow> bool" where
  "dedup_ok q \<longleftrightarrow>
     distinct (map item_key (queued (wq_entries q)))
     \<and> (\<forall>k it. dget (wq_dedup q) k = Some it \<longleftrightarrow> it \<in> set (queued (wq_entries q)) \<and> item_key it = k)"

definition futures_ok :: "'r work_queue \<Rightarrow> bool" where
  "futures_ok q \<longleftrightarrow>
     distinct (map wi_future (carried q))
     \<and> (\<forall>it \<in> set (carried q). dget (wq_futures q) (wi_future it) \<in> {Some Pending, Some Cancelled})
     \<and> (\<forall>f. dget (wq_futures q) f = Some Pending \<longrightarrow> f \<in> wi_future ` set (carried q))
     \<and> (\<forall>f. dget (wq_futures q) f \<noteq> None \<longrightarrow> f < wq_next q)"

definition workers_ok :: "nat \<Rightarrow> 'r work_queue \<Rightarrow> bool" where
  "workers_ok cpus q \<longleftrightarrow>
     length (wq_workers q) = max 1 cpus
     \<and> (wq_running q \<longrightarrow>
          Stopped \<notin> set (wq_workers q) \<and> wq_sentinels q = 0 \<and> (\<forall>(p, t, w) \<in> set (wq_entries q). w \<noteq> None))"

lemma queued_simps [simp]:
  "queued [] = []" "queued ((p, t, None) # es) = queued es" "queued ((p, t, Some it) # es) = it # queued es"
  "queued (xs @ ys) = queued xs @ queued ys"
  by (simp_all add: queued_def)

lemma mset_queued: "mset (queued es) = (\<Sum>e \<in># mset es. case snd (snd e) of None \<Rightarrow> {#} | Some it \<Rightarrow> {#it#})"
  by (induction es) (auto simp: queued_def case_prod_beta split: option.splits)

lemma mset_queued_put:
  "mset (queued (enqueue (p, t, w) es)) = (case w of None \<Rightarrow> {#} | Some it \<Rightarrow> {#it#}) + mset (queued es)"
  unfolding mset_queued entries.put_mset by simp

lemma queued_put_sentinel: "mset (queued (enqueue (p, t, None) es)) = mset (queued es)"
  by (simp add: mset_queued_put)

lemma mset_busy_update:
  "i < length ws \<Longrightarrow>
   mset (busy (ws[i := w])) + mset (busy [ws ! i]) = mset (busy ws) + mset (busy [w])"
proof (induction ws arbitrary: i)
  case (Cons a ws)
  then show ?case by (cases i) (auto simp: busy_def ac_simps)
qed simp

lemma busy_single [simp]: "busy [Waiting] = []" "busy [Stopped] = []" "busy [Busy it] = [it]" "busy [] = []"
  by (simp_all add: busy_def)

lemma busy_next_round [simp]: "busy [next_round q] = []"
  by (simp add: next_round_def)

lemma busy_replicate [simp]: "busy (replicate n Waiting) = []"
  by (induction n) (simp_all add: busy_def)

text \<open>\<open>dedup_ok\<close> and \<open>futures_ok\<close> depend on the multisets of queued and carried items alone.\<close>

lemma mset_same: assumes "mset xs = mset ys" shows "distinct (map f xs) = distinct (map f ys)" "set xs = set ys"
  using assms by (metis mset_eq_imp_distinct_iff mset_map, metis set_mset_mset)

lemma dedup_ok_cong:
  assumes "mset (queued (wq_entries q)) = mset (queued (wq_entries q'))" "wq_dedup q = wq_dedup q'"
  shows "dedup_ok q = dedup_ok q'"
  unfolding dedup_ok_def assms(2) mset_same [OF assms(1)] ..

lemma futures_ok_cong:
  assumes "mset (carried q) = mset (carried q')" "wq_futures q = wq_futures q'" "wq_next q = wq_next q'"
  shows "futures_ok q = futures_ok q'"
  unfolding futures_ok_def assms(2,3) mset_same [OF assms(1)] ..

definition wq_inv :: "nat \<Rightarrow> 'r work_queue \<Rightarrow> bool" where
  "wq_inv cpus q \<longleftrightarrow> entries_ok q \<and> dedup_ok q \<and> futures_ok q \<and> workers_ok cpus q"

lemma wq_inv_start: "wq_inv cpus (wq_start cpus)"
  by (auto simp: wq_inv_def wq_start_def entries_ok_def dedup_ok_def futures_ok_def workers_ok_def carried_def)

lemma wq_inv_stamps [simp]: "wq_inv cpus (q\<lparr>wq_stamps := s\<rparr>) = wq_inv cpus q"
  by (simp add: wq_inv_def entries_ok_def dedup_ok_def futures_ok_def workers_ok_def carried_def)

text \<open>The state \<open>submit\<close> returns when it admits a request.\<close>

definition admit :: "instant \<Rightarrow> work_item \<Rightarrow> 'r work_queue \<Rightarrow> 'r work_queue" where
  "admit now item q =
     q\<lparr>wq_dedup := dset (item_key item) item (wq_dedup q),
       wq_entries := enqueue (priority_int (wi_priority item), now, Some item) (wq_entries q),
       wq_futures := dset (wi_future item) Pending (wq_futures q),
       wq_next := Suc (wq_next q)\<rparr>"

lemma wq_inv_admit:
  assumes inv: "wq_inv cpus q" and new: "dget (wq_dedup q) (item_key item) = None"
    and room: "length (wq_entries q) < QUEUE_MAX_SIZE" and fresh: "wi_future item = wq_next q"
  shows "wq_inv cpus (admit now item q)"
proof -
  let ?e = "(priority_int (wi_priority item), now, Some item)" and ?q = "admit now item q"
  have ok: "entries_ok q" "dedup_ok q" "futures_ok q" "workers_ok cpus q"
    using inv by (simp_all add: wq_inv_def)
  have queued': "mset (queued (wq_entries ?q)) = mset (item # queued (wq_entries q))"
    by (simp add: admit_def mset_queued_put)
  then have carried': "mset (carried ?q) = mset (item # carried q)"
    by (simp add: carried_def admit_def)
  have queue: "entries_ok ?q"
    using ok(1) room by (auto simp: entries_ok_def admit_def entries.put_length entries.put_sorted entries.put_set)
  have none: "item_key it \<noteq> item_key item" if "it \<in> set (queued (wq_entries q))" for it
    using ok(2) new that unfolding dedup_ok_def by (metis option.distinct(1))
  have dedup: "dedup_ok ?q"
    using ok(2) unfolding dedup_ok_def mset_same [OF queued']
    by (auto simp: admit_def simp del: split_paired_All dest: none)
  have "wq_next q \<notin> wi_future ` set (carried q)"
    using ok(3) by (fastforce simp: futures_ok_def)
  then have futures: "futures_ok ?q"
    using ok(3) fresh unfolding futures_ok_def mset_same [OF carried']
    by (auto simp: admit_def less_Suc_eq)
  have "workers_ok cpus ?q"
    using ok(4) by (auto simp: workers_ok_def admit_def entries.put_set)
  then show ?thesis using queue dedup futures by (simp add: wq_inv_def)
qed

lemma enforce_rate_limit_stamps:
  "\<exists>s. snd (enforce_rate_limit env now q) = q\<lparr>wq_stamps := s\<rparr>"
  by (auto simp: enforce_rate_limit_def Let_def)

text \<open>What \<open>submit\<close> does, with the rate check separated from the rest.\<close>

lemma submit_cases:
  assumes "enforce_rate_limit env now q = (exceeded, q1)"
    and item: "item = \<lparr>wi_resource = resource, wi_time_window = time_window, wi_priority = priority,
      wi_future = wq_next q\<rparr>"
  shows "snd (submit env now resource time_window priority q) =
      (if exceeded = None \<and> dget (wq_dedup q) (item_key item) = None \<and> \<not> (under_pressure q \<and> priority = BACKGROUND)
          \<and> length (wq_entries q) < QUEUE_MAX_SIZE then admit now item q1 else q1)"
    and "fst (submit env now resource time_window priority q) = Inr f \<longleftrightarrow>
      exceeded = None
      \<and> (case dget (wq_dedup q) (item_key item) of
           Some existing \<Rightarrow> f = wi_future existing
         | None \<Rightarrow> \<not> (under_pressure q \<and> priority = BACKGROUND) \<and> length (wq_entries q) < QUEUE_MAX_SIZE
             \<and> f = wq_next q)"
proof -
  obtain s where q1: "q1 = q\<lparr>wq_stamps := s\<rparr>"
    using enforce_rate_limit_stamps [of env now q] assms(1) by auto
  have pressure: "under_pressure (q\<lparr>wq_stamps := s\<rparr>) = under_pressure q" by (simp add: under_pressure_def)
  show "snd (submit env now resource time_window priority q) =
      (if exceeded = None \<and> dget (wq_dedup q) (item_key item) = None \<and> \<not> (under_pressure q \<and> priority = BACKGROUND)
          \<and> length (wq_entries q) < QUEUE_MAX_SIZE then admit now item q1 else q1)"
    unfolding submit_def assms(1) item [symmetric]
    by (cases exceeded; cases "dget (wq_dedup q) (item_key item)")
       (auto simp: Let_def q1 admit_def item pressure)
  show "fst (submit env now resource time_window priority q) = Inr f \<longleftrightarrow>
      exceeded = None
      \<and> (case dget (wq_dedup q) (item_key item) of
           Some existing \<Rightarrow> f = wi_future existing
         | None \<Rightarrow> \<not> (under_pressure q \<and> priority = BACKGROUND) \<and> length (wq_entries q) < QUEUE_MAX_SIZE
             \<and> f = wq_next q)"
    unfolding submit_def assms(1) item [symmetric]
    by (cases exceeded; cases "dget (wq_dedup q) (item_key item)")
       (auto simp: Let_def q1 item pressure)
qed

lemma wq_inv_submit:
  assumes "wq_inv cpus q"
  shows "wq_inv cpus (snd (submit env now resource time_window priority q))"
proof -
  obtain exceeded q1 where rate: "enforce_rate_limit env now q = (exceeded, q1)" by fastforce
  then obtain s where q1: "q1 = q\<lparr>wq_stamps := s\<rparr>"
    using enforce_rate_limit_stamps [of env now q] by auto
  show ?thesis
    unfolding submit_cases(1) [OF rate refl] using assms by (auto simp: q1 intro!: wq_inv_admit)
qed

text \<open>The other steps hand carried requests on without duplicating or dropping one.\<close>

lemma set_update_other: "x \<noteq> w \<Longrightarrow> x \<notin> set ws \<Longrightarrow> x \<notin> set (ws[i := w])"
  using set_update_subset_insert by fastforce

lemma workers_ok_update:
  assumes "workers_ok cpus q" "wq_running q \<Longrightarrow> w \<noteq> Stopped"
  shows "workers_ok cpus (q\<lparr>wq_workers := (wq_workers q)[i := w]\<rparr>)"
  using assms by (auto simp: workers_ok_def dest: set_update_subset_insert [THEN subsetD])

lemma entries_ok_tail:
  "entries_ok q \<Longrightarrow> wq_entries q = e # rest \<Longrightarrow> entries_ok (q\<lparr>wq_entries := rest\<rparr>)"
  by (auto simp: entries_ok_def)

lemma dedup_ok_pop:
  assumes ok: "dedup_ok q" and q: "wq_entries q = (p, t, Some item) # rest"
  shows "dedup_ok (q\<lparr>wq_entries := rest, wq_dedup := dpop (item_key item) (wq_dedup q)\<rparr>)"
proof -
  have "item_key it \<noteq> item_key item" if "it \<in> set (queued rest)" for it
    using ok that unfolding dedup_ok_def q by (metis distinct.simps(2) imageI list.set_map list.simps(9) queued_simps(3))
  then show ?thesis
    using ok by (auto simp: dedup_ok_def q simp del: split_paired_All)
qed

lemma futures_ok_drop:
  assumes ok: "futures_ok q" and same: "mset (carried q) = mset (item # carried q')"
    and fs: "wq_futures q' = dset (wi_future item) out (wq_futures q)" "wq_next q' = wq_next q"
    and out: "out \<noteq> Pending"
  shows "futures_ok q'"
proof -
  have "wi_future item \<notin> wi_future ` set (carried q')" "distinct (map wi_future (carried q'))"
    using ok unfolding futures_ok_def mset_same [OF same] by auto
  moreover from this(1) have "wi_future it \<noteq> wi_future item" if "it \<in> set (carried q')" for it
    using that by (metis image_eqI)
  ultimately show ?thesis
    using ok out unfolding futures_ok_def mset_same [OF same] fs by auto
qed

lemma carried_mset: "mset (carried q) = mset (queued (wq_entries q)) + mset (busy (wq_workers q))"
  by (simp add: carried_def)

lemma wq_inv_take:
  assumes inv: "wq_inv cpus q" and i: "i < length (wq_workers q)" "wq_workers q ! i = Waiting"
  shows "wq_inv cpus (worker_take i q)"
proof (cases "wq_entries q")
  case Nil
  then show ?thesis using inv by (simp add: worker_take_def)
next
  case (Cons e rest)
  obtain p t w where e: "e = (p, t, w)" by (cases e)
  have ok: "entries_ok q" "dedup_ok q" "futures_ok q" "workers_ok cpus q"
    using inv by (simp_all add: wq_inv_def)
  have tail: "entries_ok (q\<lparr>wq_entries := rest\<rparr>)" using ok(1) Cons by (rule entries_ok_tail)
  have workers: "mset (busy ((wq_workers q)[i := w'])) = mset (busy (wq_workers q)) + mset (busy [w'])" for w'
    using mset_busy_update [OF i(1), of w'] i(2) by simp
  show ?thesis
  proof (cases w)
    case None
    define q' where "q' = q\<lparr>wq_entries := rest, wq_workers := (wq_workers q)[i := Stopped]\<rparr>"
    have take: "worker_take i q = q'" by (simp add: worker_take_def Cons e None q'_def)
    have "\<not> wq_running q" using ok(4) by (auto simp: workers_ok_def Cons e None)
    then have "workers_ok cpus q'" using ok(4) by (simp add: workers_ok_def q'_def)
    moreover have "entries_ok q'" using tail by (simp add: entries_ok_def q'_def)
    moreover have "dedup_ok q'"
      using ok(2) by (subst dedup_ok_cong [of _ q]) (simp_all add: q'_def Cons e None)
    moreover have "futures_ok q'"
      using ok(3) by (subst futures_ok_cong [of _ q]) (simp_all add: q'_def carried_mset Cons e None workers)
    ultimately show ?thesis by (simp add: take wq_inv_def)
  next
    case (Some item)
    define w' where "w' = (if dget (wq_futures q) (wi_future item) = Some Cancelled then next_round q else Busy item)"
    define q' where "q' = q\<lparr>wq_entries := rest, wq_dedup := dpop (item_key item) (wq_dedup q),
      wq_workers := (wq_workers q)[i := w']\<rparr>"
    have take: "worker_take i q = q'" by (simp add: worker_take_def Cons e Some q'_def w'_def Let_def)
    have "workers_ok cpus (q\<lparr>wq_workers := (wq_workers q)[i := w']\<rparr>)"
      using ok(4) by (rule workers_ok_update) (simp add: w'_def next_round_def)
    then have "workers_ok cpus q'" by (auto simp: workers_ok_def q'_def Cons)
    moreover have "entries_ok q'" using tail by (simp add: entries_ok_def q'_def)
    moreover have "dedup_ok q'"
      using dedup_ok_pop [OF ok(2)] Cons by (simp add: dedup_ok_def q'_def e Some)
    moreover have "futures_ok q'"
    proof (cases "dget (wq_futures q) (wi_future item) = Some Cancelled")
      case True
      then have "mset (carried q) = mset (item # carried q')"
        by (simp add: q'_def w'_def carried_mset Cons e Some workers)
      note same = mset_same [OF this]
      show ?thesis
        using ok(3) True unfolding futures_ok_def same by (auto simp: q'_def)
    next
      case False
      then show ?thesis
        using ok(3) by (subst futures_ok_cong [of _ q]) (simp_all add: q'_def w'_def carried_mset Cons e Some workers)
    qed
    ultimately show ?thesis by (simp add: take wq_inv_def)
  qed
qed

lemma wq_inv_finish:
  assumes inv: "wq_inv cpus q" and i: "i < length (wq_workers q)" "wq_workers q ! i = Busy item"
  shows "wq_inv cpus (worker_finish i outcome q)"
proof -
  define q' where "q' = q\<lparr>wq_futures := settle (wi_future item) outcome (wq_futures q),
    wq_workers := (wq_workers q)[i := next_round q]\<rparr>"
  have finish: "worker_finish i outcome q = q'" by (simp add: worker_finish_def i q'_def)
  have ok: "entries_ok q" "dedup_ok q" "futures_ok q" "workers_ok cpus q"
    using inv by (simp_all add: wq_inv_def)
  have "mset (busy (wq_workers q')) + {#item#} = mset (busy (wq_workers q))"
    using mset_busy_update [OF i(1), of "next_round q"] i(2) by (simp add: q'_def)
  then have same: "mset (carried q) = mset (item # carried q')"
    by (simp add: carried_mset q'_def flip: add.assoc)
  have item: "item \<in> set (carried q)" unfolding mset_same(2) [OF same] by simp
  have "futures_ok q'"
  proof (cases "dget (wq_futures q) (wi_future item) = Some Pending")
    case True
    then have "wq_futures q' = dset (wi_future item) (case outcome of Inl exc \<Rightarrow> Failed exc | Inr r \<Rightarrow> Result r) (wq_futures q)"
      by (simp add: q'_def settle_def)
    then show ?thesis
      by (rule futures_ok_drop [OF ok(3) same]) (simp_all add: q'_def split: sum.split)
  next
    case False
    then have "wq_futures q' = wq_futures q" by (simp add: q'_def settle_def)
    then show ?thesis
      using ok(3) False unfolding futures_ok_def mset_same [OF same] by (auto simp: q'_def)
  qed
  moreover have "workers_ok cpus q'"
    using workers_ok_update [OF ok(4), of "next_round q" i] by (simp add: workers_ok_def q'_def next_round_def)
  moreover have "entries_ok q'" "dedup_ok q'"
    using ok(1,2) by (simp_all add: entries_ok_def dedup_ok_def q'_def)
  ultimately show ?thesis by (simp add: finish wq_inv_def)
qed

lemma wq_inv_cancel: "wq_inv cpus q \<Longrightarrow> wq_inv cpus (cancel_future f q)"
  by (auto simp: cancel_future_def wq_inv_def entries_ok_def dedup_ok_def futures_ok_def workers_ok_def carried_def)

lemma wq_inv_notify: "wq_inv cpus q \<Longrightarrow> wq_inv cpus (notify_upstream_429 now q)"
  by (auto simp: notify_upstream_429_def wq_inv_def entries_ok_def dedup_ok_def futures_ok_def workers_ok_def
      carried_def)

lemma wq_inv_stop_begin: "wq_inv cpus q \<Longrightarrow> wq_inv cpus (stop_begin q)"
  by (auto simp: stop_begin_def wq_inv_def entries_ok_def dedup_ok_def futures_ok_def workers_ok_def carried_def)

lemma wq_inv_stop_put:
  assumes inv: "wq_inv cpus q" and pending: "0 < wq_sentinels q" and room: "length (wq_entries q) < QUEUE_MAX_SIZE"
  shows "wq_inv cpus (stop_put now q)"
proof -
  have ok: "entries_ok q" "dedup_ok q" "futures_ok q" "workers_ok cpus q"
    using inv by (simp_all add: wq_inv_def)
  let ?q = "stop_put now q"
  have "\<not> wq_running q" using ok(4) pending by (auto simp: workers_ok_def)
  then have "workers_ok cpus ?q" using ok(4) by (simp add: workers_ok_def stop_put_def)
  moreover have "entries_ok ?q"
    using ok(1) room by (auto simp: entries_ok_def stop_put_def entries.put_length entries.put_sorted entries.put_set)
  moreover have "dedup_ok ?q"
    using ok(2) by (subst dedup_ok_cong [of _ q]) (simp_all add: stop_put_def queued_put_sentinel)
  moreover have "futures_ok ?q"
    using ok(3) by (subst futures_ok_cong [of _ q]) (simp_all add: stop_put_def carried_mset queued_put_sentinel)
  ultimately show ?thesis by (simp add: wq_inv_def)
qed

lemma wq_inv_internal: "wq_internal q q' \<Longrightarrow> wq_inv cpus q \<Longrightarrow> wq_inv cpus q'"
  by (induction rule: wq_internal.induct)
     (simp_all add: wq_inv_take wq_inv_finish wq_inv_cancel wq_inv_notify wq_inv_stop_begin wq_inv_stop_put)

lemma wq_inv_step: "wq_step q q' \<Longrightarrow> wq_inv cpus q \<Longrightarrow> wq_inv cpus q'"
  by (induction rule: wq_step.induct) (simp_all add: wq_inv_submit wq_inv_internal)

lemma wq_reach_inv: "wq_reach cpus q \<Longrightarrow> wq_inv cpus q"
  by (induction rule: wq_reach.induct) (auto intro: wq_inv_start wq_inv_step)

subsection \<open>Admission\<close>

lemma fill_ratio_error: "0 \<le> n \<Longrightarrow> n \<le> 100 \<Longrightarrow> \<bar>2 * (dlit n 100 * 100 - n * 2 ^ 64)\<bar> \<le> 100 * 2 ^ 12"
  using fl_quot_error [of 100 "n * 2 ^ 64" 65] by (simp add: dlit_def dbl_unit_def)

lemma under_pressure_iff:
  assumes "length (wq_entries q) \<le> QUEUE_MAX_SIZE"
  shows "under_pressure q \<longleftrightarrow> BACKGROUND_REJECT_THRESHOLD < length (wq_entries q)"
proof -
  have n: "0 \<le> int (length (wq_entries q))" "int (length (wq_entries q)) \<le> 100"
    using assms by (simp_all add: QUEUE_MAX_SIZE_def)
  show ?thesis
    using fill_ratio_error [of 80] fill_ratio_error [OF n] n
    by (cases "length (wq_entries q)" "80 :: nat" rule: linorder_cases)
       (simp_all add: under_pressure_def QUEUE_MAX_SIZE_def BACKGROUND_REJECT_THRESHOLD_def)
qed

lemma effective_rate_bounds: "5 \<le> effective_rate env now q \<and> effective_rate env now q \<le> 20"
  by (simp add: effective_rate_def DEGRADED_RATE_def DEFAULT_RATE_def split: option.split)

text \<open>
  In every reachable state \<open>submit\<close> hands out a future exactly when the calls it let through in
  the last 60 seconds are fewer than the rate and the resource is already queued, or the queue has
  room and, for background requests, holds at most 80 entries; the future is then the queued one or a
  new one.
\<close>
theorem submit_admission:
  assumes "wq_reach cpus q"
  shows "fst (submit env now resource time_window priority q) = Inr f \<longleftrightarrow>
    length (filter (\<lambda>t. now - seconds 60 \<le> t) (wq_stamps q)) < effective_rate env now q
    \<and> (if \<exists>it \<in> set (queued (wq_entries q)). item_key it = resource_key resource
       then \<exists>it \<in> set (queued (wq_entries q)). item_key it = resource_key resource \<and> f = wi_future it
       else length (wq_entries q) < (if priority = BACKGROUND then 81 else 100) \<and> f = wq_next q)"
proof -
  define item where "item = \<lparr>wi_resource = resource, wi_time_window = time_window, wi_priority = priority,
      wi_future = wq_next q\<rparr>"
  obtain exceeded q1 where rate: "enforce_rate_limit env now q = (exceeded, q1)" by fastforce
  then have passed: "exceeded = None \<longleftrightarrow>
      length (filter (\<lambda>t. now - seconds 60 \<le> t) (wq_stamps q)) < effective_rate env now q"
    by (auto simp: enforce_rate_limit_def Let_def split: if_splits)
  have key: "item_key item = resource_key resource" by (simp add: item_def item_key_def)
  have inv: "wq_inv cpus q" using assms by (rule wq_reach_inv)
  then have size: "length (wq_entries q) \<le> QUEUE_MAX_SIZE"
    and known: "dget (wq_dedup q) (resource_key resource) = Some it
      \<longleftrightarrow> it \<in> set (queued (wq_entries q)) \<and> item_key it = resource_key resource" for it
    unfolding wq_inv_def entries_ok_def dedup_ok_def by blast+
  note cases = submit_cases(2) [OF rate item_def, unfolded passed key under_pressure_iff [OF size]
      BACKGROUND_REJECT_THRESHOLD_def QUEUE_MAX_SIZE_def]
  show ?thesis
  proof (cases "dget (wq_dedup q) (resource_key resource)")
    case None
    then have "\<not> (\<exists>it \<in> set (queued (wq_entries q)). item_key it = resource_key resource)"
      using known by auto
    then show ?thesis unfolding cases by (auto simp: None)
  next
    case (Some it)
    then have "\<exists>it \<in> set (queued (wq_entries q)). item_key it = resource_key resource"
      "(\<exists>it \<in> set (queued (wq_entries q)). item_key it = resource_key resource \<and> f = wi_future it) \<longleftrightarrow> f = wi_future it"
      using known Some by (auto, metis option.inject)
    then show ?thesis unfolding cases by (simp add: Some)
  qed
qed

text \<open>A second worker state, used by the witnesses.\<close>

definition sample_env :: queue_env where
  "sample_env = \<lparr>qe_readiness = Some READY, qe_cpu = None\<rparr>"

lemma submit_admission_witness:
  "fst (submit sample_env 0 ''Pod/a/b'' ''2h'' BACKGROUND (wq_start 1)) = Inr 0"
  by (subst submit_admission [OF reach_start])
     (simp add: wq_start_def effective_rate_def sample_env_def)

subsection \<open>The queue and the futures\<close>

text \<open>
  C7: In every reachable state the queue holds at most 100 entries in priority order (oldest first
  within a priority) and never two requests for the same resource, and the deduplication map
  contains exactly the queued requests.
\<close>
theorem work_queue_invariant:
  assumes "wq_reach cpus q"
  shows "length (wq_entries q) \<le> 100 \<and> sorted (map entry_key (wq_entries q))
    \<and> distinct (map item_key (queued (wq_entries q)))
    \<and> (\<forall>k it. dget (wq_dedup q) k = Some it \<longleftrightarrow> it \<in> set (queued (wq_entries q)) \<and> item_key it = k)"
  using wq_reach_inv [OF assms] unfolding wq_inv_def entries_ok_def dedup_ok_def QUEUE_MAX_SIZE_def by blast

text \<open>Only \<open>settle\<close> and \<open>cancel_future\<close> touch an existing future, and only a pending one.\<close>

lemma internal_settled:
  assumes "wq_internal q q'"
  shows "dget (wq_futures q') f = dget (wq_futures q) f \<or> dget (wq_futures q) f = Some Pending"
  using assms
  by (induction rule: wq_internal.induct)
     (auto simp: worker_take_def worker_finish_def settle_def cancel_future_def notify_upstream_429_def
       stop_begin_def stop_put_def Let_def split: list.splits option.splits worker.splits)

lemma step_settled:
  assumes "wq_step q q'"
  shows "dget (wq_futures q') f = dget (wq_futures q) f \<or> dget (wq_futures q) f = Some Pending \<or> f = wq_next q"
  using assms
proof cases
  case step_internal
  then show ?thesis using internal_settled by blast
next
  case (step_submit env now resource time_window priority)
  obtain exceeded q1 where rate: "enforce_rate_limit env now q = (exceeded, q1)" by fastforce
  then have "wq_futures q1 = wq_futures q"
    by (auto simp: enforce_rate_limit_def Let_def split: if_splits)
  then show ?thesis
    unfolding step_submit submit_cases(1) [OF rate refl] by (auto simp: admit_def)
qed

text \<open>
  C14: No request is lost or served twice: in every reachable state each unanswered future belongs to
  exactly one request, which waits in the queue or is in the hands of one worker, and a future is
  answered or cancelled once and for all.
\<close>
theorem no_request_lost:
  assumes "wq_reach cpus q" and "wq_step q q'"
  shows "(\<forall>f. dget (wq_futures q) f = Some Pending \<longrightarrow> (\<exists>!it. it \<in> set (carried q) \<and> wi_future it = f))
    \<and> distinct (carried q)
    \<and> (\<forall>f out. dget (wq_futures q) f = Some out \<and> out \<noteq> Pending \<longrightarrow> dget (wq_futures q') f = Some out)"
proof (intro conjI allI impI)
  have ok: "futures_ok q" using wq_reach_inv [OF assms(1)] by (simp add: wq_inv_def)
  then show "distinct (carried q)" by (auto simp: futures_ok_def distinct_map)
  show "\<exists>!it. it \<in> set (carried q) \<and> wi_future it = f" if "dget (wq_futures q) f = Some Pending" for f
    using ok that by (force simp: futures_ok_def distinct_map inj_on_def)
  show "dget (wq_futures q') f = Some out" if "dget (wq_futures q) f = Some out \<and> out \<noteq> Pending" for f out
  proof -
    have "f < wq_next q" using ok that unfolding futures_ok_def by blast
    then show ?thesis using step_settled [OF assms(2), of f] that by auto
  qed
qed

text \<open>A state with one queued request, used by the witnesses.\<close>

definition sample_queue :: "str work_queue" where
  "sample_queue = snd (submit sample_env 0 ''Pod/a/b'' ''2h'' INTERACTIVE (wq_start 1))"

lemma sample_reach: "wq_reach 1 sample_queue"
  unfolding sample_queue_def by (intro reach_step [OF reach_start] step_submit)

lemma sample_queue_eq:
  "sample_queue = \<lparr>wq_entries = [(1, 0, Some \<lparr>wi_resource = ''Pod/a/b'', wi_time_window = ''2h'',
       wi_priority = INTERACTIVE, wi_future = 0\<rparr>)],
     wq_workers = [Waiting], wq_dedup = [((''a'', ''b''), \<lparr>wi_resource = ''Pod/a/b'', wi_time_window = ''2h'',
       wi_priority = INTERACTIVE, wi_future = 0\<rparr>)], wq_running = True,
     wq_sentinels = 0, wq_halved_until = 0, wq_stamps = [0], wq_futures = [(0, Pending)], wq_next = 1\<rparr>"
proof -
  have limit: "enforce_rate_limit sample_env 0 (wq_start 1) = (None, (wq_start 1)\<lparr>wq_stamps := [0]\<rparr>)"
    by (simp add: enforce_rate_limit_def effective_rate_def sample_env_def wq_start_def DEFAULT_RATE_def)
  have key: "resource_key ''Pod/a/b'' = (''a'', ''b'')" by code_simp
  show ?thesis
    unfolding sample_queue_def submit_cases(1) [OF limit refl]
    by (simp add: admit_def wq_start_def item_key_def key QUEUE_MAX_SIZE_def enqueue_def)
qed

lemma work_queue_invariant_witness: "distinct (map item_key (queued (wq_entries sample_queue)))"
  using work_queue_invariant [OF sample_reach] by (elim conjE)

lemma no_request_lost_witness:
  "\<exists>!it. it \<in> set (carried sample_queue) \<and> wi_future it = 0"
proof -
  have "dget (wq_futures sample_queue) 0 = Some Pending" by (simp add: sample_queue_eq)
  then show ?thesis
    using no_request_lost [OF sample_reach step_internal [OF step_cancel]] by blast
qed

subsection \<open>Serving\<close>

lemma sorted_head:
  assumes "entries_ok q" "wq_entries q = (p, t, w) # rest" "(p', t', w') \<in> set rest"
  shows "p \<le> p' \<and> (p = p' \<longrightarrow> t \<le> t')"
  using assms by (fastforce simp: entries_ok_def entry_key_def)

lemma queued_entry: "it \<in> set (queued es) \<longleftrightarrow> (\<exists>p t. (p, t, Some it) \<in> set es)"
  by (induction es) (auto simp: queued_def split: option.splits)

text \<open>
  In every reachable state of a running queue, an idle worker that takes an entry takes a request
  and leaves none behind that is more urgent; it starts the analysis unless the client has cancelled
  it, and in both cases the resource may be submitted again.
\<close>
theorem worker_serves_most_urgent:
  assumes "wq_reach cpus q" and "wq_running q" and "i < length (wq_workers q)"
    and "wq_entries q \<noteq> []"
  shows "\<exists>item. mset (queued (wq_entries q)) = add_mset item (mset (queued (wq_entries (worker_take i q))))
    \<and> (\<forall>it \<in> set (queued (wq_entries (worker_take i q))). priority_int (wi_priority item) \<le> priority_int (wi_priority it))
    \<and> wq_workers (worker_take i q) ! i =
        (if dget (wq_futures q) (wi_future item) = Some Cancelled then Waiting else Busy item)
    \<and> dget (wq_dedup (worker_take i q)) (item_key item) = None"
proof -
  obtain p t w rest where es: "wq_entries q = (p, t, w) # rest" using assms(4) by (cases "wq_entries q") auto
  have ok: "entries_ok q" "workers_ok cpus q" using wq_reach_inv [OF assms(1)] by (simp_all add: wq_inv_def)
  with assms(2) es obtain item where w: "w = Some item" by (auto simp: workers_ok_def)
  have p: "p = priority_int (wi_priority item)" using ok(1) by (auto simp: entries_ok_def es w)
  have least: "priority_int (wi_priority item) \<le> priority_int (wi_priority it)" if "it \<in> set (queued rest)" for it
  proof -
    from that obtain p' t' where entry: "(p', t', Some it) \<in> set rest" by (auto simp: queued_entry)
    then have "p' = priority_int (wi_priority it)" using ok(1) by (fastforce simp: entries_ok_def es)
    then show ?thesis using sorted_head [OF ok(1) es entry] p by simp
  qed
  show ?thesis
    by (rule exI [of _ item])
       (use assms(2,3) least in \<open>auto simp: worker_take_def es w next_round_def Let_def\<close>)
qed

lemma worker_serves_most_urgent_witness:
  "\<exists>item. mset (queued (wq_entries sample_queue)) = add_mset item (mset (queued (wq_entries (worker_take 0 sample_queue))))"
proof -
  have "wq_running sample_queue" "0 < length (wq_workers sample_queue)" "wq_entries sample_queue \<noteq> []"
    by (simp_all add: sample_queue_eq)
  from worker_serves_most_urgent [OF sample_reach this] show ?thesis by (elim exE conjE) (rule exI)
qed

text \<open>A running queue can be served until nothing waits: the runs of takes and finished analyses.\<close>

inductive serve :: "'r work_queue \<Rightarrow> 'r work_queue \<Rightarrow> bool" where
  serve_done: "serve q q"
| serve_take: "i < length (wq_workers q) \<Longrightarrow> wq_workers q ! i = Waiting \<Longrightarrow> wq_entries q \<noteq> [] \<Longrightarrow>
    serve (worker_take i q) q' \<Longrightarrow> serve q q'"
| serve_finish: "i < length (wq_workers q) \<Longrightarrow> wq_workers q ! i = Busy item \<Longrightarrow>
    serve (worker_finish i (Inr r) q) q' \<Longrightarrow> serve q q'"

definition load :: "'r work_queue \<Rightarrow> nat" where
  "load q = 2 * length (wq_entries q) + length (busy (wq_workers q))"

lemma length_busy_update:
  "i < length ws \<Longrightarrow> length (busy (ws[i := w])) + length (busy [ws ! i]) = length (busy ws) + length (busy [w])"
  using arg_cong [OF mset_busy_update [of i ws w], of size] by simp

lemma load_take:
  assumes "i < length (wq_workers q)" "wq_workers q ! i = Waiting" "wq_entries q \<noteq> []"
  shows "load (worker_take i q) < load q" "wq_running (worker_take i q) = wq_running q"
  using assms length_busy_update [OF assms(1)]
  by (auto simp: load_def worker_take_def Let_def split: list.splits option.splits)

lemma load_finish:
  assumes "i < length (wq_workers q)" "wq_workers q ! i = Busy item"
  shows "load (worker_finish i out q) < load q" "wq_running (worker_finish i out q) = wq_running q"
  using assms length_busy_update [OF assms(1), of "next_round q"]
  by (auto simp: load_def worker_finish_def)

lemma in_busy: "item \<in> set (busy ws) \<longleftrightarrow> Busy item \<in> set ws"
  by (induction ws) (auto simp: busy_def split: worker.splits)

lemma serve_all:
  "wq_inv cpus q \<Longrightarrow> wq_running q \<Longrightarrow> \<exists>q'. serve q q' \<and> wq_inv cpus q' \<and> wq_entries q' = [] \<and> busy (wq_workers q') = []"
proof (induction "load q" arbitrary: q rule: less_induct)
  case less
  have workers: "workers_ok cpus q" using less.prems(1) by (simp add: wq_inv_def)
  show ?case
  proof (cases "busy (wq_workers q)")
    case (Cons item its)
    then obtain i where i: "i < length (wq_workers q)" "wq_workers q ! i = Busy item"
      by (metis in_busy in_set_conv_nth list.set_intros(1))
    with load_finish [OF i] wq_inv_finish [OF less.prems(1) i] less.hyps less.prems(2)
    show ?thesis using serve_finish [OF i] by metis
  next
    case Nil
    show ?thesis
    proof (cases "wq_entries q")
      case entries: (Cons e es)
      have "0 < length (wq_workers q)" using workers by (simp add: workers_ok_def)
      moreover from this have "wq_workers q ! 0 \<in> set (wq_workers q)" by simp
      then have "wq_workers q ! 0 \<noteq> Stopped" "wq_workers q ! 0 \<noteq> Busy it" for it
        using workers less.prems(2) in_busy [of it "wq_workers q"] Nil unfolding workers_ok_def by (metis list.set(1) empty_iff)+
      then have "wq_workers q ! 0 = Waiting" by (cases "wq_workers q ! 0") auto
      ultimately show ?thesis
        using load_take [of 0 q] wq_inv_take [OF less.prems(1), of 0] less.hyps less.prems(2) entries serve_take [of 0 q]
        by (metis list.distinct(1))
    qed (use Nil less.prems serve_done in blast)
  qed
qed

text \<open>
  While the queue runs nobody waits for ever: from every reachable state of a running queue some
  run of the workers alone answers or finds cancelled every request, whoever submitted it.
\<close>
theorem running_queue_can_drain:
  assumes "wq_reach cpus q" and "wq_running q"
  shows "\<exists>q'. serve q q' \<and> (\<forall>f. dget (wq_futures q') f \<noteq> Some Pending)"
proof -
  obtain q' where q': "serve q q'" "wq_inv cpus q'" "wq_entries q' = []" "busy (wq_workers q') = []"
    using serve_all [OF wq_reach_inv [OF assms(1)] assms(2)] by blast
  then have "carried q' = []" by (simp add: carried_def)
  then have "dget (wq_futures q') f \<noteq> Some Pending" for f using q'(2) by (auto simp: wq_inv_def futures_ok_def)
  with q'(1) show ?thesis by blast
qed

lemma running_queue_can_drain_witness:
  "\<exists>q'. serve sample_queue q' \<and> (\<forall>f. dget (wq_futures q') f \<noteq> Some Pending)"
  using running_queue_can_drain [OF sample_reach] by (simp add: sample_queue_eq)

subsection \<open>After \<open>stop\<close>\<close>

text \<open>Once every worker has stopped, a pending future is never answered: only its client can cancel it.\<close>

lemma all_stopped_internal:
  assumes "wq_internal q q'" "\<forall>w \<in> set (wq_workers q). w = Stopped"
  shows "wq_workers q' = wq_workers q
    \<and> (dget (wq_futures q) f \<in> {Some Pending, Some Cancelled} \<longrightarrow> dget (wq_futures q') f \<in> {Some Pending, Some Cancelled})"
  using assms(1)
proof cases
  case (step_take i)
  then show ?thesis using assms(2) nth_mem [OF step_take(2)] by (metis worker.distinct(3))
next
  case (step_finish i item outcome)
  then show ?thesis using assms(2) nth_mem [OF step_finish(2)] by (metis worker.distinct(5))
qed (simp_all add: cancel_future_def notify_upstream_429_def stop_begin_def stop_put_def)

lemma all_stopped_step:
  assumes "wq_step q q'" "wq_inv cpus q" "\<forall>w \<in> set (wq_workers q). w = Stopped"
    and f: "dget (wq_futures q) f \<in> {Some Pending, Some Cancelled}"
  shows "wq_workers q' = wq_workers q \<and> dget (wq_futures q') f \<in> {Some Pending, Some Cancelled}"
  using assms(1)
proof cases
  case step_internal
  then show ?thesis using all_stopped_internal [OF _ assms(3)] f by blast
next
  case (step_submit env now resource time_window priority)
  have "f < wq_next q" using assms(2) f by (auto simp: wq_inv_def futures_ok_def)
  moreover obtain exceeded q1 where rate: "enforce_rate_limit env now q = (exceeded, q1)" by fastforce
  then have "wq_futures q1 = wq_futures q" "wq_workers q1 = wq_workers q"
    by (auto simp: enforce_rate_limit_def Let_def split: if_splits)
  ultimately show ?thesis
    using f unfolding step_submit submit_cases(1) [OF rate refl] by (auto simp: admit_def)
qed

lemma all_stopped_unanswered:
  assumes "wq_step\<^sup>*\<^sup>* q q'" "wq_inv cpus q" "\<forall>w \<in> set (wq_workers q). w = Stopped"
    "dget (wq_futures q) f \<in> {Some Pending, Some Cancelled}"
  shows "wq_inv cpus q' \<and> (\<forall>w \<in> set (wq_workers q'). w = Stopped) \<and> dget (wq_futures q') f \<in> {Some Pending, Some Cancelled}"
  using assms(1)
proof (induction rule: rtranclp_induct)
  case base
  then show ?case using assms by simp
next
  case (step y z)
  then show ?case using wq_inv_step all_stopped_step by metis
qed

text \<open>
  \<open>stop\<close> strands queued requests: a client waits, \<open>stop\<close> puts its sentinels and every worker
  ends, and from then on no run of the queue answers the client's future, although \<open>stop\<close> returned.
\<close>
theorem stop_strands_requests:
  "\<exists>q :: str work_queue. wq_reach 1 q \<and> wq_sentinels q = 0 \<and> set (wq_workers q) = {Stopped}
     \<and> dget (wq_futures q) 1 = Some Pending
     \<and> (\<forall>q'. wq_step\<^sup>*\<^sup>* q q' \<longrightarrow> dget (wq_futures q') 1 \<in> {Some Pending, Some Cancelled})"
proof -
  let ?q1 = "worker_take 0 sample_queue"
  have q1: "wq_reach 1 ?q1"
    by (intro reach_step [OF sample_reach] step_internal step_take) (simp_all add: sample_queue_eq)
  define q2 where "q2 = snd (submit sample_env 1 ''Pod/a/c'' ''2h'' INTERACTIVE ?q1)"
  have q2: "wq_reach 1 q2" unfolding q2_def by (intro reach_step [OF q1] step_submit)
  define q where "q = worker_finish 0 (Inr ''done'') (stop_put 2 (stop_begin q2))"
  have limit: "enforce_rate_limit sample_env 1 ?q1 = (None, ?q1\<lparr>wq_stamps := [0, 1]\<rparr>)"
    by (simp add: enforce_rate_limit_def effective_rate_def sample_env_def sample_queue_eq worker_take_def
        DEFAULT_RATE_def seconds_def)
  have keys: "resource_key ''Pod/a/b'' = (''a'', ''b'')" "resource_key ''Pod/a/c'' = (''a'', ''c'')"
    by code_simp+
  note q2_eq = q2_def [unfolded submit_cases(1) [OF limit refl]]
  have state: "wq_workers q2 = [Busy \<lparr>wi_resource = ''Pod/a/b'', wi_time_window = ''2h'',
      wi_priority = INTERACTIVE, wi_future = 0\<rparr>]" "wq_running q2" "length (wq_entries q2) = 1"
      "dget (wq_futures q2) 0 = Some Pending" "dget (wq_futures q2) 1 = Some Pending"
    unfolding q2_eq
    by (simp_all add: admit_def sample_queue_eq worker_take_def item_key_def keys QUEUE_MAX_SIZE_def
        enqueue_def under_pressure_def)
  have "wq_step q2 (stop_begin q2)" using state by (intro step_internal step_stop)
  moreover have "wq_step (stop_begin q2) (stop_put 2 (stop_begin q2))"
    using state by (intro step_internal step_sentinel) (simp_all add: stop_begin_def QUEUE_MAX_SIZE_def)
  moreover have "wq_step (stop_put 2 (stop_begin q2)) q"
    unfolding q_def using state by (intro step_internal step_finish) (auto simp: stop_begin_def stop_put_def)
  ultimately have reach: "wq_reach 1 q" using q2 reach_step by metis
  have final: "wq_sentinels q = 0" "set (wq_workers q) = {Stopped}" "dget (wq_futures q) 1 = Some Pending"
    using state by (simp_all add: q_def worker_finish_def stop_put_def stop_begin_def next_round_def settle_def)
  have "dget (wq_futures q') 1 \<in> {Some Pending, Some Cancelled}" if "wq_step\<^sup>*\<^sup>* q q'" for q'
    using all_stopped_unanswered [OF that wq_reach_inv [OF reach], of 1] final by simp
  with reach final show ?thesis by blast
qed

lemma stop_strands_requests_witness:
  "\<exists>q :: str work_queue. wq_reach 1 q \<and> dget (wq_futures q) 1 = Some Pending \<and> set (wq_workers q) = {Stopped}"
  using stop_strands_requests by (elim exE conjE) (intro exI conjI)

subsection \<open>The rate limit\<close>

lemma length_filter_mono: "(\<And>x. P x \<Longrightarrow> Q x) \<Longrightarrow> length (filter P xs) \<le> length (filter Q xs)"
  by (induction xs) auto

text \<open>
  Runs with a log of the calls of \<open>submit\<close>: the time of the call and whether the limiter let it
  through.  The clock does not run backwards, and every effective rate is at most \<open>r\<close>.
\<close>

inductive wq_trace :: "nat \<Rightarrow> nat \<Rightarrow> (instant \<times> bool) list \<Rightarrow> 'r work_queue \<Rightarrow> bool" for r cpus where
  trace_start: "wq_trace r cpus [] (wq_start cpus)"
| trace_internal: "wq_trace r cpus log q \<Longrightarrow> wq_internal q q' \<Longrightarrow> wq_trace r cpus log q'"
| trace_submit: "wq_trace r cpus log q \<Longrightarrow> \<forall>(t, ok) \<in> set log. t \<le> now \<Longrightarrow> effective_rate env now q \<le> r \<Longrightarrow>
    wq_trace r cpus (log @ [(now, fst (enforce_rate_limit env now q) = None)])
      (snd (submit env now resource time_window priority q))"

definition let_through :: "(instant \<times> bool) list \<Rightarrow> instant list" where
  "let_through log = map fst (filter snd log)"

lemma let_through_simps [simp]:
  "let_through [] = []" "let_through (log @ [(t, ok)]) = let_through log @ (if ok then [t] else [])"
  by (simp_all add: let_through_def)

lemma internal_stamps: "wq_internal q q' \<Longrightarrow> wq_stamps q' = wq_stamps q"
  by (induction rule: wq_internal.induct)
     (auto simp: worker_take_def worker_finish_def cancel_future_def notify_upstream_429_def
       stop_begin_def stop_put_def Let_def split: list.splits option.splits worker.splits)

lemma submit_stamps:
  "wq_stamps (snd (submit env now resource time_window priority q)) =
   (let recent = filter (\<lambda>t. now - seconds 60 \<le> t) (wq_stamps q) in
    if effective_rate env now q \<le> length recent then recent else recent @ [now])"
proof -
  obtain exceeded q1 where rate: "enforce_rate_limit env now q = (exceeded, q1)" by fastforce
  then show ?thesis
    unfolding submit_cases(1) [OF rate refl]
    by (auto simp: admit_def enforce_rate_limit_def Let_def split: if_splits)
qed

text \<open>The stamps are what was let through in the last minute.\<close>

lemma trace_stamps:
  "wq_trace r cpus log q \<Longrightarrow>
   \<forall>lo. (\<forall>(t, ok) \<in> set log. t - seconds 60 \<le> lo) \<longrightarrow>
     filter (\<lambda>t. lo \<le> t) (wq_stamps q) = filter (\<lambda>t. lo \<le> t) (let_through log)"
proof (induction rule: wq_trace.induct)
  case trace_start
  then show ?case by (simp add: wq_start_def)
next
  case (trace_internal log q q')
  then show ?case using internal_stamps [OF trace_internal.hyps(2)] by simp
next
  case (trace_submit log q now env resource time_window priority)
  have older: "\<forall>(t, ok) \<in> set log. t - seconds 60 \<le> lo" if "now - seconds 60 \<le> lo" for lo
    using trace_submit.hyps(2) that by fastforce
  have "filter (\<lambda>t. lo \<le> t) (filter (\<lambda>t. now - seconds 60 \<le> t) (wq_stamps q)) = filter (\<lambda>t. lo \<le> t) (let_through log)"
    if "now - seconds 60 \<le> lo" for lo
  proof -
    have "filter (\<lambda>t. lo \<le> t) (filter (\<lambda>t. now - seconds 60 \<le> t) (wq_stamps q)) = filter (\<lambda>t. lo \<le> t) (wq_stamps q)"
      unfolding filter_filter by (rule filter_cong) (use that in auto)
    then show ?thesis using trace_submit.IH older [OF that] by simp
  qed
  then show ?case by (auto simp: submit_stamps Let_def enforce_rate_limit_def)
qed

lemma trace_window:
  "wq_trace r cpus log q \<Longrightarrow> length (filter (\<lambda>t. lo \<le> t \<and> t \<le> lo + seconds 60) (let_through log)) \<le> r"
proof (induction rule: wq_trace.induct)
  case (trace_submit log q now env resource time_window priority)
  show ?case
  proof (cases "fst (enforce_rate_limit env now q) = None \<and> lo \<le> now \<and> now \<le> lo + seconds 60")
    case True
    let ?recent = "filter (\<lambda>t. now - seconds 60 \<le> t)"
    have "?recent (wq_stamps q) = ?recent (let_through log)"
      using trace_stamps [OF trace_submit.hyps(1)] trace_submit.hyps(2) by fastforce
    moreover have "length (?recent (wq_stamps q)) < effective_rate env now q"
      using True by (simp add: enforce_rate_limit_def Let_def split: if_splits)
    moreover have "length (filter (\<lambda>t. lo \<le> t \<and> t \<le> lo + seconds 60) (let_through log))
        \<le> length (?recent (let_through log))"
      by (rule length_filter_mono) (use True in auto)
    ultimately have "length (filter (\<lambda>t. lo \<le> t \<and> t \<le> lo + seconds 60) (let_through log)) < r"
      using trace_submit.hyps(3) by simp
    then show ?thesis by simp
  qed (use trace_submit.IH in auto)
qed simp_all

text \<open>
  C36: The rate limit holds for every minute, not only for the last: whatever the queue does between
  the calls, of the calls of \<open>submit\<close> in any interval of 60 seconds at most \<open>r\<close> are let through, \<open>r\<close>
  being a bound of the effective rates, and 20 always is one.
\<close>
theorem rate_limit_any_minute:
  assumes "wq_trace r cpus log q"
  shows "length (filter (\<lambda>(t, ok). ok \<and> lo \<le> t \<and> t \<le> lo + seconds 60) log) \<le> r
    \<and> effective_rate env now q \<le> 20"
proof -
  have "length (filter (\<lambda>(t, ok). ok \<and> lo \<le> t \<and> t \<le> lo + seconds 60) log)
      = length (filter (\<lambda>t. lo \<le> t \<and> t \<le> lo + seconds 60) (let_through log))"
    by (induction log) (auto simp: let_through_def)
  then show ?thesis using trace_window [OF assms] effective_rate_bounds [of env now q] by simp
qed

lemma rate_limit_any_minute_witness:
  "length (filter (\<lambda>(t, ok). ok \<and> (0 :: instant) \<le> t \<and> t \<le> 0 + seconds 60) [(0, True)]) \<le> 20"
proof -
  have "wq_trace 20 1 ([] @ [(0, fst (enforce_rate_limit sample_env 0 (wq_start 1 :: str work_queue)) = None)])
      (snd (submit sample_env 0 ''Pod/a/b'' ''2h'' INTERACTIVE (wq_start 1 :: str work_queue)))"
    using effective_rate_bounds by (intro trace_submit trace_start) auto
  from rate_limit_any_minute [OF this, of 0 sample_env 0] show ?thesis
    by (simp add: enforce_rate_limit_def effective_rate_def sample_env_def wq_start_def DEFAULT_RATE_def)
qed

end
