(* ===== verification/Evidence.thy ===== *)
theory Evidence
  imports Models Sha256 Json
begin

text \<open>
  \<open>kuberca/llm/evidence.py\<close>: the evidence package with its size caps, and the prompt context with its
  truncation steps.  A JSON object is its dictionary of values, so \<open>json.dumps\<close> never falls back to
  \<open>str\<close>.
\<close>

definition MAX_PROMPT_BYTES :: nat where "MAX_PROMPT_BYTES = 12000"
definition MAX_RELATED_EVENTS :: nat where "MAX_RELATED_EVENTS = 20"
definition MAX_CHANGES :: nat where "MAX_CHANGES = 30"
definition MAX_CONTAINER_STATUSES :: nat where "MAX_CONTAINER_STATUSES = 10"
definition MAX_RESOURCE_SPECS :: nat where "MAX_RESOURCE_SPECS = 5"
definition CHANGE_VALUE_TRUNCATE_LEN :: nat where "CHANGE_VALUE_TRUNCATE_LEN = 200"

definition truncate_value :: "str option \<Rightarrow> nat \<Rightarrow> str option" where
  "truncate_value value max_len =
     (case value of
        None \<Rightarrow> None
      | Some v \<Rightarrow> if length v \<le> max_len then Some v else Some (take max_len v @ ''...[TRUNCATED]''))"

record evidence_package =
  ep_incident :: event_record
  ep_related :: "event_record list"
  ep_changes :: "field_change list"
  ep_containers :: "pydict list"
  ep_specs :: "pydict list"
  ep_window :: str
  ep_context :: "state_entry list"

text \<open>The constructor: \<open>__post_init__\<close> sorts and caps the lists.\<close>

definition mk_evidence ::
  "event_record \<Rightarrow> event_record list \<Rightarrow> field_change list \<Rightarrow> pydict list \<Rightarrow> pydict list \<Rightarrow> str
   \<Rightarrow> state_entry list \<Rightarrow> evidence_package" where
  "mk_evidence incident related changes containers specs time_window context =
     \<lparr>ep_incident = incident,
      ep_related = take MAX_RELATED_EVENTS (py_sorted_desc ev_last_seen related),
      ep_changes = take MAX_CHANGES (py_sorted_desc fc_at changes),
      ep_containers = take MAX_CONTAINER_STATUSES containers,
      ep_specs = take MAX_RESOURCE_SPECS specs,
      ep_window = time_window, ep_context = context\<rparr>"

subsection \<open>Sections\<close>

definition lines :: "str list \<Rightarrow> str" where
  "lines = join [CHR 0x0A]"

definition format_incident :: "event_record \<Rightarrow> str" where
  "format_incident ev = lines
     [''Resource: '' @ ev_kind ev @ ''/'' @ ev_namespace ev @ ''/'' @ ev_name ev,
      ''Reason: '' @ ev_reason ev,
      ''Severity: '' @ severity_value (ev_severity ev),
      ''First seen: '' @ iso_millis (ev_first_seen ev),
      ''Last seen: '' @ iso_millis (ev_last_seen ev),
      ''Occurrences: '' @ show_int (ev_count ev),
      ''Message: '' @ ev_message ev]"

definition event_line :: "event_record \<Rightarrow> str" where
  "event_line ev =
     ''- ['' @ iso_millis (ev_last_seen ev) @ ''] '' @ upper (severity_value (ev_severity ev)) @ '' ''
     @ ev_kind ev @ ''/'' @ ev_namespace ev @ ''/'' @ ev_name ev
     @ '' reason='' @ ev_reason ev @ '' count='' @ show_int (ev_count ev) @ '': '' @ ev_message ev"

definition format_events :: "event_record list \<Rightarrow> str" where
  "format_events events = (if events = [] then ''(none)'' else lines (map event_line events))"

definition change_line :: "bool \<Rightarrow> field_change \<Rightarrow> str" where
  "change_line truncate_values ch =
     (let cut = (\<lambda>v. if truncate_values then truncate_value v CHANGE_VALUE_TRUNCATE_LEN else v);
          shown = (\<lambda>v. case v of None \<Rightarrow> ''(none)'' | Some x \<Rightarrow> x)
      in ''- ['' @ iso_millis (fc_at ch) @ ''] '' @ fc_path ch @ '': ''
         @ shown (cut (fc_old ch)) @ '' -> '' @ shown (cut (fc_new ch)))"

definition format_changes :: "field_change list \<Rightarrow> bool \<Rightarrow> str" where
  "format_changes changes truncate_values =
     (if changes = [] then ''(none)'' else lines (map (change_line truncate_values) changes))"

definition format_container_statuses :: "pydict list \<Rightarrow> str" where
  "format_container_statuses statuses =
     (if statuses = [] then ''(none)'' else lines (map (\<lambda>s. json_spaced (PDict s)) statuses))"

definition format_resource_specs :: "pydict list \<Rightarrow> str" where
  "format_resource_specs specs =
     (if specs = [] then ''(none)''
      else join ([CHR 0x0A] @ ''---'' @ [CHR 0x0A]) (map (\<lambda>s. json_indented 0 (PDict s)) specs))"

definition context_line :: "state_entry \<Rightarrow> str" where
  "context_line e =
     ''- '' @ se_kind e @ ''/'' @ se_namespace e @ ''/'' @ se_name e @ '': status=''
     @ (if se_exists e then se_status e else ''<not found>'') @ '', relationship='' @ se_relationship e"

definition format_state_context :: "state_entry list \<Rightarrow> str" where
  "format_state_context entries =
     (if entries = [] then ''(none)'' else lines (map context_line (take 10 entries)))"

subsection \<open>Assembly\<close>

definition assemble ::
  "evidence_package \<Rightarrow> event_record list \<Rightarrow> field_change list \<Rightarrow> pydict list \<Rightarrow> pydict list \<Rightarrow> bool \<Rightarrow> str" where
  "assemble pkg events changes containers specs truncate_change_values = lines
     ([''## Incident'', format_incident (ep_incident pkg), [],
       ''## Recent Events (last '' @ ep_window pkg @ '')'', format_events events, [],
       ''## Recent Changes'', format_changes changes truncate_change_values, [],
       ''## Container Status'', format_container_statuses containers, [],
       ''## Resource Specifications'', format_resource_specs specs]
      @ (if ep_context pkg \<noteq> [] then [[], ''## State Context'', format_state_context (ep_context pkg)] else []))"

definition fits :: "str \<Rightarrow> bool" where
  "fits s \<longleftrightarrow> length (utf8 s) \<le> MAX_PROMPT_BYTES"

text \<open>The loop of step 2: the events that are left when it ends.\<close>

function drop_events :: "(event_record list \<Rightarrow> str) \<Rightarrow> event_record list \<Rightarrow> event_record list" where
  "drop_events text events =
     (if events \<noteq> [] \<and> \<not> fits (text events) then drop_events text (butlast events) else events)"
  by pat_completeness auto
termination by (relation "measure (\<lambda>(text, events). length events)") simp_all

declare drop_events.simps [simp del]

definition current_state :: "pydict \<Rightarrow> pydict" where
  "current_state s = filter (\<lambda>(k, v). k \<noteq> ''previousState'') s"

definition to_prompt_context :: "evidence_package \<Rightarrow> str" where
  "to_prompt_context pkg =
     (let full = assemble pkg (ep_related pkg) (ep_changes pkg) (ep_containers pkg) (ep_specs pkg) False in
      if fits full then full
      else
        let reduced_specs = take 1 (ep_specs pkg);
            text = (\<lambda>events. assemble pkg events (ep_changes pkg) (ep_containers pkg) reduced_specs False)
        in if fits (text (ep_related pkg)) then text (ep_related pkg)
        else
          let events = drop_events text (ep_related pkg) in
          if fits (text events) then text events
          else
            let stripped = map current_state (ep_containers pkg);
                third = assemble pkg events (ep_changes pkg) stripped reduced_specs False
            in if fits third then third
               else assemble pkg events (ep_changes pkg) stripped reduced_specs True)"

subsection \<open>What is kept\<close>

lemma drop_events_take:
  "\<exists>n. drop_events render events = take n events \<and> n \<le> length events
     \<and> (n = 0 \<or> fits (render (take n events)))
     \<and> (\<forall>m. n < m \<and> m \<le> length events \<longrightarrow> \<not> fits (render (take m events)))"
proof (induction render events rule: drop_events.induct)
  case (1 render events)
  show ?case
  proof (cases "events \<noteq> [] \<and> \<not> fits (render events)")
    case True
    with 1 obtain n where n: "drop_events render (butlast events) = take n (butlast events)"
      "n \<le> length (butlast events)" "n = 0 \<or> fits (render (take n (butlast events)))"
      "\<forall>m. n < m \<and> m \<le> length (butlast events) \<longrightarrow> \<not> fits (render (take m (butlast events)))"
      by blast
    have cut: "take m (butlast events) = take m events" if "m \<le> length events - 1" for m
      using that by (cases events rule: rev_cases) auto
    have "\<not> fits (render (take m events))" if m: "n < m" "m \<le> length events" for m
    proof (cases "m = length events")
      case False
      then show ?thesis using n(4) m cut [of m] by auto
    qed (use True in simp)
    then show ?thesis
      using n(1-3) True cut [of n] by (subst drop_events.simps) (rule exI [of _ n], auto)
  next
    case False
    then show ?thesis
      by (subst drop_events.simps) (rule exI [of _ "length events"], auto)
  qed
qed

text \<open>A text with few or no events and the other sections in one of their two forms.\<close>

definition reduced :: "evidence_package \<Rightarrow> nat \<Rightarrow> bool \<Rightarrow> bool \<Rightarrow> bool \<Rightarrow> str" where
  "reduced pkg n all_specs full_statuses truncate_values =
     assemble pkg (take n (ep_related pkg)) (ep_changes pkg)
       (if full_statuses then ep_containers pkg else map current_state (ep_containers pkg))
       (if all_specs then ep_specs pkg else take 1 (ep_specs pkg)) truncate_values"

lemma to_prompt_context_cases:
  "to_prompt_context pkg =
     (let all = length (ep_related pkg); few = (\<lambda>n. reduced pkg n False True False) in
      if fits (reduced pkg all True True False) then reduced pkg all True True False
      else if \<exists>n \<le> all. fits (few n) then few (GREATEST n. n \<le> all \<and> fits (few n))
      else if fits (reduced pkg 0 False False False) then reduced pkg 0 False False False
      else reduced pkg 0 False False True)"
proof -
  let ?all = "length (ep_related pkg)" and ?few = "\<lambda>n. reduced pkg n False True False"
  let ?text = "\<lambda>events. assemble pkg events (ep_changes pkg) (ep_containers pkg) (take 1 (ep_specs pkg)) False"
  obtain n where n: "drop_events ?text (ep_related pkg) = take n (ep_related pkg)" "n \<le> ?all"
      "n = 0 \<or> fits (?text (take n (ep_related pkg)))"
      "\<forall>m. n < m \<and> m \<le> ?all \<longrightarrow> \<not> fits (?text (take m (ep_related pkg)))"
    using drop_events_take [of ?text "ep_related pkg"] by blast
  have few: "?text (take m (ep_related pkg)) = ?few m" for m by (simp add: reduced_def)
  have all: "?text (ep_related pkg) = ?few ?all" by (simp add: reduced_def)
  have full: "assemble pkg (ep_related pkg) (ep_changes pkg) (ep_containers pkg) (ep_specs pkg) False
      = reduced pkg ?all True True False"
    by (simp add: reduced_def)
  have some: "(\<exists>m \<le> ?all. fits (?few m)) \<longleftrightarrow> fits (?few n)"
    using n(2-4) unfolding few by (metis le_eq_less_or_eq linorder_not_less bot_nat_0.extremum_unique)
  have greatest: "(GREATEST m. m \<le> ?all \<and> fits (?few m)) = n" if "fits (?few n)"
    using that n(2,4) unfolding few by (intro Greatest_equality) (auto simp: linorder_not_less [symmetric])
  have all_first: "fits (?few ?all) \<Longrightarrow> n = ?all"
    using n(2,4) unfolding few by (metis le_eq_less_or_eq order_refl)
  have zero: "n = 0" if "\<not> fits (?few n)" using n(3) that unfolding few by blast
  show ?thesis
  proof (cases "fits (?few n)")
    case True
    then show ?thesis
      using all_first unfolding to_prompt_context_def Let_def n(1) few all full some greatest [OF True]
      by auto
  next
    case False
    then show ?thesis
      using all_first zero [OF False] unfolding to_prompt_context_def Let_def n(1) few all full some
      by (auto simp: reduced_def)
  qed
qed

text \<open>
  The prompt context is within 12000 bytes unless nothing is left to drop: it is the complete text
  when that fits, else the text with one resource specification and the most recent events, as many
  of them as fit; when not even no events fit, the statuses lose their previous states, and then the
  change values are cut.  The changes themselves are never dropped.
\<close>
theorem prompt_context_budget:
  "to_prompt_context pkg =
     (let all = length (ep_related pkg); few = (\<lambda>n. reduced pkg n False True False) in
      if fits (reduced pkg all True True False) then reduced pkg all True True False
      else if \<exists>n \<le> all. fits (few n) then few (GREATEST n. n \<le> all \<and> fits (few n))
      else if fits (reduced pkg 0 False False False) then reduced pkg 0 False False False
      else reduced pkg 0 False False True)"
  by (rule to_prompt_context_cases)

lemma utf8_append [simp]: "utf8 (a @ b) = utf8 a @ utf8 b"
  by (simp add: utf8_def)

lemma length_utf8: "length s \<le> length (utf8 s)"
  by (induction s) (auto simp: utf8_def Let_def)

lemma join_contains: "s \<in> set ss \<Longrightarrow> \<exists>u v. join sep ss = u @ s @ v"
proof (induction sep ss rule: join.induct)
  case (3 sep p q ps)
  show ?case
  proof (cases "s = p")
    case True
    then have "join sep (p # q # ps) = [] @ s @ sep @ join sep (q # ps)" by simp
    then show ?thesis by blast
  next
    case False
    then obtain u v where "join sep (q # ps) = u @ s @ v" using 3 by auto
    then have "join sep (p # q # ps) = (p @ sep @ u) @ s @ v" by simp
    then show ?thesis by blast
  qed
next
  case (2 sep p)
  then show ?case by (auto intro: exI [of _ "[]"])
qed auto

lemma lines_fit: "fits (lines ss) \<Longrightarrow> s \<in> set ss \<Longrightarrow> fits s"
  using join_contains [of s ss "[CHR 0x0A]"] by (force simp: lines_def fits_def)

text \<open>
  The related events can be dropped completely, and the changes cut, by one long event: when the
  incident's message alone is larger than the budget, the context contains no related event at all
  and is over the budget.
\<close>
theorem long_message_drops_events:
  assumes "MAX_PROMPT_BYTES < length (utf8 (ev_message (ep_incident pkg)))"
  shows "to_prompt_context pkg = reduced pkg 0 False False True \<and> \<not> fits (to_prompt_context pkg)"
proof -
  let ?msg = "''Message: '' @ ev_message (ep_incident pkg)"
  have "fits (reduced pkg n a b c) \<Longrightarrow> fits (format_incident (ep_incident pkg))" for n a b c
    unfolding reduced_def assemble_def by (erule lines_fit) simp
  moreover have "fits (format_incident (ep_incident pkg)) \<Longrightarrow> fits ?msg"
    unfolding format_incident_def by (erule lines_fit) simp
  moreover have "\<not> fits ?msg" using assms unfolding fits_def utf8_append by simp
  ultimately have "\<not> fits (reduced pkg n a b c)" for n a b c by blast
  then show ?thesis by (simp add: to_prompt_context_cases Let_def)
qed

definition sample_event :: "str \<Rightarrow> event_record" where
  "sample_event message =
     \<lparr>ev_source = CORE_EVENT, ev_severity = WARNING, ev_reason = ''BackOff'', ev_message = message,
      ev_namespace = ''default'', ev_kind = ''Pod'', ev_name = ''web'', ev_first_seen = 0, ev_last_seen = 0,
      ev_id = ''1'', ev_cluster_id = [], ev_labels = [], ev_count = 1\<rparr>"

lemma long_message_drops_events_witness:
  "\<not> fits (to_prompt_context
     (mk_evidence (sample_event (replicate 12001 (CHR ''x''))) [sample_event ''y''] [] [] [] ''2h'' []))"
proof -
  let ?msg = "replicate 12001 (CHR ''x'')"
  have "MAX_PROMPT_BYTES < length (utf8 ?msg)"
    using length_utf8 [of ?msg] by (simp add: MAX_PROMPT_BYTES_def)
  then have "MAX_PROMPT_BYTES < length (utf8 (ev_message (ep_incident
      (mk_evidence (sample_event ?msg) [sample_event ''y''] [] [] [] ''2h'' []))))"
    by (simp add: mk_evidence_def sample_event_def)
  from long_message_drops_events [OF this] show ?thesis by (rule conjunct2)
qed

end
