(* ===== verification/LlmAnalyzer.thy ===== *)
theory LlmAnalyzer
  imports Evidence
begin

text \<open>
  \<open>kuberca/llm/analyzer.py\<close> and \<open>kuberca/llm/prompts.py\<close>: the client of the Ollama server.  The server is a
  parameter that maps the number of the request and its messages to a reply.  What the analyzer uses of
  the interpreter on a text of the server, whose characters need not be Latin-1, is a parameter
  \<open>rt\<close>: \<open>json.loads\<close>, which gives a value, a \<open>JSONDecodeError\<close> or another exception (the \<open>ValueError\<close> of
  an integer of more than 4300 digits, a \<open>RecursionError\<close>), \<open>str.encode\<close>, which gives the bytes or a
  \<open>UnicodeEncodeError\<close> (a lone surrogate), and \<open>bytes.decode\<close> with replacement.  An operation that lets
  an exception through returns its text.  Latencies and metrics are not modelled.
\<close>

subsection \<open>Prompts (prompts.py)\<close>

definition quoted :: "str \<Rightarrow> str" where "quoted s = [dquote] @ s @ [dquote]"

definition SYSTEM_PROMPT :: str where
  "SYSTEM_PROMPT = lines
     [''You are KubeRCA Analyst, a Kubernetes root cause analysis engine.'',
      ''You receive structured evidence packages about Kubernetes incidents and produce'',
      ''precise, evidence-based diagnoses.'',
      [],
      ''RULES:'',
      ''1. Base your diagnosis ONLY on the evidence provided. Never hallucinate resources,'',
      ''   events, or state not present in the evidence package.'',
      ''2. Cite specific evidence items by referencing their timestamps and descriptions.'',
      ''3. If the evidence is insufficient for a confident diagnosis, say so explicitly.'',
      ''4. Return ONLY valid JSON conforming to the schema below. No markdown, no prose.'',
      [],
      ''RESPONSE SCHEMA:'',
      ''{'',
      ''  '' @ quoted ''root_cause'' @ '': '' @ quoted ''string - one-sentence diagnosis'' @ '','',
      ''  '' @ quoted ''evidence_citations'' @ '': [''
        @ quoted ''string - timestamp + summary of each supporting item'' @ ''],'',
      ''  '' @ quoted ''affected_resources'' @ '': [{'' @ quoted ''kind'' @ '': ''
        @ quoted ''string'' @ '', '' @ quoted ''namespace'' @ '': '' @ quoted ''string'' @ '', ''
        @ quoted ''name'' @ '': '' @ quoted ''string'' @ ''}],'',
      ''  '' @ quoted ''suggested_remediation'' @ '': ''
        @ quoted ''string - specific kubectl command or action'' @ '','',
      ''  '' @ quoted ''causal_chain'' @ '': ''
        @ quoted ''string - 2-3 sentences linking evidence to diagnosis. MUST reference at least 2 items from evidence_citations by timestamp. Do NOT include reasoning unsupported by the evidence package.'',
      ''}'',
      [],
      ''KUBERNETES DOMAIN KNOWLEDGE:'',
      ''5. Entity Taxonomy: Valid Kubernetes resource kinds are: Pod, Deployment, ReplicaSet,'',
      ''   StatefulSet, DaemonSet, Job, CronJob, Service, Endpoints, Ingress, ConfigMap, Secret,'',
      ''   PersistentVolumeClaim, PersistentVolume, ResourceQuota, Namespace, Node,'',
      ''   HorizontalPodAutoscaler, NetworkPolicy. External kinds (always lowercase): nfs,'',
      ''   container, image, hostpath. Do NOT reference resource kinds outside this list.'',
      ''6. Naming Conventions: Resource names containing '-conf' or '-config' are likely ConfigMaps.'',
      ''   Names containing '-cert', '-token', or '-tls' are likely Secrets. Names containing'',
      ''   '-pvc' are likely PersistentVolumeClaims. Use these hints when the error message'',
      ''   references a volume by name without specifying the kind.'',
      ''7. Common Failure Domains: When analyzing FailedMount errors, prioritize checking:'',
      ''   (a) ConfigMap/Secret existence, (b) PVC binding status, (c) NFS path accessibility,'',
      ''   (d) image pull credentials. For FailedScheduling, prioritize: (a) node taints and'',
      ''   tolerations, (b) resource quota exhaustion, (c) PVC binding, (d) node affinity rules.'',
      ''8. State Validation: Cross-check your diagnosis against the State Context section.'',
      ''   If a resource's actual state contradicts your hypothesis, acknowledge the contradiction'',
      ''   explicitly. Do not infer state that is not present in the evidence package.'']"

definition retry_prompt :: "str \<Rightarrow> str" where
  "retry_prompt parse_error = lines
     [''Your previous response was not valid JSON.'',
      ''Error: '' @ parse_error,
      [],
      ''Return ONLY a valid JSON object with these exact keys:'',
      ''root_cause, evidence_citations, affected_resources, suggested_remediation, causal_chain'',
      [],
      ''No markdown code blocks. No explanatory text. Only JSON.'']"

definition quality_retry_prompt :: "str \<Rightarrow> str \<Rightarrow> str" where
  "quality_retry_prompt quality_failures event_reason = lines
     [''Your previous diagnosis failed quality checks:'',
      quality_failures,
      [],
      ''Re-analyze the evidence package. Ensure:'',
      ''- Your diagnosis cites at least 2 items from the evidence by timestamp.'',
      ''- Your root_cause references the original event reason ('' @ event_reason @ '').'',
      ''- Your diagnosis does not contradict facts in the State Context section.'',
      [],
      ''Return ONLY valid JSON with the same schema.'']"

subsection \<open>Results\<close>

record llm_result =
  lr_success :: bool
  lr_root_cause :: str
  lr_confidence :: dbl
  lr_citations :: "str list"
  lr_affected :: "affected_resource list"
  lr_remediation :: str
  lr_causal_chain :: str
  lr_raw_response :: str
  lr_retries :: nat

definition failed_result :: "str \<Rightarrow> nat \<Rightarrow> llm_result" where
  "failed_result root_cause retries =
     \<lparr>lr_success = False, lr_root_cause = root_cause, lr_confidence = dlit 0 1, lr_citations = [],
      lr_affected = [], lr_remediation = [], lr_causal_chain = [], lr_raw_response = [], lr_retries = retries\<rparr>"

definition REQUIRED_SCHEMA_KEYS :: "str list" where
  "REQUIRED_SCHEMA_KEYS =
     [''root_cause'', ''evidence_citations'', ''affected_resources'', ''suggested_remediation'', ''causal_chain'']"

definition llm_confidence :: "str list \<Rightarrow> str \<Rightarrow> bool \<Rightarrow> dbl" where
  "llm_confidence citations causal_chain has_ledger_diff_support =
     (let count = int (length citations) in
      if count = 0 then (if causal_chain \<noteq> [] then dlit 35 100 else dlit 30 100)
      else if count \<le> 2 then
        min (dadd (dlit 40 100) (dmul_int (min (count - 1) 1) (dlit 5 100))) (dlit 50 100)
      else if has_ledger_diff_support then
        min (dadd (dlit 60 100) (min (dmul_int (count - 3) (dlit 2 100)) (dlit 9 100))) (dlit 70 100)
      else
        min (dadd (dlit 50 100) (min (dmul_int (count - 3) (dlit 2 100)) (dlit 9 100))) (dlit 60 100))"

definition parse_affected_item :: "pyval \<Rightarrow> affected_resource list" where
  "parse_affected_item item =
     (case item of
        PDict d \<Rightarrow>
          (case (vget (PStr []) d ''kind'', vget (PStr []) d ''namespace'', vget (PStr []) d ''name'') of
             (PStr kind, PStr namespace, PStr name) \<Rightarrow>
               if kind \<noteq> [] \<and> name \<noteq> [] then [affected kind namespace name] else []
           | _ \<Rightarrow> [])
      | _ \<Rightarrow> [])"

definition parse_affected_resources :: "pyval \<Rightarrow> affected_resource list" where
  "parse_affected_resources raw = concat (map parse_affected_item (list_or_empty raw))"

subsection \<open>The server\<close>

record ollama_config =
  oc_model :: str
  oc_max_retries :: int

datatype reply =
    ConnectError str
  | Timeout str
  | TransportError str
  | Response nat "str + pyval"

type_synonym message = "str \<times> str"
type_synonym server = "nat \<Rightarrow> message list \<Rightarrow> reply"

datatype loads_error = DecodeError str | LoadsRaises str

text \<open>The interpreter, and whether the root logger is enabled for debugging.\<close>

record runtime =
  rt_loads :: "str \<Rightarrow> loads_error + pyval"
  rt_encode :: "str \<Rightarrow> str + nat list"
  rt_decode :: "nat list \<Rightarrow> str"
  rt_debug :: bool

record analyzer =
  la_available :: bool
  la_requests :: nat

definition status_ok :: "nat \<Rightarrow> bool" where "status_ok n \<longleftrightarrow> 200 \<le> n \<and> n \<le> 299"

subsection \<open>Health check\<close>

text \<open>\<open>Inl\<close> is an exception that is not caught.\<close>

fun model_loaded :: "str \<Rightarrow> pyval list \<Rightarrow> str + bool" where
  "model_loaded configured [] = Inr False"
| "model_loaded configured (m # ms) =
     (let name = (case m of PDict d \<Rightarrow> vget (PStr []) d ''name'' | _ \<Rightarrow> PStr []) in
      case name of
        PStr s \<Rightarrow>
          if s = configured \<or> startswith s (hd (split_on (CHR '':'') configured)) then Inr True
          else model_loaded configured ms
      | _ \<Rightarrow> Inl ''AttributeError'')"

definition health_check :: "ollama_config \<Rightarrow> reply \<Rightarrow> analyzer \<Rightarrow> (str + bool) \<times> analyzer" where
  "health_check cfg reply st =
     (case reply of
        ConnectError e \<Rightarrow> (Inr False, st\<lparr>la_available := False\<rparr>)
      | Timeout e \<Rightarrow> (Inr False, st\<lparr>la_available := False\<rparr>)
      | TransportError e \<Rightarrow> (Inl e, st)
      | Response status body \<Rightarrow>
          if \<not> status_ok status then (Inr False, st\<lparr>la_available := False\<rparr>)
          else (case body of
              Inr (PDict d) \<Rightarrow>
                (case model_loaded (oc_model cfg) (list_or_empty (vget (PList []) d ''models'')) of
                   Inl e \<Rightarrow> (Inl e, st)
                 | Inr loaded \<Rightarrow> (Inr loaded, st\<lparr>la_available := loaded\<rparr>))
            | Inr v \<Rightarrow> (Inl ''AttributeError'', st)
            | Inl e \<Rightarrow> (Inl e, st)))"

subsection \<open>One request\<close>

definition type_name :: "pyval \<Rightarrow> str" where
  "type_name v =
     (case v of PNone \<Rightarrow> ''NoneType'' | PBool b \<Rightarrow> ''bool'' | PInt n \<Rightarrow> ''int'' | PStr s \<Rightarrow> ''str''
      | PList xs \<Rightarrow> ''list'' | PDict d \<Rightarrow> ''dict'')"

text \<open>\<open>v[key]\<close> and \<open>v[0]\<close>, or the text of the exception\<close>

definition not_subscriptable :: "pyval \<Rightarrow> str" where
  "not_subscriptable v = [squote] @ type_name v @ [squote] @ '' object is not subscriptable''"

definition item_by_key :: "str \<Rightarrow> pyval \<Rightarrow> str + pyval" where
  "item_by_key key v =
     (case v of
        PDict d \<Rightarrow> (case dget d key of None \<Rightarrow> Inl (py_repr key) | Some x \<Rightarrow> Inr x)
      | PList xs \<Rightarrow> Inl ''list indices must be integers or slices, not str''
      | PStr s \<Rightarrow> Inl (''string indices must be integers, not '' @ [squote] @ ''str'' @ [squote])
      | _ \<Rightarrow> Inl (not_subscriptable v))"

definition first_item :: "pyval \<Rightarrow> str + pyval" where
  "first_item v =
     (case v of
        PDict d \<Rightarrow> Inl ''0''
      | PList xs \<Rightarrow> (case xs of [] \<Rightarrow> Inl ''list index out of range'' | x # _ \<Rightarrow> Inr x)
      | PStr s \<Rightarrow> (case s of [] \<Rightarrow> Inl ''string index out of range'' | c # _ \<Rightarrow> Inr (PStr [c]))
      | _ \<Rightarrow> Inl (not_subscriptable v))"

definition and_then :: "'e + 'a \<Rightarrow> ('a \<Rightarrow> 'e + 'b) \<Rightarrow> 'e + 'b" where
  "and_then r f = (case r of Inl e \<Rightarrow> Inl e | Inr x \<Rightarrow> f x)"

definition body_content :: "pyval \<Rightarrow> str + pyval" where
  "body_content body =
     and_then (item_by_key ''choices'' body) (\<lambda>choices.
     and_then (first_item choices) (\<lambda>choice.
     and_then (item_by_key ''message'' choice) (item_by_key ''content'')))"

datatype ollama_error = Unavailable str | TimeoutError str | Uncaught str

definition call_ollama ::
  "server \<Rightarrow> message list \<Rightarrow> analyzer \<Rightarrow> (ollama_error + (str \<times> str)) \<times> analyzer" where
  "call_ollama server messages st =
     (let st1 = st\<lparr>la_requests := Suc (la_requests st)\<rparr> in
      case server (la_requests st) messages of
        ConnectError e \<Rightarrow> (Inl (Unavailable e), st1\<lparr>la_available := False\<rparr>)
      | Timeout e \<Rightarrow> (Inl (TimeoutError e), st1)
      | TransportError e \<Rightarrow> (Inl (Uncaught e), st1)
      | Response status body \<Rightarrow>
          if \<not> status_ok status then (Inr ([], ''HTTP '' @ show_nat status), st1)
          else (Inr (case body of
              Inl e \<Rightarrow> ([], ''Response body not JSON: '' @ e)
            | Inr b \<Rightarrow>
                (case body_content b of
                   Inl e \<Rightarrow> ([], ''Unexpected response structure: '' @ e)
                 | Inr (PStr content) \<Rightarrow> (content, [])
                 | Inr _ \<Rightarrow> ([], ''Response content is not a string''))), st1))"

subsection \<open>Reading the answer\<close>

definition fence :: str where "fence = ''```''"

definition strip_fences :: "str \<Rightarrow> str" where
  "strip_fences raw =
     (let stripped = strip raw in
      if startswith stripped fence then
        let ls = split_on (CHR 0x0A) stripped in
        lines (if startswith (strip (last ls)) fence then butlast (tl ls) else tl ls)
      else stripped)"

definition RAW_RESPONSE_MAX_BYTES :: nat where "RAW_RESPONSE_MAX_BYTES = 8192"

definition cap_raw_response :: "runtime \<Rightarrow> str \<Rightarrow> str + str" where
  "cap_raw_response rt t =
     (case rt_encode rt t of
        Inl e \<Rightarrow> Inl e
      | Inr encoded \<Rightarrow>
          Inr (if length encoded \<le> RAW_RESPONSE_MAX_BYTES then t
            else rt_decode rt (take RAW_RESPONSE_MAX_BYTES encoded) @ '' [TRUNCATED]''))"

text \<open>The dictionary or what is wrong with the text; \<open>Inl\<close> is an exception that is not caught.\<close>

definition parse_response :: "runtime \<Rightarrow> str \<Rightarrow> str + (str + pydict)" where
  "parse_response rt raw =
     (case rt_loads rt (strip_fences raw) of
        Inl (DecodeError e) \<Rightarrow> Inr (Inl e)
      | Inl (LoadsRaises e) \<Rightarrow> Inl e
      | Inr (PDict d) \<Rightarrow>
          Inr (if dget d ''root_cause'' = None then Inl ''Missing required key: root_cause'' else Inr d)
      | Inr v \<Rightarrow> Inr (Inl (''Expected JSON object, got '' @ type_name v)))"

definition build_result :: "pydict \<Rightarrow> evidence_package \<Rightarrow> str \<Rightarrow> nat \<Rightarrow> llm_result" where
  "build_result parsed evidence raw_response retries =
     (let citations = concat (map (\<lambda>c. case c of PStr s \<Rightarrow> [s] | _ \<Rightarrow> [])
            (list_or_empty (vget (PList []) parsed ''evidence_citations'')));
          causal_chain = py_str (vget (PStr []) parsed ''causal_chain'');
          is_partial = list_ex (\<lambda>k. dget parsed k = None) REQUIRED_SCHEMA_KEYS
      in \<lparr>lr_success = True, lr_root_cause = py_str (vget (PStr []) parsed ''root_cause''),
          lr_confidence = (if is_partial then dlit 30 100
            else llm_confidence citations causal_chain (ep_changes evidence \<noteq> [])),
          lr_citations = citations,
          lr_affected = parse_affected_resources (vget (PList []) parsed ''affected_resources''),
          lr_remediation = py_str (vget (PStr []) parsed ''suggested_remediation''),
          lr_causal_chain = causal_chain, lr_raw_response = raw_response, lr_retries = retries\<rparr>)"

subsection \<open>Analysis\<close>

definition build_user_prompt :: "evidence_package \<Rightarrow> str" where
  "build_user_prompt evidence = lines [to_prompt_context evidence, [], ''Provide your diagnosis as JSON.'']"

text \<open>The attempts from number \<open>attempt\<close> on, of which \<open>n\<close> are left.\<close>

fun attempts ::
  "server \<Rightarrow> runtime \<Rightarrow> evidence_package \<Rightarrow> nat \<Rightarrow> nat \<Rightarrow> message list \<Rightarrow> analyzer
   \<Rightarrow> (str + llm_result) \<times> analyzer" where
  "attempts server rt evidence 0 attempt messages st =
     (Inr (failed_result ''LLM output unparseable'' (attempt - 1)), st)"
| "attempts server rt evidence (Suc n) attempt messages st =
     (case call_ollama server messages st of
        (Inl (Uncaught e), st1) \<Rightarrow> (Inl e, st1)
      | (Inl (Unavailable e), st1) \<Rightarrow> (Inr (failed_result (''LLM unavailable: '' @ e) attempt), st1)
      | (Inl (TimeoutError e), st1) \<Rightarrow> (Inr (failed_result ''LLM timeout'' attempt), st1)
      | (Inr (raw_text, http_error), st1) \<Rightarrow>
          if http_error \<noteq> [] then (Inr (failed_result (''LLM unavailable: '' @ http_error) attempt), st1)
          else (case cap_raw_response rt raw_text of
              Inl e \<Rightarrow> (Inl e, st1)
            | Inr capped_raw \<Rightarrow>
                (case parse_response rt raw_text of
                   Inl e \<Rightarrow> (Inl e, st1)
                 | Inr (Inr parsed) \<Rightarrow>
                     (Inr (build_result parsed evidence (if rt_debug rt then capped_raw else []) attempt), st1)
                 | Inr (Inl parse_error) \<Rightarrow>
                     attempts server rt evidence n (Suc attempt)
                       (if n = 0 then messages
                        else messages @ [(''assistant'', raw_text), (''user'', retry_prompt parse_error)]) st1)))"

definition analyze_llm ::
  "server \<Rightarrow> runtime \<Rightarrow> ollama_config \<Rightarrow> evidence_package \<Rightarrow> analyzer \<Rightarrow> (str + llm_result) \<times> analyzer" where
  "analyze_llm server rt cfg evidence st =
     attempts server rt evidence (nat (oc_max_retries cfg + 1)) 0
       [(''system'', SYSTEM_PROMPT), (''user'', build_user_prompt evidence)] st"

subsection \<open>Quality\<close>

definition contradicts :: "str \<Rightarrow> state_entry \<Rightarrow> bool" where
  "contradicts rc_lower entry \<longleftrightarrow>
     \<not> se_exists entry \<and> str_in (lower (se_name entry)) rc_lower
     \<and> \<not> str_in ''not found'' rc_lower \<and> \<not> str_in ''missing'' rc_lower \<and> \<not> str_in ''does not exist'' rc_lower"

definition quality_check :: "llm_result \<Rightarrow> event_record \<Rightarrow> state_entry list \<Rightarrow> quality_result" where
  "quality_check result event state_context =
     (let rc_lower = lower (lr_root_cause result);
          failures =
            (if length (lr_citations result) < 2 then [''zero_citations''] else [])
            @ (if ev_reason event \<noteq> [] \<and> \<not> str_in (lower (ev_reason event)) rc_lower
               then [''reason_mismatch''] else [])
            @ (if list_ex (contradicts rc_lower) state_context then [''state_contradiction''] else [])
      in \<lparr>qr_passed = (failures = []), qr_failures = failures\<rparr>)"

definition analyze_with_quality_retry ::
  "server \<Rightarrow> runtime \<Rightarrow> event_record \<Rightarrow> evidence_package \<Rightarrow> str list \<Rightarrow> analyzer
   \<Rightarrow> (str + llm_result) \<times> analyzer" where
  "analyze_with_quality_retry server rt event evidence quality_failures st =
     (let messages = [(''system'', SYSTEM_PROMPT), (''user'', build_user_prompt evidence),
            (''user'', quality_retry_prompt (join '', '' quality_failures) (ev_reason event))]
      in case call_ollama server messages st of
        (Inl (Uncaught e), st1) \<Rightarrow> (Inl e, st1)
      | (Inl (Unavailable e), st1) \<Rightarrow> (Inr (failed_result (''LLM quality retry failed: '' @ e) 0), st1)
      | (Inl (TimeoutError e), st1) \<Rightarrow> (Inr (failed_result (''LLM quality retry failed: '' @ e) 0), st1)
      | (Inr (raw_text, http_error), st1) \<Rightarrow>
          (if http_error \<noteq> [] then Inr (failed_result (''LLM quality retry failed: '' @ http_error) 0)
           else (case parse_response rt raw_text of
                Inl e \<Rightarrow> Inl e
              | Inr (Inl e) \<Rightarrow> Inr (failed_result ''LLM quality retry output unparseable'' 0)
              | Inr (Inr parsed) \<Rightarrow>
                  (case cap_raw_response rt raw_text of
                     Inl e \<Rightarrow> Inl e
                   | Inr capped_raw \<Rightarrow>
                       Inr (build_result parsed evidence (if rt_debug rt then capped_raw else []) 0))), st1))"

subsection \<open>Confidence bands\<close>

lemma confidence_units:
  "dlit 2 100 = 368934881474191040" "dlit 9 100 = 1660206966633859584" "dlit 60 100 = 11068046444225730560"
  "dlit 50 100 = 9223372036854775808" "dlit 40 100 = 7378697629483821056" "dlit 5 100 = 922337203685477632"
  "dlit 45 100 = 8301034833169298432" "dlit 70 100 = 12912720851596685312" "dlit 69 100 = 12728253410859589632"
  "dlit 59 100 = 10883579003488634880" "dlit 30 100 = 5534023222112865280" "dlit 35 100 = 6456360425798342656"
  by (simp_all add: dbl_defs dbl_unit_def round_half_even_def bitlen.simps)

lemma many_citations:
  assumes "5 \<le> n"
  shows "dlit 9 100 \<le> dmul_int n (dlit 2 100)"
proof -
  have "2 ^ 53 * (n * dlit 2 100 - fl_quot (n * dlit 2 100) 1) \<le> n * dlit 2 100"
    using assms fl_quot_rel_error [of 1 "n * dlit 2 100"] by (simp add: confidence_units)
  then show ?thesis using assms by (simp add: dmul_int_def confidence_units)
qed

text \<open>The bonus for the citations beyond the third.\<close>

definition citation_bonus :: "int \<Rightarrow> dbl" where
  "citation_bonus n = min (dmul_int n (dlit 2 100)) (dlit 9 100)"

lemma citation_bonus_values:
  assumes "0 \<le> n"
  shows "citation_bonus n =
    (if n = 0 then 0 else if n = 1 then 368934881474191040 else if n = 2 then 737869762948382080
     else if n = 3 then 1106804644422573056 else if n = 4 then 1475739525896764160 else 1660206966633859584)"
proof (cases "5 \<le> n")
  case True
  then show ?thesis using many_citations [OF True] by (simp add: citation_bonus_def confidence_units min_def)
next
  case False
  then consider "n = 0" | "n = 1" | "n = 2" | "n = 3" | "n = 4" using assms by linarith
  then show ?thesis
    by cases (simp_all add: citation_bonus_def dmul_int_def confidence_units fl_quot_def round_half_even_def bitlen.simps)
qed

lemma three_citations:
  "3 \<le> length cs \<Longrightarrow> llm_confidence cs chain diffs =
     (if diffs then min (dadd (dlit 60 100) (citation_bonus (int (length cs) - 3))) (dlit 70 100)
      else min (dadd (dlit 50 100) (citation_bonus (int (length cs) - 3))) (dlit 60 100))"
  unfolding llm_confidence_def Let_def citation_bonus_def by auto

text \<open>The scores of three or more citations, by the number of further citations.\<close>

definition cited_score :: "bool \<Rightarrow> nat \<Rightarrow> dbl" where
  "cited_score diffs n =
     (if diffs then [11068046444225730560, 11436981325699921920, 11805916207174113280, 12174851088648302592,
        12543785970122493952, 12728253410859589632] ! min n 5
      else [9223372036854775808, 9592306918328967168, 9961241799803158528, 10330176681277349888,
        10699111562751539200, 10883579003488634880] ! min n 5)"

lemma bonus_sums:
  "dadd 11068046444225730560 0 = 11068046444225730560"
  "dadd 11068046444225730560 368934881474191040 = 11436981325699921920"
  "dadd 11068046444225730560 737869762948382080 = 11805916207174113280"
  "dadd 11068046444225730560 1106804644422573056 = 12174851088648302592"
  "dadd 11068046444225730560 1475739525896764160 = 12543785970122493952"
  "dadd 11068046444225730560 1660206966633859584 = 12728253410859589632"
  "dadd 9223372036854775808 0 = 9223372036854775808"
  "dadd 9223372036854775808 368934881474191040 = 9592306918328967168"
  "dadd 9223372036854775808 737869762948382080 = 9961241799803158528"
  "dadd 9223372036854775808 1106804644422573056 = 10330176681277349888"
  "dadd 9223372036854775808 1475739525896764160 = 10699111562751539200"
  "dadd 9223372036854775808 1660206966633859584 = 10883579003488634880"
  by (simp_all add: dadd_def fl_quot_def round_half_even_def bitlen.simps)

lemma three_citations_score:
  assumes "3 \<le> length cs"
  shows "llm_confidence cs chain diffs = cited_score diffs (length cs - 3)"
proof -
  define n where "n = length cs - 3"
  have n: "int (length cs) - 3 = int n" using assms by (simp add: n_def)
  consider "n = 0" | "n = 1" | "n = 2" | "n = 3" | "n = 4"
    | "min n 5 = 5" "n \<noteq> 0" "n \<noteq> 1" "n \<noteq> 2" "n \<noteq> 3" "n \<noteq> 4" by linarith
  then show ?thesis
    unfolding three_citations [OF assms] n n_def [symmetric] citation_bonus_values [OF of_nat_0_le_iff]
    by cases (simp_all add: cited_score_def confidence_units bonus_sums)
qed

lemma few_citations:
  "length cs < 3 \<Longrightarrow> llm_confidence cs chain diffs =
     (if length cs = 0 then (if chain \<noteq> [] then dlit 35 100 else dlit 30 100)
      else if length cs = 1 then dlit 40 100 else dlit 45 100)"
proof -
  assume "length cs < 3"
  then consider "length cs = 0" | "length cs = 1" | "length cs = 2" by linarith
  then show ?thesis
    by cases
      (simp_all add: llm_confidence_def confidence_units dadd_def dmul_int_def fl_quot_def round_half_even_def bitlen.simps)
qed

lemma cited_score_range:
  "(if diffs then dlit 60 100 else dlit 50 100) \<le> cited_score diffs n"
  "cited_score diffs n \<le> (if diffs then dlit 69 100 else dlit 59 100)"
proof -
  consider "n = 0" | "n = 1" | "n = 2" | "n = 3" | "n = 4" | "min n 5 = 5" by linarith
  then show "(if diffs then dlit 60 100 else dlit 50 100) \<le> cited_score diffs n"
    "cited_score diffs n \<le> (if diffs then dlit 69 100 else dlit 59 100)"
    by (cases, simp_all add: cited_score_def confidence_units)+
qed

lemma llm_confidence_range: "dlit 30 100 \<le> llm_confidence cs chain diffs" "llm_confidence cs chain diffs \<le> dlit 69 100"
  using few_citations [of cs chain diffs] three_citations_score [of cs chain diffs]
    cited_score_range [of diffs "length cs - 3"]
  by (cases "length cs < 3"; cases diffs; auto simp: confidence_units)+

lemma cited_score_mono: "m \<le> n \<Longrightarrow> cited_score diffs m \<le> cited_score diffs n"
proof -
  assume "m \<le> n"
  then consider "min m 5 = min n 5" | "min m 5 < min n 5" "min n 5 \<in> {1, 2, 3, 4, 5}" by fastforce
  then show ?thesis
  proof cases
    case 2
    then have "min m 5 \<in> {0, 1, 2, 3, 4}" by auto
    with 2 show ?thesis by (auto simp: cited_score_def)
  qed (simp add: cited_score_def)
qed

lemma llm_confidence_mono:
  assumes "length cs \<le> length cs'"
  shows "llm_confidence cs chain diffs \<le> llm_confidence cs' chain diffs"
proof (cases "length cs < 3")
  case True
  define few where "few n = (if n = 0 then (if chain \<noteq> [] then dlit 35 100 else dlit 30 100)
      else if n = 1 then dlit 40 100 else dlit 45 100)" for n :: nat
  have few_mono: "m \<le> n \<Longrightarrow> few m \<le> few n" "few m \<le> dlit 50 100" for m n
    by (auto simp: few_def confidence_units)
  have low: "llm_confidence cs chain diffs = few (length cs)"
    using few_citations [OF True] by (simp add: few_def)
  show ?thesis
  proof (cases "length cs' < 3")
    case True
    then have "llm_confidence cs' chain diffs = few (length cs')"
      using few_citations [of cs'] by (simp add: few_def)
    then show ?thesis using low few_mono(1) [OF assms] by simp
  next
    case False
    then have "dlit 50 100 \<le> llm_confidence cs' chain diffs"
      using three_citations_score [of cs' chain diffs] cited_score_range(1) [of diffs "length cs' - 3"]
      by (cases diffs) (simp_all add: confidence_units)
    then show ?thesis using low few_mono(2) order_trans by metis
  qed
next
  case False
  then show ?thesis
    using assms three_citations_score [of _ chain diffs] by (simp add: cited_score_mono)
qed

text \<open>
  The confidence of a complete LLM answer is one of the documented bands by its number of
  citations: 0.30 or 0.35 without citations, 0.40 and 0.45 for one and two, and from three on between
  0.50 and 0.59, or between 0.60 and 0.69 when the ledger has changes.  More citations never lower it,
  and 0.70 is never reached.
\<close>
theorem llm_confidence_bands:
  assumes "length cs \<le> length cs'"
  shows "(case length cs of
       0 \<Rightarrow> llm_confidence cs chain diffs = (if chain \<noteq> [] then dlit 35 100 else dlit 30 100)
     | Suc 0 \<Rightarrow> llm_confidence cs chain diffs = dlit 40 100
     | Suc (Suc 0) \<Rightarrow> llm_confidence cs chain diffs = dlit 45 100
     | _ \<Rightarrow> (if diffs then dlit 60 100 else dlit 50 100) \<le> llm_confidence cs chain diffs
          \<and> llm_confidence cs chain diffs \<le> (if diffs then dlit 69 100 else dlit 59 100))
    \<and> llm_confidence cs chain diffs \<le> llm_confidence cs' chain diffs
    \<and> llm_confidence cs' chain diffs < dlit 70 100"
proof (intro conjI)
  show "case length cs of
       0 \<Rightarrow> llm_confidence cs chain diffs = (if chain \<noteq> [] then dlit 35 100 else dlit 30 100)
     | Suc 0 \<Rightarrow> llm_confidence cs chain diffs = dlit 40 100
     | Suc (Suc 0) \<Rightarrow> llm_confidence cs chain diffs = dlit 45 100
     | _ \<Rightarrow> (if diffs then dlit 60 100 else dlit 50 100) \<le> llm_confidence cs chain diffs
          \<and> llm_confidence cs chain diffs \<le> (if diffs then dlit 69 100 else dlit 59 100)"
    using few_citations [of cs chain diffs] three_citations_score [of cs chain diffs]
      cited_score_range [of diffs "length cs - 3"]
    by (cases diffs) (auto split: nat.split)
  show "llm_confidence cs chain diffs \<le> llm_confidence cs' chain diffs"
    using assms by (rule llm_confidence_mono)
  show "llm_confidence cs' chain diffs < dlit 70 100"
    using llm_confidence_range(2) [of cs' chain diffs] by (simp add: confidence_units)
qed

lemma llm_confidence_bands_witness: "llm_confidence [''a''] ''c'' True \<le> llm_confidence [''a'', ''b''] ''c'' True"
  using llm_confidence_bands [of "[''a'']" "[''a'', ''b'']" "''c''" True] by simp

subsection \<open>Outcomes\<close>

lemma build_result_range:
  "lr_success (build_result parsed evidence raw k)" "lr_retries (build_result parsed evidence raw k) = k"
  "dlit 30 100 \<le> lr_confidence (build_result parsed evidence raw k)"
  "lr_confidence (build_result parsed evidence raw k) \<le> dlit 69 100"
  using llm_confidence_range by (simp_all add: build_result_def Let_def confidence_units)

lemma build_result_float: "is_float (lr_confidence (build_result parsed evidence raw k))"
  by (simp add: build_result_def llm_confidence_def Let_def)

lemma failed_result_fields [simp]:
  "\<not> lr_success (failed_result msg k)" "lr_confidence (failed_result msg k) = 0"
  "lr_citations (failed_result msg k) = []" "lr_affected (failed_result msg k) = []"
  by (simp_all add: failed_result_def dbl_defs round_half_even_def)

text \<open>The text of a reply that the analyzer goes on to read.\<close>

definition reply_text :: "reply \<Rightarrow> str option" where
  "reply_text reply =
     (case reply of
        Response status (Inr body) \<Rightarrow>
          if status_ok status then (case body_content body of Inr (PStr content) \<Rightarrow> Some content | _ \<Rightarrow> None)
          else None
      | _ \<Rightarrow> None)"

text \<open>
  A reply whose text parses to a diagnosis, and a reply that makes the analyzer raise: an error of the
  HTTP client that is not caught, a text that cannot be encoded, or one on which \<open>json.loads\<close> raises
  something other than a \<open>JSONDecodeError\<close>.
\<close>

definition answers :: "runtime \<Rightarrow> reply \<Rightarrow> pydict \<Rightarrow> bool" where
  "answers rt reply parsed \<longleftrightarrow>
     (\<exists>content capped. reply_text reply = Some content \<and> parse_response rt content = Inr (Inr parsed)
        \<and> cap_raw_response rt content = Inr capped)"

definition raises_on :: "runtime \<Rightarrow> reply \<Rightarrow> str \<Rightarrow> bool" where
  "raises_on rt reply e \<longleftrightarrow>
     reply = TransportError e
     \<or> (\<exists>content. reply_text reply = Some content
          \<and> (rt_encode rt content = Inl e \<or> rt_loads rt (strip_fences content) = Inl (LoadsRaises e)))"

text \<open>The response kept for debugging.\<close>

definition kept_response :: "runtime \<Rightarrow> reply \<Rightarrow> str" where
  "kept_response rt reply =
     (if rt_debug rt
      then (case reply_text reply of
          None \<Rightarrow> []
        | Some content \<Rightarrow> (case cap_raw_response rt content of Inl e \<Rightarrow> [] | Inr capped \<Rightarrow> capped))
      else [])"

text \<open>How a run of requests from \<open>st\<close> to \<open>st'\<close> ended.\<close>

definition llm_outcome ::
  "server \<Rightarrow> runtime \<Rightarrow> evidence_package \<Rightarrow> nat \<Rightarrow> analyzer \<Rightarrow> (str + llm_result) \<times> analyzer \<Rightarrow> bool" where
  "llm_outcome server rt evidence retries st out \<longleftrightarrow>
     (case out of
        (Inl e, st') \<Rightarrow> (\<exists>messages. raises_on rt (server (la_requests st' - 1) messages) e)
      | (Inr res, st') \<Rightarrow>
          if lr_success res
          then la_requests st < la_requests st'
            \<and> lr_retries res = retries + (la_requests st' - la_requests st - 1)
            \<and> (\<exists>messages parsed. answers rt (server (la_requests st' - 1) messages) parsed
                \<and> res = build_result parsed evidence (kept_response rt (server (la_requests st' - 1) messages))
                    (lr_retries res))
          else lr_confidence res = 0 \<and> lr_citations res = [] \<and> lr_affected res = [])"

lemma call_ollama_requests: "la_requests (snd (call_ollama server messages st)) = Suc (la_requests st)"
  by (simp add: call_ollama_def Let_def split: reply.split sum.split)

lemma call_ollama_uncaught:
  "call_ollama server messages st = (Inl (Uncaught e), st1) \<Longrightarrow> raises_on rt (server (la_requests st) messages) e"
  by (auto simp: call_ollama_def raises_on_def Let_def split: reply.splits if_splits)

lemma call_ollama_text:
  "call_ollama server messages st = (Inr (raw, []), st1) \<Longrightarrow> reply_text (server (la_requests st) messages) = Some raw"
  by (auto simp: call_ollama_def reply_text_def Let_def split: reply.splits if_splits sum.splits pyval.splits)

lemma cap_raw_response_raises: "cap_raw_response rt raw = Inl e \<longleftrightarrow> rt_encode rt raw = Inl e"
  by (simp add: cap_raw_response_def split: sum.split)

lemma parse_response_raises: "parse_response rt raw = Inl e \<longleftrightarrow> rt_loads rt (strip_fences raw) = Inl (LoadsRaises e)"
  by (simp add: parse_response_def split: sum.split loads_error.split pyval.split)

lemma raises_onI:
  assumes "reply_text reply = Some raw"
  shows "cap_raw_response rt raw = Inl e \<Longrightarrow> raises_on rt reply e" "parse_response rt raw = Inl e \<Longrightarrow> raises_on rt reply e"
  using assms by (auto simp: raises_on_def cap_raw_response_raises parse_response_raises)

lemma attempts_outcome:
  "llm_outcome server rt evidence attempt st (attempts server rt evidence n attempt messages st)
   \<and> la_requests (snd (attempts server rt evidence n attempt messages st)) \<le> la_requests st + n
   \<and> la_requests st \<le> la_requests (snd (attempts server rt evidence n attempt messages st))"
proof (induction n arbitrary: attempt messages st)
  case 0
  then show ?case by (simp add: llm_outcome_def)
next
  case (Suc n)
  obtain out st1 where call: "call_ollama server messages st = (out, st1)" by fastforce
  then have st1: "la_requests st1 = Suc (la_requests st)"
    using call_ollama_requests [of server messages st] by simp
  show ?case
  proof (cases out)
    case (Inl err)
    then show ?thesis
      using call st1 call_ollama_uncaught [of server messages st]
      by (cases err) (auto simp: llm_outcome_def)
  next
    case (Inr p)
    obtain raw http_error where p: "p = (raw, http_error)" by (cases p)
    show ?thesis
    proof (cases "http_error = []")
      case False
      then show ?thesis using call st1 Inr p by (simp add: llm_outcome_def)
    next
      case True
      have content: "reply_text (server (la_requests st) messages) = Some raw"
        using call Inr p True by (intro call_ollama_text) simp
      consider (encode) e where "cap_raw_response rt raw = Inl e"
        | (loads) capped e where "cap_raw_response rt raw = Inr capped" "parse_response rt raw = Inl e"
        | (parsed) capped parsed where "cap_raw_response rt raw = Inr capped" "parse_response rt raw = Inr (Inr parsed)"
        | (unparsed) capped e where "cap_raw_response rt raw = Inr capped" "parse_response rt raw = Inr (Inl e)"
        by (metis sum.exhaust)
      then show ?thesis
      proof cases
        case encode
        then have "raises_on rt (server (la_requests st) messages) e"
          using content by (blast intro: raises_onI)
        then show ?thesis using call st1 encode Inr p True by (auto simp: llm_outcome_def)
      next
        case loads
        then have "raises_on rt (server (la_requests st) messages) e"
          using content by (blast intro: raises_onI)
        then show ?thesis using call st1 loads Inr p True by (auto simp: llm_outcome_def)
      next
        case parsed
        then have "answers rt (server (la_requests st) messages) parsed"
          "(if rt_debug rt then capped else []) = kept_response rt (server (la_requests st) messages)"
          using content by (simp_all add: answers_def kept_response_def)
        then show ?thesis
          using call st1 parsed Inr p True build_result_range
          by (auto simp: llm_outcome_def)
      next
        case unparsed
        let ?messages = "if n = 0 then messages else messages @ [(''assistant'', raw), (''user'', retry_prompt e)]"
        have step: "attempts server rt evidence (Suc n) attempt messages st =
            attempts server rt evidence n (Suc attempt) ?messages st1"
          using call Inr p True unparsed by simp
        have ih: "llm_outcome server rt evidence (Suc attempt) st1 (attempts server rt evidence n (Suc attempt) ?messages st1)"
          "la_requests (snd (attempts server rt evidence n (Suc attempt) ?messages st1)) \<le> la_requests st1 + n"
          "la_requests st1 \<le> la_requests (snd (attempts server rt evidence n (Suc attempt) ?messages st1))"
          using Suc.IH [of "Suc attempt" st1 ?messages] by blast+
        have "llm_outcome server rt evidence attempt st (attempts server rt evidence n (Suc attempt) ?messages st1)"
          using ih(1) st1 by (fastforce simp: llm_outcome_def split: prod.splits sum.splits if_splits)
        then show ?thesis using ih(2,3) st1 unfolding step by simp
      qed
    qed
  qed
qed

text \<open>
  C31: An analysis makes at most one request more than the configured retries.  When it succeeds, the
  number of retries counts the requests, and the result is read from the last reply, with a
  confidence between 0.30 and 0.69; when it fails the confidence is 0 and nothing is cited.  It raises,
  although its documentation says it never does, only on the last reply it got and only for one of three
  causes: the HTTP client raises something besides a connection error or a timeout, the text cannot be
  encoded, or \<open>json.loads\<close> raises something besides a \<open>JSONDecodeError\<close>.
\<close>
theorem llm_analysis_outcome:
  "la_requests (snd (analyze_llm server rt cfg evidence st)) \<le> la_requests st + nat (oc_max_retries cfg + 1)
   \<and> (case analyze_llm server rt cfg evidence st of
        (Inl e, st') \<Rightarrow> (\<exists>messages. raises_on rt (server (la_requests st' - 1) messages) e)
      | (Inr res, st') \<Rightarrow>
          if lr_success res
          then lr_retries res + 1 = la_requests st' - la_requests st
            \<and> (\<exists>messages parsed. answers rt (server (la_requests st' - 1) messages) parsed
                \<and> res = build_result parsed evidence (kept_response rt (server (la_requests st' - 1) messages))
                    (lr_retries res))
            \<and> dlit 30 100 \<le> lr_confidence res \<and> lr_confidence res \<le> dlit 69 100
          else lr_confidence res = 0 \<and> lr_citations res = [] \<and> lr_affected res = [])"
proof -
  let ?messages = "[(''system'', SYSTEM_PROMPT), (''user'', build_user_prompt evidence)]"
  have "llm_outcome server rt evidence 0 st (analyze_llm server rt cfg evidence st)"
    "la_requests (snd (analyze_llm server rt cfg evidence st)) \<le> la_requests st + nat (oc_max_retries cfg + 1)"
    using attempts_outcome [of server rt evidence 0 st "nat (oc_max_retries cfg + 1)" ?messages]
    unfolding analyze_llm_def by blast+
  then show ?thesis
    using build_result_range(3,4)
    by (cases "analyze_llm server rt cfg evidence st")
       (auto simp: llm_outcome_def split: sum.splits if_splits, metis+)
qed

end
