(* ===== verification/WatchLoop.thy ===== *)
theory WatchLoop
  imports PyValue CooldownGate
begin

text \<open>
  \<open>kuberca/collector/watcher.py\<close>: the watch loop with its back-off, burst detection and throttled
  relist.  One iteration of the loop is a step: the events of one stream, how the stream ended, what
  the API answered to a relist, and the clock readings are its inputs; the delays slept are its
  output.  The back-off seconds are exact in binary64.  A deserialized object is what the code reads
  of it.
\<close>

definition BACKOFF_MIN :: duration where "BACKOFF_MIN = seconds 1"
definition BACKOFF_MAX :: duration where "BACKOFF_MAX = seconds 60"
definition BACKOFF_MULTIPLIER :: int where "BACKOFF_MULTIPLIER = 2"
definition MAX_CONSECUTIVE_FAILURES :: nat where "MAX_CONSECUTIVE_FAILURES = 3"
definition RELIST_MIN_INTERVAL :: duration where "RELIST_MIN_INTERVAL = seconds 300"
definition BURST_WINDOW_S :: duration where "BURST_WINDOW_S = seconds 60"
definition BURST_RELIST_THRESHOLD :: nat where "BURST_RELIST_THRESHOLD = 1"

record watcher =
  wt_resource_version :: str
  wt_running :: bool
  wt_failures :: nat
  wt_last_relist :: "instant option"
  wt_burst_times :: "instant list"
  wt_backoff :: duration

definition watcher_init :: watcher where
  "watcher_init =
     \<lparr>wt_resource_version = [], wt_running = False, wt_failures = 0, wt_last_relist = None,
      wt_burst_times = [], wt_backoff = BACKOFF_MIN\<rparr>"

definition watcher_start :: "watcher \<Rightarrow> watcher" where
  "watcher_start w = w\<lparr>wt_running := True\<rparr>"

definition watcher_stop :: "watcher \<Rightarrow> watcher" where
  "watcher_stop w = w\<lparr>wt_running := False\<rparr>"

subsection \<open>Back-off and bursts\<close>

text \<open>\<open>_backoff\<close>: the delay slept and the next state.\<close>

definition backoff :: "watcher \<Rightarrow> duration \<times> watcher" where
  "backoff w =
     (min (wt_backoff w) BACKOFF_MAX,
      w\<lparr>wt_backoff := min (wt_backoff w * BACKOFF_MULTIPLIER) BACKOFF_MAX\<rparr>)"

definition reset_backoff :: "watcher \<Rightarrow> watcher" where
  "reset_backoff w = w\<lparr>wt_backoff := BACKOFF_MIN, wt_failures := 0\<rparr>"

definition recent_errors :: "instant \<Rightarrow> watcher \<Rightarrow> instant list" where
  "recent_errors now w = filter (\<lambda>t. now - BURST_WINDOW_S \<le> t) (wt_burst_times w)"

definition record_burst_error :: "instant \<Rightarrow> watcher \<Rightarrow> watcher" where
  "record_burst_error now w = w\<lparr>wt_burst_times := recent_errors now w @ [now]\<rparr>"

definition should_relist_on_burst :: "instant \<Rightarrow> watcher \<Rightarrow> bool" where
  "should_relist_on_burst now w \<longleftrightarrow> BURST_RELIST_THRESHOLD < length (recent_errors now w)"

definition add_failure :: "watcher \<Rightarrow> watcher" where
  "add_failure w = w\<lparr>wt_failures := Suc (wt_failures w)\<rparr>"

subsection \<open>Relist\<close>

text \<open>
  The answer to the relist request: a list with its resource version (empty when missing), a failure,
  or no answer within the budget, with the answer to the pods-only fallback.
\<close>

datatype pods_reply = Pods str | PodsFailed
datatype relist_reply = Listed str | ListTimeout pods_reply | ListFailed

definition do_relist :: "relist_reply \<Rightarrow> watcher \<Rightarrow> watcher" where
  "do_relist reply w =
     (let w1 = w\<lparr>wt_resource_version := []\<rparr> in
      case reply of
        Listed rv \<Rightarrow> if rv \<noteq> [] then w1\<lparr>wt_resource_version := rv\<rparr> else w1
      | ListTimeout (Pods rv) \<Rightarrow> if rv \<noteq> [] then w1\<lparr>wt_resource_version := rv\<rparr> else w1
      | ListTimeout PodsFailed \<Rightarrow> w1
      | ListFailed \<Rightarrow> w1)"

text \<open>The steps of an iteration: whether a relist was sent, and the delays its back-off slept.\<close>

record effects =
  ef_relist :: bool
  ef_sleeps :: "duration list"

definition slept :: "watcher \<Rightarrow> effects \<times> watcher" where
  "slept w = (case backoff w of (delay, w') \<Rightarrow> (\<lparr>ef_relist = False, ef_sleeps = [delay]\<rparr>, w'))"

definition throttled :: "instant \<Rightarrow> watcher \<Rightarrow> bool" where
  "throttled now w \<longleftrightarrow>
     (case wt_last_relist w of None \<Rightarrow> False | Some t \<Rightarrow> now - t < RELIST_MIN_INTERVAL)"

definition relist :: "instant \<Rightarrow> relist_reply \<Rightarrow> watcher \<Rightarrow> effects \<times> watcher" where
  "relist now reply w =
     (if throttled now w then slept w
      else (\<lparr>ef_relist = True, ef_sleeps = []\<rparr>,
        reset_backoff (do_relist reply (w\<lparr>wt_last_relist := Some now\<rparr>))))"

subsection \<open>How a stream ends\<close>

datatype stream_end = StreamEnded | ApiException nat | UnexpectedError

text \<open>The clock readings of an iteration: recording an error, checking the burst, the relist.\<close>

record readings =
  rd_error :: instant
  rd_burst :: instant
  rd_relist :: instant

definition fail_or_relist :: "bool \<Rightarrow> readings \<Rightarrow> relist_reply \<Rightarrow> watcher \<Rightarrow> effects \<times> watcher" where
  "fail_or_relist limit rd reply w = (if limit then relist (rd_relist rd) reply w else slept w)"

definition too_many_failures :: "watcher \<Rightarrow> bool" where
  "too_many_failures w \<longleftrightarrow> MAX_CONSECUTIVE_FAILURES \<le> wt_failures w"

definition handle_api_exception :: "nat \<Rightarrow> readings \<Rightarrow> relist_reply \<Rightarrow> watcher \<Rightarrow> effects \<times> watcher" where
  "handle_api_exception status rd reply w =
     (if status = 410 then relist (rd_relist rd) reply (w\<lparr>wt_resource_version := []\<rparr>)
      else if status = 429 then
        let w1 = record_burst_error (rd_error rd) w
        in fail_or_relist (should_relist_on_burst (rd_burst rd) w1) rd reply w1
      else if status \<in> {500, 503, 504} then
        let w1 = record_burst_error (rd_error rd) (add_failure w)
        in fail_or_relist (too_many_failures w1 \<or> should_relist_on_burst (rd_burst rd) w1) rd reply w1
      else
        let w1 = add_failure w in fail_or_relist (too_many_failures w1) rd reply w1)"

definition handle_loop_exception :: "readings \<Rightarrow> relist_reply \<Rightarrow> watcher \<Rightarrow> effects \<times> watcher" where
  "handle_loop_exception rd reply w =
     (let w1 = add_failure w in fail_or_relist (too_many_failures w1) rd reply w1)"

definition stream_ended :: "readings \<Rightarrow> relist_reply \<Rightarrow> watcher \<Rightarrow> effects \<times> watcher" where
  "stream_ended rd reply w =
     (let w1 = add_failure w in fail_or_relist (too_many_failures w1) rd reply w1)"

subsection \<open>Events\<close>

text \<open>\<open>wo_version\<close>: the resource version of the deserialized object's metadata, if there is any.\<close>

record watch_object =
  wo_type :: str
  wo_version :: "str option"
  wo_raw :: pyval

definition raw_rv :: "pydict \<Rightarrow> str" where
  "raw_rv raw =
     (case dget raw ''metadata'' of
        Some (PDict m) \<Rightarrow>
          (let rv = vget (PStr []) m ''resourceVersion'' in if truthy rv then py_str rv else [])
      | _ \<Rightarrow> [])"

definition extract_rv :: "str option \<Rightarrow> pydict \<Rightarrow> str" where
  "extract_rv version raw =
     (case version of Some rv \<Rightarrow> if rv \<noteq> [] then rv else raw_rv raw | None \<Rightarrow> raw_rv raw)"

definition extract_rv_from_bookmark :: "pyval \<Rightarrow> str" where
  "extract_rv_from_bookmark raw_object =
     (case raw_object of
        PDict d \<Rightarrow>
          (case vget (PDict []) d ''metadata'' of
             PDict m \<Rightarrow> py_str (vget (PStr []) m ''resourceVersion'')
           | _ \<Rightarrow> [])
      | _ \<Rightarrow> [])"

definition set_version :: "str \<Rightarrow> watcher \<Rightarrow> watcher" where
  "set_version rv w = (if rv \<noteq> [] then w\<lparr>wt_resource_version := rv\<rparr> else w)"

text \<open>One event of the stream, with the subclass's handler and its state.\<close>

definition stream_event ::
  "(watch_object \<Rightarrow> 's \<Rightarrow> 's) \<Rightarrow> watch_object \<Rightarrow> watcher \<times> 's \<Rightarrow> watcher \<times> 's" where
  "stream_event handler ob ws =
     (if wo_type ob = ''BOOKMARK'' then (set_version (extract_rv_from_bookmark (wo_raw ob)) (fst ws), snd ws)
      else (set_version (extract_rv (wo_version ob) (dict_or_empty (wo_raw ob))) (fst ws), handler ob (snd ws)))"

record iteration =
  it_events :: "watch_object list"
  it_end :: stream_end
  it_readings :: readings
  it_reply :: relist_reply

definition run_watch ::
  "(watch_object \<Rightarrow> 's \<Rightarrow> 's) \<Rightarrow> iteration \<Rightarrow> watcher \<times> 's \<Rightarrow> effects \<times> watcher \<times> 's" where
  "run_watch handler it ws =
     (let (w, s) = fold (stream_event handler) (it_events it) ws;
          (ef, w') = (case it_end it of
             StreamEnded \<Rightarrow> stream_ended (it_readings it) (it_reply it) w
           | ApiException status \<Rightarrow> handle_api_exception status (it_readings it) (it_reply it) w
           | UnexpectedError \<Rightarrow> handle_loop_exception (it_readings it) (it_reply it) w)
      in (ef, w', s))"

text \<open>The loop runs while the watcher is running; \<open>stop\<close> cuts the list of iterations off.\<close>

fun watch_loop ::
  "(watch_object \<Rightarrow> 's \<Rightarrow> 's) \<Rightarrow> iteration list \<Rightarrow> watcher \<times> 's \<Rightarrow> effects list \<times> watcher \<times> 's" where
  "watch_loop handler [] ws = ([], ws)"
| "watch_loop handler (it # its) ws =
     (if \<not> wt_running (fst ws) then ([], ws)
      else case run_watch handler it ws of
        (ef, ws1) \<Rightarrow> (case watch_loop handler its ws1 of (efs, ws2) \<Rightarrow> (ef # efs, ws2)))"

subsection \<open>Pace\<close>

definition backoff_ok :: "watcher \<Rightarrow> bool" where
  "backoff_ok w \<longleftrightarrow> BACKOFF_MIN \<le> wt_backoff w \<and> wt_backoff w \<le> BACKOFF_MAX"

lemmas pace_consts = BACKOFF_MIN_def BACKOFF_MAX_def BACKOFF_MULTIPLIER_def seconds_def

lemma backoff_steps [simp]:
  "backoff_ok (add_failure w) = backoff_ok w" "backoff_ok (record_burst_error t w) = backoff_ok w"
  "backoff_ok (set_version rv w) = backoff_ok w" "backoff_ok (reset_backoff w)"
  "backoff_ok (w\<lparr>wt_resource_version := rv\<rparr>) = backoff_ok w" "backoff_ok watcher_init"
  by (auto simp: backoff_ok_def add_failure_def record_burst_error_def set_version_def reset_backoff_def
      watcher_init_def pace_consts)

text \<open>What every way out of an iteration keeps: the pace, the flag, and the time of the last relist.\<close>

definition paced :: "watcher \<Rightarrow> effects \<times> watcher \<Rightarrow> bool" where
  "paced w out \<longleftrightarrow>
     backoff_ok (snd out) \<and> wt_running (snd out) = wt_running w
     \<and> ef_sleeps (fst out) = (if ef_relist (fst out) then [] else [wt_backoff w])
     \<and> wt_backoff (snd out) = (if ef_relist (fst out) then BACKOFF_MIN else min (2 * wt_backoff w) BACKOFF_MAX)"

lemma paced_slept: "backoff_ok w \<Longrightarrow> paced w (slept w)"
  by (auto simp: paced_def slept_def backoff_def backoff_ok_def pace_consts)

lemma paced_relist: "backoff_ok w \<Longrightarrow> paced w (relist now reply w)"
  using paced_slept [of w]
  by (auto simp: relist_def paced_def do_relist_def reset_backoff_def Let_def backoff_ok_def pace_consts
      split: relist_reply.split pods_reply.split)

lemma paced_cong:
  "wt_backoff w = wt_backoff v \<Longrightarrow> wt_running w = wt_running v \<Longrightarrow> paced w out = paced v out"
  by (simp add: paced_def)

lemma paced_end:
  assumes "backoff_ok w"
  shows "paced w (stream_ended rd reply w)" "paced w (handle_loop_exception rd reply w)"
    "paced w (handle_api_exception status rd reply w)"
proof -
  have fail: "paced w (fail_or_relist limit rd reply v)"
    if "wt_backoff v = wt_backoff w" "wt_running v = wt_running w" for v limit
  proof -
    have "backoff_ok v" using assms that by (simp add: backoff_ok_def)
    then have "paced v (fail_or_relist limit rd reply v)"
      by (simp add: fail_or_relist_def paced_slept paced_relist)
    then show ?thesis using that by (simp add: paced_def)
  qed
  have "paced (w\<lparr>wt_resource_version := []\<rparr>) (relist t reply (w\<lparr>wt_resource_version := []\<rparr>))" for t
    using assms by (intro paced_relist) simp
  then have gone: "paced w (relist t reply (w\<lparr>wt_resource_version := []\<rparr>))" for t
    by (simp add: paced_def)
  show "paced w (stream_ended rd reply w)" "paced w (handle_loop_exception rd reply w)"
    by (simp_all add: stream_ended_def handle_loop_exception_def Let_def fail add_failure_def)
  show "paced w (handle_api_exception status rd reply w)"
    unfolding handle_api_exception_def Let_def by (simp add: gone fail add_failure_def record_burst_error_def)
qed

lemma fold_stream_event:
  "wt_backoff (fst (fold (stream_event handler) obs ws)) = wt_backoff (fst ws)"
  "wt_running (fst (fold (stream_event handler) obs ws)) = wt_running (fst ws)"
  "wt_last_relist (fst (fold (stream_event handler) obs ws)) = wt_last_relist (fst ws)"
  "wt_failures (fst (fold (stream_event handler) obs ws)) = wt_failures (fst ws)"
  "wt_burst_times (fst (fold (stream_event handler) obs ws)) = wt_burst_times (fst ws)"
  by (induction obs arbitrary: ws) (simp_all add: stream_event_def set_version_def)

lemma run_watch_paced:
  assumes "backoff_ok (fst ws)"
  shows "paced (fst ws) (fst (run_watch handler it ws), fst (snd (run_watch handler it ws)))"
proof -
  obtain w s where ws: "fold (stream_event handler) (it_events it) ws = (w, s)" by fastforce
  have same: "wt_backoff w = wt_backoff (fst ws)" "wt_running w = wt_running (fst ws)"
    using fold_stream_event(1,2) [of handler "it_events it" ws] by (simp_all add: ws)
  then have "backoff_ok w" using assms by (simp add: backoff_ok_def)
  from paced_end [OF this] show ?thesis
    by (cases "it_end it")
       (simp_all add: run_watch_def ws case_prod_beta Let_def paced_cong [OF same, symmetric])
qed

text \<open>The reference schedule: after \<open>k\<close> delays since the last relist.\<close>

definition nth_delay :: "nat \<Rightarrow> duration" where
  "nth_delay k = min (seconds (2 ^ k)) (seconds 60)"

fun on_schedule :: "nat \<Rightarrow> effects list \<Rightarrow> bool" where
  "on_schedule k [] \<longleftrightarrow> True"
| "on_schedule k (ef # efs) \<longleftrightarrow>
     (if ef_relist ef then ef_sleeps ef = [] \<and> on_schedule 0 efs
      else ef_sleeps ef = [nth_delay k] \<and> on_schedule (Suc k) efs)"

lemma nth_delay_Suc: "nth_delay (Suc k) = min (2 * nth_delay k) BACKOFF_MAX" "nth_delay 0 = BACKOFF_MIN"
  by (auto simp: nth_delay_def pace_consts)

lemma nth_delay_range: "seconds 1 \<le> nth_delay k" "nth_delay k \<le> seconds 60"
  by (auto simp: nth_delay_def seconds_def)

lemma watch_loop_schedule:
  "backoff_ok (fst ws) \<Longrightarrow> wt_backoff (fst ws) = nth_delay k \<Longrightarrow> on_schedule k (fst (watch_loop handler its ws))"
proof (induction its arbitrary: ws k)
  case (Cons it its)
  obtain ef w1 s1 where run: "run_watch handler it ws = (ef, w1, s1)" by (cases "run_watch handler it ws")
  have paced: "paced (fst ws) (ef, w1)"
    using run_watch_paced [OF Cons.prems(1), of handler it] by (simp add: run)
  then have ok: "backoff_ok w1" by (simp add: paced_def)
  show ?case
  proof (cases "ef_relist ef")
    case True
    then have "on_schedule 0 (fst (watch_loop handler its (w1, s1)))"
      using paced ok by (intro Cons.IH) (simp_all add: paced_def nth_delay_Suc)
    then show ?thesis using True paced by (simp add: run case_prod_beta paced_def)
  next
    case False
    then have "on_schedule (Suc k) (fst (watch_loop handler its (w1, s1)))"
      using paced ok Cons.prems(2) by (intro Cons.IH) (simp_all add: paced_def nth_delay_Suc)
    then show ?thesis using False paced Cons.prems(2) by (simp add: run case_prod_beta paced_def)
  qed
qed simp

lemma on_schedule_pace:
  "on_schedule k efs \<Longrightarrow>
   list_all (\<lambda>ef. ef_relist ef \<or> (\<exists>delay. ef_sleeps ef = [delay] \<and> seconds 1 \<le> delay \<and> delay \<le> seconds 60)) efs"
  by (induction efs arbitrary: k) (auto simp: nth_delay_range split: if_splits)


subsection \<open>Relists\<close>

text \<open>A relist is sent only outside the interval after the last one, whose time is the only one kept.\<close>

definition gated :: "readings \<Rightarrow> watcher \<Rightarrow> effects \<times> watcher \<Rightarrow> bool" where
  "gated rd w out \<longleftrightarrow>
     (if ef_relist (fst out)
      then \<not> throttled (rd_relist rd) w \<and> wt_last_relist (snd out) = Some (rd_relist rd)
      else wt_last_relist (snd out) = wt_last_relist w)"

lemma gated_relist: "gated rd w (relist (rd_relist rd) reply w)"
  by (auto simp: gated_def relist_def slept_def backoff_def reset_backoff_def do_relist_def Let_def
      split: relist_reply.split pods_reply.split)

lemma gated_cong: "wt_last_relist v = wt_last_relist w \<Longrightarrow> gated rd v out = gated rd w out"
  by (simp add: gated_def throttled_def)

lemma gated_fail: "wt_last_relist v = wt_last_relist w \<Longrightarrow> gated rd w (fail_or_relist limit rd reply v)"
  using gated_relist [of rd v reply] gated_cong [of v w rd]
  by (auto simp: fail_or_relist_def) (simp add: gated_def slept_def backoff_def)

lemma gated_end:
  "gated rd w (stream_ended rd reply w)" "gated rd w (handle_loop_exception rd reply w)"
  "gated rd w (handle_api_exception status rd reply w)"
proof -
  show "gated rd w (stream_ended rd reply w)" "gated rd w (handle_loop_exception rd reply w)"
    by (simp_all add: stream_ended_def handle_loop_exception_def Let_def gated_fail add_failure_def)
  have gone: "gated rd w (relist (rd_relist rd) reply (w\<lparr>wt_resource_version := []\<rparr>))"
    using gated_relist [of rd "w\<lparr>wt_resource_version := []\<rparr>" reply]
      gated_cong [of "w\<lparr>wt_resource_version := []\<rparr>" w] by simp
  show "gated rd w (handle_api_exception status rd reply w)"
    unfolding handle_api_exception_def Let_def by (simp add: gone gated_fail add_failure_def record_burst_error_def)
qed

definition relist_step :: "(watch_object \<Rightarrow> 's \<Rightarrow> 's) \<Rightarrow> iteration \<Rightarrow> watcher \<times> 's \<Rightarrow> bool \<times> watcher \<times> 's" where
  "relist_step handler it ws = (case run_watch handler it ws of (ef, ws') \<Rightarrow> (ef_relist ef, ws'))"

lemma run_watch_gated:
  "gated (it_readings it) (fst ws) (fst (run_watch handler it ws), fst (snd (run_watch handler it ws)))"
proof -
  obtain w s where ws: "fold (stream_event handler) (it_events it) ws = (w, s)" by fastforce
  have same: "wt_last_relist w = wt_last_relist (fst ws)"
    using fold_stream_event(3) [of handler "it_events it" ws] by (simp add: ws)
  from gated_end show ?thesis
    by (cases "it_end it")
       (simp_all add: run_watch_def ws case_prod_beta Let_def gated_cong [OF same, symmetric])
qed

interpretation relists: cooldown_gate "relist_step handler" "\<lambda>it. ()" "\<lambda>it. rd_relist (it_readings it)"
  "\<lambda>ws _. wt_last_relist (fst ws)" "\<lambda>ws. RELIST_MIN_INTERVAL"
  for handler
proof
  fix it :: iteration and ws :: "watcher \<times> 'a" and k :: unit
  note gate = run_watch_gated [of it ws handler]
  show "fst (relist_step handler it ws) \<Longrightarrow> case wt_last_relist (fst ws) of
      None \<Rightarrow> True | Some t \<Rightarrow> RELIST_MIN_INTERVAL \<le> rd_relist (it_readings it) - t"
    using gate by (auto simp: relist_step_def gated_def throttled_def case_prod_beta split: option.splits)
  show "wt_last_relist (fst (snd (relist_step handler it ws))) =
      (if fst (relist_step handler it ws) \<and> k = () then Some (rd_relist (it_readings it)) else wt_last_relist (fst ws))"
    using gate by (auto simp: relist_step_def gated_def case_prod_beta)
qed simp

text \<open>The clock readings of the relists of a run, in order\<close>

definition relist_times :: "iteration list \<Rightarrow> effects list \<Rightarrow> instant list" where
  "relist_times its efs = map (\<lambda>(it, ef). rd_relist (it_readings it)) (filter (\<lambda>(it, ef). ef_relist ef) (zip its efs))"

lemma watch_loop_relists:
  "backoff_ok (fst ws) \<Longrightarrow> wt_running (fst ws) \<Longrightarrow>
   relist_times its (fst (watch_loop handler its ws))
     = map (\<lambda>it. rd_relist (it_readings it)) (passed (relist_step handler) its ws)"
proof (induction its arbitrary: ws)
  case (Cons it its)
  obtain ef w1 s1 where run: "run_watch handler it ws = (ef, w1, s1)" by (cases "run_watch handler it ws")
  have "backoff_ok w1" "wt_running w1"
    using run_watch_paced [OF Cons.prems(1), of handler it] Cons.prems(2) by (simp_all add: run paced_def)
  with Cons show ?case by (simp add: run relist_step_def relist_times_def case_prod_beta Let_def)
qed (simp add: relist_times_def)

lemma spaced_step: "spaced gap ts \<Longrightarrow> Suc n < length ts \<Longrightarrow> gap \<le> ts ! Suc n - ts ! n"
proof (induction ts arbitrary: n)
  case (Cons t ts)
  then show ?case by (cases n; cases ts) (simp_all add: spaced_Cons)
qed simp

lemma spaced_nth:
  assumes "spaced gap ts" "i \<le> j" "j < length ts"
  shows "int (j - i) * gap \<le> ts ! j - ts ! i"
  using assms(2,3)
proof (induction j rule: dec_induct)
  case (step n)
  then have "gap \<le> ts ! Suc n - ts ! n" using spaced_step [OF assms(1)] by simp
  with step show ?case by (simp add: Suc_diff_le algebra_simps)
qed simp

text \<open>
  C38: Relists are rare: whatever the streams do and whatever the clock shows, any two relists of a watcher's
  run are at least five minutes apart, ten minutes when there is another one between them, and so on.
\<close>
theorem relists_are_rare:
  assumes "i < j" and "j < length (relist_times its (fst (watch_loop handler its (watcher_start watcher_init, s))))"
  shows "int (j - i) * seconds 300
    \<le> relist_times its (fst (watch_loop handler its (watcher_start watcher_init, s))) ! j
       - relist_times its (fst (watch_loop handler its (watcher_start watcher_init, s))) ! i"
proof -
  have "relist_times its (fst (watch_loop handler its (watcher_start watcher_init, s)))
      = map (\<lambda>it. rd_relist (it_readings it)) (passed (relist_step handler) its (watcher_start watcher_init, s))"
    by (rule watch_loop_relists) (simp_all add: watcher_start_def watcher_init_def backoff_ok_def pace_consts)
  moreover have "spaced RELIST_MIN_INTERVAL
      (map (\<lambda>it. rd_relist (it_readings it)) (passed (relist_step handler) its (watcher_start watcher_init, s)))"
    using relists.passed_spaced [where s = "(watcher_start watcher_init, s)" and k = "()" and es = its and handler = handler]
    by (simp add: relists.times_of_def)
  ultimately have "spaced (seconds 300) (relist_times its (fst (watch_loop handler its (watcher_start watcher_init, s))))"
    by (simp only: RELIST_MIN_INTERVAL_def)
  from spaced_nth [OF this _ assms(2), of i] show ?thesis using assms(1) by simp
qed

definition quiet_iteration :: "instant \<Rightarrow> iteration" where
  "quiet_iteration t =
     \<lparr>it_events = [], it_end = StreamEnded, it_readings = \<lparr>rd_error = t, rd_burst = t, rd_relist = t\<rparr>,
      it_reply = Listed ''7''\<rparr>"

definition quiet_run :: "iteration list" where
  "quiet_run = map (\<lambda>t. quiet_iteration (seconds t)) [0, 1, 2, 302, 303, 304]"

lemma quiet_relists:
  "relist_times quiet_run (fst (watch_loop (\<lambda>ob s. s) quiet_run (watcher_start watcher_init, 0 :: nat))) = [seconds 2, seconds 304]"
  by code_simp

lemma relists_are_rare_witness: "seconds 300 \<le> seconds 304 - seconds 2"
  using relists_are_rare [of 0 1 quiet_run "\<lambda>ob s. s" "0 :: nat"] by (simp add: quiet_relists)

lemma run_ended:
  assumes "it_end it = StreamEnded"
  shows "ef_relist (fst (run_watch handler it ws)) \<longleftrightarrow>
      2 \<le> wt_failures (fst ws) \<and> \<not> throttled (rd_relist (it_readings it)) (fst ws)"
    and "wt_failures (fst ws) < 2 \<Longrightarrow> wt_failures (fst (snd (run_watch handler it ws))) = Suc (wt_failures (fst ws))"
proof -
  obtain w s where ws: "fold (stream_event handler) (it_events it) ws = (w, s)" by fastforce
  have same: "wt_failures w = wt_failures (fst ws)" "wt_last_relist w = wt_last_relist (fst ws)"
    using fold_stream_event(3,4) [of handler "it_events it" ws] by (simp_all add: ws)
  then show "ef_relist (fst (run_watch handler it ws)) \<longleftrightarrow>
      2 \<le> wt_failures (fst ws) \<and> \<not> throttled (rd_relist (it_readings it)) (fst ws)"
    and "wt_failures (fst ws) < 2 \<Longrightarrow> wt_failures (fst (snd (run_watch handler it ws))) = Suc (wt_failures (fst ws))"
    using assms
    by (auto simp: run_watch_def ws case_prod_beta Let_def stream_ended_def fail_or_relist_def too_many_failures_def
        MAX_CONSECUTIVE_FAILURES_def add_failure_def relist_def slept_def backoff_def throttled_def)
qed

text \<open>
  Healthy streams count as failures: a fresh watcher whose streams deliver any events and end without
  an error sends a relist when the third stream ends.
\<close>
theorem healthy_streams_relist:
  assumes "it_end a = StreamEnded" and "it_end b = StreamEnded" and "it_end c = StreamEnded"
  shows "map ef_relist (fst (watch_loop handler [a, b, c] (watcher_start watcher_init, s))) = [False, False, True]"
proof -
  let ?ws = "(watcher_start watcher_init, s)"
  let ?wa = "snd (run_watch handler a ?ws)"
  let ?wb = "snd (run_watch handler b ?wa)"
  have start: "wt_failures (fst ?ws) = 0" "wt_last_relist (fst ?ws) = None" "wt_running (fst ?ws)"
      "backoff_ok (fst ?ws)"
    by (simp_all add: watcher_start_def watcher_init_def backoff_ok_def pace_consts)
  have a: "\<not> ef_relist (fst (run_watch handler a ?ws))" "wt_failures (fst ?wa) = 1"
    using run_ended [OF assms(1), where handler = handler and ws = ?ws] start by simp_all
  then have last_a: "wt_last_relist (fst ?wa) = None" "wt_running (fst ?wa)" "backoff_ok (fst ?wa)"
    using run_watch_gated [of a ?ws handler] run_watch_paced [OF start(4), of handler a] start
    by (simp_all add: gated_def paced_def)
  have b: "\<not> ef_relist (fst (run_watch handler b ?wa))" "wt_failures (fst ?wb) = 2"
    using run_ended [OF assms(2), where handler = handler and ws = ?wa] a by simp_all
  then have last_b: "wt_last_relist (fst ?wb) = None" "wt_running (fst ?wb)"
    using run_watch_gated [of b ?wa handler] run_watch_paced [OF last_a(3), of handler b] last_a
    by (simp_all add: gated_def paced_def)
  have "ef_relist (fst (run_watch handler c ?wb))"
    using run_ended(1) [OF assms(3), where handler = handler and ws = ?wb] b last_b by (simp add: throttled_def)
  then show ?thesis using a b start(3) last_a(2) last_b(2) by (simp add: case_prod_beta)
qed

lemma healthy_streams_relist_witness:
  "map ef_relist (fst (watch_loop (\<lambda>ob s. s) [quiet_iteration 0, quiet_iteration 1, quiet_iteration 2]
     (watcher_start watcher_init, ()))) = [False, False, True]"
  by (rule healthy_streams_relist) (simp_all add: quiet_iteration_def)

text \<open>
  After 410 the expired version is never resumed from: the next stream starts without a version or
  with the one of the relist's answer, which after a timeout is the version of the pod list whatever
  the watcher watches.
\<close>
theorem gone_forgets_version:
  "wt_resource_version (snd (handle_api_exception 410 rd reply w)) =
     (if throttled (rd_relist rd) w then []
      else case reply of Listed rv \<Rightarrow> rv | ListTimeout (Pods rv) \<Rightarrow> rv | _ \<Rightarrow> [])"
  by (auto simp: handle_api_exception_def relist_def throttled_def slept_def backoff_def reset_backoff_def
      do_relist_def Let_def split: relist_reply.split pods_reply.split)

end
