(* ===== verification/Watchers.thy ===== *)
theory Watchers
  imports Models BoundedLog Sha256 "HOL-Library.Char_ord" "HOL-Library.List_Lexorder"
begin

text \<open>
  \<open>kuberca/collector/event_watcher.py\<close>: the conversion of a watch event to an event record, the bounded
  buffer of the last two hours and its queries; with the object metadata all three watchers read.  A
  deserialized object is what the code reads of it, \<open>None\<close> where the attribute is missing;
  \<open>datetime.fromisoformat\<close> and \<open>int\<close> of a string are parameters.  The id of a record is an input, and the
  callbacks' own behaviour is not modelled.
\<close>

record k8s_meta =
  km_name :: "str option"
  km_namespace :: "str option"
  km_version :: "str option"
  km_labels :: "pydict option"

definition or_str :: "str option \<Rightarrow> str \<Rightarrow> str" where
  "or_str s dflt = (case s of Some x \<Rightarrow> if x \<noteq> [] then x else dflt | None \<Rightarrow> dflt)"

definition str_labels :: "pydict \<Rightarrow> (str, str) dict" where
  "str_labels d = map (\<lambda>(k, v). (k, py_str v)) d"

subsection \<open>Events (event_watcher.py)\<close>

definition BUFFER_MAX_EVENTS :: nat where "BUFFER_MAX_EVENTS = 500"
definition BUFFER_WINDOW :: duration where "BUFFER_WINDOW = hours 2"

definition ERROR_REASONS :: "str list" where
  "ERROR_REASONS = [''Failed'', ''FailedCreate'', ''FailedMount'', ''FailedScheduling'', ''FailedKillPod'',
     ''BackOff'', ''CrashLoopBackOff'', ''OOMKilling'', ''Unhealthy'']"

definition CRITICAL_REASONS :: "str list" where
  "CRITICAL_REASONS = [''OOMKilling'', ''NodeNotReady'', ''Evicted'']"

definition classify_severity :: "str \<Rightarrow> str \<Rightarrow> severity" where
  "classify_severity kube_type reason =
     (if reason \<in> set CRITICAL_REASONS then CRITICAL
      else if reason \<in> set ERROR_REASONS then ERROR
      else if kube_type = ''Warning'' then WARNING else INFO)"

record stdlib =
  sl_fromisoformat :: "str \<Rightarrow> instant option"
  sl_int :: "str \<Rightarrow> int option"

definition replace_z :: "str \<Rightarrow> str" where
  "replace_z s = concat (map (\<lambda>c. if c = CHR ''Z'' then ''+00:00'' else [c]) s)"

definition parse_dt_str :: "stdlib \<Rightarrow> pyval option \<Rightarrow> instant option" where
  "parse_dt_str lib value =
     (case value of Some (PStr s) \<Rightarrow> sl_fromisoformat lib (replace_z s) | _ \<Rightarrow> None)"

text \<open>First and last occurrence, each standing in for the other, and the clock for both.\<close>

definition seen_times :: "instant \<Rightarrow> instant option \<Rightarrow> instant option \<Rightarrow> instant \<times> instant" where
  "seen_times now first_seen last_seen =
     (let last_at = (case last_seen of Some t \<Rightarrow> t
            | None \<Rightarrow> (case first_seen of Some t \<Rightarrow> t | None \<Rightarrow> now));
          first_at = (case first_seen of Some t \<Rightarrow> t | None \<Rightarrow> last_at)
      in (first_at, last_at))"

record v1_event =
  vo_meta :: "k8s_meta option"
  vo_involved_kind :: "str option"
  vo_involved_name :: "str option"
  vo_reason :: "str option"
  vo_message :: "str option"
  vo_type :: "str option"
  vo_count :: "int option"
  vo_first :: "instant option"
  vo_last :: "instant option"

definition from_v1_event :: "str \<Rightarrow> str \<Rightarrow> instant \<Rightarrow> v1_event \<Rightarrow> event_record option" where
  "from_v1_event event_id cluster_id now ob =
     (case vo_meta ob of
        None \<Rightarrow> None
      | Some metadata \<Rightarrow>
          let reason = or_str (vo_reason ob) [];
              (first_at, last_at) = seen_times now (vo_first ob) (vo_last ob)
          in Some \<lparr>ev_source = CORE_EVENT,
               ev_severity = classify_severity (or_str (vo_type ob) ''Normal'') reason,
               ev_reason = reason, ev_message = or_str (vo_message ob) [],
               ev_namespace = or_str (km_namespace metadata) [],
               ev_kind = or_str (vo_involved_kind ob) ''Unknown'', ev_name = or_str (vo_involved_name ob) [],
               ev_first_seen = first_at, ev_last_seen = last_at, ev_id = event_id, ev_cluster_id = cluster_id,
               ev_labels = (case km_labels metadata of None \<Rightarrow> [] | Some d \<Rightarrow> str_labels d),
               ev_count = (case vo_count ob of None \<Rightarrow> 1 | Some n \<Rightarrow> if n = 0 then 1 else n)\<rparr>)"

definition count_of_raw :: "stdlib \<Rightarrow> pyval \<Rightarrow> py_exn + int" where
  "count_of_raw lib v =
     (case v of
        PInt n \<Rightarrow> Inr n
      | PBool b \<Rightarrow> Inr (if b then 1 else 0)
      | PStr s \<Rightarrow> (case sl_int lib s of None \<Rightarrow> Inl ValueError | Some n \<Rightarrow> Inr n)
      | _ \<Rightarrow> Inr 1)"

definition from_raw_dict :: "stdlib \<Rightarrow> str \<Rightarrow> str \<Rightarrow> instant \<Rightarrow> pydict \<Rightarrow> py_exn + event_record option" where
  "from_raw_dict lib event_id cluster_id now raw =
     (case vget (PDict []) raw ''metadata'' of
        PDict metadata \<Rightarrow>
          let involved = dict_or_empty (vget (PDict []) raw ''involvedObject'');
              reason = py_str (vget (PStr []) raw ''reason'');
              (first_at, last_at) = seen_times now (parse_dt_str lib (dget raw ''firstTimestamp''))
                (parse_dt_str lib (dget raw ''lastTimestamp''))
          in (case count_of_raw lib (vget (PInt 1) raw ''count'') of
                Inl e \<Rightarrow> Inl e
              | Inr occurrences \<Rightarrow> Inr (Some
                  \<lparr>ev_source = CORE_EVENT,
                   ev_severity = classify_severity (py_str (vget (PStr ''Normal'') raw ''type'')) reason,
                   ev_reason = reason, ev_message = py_str (vget (PStr []) raw ''message''),
                   ev_namespace = py_str (vget (PStr []) metadata ''namespace''),
                   ev_kind = py_str (vget (PStr ''Unknown'') involved ''kind''),
                   ev_name = py_str (vget (PStr []) involved ''name''),
                   ev_first_seen = first_at, ev_last_seen = last_at, ev_id = event_id,
                   ev_cluster_id = cluster_id,
                   ev_labels = str_labels (dict_or_empty (vget (PDict []) metadata ''labels'')),
                   ev_count = occurrences\<rparr>))
      | _ \<Rightarrow> Inr None)"

definition convert_event ::
  "stdlib \<Rightarrow> str \<Rightarrow> str \<Rightarrow> instant \<Rightarrow> v1_event option \<Rightarrow> pydict \<Rightarrow> py_exn + event_record option" where
  "convert_event lib event_id cluster_id now ob raw =
     (case ob of
        Some v \<Rightarrow> Inr (from_v1_event event_id cluster_id now v)
      | None \<Rightarrow> from_raw_dict lib event_id cluster_id now raw)"

text \<open>The buffer: \<open>_evict_stale\<close>, then the append of the bounded deque.\<close>

definition evict_stale :: "instant \<Rightarrow> event_record list \<Rightarrow> event_record list" where
  "evict_stale now buf = expire_left (\<lambda>r. ev_last_seen r < now - BUFFER_WINDOW) buf"

definition buffer_event :: "instant \<Rightarrow> event_record \<Rightarrow> event_record list \<Rightarrow> event_record list" where
  "buffer_event now record buf = deque_append BUFFER_MAX_EVENTS record (evict_stale now buf)"

text \<open>\<open>_handle_event\<close>: the record for the callbacks, and the buffer.\<close>

definition event_handle ::
  "stdlib \<Rightarrow> str \<Rightarrow> instant \<Rightarrow> str \<Rightarrow> str \<Rightarrow> v1_event option \<Rightarrow> pydict \<Rightarrow> event_record list
   \<Rightarrow> (py_exn + event_record option) \<times> event_record list" where
  "event_handle lib cluster_id now event_id event_type ob raw buf =
     (if event_type = ''DELETED'' then (Inr None, buf)
      else case convert_event lib event_id cluster_id now ob raw of
          Inl e \<Rightarrow> (Inl e, buf)
        | Inr None \<Rightarrow> (Inr None, buf)
        | Inr (Some record) \<Rightarrow> (Inr (Some record), buffer_event now record buf))"

definition event_matches :: "instant \<Rightarrow> str \<Rightarrow> str \<Rightarrow> str \<Rightarrow> instant option \<Rightarrow> event_record \<Rightarrow> bool" where
  "event_matches now resource_kind namespace name since record \<longleftrightarrow>
     now - BUFFER_WINDOW \<le> ev_last_seen record
     \<and> (case since of None \<Rightarrow> True | Some t \<Rightarrow> t \<le> ev_last_seen record)
     \<and> ev_kind record = resource_kind \<and> (namespace = [] \<or> ev_namespace record = namespace)
     \<and> ev_name record = name"

definition get_events ::
  "instant \<Rightarrow> str \<Rightarrow> str \<Rightarrow> str \<Rightarrow> instant option \<Rightarrow> event_record list \<Rightarrow> event_record list" where
  "get_events now resource_kind namespace name since buf =
     filter (event_matches now resource_kind namespace name since) buf"

subsection \<open>The event buffer\<close>

lemma buffer_event_push: "buffer_event = push_expiring BUFFER_MAX_EVENTS ev_last_seen BUFFER_WINDOW"
  by (intro ext) (simp add: buffer_event_def evict_stale_def push_expiring_def)

interpretation event_buffer: bounded_log BUFFER_MAX_EVENTS buffer_event
  unfolding buffer_event_push by (rule push_expiring_bounded_log) (simp add: BUFFER_MAX_EVENTS_def)

definition last_n :: "nat \<Rightarrow> 'a list \<Rightarrow> 'a list" where
  "last_n n xs = drop (length xs - n) xs"

lemma last_n_snoc: "0 < n \<Longrightarrow> last_n n (xs @ [x]) = last_n (n - 1) xs @ [x]"
  by (cases "n \<le> length xs") (auto simp: last_n_def Suc_diff_le)

lemma suffix_of_last_n: "suffix_of xs ys \<Longrightarrow> length xs \<le> n \<Longrightarrow> suffix_of xs (last_n n ys)"
proof -
  assume "suffix_of xs ys" "length xs \<le> n"
  then obtain zs where zs: "ys = zs @ xs" by (auto simp: suffix_of_def)
  show ?thesis
  proof (cases "n \<le> length ys")
    case True
    then have "last_n n ys = drop (length ys - n) zs @ xs"
      using \<open>length xs \<le> n\<close> by (simp add: last_n_def zs)
    then show ?thesis by (auto simp: suffix_of_def)
  qed (use zs in \<open>auto simp: last_n_def suffix_of_def\<close>)
qed

lemma filter_between:
  "suffix_of a b \<Longrightarrow> suffix_of b c \<Longrightarrow> filter p a = filter p c \<Longrightarrow> filter p b = filter p c"
  by (auto simp: suffix_of_def)

lemma last_n_mono: "m \<le> n \<Longrightarrow> suffix_of (last_n m xs) (last_n n xs)"
  by (rule suffix_of_last_n) (auto simp: last_n_def suffix_of_drop)

lemma pushes_snoc: "pushes push (xs @ [(t, x)]) q = push t x (pushes push xs q)"
  by (induction xs arbitrary: q) auto

lemma filter_expire_left: "(\<And>x. old x \<Longrightarrow> \<not> p x) \<Longrightarrow> filter p (expire_left old xs) = filter p xs"
  by (induction xs) auto

text \<open>The buffer answers for the last 500 events as far as they are fresh.\<close>

lemma buffer_fresh:
  assumes "\<forall>(t, x) \<in> set es. t \<le> now"
  shows "filter (\<lambda>r. now - BUFFER_WINDOW \<le> ev_last_seen r) (pushes buffer_event es []) =
    filter (\<lambda>r. now - BUFFER_WINDOW \<le> ev_last_seen r) (last_n BUFFER_MAX_EVENTS (map snd es))"
  using assms
proof (induction es rule: rev_induct)
  case Nil
  then show ?case by (simp add: last_n_def)
next
  case (snoc e es)
  obtain t x where e: "e = (t, x)" by (cases e)
  let ?fresh = "\<lambda>r. now - BUFFER_WINDOW \<le> ev_last_seen r" and ?N = BUFFER_MAX_EVENTS
  let ?hist = "map snd es" and ?buf = "pushes buffer_event es []"
  define kept where "kept = evict_stale t ?buf"
  have N: "0 < ?N" by (simp add: BUFFER_MAX_EVENTS_def)
  have fresh: "filter ?fresh kept = filter ?fresh ?buf"
    unfolding kept_def evict_stale_def by (rule filter_expire_left) (use snoc.prems e in auto)
  have ih: "filter ?fresh ?buf = filter ?fresh (last_n ?N ?hist)" using snoc by auto
  have "suffix_of ?buf ?hist" using event_buffer.pushes_suffix [of es "[]"] by simp
  then have suffix: "suffix_of kept ?hist"
    unfolding kept_def evict_stale_def using suffix_of_expire suffix_of_trans by blast
  have cap: "length kept \<le> ?N"
    using event_buffer.pushes_cap [of "[]" es] length_expire_left [of "\<lambda>r. ev_last_seen r < t - BUFFER_WINDOW" ?buf]
    by (simp add: kept_def evict_stale_def)
  have buf': "pushes buffer_event (es @ [e]) [] = last_n (?N - 1) kept @ [x]"
    using N last_n_snoc [OF N, of kept x] cap
    by (simp add: e pushes_snoc buffer_event_def kept_def deque_append_def last_n_def)
  have hist': "last_n ?N (map snd (es @ [e])) = last_n (?N - 1) ?hist @ [x]"
    using last_n_snoc [OF N, of ?hist x] by (simp add: e)
  have "filter ?fresh (last_n (?N - 1) kept) = filter ?fresh (last_n (?N - 1) ?hist)"
  proof (cases "length kept = ?N")
    case True
    obtain zs where zs: "last_n ?N ?hist = zs @ kept"
      using suffix_of_last_n [OF suffix cap] by (auto simp: suffix_of_def)
    moreover have "length (last_n ?N ?hist) \<le> ?N" by (simp add: last_n_def)
    ultimately have kept: "kept = last_n ?N ?hist" using True by simp
    moreover have "?N \<le> length ?hist" using suffix True by (metis le_add2 length_append suffix_of_def)
    ultimately have "last_n (?N - 1) kept = last_n (?N - 1) ?hist"
      using True N by (simp add: last_n_def Suc_diff_le)
    then show ?thesis by simp
  next
    case False
    then have all: "last_n (?N - 1) kept = kept" using cap by (simp add: last_n_def)
    have "suffix_of kept (last_n (?N - 1) ?hist)"
      using suffix False cap by (intro suffix_of_last_n) auto
    from filter_between [OF this last_n_mono [of "?N - 1" ?N]] fresh ih show ?thesis
      unfolding all by simp
  qed
  then show ?case unfolding buf' hist' by simp
qed

text \<open>
  C21: The event buffer answers like a search of the whole history: after any pushes whose clock readings
  are not later than the query's, \<open>get_events\<close> returns exactly the matching events of the last two
  hours among the last 500 events, oldest first, and the buffer never holds more than 500.
\<close>
theorem events_query_complete:
  assumes "\<forall>(t, x) \<in> set es. t \<le> now"
  shows "get_events now kind namespace name since (pushes buffer_event es []) =
      filter (event_matches now kind namespace name since) (last_n 500 (map snd es))
    \<and> length (pushes buffer_event es []) \<le> 500"
proof -
  let ?fresh = "\<lambda>r. now - BUFFER_WINDOW \<le> ev_last_seen r"
  have split: "filter (event_matches now kind namespace name since) xs =
      filter (event_matches now kind namespace name since) (filter ?fresh xs)" for xs
    unfolding filter_filter by (rule filter_cong) (auto simp: event_matches_def)
  show ?thesis
    using event_buffer.pushes_cap [of "[]" es]
    unfolding get_events_def split [of "pushes buffer_event es []"] buffer_fresh [OF assms] split [symmetric]
    by (simp add: BUFFER_MAX_EVENTS_def)
qed

definition sample_record :: event_record where
  "sample_record =
     \<lparr>ev_source = CORE_EVENT, ev_severity = WARNING, ev_reason = ''BackOff'', ev_message = [],
      ev_namespace = ''default'', ev_kind = ''Pod'', ev_name = ''web'', ev_first_seen = 0, ev_last_seen = 0,
      ev_id = ''1'', ev_cluster_id = [], ev_labels = [], ev_count = 1\<rparr>"

lemma events_query_complete_witness:
  "get_events (hours 1) ''Pod'' ''default'' ''web'' None (pushes buffer_event [(0, sample_record)] []) = [sample_record]"
proof -
  have "\<forall>(t, x) \<in> set [(0, sample_record)]. t \<le> hours 1" by (simp add: duration_defs)
  from events_query_complete [OF this, of "''Pod''" "''default''" "''web''" None] show ?thesis
    by (simp add: last_n_def event_matches_def sample_record_def duration_defs BUFFER_WINDOW_def)
qed

end
