(* ===== verification/ObjectWatchers.thy ===== *)
theory ObjectWatchers
  imports Watchers
begin

text \<open>
  The pod watcher (\<open>pod_watcher.py\<close>) and the node watcher (\<open>node_watcher.py\<close>): from each watch event
  they emit the changes against what they last saw.  Both keep one memory for all objects; the
  interface \<open>keyed_machine\<close> says that such a machine is a family of independent machines, one per key.
\<close>

subsection \<open>Machines with a memory per key\<close>

fun steps :: "('e \<Rightarrow> 's \<Rightarrow> 'o list \<times> 's) \<Rightarrow> 'e list \<Rightarrow> 's \<Rightarrow> 'o list \<times> 's" where
  "steps step [] s = ([], s)"
| "steps step (e # es) s =
     (case step e s of (out, s1) \<Rightarrow> (case steps step es s1 of (outs, s2) \<Rightarrow> (out @ outs, s2)))"

locale keyed_machine =
  fixes step :: "'e \<Rightarrow> 's \<Rightarrow> 'o list \<times> 's"
    and owner :: "'o \<Rightarrow> 'k"
    and view :: "'s \<Rightarrow> 'k \<Rightarrow> 'v"
    and react :: "'k \<Rightarrow> 'e \<Rightarrow> 'v \<Rightarrow> 'o list \<times> 'v"
  assumes step_output: "filter (\<lambda>x. owner x = k) (fst (step e s)) = fst (react k e (view s k))"
    and step_view: "view (snd (step e s)) k = snd (react k e (view s k))"
begin

lemma steps_view: "view (snd (steps step es s)) k = snd (steps (react k) es (view s k))"
  by (induction es arbitrary: s) (simp_all add: case_prod_beta step_view)

lemma steps_output: "filter (\<lambda>x. owner x = k) (fst (steps step es s)) = fst (steps (react k) es (view s k))"
  by (induction es arbitrary: s) (simp_all add: case_prod_beta step_view step_output)

end

text \<open>A watch event: the clock reading and the ids of the records it may emit are inputs.\<close>

record 'o watch_event =
  we_type :: str
  we_object :: "'o option"
  we_raw :: pydict
  we_now :: instant
  we_ids :: "nat \<Rightarrow> str"

subsection \<open>Pods (pod_watcher.py)\<close>

definition PHASE_SEVERITY :: "(str, severity) dict" where
  "PHASE_SEVERITY = [(''Pending'', INFO), (''Running'', INFO), (''Succeeded'', INFO), (''Failed'', ERROR),
     (''Unknown'', WARNING)]"

text \<open>\<open>po_spec\<close>: what \<open>to_dict\<close> of the object's specification gives, if it has one.\<close>

record pod_object =
  po_meta :: "k8s_meta option"
  po_phase :: "str option"
  po_spec :: "pydict option"

definition object_key :: "k8s_meta option \<Rightarrow> (str \<times> str) option" where
  "object_key meta =
     (case meta of
        None \<Rightarrow> None
      | Some m \<Rightarrow> if or_str (km_name m) [] \<noteq> [] then Some (or_str (km_namespace m) [], or_str (km_name m) []) else None)"

definition pod_key :: "pod_object option \<Rightarrow> pydict \<Rightarrow> (str \<times> str) option" where
  "pod_key ob raw =
     (case Option.bind ob (\<lambda>p. object_key (po_meta p)) of
        Some key \<Rightarrow> Some key
      | None \<Rightarrow>
          (case vget (PDict []) raw ''metadata'' of
             PDict metadata \<Rightarrow>
               let name = py_str (vget (PStr []) metadata ''name'') in
               if name \<noteq> [] then Some (py_str (vget (PStr []) metadata ''namespace''), name) else None
           | _ \<Rightarrow> None))"

definition extract_phase :: "pod_object option \<Rightarrow> pydict \<Rightarrow> str" where
  "extract_phase ob raw =
     (let phase = or_str (Option.bind ob po_phase) [] in
      if phase \<noteq> [] then phase
      else case vget (PDict []) raw ''status'' of
          PDict status \<Rightarrow> py_str (vget (PStr []) status ''phase'')
        | _ \<Rightarrow> [])"

definition extract_spec :: "pod_object option \<Rightarrow> pydict \<Rightarrow> pydict option" where
  "extract_spec ob raw =
     (case dget raw ''spec'' of
        Some (PDict d) \<Rightarrow> Some d
      | _ \<Rightarrow> Option.bind ob po_spec)"

definition extract_resource_version :: "pod_object option \<Rightarrow> pydict \<Rightarrow> str" where
  "extract_resource_version ob raw =
     (let rv = or_str (Option.bind (Option.bind ob po_meta) km_version) [] in
      if rv \<noteq> [] then rv
      else case vget (PDict []) raw ''metadata'' of
          PDict metadata \<Rightarrow> py_str (vget (PStr []) metadata ''resourceVersion'')
        | _ \<Rightarrow> [])"

text \<open>\<open>json.dumps(spec, sort_keys=True)\<close>\<close>

function json_sorted :: "pyval \<Rightarrow> str" where
  "json_sorted PNone = ''null''"
| "json_sorted (PBool b) = (if b then ''true'' else ''false'')"
| "json_sorted (PInt n) = show_int n"
| "json_sorted (PStr s) = json_text s"
| "json_sorted (PList xs) = ''['' @ join '', '' (map json_sorted xs) @ '']''"
| "json_sorted (PDict d) =
     ''{'' @ join '', '' (map (\<lambda>(k, v). json_text k @ '': '' @ json_sorted v) (sort_key fst d)) @ ''}''"
  by pat_completeness auto
termination
proof (relation "measure size", goal_cases)
  case (2 xs x)
  then show ?case by (simp add: size_list_estimation' less_Suc_eq_le)
next
  case (3 d p k v)
  then have "(k, v) \<in> set d" by simp
  then have "size v < Suc (size_list (size_prod (\<lambda>_. 0) size) d)"
  proof (induction d)
    case (Cons a d)
    then show ?case by (cases a) auto
  qed simp
  then show ?case by simp
qed simp

definition hash_spec :: "pydict \<Rightarrow> str" where
  "hash_spec spec = sha256_hex (json_sorted (PDict spec))"

definition build_phase_event ::
  "str \<Rightarrow> str \<Rightarrow> str \<Rightarrow> str \<Rightarrow> str \<Rightarrow> str option \<Rightarrow> instant \<Rightarrow> event_record" where
  "build_phase_event event_id cluster_id namespace name phase prev_phase at =
     \<lparr>ev_source = POD_PHASE,
      ev_severity = (case dget PHASE_SEVERITY phase of Some s \<Rightarrow> s | None \<Rightarrow> WARNING),
      ev_reason = ''PhaseTransition'',
      ev_message = ''Pod '' @ namespace @ ''/'' @ name @ '' transitioned from ''
        @ or_str prev_phase ''None'' @ '' to '' @ phase,
      ev_namespace = namespace, ev_kind = ''Pod'', ev_name = name, ev_first_seen = at, ev_last_seen = at,
      ev_id = event_id, ev_cluster_id = cluster_id, ev_labels = [], ev_count = 1\<rparr>"

datatype emission = PhaseEvent event_record | SpecSnapshot resource_snapshot

record pod_watcher =
  pw_phases :: "(str \<times> str, str) dict"
  pw_spec_hashes :: "(str \<times> str, str) dict"

definition pod_handle :: "str \<Rightarrow> pod_object watch_event \<Rightarrow> pod_watcher \<Rightarrow> emission list \<times> pod_watcher" where
  "pod_handle cluster_id e w =
     (case pod_key (we_object e) (we_raw e) of
        None \<Rightarrow> ([], w)
      | Some key \<Rightarrow>
          if we_type e = ''DELETED'' then
            ([], w\<lparr>pw_phases := dpop key (pw_phases w), pw_spec_hashes := dpop key (pw_spec_hashes w)\<rparr>)
          else
            let (namespace, name) = key;
                phase = extract_phase (we_object e) (we_raw e);
                prev_phase = dget (pw_phases w) key;
                (out1, w1) =
                  (if phase \<noteq> [] \<and> Some phase \<noteq> prev_phase
                   then ([PhaseEvent (build_phase_event (we_ids e 0) cluster_id namespace name phase
                            prev_phase (we_now e))],
                         w\<lparr>pw_phases := dset key phase (pw_phases w)\<rparr>)
                   else ([], w));
                (out2, w2) =
                  (case extract_spec (we_object e) (we_raw e) of
                     Some spec \<Rightarrow>
                       if spec \<noteq> [] \<and> Some (hash_spec spec) \<noteq> dget (pw_spec_hashes w1) key
                       then ([SpecSnapshot \<lparr>sn_kind = ''Pod'', sn_namespace = namespace, sn_name = name,
                                sn_spec_hash = hash_spec spec, sn_spec = spec, sn_captured_at = we_now e,
                                sn_resource_version = extract_resource_version (we_object e) (we_raw e)\<rparr>],
                             w1\<lparr>pw_spec_hashes := dset key (hash_spec spec) (pw_spec_hashes w1)\<rparr>)
                       else ([], w1)
                   | None \<Rightarrow> ([], w1))
            in (out1 @ out2, w2))"

text \<open>The reference: a machine that watches one pod and remembers its last phase and hash.\<close>

definition pod_react ::
  "str \<Rightarrow> str \<times> str \<Rightarrow> pod_object watch_event \<Rightarrow> str option \<times> str option
   \<Rightarrow> emission list \<times> str option \<times> str option" where
  "pod_react cluster_id key e mem =
     (if pod_key (we_object e) (we_raw e) \<noteq> Some key then ([], mem)
      else if we_type e = ''DELETED'' then ([], None, None)
      else
        let phase = extract_phase (we_object e) (we_raw e);
            changed = phase \<noteq> [] \<and> Some phase \<noteq> fst mem;
            spec = (case extract_spec (we_object e) (we_raw e) of None \<Rightarrow> [] | Some d \<Rightarrow> d);
            respecified = spec \<noteq> [] \<and> Some (hash_spec spec) \<noteq> snd mem
        in ((if changed then [PhaseEvent (build_phase_event (we_ids e 0) cluster_id (fst key) (snd key) phase
               (fst mem) (we_now e))] else [])
            @ (if respecified then [SpecSnapshot \<lparr>sn_kind = ''Pod'', sn_namespace = fst key, sn_name = snd key,
                 sn_spec_hash = hash_spec spec, sn_spec = spec, sn_captured_at = we_now e,
                 sn_resource_version = extract_resource_version (we_object e) (we_raw e)\<rparr>] else []),
            if changed then Some phase else fst mem,
            if respecified then Some (hash_spec spec) else snd mem))"

fun emission_key :: "emission \<Rightarrow> str \<times> str" where
  "emission_key (PhaseEvent r) = (ev_namespace r, ev_name r)"
| "emission_key (SpecSnapshot s) = (sn_namespace s, sn_name s)"

lemma build_phase_event_key [simp]:
  "ev_namespace (build_phase_event i c ns n p q t) = ns" "ev_name (build_phase_event i c ns n p q t) = n"
  by (simp_all add: build_phase_event_def)

lemma pod_handle_react:
  assumes "pod_key (we_object e) (we_raw e) = Some k"
  shows "fst (pod_handle cluster_id e w) = fst (pod_react cluster_id k e (dget (pw_phases w) k, dget (pw_spec_hashes w) k))"
    and "(dget (pw_phases (snd (pod_handle cluster_id e w))) k, dget (pw_spec_hashes (snd (pod_handle cluster_id e w))) k)
      = snd (pod_react cluster_id k e (dget (pw_phases w) k, dget (pw_spec_hashes w) k))"
    and "key \<noteq> k \<Longrightarrow> dget (pw_phases (snd (pod_handle cluster_id e w))) key = dget (pw_phases w) key"
    and "key \<noteq> k \<Longrightarrow> dget (pw_spec_hashes (snd (pod_handle cluster_id e w))) key = dget (pw_spec_hashes w) key"
proof -
  obtain namespace name where k: "k = (namespace, name)" by (cases k)
  let ?changed = "extract_phase (we_object e) (we_raw e) \<noteq> []
      \<and> Some (extract_phase (we_object e) (we_raw e)) \<noteq> dget (pw_phases w) k"
  note defs = pod_handle_def pod_react_def Let_def assms option.case prod.case fst_conv snd_conv k
  show "fst (pod_handle cluster_id e w) = fst (pod_react cluster_id k e (dget (pw_phases w) k, dget (pw_spec_hashes w) k))"
    by (cases "we_type e = ''DELETED''"; cases ?changed; cases "extract_spec (we_object e) (we_raw e)")
       (auto simp: defs)
  show "(dget (pw_phases (snd (pod_handle cluster_id e w))) k, dget (pw_spec_hashes (snd (pod_handle cluster_id e w))) k)
      = snd (pod_react cluster_id k e (dget (pw_phases w) k, dget (pw_spec_hashes w) k))"
    by (cases "we_type e = ''DELETED''"; cases ?changed; cases "extract_spec (we_object e) (we_raw e)")
       (auto simp: defs)
  show "dget (pw_phases (snd (pod_handle cluster_id e w))) key = dget (pw_phases w) key"
    "dget (pw_spec_hashes (snd (pod_handle cluster_id e w))) key = dget (pw_spec_hashes w) key" if "key \<noteq> k"
    using that
    by (cases "we_type e = ''DELETED''"; cases ?changed; cases "extract_spec (we_object e) (we_raw e)";
        auto simp: defs)+
qed

lemma pod_react_keys: "x \<in> set (fst (pod_react cluster_id k e mem)) \<Longrightarrow> emission_key x = k"
  by (auto simp: pod_react_def Let_def split: if_splits)

interpretation pods: keyed_machine "pod_handle cluster_id" emission_key
  "\<lambda>w key. (dget (pw_phases w) key, dget (pw_spec_hashes w) key)" "pod_react cluster_id"
  for cluster_id
proof
  fix e :: "pod_object watch_event" and w :: pod_watcher and key cluster_id
  let ?mem = "\<lambda>k. (dget (pw_phases w) k, dget (pw_spec_hashes w) k)"
  show "filter (\<lambda>x. emission_key x = key) (fst (pod_handle cluster_id e w)) = fst (pod_react cluster_id key e (?mem key))"
  proof (cases "pod_key (we_object e) (we_raw e)")
    case (Some k)
    have "filter (\<lambda>x. emission_key x = key) (fst (pod_react cluster_id k e (?mem k))) =
        (if k = key then fst (pod_react cluster_id k e (?mem k)) else [])"
      using pod_react_keys [of _ cluster_id k e "?mem k"] by (auto intro!: filter_True filter_False)
    then show ?thesis
      unfolding pod_handle_react(1) [OF Some] by (auto simp: pod_react_def Some)
  qed (simp add: pod_handle_def pod_react_def)
  show "(dget (pw_phases (snd (pod_handle cluster_id e w))) key, dget (pw_spec_hashes (snd (pod_handle cluster_id e w))) key)
      = snd (pod_react cluster_id key e (?mem key))"
  proof (cases "pod_key (we_object e) (we_raw e)")
    case (Some k)
    show ?thesis
    proof (cases "key = k")
      case True
      show ?thesis unfolding True by (rule pod_handle_react(2) [OF Some])
    next
      case False
      then show ?thesis
        using Some pod_handle_react(3,4) [OF Some False] by (simp add: pod_react_def)
    qed
  qed (simp add: pod_handle_def pod_react_def)
qed

text \<open>
  C22: The pod watcher is one machine per pod: after any watch events, interleaved in any order, the
  records and snapshots emitted for a pod are those of the machine that sees this pod alone and
  remembers its last phase and specification hash since the pod was last deleted.
\<close>
theorem pod_watcher_per_pod:
  "filter (\<lambda>x. emission_key x = key) (fst (steps (pod_handle cluster_id) es \<lparr>pw_phases = [], pw_spec_hashes = []\<rparr>)) =
   fst (steps (pod_react cluster_id key) es (None, None))"
  using pods.steps_output [of key cluster_id es "\<lparr>pw_phases = [], pw_spec_hashes = []\<rparr>"] by simp

subsection \<open>Nodes (node_watcher.py)\<close>

definition WATCHED_CONDITIONS :: "str list" where
  "WATCHED_CONDITIONS = [''Ready'', ''MemoryPressure'', ''DiskPressure'', ''PIDPressure'']"

definition CONDITION_SEVERITY :: "(str, severity) dict" where
  "CONDITION_SEVERITY = [(''NotReady'', CRITICAL), (''MemoryPressure'', WARNING), (''DiskPressure'', WARNING),
     (''PIDPressure'', WARNING)]"

record node_condition =
  nc_type :: str
  nc_status :: str
  nc_reason :: str
  nc_message :: str

text \<open>A condition of the deserialized object: its four attributes.\<close>

type_synonym v1_condition = "str option \<times> str option \<times> str option \<times> str option"

record node_object =
  no_meta :: "k8s_meta option"
  no_conditions :: "v1_condition list option"

definition extract_node_name :: "node_object option \<Rightarrow> pydict \<Rightarrow> str" where
  "extract_node_name ob raw =
     (let name = or_str (Option.bind (Option.bind ob no_meta) km_name) [] in
      if name \<noteq> [] then name
      else case vget (PDict []) raw ''metadata'' of
          PDict metadata \<Rightarrow> py_str (vget (PStr []) metadata ''name'')
        | _ \<Rightarrow> [])"

definition read_condition :: "v1_condition \<Rightarrow> node_condition" where
  "read_condition c =
     (case c of (t, s, r, m) \<Rightarrow>
        \<lparr>nc_type = or_str t [], nc_status = or_str s [], nc_reason = or_str r [], nc_message = or_str m []\<rparr>)"

definition raw_condition :: "pydict \<Rightarrow> node_condition" where
  "raw_condition c =
     \<lparr>nc_type = py_str (vget (PStr []) c ''type''), nc_status = py_str (vget (PStr []) c ''status''),
      nc_reason = py_str (vget (PStr []) c ''reason''), nc_message = py_str (vget (PStr []) c ''message'')\<rparr>"

definition extract_conditions :: "node_object option \<Rightarrow> pydict \<Rightarrow> node_condition list" where
  "extract_conditions ob raw =
     (case Option.bind ob no_conditions of
        Some (c # cs) \<Rightarrow> map read_condition (c # cs)
      | _ \<Rightarrow>
          (case vget (PDict []) raw ''status'' of
             PDict status \<Rightarrow>
               concat (map (\<lambda>c. case c of PDict d \<Rightarrow> [raw_condition d] | _ \<Rightarrow> [])
                 (list_or_empty (vget (PList []) status ''conditions'')))
           | _ \<Rightarrow> []))"

definition classify_condition :: "str \<Rightarrow> str \<Rightarrow> str \<times> bool" where
  "classify_condition cond_type cond_status =
     (if cond_type = ''Ready'' then (''NotReady'', cond_status \<noteq> ''True'')
      else (cond_type, cond_status = ''True''))"

definition build_condition_event :: "str \<Rightarrow> str \<Rightarrow> str \<Rightarrow> str \<Rightarrow> str \<Rightarrow> instant \<Rightarrow> event_record" where
  "build_condition_event event_id cluster_id node_name reason_key message at =
     \<lparr>ev_source = NODE_CONDITION,
      ev_severity = (case dget CONDITION_SEVERITY reason_key of Some s \<Rightarrow> s | None \<Rightarrow> WARNING),
      ev_reason = reason_key,
      ev_message = (if message \<noteq> [] then message
        else ''Node '' @ node_name @ '' condition '' @ reason_key @ '' is active''),
      ev_namespace = [], ev_kind = ''Node'', ev_name = node_name, ev_first_seen = at, ev_last_seen = at,
      ev_id = event_id, ev_cluster_id = cluster_id, ev_labels = [], ev_count = 1\<rparr>"

type_synonym condition_states = "(str \<times> str, str) dict"

text \<open>One condition of the loop: its number, for the id of the record, and the condition.\<close>

definition node_condition_step ::
  "str \<Rightarrow> instant \<Rightarrow> (nat \<Rightarrow> str) \<Rightarrow> str \<Rightarrow> nat \<times> node_condition \<Rightarrow> condition_states
   \<Rightarrow> event_record list \<times> condition_states" where
  "node_condition_step cluster_id now ids node_name ic states =
     (let (i, cond) = ic; state_key = (node_name, nc_type cond);
          (reason_key, is_adverse) = classify_condition (nc_type cond) (nc_status cond)
      in if nc_type cond \<notin> set WATCHED_CONDITIONS then ([], states)
         else if dget states state_key \<noteq> Some (nc_status cond)
         then (if is_adverse
                 then [build_condition_event (ids i) cluster_id node_name reason_key (nc_message cond) now]
                 else [],
               dset state_key (nc_status cond) states)
         else ([], states))"

definition node_handle :: "str \<Rightarrow> node_object watch_event \<Rightarrow> condition_states \<Rightarrow> event_record list \<times> condition_states" where
  "node_handle cluster_id e states =
     (let node_name = extract_node_name (we_object e) (we_raw e) in
      if node_name = [] then ([], states)
      else if we_type e = ''DELETED'' then ([], filter (\<lambda>((n, t), s). n \<noteq> node_name) states)
      else steps (node_condition_step cluster_id (we_now e) (we_ids e) node_name)
        (enumerate 0 (extract_conditions (we_object e) (we_raw e))) states)"

text \<open>The reference: a machine that watches one condition of one node and remembers its status.\<close>

definition condition_react ::
  "str \<Rightarrow> instant \<Rightarrow> (nat \<Rightarrow> str) \<Rightarrow> str \<times> str \<Rightarrow> nat \<times> node_condition \<Rightarrow> str option
   \<Rightarrow> event_record list \<times> str option" where
  "condition_react cluster_id now ids key ic mem =
     (let (i, cond) = ic in
      if nc_type cond = snd key \<and> snd key \<in> set WATCHED_CONDITIONS \<and> mem \<noteq> Some (nc_status cond)
      then (if snd (classify_condition (nc_type cond) (nc_status cond))
              then [build_condition_event (ids i) cluster_id (fst key)
                      (fst (classify_condition (nc_type cond) (nc_status cond))) (nc_message cond) now]
              else [],
            Some (nc_status cond))
      else ([], mem))"

definition node_react ::
  "str \<Rightarrow> str \<times> str \<Rightarrow> node_object watch_event \<Rightarrow> str option \<Rightarrow> event_record list \<times> str option" where
  "node_react cluster_id key e mem =
     (let node_name = extract_node_name (we_object e) (we_raw e) in
      if node_name = [] \<or> node_name \<noteq> fst key then ([], mem)
      else if we_type e = ''DELETED'' then ([], None)
      else steps (condition_react cluster_id (we_now e) (we_ids e) key)
        (enumerate 0 (extract_conditions (we_object e) (we_raw e))) mem)"

definition condition_key :: "event_record \<Rightarrow> str \<times> str" where
  "condition_key r = (ev_name r, if ev_reason r = ''NotReady'' then ''Ready'' else ev_reason r)"

lemma build_condition_event_key [simp]:
  "ev_name (build_condition_event i c n r m t) = n" "ev_reason (build_condition_event i c n r m t) = r"
  by (simp_all add: build_condition_event_def)

text \<open>The conditions of one node, seen from a key of that node and from a key of another.\<close>

interpretation conditions: keyed_machine "node_condition_step cluster_id now ids node_name" condition_key dget
  "\<lambda>key ic mem. if fst key = node_name then condition_react cluster_id now ids key ic mem else ([], mem)"
  for cluster_id now ids node_name
proof
  fix ic :: "nat \<times> node_condition" and states :: condition_states and key :: "str \<times> str"
    and cluster_id node_name :: str and now :: instant and ids :: "nat \<Rightarrow> str"
  obtain i cond where ic: "ic = (i, cond)" by (cases ic)
  obtain reason adverse where cls: "classify_condition (nc_type cond) (nc_status cond) = (reason, adverse)"
    by fastforce
  let ?key = "(node_name, nc_type cond)"
  have step: "node_condition_step cluster_id now ids node_name ic states =
      (let (out, mem) = condition_react cluster_id now ids ?key ic (dget states ?key) in
       (out, if mem = dget states ?key then states else dset ?key (nc_status cond) states))"
    unfolding node_condition_step_def condition_react_def ic Let_def cls prod.case fst_conv snd_conv by auto
  have keys: "condition_key r = ?key"
    if "r \<in> set (fst (condition_react cluster_id now ids ?key ic (dget states ?key)))" for r
    using that cls by (auto simp: condition_react_def ic classify_condition_def condition_key_def
        WATCHED_CONDITIONS_def split: if_splits)
  have other: "condition_react cluster_id now ids key ic mem = ([], mem)" if "nc_type cond \<noteq> snd key" for mem
    using that by (simp add: condition_react_def ic)
  let ?react = "if fst key = node_name then condition_react cluster_id now ids key ic (dget states key) else ([], dget states key)"
  show "filter (\<lambda>r. condition_key r = key) (fst (node_condition_step cluster_id now ids node_name ic states)) = fst ?react"
  proof (cases "key = ?key")
    case True
    then show ?thesis using keys by (auto simp: step case_prod_beta intro!: filter_True)
  next
    case False
    then have "fst ?react = []" using other by (cases key) auto
    moreover have "filter (\<lambda>r. condition_key r = key) (fst (node_condition_step cluster_id now ids node_name ic states)) = []"
      using keys False by (auto simp: step case_prod_beta intro!: filter_False)
    ultimately show ?thesis by simp
  qed
  show "dget (snd (node_condition_step cluster_id now ids node_name ic states)) key = snd ?react"
  proof (cases "key = ?key")
    case True
    then show ?thesis
      unfolding step by (auto simp: case_prod_beta condition_react_def ic)
  next
    case False
    then have "snd ?react = dget states key" using other by (cases key) auto
    then show ?thesis using False by (auto simp: step case_prod_beta)
  qed
qed

lemma steps_idle: "(\<And>e s. step e s = ([], s)) \<Longrightarrow> steps step es s = ([], s)"
  by (induction es) simp_all

lemma dget_filter_key: "dget (filter (\<lambda>((n, t), s). n \<noteq> node) d) key = (if fst key = node then None else dget d key)"
  by (induction d) (auto split: if_splits)

interpretation nodes: keyed_machine "node_handle cluster_id" condition_key dget "node_react cluster_id"
  for cluster_id
proof
  fix e :: "node_object watch_event" and states :: condition_states and key cluster_id
  let ?node = "extract_node_name (we_object e) (we_raw e)"
  let ?conds = "enumerate 0 (extract_conditions (we_object e) (we_raw e))"
  note view = conditions.steps_view [of cluster_id "we_now e" "we_ids e" ?node ?conds states key]
  note outs = conditions.steps_output [of key cluster_id "we_now e" "we_ids e" ?node ?conds states]
  show "filter (\<lambda>r. condition_key r = key) (fst (node_handle cluster_id e states)) = fst (node_react cluster_id key e (dget states key))"
    by (cases "fst key = ?node")
       (auto simp: node_handle_def node_react_def Let_def outs steps_idle)
  show "dget (snd (node_handle cluster_id e states)) key = snd (node_react cluster_id key e (dget states key))"
    by (cases "fst key = ?node")
       (auto simp: node_handle_def node_react_def Let_def view steps_idle dget_filter_key)
qed

text \<open>
  The node watcher is one machine per node and condition: the records emitted for a condition of a
  node, among any other events, are those of the machine that sees this condition alone and emits when
  its status changes to an adverse one, starting afresh when the node is deleted.
\<close>
theorem node_watcher_per_condition:
  "filter (\<lambda>r. condition_key r = key) (fst (steps (node_handle cluster_id) es [])) =
   fst (steps (node_react cluster_id key) es None)"
  using nodes.steps_output [of key cluster_id es "[]"] by simp

end
