(* ===== verification/Coordinator.thy ===== *)
theory Coordinator
  imports RuleRegistry DependencyGraph LlmAnalyzer Watchers
begin

text \<open>
  \<open>kuberca/analyst/coordinator.py\<close>: one analysis, from the request strings to the response, composed of
  the cache, the event buffer, the rule engine, the ledger, the dependency graph and the LLM analyzer
  of the other theories.  One clock reading serves a whole analysis.  The cache has neither
  \<open>warming_kinds\<close> nor \<open>staleness_warnings\<close>; they are the optional arguments of the functions that ask
  for them.  A container message that is not a string is rendered by \<open>str\<close>.  An analysis that lets an
  exception through returns it.
\<close>

subsection \<open>Requests\<close>

definition KIND_ALIASES :: "(str, str) dict" where
  "KIND_ALIASES =
     [(''pod'', ''Pod''), (''pods'', ''Pod''), (''po'', ''Pod''), (''deployment'', ''Deployment''),
      (''deployments'', ''Deployment''), (''deploy'', ''Deployment''), (''statefulset'', ''StatefulSet''),
      (''statefulsets'', ''StatefulSet''), (''sts'', ''StatefulSet''), (''daemonset'', ''DaemonSet''),
      (''daemonsets'', ''DaemonSet''), (''ds'', ''DaemonSet''), (''service'', ''Service''),
      (''services'', ''Service''), (''svc'', ''Service''), (''node'', ''Node''), (''nodes'', ''Node''),
      (''job'', ''Job''), (''jobs'', ''Job''), (''cronjob'', ''CronJob''), (''cronjobs'', ''CronJob''),
      (''ingress'', ''Ingress''), (''ingresses'', ''Ingress''), (''ing'', ''Ingress''),
      (''hpa'', ''HorizontalPodAutoscaler''), (''horizontalpodautoscaler'', ''HorizontalPodAutoscaler''),
      (''horizontalpodautoscalers'', ''HorizontalPodAutoscaler''), (''replicaset'', ''ReplicaSet''),
      (''replicasets'', ''ReplicaSet''), (''rs'', ''ReplicaSet''),
      (''persistentvolumeclaim'', ''PersistentVolumeClaim''),
      (''persistentvolumeclaims'', ''PersistentVolumeClaim''), (''pvc'', ''PersistentVolumeClaim''),
      (''namespace'', ''Namespace''), (''namespaces'', ''Namespace''), (''ns'', ''Namespace''),
      (''configmap'', ''ConfigMap''), (''configmaps'', ''ConfigMap''), (''cm'', ''ConfigMap''),
      (''secret'', ''Secret''), (''secrets'', ''Secret''), (''networkpolicy'', ''NetworkPolicy''),
      (''networkpolicies'', ''NetworkPolicy''), (''netpol'', ''NetworkPolicy''),
      (''persistentvolume'', ''PersistentVolume''), (''persistentvolumes'', ''PersistentVolume''),
      (''pv'', ''PersistentVolume''), (''resourcequota'', ''ResourceQuota''),
      (''resourcequotas'', ''ResourceQuota''), (''quota'', ''ResourceQuota'')]"

definition ACCEPTED_KINDS :: "str list" where
  "ACCEPTED_KINDS = py_sorted (\<lambda>k. k) (remdups (map snd KIND_ALIASES))"

record format_error =
  fe_message :: str
  fe_code :: str

definition less_equal_sign :: str where "less_equal_sign = [CHR 0xE2, CHR 0x89, CHR 0xA4]"

definition parse_resource :: "str \<Rightarrow> format_error + rkey" where
  "parse_resource resource =
     (case split_on (CHR ''/'') resource of
        [raw_kind, namespace, name] \<Rightarrow>
          (case dget KIND_ALIASES (lower raw_kind) of
             None \<Rightarrow> Inl \<lparr>fe_message = ''Unknown resource kind: '' @ py_repr raw_kind @ ''. Accepted kinds: ''
                 @ val_repr (PList (map PStr ACCEPTED_KINDS)), fe_code = ''UNKNOWN_RESOURCE_KIND''\<rparr>
           | Some kind \<Rightarrow>
               if namespace = [] \<or> name = [] then
                 Inl \<lparr>fe_message = ''namespace and name must not be empty'', fe_code = ''INVALID_RESOURCE_FORMAT''\<rparr>
               else if 253 < length namespace \<or> 253 < length name then
                 Inl \<lparr>fe_message = ''namespace and name must be '' @ less_equal_sign @ ''253 characters'',
                      fe_code = ''INVALID_RESOURCE_FORMAT''\<rparr>
               else Inr (kind, namespace, name))
      | _ \<Rightarrow> Inl \<lparr>fe_message = ''Resource must be in kind/namespace/name format, got: '' @ py_repr resource,
                fe_code = ''INVALID_RESOURCE_FORMAT''\<rparr>)"

definition canonical :: "rkey \<Rightarrow> str" where
  "canonical key = (case key of (kind, namespace, name) \<Rightarrow> kind @ ''/'' @ namespace @ ''/'' @ name)"

text \<open>The division of an integer by 60 overflows when the quotient rounds to \<open>2 ^ 1024\<close>.\<close>

definition exceeds_day :: "nat \<Rightarrow> char \<Rightarrow> py_exn + bool" where
  "exceeds_day value unit =
     (if unit = CHR ''h'' then Inr (24 < value)
      else if unit = CHR ''m'' then
        if 60 * (2 ^ 1024 - 2 ^ 970) \<le> value then Inl OverflowError else Inr (24 * dbl_unit < dlit (int value) 60)
      else Inr (24 < value * 24))"

text \<open>\<open>Inr (Some msg)\<close> is a \<open>TimeWindowFormatError\<close>, \<open>Inl\<close> another exception.\<close>

definition validate_time_window :: "str \<Rightarrow> py_exn + str option" where
  "validate_time_window time_window =
     (case duration_parts time_window of
        None \<Rightarrow> Inr (Some (''Invalid time_window format: '' @ py_repr time_window @ ''. Must match [0-9]+(m|h|d).''))
      | Some (Inl e) \<Rightarrow> Inl e
      | Some (Inr (value, unit)) \<Rightarrow>
          (case exceeds_day value unit of
             Inl e \<Rightarrow> Inl e
           | Inr False \<Rightarrow> Inr None
           | Inr True \<Rightarrow> Inr (Some (''time_window '' @ py_repr time_window @ '' exceeds maximum of 24h.''))))"

subsection \<open>Responses\<close>

definition KUBERCA_VERSION :: str where "KUBERCA_VERSION = ''0.1.2''"
definition SCHEMA_VERSION :: str where "SCHEMA_VERSION = ''1''"

definition affected_key :: "affected_resource \<Rightarrow> rkey" where
  "affected_key r = (ar_kind r, ar_namespace r, ar_name r)"

fun dedup_affected :: "rkey list \<Rightarrow> affected_resource list \<Rightarrow> affected_resource list" where
  "dedup_affected seen [] = []"
| "dedup_affected seen (r # rs) =
     (if affected_key r \<in> set seen then dedup_affected seen rs
      else r # dedup_affected (affected_key r # seen) rs)"

definition dedup_affected_resources :: "affected_resource list \<Rightarrow> affected_resource list" where
  "dedup_affected_resources rs = dedup_affected [] rs"

definition make_meta :: "instant \<Rightarrow> int \<Rightarrow> str \<Rightarrow> cache_readiness \<Rightarrow> str list \<Rightarrow> response_meta" where
  "make_meta now ms cluster_id readiness warnings =
     \<lparr>rm_version = KUBERCA_VERSION, rm_schema = SCHEMA_VERSION, rm_cluster_id = cluster_id,
      rm_timestamp = iso_millis now, rm_response_time_ms = ms, rm_cache_state = readiness_value readiness, rm_warnings = warnings\<rparr>"

definition readiness_warnings :: "cache_readiness \<Rightarrow> str list" where
  "readiness_warnings r =
     (case r of
        DEGRADED \<Rightarrow> [''Cache degraded: data may be stale'']
      | PARTIALLY_READY \<Rightarrow> [''Cache partially ready: controller hierarchy may be stale'']
      | _ \<Rightarrow> [])"

definition rule_result_to_rca_response ::
  "instant \<Rightarrow> int \<Rightarrow> rule_result \<Rightarrow> cache_readiness \<Rightarrow> eval_meta \<Rightarrow> str \<Rightarrow> rca_response" where
  "rule_result_to_rca_response now ms result readiness meta cluster_id =
     (let confidence =
            (case readiness of
               DEGRADED \<Rightarrow> dsub (rr_confidence result) (dlit 10 100)
             | PARTIALLY_READY \<Rightarrow> dsub (rr_confidence result) (dlit 15 100)
             | _ \<Rightarrow> rr_confidence result)
      in \<lparr>rs_root_cause = rr_root_cause result, rs_confidence = max 0 (min confidence (dlit 95 100)),
          rs_diagnosed_by = RULE_ENGINE, rs_rule_id = Some (rr_rule_id result),
          rs_evidence = py_sorted_desc ei_timestamp (rr_evidence result),
          rs_affected = dedup_affected_resources (rr_affected result), rs_blast_radius = None,
          rs_remediation = rr_remediation result,
          rs_meta = make_meta now ms cluster_id readiness (readiness_warnings readiness @ em_warnings meta)\<rparr>)"

text \<open>\<open>citation.split(" ", 1)\<close>\<close>

definition citation_item :: "str \<Rightarrow> evidence_item" where
  "citation_item citation =
     (let timestamp = takeWhile (\<lambda>c. c \<noteq> CHR '' '') citation;
          rest = dropWhile (\<lambda>c. c \<noteq> CHR '' '') citation
      in \<lparr>ei_type = EVENT, ei_timestamp = timestamp,
          ei_summary = (case rest of [] \<Rightarrow> citation | _ # summary \<Rightarrow> summary)\<rparr>)"

definition llm_result_to_rca_response ::
  "instant \<Rightarrow> int \<Rightarrow> llm_result \<Rightarrow> cache_readiness \<Rightarrow> eval_meta \<Rightarrow> str \<Rightarrow> rca_response" where
  "llm_result_to_rca_response now ms result readiness meta cluster_id =
     (let confidence = (if readiness = DEGRADED then dsub (lr_confidence result) (dlit 10 100)
            else lr_confidence result)
      in \<lparr>rs_root_cause = lr_root_cause result, rs_confidence = max 0 (min confidence (dlit 70 100)),
          rs_diagnosed_by = LLM, rs_rule_id = None, rs_evidence = map citation_item (lr_citations result),
          rs_affected = dedup_affected_resources (lr_affected result), rs_blast_radius = None,
          rs_remediation = lr_remediation result,
          rs_meta = make_meta now ms cluster_id readiness
            (readiness_warnings readiness @ em_warnings meta
             @ (if 0 < lr_retries result then [''LLM retries used: '' @ show_nat (lr_retries result)] else []))\<rparr>)"

definition inconclusive_response :: "instant \<Rightarrow> int \<Rightarrow> str \<Rightarrow> cache_readiness \<Rightarrow> str list \<Rightarrow> str \<Rightarrow> rca_response" where
  "inconclusive_response now ms root_cause readiness warnings cluster_id =
     \<lparr>rs_root_cause = root_cause, rs_confidence = 0, rs_diagnosed_by = INCONCLUSIVE, rs_rule_id = None,
      rs_evidence = [], rs_affected = [], rs_blast_radius = None, rs_remediation = [],
      rs_meta = make_meta now ms cluster_id readiness warnings\<rparr>"

subsection \<open>Events\<close>

definition status_event ::
  "str \<Rightarrow> event_source \<Rightarrow> severity \<Rightarrow> str \<Rightarrow> pyval \<Rightarrow> str \<Rightarrow> str \<Rightarrow> str \<Rightarrow> instant \<Rightarrow> event_record" where
  "status_event event_id src sev reason message cluster_id namespace name now =
     \<lparr>ev_source = src, ev_severity = sev, ev_reason = reason, ev_message = py_str message,
      ev_namespace = namespace, ev_kind = ''Pod'', ev_name = name, ev_first_seen = now, ev_last_seen = now,
      ev_id = event_id, ev_cluster_id = cluster_id, ev_labels = [], ev_count = 1\<rparr>"

text \<open>\<open>x.get(key) if isinstance(x, dict) else None\<close>\<close>

definition sub_get :: "pyval \<Rightarrow> str \<Rightarrow> pyval" where
  "sub_get x key = (case x of PDict d \<Rightarrow> vget PNone d key | _ \<Rightarrow> PNone)"

definition py_or :: "pyval \<Rightarrow> pyval \<Rightarrow> pyval" where
  "py_or a b = (if truthy a then a else b)"

text \<open>The reason and message of a state that counts, as the events they give without their ids.\<close>

definition state_reason :: "str list \<Rightarrow> str \<Rightarrow> pyval \<Rightarrow> (str \<times> pyval) option" where
  "state_reason reasons label st =
     (case st of
        PDict d \<Rightarrow>
          (case vget (PStr []) d ''reason'' of
             PStr reason \<Rightarrow>
               if reason \<in> set reasons then Some (reason, vget (PStr (label @ reason)) d ''message'') else None
           | _ \<Rightarrow> None)
      | _ \<Rightarrow> None)"

definition OOM_REASONS :: "str list" where "OOM_REASONS = [''OOMKilled'', ''OOMKilling'']"
definition WAITING_REASONS :: "str list" where
  "WAITING_REASONS = [''CrashLoopBackOff'', ''ImagePullBackOff'', ''ErrImagePull'']"

type_synonym status_finding = "event_source \<times> severity \<times> str \<times> pyval"

definition waiting_finding :: "str \<Rightarrow> pydict \<Rightarrow> status_finding list" where
  "waiting_finding label cs =
     (case state_reason WAITING_REASONS label (sub_get (vget (PDict []) cs ''state'') ''waiting'') of
        Some (reason, message) \<Rightarrow> [(CORE_EVENT, ERROR, reason, message)]
      | None \<Rightarrow> [])"

definition container_findings :: "pyval \<Rightarrow> status_finding list" where
  "container_findings c =
     (case c of
        PDict cs \<Rightarrow>
          let st = vget (PDict []) cs ''state'';
              last_state = py_or (vget PNone cs ''lastState'') (vget (PDict []) cs ''last_state'');
              terminated = py_or (sub_get st ''terminated'') (sub_get last_state ''terminated'')
          in (case state_reason OOM_REASONS ''Container terminated: '' terminated of
                Some (reason, message) \<Rightarrow> [(POD_PHASE, CRITICAL, reason, message)]
              | None \<Rightarrow> [])
             @ waiting_finding ''Container waiting: '' cs
      | _ \<Rightarrow> [])"

definition init_findings :: "pyval \<Rightarrow> status_finding list" where
  "init_findings c = (case c of PDict cs \<Rightarrow> waiting_finding ''Init container waiting: '' cs | _ \<Rightarrow> [])"

definition synthesise_status_events ::
  "instant \<Rightarrow> (nat \<Rightarrow> str) \<Rightarrow> str \<Rightarrow> str \<Rightarrow> str \<Rightarrow> str \<Rightarrow> rcache \<Rightarrow> event_record list \<times> rcache" where
  "synthesise_status_events now ids cluster_id kind namespace name c =
     (if kind \<noteq> ''Pod'' then ([], c)
      else case cache_get now kind namespace name c of
          (None, c1) \<Rightarrow> ([], c1)
        | (Some cached, c1) \<Rightarrow>
            let findings =
                  concat (map container_findings (list_or_empty (vget PNone (vw_status cached) ''containerStatuses'')))
                  @ concat (map init_findings (list_or_empty (vget PNone (vw_status cached) ''initContainerStatuses'')))
            in (map (\<lambda>(i, src, sev, reason, message).
                   status_event (ids i) src sev reason message cluster_id namespace name now)
                 (enumerate 0 findings), c1))"

text \<open>Newest first.\<close>

definition sorted_events :: "instant \<Rightarrow> rkey \<Rightarrow> event_record list \<Rightarrow> event_record list" where
  "sorted_events now key buf =
     (case key of (kind, namespace, name) \<Rightarrow>
        py_sorted_desc ev_last_seen (get_events now kind namespace name None buf))"

subsection \<open>Warnings\<close>

definition warming_warnings :: "(str + str list) option \<Rightarrow> str list" where
  "warming_warnings warming_kinds =
     (case warming_kinds of
        None \<Rightarrow> [''Cache is warming '' @ em_dash @ '' initial list calls in progress.'']
      | Some (Inl exc) \<Rightarrow> [''Cache is warming.'']
      | Some (Inr kinds) \<Rightarrow> if kinds \<noteq> [] then [''Waiting for initial list: '' @ join '', '' kinds] else [])"

definition degraded_warnings :: "(str + str list) option \<Rightarrow> str list" where
  "degraded_warnings staleness_warnings =
     (case staleness_warnings of
        None \<Rightarrow> [''Cache degraded: one or more resource kinds unavailable.'']
      | Some (Inl exc) \<Rightarrow> [''Cache degraded.'']
      | Some (Inr staleness) \<Rightarrow> staleness)"

subsection \<open>Evidence\<close>

text \<open>What one analysis runs on: the parts it reads, and the state it changes.\<close>

record llm_client =
  lc_server :: server
  lc_runtime :: runtime
  lc_config :: ollama_config
  lc_endpoint :: str

record coordinator =
  co_engine :: engine_env
  co_rules :: "rule list"
  co_buffer :: "event_record list"
  co_graph :: "graph option"
  co_llm :: "llm_client option"
  co_cluster_id :: str
  co_ids :: "nat \<Rightarrow> str"
  co_clock :: "int \<times> int"

abbreviation co_now :: "coordinator \<Rightarrow> instant" where
  "co_now env \<equiv> en_now (co_engine env)"

text \<open>\<open>co_clock\<close>: \<open>time.monotonic_ns()\<close> when the analysis starts and when it builds its response\<close>

definition elapsed_ms :: "coordinator \<Rightarrow> int" where
  "elapsed_ms env = snd (co_clock env) div 1000000 - fst (co_clock env) div 1000000"

definition get_container_statuses :: "instant \<Rightarrow> str \<Rightarrow> str \<Rightarrow> rcache \<Rightarrow> pydict list \<times> rcache" where
  "get_container_statuses now namespace name c =
     (case cache_get now ''Pod'' namespace name c of
        (None, c1) \<Rightarrow> ([], c1)
      | (Some v, c1) \<Rightarrow>
          (concat (map (\<lambda>x. case x of PDict d \<Rightarrow> [d] | _ \<Rightarrow> [])
             (list_or_empty (vget (PList []) (vw_status v) ''containerStatuses''))), c1))"

definition spec_entry :: "resource_view \<Rightarrow> pydict" where
  "spec_entry v =
     [(''kind'', PStr (vw_kind v)), (''namespace'', PStr (vw_namespace v)), (''name'', PStr (vw_name v)),
      (''spec'', PDict (vw_spec v)), (''status'', PDict (vw_status v))]"

definition get_resource_specs :: "instant \<Rightarrow> rkey \<Rightarrow> rcache \<Rightarrow> pydict list \<times> rcache" where
  "get_resource_specs now key c =
     (case key of (kind, namespace, name) \<Rightarrow>
        (case cache_get now kind namespace name c of
           (None, c1) \<Rightarrow> ([], c1)
         | (Some v, c1) \<Rightarrow> ([spec_entry v], c1)))"

definition get_ledger_changes :: "engine_env \<Rightarrow> rkey \<Rightarrow> str \<Rightarrow> field_change list" where
  "get_ledger_changes env key time_window =
     (case key of (kind, namespace, name) \<Rightarrow>
        (case parse_duration time_window of
           Inl e \<Rightarrow> []
         | Inr delta \<Rightarrow> ledger_diff (en_now env) (\<lambda>_. en_now env) kind namespace name (Some delta) None (en_ledger env)))"

definition event_resource :: "event_record \<Rightarrow> rkey" where
  "event_resource e = (ev_kind e, ev_namespace e, ev_name e)"

definition assemble_evidence ::
  "coordinator \<Rightarrow> event_record \<Rightarrow> event_record list \<Rightarrow> str \<Rightarrow> state_entry list \<Rightarrow> rcache
   \<Rightarrow> evidence_package \<times> rcache" where
  "assemble_evidence env incident all_events time_window context c =
     (let related = filter (\<lambda>e. ev_id e \<noteq> ev_id incident) all_events;
          changes = get_ledger_changes (co_engine env) (event_resource incident) time_window;
          (statuses, c1) = get_container_statuses (co_now env) (ev_namespace incident) (ev_name incident) c;
          (specs, c2) = get_resource_specs (co_now env) (event_resource incident) c1
      in (mk_evidence incident related changes statuses specs time_window context, c2))"

subsection \<open>The dependency graph\<close>

fun edge_value :: "edge_type \<Rightarrow> str" where
  "edge_value OWNER_REFERENCE = ''owner_reference''"
| "edge_value VOLUME_BINDING = ''volume_binding''"
| "edge_value CONFIG_REFERENCE = ''config_reference''"
| "edge_value SERVICE_SELECTOR = ''service_selector''"
| "edge_value NODE_ASSIGNMENT = ''node_assignment''"
| "edge_value QUOTA_SCOPE = ''quota_scope''"

fun edge_relationship :: "graph_edge list \<Rightarrow> str \<Rightarrow> str \<Rightarrow> graph_node \<Rightarrow> str" where
  "edge_relationship [] src_kind src_name target = []"
| "edge_relationship (e # es) src_kind src_name target =
     (if (gn_kind (ge_source e) = src_kind \<and> gn_name (ge_source e) = src_name
          \<and> gn_kind (ge_target e) = gn_kind target \<and> gn_name (ge_target e) = gn_name target)
        \<or> (gn_kind (ge_target e) = src_kind \<and> gn_name (ge_target e) = src_name
          \<and> gn_kind (ge_source e) = gn_kind target \<and> gn_name (ge_source e) = gn_name target)
      then edge_value (ge_type e) @ '' link between '' @ src_kind @ ''/'' @ src_name @ '' and ''
        @ gn_kind target @ ''/'' @ gn_name target
      else edge_relationship es src_kind src_name target)"

text \<open>The state of one related resource, read from the cache.\<close>

definition context_entry ::
  "instant \<Rightarrow> graph_node \<Rightarrow> str \<Rightarrow> rcache \<Rightarrow> state_entry \<times> rcache" where
  "context_entry now res relationship c =
     (let (cached, c1) = cache_get now (gn_kind res) (gn_namespace res) (gn_name res) c in
      (\<lparr>se_kind = gn_kind res, se_namespace = gn_namespace res, se_name = gn_name res,
        se_exists = cached \<noteq> None,
        se_status = (case cached of
            None \<Rightarrow> ''<not found>''
          | Some v \<Rightarrow>
              (let phase = vget (PStr []) (vw_status v) ''phase'' in
               if truthy phase then py_str phase else ''Active'')),
        se_relationship = relationship\<rparr>, c1))"

fun downstream_entries ::
  "instant \<Rightarrow> rkey \<Rightarrow> graph_edge list \<Rightarrow> graph_node list \<Rightarrow> rcache \<Rightarrow> state_entry list \<times> rcache" where
  "downstream_entries now key edges [] c = ([], c)"
| "downstream_entries now key edges (res # rs) c =
     (if node_key res = key then downstream_entries now key edges rs c
      else
        let (entry, c1) = context_entry now res (edge_relationship edges (fst key) (snd (snd key)) res) c;
            (entries, c2) = downstream_entries now key edges rs c1
        in (entry # entries, c2))"

definition entry_resource :: "state_entry \<Rightarrow> rkey" where
  "entry_resource e = (se_kind e, se_namespace e, se_name e)"

fun upstream_entries ::
  "instant \<Rightarrow> rkey \<Rightarrow> graph_edge list \<Rightarrow> graph_node list \<Rightarrow> state_entry list \<Rightarrow> rcache
   \<Rightarrow> state_entry list \<times> rcache" where
  "upstream_entries now key edges [] entries c = (entries, c)"
| "upstream_entries now key edges (res # rs) entries c =
     (if node_key res = key \<or> node_key res \<in> set (map entry_resource entries)
      then upstream_entries now key edges rs entries c
      else
        let rel = edge_relationship edges (fst key) (snd (snd key)) res;
            relationship = (if rel \<noteq> [] then rel
              else gn_kind res @ '' depends on '' @ fst key @ ''/'' @ snd (snd key));
            (entry, c1) = context_entry now res relationship c
        in upstream_entries now key edges rs (entries @ [entry]) c1)"

definition build_state_context :: "instant \<Rightarrow> graph option \<Rightarrow> rkey \<Rightarrow> rcache \<Rightarrow> state_entry list \<times> rcache" where
  "build_state_context now graph key c =
     (case graph of
        None \<Rightarrow> ([], c)
      | Some g \<Rightarrow>
          let down = downstream g key 2; up = upstream g key 1;
              (entries, c1) = downstream_entries now key (dr_edges down) (dr_resources down) c;
              (entries', c2) = upstream_entries now key (dr_edges up) (dr_resources up) entries c1
          in (take 10 entries', c2))"

definition compute_blast_radius :: "graph option \<Rightarrow> rkey \<Rightarrow> affected_resource list option" where
  "compute_blast_radius graph key =
     (case graph of
        None \<Rightarrow> None
      | Some g \<Rightarrow>
          let resources = map (\<lambda>res. affected (gn_kind res) (gn_namespace res) (gn_name res))
                (filter (\<lambda>res. node_key res \<noteq> key) (dr_resources (upstream g key 3)))
          in if resources \<noteq> [] then Some resources else None)"

subsection \<open>The pipeline\<close>

text \<open>The first event, in the given order, for which the engine answers.\<close>

fun first_match ::
  "engine_env \<Rightarrow> rule list \<Rightarrow> event_record list \<Rightarrow> eval_meta \<Rightarrow> rcache
   \<Rightarrow> (rule_result \<times> event_record) option \<times> eval_meta \<times> rcache" where
  "first_match env rules [] meta c = (None, meta, c)"
| "first_match env rules (e # es) meta c =
     (case evaluate env rules e c of
        (Some result, meta1, c1) \<Rightarrow> (Some (result, e), meta1, c1)
      | (None, meta1, c1) \<Rightarrow> first_match env rules es meta1 c1)"

text \<open>
  The quality loop with \<open>n\<close> retries left: the result, the retries made, and the last quality that was
  computed.
\<close>

fun quality_loop ::
  "llm_client \<Rightarrow> event_record \<Rightarrow> evidence_package \<Rightarrow> state_entry list \<Rightarrow> nat \<Rightarrow> nat \<Rightarrow> quality_result
   \<Rightarrow> llm_result \<Rightarrow> analyzer \<Rightarrow> (str + llm_result \<times> nat \<times> quality_result) \<times> analyzer" where
  "quality_loop llm event evidence context 0 retries quality result st = (Inr (result, retries, quality), st)"
| "quality_loop llm event evidence context (Suc n) retries quality0 result st =
     (let quality = quality_check result event context in
      if qr_passed quality then (Inr (result, retries, quality), st)
      else case analyze_with_quality_retry (lc_server llm) (lc_runtime llm) event evidence (qr_failures quality) st of
          (Inl exc, st1) \<Rightarrow> (Inl exc, st1)
        | (Inr retry, st1) \<Rightarrow>
            if lr_success retry
            then quality_loop llm event evidence context n (Suc retries) quality
              (retry\<lparr>lr_retries := lr_retries result + Suc retries\<rparr>) st1
            else (Inr (result, Suc retries, quality), st1))"

definition MAX_QUALITY_RETRIES :: nat where "MAX_QUALITY_RETRIES = 2"

definition no_quality :: quality_result where "no_quality = \<lparr>qr_passed = False, qr_failures = []\<rparr>"

text \<open>Step 7 after a successful first answer: the result with its penalty and the warnings.\<close>

definition settle_quality ::
  "llm_client \<Rightarrow> event_record \<Rightarrow> evidence_package \<Rightarrow> state_entry list \<Rightarrow> llm_result \<Rightarrow> analyzer
   \<Rightarrow> (str + llm_result \<times> str list) \<times> analyzer" where
  "settle_quality llm event evidence context result st =
     (case quality_loop llm event evidence context MAX_QUALITY_RETRIES 0 no_quality result st of
        (Inl exc, st1) \<Rightarrow> (Inl exc, st1)
      | (Inr (final, retries, quality), st1) \<Rightarrow>
          (Inr (if qr_passed quality then (final, [])
            else (final\<lparr>lr_confidence := min (lr_confidence final) (dlit 35 100)\<rparr>,
                  [''LLM quality check failed after '' @ show_nat retries @ '' retries: ''
                   @ join '', '' (qr_failures quality)])), st1))"

record co_state =
  cs_cache :: rcache
  cs_llm :: analyzer

type_synonym analysis = "(str + rca_response) \<times> co_state"

definition exn_text :: "py_exn \<Rightarrow> str" where
  "exn_text e =
     (case e of ValueError \<Rightarrow> ''ValueError'' | OverflowError \<Rightarrow> ''OverflowError'' | TypeError \<Rightarrow> ''TypeError''
      | IndexError \<Rightarrow> ''IndexError'' | OtherError name \<Rightarrow> name)"

text \<open>Step 8, and the steps 7 and 8 of an analysis no rule has answered.\<close>

definition inconclusive_end ::
  "coordinator \<Rightarrow> rkey \<Rightarrow> cache_readiness \<Rightarrow> eval_meta \<Rightarrow> bool \<Rightarrow> rca_response" where
  "inconclusive_end env key readiness meta available =
     inconclusive_response (co_now env) (elapsed_ms env) (''No diagnosis determined for '' @ canonical key) readiness
       (em_warnings meta
        @ (case co_llm env of
             Some llm \<Rightarrow> if available then []
               else [''LLM unavailable: Ollama not reachable at '' @ lc_endpoint llm]
           | None \<Rightarrow> []))
       (co_cluster_id env)"

definition escalate ::
  "coordinator \<Rightarrow> rkey \<Rightarrow> str \<Rightarrow> cache_readiness \<Rightarrow> event_record \<Rightarrow> event_record list \<Rightarrow> eval_meta
   \<Rightarrow> co_state \<Rightarrow> analysis" where
  "escalate env key time_window readiness incident events meta st =
     (case co_llm env of
        None \<Rightarrow> (Inr (inconclusive_end env key readiness meta False), st)
      | Some llm \<Rightarrow>
          if \<not> la_available (cs_llm st)
          then (Inr (inconclusive_end env key readiness meta False), st)
          else
            let llm_warning = (if readiness = PARTIALLY_READY
                  then [''Cache partially ready: last full relist may be stale. ''
                        @ ''LLM analysis proceeds with available evidence.''] else []);
                (context, c1) = build_state_context (co_now env) (co_graph env) key (cs_cache st);
                (evidence, c2) = assemble_evidence env incident events time_window context c1
            in case analyze_llm (lc_server llm) (lc_runtime llm) (lc_config llm) evidence (cs_llm st) of
                (Inl exc, l1) \<Rightarrow> (Inl exc, \<lparr>cs_cache = c2, cs_llm = l1\<rparr>)
              | (Inr result, l1) \<Rightarrow>
                  if \<not> lr_success result
                  then (Inr (inconclusive_end env key readiness meta (la_available l1)),
                        \<lparr>cs_cache = c2, cs_llm = l1\<rparr>)
                  else case settle_quality llm incident evidence context result l1 of
                      (Inl exc, l2) \<Rightarrow> (Inl exc, \<lparr>cs_cache = c2, cs_llm = l2\<rparr>)
                    | (Inr (final, quality_warning), l2) \<Rightarrow>
                        (Inr ((llm_result_to_rca_response (co_now env) (elapsed_ms env) final readiness
                            (meta\<lparr>em_warnings := llm_warning @ quality_warning @ em_warnings meta\<rparr>)
                            (co_cluster_id env))\<lparr>rs_blast_radius := compute_blast_radius (co_graph env) key\<rparr>),
                         \<lparr>cs_cache = c2, cs_llm = l2\<rparr>))"

text \<open>Steps 3 to 8, for a resource and a readiness that is not \<open>WARMING\<close>.\<close>

definition diagnose ::
  "coordinator \<Rightarrow> rkey \<Rightarrow> str \<Rightarrow> cache_readiness \<Rightarrow> co_state \<Rightarrow> analysis" where
  "diagnose env key time_window readiness st =
     (let (kind, namespace, name) = key;
          events = sorted_events (co_now env) key (co_buffer env);
          (synthetic, c1) = synthesise_status_events (co_now env) (co_ids env) (co_cluster_id env)
            kind namespace name (cs_cache st)
      in case synthetic @ events of
           [] \<Rightarrow> (Inr (inconclusive_response (co_now env) (elapsed_ms env) (''No recent events found for '' @ canonical key)
                    readiness [] (co_cluster_id env)), st\<lparr>cs_cache := c1\<rparr>)
         | first # _ \<Rightarrow>
             (case first_match (co_engine env) (co_rules env) (synthetic @ events)
                     \<lparr>em_evaluated = 0, em_matched = 0, em_warnings = []\<rparr> c1 of
                (Some (result, incident), meta, c2) \<Rightarrow>
                  (Inr ((rule_result_to_rca_response (co_now env) (elapsed_ms env) result readiness meta (co_cluster_id env))
                     \<lparr>rs_blast_radius := compute_blast_radius (co_graph env) key\<rparr>), st\<lparr>cs_cache := c2\<rparr>)
              | (None, meta, c2) \<Rightarrow>
                  if readiness = DEGRADED
                  then (Inr (inconclusive_response (co_now env) (elapsed_ms env) ''Unable to diagnose: cache degraded.'' readiness
                         (degraded_warnings None
                          @ [''LLM escalation suppressed: cache degraded, evidence package integrity cannot be guaranteed.'']
                          @ em_warnings meta) (co_cluster_id env)), st\<lparr>cs_cache := c2\<rparr>)
                  else escalate env key time_window readiness first events meta (st\<lparr>cs_cache := c2\<rparr>)))"

definition refuse :: "coordinator \<Rightarrow> str \<Rightarrow> str list \<Rightarrow> co_state \<Rightarrow> analysis" where
  "refuse env root_cause warnings st =
     (let (readiness, c) = cache_readiness_of (co_now env) (cs_cache st) in
      (Inr (inconclusive_response (co_now env) (elapsed_ms env) root_cause readiness warnings (co_cluster_id env)),
       st\<lparr>cs_cache := c\<rparr>))"

definition analyze :: "coordinator \<Rightarrow> str \<Rightarrow> str \<Rightarrow> co_state \<Rightarrow> analysis" where
  "analyze env resource time_window st =
     (case parse_resource resource of
        Inl err \<Rightarrow> refuse env (fe_message err) [fe_message err] st
      | Inr key \<Rightarrow>
          (case validate_time_window time_window of
             Inl exc \<Rightarrow> (Inl (exn_text exc), st)
           | Inr (Some msg) \<Rightarrow> refuse env msg [msg] st
           | Inr None \<Rightarrow>
               let (readiness, c) = cache_readiness_of (co_now env) (cs_cache st) in
               if readiness = WARMING
               then (Inr (inconclusive_response (co_now env) (elapsed_ms env)
                      ''KubeRCA is still initializing. Retry in 30 seconds.'' readiness
                      (warming_warnings None) (co_cluster_id env)), st\<lparr>cs_cache := c\<rparr>)
               else diagnose env key time_window readiness (st\<lparr>cs_cache := c\<rparr>)))"

subsection \<open>What the requests accept\<close>

lemma dlit_minutes: "dlit (int n) 60 \<le> 24 * dbl_unit \<longleftrightarrow> n \<le> 1440"
proof -
  consider "n \<le> 1439" | "n = 1440" | "1441 \<le> n" by linarith
  then show ?thesis
  proof cases
    case 1
    then have "int n * dbl_unit \<le> 1439 * dbl_unit" by (simp add: dbl_unit_def)
    then have "int n * dbl_unit div 60 \<le> 1439 * dbl_unit div 60" by (intro zdiv_mono1) simp_all
    then have "\<bar>2 * (fl_quot (int n * dbl_unit) 60 * 60 - int n * dbl_unit)\<bar> \<le> 60 * 2 ^ (69 - 53)"
      by (intro fl_quot_error) (simp_all add: dbl_unit_def)
    with 1 show ?thesis by (simp add: dlit_def dbl_unit_def)
  next
    case 2
    then show ?thesis by (simp add: dbl_defs dbl_unit_def round_half_even_def bitlen.simps)
  next
    case 3
    then have "1441 * dbl_unit \<le> int n * dbl_unit" by (simp add: dbl_unit_def)
    then have "1441 * dbl_unit div 60 \<le> int n * dbl_unit div 60" by (intro zdiv_mono1) simp_all
    then have "2 ^ 53 * (int n * dbl_unit - fl_quot (int n * dbl_unit) 60 * 60) \<le> int n * dbl_unit"
      by (intro fl_quot_rel_error) (simp_all add: dbl_unit_def)
    with 3 show ?thesis by (simp add: dlit_def dbl_unit_def)
  qed
qed

lemma exceeds_day_False:
  "exceeds_day n u = Inr False \<longleftrightarrow> (if u = CHR ''h'' then n \<le> 24 else if u = CHR ''m'' then n \<le> 1440 else n \<le> 1)"
proof -
  have "n \<le> 1440 \<Longrightarrow> \<not> 60 * (2 ^ 1024 - 2 ^ 970) \<le> n"
    by simp
  then show ?thesis
    using dlit_minutes [of n] by (auto simp: exceeds_day_def not_less simp del: of_nat_le_iff)
qed

text \<open>
  The coordinator accepts a time window exactly when it is a duration of at most 24 hours.
\<close>
theorem time_window_accepted:
  "validate_time_window s = Inr None \<longleftrightarrow> (\<exists>d. parse_duration s = Inr d \<and> d \<le> hours 24)"
proof (cases "duration_parts s")
  case None
  then show ?thesis by (simp add: validate_time_window_def parse_duration_def)
next
  case (Some p)
  show ?thesis
  proof (cases p)
    case (Inl e)
    then show ?thesis using Some by (simp add: validate_time_window_def parse_duration_def)
  next
    case (Inr q)
    obtain n u where q: "q = (n, u)" by (cases q)
    have unit: "unit_char u" using Some Inr q
      by (auto simp: duration_parts_shape duration_shape_Some split: if_splits)
    have "validate_time_window s = Inr None \<longleftrightarrow> exceeds_day n u = Inr False"
      using Some Inr q by (auto simp: validate_time_window_def split: sum.split bool.split)
    moreover have "(\<exists>d. parse_duration s = Inr d \<and> d \<le> hours 24) \<longleftrightarrow>
        (if u = CHR ''h'' then n \<le> 24 else if u = CHR ''m'' then n \<le> 1440 else n \<le> 1)"
      using Some Inr q unit
      by (auto simp: parse_duration_def mk_timedelta_def unit_char_def duration_defs)
    ultimately show ?thesis by (simp only: exceeds_day_False)
  qed
qed

lemma alias_table:
  "list_all (\<lambda>kind. dget KIND_ALIASES (lower kind) = Some kind) (remdups (map snd KIND_ALIASES))"
  "list_all (\<lambda>kind. CHR ''/'' \<notin> set kind) (remdups (map snd KIND_ALIASES))"
  by code_simp (simp add: KIND_ALIASES_def)

lemma alias_kind:
  assumes "dget KIND_ALIASES a = Some kind"
  shows "dget KIND_ALIASES (lower kind) = Some kind" "CHR ''/'' \<notin> set kind"
proof -
  have "kind \<in> set (remdups (map snd KIND_ALIASES))"
    using map_of_SomeD [OF assms] by force
  then show "dget KIND_ALIASES (lower kind) = Some kind" "CHR ''/'' \<notin> set kind"
    using alias_table unfolding list_all_iff by blast+
qed

lemma split_on_three:
  "CHR ''/'' \<notin> set a \<Longrightarrow> CHR ''/'' \<notin> set b \<Longrightarrow> CHR ''/'' \<notin> set c \<Longrightarrow>
   split_on (CHR ''/'') (a @ ''/'' @ b @ ''/'' @ c) = [a, b, c]"
  by (simp add: split_on_append split_on_no_sep)

text \<open>
  Parsing normalises: a resource that is accepted is accepted again in its canonical form, with the
  same result.
\<close>
theorem resource_canonical_roundtrip:
  assumes "parse_resource s = Inr key"
  shows "parse_resource (canonical key) = Inr key"
proof -
  obtain raw ns name kind where parts: "split_on (CHR ''/'') s = [raw, ns, name]"
    and kind: "dget KIND_ALIASES (lower raw) = Some kind"
    and ok: "ns \<noteq> []" "name \<noteq> []" "length ns \<le> 253" "length name \<le> 253"
    and key: "key = (kind, ns, name)"
    using assms by (auto simp: parse_resource_def split: list.splits option.splits if_splits)
  have "CHR ''/'' \<notin> set ns" "CHR ''/'' \<notin> set name"
    using split_on_parts [of _ "CHR ''/''" s] parts by auto
  moreover have "dget KIND_ALIASES (lower kind) = Some kind" "CHR ''/'' \<notin> set kind"
    using alias_kind [OF kind] by simp_all
  ultimately show ?thesis
    using ok by (simp add: parse_resource_def canonical_def key split_on_three [simplified])
qed

lemma resource_canonical_roundtrip_witness:
  "parse_resource (canonical (''Deployment'', ''shop'', ''cart'')) = Inr (''Deployment'', ''shop'', ''cart'')"
proof (rule resource_canonical_roundtrip)
  show "parse_resource ''deploy/shop/cart'' = Inr (''Deployment'', ''shop'', ''cart'')" by code_simp
qed

subsection \<open>What reading the cache leaves alone\<close>

lemma cache_get_keeps: "cache_get now kind ns name c = (v, c') \<Longrightarrow> rc_store c' = rc_store c"
  by (metis cache_get_store snd_conv)

lemma readiness_store [simp]: "rc_store (snd (cache_readiness_of now c)) = rc_store c"
proof -
  note is_diverged_keeps(4) [of now c]
  then show ?thesis
    by (cases "is_diverged now c") (simp add: cache_readiness_of_def recompute_readiness_def Let_def)
qed

lemma readiness_pair: "cache_readiness_of now c = (r, c') \<Longrightarrow> rc_store c' = rc_store c"
  by (metis readiness_store snd_conv)

lemma synthesise_store [simp]: "rc_store (snd (synthesise_status_events now ids cl kind ns name c)) = rc_store c"
  by (auto simp: synthesise_status_events_def dest: cache_get_keeps split: prod.split option.split)

lemma evaluate_store:
  assumes "\<forall>r \<in> set rules. rca_rule r" "evaluate env rules event c = (ans, m, c')"
  shows "rc_store c' = rc_store c"
  using scan_rules_bookkeeping [OF assms(1), of 0
      "\<lparr>sc_best = None, sc_competing = None, sc_meta = \<lparr>em_evaluated = 0, em_matched = 0, em_warnings = []\<rparr>,
        sc_cache = c\<rparr>" env event ans m c'] assms(2)
  by (simp add: evaluate_def meta_ok_def)

text \<open>The event a diagnosis is about: the first candidate for which some rule fires.\<close>

definition diagnosed_event :: "engine_env \<Rightarrow> rule list \<Rightarrow> event_record list \<Rightarrow> event_record option" where
  "diagnosed_event env rules events = find (\<lambda>e. list_ex (fires env e) rules) events"

lemma first_match_event:
  assumes rules: "\<forall>r \<in> set rules. rca_rule r"
  shows "case diagnosed_event env rules events of
      None \<Rightarrow> fst (first_match env rules events meta c) = None
    | Some e \<Rightarrow> \<exists>r \<in> set rules. fires env e r \<and> fst (first_match env rules events meta c) = Some (verdict_of env e c r, e)"
proof (induction events arbitrary: meta c)
  case Nil
  then show ?case by (simp add: diagnosed_event_def)
next
  case (Cons e es)
  obtain ans m c' where ev: "evaluate env rules e c = (ans, m, c')" by (cases "evaluate env rules e c")
  then have ok: "answer_ok env e c rules ans" using evaluate_ok [OF rules, of env e c] by simp
  show ?case
  proof (cases ans)
    case None
    then have none: "\<not> list_ex (fires env e) rules" using ok by (simp add: answer_ok_def list_ex_iff)
    have v: "verdict_of env x c' r = verdict_of env x c r" if "r \<in> set rules" for x r
      using verdict_of_store evaluate_store [OF rules ev] rules that by blast
    show ?thesis
      using Cons.IH [of m c'] none ev None v
      by (auto simp: diagnosed_event_def split: option.split)
  next
    case (Some a)
    then show ?thesis
      using answer_ok_fires [OF ok [unfolded Some]] ev by (auto simp: diagnosed_event_def list_ex_iff)
  qed
qed

subsection \<open>The quality loop\<close>

definition scored :: "llm_result \<Rightarrow> bool" where
  "scored res \<longleftrightarrow> lr_success res \<and> is_float (lr_confidence res) \<and> dlit 30 100 \<le> lr_confidence res \<and> lr_confidence res \<le> dlit 69 100"

lemma scored_build [simp]: "scored (build_result parsed evidence raw k)"
  by (simp add: scored_def build_result_range build_result_float)

lemma scored_retries [simp]: "scored (res\<lparr>lr_retries := k\<rparr>) = scored res"
  by (simp add: scored_def)

lemma quality_retry_outcome:
  assumes "analyze_with_quality_retry server rt event evidence failures st = (out, st')"
  shows "la_requests st' = Suc (la_requests st)"
    and "case out of Inl e \<Rightarrow> \<exists>messages. raises_on rt (server (la_requests st' - 1) messages) e
         | Inr res \<Rightarrow> lr_success res = scored res"
proof -
  let ?messages = "[(''system'', SYSTEM_PROMPT), (''user'', build_user_prompt evidence),
        (''user'', quality_retry_prompt (join '', '' failures) (ev_reason event))]"
  obtain reply st1 where call: "call_ollama server ?messages st = (reply, st1)"
    by (cases "call_ollama server ?messages st")
  then have n: "la_requests st1 = Suc (la_requests st)"
    using call_ollama_requests [of server ?messages st] by simp
  show "la_requests st' = Suc (la_requests st)"
    using assms call n
    by (auto simp: analyze_with_quality_retry_def split: sum.splits ollama_error.splits prod.splits if_splits)
  have "\<not> scored (failed_result msg 0)" for msg by (simp add: scored_def)
  then show "case out of Inl e \<Rightarrow> \<exists>messages. raises_on rt (server (la_requests st' - 1) messages) e
      | Inr res \<Rightarrow> lr_success res = scored res"
    using assms call n call_ollama_uncaught [of server ?messages st]
      raises_onI [OF call_ollama_text [of server ?messages st]]
    by (auto simp: analyze_with_quality_retry_def build_result_range
        split: sum.splits ollama_error.splits prod.splits if_splits) blast+
qed

text \<open>
  The result, the retries and the quality that a run of the loop with \<open>n\<close> retries left gives.  The
  quality is that of the returned result, unless the last retry was spent on it.
\<close>

lemma quality_loop_outcome:
  assumes "scored result" "quality_loop llm event evidence context n retries quality result st = (out, st')"
  shows "la_requests st \<le> la_requests st' \<and> la_requests st' \<le> la_requests st + n
    \<and> (case out of
         Inl e \<Rightarrow> \<exists>messages. raises_on (lc_runtime llm) (lc_server llm (la_requests st' - 1) messages) e
       | Inr (final, retries', quality') \<Rightarrow> scored final \<and> retries' = retries + (la_requests st' - la_requests st))"
  using assms
proof (induction n arbitrary: retries quality result st)
  case 0
  then show ?case by auto
next
  case (Suc n)
  let ?q = "quality_check result event context"
  show ?case
  proof (cases "qr_passed ?q")
    case True
    then show ?thesis using Suc.prems by auto
  next
    case False
    obtain reply st1 where retry:
      "analyze_with_quality_retry (lc_server llm) (lc_runtime llm) event evidence (qr_failures ?q) st = (reply, st1)"
      by fastforce
    note r = quality_retry_outcome [OF retry]
    show ?thesis
    proof (cases reply)
      case (Inl e)
      then show ?thesis using Suc.prems False retry r by auto
    next
      case (Inr res)
      show ?thesis
      proof (cases "lr_success res")
        case False
        then show ?thesis using Suc.prems \<open>\<not> qr_passed ?q\<close> retry r Inr by auto
      next
        case True
        then have "scored (res\<lparr>lr_retries := lr_retries result + Suc retries\<rparr>)" using r Inr by simp
        moreover have "quality_loop llm event evidence context n (Suc retries) ?q
            (res\<lparr>lr_retries := lr_retries result + Suc retries\<rparr>) st1 = (out, st')"
          using Suc.prems False retry Inr True by simp
        ultimately show ?thesis using Suc.IH r(1) by (fastforce split: sum.splits)
      qed
    qed
  qed
qed

lemma settle_quality_outcome:
  assumes "scored result" "settle_quality llm event evidence context result st = (out, st')"
  shows "la_requests st \<le> la_requests st' \<and> la_requests st' \<le> la_requests st + MAX_QUALITY_RETRIES
    \<and> (case out of
         Inl e \<Rightarrow> \<exists>messages. raises_on (lc_runtime llm) (lc_server llm (la_requests st' - 1) messages) e
       | Inr (final, warnings) \<Rightarrow> is_float (lr_confidence final) \<and> dlit 30 100 \<le> lr_confidence final \<and> lr_confidence final \<le> dlit 69 100)"
proof -
  obtain out1 st1 where loop:
    "quality_loop llm event evidence context MAX_QUALITY_RETRIES 0 no_quality result st = (out1, st1)"
    by fastforce
  moreover have "is_float (dlit 35 100)" by simp
  note this [unfolded confidence_units]
  ultimately show ?thesis
    using quality_loop_outcome [OF assms(1) loop] assms(2)
    by (auto simp: settle_quality_def scored_def confidence_units split: sum.splits prod.splits if_splits)
qed

text \<open>The requests, the exceptions and the score of the analyzer, as the coordinator uses them.\<close>

lemma analyze_llm_outcome:
  assumes "analyze_llm server rt cfg evidence st = (out, st')"
  shows "la_requests st \<le> la_requests st' \<and> la_requests st' \<le> la_requests st + nat (oc_max_retries cfg + 1)
    \<and> (case out of
         Inl e \<Rightarrow> \<exists>messages. raises_on rt (server (la_requests st' - 1) messages) e
       | Inr res \<Rightarrow> lr_success res = scored res)"
proof -
  let ?messages = "[(''system'', SYSTEM_PROMPT), (''user'', build_user_prompt evidence)]"
  have o: "llm_outcome server rt evidence 0 st (out, st')"
    "la_requests st' \<le> la_requests st + nat (oc_max_retries cfg + 1)" "la_requests st \<le> la_requests st'"
    using attempts_outcome [of server rt evidence 0 st "nat (oc_max_retries cfg + 1)" ?messages] assms
    unfolding analyze_llm_def by auto
  then have "lr_success res = scored res" if "out = Inr res" for res
    using that build_result_range(3,4) build_result_float
    by (auto simp: llm_outcome_def scored_def split: if_splits)
  then show ?thesis using o by (auto simp: llm_outcome_def split: sum.splits)
qed

subsection \<open>Responses\<close>

lemma dedup_affected_distinct:
  "distinct (map affected_key (dedup_affected seen rs)) \<and> affected_key ` set (dedup_affected seen rs) \<inter> set seen = {}"
  by (induction seen rs rule: dedup_affected.induct) auto

definition response_ok :: "rca_response \<Rightarrow> bool" where
  "response_ok r \<longleftrightarrow>
     is_float (rs_confidence r) \<and> 0 \<le> rs_confidence r \<and> distinct (map affected_key (rs_affected r))
     \<and> (case rs_diagnosed_by r of
          RULE_ENGINE \<Rightarrow> rs_confidence r \<le> dlit 95 100
            \<and> (\<exists>rule_id \<in> set (TIER1_RULE_IDS @ TIER2_RULE_IDS). rs_rule_id r = Some rule_id)
        | LLM \<Rightarrow> rs_confidence r \<le> dlit 69 100 \<and> rs_rule_id r = None
            \<and> rm_cache_state (rs_meta r) \<in> {''ready'', ''partially_ready''}
        | INCONCLUSIVE \<Rightarrow> rs_confidence r = 0 \<and> rs_rule_id r = None \<and> rs_evidence r = []
            \<and> rs_affected r = [] \<and> rs_blast_radius r = None)"

lemma response_ok_inconclusive [simp]:
  "response_ok (inconclusive_response now ms cause readiness warnings cluster)"
  "response_ok (inconclusive_end env key readiness meta available)"
  by (simp_all add: response_ok_def inconclusive_response_def inconclusive_end_def)

lemma response_ok_rule:
  assumes "rr_rule_id res \<in> set (TIER1_RULE_IDS @ TIER2_RULE_IDS)" "is_float (rr_confidence res)"
  shows "response_ok ((rule_result_to_rca_response now ms res readiness meta cluster)\<lparr>rs_blast_radius := b\<rparr>)"
proof -
  have "0 \<le> dlit 95 100" by (simp add: dbl_eval)
  then show ?thesis
    using assms dedup_affected_distinct [of "[]" "rr_affected res"]
    by (auto simp: response_ok_def rule_result_to_rca_response_def Let_def dedup_affected_resources_def
        split: cache_readiness.split)
qed

lemma response_ok_llm:
  assumes "is_float (lr_confidence res)" "lr_confidence res \<le> dlit 69 100" "readiness \<in> {READY, PARTIALLY_READY}"
  shows "response_ok ((llm_result_to_rca_response now ms res readiness meta cluster)\<lparr>rs_blast_radius := b\<rparr>)"
  using assms dedup_affected_distinct [of "[]" "lr_affected res"]
  by (auto simp: response_ok_def llm_result_to_rca_response_def Let_def dedup_affected_resources_def
      make_meta_def confidence_units)

definition llm_budget :: "coordinator \<Rightarrow> nat" where
  "llm_budget env = (case co_llm env of
      None \<Rightarrow> 0 | Some llm \<Rightarrow> nat (oc_max_retries (lc_config llm) + 1) + MAX_QUALITY_RETRIES)"

text \<open>How an analysis from \<open>st\<close> ends: with a well-formed response, or with an exception the LLM's reply caused.\<close>

definition analysis_ok :: "coordinator \<Rightarrow> co_state \<Rightarrow> analysis \<Rightarrow> bool" where
  "analysis_ok env st out \<longleftrightarrow>
     la_requests (cs_llm (snd out)) \<le> la_requests (cs_llm st) + llm_budget env
     \<and> rc_store (cs_cache (snd out)) = rc_store (cs_cache st)
     \<and> (case fst out of
          Inl e \<Rightarrow> \<exists>llm i messages. co_llm env = Some llm \<and> raises_on (lc_runtime llm) (lc_server llm i messages) e
        | Inr r \<Rightarrow> response_ok r)"

lemma analysis_ok_inconclusive:
  "cs_llm st' = cs_llm st \<Longrightarrow> rc_store (cs_cache st') = rc_store (cs_cache st) \<Longrightarrow> response_ok r \<Longrightarrow>
   analysis_ok env st (Inr r, st')"
  by (simp add: analysis_ok_def)

lemma context_entry_store [simp]: "rc_store (snd (context_entry now res rel c)) = rc_store c"
  by (auto simp: context_entry_def dest: cache_get_keeps split: prod.split)

lemma context_entry_pair: "context_entry now res rel c = (e, c') \<Longrightarrow> rc_store c' = rc_store c"
  by (metis context_entry_store snd_conv)

lemma downstream_entries_store [simp]: "rc_store (snd (downstream_entries now key edges rs c)) = rc_store c"
  by (induction now key edges rs c rule: downstream_entries.induct)
     (auto dest: context_entry_pair split: prod.split)

lemma upstream_entries_store [simp]: "rc_store (snd (upstream_entries now key edges rs entries c)) = rc_store c"
  by (induction now key edges rs entries c rule: upstream_entries.induct)
     (auto simp: Let_def dest: context_entry_pair split: prod.split)

lemma build_state_context_store [simp]: "rc_store (snd (build_state_context now graph key c)) = rc_store c"
  by (simp add: build_state_context_def Let_def split: option.split prod.split) (metis downstream_entries_store upstream_entries_store snd_conv)

lemma assemble_evidence_store [simp]: "rc_store (snd (assemble_evidence env inc events tw context c)) = rc_store c"
  by (auto simp: assemble_evidence_def get_container_statuses_def get_resource_specs_def event_resource_def Let_def
      dest!: cache_get_keeps split: prod.splits option.splits)

lemma escalate_ok:
  assumes "readiness \<in> {READY, PARTIALLY_READY}"
  shows "analysis_ok env st (escalate env key tw readiness incident events meta st)"
proof (cases "co_llm env")
  case None
  then show ?thesis by (simp add: escalate_def analysis_ok_inconclusive)
next
  case (Some llm)
  show ?thesis
  proof (cases "la_available (cs_llm st)")
    case False
    then show ?thesis using Some by (simp add: escalate_def analysis_ok_inconclusive)
  next
    case True
    obtain ctx c1 where c1: "build_state_context (co_now env) (co_graph env) key (cs_cache st) = (ctx, c1)"
      by fastforce
    obtain evidence c2 where c2: "assemble_evidence env incident events tw ctx c1 = (evidence, c2)"
      by fastforce
    have store: "rc_store c2 = rc_store (cs_cache st)"
      using build_state_context_store [of "co_now env" "co_graph env" key "cs_cache st"]
        assemble_evidence_store [of env incident events tw ctx c1] unfolding c1 c2 by simp
    obtain out1 l1 where a: "analyze_llm (lc_server llm) (lc_runtime llm) (lc_config llm) evidence (cs_llm st) = (out1, l1)"
      by fastforce
    note r1 = analyze_llm_outcome [OF a]
    show ?thesis
    proof (cases "\<exists>result. out1 = Inr result \<and> lr_success result")
      case False
      then show ?thesis
        using Some True c1 c2 a r1 store
        by (cases out1) (auto simp: escalate_def analysis_ok_def llm_budget_def)
    next
      case True
      then obtain result where result: "out1 = Inr result" "lr_success result" "scored result" using r1 by auto
      obtain out2 l2 where q: "settle_quality llm incident evidence ctx result l1 = (out2, l2)"
        by fastforce
      then show ?thesis
        using settle_quality_outcome [OF result(3) q] Some \<open>la_available (cs_llm st)\<close> c1 c2 a r1 store result assms
        by (cases out2) (auto simp: escalate_def analysis_ok_def llm_budget_def response_ok_llm)
    qed
  qed
qed

lemma first_match_result:
  assumes "co_rules env = kuberca_rules tier2"
    and "first_match (co_engine env) (co_rules env) events meta c = (Some (res, e), m, c')"
  shows "rr_rule_id res \<in> set (TIER1_RULE_IDS @ TIER2_RULE_IDS)" "is_float (rr_confidence res)"
proof -
  have "\<forall>r \<in> set (co_rules env). rca_rule r" using assms(1) kuberca_rules_contract by simp
  from first_match_event [OF this, of "co_engine env" events meta c] assms(2)
  obtain r where r: "r \<in> set (co_rules env)" "res = verdict_of (co_engine env) e c r"
    by (auto split: option.splits)
  then have "rr_rule_id res = ru_id r" "is_float (rr_confidence res)"
    using verdict_of_ok [of r "co_engine env" e c] kuberca_rules_contract assms(1) by (auto simp: result_ok_def)
  then show "rr_rule_id res \<in> set (TIER1_RULE_IDS @ TIER2_RULE_IDS)" "is_float (rr_confidence res)"
    using registered_ids [of r tier2] r assms(1) by (auto split: if_splits)
qed

lemma first_match_store:
  assumes "\<forall>r \<in> set rules. rca_rule r" "first_match env rules events meta c = (ans, m, c')"
  shows "rc_store c' = rc_store c"
  using assms
proof (induction env rules events meta c rule: first_match.induct)
  case step: (2 env rules e es meta c)
  then show ?case
    by (auto split: prod.splits option.splits dest: evaluate_store [OF step.prems(1)])
qed simp

lemma diagnose_ok:
  assumes rules: "co_rules env = kuberca_rules tier2" and "readiness \<noteq> WARMING"
  shows "analysis_ok env st (diagnose env key tw readiness st)"
proof -
  obtain kind ns name where key: "key = (kind, ns, name)" by (cases key)
  obtain synthetic c1 where s: "synthesise_status_events (co_now env) (co_ids env) (co_cluster_id env) kind ns name
      (cs_cache st) = (synthetic, c1)" by fastforce
  then have c1: "rc_store c1 = rc_store (cs_cache st)" by (metis synthesise_store snd_conv)
  let ?events = "sorted_events (co_now env) (kind, ns, name) (co_buffer env)"
  let ?meta = "\<lparr>em_evaluated = 0, em_matched = 0, em_warnings = []\<rparr>"
  show ?thesis
  proof (cases "synthetic @ ?events")
    case Nil
    then show ?thesis using s c1 by (auto simp: diagnose_def key intro!: analysis_ok_inconclusive)
  next
    case (Cons first rest)
    obtain ans m c2 where f: "first_match (co_engine env) (co_rules env) (synthetic @ ?events) ?meta c1 = (ans, m, c2)"
      by (cases "first_match (co_engine env) (co_rules env) (synthetic @ ?events) ?meta c1")
    have c2: "rc_store c2 = rc_store (cs_cache st)"
      using first_match_store [OF _ f] c1 kuberca_rules_contract rules by simp
    show ?thesis
    proof (cases ans)
      case (Some p)
      then obtain res e where "ans = Some (res, e)" by (cases p) auto
      then show ?thesis
        using first_match_result [OF rules, of "synthetic @ ?events" ?meta c1 res e m c2] s f Cons c2
        by (simp add: diagnose_def key analysis_ok_def response_ok_rule)
    next
      case None
      show ?thesis
      proof (cases "readiness = DEGRADED")
        case True
        then show ?thesis using s f Cons c2 None by (simp add: diagnose_def key analysis_ok_def)
      next
        case False
        then have r: "readiness \<in> {READY, PARTIALLY_READY}" using assms(2) by (cases readiness) auto
        have "analysis_ok env (st\<lparr>cs_cache := c2\<rparr>) (escalate env key tw readiness first ?events m (st\<lparr>cs_cache := c2\<rparr>))"
          by (rule escalate_ok [OF r])
        then show ?thesis using s f Cons c2 None False by (simp add: diagnose_def key analysis_ok_def)
      qed
    qed
  qed
qed

lemma refuse_ok: "analysis_ok env st (refuse env cause warnings st)"
  by (auto simp: refuse_def intro!: analysis_ok_inconclusive dest: readiness_pair split: prod.split)

lemma analyze_accepted_ok:
  assumes "co_rules env = kuberca_rules tier2" "parse_resource resource = Inr key" "validate_time_window tw = Inr None"
  shows "analysis_ok env st (analyze env resource tw st)"
proof -
  obtain readiness c where r: "cache_readiness_of (co_now env) (cs_cache st) = (readiness, c)" by fastforce
  then have c: "rc_store c = rc_store (cs_cache st)" by (rule readiness_pair)
  show ?thesis
  proof (cases "readiness = WARMING")
    case True
    then show ?thesis using r c assms by (simp add: analyze_def analysis_ok_inconclusive)
  next
    case False
    from diagnose_ok [OF assms(1) False, of "st\<lparr>cs_cache := c\<rparr>" key tw] show ?thesis
      using r c assms False by (simp add: analyze_def analysis_ok_def)
  qed
qed

lemma analysis_cases:
  obtains (accepted) key where "parse_resource resource = Inr key" "validate_time_window tw = Inr None"
    | (refused) cause warnings where "analyze env resource tw st = refuse env cause warnings st"
    | (raised) e where "validate_time_window tw = Inl e" "analyze env resource tw st = (Inl (exn_text e), st)"
proof (cases "parse_resource resource")
  case (Inl err)
  then show ?thesis by (intro refused) (simp add: analyze_def)
next
  case (Inr key)
  show ?thesis
  proof (cases "validate_time_window tw")
    case (Inl e)
    then show ?thesis using Inr by (intro raised) (simp_all add: analyze_def)
  next
    case (Inr r)
    then show ?thesis
      using \<open>parse_resource resource = Inr key\<close> accepted refused
      by (cases r) (auto simp: analyze_def)
  qed
qed

lemma analyze_well_formed:
  "case fst (analyze (env\<lparr>co_rules := kuberca_rules tier2\<rparr>) resource time_window st) of
     Inr r \<Rightarrow> response_ok r
   | Inl exc \<Rightarrow> (\<exists>e. validate_time_window time_window = Inl e)
       \<or> (\<exists>llm i messages. co_llm env = Some llm \<and> raises_on (lc_runtime llm) (lc_server llm i messages) exc)"
proof -
  let ?env = "env\<lparr>co_rules := kuberca_rules tier2\<rparr>"
  show ?thesis
  proof (cases rule: analysis_cases [where resource = resource and tw = time_window and env = ?env and st = st])
    case accepted
    from analyze_accepted_ok [OF _ this, of ?env tier2 st] show ?thesis
      by (auto simp: analysis_ok_def split: sum.splits)
  next
    case (refused cause warnings)
    with refuse_ok [of ?env st cause warnings] show ?thesis
      by (auto simp: analysis_ok_def refuse_def split: prod.split)
  qed simp
qed

text \<open>
  C5: Every answer is well formed: a rule diagnosis names a registered rule and has a confidence of at
  most 0.95, an LLM diagnosis names none, has a confidence of at most 0.69 and is given only by a cache
  that is ready or partially ready, an inconclusive answer has confidence 0 and no findings, and no
  resource is listed twice as affected.  An analysis raises an exception only when the digits of the time
  window are too many to convert, or when a request to the LLM raises one: the HTTP client raises an error
  that the analyzer does not catch, the text of a reply cannot be encoded, or \<open>json.loads\<close> raises on it
  something other than a \<open>JSONDecodeError\<close>.
\<close>
theorem analysis_response_well_formed:
  "case fst (analyze (env\<lparr>co_rules := kuberca_rules tier2\<rparr>) resource time_window st) of
     Inr r \<Rightarrow> response_ok r
   | Inl exc \<Rightarrow> (\<exists>e. validate_time_window time_window = Inl e)
       \<or> (\<exists>llm i messages. co_llm env = Some llm \<and> raises_on (lc_runtime llm) (lc_server llm i messages) exc)"
  by (rule analyze_well_formed)

lemma analyze_bounded:
  "la_requests (cs_llm (snd (analyze (env\<lparr>co_rules := kuberca_rules tier2\<rparr>) resource time_window st)))
      \<le> la_requests (cs_llm st) + llm_budget env
   \<and> rc_store (cs_cache (snd (analyze (env\<lparr>co_rules := kuberca_rules tier2\<rparr>) resource time_window st)))
      = rc_store (cs_cache st)"
proof -
  let ?env = "env\<lparr>co_rules := kuberca_rules tier2\<rparr>"
  have "llm_budget ?env = llm_budget env" by (simp add: llm_budget_def)
  moreover have "analysis_ok ?env st (analyze ?env resource time_window st)
      \<or> snd (analyze ?env resource time_window st) = st"
    by (cases rule: analysis_cases [where resource = resource and tw = time_window and env = ?env and st = st])
       (use analyze_accepted_ok [of ?env tier2 resource _ time_window st] refuse_ok [of ?env st] in auto)
  ultimately show ?thesis by (auto simp: analysis_ok_def)
qed

text \<open>
  One analysis never changes the cached resources, and makes at most as many requests to the LLM as
  its configured retries plus one for the first answer and two for the quality loop; none without an LLM.
\<close>
theorem analysis_is_bounded:
  "la_requests (cs_llm (snd (analyze (env\<lparr>co_rules := kuberca_rules tier2\<rparr>) resource time_window st)))
      \<le> la_requests (cs_llm st) + llm_budget env
   \<and> rc_store (cs_cache (snd (analyze (env\<lparr>co_rules := kuberca_rules tier2\<rparr>) resource time_window st)))
      = rc_store (cs_cache st)"
  by (rule analyze_bounded)

text \<open>The events a diagnosis considers, in its order.\<close>

definition candidate_events :: "coordinator \<Rightarrow> rkey \<Rightarrow> rcache \<Rightarrow> event_record list" where
  "candidate_events env key c =
     (case key of (kind, namespace, name) \<Rightarrow>
        fst (synthesise_status_events (co_now env) (co_ids env) (co_cluster_id env) kind namespace name c)
        @ sorted_events (co_now env) key (co_buffer env))"

lemma escalate_not_rule:
  "case fst (escalate env key tw readiness incident events meta st) of
     Inl e \<Rightarrow> True | Inr r \<Rightarrow> rs_diagnosed_by r \<noteq> RULE_ENGINE"
  by (auto simp: escalate_def inconclusive_end_def inconclusive_response_def llm_result_to_rca_response_def Let_def
      split: option.split sum.split prod.split)


text \<open>A pod with one buffered event, in a cache that is ready, without a graph and without an LLM.\<close>

definition cart_event :: event_record where
  "cart_event = \<lparr>ev_source = CORE_EVENT, ev_severity = ERROR, ev_reason = ''OOMKilling'', ev_message = ''out of memory'',
     ev_namespace = ''shop'', ev_kind = ''Pod'', ev_name = ''cart'', ev_first_seen = 0, ev_last_seen = 0,
     ev_id = ''e1'', ev_cluster_id = [], ev_labels = [], ev_count = 1\<rparr>"

definition small_coordinator :: coordinator where
  "small_coordinator =
     \<lparr>co_engine = \<lparr>en_now = 0, en_ledger = ledger_init 1000 6, en_slow = \<lambda>_. False\<rparr>, co_rules = kuberca_rules True,
      co_buffer = [cart_event], co_graph = None, co_llm = None, co_cluster_id = [], co_ids = \<lambda>_. [],
      co_clock = (0, 0)\<rparr>"

definition small_state :: co_state where
  "small_state = \<lparr>cs_cache = cache_init\<lparr>rc_all_kinds := {''Pod''}, rc_ready_kinds := {''Pod''}\<rparr>,
     cs_llm = \<lparr>la_available = False, la_requests = 0\<rparr>\<rparr>"

lemma small_ready:
  "cache_readiness_of 0 (cs_cache small_state) = (READY, (cs_cache small_state)\<lparr>rc_readiness := READY\<rparr>)"
  by (simp add: small_state_def cache_init_def cache_readiness_of_def recompute_readiness_def is_diverged_def
      current_miss_rate_def recent_accesses_def recent_relist_timeouts_def recent_burst_duration_def
      MISS_RATE_THRESHOLD_def dlit_def fl_quot_def dbl_unit_def RELIST_TIMEOUT_THRESHOLD_def BURST_WINDOW_def
      RECONNECT_FAILURE_THRESHOLD_def minutes_def seconds_def round_half_even_def bitlen.simps Let_def)


text \<open>
  The blast radius of a resource lists, each once, the other resources that depend on it over at most
  three edges of the graph; it is absent when there is none.
\<close>
theorem blast_radius_is_bounded_reachability:
  "compute_blast_radius (Some (graph_run ops graph_init)) key \<noteq> Some []
   \<and> (let g = graph_run ops graph_init;
          found = (case compute_blast_radius (Some g) key of None \<Rightarrow> [] | Some rs \<Rightarrow> rs)
      in distinct (map affected_key found)
         \<and> affected_key ` set found =
             (if key \<in> set (dkeys (gr_nodes g)) then within (gr_reverse g) 3 key - {key} else {}))"
proof -
  define g where "g = graph_run ops graph_init"
  let ?r = "dr_resources (upstream g key 3)"
  have keys: "map affected_key (map (\<lambda>res. affected (gn_kind res) (gn_namespace res) (gn_name res)) xs) = map node_key xs" for xs
    by (simp add: affected_def affected_key_def node_key_def)
  have filt: "filter (\<lambda>res. node_key res \<noteq> key) ?r = ?r" and d: "distinct (map node_key ?r)"
    and s: "set (map node_key ?r) = (if key \<in> set (dkeys (gr_nodes g)) then within (gr_reverse g) 3 key - {key} else {})"
  proof -
    have "adj_known g (gr_reverse g)" unfolding g_def by (intro graph_wf_known graph_run_wf graph_init_wf)
    from traverse_correct [OF this, of key 3]
    show d: "distinct (map node_key ?r)"
      and s: "set (map node_key ?r) = (if key \<in> set (dkeys (gr_nodes g)) then within (gr_reverse g) 3 key - {key} else {})"
      by (auto simp: upstream_def traverse_def simp del: set_map)
    have "key \<notin> set (map node_key ?r)" unfolding s by simp
    then show "filter (\<lambda>res. node_key res \<noteq> key) ?r = ?r" by (auto simp: filter_id_conv)
  qed
  then show ?thesis
    unfolding g_def [symmetric] compute_blast_radius_def Let_def option.case filt
    unfolding image_set
    using keys [of ?r] d s by (cases "?r = []") (simp_all add: Let_def del: map_map set_map)
qed

subsection \<open>The quality loop and its penalty\<close>

lemma quality_loop_passed:
  "quality_loop llm event evidence ctx n retries quality result st = (Inr (final, k, q), st') \<Longrightarrow>
   \<not> qr_passed quality \<Longrightarrow> qr_passed q \<Longrightarrow> q = quality_check final event ctx"
  by (induction n arbitrary: retries quality result st)
     (auto simp: Let_def split: if_splits prod.splits sum.splits)

text \<open>
  An LLM answer is used without a warning only when it passes the quality check itself; any other is
  capped at a confidence of 0.35 and comes with a warning.
\<close>
theorem unchecked_answers_are_capped:
  "case fst (settle_quality llm event evidence ctx result st) of
     Inl e \<Rightarrow> True
   | Inr (final, warnings) \<Rightarrow>
       if warnings = [] then qr_passed (quality_check final event ctx) else lr_confidence final \<le> dlit 35 100"
proof -
  obtain out st1 where loop: "quality_loop llm event evidence ctx MAX_QUALITY_RETRIES 0 no_quality result st = (out, st1)"
    by fastforce
  then show ?thesis
    using quality_loop_passed [of llm event evidence ctx MAX_QUALITY_RETRIES 0 no_quality result st]
    by (auto simp: settle_quality_def no_quality_def split: sum.splits prod.splits)
qed

text \<open>
  The loop does not check the answer of its last retry: when both first answers fail and the last one
  passes the check, that answer is still reported as failed and capped.
\<close>
theorem last_retry_is_not_checked:
  assumes "\<not> qr_passed (quality_check r0 event ctx)" "\<not> qr_passed (quality_check r1 event ctx)"
    and "qr_passed (quality_check r2 event ctx)"
    and "analyze_with_quality_retry (lc_server llm) (lc_runtime llm) event evidence
           (qr_failures (quality_check r0 event ctx)) st = (Inr r1, st1)"
    and "analyze_with_quality_retry (lc_server llm) (lc_runtime llm) event evidence
           (qr_failures (quality_check r1 event ctx)) st1 = (Inr r2, st2)"
    and "lr_success r1" "lr_success r2"
  shows "\<exists>final warning. settle_quality llm event evidence ctx r0 st = (Inr (final, [warning]), st2)
     \<and> qr_passed (quality_check final event ctx) \<and> lr_confidence final = min (lr_confidence r2) (dlit 35 100)"
proof -
  have same: "quality_check (r\<lparr>lr_retries := k\<rparr>) event ctx = quality_check r event ctx"
    "quality_check (r\<lparr>lr_confidence := d\<rparr>) event ctx = quality_check r event ctx" for r k d
    by (simp_all add: quality_check_def)
  show ?thesis
    using assms by (auto simp: settle_quality_def MAX_QUALITY_RETRIES_def numeral_2_eq_2 Let_def same)
qed

text \<open>A server whose first retry names no cause and whose second one names the event's reason.\<close>

definition slow_learner :: llm_client where
  "slow_learner =
     \<lparr>lc_server = \<lambda>i messages. Response 200 (Inr (PDict [(''choices'', PList [PDict [(''message'', PDict
        [(''content'', PStr (if i = 0 then ''a'' else ''b''))])]])])),
      lc_runtime =
        \<lparr>rt_loads = \<lambda>text. Inr (PDict (if text = ''a'' then [(''root_cause'', PStr ''unknown'')]
           else [(''root_cause'', PStr ''OOMKilling of cart''), (''evidence_citations'', PList [PStr ''e1'', PStr ''e2''])])),
         rt_encode = \<lambda>text. Inr (map of_char text), rt_decode = map char_of, rt_debug = False\<rparr>,
      lc_config = \<lparr>oc_model = [], oc_max_retries = 3\<rparr>, lc_endpoint = []\<rparr>"

lemma last_retry_is_not_checked_witness:
  "\<exists>r0 (r2 :: llm_result) final warning st2. settle_quality slow_learner cart_event
       (mk_evidence cart_event [] [] [] [] ''2h'' []) [] r0 \<lparr>la_available = True, la_requests = 0\<rparr>
         = (Inr (final, [warning]), st2)
     \<and> qr_passed (quality_check final cart_event []) \<and> lr_confidence final = min (lr_confidence r2) (dlit 35 100)"
proof -
  let ?ev = "mk_evidence cart_event [] [] [] [] ''2h'' []"
  let ?r0 = "build_result [(''root_cause'', PStr ''unknown'')] ?ev [] 0"
  let ?r2 = "build_result [(''root_cause'', PStr ''OOMKilling of cart''), (''evidence_citations'', PList [PStr ''e1'', PStr ''e2''])] ?ev [] 0"
  let ?st = "\<lambda>n. \<lparr>la_available = True, la_requests = n\<rparr>"
  have fields: "lr_root_cause ?r0 = ''unknown''" "lr_citations ?r0 = []"
    "lr_root_cause ?r2 = ''OOMKilling of cart''" "lr_citations ?r2 = [''e1'', ''e2'']"
    by (simp_all add: build_result_def Let_def vget_def dget_or_def py_str_def)
  have reason: "ev_reason cart_event = ''OOMKilling''" by (simp add: cart_event_def)
  have bad: "\<not> qr_passed (quality_check ?r0 cart_event [])"
    by (simp add: quality_check_def fields)
  have in_cause: "str_in (lower ''OOMKilling'') (lower ''OOMKilling of cart'')" by code_simp
  have good: "qr_passed (quality_check ?r2 cart_event [])"
    by (simp add: quality_check_def fields reason in_cause)
  have strip: "strip ''a'' = ''a''" "strip ''b'' = ''b''" by code_simp+
  have step: "analyze_with_quality_retry (lc_server slow_learner) (lc_runtime slow_learner) cart_event ?ev fs (?st n)
      = (Inr (if n = 0 then ?r0 else ?r2), ?st (Suc n))" for fs n
    by (simp add: analyze_with_quality_retry_def call_ollama_def slow_learner_def status_ok_def body_content_def
        and_then_def item_by_key_def first_item_def parse_response_def cap_raw_response_def
        RAW_RESPONSE_MAX_BYTES_def strip_fences_def strip fence_def Let_def)
  have "\<exists>final warning. settle_quality slow_learner cart_event ?ev [] ?r0 (?st 0) = (Inr (final, [warning]), ?st 2)
     \<and> qr_passed (quality_check final cart_event []) \<and> lr_confidence final = min (lr_confidence ?r2) (dlit 35 100)"
    by (rule last_retry_is_not_checked [OF bad bad good])
       (use step [of _ 0] step [of _ 1] build_result_range(1) in \<open>auto simp: numeral_2_eq_2\<close>)
  then show ?thesis by blast
qed

end
