(* ===== verification/QueueDrain.thy ===== *)
theory QueueDrain
  imports WorkQueue
begin

text \<open>
  The workers of \<open>kuberca/analyst/queue.py\<close> on their own: the steps of the worker loops between two
  submissions, whatever the analyses they run answer or raise.
\<close>

inductive worker_step :: "'r work_queue \<Rightarrow> 'r work_queue \<Rightarrow> bool" where
  take_next: "i < length (wq_workers q) \<Longrightarrow> wq_workers q ! i = Waiting \<Longrightarrow> wq_entries q \<noteq> [] \<Longrightarrow>
    worker_step q (worker_take i q)"
| finish: "i < length (wq_workers q) \<Longrightarrow> wq_workers q ! i = Busy item \<Longrightarrow>
    worker_step q (worker_finish i outcome q)"

lemma worker_step_load:
  assumes "worker_step q q'"
  shows "load q' < load q"
  using assms by cases (simp_all add: load_take load_finish)

lemma worker_step_inv:
  assumes "worker_step q q'" "wq_inv cpus q" "wq_running q"
  shows "wq_inv cpus q' \<and> wq_running q'"
  using assms by cases (simp_all add: wq_inv_take wq_inv_finish load_take load_finish)

lemma worker_steps_inv:
  assumes "(worker_step ^^ n) q q'" "wq_inv cpus q" "wq_running q"
  shows "wq_inv cpus q' \<and> wq_running q' \<and> load q' + n \<le> load q"
  using assms(1)
proof (induction n arbitrary: q')
  case 0
  then show ?case using assms by simp
next
  case (Suc n)
  then obtain p where p: "(worker_step ^^ n) q p" "worker_step p q'" by auto
  from Suc.IH [OF p(1)] worker_step_inv [OF p(2)] worker_step_load [OF p(2)] show ?case by fastforce
qed

text \<open>Where no worker can move, nothing is left.\<close>

lemma idle_workers:
  assumes "wq_inv cpus q" "wq_running q" "\<nexists>q'. worker_step q q'"
  shows "carried q = []"
proof -
  have idle: "wq_workers q ! i \<noteq> Busy item" "wq_workers q ! i = Waiting \<Longrightarrow> wq_entries q = []"
    if "i < length (wq_workers q)" for i item
    using assms(3) that worker_step.intros [of i q] by blast+
  then have "busy (wq_workers q) = []"
    by (metis in_busy in_set_conv_nth list.set_intros(1) neq_Nil_conv)
  moreover have "wq_entries q = []"
  proof -
    have "wq_workers q ! 0 \<in> set (wq_workers q)" "0 < length (wq_workers q)"
      using assms(1) by (auto simp: wq_inv_def workers_ok_def)
    with assms(1,2) idle [of 0] show ?thesis
      by (cases "wq_workers q ! 0") (auto simp: wq_inv_def workers_ok_def)
  qed
  ultimately show ?thesis by (simp add: carried_def)
qed

text \<open>
  C13: The workers terminate, and where they end everybody has an answer: from any reachable state of a
  queue that is running, that is not being stopped, every run of the workers alone, whatever the analyses
  return or raise, takes at most two steps per queued request and one per running analysis, hence at most 200
  and the number of workers; and when no worker can take another step, no future is pending.  Once \<open>stop\<close>
  has begun this is false (\<open>stop_strands_requests\<close>).
\<close>
theorem workers_terminate:
  assumes "wq_reach cpus q" "wq_running q" "(worker_step ^^ n) q q'"
  shows "n \<le> 2 * length (wq_entries q) + length (busy (wq_workers q))
    \<and> n \<le> 2 * QUEUE_MAX_SIZE + max 1 cpus
    \<and> ((\<exists>q''. worker_step q' q'') \<or> (\<forall>f. dget (wq_futures q') f \<noteq> Some Pending))"
proof -
  note inv = wq_reach_inv [OF assms(1)]
  from worker_steps_inv [OF assms(3) inv assms(2)]
  have q': "wq_inv cpus q'" "wq_running q'" and n: "n \<le> load q" by simp_all
  have "length (busy ws) \<le> length ws" for ws
    by (induction ws) (auto simp: busy_def split: worker.split)
  then have "length (busy (wq_workers q)) \<le> max 1 cpus" using inv by (metis wq_inv_def workers_ok_def)
  moreover have "length (wq_entries q) \<le> QUEUE_MAX_SIZE" using inv by (simp add: wq_inv_def entries_ok_def)
  moreover have "dget (wq_futures q') f \<noteq> Some Pending" if "\<nexists>q''. worker_step q' q''" for f
    using q'(1) idle_workers [OF q' that] by (auto simp: wq_inv_def futures_ok_def)
  ultimately show ?thesis using n unfolding load_def by fastforce
qed

theorem workers_terminate_witness:
  "\<exists>q'. worker_step sample_queue q' \<and> (1 :: nat) \<le> 2 * length (wq_entries sample_queue) + length (busy (wq_workers sample_queue))"
proof -
  have "worker_step sample_queue (worker_take 0 sample_queue)"
    by (intro take_next) (simp_all add: sample_queue_eq)
  moreover from this have "(worker_step ^^ 1) sample_queue (worker_take 0 sample_queue)" by (simp only: relpowp_1)
  from workers_terminate [OF sample_reach _ this]
  have "(1 :: nat) \<le> 2 * length (wq_entries sample_queue) + length (busy (wq_workers sample_queue))"
    by (simp add: sample_queue_eq)
  ultimately show ?thesis by blast
qed

end
