(* ===== verification/MailBody.thy ===== *)
theory MailBody
  imports Notify
begin

text \<open>
  \<open>kuberca/notifications/email.py\<close>, the rest of the mail channel: the HTML part, the message, and the SMTP
  session that sends it.  In the template a tilde stands for a double quote.
\<close>

subsection \<open>The HTML part (_build_html)\<close>

fun mail_color :: "severity \<Rightarrow> str" where
  "mail_color INFO = ''#2e7d32''"
| "mail_color WARNING = ''#e65100''"
| "mail_color ERROR = ''#b71c1c''"
| "mail_color CRITICAL = ''#4a0000''"

definition dq :: "str \<Rightarrow> str" where
  "dq s = map (\<lambda>c. if c = CHR ''~'' then dquote else c) s"

definition email_html_lines :: "str \<Rightarrow> anomaly_alert \<Rightarrow> str list" where
  "email_html_lines alert_id a =
     [dq ''<!DOCTYPE html>'',
      dq ''<html lang=~en~>'',
      dq ''<head>'',
      dq ''  <meta charset=~utf-8~ />'',
      dq ''  <meta name=~viewport~ content=~width=device-width, initial-scale=1.0~ />'',
      dq ''  <title>KubeRCA Alert</title>'',
      dq ''</head>'',
      dq ''<body style=~font-family: -apple-system, BlinkMacSystemFont, 'Segoe UI', Roboto, sans-serif;'',
      dq ''             background: #f5f5f5; margin: 0; padding: 24px;~>'',
      dq ''  <table width=~600~ cellpadding=~0~ cellspacing=~0~'',
      dq ''         style=~background: #ffffff; border-radius: 8px;'',
      dq ''                box-shadow: 0 1px 3px rgba(0,0,0,.15); margin: 0 auto;~>'',
      dq ''    <tr>'',
      dq ''      <td style=~background: '' @ mail_color (al_severity a) @ dq ''; padding: 20px 28px; border-radius: 8px 8px 0 0;~>'',
      dq ''        <h1 style=~color: #ffffff; margin: 0; font-size: 20px;~>'',
      dq ''          KubeRCA Alert &mdash; '' @ upper (severity_value (al_severity a)),
      dq ''        </h1>'',
      dq ''      </td>'',
      dq ''    </tr>'',
      dq ''    <tr>'',
      dq ''      <td style=~padding: 24px 28px;~>'',
      dq ''        <table width=~100%~ cellpadding=~6~ cellspacing=~0~'',
      dq ''               style=~border-collapse: collapse; margin-bottom: 20px;~>'',
      dq ''          <tr style=~border-bottom: 1px solid #e0e0e0;~>'',
      dq ''            <td style=~color: #757575; width: 120px;~><strong>Resource</strong></td>'',
      dq ''            <td style=~font-family: monospace;~>'' @ al_kind a @ dq ''/'' @ al_name a @ dq ''</td>'',
      dq ''          </tr>'',
      dq ''          <tr style=~border-bottom: 1px solid #e0e0e0;~>'',
      dq ''            <td style=~color: #757575;~><strong>Namespace</strong></td>'',
      dq ''            <td style=~font-family: monospace;~>'' @ al_namespace a @ dq ''</td>'',
      dq ''          </tr>'',
      dq ''          <tr style=~border-bottom: 1px solid #e0e0e0;~>'',
      dq ''            <td style=~color: #757575;~><strong>Reason</strong></td>'',
      dq ''            <td>'' @ al_reason a @ dq ''</td>'',
      dq ''          </tr>'',
      dq ''          <tr style=~border-bottom: 1px solid #e0e0e0;~>'',
      dq ''            <td style=~color: #757575;~><strong>Events</strong></td>'',
      dq ''            <td>'' @ show_int (al_count a) @ dq ''</td>'',
      dq ''          </tr>'',
      dq ''          <tr>'',
      dq ''            <td style=~color: #757575;~><strong>Detected</strong></td>'',
      dq ''            <td>'' @ display_time (al_detected_at a) @ dq ''</td>'',
      dq ''          </tr>'',
      dq ''        </table>'',
      dq ''        <h2 style=~font-size: 15px; color: #424242; margin: 0 0 8px;~>Summary</h2>'',
      dq ''        <p style=~color: #212121; line-height: 1.6; margin: 0 0 20px;~>'' @ al_summary a @ dq ''</p>'',
      dq ''      </td>'',
      dq ''    </tr>'',
      dq ''    <tr>'',
      dq ''      <td style=~background: #f5f5f5; padding: 12px 28px; border-radius: 0 0 8px 8px;'',
      dq ''                 font-size: 12px; color: #9e9e9e;~>'',
      dq ''        Alert ID: '' @ alert_id,
      dq ''      </td>'',
      dq ''    </tr>'',
      dq ''  </table>'',
      dq ''</body>'',
      dq ''</html>'']"

definition email_html :: "str \<Rightarrow> anomaly_alert \<Rightarrow> str" where
  "email_html alert_id a = join newline (email_html_lines alert_id a)"

subsection \<open>The message and its delivery (_build_message, _send_sync)\<close>

record mail_message =
  mm_subject :: str
  mm_from :: str
  mm_to :: str
  mm_plain :: str
  mm_html :: str

definition build_message :: "smtp_config \<Rightarrow> str \<Rightarrow> str \<Rightarrow> anomaly_alert \<Rightarrow> mail_message" where
  "build_message cfg to_addr alert_id a =
     \<lparr>mm_subject = email_subject a, mm_from = sm_from cfg, mm_to = to_addr,
      mm_plain = email_plain alert_id a, mm_html = email_html alert_id a\<rparr>"

text \<open>The calls on the SMTP connection, in order; each may raise, which ends the session.\<close>

datatype smtp_call =
    ConnectTls str int
  | ConnectPlain str int
  | Ehlo
  | StartTls
  | Login str str
  | SendMessage mail_message

definition login_calls :: "smtp_config \<Rightarrow> smtp_call list" where
  "login_calls cfg = (if sm_username cfg \<noteq> [] then [Login (sm_username cfg) (sm_password cfg)] else [])"

definition send_sync :: "smtp_config \<Rightarrow> str \<Rightarrow> str \<Rightarrow> anomaly_alert \<Rightarrow> smtp_call list" where
  "send_sync cfg to_addr alert_id a =
     (let msg = build_message cfg to_addr alert_id a in
      if sm_tls cfg
      then [ConnectTls (sm_host cfg) (sm_port cfg)] @ login_calls cfg @ [SendMessage msg]
      else [ConnectPlain (sm_host cfg) (sm_port cfg), Ehlo, StartTls, Ehlo] @ login_calls cfg @ [SendMessage msg])"

text \<open>What a session makes of the attempt: all calls done, or the exception of the first one that raises\<close>

fun run_session :: "(smtp_call \<Rightarrow> attempt option) \<Rightarrow> smtp_call list \<Rightarrow> smtp_call list \<times> attempt" where
  "run_session raises [] = ([], SmtpDone)"
| "run_session raises (c # cs) =
     (case raises c of
        Some failure \<Rightarrow> ([c], failure)
      | None \<Rightarrow> (let (made, result) = run_session raises cs in (c # made, result)))"

subsection \<open>Nothing is sent in the clear\<close>

fun encrypts :: "smtp_call \<Rightarrow> bool" where
  "encrypts (ConnectTls host port) = True"
| "encrypts StartTls = True"
| "encrypts _ = False"

fun confidential :: "smtp_call \<Rightarrow> bool" where
  "confidential (Login user pass) = True"
| "confidential (SendMessage m) = True"
| "confidential _ = False"

text \<open>Every confidential call of a session comes after an encrypting one that succeeded.\<close>

fun guarded :: "(smtp_call \<Rightarrow> attempt option) \<Rightarrow> bool \<Rightarrow> smtp_call list \<Rightarrow> bool" where
  "guarded raises secure [] = True"
| "guarded raises secure (c # cs) =
     ((confidential c \<longrightarrow> secure) \<and> guarded raises (secure \<or> encrypts c \<and> raises c = None) cs)"

theorem mail_is_never_sent_in_clear:
  "guarded raises False (fst (run_session raises (send_sync cfg to_addr alert_id a)))"
  by (auto simp: send_sync_def login_calls_def Let_def split: option.split prod.split)

text \<open>The texts of the alert are pasted into the HTML as they are: markup in a summary is markup in the mail.\<close>

lemma str_in_join: "x \<in> set xs \<Longrightarrow> str_in s x \<Longrightarrow> str_in s (join sep xs)"
proof (induction xs)
  case (Cons y ys)
  show ?case
  proof (cases "x = y")
    case True
    then show ?thesis
      using Cons.prems str_in_append [of s x "[]"] by (cases ys) auto
  next
    case False
    then have "str_in s (join sep ys)" "ys \<noteq> []" using Cons by auto
    then show ?thesis using str_in_append [of s "join sep ys" "y @ sep" "[]"] by (simp add: join_Cons)
  qed
qed simp

theorem html_body_is_unescaped:
  "str_in (al_summary a) (email_html alert_id a)" "str_in (al_reason a) (email_html alert_id a)"
proof -
  have "\<exists>x \<in> set (email_html_lines alert_id a). str_in (al_summary a) x"
    "\<exists>x \<in> set (email_html_lines alert_id a). str_in (al_reason a) x"
    by (simp_all only: email_html_lines_def list.set bex_simps insert_iff, simp_all only: str_in_refl simp_thms)
  then show "str_in (al_summary a) (email_html alert_id a)" "str_in (al_reason a) (email_html alert_id a)"
    unfolding email_html_def using str_in_join by blast+
qed

end
