(* ===== verification/JsonLoads.thy ===== *)
theory JsonLoads
  imports Json
begin

text \<open>
  \<open>json.loads\<close>: a parser that returns the rest of its input, with the fuel of its recursion as an
  argument.  \<open>loads_json\<close> gives it the length of the text, which is always enough, and reads back
  what \<open>json.dumps\<close> writes.  Numbers with a fraction or an exponent, \<open>NaN\<close> and the infinities, and
  escapes above U+00FF have no value in this model (\<open>NotRepresentable\<close>).
\<close>

datatype json_error = JSONDecodeError | IntDigitLimit | NotRepresentable | OutOfFuel

type_synonym 'a scanned = "json_error + 'a \<times> str"

definition json_space :: "char \<Rightarrow> bool" where
  "json_space c \<longleftrightarrow> c = CHR '' '' \<or> c = CHR 0x09 \<or> c = CHR 0x0A \<or> c = CHR 0x0D"

definition skip_ws :: "str \<Rightarrow> str" where
  "skip_ws s = dropWhile json_space s"

definition scan_map :: "('a \<Rightarrow> 'b) \<Rightarrow> 'a scanned \<Rightarrow> 'b scanned" where
  "scan_map f r = (case r of Inl e \<Rightarrow> Inl e | Inr (v, rest) \<Rightarrow> Inr (f v, rest))"

lemma scan_map_Inr [simp]: "scan_map f (Inr (v, r)) = Inr (f v, r)"
  by (simp add: scan_map_def)

subsection \<open>Strings\<close>

definition hex_val :: "char \<Rightarrow> nat option" where
  "hex_val c =
     (let n = of_char c :: nat in
      if 48 \<le> n \<and> n \<le> 57 then Some (n - 48)
      else if 97 \<le> n \<and> n \<le> 102 then Some (n - 87)
      else if 65 \<le> n \<and> n \<le> 70 then Some (n - 55)
      else None)"

definition hex4 :: "char \<Rightarrow> char \<Rightarrow> char \<Rightarrow> char \<Rightarrow> nat option" where
  "hex4 a b c d =
     (case (hex_val a, hex_val b, hex_val c, hex_val d) of
        (Some w, Some x, Some y, Some z) \<Rightarrow> Some (4096 * w + 256 * x + 16 * y + z)
      | _ \<Rightarrow> None)"

definition unescape :: "char \<Rightarrow> char option" where
  "unescape c =
     (if c = dquote \<or> c = bslash \<or> c = CHR ''/'' then Some c
      else if c = CHR ''n'' then Some (CHR 0x0A)
      else if c = CHR ''r'' then Some (CHR 0x0D)
      else if c = CHR ''t'' then Some (CHR 0x09)
      else if c = CHR ''b'' then Some (CHR 0x08)
      else if c = CHR ''f'' then Some (CHR 0x0C)
      else None)"

text \<open>After the opening quote\<close>

fun scan_string :: "str \<Rightarrow> str scanned" where
  "scan_string [] = Inl JSONDecodeError"
| "scan_string (c # cs) =
     (if c = dquote then Inr ([], cs)
      else if c = bslash then
        (case cs of
           [] \<Rightarrow> Inl JSONDecodeError
         | e # es \<Rightarrow>
             (case unescape e of
                Some x \<Rightarrow> scan_map ((#) x) (scan_string es)
              | None \<Rightarrow>
                  if e = CHR ''u'' then
                    (case es of
                       w # x # y # z # rest \<Rightarrow>
                         (case hex4 w x y z of
                            None \<Rightarrow> Inl JSONDecodeError
                          | Some n \<Rightarrow>
                              if n < 256 then scan_map ((#) (char_of n)) (scan_string rest)
                              else Inl NotRepresentable)
                     | _ \<Rightarrow> Inl JSONDecodeError)
                  else Inl JSONDecodeError))
      else if (of_char c :: nat) < 32 then Inl JSONDecodeError
      else scan_map ((#) c) (scan_string cs))"

subsection \<open>Numbers\<close>

text \<open>\<open>(-?(?:0|[1-9][0-9]*))(\.[0-9]+)?([eE][-+]?[0-9]+)?\<close>\<close>

definition digit_first :: "str \<Rightarrow> bool" where
  "digit_first s = (case s of [] \<Rightarrow> False | c # _ \<Rightarrow> is_digit c)"

definition float_follows :: "str \<Rightarrow> bool" where
  "float_follows s =
     (case s of
        [] \<Rightarrow> False
      | c # cs \<Rightarrow>
          c = CHR ''.'' \<and> digit_first cs \<or>
          (c = CHR ''e'' \<or> c = CHR ''E'') \<and>
            (digit_first cs \<or>
             (case cs of
                [] \<Rightarrow> False
              | d # ds \<Rightarrow> (d = CHR ''+'' \<or> d = CHR ''-'') \<and> digit_first ds)))"

definition scan_digits :: "bool \<Rightarrow> str \<Rightarrow> pyval scanned" where
  "scan_digits neg s =
     (if \<not> digit_first s then Inl JSONDecodeError
      else
        let ds = (if hd s = CHR ''0'' then [hd s] else takeWhile is_digit s);
            rest = drop (length ds) s
        in if float_follows rest then Inl NotRepresentable
           else if 4300 < length ds then Inl IntDigitLimit
           else Inr (PInt (if neg then - int (read_nat ds) else int (read_nat ds)), rest))"

definition scan_number :: "str \<Rightarrow> pyval scanned" where
  "scan_number s =
     (case s of
        [] \<Rightarrow> Inl JSONDecodeError
      | c # cs \<Rightarrow> if c = CHR ''-'' then scan_digits True cs else scan_digits False s)"

definition scan_atom :: "str \<Rightarrow> pyval scanned" where
  "scan_atom s =
     (if prefix ''null'' s then Inr (PNone, drop 4 s)
      else if prefix ''true'' s then Inr (PBool True, drop 4 s)
      else if prefix ''false'' s then Inr (PBool False, drop 5 s)
      else if prefix ''NaN'' s \<or> prefix ''Infinity'' s \<or> prefix ''-Infinity'' s
        then Inl NotRepresentable
      else scan_number s)"

subsection \<open>Values\<close>

text \<open>The elements of a list, after the opening bracket\<close>

fun json_items :: "(str \<Rightarrow> 'a scanned) \<Rightarrow> nat \<Rightarrow> str \<Rightarrow> 'a list scanned" where
  "json_items p 0 s = Inl OutOfFuel"
| "json_items p (Suc n) s =
     (case p s of
        Inl e \<Rightarrow> Inl e
      | Inr (v, r) \<Rightarrow>
          (case skip_ws r of
             [] \<Rightarrow> Inl JSONDecodeError
           | c # cs \<Rightarrow>
               if c = CHR '']'' then Inr ([v], cs)
               else if c = CHR '','' then
                 scan_map ((#) v) (json_items p n (skip_ws cs))
               else Inl JSONDecodeError))"

text \<open>A key with its colon\<close>

definition json_key :: "str \<Rightarrow> str scanned" where
  "json_key s =
     (case s of
        [] \<Rightarrow> Inl JSONDecodeError
      | q # cs \<Rightarrow>
          if q \<noteq> dquote then Inl JSONDecodeError
          else
            (case scan_string cs of
               Inl e \<Rightarrow> Inl e
             | Inr (k, r) \<Rightarrow>
                 (case skip_ws r of
                    [] \<Rightarrow> Inl JSONDecodeError
                  | c # cs' \<Rightarrow> if c = CHR '':'' then Inr (k, skip_ws cs') else Inl JSONDecodeError)))"

fun json_members :: "(str \<Rightarrow> 'a scanned) \<Rightarrow> nat \<Rightarrow> str \<Rightarrow> (str \<times> 'a) list scanned" where
  "json_members p 0 s = Inl OutOfFuel"
| "json_members p (Suc n) s =
     (case json_key s of
        Inl e \<Rightarrow> Inl e
      | Inr (k, s') \<Rightarrow>
          (case p s' of
             Inl e \<Rightarrow> Inl e
           | Inr (v, r) \<Rightarrow>
               (case skip_ws r of
                  [] \<Rightarrow> Inl JSONDecodeError
                | c # cs \<Rightarrow>
                    if c = CHR ''}'' then Inr ([(k, v)], cs)
                    else if c = CHR '','' then
                      scan_map ((#) (k, v)) (json_members p n (skip_ws cs))
                    else Inl JSONDecodeError)))"

text \<open>\<open>dict(pairs)\<close>: the last value of a repeated key wins.\<close>

definition dict_of :: "(str \<times> 'a) list \<Rightarrow> (str, 'a) dict" where
  "dict_of ps = fold (\<lambda>(k, v) d. dset k v d) ps []"

fun json_value :: "nat \<Rightarrow> str \<Rightarrow> pyval scanned" where
  "json_value 0 s = Inl OutOfFuel"
| "json_value (Suc n) s =
     (case s of
        [] \<Rightarrow> Inl JSONDecodeError
      | c # cs \<Rightarrow>
          if c = dquote then
            scan_map PStr (scan_string cs)
          else if c = CHR ''{'' then
            (if prefix [CHR ''}''] (skip_ws cs) then Inr (PDict [], tl (skip_ws cs))
             else scan_map (\<lambda>ps. PDict (dict_of ps)) (json_members (json_value n) n (skip_ws cs)))
          else if c = CHR ''['' then
            (if prefix [CHR '']''] (skip_ws cs) then Inr (PList [], tl (skip_ws cs))
             else scan_map PList (json_items (json_value n) n (skip_ws cs)))
          else scan_atom s)"

definition loads_json :: "str \<Rightarrow> json_error + pyval" where
  "loads_json s =
     (case json_value (Suc (length s)) (skip_ws s) of
        Inl e \<Rightarrow> Inl e
      | Inr (v, r) \<Rightarrow> if skip_ws r = [] then Inr v else Inl JSONDecodeError)"

subsection \<open>The fuel is enough\<close>

text \<open>A scan that leaves a shorter rest and does not run out of fuel.\<close>

definition progress :: "nat \<Rightarrow> 'a scanned \<Rightarrow> bool" where
  "progress n r = (case r of Inl e \<Rightarrow> e \<noteq> OutOfFuel | Inr (v, rest) \<Rightarrow> length rest < n)"

lemma progress_simps [simp]:
  "progress n (Inl e) \<longleftrightarrow> e \<noteq> OutOfFuel"
  "progress n (Inr (v, rest)) \<longleftrightarrow> length rest < n"
  by (simp_all add: progress_def)

lemma progress_mono: "progress m r \<Longrightarrow> m \<le> n \<Longrightarrow> progress n r"
  by (auto simp: progress_def split: sum.splits)

lemma length_skip_ws: "length (skip_ws s) \<le> length s"
  by (simp add: skip_ws_def length_dropWhile_le)

lemma skip_ws_Cons_length: "skip_ws s = c # cs \<Longrightarrow> length cs < length s"
  using length_skip_ws [of s] by simp

lemma progress_scan_map [simp]: "progress n (scan_map f r) = progress n r"
  by (auto simp: scan_map_def progress_def split: sum.splits)

declare scan_string.simps(2) [simp del]

lemma scan_string_progress: "progress (Suc (length s)) (scan_string s)"
proof (induction "length s" arbitrary: s rule: less_induct)
  case less
  have IH: "progress n (scan_string t)" if "length t < length s" "length t < n" for t n
    using less.hyps [OF that(1)] that(2) by (auto intro: progress_mono)
  show ?case
  proof (cases s)
    case (Cons c cs)
    have escape: "progress (Suc (length s))
        (case cs of
           [] \<Rightarrow> Inl JSONDecodeError
         | e # es \<Rightarrow>
             (case unescape e of
                Some x \<Rightarrow> scan_map ((#) x) (scan_string es)
              | None \<Rightarrow>
                  if e = CHR ''u'' then
                    (case es of
                       w # x # y # z # rest \<Rightarrow>
                         (case hex4 w x y z of
                            None \<Rightarrow> Inl JSONDecodeError
                          | Some n \<Rightarrow>
                              if n < 256 then scan_map ((#) (char_of n)) (scan_string rest)
                              else Inl NotRepresentable)
                     | _ \<Rightarrow> Inl JSONDecodeError)
                  else Inl JSONDecodeError))"
      by (simp add: IH Cons split: list.split option.split)
    show ?thesis
      unfolding Cons scan_string.simps(2) using escape IH [of cs]
      by (simp add: Cons)
  qed simp
qed

lemma scan_string_shorter: "progress (length (c # s)) (scan_string s)"
  using scan_string_progress [of s] by simp

lemma scan_digits_progress: "progress (length s) (scan_digits neg s)"
  by (cases s) (auto simp: scan_digits_def digit_first_def Let_def)

lemma scan_number_progress: "progress (length s) (scan_number s)"
  unfolding scan_number_def
  by (cases s) (auto intro: scan_digits_progress progress_mono [OF scan_digits_progress])

lemma scan_atom_progress: "s \<noteq> [] \<Longrightarrow> progress (length s) (scan_atom s)"
  using scan_number_progress [of s]
  by (cases "prefix ''null'' s"; cases "prefix ''true'' s"; cases "prefix ''false'' s")
     (simp_all add: scan_atom_def del: prefix_code)

lemma json_items_progress:
  assumes p: "\<And>t. length t \<le> length s \<Longrightarrow> progress (length t) (p t)"
  shows "length s < n \<Longrightarrow> progress (length s) (json_items p n s)"
  using p
proof (induction n arbitrary: s)
  case (Suc n)
  have head: "progress (length s) (p s)" using Suc.prems(2) by blast
  have tail: "progress (length t) (json_items p n t)" if "length t < length s" for t
    using that Suc.prems by (intro Suc.IH) auto
  show ?case
  proof (cases "p s")
    case (Inr a)
    obtain v r where a: "a = (v, r)" by (cases a)
    with head Inr have r: "length r < length s" by simp
    show ?thesis
    proof (cases "skip_ws r")
      case (Cons c cs)
      then have "length (skip_ws cs) < length s"
        using r skip_ws_Cons_length [OF Cons] length_skip_ws [of cs] by linarith
      from progress_mono [OF tail [OF this], of "length s"] show ?thesis
        using Inr a Cons r skip_ws_Cons_length [OF Cons] \<open>length (skip_ws cs) < length s\<close>
        by (auto split: sum.splits)
    qed (simp add: Inr a)
  qed (use head in simp)
qed simp

lemma json_key_progress: "progress (length s) (json_key s)"
proof (cases s)
  case (Cons q cs)
  show ?thesis
  proof (cases "scan_string cs")
    case (Inr a)
    obtain k r where a: "a = (k, r)" by (cases a)
    then have r: "length r < length (q # cs)" using scan_string_shorter [of q cs] Inr by simp
    show ?thesis
    proof (cases "skip_ws r")
      case (Cons c cs')
      then show ?thesis
        using r \<open>s = q # cs\<close> Inr a skip_ws_Cons_length [OF Cons] length_skip_ws [of cs']
        by (simp add: json_key_def)
    qed (simp add: json_key_def \<open>s = q # cs\<close> Inr a)
  qed (use scan_string_shorter [of q cs] in \<open>simp add: json_key_def Cons\<close>)
qed (simp add: json_key_def)

lemma json_members_progress:
  assumes p: "\<And>t. length t \<le> length s \<Longrightarrow> progress (length t) (p t)"
  shows "length s < n \<Longrightarrow> progress (length s) (json_members p n s)"
  using p
proof (induction n arbitrary: s)
  case (Suc n)
  have tail: "progress (length t) (json_members p n t)" if "length t < length s" for t
    using that Suc.prems by (intro Suc.IH) auto
  show ?case
  proof (cases "json_key s")
    case (Inr b)
    obtain k s' where b: "b = (k, s')" by (cases b)
    then have s': "length s' < length s" using json_key_progress [of s] Inr by simp
    then have head: "progress (length s') (p s')" using Suc.prems(2) by simp
    show ?thesis
    proof (cases "p s'")
      case P: (Inr a)
      obtain v r where a: "a = (v, r)" by (cases a)
      with head P s' have r: "length r < length s" by simp
      show ?thesis
      proof (cases "skip_ws r")
        case (Cons c cs)
        then have l: "length (skip_ws cs) < length s"
          using r skip_ws_Cons_length [OF Cons] length_skip_ws [of cs] by linarith
        from progress_mono [OF tail [OF this], of "length s"] show ?thesis
          using Inr b P a Cons r skip_ws_Cons_length [OF Cons] l by (auto split: sum.splits)
      qed (simp add: Inr b P a)
    qed (use head in \<open>simp add: Inr b\<close>)
  qed (use json_key_progress [of s] in simp)
qed simp

lemma progress_skip:
  "progress (length (skip_ws cs)) r \<Longrightarrow> progress (Suc (length cs)) r"
  using length_skip_ws [of cs] by (auto intro: progress_mono)

lemma json_value_progress: "length s < n \<Longrightarrow> progress (length s) (json_value n s)"
proof (induction n arbitrary: s)
  case (Suc n)
  show ?case
  proof (cases s)
    case (Cons c cs)
    with Suc.prems have n: "length cs < n" by simp
    have sk: "length (skip_ws cs) < n" using n length_skip_ws [of cs] by linarith
    have rec: "progress (length t) (json_value n t)" if "length t \<le> length (skip_ws cs)" for t
      using that sk by (intro Suc.IH) simp
    have items: "progress (Suc (length cs)) (json_items (json_value n) n (skip_ws cs))"
      by (rule progress_skip, rule json_items_progress) (use rec sk in auto)
    have mem: "progress (Suc (length cs)) (json_members (json_value n) n (skip_ws cs))"
      by (rule progress_skip, rule json_members_progress) (use rec sk in auto)
    have tl: "length (tl (skip_ws cs)) < Suc (length cs)" using length_skip_ws [of cs] by simp
    show ?thesis
      unfolding Cons json_value.simps using items mem tl scan_string_progress [of cs]
        scan_atom_progress [of "c # cs"]
      by simp
  qed simp
qed simp

lemma json_value_enough: "length s \<le> n \<Longrightarrow> json_value (Suc n) s \<noteq> Inl OutOfFuel"
  using json_value_progress [of s "Suc n"] by (cases "json_value (Suc n) s") auto

subsection \<open>Reading back what dumps writes\<close>

lemma scan_string_char: "scan_string (json_char c @ t) = scan_map ((#) c) (scan_string t)"
proof -
  have esc: "scan_string (bslash # CHR ''u'' # CHR ''0'' # CHR ''0'' # hex_char (n div 16) # hex_char (n mod 16) # t)
      = scan_map ((#) (char_of n)) (scan_string t)" if "n < 256" for n
  proof -
    have d: "hex_val (hex_char d) = Some d" if "d < 16" for d
      using that by (auto simp: hex_val_def hex_char_def Let_def)
    have "n div 16 < 16" using that by simp
    then have "hex4 (CHR ''0'') (CHR ''0'') (hex_char (n div 16)) (hex_char (n mod 16)) = Some n"
      by (simp add: hex4_def d hex_val_def [of "CHR ''0''"])
    with that show ?thesis
      by (simp add: scan_string.simps(2) [of "CHR 0x5C"] unescape_def bslash_def dquote_def)
  qed
  have lt: "(of_char c :: nat) < 256" by simp
  have code: "c = char_of n" if "(of_char c :: nat) = n" for n
    using that by (metis char_of_char)
  have short: "scan_string (bslash # e # t) = scan_map ((#) c) (scan_string t)"
    if "unescape e = Some c" for e
    using that by (simp add: scan_string.simps(2) [of "CHR 0x5C"] bslash_def dquote_def)
  consider "c = dquote \<or> c = bslash" | "c = CHR 0x0A \<or> c = CHR 0x0D \<or> c = CHR 0x09 \<or> c = CHR 0x08 \<or> c = CHR 0x0C"
    | "c \<noteq> dquote" "c \<noteq> bslash" "c \<noteq> CHR 0x0A" "c \<noteq> CHR 0x0D" "c \<noteq> CHR 0x09" "c \<noteq> CHR 0x08" "c \<noteq> CHR 0x0C"
    by blast
  then show ?thesis
  proof cases
    case 1
    then have "unescape c = Some c" by (auto simp: unescape_def)
    then show ?thesis using short [of c] 1 by (simp add: json_char_def)
  next
    case 2
    then show ?thesis
      using short [of "CHR ''n''"] short [of "CHR ''r''"] short [of "CHR ''t''"] short [of "CHR ''b''"]
        short [of "CHR ''f''"]
      by (auto simp: json_char_def unescape_def dquote_def bslash_def)
  next
    case 3
    have codes: "(of_char c :: nat) \<noteq> 10" "(of_char c :: nat) \<noteq> 13" "(of_char c :: nat) \<noteq> 9"
      "(of_char c :: nat) \<noteq> 8" "(of_char c :: nat) \<noteq> 12"
      using 3(3-7) code [of 10] code [of 13] code [of 9] code [of 8] code [of 12]
      by (auto simp: char_of_def)
    show ?thesis
    proof (cases "(of_char c :: nat) < 32 \<or> 127 \<le> (of_char c :: nat)")
      case True
      then have "json_char c = bslash # CHR ''u'' # CHR ''0'' # CHR ''0'' #
          hex_char (of_char c div 16) # hex_char (of_char c mod 16) # []"
        using 3 codes by (simp add: json_char_def Let_def)
      then show ?thesis using esc [OF lt] by simp
    next
      case False
      then have "json_char c = [c]" using 3 codes by (simp add: json_char_def Let_def)
      then show ?thesis using 3 False by (simp add: scan_string.simps(2) [of c])
    qed
  qed
qed

lemma scan_string_text: "scan_string (concat (map json_char s) @ dquote # r) = Inr (s, r)"
  by (induction s) (simp_all add: scan_string.simps(2) [of dquote] scan_string_char)

text \<open>What may follow a value inside a text that \<open>dumps\<close> wrote\<close>

definition stops :: "str \<Rightarrow> bool" where
  "stops r \<longleftrightarrow> r = [] \<or> hd r = CHR '','' \<or> hd r = CHR '']'' \<or> hd r = CHR ''}'' \<or> json_space (hd r)"

lemma stops_not_digit: "stops r \<Longrightarrow> r = [] \<or> \<not> is_digit (hd r)"
  by (auto simp: stops_def is_digit_def json_space_def)

lemma stops_no_float: "stops r \<Longrightarrow> \<not> float_follows r"
  by (auto simp: stops_def float_follows_def json_space_def split: list.splits)

lemma stops_Cons [simp]:
  "stops (CHR '','' # r)" "stops (CHR '']'' # r)" "stops (CHR ''}'' # r)"
  by (simp_all add: stops_def)

text \<open>The integers \<open>str\<close> converts: at most 4300 digits\<close>

fun ints_ok :: "pyval \<Rightarrow> bool" where
  "ints_ok (PInt n) \<longleftrightarrow> length (show_nat (nat \<bar>n\<bar>)) \<le> 4300"
| "ints_ok (PList xs) \<longleftrightarrow> list_all ints_ok xs"
| "ints_ok (PDict d) \<longleftrightarrow> list_all (\<lambda>(k, v). ints_ok v) d"
| "ints_ok _ \<longleftrightarrow> True"

lemma show_nat_zero_first: "hd (show_nat n) = CHR ''0'' \<Longrightarrow> n = 0"
proof (induction n rule: show_nat.induct)
  case (1 n)
  have d: "(of_char (digit_char n) :: nat) = 48 + n mod 10"
  proof -
    have "48 + n mod 10 < (256::nat)" using mod_less_divisor [of 10 n] by linarith
    then show ?thesis by (simp add: digit_char_def)
  qed
  show ?case
  proof (cases "n < 10")
    case True
    then show ?thesis using 1(2) d by (auto simp: show_nat.simps [of n])
  next
    case False
    then have "hd (show_nat (n div 10)) = CHR ''0''"
      using 1(2) by (simp add: show_nat.simps [of n])
    with 1(1) False have "n div 10 = 0" by blast
    with False show ?thesis by simp
  qed
qed

lemma show_nat_zero: "show_nat 0 = ''0''"
proof -
  have "digit_char 0 = CHR ''0''" by code_simp
  then show ?thesis by (simp add: show_nat.simps)
qed

lemma scan_digits_show:
  assumes "stops r" "length (show_nat n) \<le> 4300"
  shows "scan_digits neg (show_nat n @ r) = Inr (PInt (if neg then - int n else int n), r)"
proof -
  obtain c cs where cs: "show_nat n = c # cs" by (metis list.exhaust show_nat_nonempty)
  have dig: "\<forall>x \<in> set (show_nat n). is_digit x" by (rule show_nat_digits)
  have run: "takeWhile is_digit (show_nat n @ r) = show_nat n"
    using dig stops_not_digit [OF assms(1)] by (cases r) (auto simp: takeWhile_append2)
  have ds: "(if hd (show_nat n @ r) = CHR ''0'' then [hd (show_nat n @ r)]
      else takeWhile is_digit (show_nat n @ r)) = show_nat n"
    using show_nat_zero_first [of n] cs run by (auto simp: show_nat_zero)
  have "digit_first (show_nat n @ r)" using dig by (simp add: digit_first_def cs)
  then show ?thesis
    unfolding scan_digits_def Let_def ds
    using assms stops_no_float [OF assms(1)] read_show_nat [of n] by simp
qed

lemma digit_not_letter:
  "is_digit c \<Longrightarrow> c \<noteq> CHR ''n'' \<and> c \<noteq> CHR ''t'' \<and> c \<noteq> CHR ''f'' \<and> c \<noteq> CHR ''N'' \<and> c \<noteq> CHR ''I''
     \<and> c \<noteq> CHR ''-'' \<and> c \<noteq> dquote \<and> c \<noteq> CHR ''{'' \<and> c \<noteq> CHR ''['' \<and> \<not> json_space c
     \<and> c \<noteq> CHR '']'' \<and> c \<noteq> CHR ''}''"
  by (auto simp: is_digit_def json_space_def dquote_def)

lemma show_nat_Cons: obtains c cs where "show_nat n = c # cs" "is_digit c"
  using show_nat_digits [of n] show_nat_nonempty [of n] by (cases "show_nat n") auto

lemma scan_atom_int:
  assumes "stops r" "ints_ok (PInt n)"
  shows "scan_atom (show_int n @ r) = Inr (PInt n, r)"
proof (cases "n < 0")
  case True
  obtain c cs where c: "show_nat (nat (- n)) = c # cs" "is_digit c" by (rule show_nat_Cons)
  have "scan_digits True (show_nat (nat (- n)) @ r) = Inr (PInt n, r)"
    using scan_digits_show [OF assms(1), of "nat (- n)" True] assms(2) True by simp
  then show ?thesis
    using digit_not_letter [OF c(2)] True by (auto simp add: scan_atom_def scan_number_def show_int_def c(1))
next
  case False
  obtain c cs where c: "show_nat (nat n) = c # cs" "is_digit c" by (rule show_nat_Cons)
  have "scan_digits False (show_nat (nat n) @ r) = Inr (PInt n, r)"
    using scan_digits_show [OF assms(1), of "nat n" False] assms(2) False by simp
  then show ?thesis
    using digit_not_letter [OF c(2)] False by (auto simp add: scan_atom_def scan_number_def show_int_def c(1))
qed

text \<open>The first character of a value\<close>

definition opens :: "str \<Rightarrow> bool" where
  "opens s \<longleftrightarrow> s \<noteq> [] \<and> \<not> json_space (hd s) \<and> hd s \<noteq> CHR '']'' \<and> hd s \<noteq> CHR ''}''"

lemma opens_Cons [simp]:
  "opens (c # s) \<longleftrightarrow> \<not> json_space c \<and> c \<noteq> CHR '']'' \<and> c \<noteq> CHR ''}''"
  by (simp add: opens_def)

lemma opens_append: "opens s \<Longrightarrow> opens (s @ t)"
  by (simp add: opens_def)

lemma opens_show_int: "opens (show_int n)"
proof -
  obtain c cs where c: "show_nat (nat n) = c # cs" "is_digit c" by (rule show_nat_Cons)
  show ?thesis using c digit_not_letter [OF c(2)] by (simp add: show_int_def json_space_def)
qed

lemma opens_spaced: "opens (json_spaced v)"
  by (cases v) (simp_all add: opens_show_int json_text_def json_space_def dquote_def)

lemma skip_ws_opens [simp]: "opens s \<Longrightarrow> skip_ws s = s"
  by (cases s) (simp_all add: skip_ws_def)

lemma skip_ws_spaced [simp]: "skip_ws (json_spaced v @ r) = json_spaced v @ r"
  by (simp add: opens_append opens_spaced)

lemma skip_ws_blank [simp]: "skip_ws (CHR '' '' # r) = skip_ws r"
  by (simp add: skip_ws_def json_space_def)

lemma skip_ws_bracket [simp]:
  "skip_ws (CHR '']'' # r) = CHR '']'' # r" "skip_ws (CHR ''}'' # r) = CHR ''}'' # r"
  "skip_ws (CHR '','' # r) = CHR '','' # r"
  by (simp_all add: skip_ws_def json_space_def)

lemma skip_ws_append: "list_all json_space ws \<Longrightarrow> skip_ws (ws @ s) = skip_ws s"
  by (induction ws) (simp_all add: skip_ws_def)

text \<open>Before a closing bracket there may be a break.\<close>

lemma stops_break: "list_all json_space ws \<Longrightarrow> stops (ws @ CHR '']'' # r)"
  "list_all json_space ws \<Longrightarrow> stops (ws @ CHR ''}'' # r)"
  by (cases ws; simp add: stops_def)+

lemma skip_ws_quote [simp]: "skip_ws (dquote # r) = dquote # r"
  by (simp add: skip_ws_def json_space_def dquote_def)

lemma opens_join:
  assumes "xs \<noteq> []" "\<And>x. x \<in> set xs \<Longrightarrow> opens (f x)"
  shows "opens (join sep (map f xs) @ r)"
proof -
  obtain x ys where "xs = x # ys" using assms(1) by (cases xs) auto
  then show ?thesis using assms(2) [of x] by (cases ys) (auto intro: opens_append)
qed

text \<open>The elements \<open>f x\<close> with blanks after the commas and before the bracket\<close>

lemma json_items_join:
  assumes "xs \<noteq> []" "length xs \<le> n" "list_all json_space ws" "list_all json_space ws'"
    and "\<And>x t. x \<in> set xs \<Longrightarrow> stops t \<Longrightarrow> p (f x @ t) = Inr (x, t)"
    and "\<And>x. x \<in> set xs \<Longrightarrow> opens (f x)"
  shows "json_items p n (join (CHR '','' # ws) (map f xs) @ ws' @ CHR '']'' # r) = Inr (xs, r)"
  using assms(1,2,5,6)
proof (induction xs arbitrary: n)
  case (Cons x xs)
  then obtain m where n: "n = Suc m" "length xs \<le> m" by (cases n) auto
  show ?case
  proof (cases "xs = []")
    case True
    then show ?thesis
      using Cons.prems(3) [of x "ws' @ CHR '']'' # r"] n assms(4) by (simp add: stops_break skip_ws_append)
  next
    case False
    have "json_items p m (join (CHR '','' # ws) (map f xs) @ ws' @ CHR '']'' # r) = Inr (xs, r)"
      using False n Cons.prems(3,4) by (intro Cons.IH) auto
    moreover have "skip_ws (join (CHR '','' # ws) (map f xs) @ t) = join (CHR '','' # ws) (map f xs) @ t" for t
      using False Cons.prems(4) by (intro skip_ws_opens opens_join) auto
    ultimately show ?thesis
      using Cons.prems(3) [of x] n False assms(3) by (simp add: join_Cons skip_ws_append)
  qed
qed simp

definition member_with :: "('a \<Rightarrow> str) \<Rightarrow> str \<times> 'a \<Rightarrow> str" where
  "member_with f kv = (case kv of (k, v) \<Rightarrow> json_text k @ '': '' @ f v)"

lemma opens_text: "opens (json_text k @ r)"
  by (simp add: json_text_def json_space_def dquote_def)

lemma opens_member: "opens (member_with f kv)"
  by (cases kv) (simp add: member_with_def opens_text)

lemma json_key_text:
  assumes "opens (f v)"
  shows "json_key (json_text k @ '': '' @ f v @ r) = Inr (k, f v @ r)"
  using skip_ws_opens [OF opens_append [OF assms], of r]
  by (simp add: json_key_def json_text_def scan_string_text [of k, simplified] skip_ws_def [of "CHR '':'' # _"]
      json_space_def)

lemma json_members_join:
  assumes "ps \<noteq> []" "length ps \<le> n" "list_all json_space ws" "list_all json_space ws'"
    and "\<And>k v t. (k, v) \<in> set ps \<Longrightarrow> stops t \<Longrightarrow> p (f v @ t) = Inr (v, t)"
    and "\<And>k v. (k, v) \<in> set ps \<Longrightarrow> opens (f v)"
  shows "json_members p n (join (CHR '','' # ws) (map (member_with f) ps) @ ws' @ CHR ''}'' # r) = Inr (ps, r)"
  using assms(1,2,5,6)
proof (induction ps arbitrary: n)
  case (Cons kv ps)
  obtain k v where kv: "kv = (k, v)" by (cases kv)
  from Cons.prems obtain m where n: "n = Suc m" "length ps \<le> m" by (cases n) auto
  have p: "p (f v @ t) = Inr (v, t)" if "stops t" for t
    using Cons.prems(3) [of k v] that kv by simp
  have key: "json_key (json_text k @ '': '' @ f v @ t) = Inr (k, f v @ t)" for t
    using Cons.prems(4) [of k v] kv by (intro json_key_text) simp
  show ?case
  proof (cases "ps = []")
    case True
    then show ?thesis
      using key p [of "ws' @ CHR ''}'' # r"] assms(4) by (simp add: n kv member_with_def stops_break skip_ws_append)
  next
    case False
    have "json_members p m (join (CHR '','' # ws) (map (member_with f) ps) @ ws' @ CHR ''}'' # r) = Inr (ps, r)"
      using False n Cons.prems(4) by (intro Cons.IH Cons.prems(3)) fastforce+
    moreover have "skip_ws (join (CHR '','' # ws) (map (member_with f) ps) @ t)
        = join (CHR '','' # ws) (map (member_with f) ps) @ t" for t
      using False by (intro skip_ws_opens opens_join) (auto simp: opens_member)
    ultimately show ?thesis
      using key p [of "CHR '','' # _"] False assms(3)
      by (simp add: n kv member_with_def [of f "(k, v)"] join_Cons skip_ws_append)
  qed
qed simp

lemma dset_append: "k \<notin> set (dkeys d) \<Longrightarrow> dset k v d = d @ [(k, v)]"
  by (induction d) auto

lemma dict_of_distinct: "dwf ps \<Longrightarrow> dict_of ps = ps"
proof -
  have "dwf (d @ ps) \<Longrightarrow> fold (\<lambda>(k, v) d. dset k v d) ps d = d @ ps" for d
    by (induction ps arbitrary: d) (auto simp: dwf_def dset_append)
  from this [of "[]"] show "dwf ps \<Longrightarrow> dict_of ps = ps" by (simp add: dict_of_def)
qed

lemma length_join_ge: "(\<And>x. x \<in> set xs \<Longrightarrow> x \<noteq> []) \<Longrightarrow> length xs \<le> length (join sep xs)"
proof (induction xs)
  case (Cons x xs)
  then have "x \<noteq> []" "length xs \<le> length (join sep xs)" by simp_all
  then show ?case by (cases x; cases "xs = []") (simp_all add: join_Cons)
qed simp

lemma length_join_mem: "x \<in> set xs \<Longrightarrow> length x \<le> length (join sep xs)"
proof (induction xs)
  case (Cons y ys)
  then show ?case by (cases "ys = []") (auto simp: join_Cons)
qed simp

lemma json_value_spaced:
  assumes "vwf v" "ints_ok v" "length (json_spaced v) < n" "stops r"
  shows "json_value n (json_spaced v @ r) = Inr (v, r)"
  using assms
proof (induction v arbitrary: n r rule: pyval_induct)
  case PNone
  then show ?case by (cases n) (simp_all add: scan_atom_def dquote_def)
next
  case (PBool b)
  then show ?case by (cases n; cases b) (simp_all add: scan_atom_def dquote_def)
next
  case (PInt i)
  then obtain m where n: "n = Suc m" by (cases n) auto
  obtain c cs where c: "show_int i = c # cs" "c \<noteq> dquote" "c \<noteq> CHR ''{''" "c \<noteq> CHR ''[''"
  proof -
    obtain c cs where "show_nat (nat i) = c # cs" "is_digit c" by (rule show_nat_Cons)
    with digit_not_letter [OF this(2)] show ?thesis
      by (intro that [of "hd (show_int i)" "tl (show_int i)"]) (auto simp: show_int_def dquote_def)
  qed
  then show ?case
    using scan_atom_int [OF PInt(4) PInt(2)] by (simp add: n)
next
  case (PStr t)
  then show ?case by (cases n) (simp_all add: json_text_def scan_string_text)
next
  case (PList xs)
  then obtain m where n: "n = Suc m" by (cases n) auto
  show ?case
  proof (cases "xs = []")
    case True
    then show ?thesis by (simp add: n dquote_def)
  next
    case False
    let ?ts = "map json_spaced xs"
    have m: "length (join '', '' ?ts) < m" using PList.prems(3) n by simp
    have "length ?ts \<le> length (join '', '' ?ts)"
      by (rule length_join_ge) (use opens_spaced in \<open>auto simp: opens_def\<close>)
    moreover have "json_value m (json_spaced x @ t) = Inr (x, t)" if "x \<in> set xs" "stops t" for x t
    proof (rule PList.IH [OF that(1) _ _ _ that(2)])
      show "vwf x" "ints_ok x" using that(1) PList.prems(1,2) by (auto simp: list_all_iff)
      have "length (json_spaced x) \<le> length (join '', '' ?ts)"
        by (rule length_join_mem) (use that in simp)
      then show "length (json_spaced x) < m" using m by linarith
    qed
    ultimately have items: "json_items (json_value m) m (join '', '' ?ts @ CHR '']'' # r) = Inr (xs, r)"
      using m False json_items_join [of xs m "'' ''" "[]" "json_value m" json_spaced r] opens_spaced
      by (simp add: json_space_def)
    have "opens (join '', '' ?ts @ CHR '']'' # r)"
      using False opens_spaced by (intro opens_join) auto
    then have "skip_ws (join '', '' ?ts @ CHR '']'' # r) = join '', '' ?ts @ CHR '']'' # r"
      "\<not> prefix [CHR '']''] (join '', '' ?ts @ CHR '']'' # r)"
      by (auto simp: opens_def prefix_def)
    then show ?thesis using items by (simp add: n dquote_def)
  qed
next
  case (PDict d)
  then obtain m where n: "n = Suc m" by (cases n) auto
  show ?case
  proof (cases "d = []")
    case True
    then show ?thesis by (simp add: n dquote_def)
  next
    case False
    let ?ts = "map (member_with json_spaced) d"
    have "member_with json_spaced = (\<lambda>(k, v). json_text k @ '': '' @ json_spaced v)"
      by (simp add: fun_eq_iff member_with_def)
    then have m: "length (join '', '' ?ts) < m" using PDict.prems(3) n by simp
    have "length ?ts \<le> length (join '', '' ?ts)"
      by (rule length_join_ge) (auto simp: member_with_def json_text_def)
    moreover have "json_value m (json_spaced v @ t) = Inr (v, t)" if "(k, v) \<in> set d" "stops t" for k v t
    proof (rule PDict.IH [OF that(1) _ _ _ that(2)])
      show "vwf v" "ints_ok v" using that(1) PDict.prems(1,2) by (auto simp: list_all_iff)
      have "length (member_with json_spaced (k, v)) \<le> length (join '', '' ?ts)"
        by (rule length_join_mem) (use that in force)
      then show "length (json_spaced v) < m" using m by (simp add: member_with_def)
    qed
    ultimately have items: "json_members (json_value m) m (join '', '' ?ts @ CHR ''}'' # r) = Inr (d, r)"
      using m False json_members_join [of d m "'' ''" "[]" "json_value m" json_spaced r] opens_spaced
      by (simp add: json_space_def)
    have "opens (join '', '' ?ts @ CHR ''}'' # r)"
      using False opens_member by (intro opens_join) auto
    then have "skip_ws (join '', '' ?ts @ CHR ''}'' # r) = join '', '' ?ts @ CHR ''}'' # r"
      "\<not> prefix [CHR ''}''] (join '', '' ?ts @ CHR ''}'' # r)"
      by (auto simp: opens_def prefix_def)
    moreover have "dict_of d = d" using PDict.prems(1) by (simp add: dict_of_distinct)
    ultimately show ?thesis using items by (simp add: n dquote_def member_with_def [abs_def])
  qed
qed

lemma json_loads_spaced:
  assumes "vwf v" "ints_ok v"
  shows "loads_json (json_spaced v) = Inr v"
proof -
  have "json_value (Suc (length (json_spaced v))) (json_spaced v @ []) = Inr (v, [])"
    by (rule json_value_spaced) (use assms in \<open>simp_all add: stops_def\<close>)
  then show ?thesis
    by (simp add: loads_json_def opens_spaced skip_ws_def [of "[]"] del: json_value.simps)
qed

text \<open>
  Reading a text always ends: the fuel, one more than its length, is never used up, so every text
  is either the value it denotes or one of the two errors Python raises (or a literal outside the
  model).
\<close>

theorem json_loads_ends: "loads_json s \<noteq> Inl OutOfFuel"
proof -
  have "json_value (Suc (length s)) (skip_ws s) \<noteq> Inl OutOfFuel"
    using length_skip_ws [of s] by (rule json_value_enough)
  then show ?thesis
    by (auto simp: loads_json_def simp del: json_value.simps split: sum.split)
qed

end
