(* ===== verification/IsoTime.thy ===== *)
theory IsoTime
  imports PyTime
begin

text \<open>
  Reading \<open>isoformat\<close> texts back, and their order: comparing the texts of two instants, as the SQL
  of the persistent ledger does, is comparing the instants.
\<close>

subsection \<open>The calendar\<close>

definition year_start :: "int \<Rightarrow> int" where
  "year_start Y = 365 * Y + Y div 4 - Y div 100 + Y div 400"

text \<open>Day number of a date (proleptic Gregorian), counted from 1970-01-01\<close>

definition days_from_civil :: "int \<times> int \<times> int \<Rightarrow> int" where
  "days_from_civil ymd =
     (case ymd of (y, m, d) \<Rightarrow>
        let Y = (if m \<le> 2 then y - 1 else y); mp = (if m \<le> 2 then m + 9 else m - 3)
        in year_start Y + (153 * mp + 2) div 5 + d - 1 - 719468)"

text \<open>The year (counted from March) of a day within a cycle of 400 years\<close>

definition cycle_days :: "int \<Rightarrow> int" where
  "cycle_days doe = doe - doe div 1460 + doe div 36524 - doe div 146096"

lemma div_step:
  assumes "0 < (k::int)"
  shows "(x + 1) div k = x div k + (if k dvd x + 1 then 1 else 0)"
proof -
  define q r where "q = x div k" and "r = x mod k"
  have x: "x + 1 = (r + 1) + q * k" and r: "0 \<le> r" "r < k"
    using assms div_mult_mod_eq [of x k] pos_mod_bound [of k x] pos_mod_sign [of k x]
    unfolding q_def r_def by linarith+
  have "(x + 1) div k = (r + 1) div k + q" unfolding x using assms by simp
  moreover have "k dvd x + 1 \<longleftrightarrow> k dvd r + 1" unfolding x by simp
  moreover have "(r + 1) div k = (if k dvd r + 1 then 1 else 0)"
  proof (cases "r + 1 = k")
    case True
    then show ?thesis using assms by simp
  next
    case False
    then have "r + 1 < k" using r by simp
    then show ?thesis using r by (auto simp: div_pos_pos_trivial dest: zdvd_imp_le)
  qed
  ultimately show ?thesis unfolding q_def by simp
qed

lemma cycle_days_Suc: "cycle_days doe \<le> cycle_days (doe + 1)"
proof -
  have "36524 dvd doe + 1" if "146096 dvd doe + 1"
    using that by (rule dvd_trans [rotated]) simp
  then show ?thesis
    by (simp add: cycle_days_def div_step)
qed

lemma cycle_days_mono: "a \<le> b \<Longrightarrow> cycle_days a \<le> cycle_days b"
proof (induction b rule: int_ge_induct)
  case (step b)
  then show ?case using cycle_days_Suc [of b] by linarith
qed simp

definition cycle_start :: "int \<Rightarrow> int" where
  "cycle_start y = 365 * y + y div 4 - y div 100"

definition cycle_end :: "int \<Rightarrow> int" where
  "cycle_end y = (if y = 399 then 146096 else cycle_start (y + 1) - 1)"

definition year_ok :: "int \<Rightarrow> bool" where
  "year_ok y \<longleftrightarrow> 365 * y \<le> cycle_days (cycle_start y) \<and> cycle_days (cycle_end y) < 365 * y + 365
     \<and> cycle_end y \<le> cycle_start y + 365 \<and> cycle_start y \<le> cycle_end y"

lemma div_eqI: "x = q * k + r \<Longrightarrow> 0 \<le> r \<Longrightarrow> r < k \<Longrightarrow> x div k = (q::int)"
  by (simp add: div_pos_pos_trivial)

lemma cycle_start_days:
  assumes "0 \<le> y" "y \<le> 399"
  shows "cycle_days (cycle_start y) = 365 * y" and "1460 dvd cycle_start y \<Longrightarrow> y = 0"
proof -
  define a b c z where "a = y div 4" and "b = y mod 4" and "c = y div 100" and "z = y mod 100"
  have ab: "y = 4 * a + b" "0 \<le> b" "b \<le> 3" and cz: "y = 100 * c + z" "0 \<le> z" "z \<le> 99"
    unfolding a_def b_def c_def z_def using pos_mod_bound [of 4 y] pos_mod_bound [of 100 y] by simp_all
  have ac: "c \<le> a" "0 \<le> c" "a \<le> 99" "c \<le> 3" using ab cz assms by linarith+
  have s: "cycle_start y = 365 * y + a - c" by (simp add: cycle_start_def a_def c_def)
  have "cycle_start y div 1460 = a"
    by (rule div_eqI [where r = "365 * b + a - c"]) (use s ab ac in linarith)+
  moreover have "cycle_start y div 36524 = c"
    by (rule div_eqI [where r = "365 * z + a - 25 * c"]) (use s ab cz ac in linarith)+
  moreover have "cycle_start y div 146096 = 0"
    by (rule div_eqI [where r = "cycle_start y"]) (use s ab cz ac assms in linarith)+
  ultimately show "cycle_days (cycle_start y) = 365 * y" by (simp add: cycle_days_def s)
  assume "1460 dvd cycle_start y"
  moreover define r where "r = 365 * b + a - c"
  moreover have "cycle_start y = 1460 * a + r" using s ab unfolding r_def by linarith
  ultimately have "1460 dvd r" by (simp only: dvd_add_right_iff dvd_triv_left)
  then have "1460 dvd 365 * b + a - c" unfolding r_def .
  moreover have "0 \<le> 365 * b + a - c" "365 * b + a - c < 1460" using ab ac by linarith+
  ultimately have "365 * b + a - c = 0" using zdvd_imp_le [of 1460 "365 * b + a - c"] by linarith
  then show "y = 0" using ab cz ac by linarith
qed

lemma cycle_days_less:
  assumes "\<not> 1460 dvd s" "146096 dvd s \<Longrightarrow> 36524 dvd s"
  shows "cycle_days (s - 1) < cycle_days s"
proof -
  define p q r where "p = (s - 1) div 1460" and "q = (s - 1) div 36524" and "r = (s - 1) div 146096"
  have "s div 1460 = p" "s div 36524 = q + (if 36524 dvd s then 1 else 0)"
    "s div 146096 = r + (if 146096 dvd s then 1 else 0)"
    using assms(1) div_step [of 1460 "s - 1"] div_step [of 36524 "s - 1"] div_step [of 146096 "s - 1"]
    unfolding p_def q_def r_def by simp_all
  then show ?thesis
    using assms(2) unfolding cycle_days_def p_def [symmetric] q_def [symmetric] r_def [symmetric]
    by (simp split: if_splits)
qed

lemma year_ok_all: "0 \<le> y \<Longrightarrow> y \<le> 399 \<Longrightarrow> year_ok y"
proof (cases "y = 399")
  case True
  then show ?thesis by (simp add: year_ok_def cycle_days_def cycle_end_def cycle_start_def)
next
  case False
  assume y: "0 \<le> y" "y \<le> 399"
  with False have y1: "0 \<le> y + 1" "y + 1 \<le> 399" by simp_all
  have nd: "\<not> 1460 dvd cycle_start (y + 1)" using cycle_start_days(2) [OF y1] y by auto
  have "36524 dvd cycle_start (y + 1)" if "146096 dvd cycle_start (y + 1)"
    using that by (rule dvd_trans [rotated]) simp
  then have "cycle_days (cycle_start (y + 1) - 1) < cycle_days (cycle_start (y + 1))"
    by (rule cycle_days_less [OF nd])
  then have "cycle_days (cycle_end y) < 365 * (y + 1)"
    using cycle_start_days(1) [OF y1] False by (simp add: cycle_end_def)
  moreover have "cycle_start (y + 1) \<le> cycle_start y + 366" "cycle_start y + 364 \<le> cycle_start (y + 1)"
    by (auto simp: cycle_start_def div_step)
  ultimately show ?thesis
    using cycle_start_days(1) [OF y] False by (simp add: year_ok_def cycle_end_def)
qed

lemma cycle_cover:
  assumes "0 \<le> doe" "doe \<le> cycle_end Y" "0 \<le> Y" "Y \<le> 399"
  shows "\<exists>y. 0 \<le> y \<and> y \<le> Y \<and> cycle_start y \<le> doe \<and> doe \<le> cycle_end y"
  using assms(3) assms
proof (induction Y rule: int_ge_induct)
  case base
  then show ?case by (intro exI [of _ 0]) (simp add: cycle_start_def)
next
  case (step Y)
  show ?case
  proof (cases "doe \<le> cycle_end Y")
    case True
    with step obtain y where "0 \<le> y" "y \<le> Y" "cycle_start y \<le> doe" "doe \<le> cycle_end y" by auto
    then show ?thesis by (intro exI [of _ y]) simp
  next
    case False
    with step have "cycle_start (Y + 1) \<le> doe" by (simp add: cycle_end_def)
    then show ?thesis using step by (intro exI [of _ "Y + 1"]) simp
  qed
qed

lemma cycle_year:
  assumes "0 \<le> doe" "doe < 146097"
  defines "y \<equiv> cycle_days doe div 365"
  shows "0 \<le> y" "y \<le> 399" "cycle_start y \<le> doe" "doe \<le> cycle_end y" "cycle_end y \<le> cycle_start y + 365"
proof -
  obtain z where z: "0 \<le> z" "z \<le> 399" "cycle_start z \<le> doe" "doe \<le> cycle_end z"
    using cycle_cover [of doe 399] assms(1,2) by (auto simp: cycle_end_def)
  have ok: "year_ok z" using z(1,2) by (rule year_ok_all)
  have "365 * z \<le> cycle_days doe" "cycle_days doe < 365 * z + 365"
    using ok cycle_days_mono [OF z(3)] cycle_days_mono [OF z(4)] by (auto simp: year_ok_def)
  then have "y = z" by (simp add: y_def)
  with z ok show "0 \<le> y" "y \<le> 399" "cycle_start y \<le> doe" "doe \<le> cycle_end y"
    "cycle_end y \<le> cycle_start y + 365"
    by (simp_all add: year_ok_def)
qed

text \<open>The date of the day \<open>doy\<close> of the year \<open>Y\<close>, both counted from March\<close>

definition march_date :: "int \<Rightarrow> int \<Rightarrow> int \<times> int \<times> int" where
  "march_date Y doy =
     (let mp = (5 * doy + 2) div 153; d = doy - (153 * mp + 2) div 5 + 1;
          m = (if mp < 10 then mp + 3 else mp - 9)
      in (Y + (if m \<le> 2 then 1 else 0), m, d))"

lemma year_start_cycle:
  assumes "0 \<le> y" "y \<le> 399"
  shows "year_start (400 * e + y) = 146097 * e + cycle_start y"
proof -
  have d1: "(400 * e + y) div 4 = 100 * e + y div 4"
    using div_mult_self2 [of 4 y "100 * e"] by (simp add: add.commute)
  have d2: "(400 * e + y) div 100 = 4 * e + y div 100"
    using div_mult_self2 [of 100 y "4 * e"] by (simp add: add.commute)
  have d3: "(400 * e + y) div 400 = e"
    by (rule div_eqI [of _ _ _ y]) (use assms in simp_all)
  show ?thesis unfolding year_start_def cycle_start_def d1 d2 d3 by simp
qed

lemma year_start_next:
  assumes "0 \<le> y" "y \<le> 399"
  shows "year_start (400 * e + y + 1) = 146097 * e + cycle_end y + 1"
proof (cases "y = 399")
  case True
  then show ?thesis using year_start_cycle [of 0 "e + 1"] by (simp add: cycle_end_def cycle_start_def algebra_simps)
next
  case False
  then show ?thesis using year_start_cycle [of "y + 1" e] assms by (simp add: cycle_end_def add.assoc)
qed

lemma civil_march:
  obtains Y doy where "n + 719468 = year_start Y + doy" "0 \<le> doy" "doy \<le> 365"
    "year_start Y + doy < year_start (Y + 1)" "civil n = march_date Y doy"
proof -
  define e doe where "e = (n + 719468) div 146097" and "doe = (n + 719468) mod 146097"
  define y where "y = cycle_days doe div 365"
  have "0 \<le> doe" "doe < 146097" by (simp_all add: doe_def)
  note c = cycle_year [OF this, folded y_def]
  have n: "n + 719468 = 146097 * e + doe" by (simp add: e_def doe_def)
  show ?thesis
  proof (rule that [of "400 * e + y" "doe - cycle_start y"])
    show "n + 719468 = year_start (400 * e + y) + (doe - cycle_start y)"
      using year_start_cycle [OF c(1,2)] n by simp
    show "year_start (400 * e + y) + (doe - cycle_start y) < year_start (400 * e + y + 1)"
      using year_start_cycle [OF c(1,2)] year_start_next [OF c(1,2)] c(4) by simp
    have "civil n = march_date (y + e * 400) (doe - cycle_start y)"
      by (simp only: civil_def march_date_def Let_def e_def doe_def y_def cycle_days_def cycle_start_def)
    moreover have "y + e * 400 = 400 * e + y" by simp
    ultimately show "civil n = march_date (400 * e + y) (doe - cycle_start y)" by simp
  qed (use c in linarith)+
qed

lemma march_month: "0 \<le> doy \<Longrightarrow> doy \<le> 365 \<Longrightarrow> 0 \<le> (5 * doy + 2) div 153 \<and> (5 * doy + 2) div 153 \<le> (11::int)"
  using zdiv_mono1 [of "5 * doy + 2" "5 * 365 + 2" 153] pos_imp_zdiv_nonneg_iff [of 153 "5 * doy + 2"] by simp

lemma march_date_days:
  assumes "0 \<le> mp" "mp \<le> 11"
  shows "days_from_civil (Y + (if (if mp < 10 then mp + 3 else mp - 9) \<le> 2 then 1 else 0),
     if mp < 10 then mp + 3 else mp - 9, d) = year_start Y + (153 * mp + 2) div 5 + d - 1 - 719468"
  using assms unfolding days_from_civil_def Let_def by (cases "mp < 10") simp_all

lemma days_from_march:
  assumes "0 \<le> doy" "doy \<le> 365"
  shows "days_from_civil (march_date Y doy) = year_start Y + doy - 719468"
  unfolding march_date_def Let_def using march_date_days [OF conjunct1 [OF march_month [OF assms]] conjunct2 [OF march_month [OF assms]], of Y "doy - (153 * ((5 * doy + 2) div 153) + 2) div 5 + 1"]
  by linarith

text \<open>The day number of the date of a day is that day.\<close>

lemma days_from_civil_civil: "days_from_civil (civil n) = n"
  by (rule civil_march [of n]) (use days_from_march in auto)

lemma civil_inj: "civil n = civil m \<Longrightarrow> n = m"
  by (metis days_from_civil_civil)

text \<open>Later days have later dates.\<close>

definition date_key :: "int \<times> int \<times> int \<Rightarrow> int" where
  "date_key ymd = (case ymd of (y, m, d) \<Rightarrow> 10000 * y + 100 * m + d)"

lemma march_day:
  fixes doy :: int
  assumes "0 \<le> doy" "doy \<le> 365"
  defines "mp \<equiv> (5 * doy + 2) div 153"
  shows "1 \<le> doy - (153 * mp + 2) div 5 + 1" "doy - (153 * mp + 2) div 5 + 1 \<le> 31"
proof -
  have "153 * mp \<le> 5 * doy + 2" "5 * doy + 2 < 153 * mp + 153"
    unfolding mp_def by simp_all
  moreover define q where "q = (153 * mp + 2) div 5"
  moreover have "5 * q \<le> 153 * mp + 2" "153 * mp + 2 < 5 * q + 5" unfolding q_def by simp_all
  ultimately show "1 \<le> doy - (153 * mp + 2) div 5 + 1" "doy - (153 * mp + 2) div 5 + 1 \<le> 31"
    unfolding q_def [symmetric] by linarith+
qed

lemma march_date_fields:
  assumes "0 \<le> doy" "doy \<le> 365"
  obtains mp d where "march_date Y doy =
      (Y + (if mp < 10 then 0 else 1), if mp < 10 then mp + 3 else mp - 9, d)"
    "0 \<le> mp" "mp \<le> 11" "1 \<le> d" "d \<le> 31" "mp = (5 * doy + 2) div 153" "d = doy - (153 * mp + 2) div 5 + 1"
proof (rule that)
  show "march_date Y doy =
      (Y + (if (5 * doy + 2) div 153 < 10 then 0 else 1),
       if (5 * doy + 2) div 153 < 10 then (5 * doy + 2) div 153 + 3 else (5 * doy + 2) div 153 - 9,
       doy - (153 * ((5 * doy + 2) div 153) + 2) div 5 + 1)"
    using march_month [OF assms] unfolding march_date_def Let_def by auto
qed (use march_month [OF assms] in blast, use march_month [OF assms] in blast,
    rule march_day [OF assms], rule march_day [OF assms], rule refl, rule refl)

lemma march_date_less:
  assumes "0 \<le> doy" "doy \<le> 365" "0 \<le> doy'" "doy' \<le> 365"
    and "Y < Y' \<or> Y = Y' \<and> doy < doy'"
  shows "date_key (march_date Y doy) < date_key (march_date Y' doy')"
proof -
  obtain mp d where f: "march_date Y doy =
      (Y + (if mp < 10 then 0 else 1), if mp < 10 then mp + 3 else mp - 9, d)"
    "0 \<le> mp" "mp \<le> 11" "1 \<le> d" "d \<le> 31" "mp = (5 * doy + 2) div 153" "d = doy - (153 * mp + 2) div 5 + 1"
    by (rule march_date_fields [OF assms(1,2)])
  obtain mp' d' where f': "march_date Y' doy' =
      (Y' + (if mp' < 10 then 0 else 1), if mp' < 10 then mp' + 3 else mp' - 9, d')"
    "0 \<le> mp'" "mp' \<le> 11" "1 \<le> d'" "d' \<le> 31" "mp' = (5 * doy' + 2) div 153"
    "d' = doy' - (153 * mp' + 2) div 5 + 1"
    by (rule march_date_fields [OF assms(3,4)])
  have "mp \<le> mp'" if "doy < doy'" unfolding f(6) f'(6) using that by (intro zdiv_mono1) simp_all
  moreover have "d < d'" if "doy < doy'" "mp = mp'" using that f(7) f'(7) by simp
  ultimately have "Y < Y' \<or> Y = Y' \<and> (mp < mp' \<or> mp = mp' \<and> d < d')" using assms(5) by force
  then show ?thesis
    unfolding f(1) f'(1) date_key_def using f(2-5) f'(2-5) by (auto split: if_splits)
qed

lemma year_start_mono: "Y \<le> Y' \<Longrightarrow> year_start Y \<le> year_start Y'"
proof -
  have next_year: "year_start Y \<le> year_start (Y + 1)" for Y
    by (simp add: year_start_def div_step)
  show "Y \<le> Y' \<Longrightarrow> year_start Y \<le> year_start Y'"
  proof (induction Y' rule: int_ge_induct)
    case (step Y')
    then show ?case using next_year [of Y'] by linarith
  qed simp
qed

lemma civil_less:
  assumes "n < n'"
  shows "date_key (civil n) < date_key (civil n')"
proof -
  obtain Y doy where c: "n + 719468 = year_start Y + doy" "0 \<le> doy" "doy \<le> 365"
    "year_start Y + doy < year_start (Y + 1)" "civil n = march_date Y doy" by (rule civil_march)
  obtain Y' doy' where c': "n' + 719468 = year_start Y' + doy'" "0 \<le> doy'" "doy' \<le> 365"
    "year_start Y' + doy' < year_start (Y' + 1)" "civil n' = march_date Y' doy'" by (rule civil_march)
  have "Y \<le> Y'"
  proof (rule ccontr)
    assume "\<not> Y \<le> Y'"
    then have "year_start (Y' + 1) \<le> year_start Y" by (intro year_start_mono) simp
    then show False using assms c c' by linarith
  qed
  then have "Y < Y' \<or> Y = Y' \<and> doy < doy'" using assms c(1) c'(1) by auto
  then show ?thesis unfolding c(5) c'(5) by (rule march_date_less [OF c(2,3) c'(2,3)])
qed

lemma civil_ranges: "case civil n of (y, m, d) \<Rightarrow> 1 \<le> m \<and> m \<le> 12 \<and> 1 \<le> d \<and> d \<le> 31"
proof -
  obtain Y doy where c: "0 \<le> doy" "doy \<le> 365" "civil n = march_date Y doy" by (rule civil_march [of n])
  obtain mp d where f: "march_date Y doy =
      (Y + (if mp < 10 then 0 else 1), if mp < 10 then mp + 3 else mp - 9, d)"
    "0 \<le> mp" "mp \<le> 11" "1 \<le> d" "d \<le> 31"
    by (rule march_date_fields [OF c(1,2)])
  show ?thesis unfolding c(3) f(1) using f(2-5) by simp
qed

subsection \<open>Fixed-width decimals\<close>

fun dec :: "nat \<Rightarrow> nat \<Rightarrow> str" where
  "dec 0 n = []"
| "dec (Suc w) n = dec w (n div 10) @ [digit_char (n mod 10)]"

lemma length_dec [simp]: "length (dec w n) = w"
  by (induction w arbitrary: n) auto

lemma dec_digits: "\<forall>c \<in> set (dec w n). is_digit c"
  by (induction w arbitrary: n) (auto simp: is_digit_digit_char)

lemma read_dec: "read_nat (dec w n) = n mod 10 ^ w"
proof (induction w arbitrary: n)
  case (Suc w)
  have "n mod 10 ^ Suc w = 10 * (n div 10 mod 10 ^ w) + n mod 10"
    by (simp add: mod_mult2_eq)
  then show ?case using Suc [of "n div 10"] by (simp add: read_nat_def digit_val_digit_char)
qed (simp add: read_nat_def)

lemma dec_zero: "dec w 0 = replicate w (CHR ''0'')"
proof (induction w)
  case (Suc w)
  have "digit_char 0 = CHR ''0''" by code_simp
  then show ?case using Suc by (simp add: replicate_append_same)
qed simp

lemma pad0_dec: "n < 10 ^ w \<Longrightarrow> 0 < w \<Longrightarrow> pad0 w n = dec w n"
proof (induction w arbitrary: n)
  case (Suc w)
  show ?case
  proof (cases "n < 10")
    case True
    then show ?thesis by (simp add: pad0_def show_nat.simps [of n] dec_zero)
  next
    case False
    with Suc.prems have w: "0 < w" by (cases w) auto
    have "n div 10 < 10 ^ w" using Suc.prems by (simp add: less_mult_imp_div_less mult.commute)
    from Suc.IH [OF this w] show ?thesis
      using False by (simp add: pad0_def show_nat.simps [of n] Let_def)
  qed
qed simp

lemma append_less_iff:
  fixes xs ys :: "'a::linorder list"
  assumes "length xs = length ys"
  shows "xs @ u < ys @ v \<longleftrightarrow> xs < ys \<or> xs = ys \<and> u < v"
  using assms by (induction xs ys rule: list_induct2) auto

lemma digit_char_less: "a < 10 \<Longrightarrow> b < 10 \<Longrightarrow> digit_char a < digit_char b \<longleftrightarrow> a < b"
  by (simp add: digit_char_def less_char_def)

lemma dec_less_iff: "a < 10 ^ w \<Longrightarrow> b < 10 ^ w \<Longrightarrow> dec w a < dec w b \<longleftrightarrow> a < b"
proof (induction w arbitrary: a b)
  case (Suc w)
  have lt: "a div 10 < 10 ^ w" "b div 10 < 10 ^ w"
    using Suc.prems by (simp_all add: less_mult_imp_div_less mult.commute)
  then have inj: "dec w (a div 10) = dec w (b div 10) \<longleftrightarrow> a div 10 = b div 10"
    using read_dec [of w "a div 10"] read_dec [of w "b div 10"] by (metis mod_less)
  have "dec w (a div 10) < dec w (b div 10) \<longleftrightarrow> a div 10 < b div 10"
    by (rule Suc.IH [OF lt])
  moreover have "a < b \<longleftrightarrow> a div 10 < b div 10 \<or> a div 10 = b div 10 \<and> a mod 10 < b mod 10"
  proof -
    define p q r u where "p = a div 10" and "q = a mod 10" and "r = b div 10" and "u = b mod 10"
    have "a = 10 * p + q" "q < 10" "b = 10 * r + u" "u < 10" by (simp_all add: p_def q_def r_def u_def)
    then show ?thesis
      unfolding p_def [symmetric] q_def [symmetric] r_def [symmetric] u_def [symmetric] by linarith
  qed
  ultimately show ?case
    using inj by (simp add: append_less_iff digit_char_less)
qed simp

subsection \<open>Comparing texts\<close>

text \<open>The instants \<open>datetime\<close> has: the years 1 to 9999\<close>

definition valid_instant :: "instant \<Rightarrow> bool" where
  "valid_instant t \<longleftrightarrow> days (- 719162) \<le> t \<and> t < days 2932897"

lemma valid_year:
  assumes "valid_instant t" "civil (t div 1000000 div 86400) = (y, m, d)"
  shows "1 \<le> y" "y \<le> 9999"
proof -
  let ?n = "t div 1000000 div 86400"
  have n: "- 719162 \<le> ?n" "?n < 2932897"
    using assms(1) by (auto simp: valid_instant_def duration_defs)
  have e: "civil (- 719163) = (0, 12, 31)" "civil 2932897 = (10000, 1, 1)" by code_simp+
  have "date_key (civil (- 719163)) < date_key (civil ?n)" "date_key (civil ?n) < date_key (civil 2932897)"
    using n by (auto intro: civil_less)
  then show "1 \<le> y" "y \<le> 9999"
    using civil_ranges [of ?n] unfolding e assms(2) by (simp_all add: date_key_def)
qed

text \<open>A date and a time of day, as text of 19 characters\<close>

definition clock_text :: "(int \<times> int \<times> int) \<times> int \<Rightarrow> str" where
  "clock_text ds =
     (case ds of ((y, m, d), sod) \<Rightarrow>
        dec 4 (nat y) @ ''-'' @ dec 2 (nat m) @ ''-'' @ dec 2 (nat d) @ ''T''
        @ dec 2 (nat (sod div 3600)) @ '':'' @ dec 2 (nat (sod div 60 mod 60)) @ '':''
        @ dec 2 (nat (sod mod 60)))"

lemma length_clock_text [simp]: "length (clock_text ds) = 19"
  by (simp add: clock_text_def split: prod.split)

lemma sod_fields:
  assumes "0 \<le> sod" "sod < (86400::int)"
  shows "0 \<le> sod div 3600" "sod div 3600 < 24" "0 \<le> sod div 60 mod 60" "sod div 60 mod 60 < 60"
    "0 \<le> sod mod 60" "sod mod 60 < 60"
    "sod = 3600 * (sod div 3600) + 60 * (sod div 60 mod 60) + sod mod 60"
proof -
  show "0 \<le> sod div 3600" using assms by (simp add: pos_imp_zdiv_nonneg_iff)
  show "sod div 3600 < 24" using assms zdiv_mono1 [of sod 86399 3600] by simp
  show "0 \<le> sod div 60 mod 60" "sod div 60 mod 60 < 60" "0 \<le> sod mod 60" "sod mod 60 < 60" by simp_all
  have "sod div 3600 = sod div 60 div 60" by (simp add: zdiv_zmult2_eq [symmetric])
  then show "sod = 3600 * (sod div 3600) + 60 * (sod div 60 mod 60) + sod mod 60"
    using div_mult_mod_eq [of sod 60] div_mult_mod_eq [of "sod div 60" 60] by linarith
qed

lemma date_text_clock:
  assumes "valid_instant t"
  shows "date_text t = clock_text (civil (t div 1000000 div 86400), t div 1000000 mod 86400)"
proof -
  obtain y m d where c: "civil (t div 1000000 div 86400) = (y, m, d)" by (metis prod_cases3)
  let ?sod = "t div 1000000 mod 86400"
  have "0 \<le> ?sod" "?sod < 86400" by simp_all
  note f = sod_fields [OF this]
  have r: "1 \<le> y" "y \<le> 9999" "1 \<le> m" "m \<le> 12" "1 \<le> d" "d \<le> 31"
    using valid_year [OF assms c] civil_ranges [of "t div 1000000 div 86400"] c by simp_all
  have two: "pad0 2 (nat x) = dec 2 (nat x)" if "0 \<le> x" "x < 100" for x
    by (rule pad0_dec) (use that in simp_all)
  have "pad0 4 (nat y) = dec 4 (nat y)" by (rule pad0_dec) (use r in simp_all)
  moreover have "pad0 2 (nat m) = dec 2 (nat m)" "pad0 2 (nat d) = dec 2 (nat d)"
    by (rule two; use r in simp)+
  moreover have "pad0 2 (nat (?sod div 3600)) = dec 2 (nat (?sod div 3600))"
    "pad0 2 (nat (?sod div 60 mod 60)) = dec 2 (nat (?sod div 60 mod 60))"
    "pad0 2 (nat (?sod mod 60)) = dec 2 (nat (?sod mod 60))"
    by (rule two; use f in linarith)+
  ultimately show ?thesis
    unfolding date_text_def time_fields_def Let_def clock_text_def c prod.case by (simp only:)
qed

lemma nat_dec_less:
  "0 \<le> a \<Longrightarrow> a < 10 ^ w \<Longrightarrow> 0 \<le> b \<Longrightarrow> b < 10 ^ w \<Longrightarrow> dec w (nat a) < dec w (nat b) \<longleftrightarrow> a < b"
  by (subst dec_less_iff) (auto simp: nat_less_iff)

lemma nat_dec_eq:
  "0 \<le> a \<Longrightarrow> a < 10 ^ w \<Longrightarrow> 0 \<le> b \<Longrightarrow> b < 10 ^ w \<Longrightarrow> dec w (nat a) = dec w (nat b) \<longleftrightarrow> a = b"
  using nat_dec_less [of a w b] nat_dec_less [of b w a] by (metis less_irrefl linorder_neqE)

lemma clock_text_less:
  assumes "1 \<le> y" "y \<le> 9999" "1 \<le> m" "m \<le> 12" "1 \<le> d" "d \<le> 31" "0 \<le> sod" "sod < 86400"
    and "1 \<le> y'" "y' \<le> 9999" "1 \<le> m'" "m' \<le> 12" "1 \<le> d'" "d' \<le> 31" "0 \<le> sod'" "sod' < 86400"
    and less: "date_key (y, m, d) < date_key (y', m', d') \<or> (y, m, d) = (y', m', d') \<and> sod < sod'"
  shows "clock_text ((y, m, d), sod) < clock_text ((y', m', d'), sod')"
proof -
  note f = sod_fields [OF assms(7,8)] and f' = sod_fields [OF assms(15,16)]
  define h mi s h' mi' s' where "h = sod div 3600" and "mi = sod div 60 mod 60" and "s = sod mod 60"
    and "h' = sod' div 3600" and "mi' = sod' div 60 mod 60" and "s' = sod' mod 60"
  note fld = h_def mi_def s_def h'_def mi'_def s'_def
  have r: "0 \<le> h" "h < 24" "0 \<le> mi" "mi < 60" "0 \<le> s" "s < 60" "sod = 3600 * h + 60 * mi + s"
    "0 \<le> h'" "h' < 24" "0 \<le> mi'" "mi' < 60" "0 \<le> s'" "s' < 60" "sod' = 3600 * h' + 60 * mi' + s'"
    using f f' by (simp_all only: fld)
  have lex: "y < y' \<or> y = y' \<and> (m < m' \<or> m = m' \<and> (d < d' \<or> d = d' \<and>
      (h < h' \<or> h = h' \<and> (mi < mi' \<or> mi = mi' \<and> s < s'))))"
  proof (rule disjE [OF less])
    assume "date_key (y, m, d) < date_key (y', m', d')"
    then have "10000 * y + 100 * m + d < 10000 * y' + 100 * m' + d'" by (simp add: date_key_def)
    then show ?thesis using assms(3-6,11-14) by linarith
  next
    assume "(y, m, d) = (y', m', d') \<and> sod < sod'"
    then show ?thesis using r by auto
  qed
  have two: "dec 2 (nat a) < dec 2 (nat b) \<longleftrightarrow> a < b" "dec 2 (nat a) = dec 2 (nat b) \<longleftrightarrow> a = b"
    if "0 \<le> a" "a < 100" "0 \<le> b" "b < 100" for a b
    using that nat_dec_less [of a 2 b] nat_dec_eq [of a 2 b] by simp_all
  have four: "dec 4 (nat y) < dec 4 (nat y') \<longleftrightarrow> y < y'" "dec 4 (nat y) = dec 4 (nat y') \<longleftrightarrow> y = y'"
    using assms nat_dec_less [of y 4 y'] nat_dec_eq [of y 4 y'] by simp_all
  have md: "dec 2 (nat m) < dec 2 (nat m') \<longleftrightarrow> m < m'" "dec 2 (nat m) = dec 2 (nat m') \<longleftrightarrow> m = m'"
    "dec 2 (nat d) < dec 2 (nat d') \<longleftrightarrow> d < d'" "dec 2 (nat d) = dec 2 (nat d') \<longleftrightarrow> d = d'"
    by (intro two; use assms in linarith)+
  have hm: "dec 2 (nat h) < dec 2 (nat h') \<longleftrightarrow> h < h'" "dec 2 (nat h) = dec 2 (nat h') \<longleftrightarrow> h = h'"
    "dec 2 (nat mi) < dec 2 (nat mi') \<longleftrightarrow> mi < mi'" "dec 2 (nat mi) = dec 2 (nat mi') \<longleftrightarrow> mi = mi'"
    "dec 2 (nat s) < dec 2 (nat s') \<longleftrightarrow> s < s'"
    by (intro two; use r in linarith)+
  show ?thesis
    unfolding clock_text_def prod.case fld [symmetric]
    using lex by (simp add: append_less_iff four md hm del: dec.simps)
qed

text \<open>The texts of two instants compare as the instants do.\<close>

lemma clock_text_mono:
  assumes "valid_instant t" "valid_instant t'" "t div 1000000 < t' div 1000000"
  shows "date_text t < date_text t'"
proof -
  define n n' sod sod' where "n = t div 1000000 div 86400" and "n' = t' div 1000000 div 86400"
    and "sod = t div 1000000 mod 86400" and "sod' = t' div 1000000 mod 86400"
  obtain y m d where c: "civil n = (y, m, d)" by (metis prod_cases3)
  obtain y' m' d' where c': "civil n' = (y', m', d')" by (metis prod_cases3)
  have r: "1 \<le> y" "y \<le> 9999" "1 \<le> m" "m \<le> 12" "1 \<le> d" "d \<le> 31"
    using valid_year [OF assms(1)] civil_ranges [of n] c by (simp_all add: n_def)
  have r': "1 \<le> y'" "y' \<le> 9999" "1 \<le> m'" "m' \<le> 12" "1 \<le> d'" "d' \<le> 31"
    using valid_year [OF assms(2)] civil_ranges [of n'] c' by (simp_all add: n'_def)
  have s: "0 \<le> sod" "sod < 86400" "0 \<le> sod'" "sod' < 86400" by (simp_all add: sod_def sod'_def)
  have "t div 1000000 = 86400 * n + sod" "t' div 1000000 = 86400 * n' + sod'"
    by (simp_all add: n_def n'_def sod_def sod'_def)
  then have "n < n' \<or> n = n' \<and> sod < sod'" using assms(3) s by linarith
  then have "date_key (y, m, d) < date_key (y', m', d') \<or> (y, m, d) = (y', m', d') \<and> sod < sod'"
    using civil_less [of n n'] c c' by auto
  then have "clock_text ((y, m, d), sod) < clock_text ((y', m', d'), sod')"
    by (intro clock_text_less) (use r r' s in simp_all)
  then show ?thesis
    using date_text_clock [OF assms(1)] date_text_clock [OF assms(2)] c c'
    by (simp add: n_def n'_def sod_def sod'_def)
qed

lemma isoformat_mono:
  assumes "valid_instant t" "valid_instant t'" "t < t'"
  shows "isoformat t < isoformat t'"
proof (cases "t div 1000000 = t' div 1000000")
  case True
  have len: "length (date_text x) = 19" if "valid_instant x" for x
    using date_text_clock [OF that] by simp
  have eq: "date_text t = date_text t'" 
    unfolding date_text_clock [OF assms(1)] date_text_clock [OF assms(2)] True ..
  define u u' where "u = t mod 1000000" and "u' = t' mod 1000000"
  have u: "0 \<le> u" "u < 1000000" "0 \<le> u'" "u' < 1000000" by (simp_all add: u_def u'_def)
  have "u < u'" using assms(3) True div_mult_mod_eq [of t 1000000] div_mult_mod_eq [of t' 1000000]
    unfolding u_def u'_def by linarith
  moreover have "pad0 6 (nat u) = dec 6 (nat u)" "pad0 6 (nat u') = dec 6 (nat u')"
    by (rule pad0_dec; use u in simp)+
  moreover have "dec 6 (nat u) < dec 6 (nat u')" using \<open>u < u'\<close> u by (simp add: nat_dec_less del: dec.simps)
  moreover have "CHR ''+'' < CHR ''.''" by (simp add: less_char_def)
  ultimately show ?thesis
    using u unfolding isoformat_def eq u_def [symmetric] u'_def [symmetric]
    by (simp add: append_less_iff del: dec.simps)
next
  case False
  then have lt: "t div 1000000 < t' div 1000000" using assms(3) zdiv_mono1 [of t t' 1000000] by linarith
  have "length (date_text t) = length (date_text t')"
    using date_text_clock [OF assms(1)] date_text_clock [OF assms(2)] by simp
  then show ?thesis
    using clock_text_mono [OF assms(1,2) lt] by (simp add: isoformat_def append_less_iff)
qed

lemma isoformat_less_iff:
  assumes "valid_instant t" "valid_instant t'"
  shows "isoformat t < isoformat t' \<longleftrightarrow> t < t'"
  using isoformat_mono [OF assms] isoformat_mono [OF assms(2,1)]
  by (metis less_asym less_irrefl linorder_neqE)

subsection \<open>Reading a text\<close>

text \<open>
  \<open>datetime.fromisoformat\<close> on the shapes \<open>isoformat\<close> writes: \<open>YYYY-MM-DDTHH:MM:SS\<close>, an optional
  fraction of six digits, and an optional offset (\<open>Z\<close>, \<open>+HH:MM\<close> or \<open>-HH:MM\<close>).  A text without offset is
  read as UTC, as the caller's \<open>replace(tzinfo=UTC)\<close> does.  \<open>None\<close> stands for \<open>ValueError\<close>.  The other
  forms that Python reads (week dates, forms without separators, shorter fractions) are not written
  by the program.
\<close>

definition field :: "nat \<Rightarrow> nat \<Rightarrow> str \<Rightarrow> int option" where
  "field i w s =
     (let p = take w (drop i s) in
      if length p = w \<and> list_all is_digit p then Some (int (read_nat p)) else None)"

definition sep_at :: "nat \<Rightarrow> char \<Rightarrow> str \<Rightarrow> bool" where
  "sep_at i c s \<longleftrightarrow> i < length s \<and> s ! i = c"

definition read_clock :: "str \<Rightarrow> int option" where
  "read_clock s =
     (if sep_at 4 (CHR ''-'') s \<and> sep_at 7 (CHR ''-'') s \<and> sep_at 10 (CHR ''T'') s
         \<and> sep_at 13 (CHR '':'') s \<and> sep_at 16 (CHR '':'') s then
        (case (field 0 4 s, field 5 2 s, field 8 2 s, field 11 2 s, field 14 2 s, field 17 2 s) of
           (Some y, Some m, Some d, Some hh, Some mm, Some ss) \<Rightarrow>
             if 1 \<le> y \<and> civil (days_from_civil (y, m, d)) = (y, m, d) \<and> hh < 24 \<and> mm < 60 \<and> ss < 60
             then Some (86400 * days_from_civil (y, m, d) + 3600 * hh + 60 * mm + ss) else None
         | _ \<Rightarrow> None)
      else None)"

definition read_offset :: "str \<Rightarrow> int option" where
  "read_offset s =
     (if s = [] \<or> s = ''Z'' then Some 0
      else if length s = 6 \<and> sep_at 3 (CHR '':'') s \<and> (hd s = CHR ''+'' \<or> hd s = CHR ''-'') then
        (case (field 1 2 s, field 4 2 s) of
           (Some hh, Some mm) \<Rightarrow>
             if hh < 24 \<and> mm < 60
             then Some ((if hd s = CHR ''-'' then - 1 else 1) * (3600 * hh + 60 * mm)) else None
         | _ \<Rightarrow> None)
      else None)"

definition fromisoformat :: "str \<Rightarrow> instant option" where
  "fromisoformat s =
     (let rest = drop 19 s; frac = (rest \<noteq> [] \<and> hd rest = CHR ''.'') in
      case (read_clock s, if frac then field 20 6 s else Some 0,
            read_offset (if frac then drop 26 s else rest)) of
        (Some c, Some us, Some off) \<Rightarrow> Some ((c - off) * 1000000 + us)
      | _ \<Rightarrow> None)"

lemma field_dec:
  assumes "length pre = i"
  shows "field i w (pre @ dec w n @ rest) = Some (int (n mod 10 ^ w))"
  using assms dec_digits [of w n] by (simp add: field_def Let_def read_dec list_all_iff)

lemma sep_at_append: "length pre = i \<Longrightarrow> sep_at i c (pre @ c # rest)"
  by (simp add: sep_at_def nth_append)

lemma field_decI:
  assumes "s = pre @ dec w (nat x) @ rest" "length pre = i" "0 \<le> x" "x < 10 ^ w"
  shows "field i w s = Some x"
proof -
  have "nat x < 10 ^ w" using assms by (simp add: nat_less_iff)
  then show ?thesis using assms(3) unfolding assms(1) field_dec [OF assms(2)] by simp
qed

lemma sep_atI: "s = pre @ c # rest \<Longrightarrow> length pre = i \<Longrightarrow> sep_at i c s"
  using sep_at_append by simp

lemma read_clock_text:
  assumes "1 \<le> y" "y \<le> 9999" "civil n = (y, m, d)" "0 \<le> sod" "sod < 86400"
  shows "read_clock (clock_text ((y, m, d), sod) @ rest) = Some (86400 * n + sod)"
proof -
  define h mi s where "h = sod div 3600" and "mi = sod div 60 mod 60" and "s = sod mod 60"
  have r: "0 \<le> h" "h < 24" "0 \<le> mi" "mi < 60" "0 \<le> s" "s < 60" "sod = 3600 * h + 60 * mi + s"
    using sod_fields [OF assms(4,5)] unfolding h_def mi_def s_def by blast+
  have md: "1 \<le> m" "m \<le> 12" "1 \<le> d" "d \<le> 31" using civil_ranges [of n] assms(3) by simp_all
  define Y M D H I S where "Y = dec 4 (nat y)" and "M = dec 2 (nat m)" and "D = dec 2 (nat d)"
    and "H = dec 2 (nat h)" and "I = dec 2 (nat mi)" and "S = dec 2 (nat s)"
  have len: "length Y = 4" "length M = 2" "length D = 2" "length H = 2" "length I = 2" "length S = 2"
    by (simp_all add: Y_def M_def D_def H_def I_def S_def)
  let ?t = "clock_text ((y, m, d), sod) @ rest"
  have t: "?t = Y @ ''-'' @ M @ ''-'' @ D @ ''T'' @ H @ '':'' @ I @ '':'' @ S @ rest"
    by (simp add: clock_text_def h_def mi_def s_def Y_def M_def D_def H_def I_def S_def)
  have seps: "sep_at 4 (CHR ''-'') ?t" "sep_at 7 (CHR ''-'') ?t" "sep_at 10 (CHR ''T'') ?t"
    "sep_at 13 (CHR '':'') ?t" "sep_at 16 (CHR '':'') ?t"
    unfolding t
    by (rule sep_atI [of _ Y], simp, simp add: len,
        rule sep_atI [of _ "Y @ ''-'' @ M"], simp, simp add: len,
        rule sep_atI [of _ "Y @ ''-'' @ M @ ''-'' @ D"], simp, simp add: len,
        rule sep_atI [of _ "Y @ ''-'' @ M @ ''-'' @ D @ ''T'' @ H"], simp, simp add: len,
        rule sep_atI [of _ "Y @ ''-'' @ M @ ''-'' @ D @ ''T'' @ H @ '':'' @ I"], simp, simp add: len)
  have "field 0 4 ?t = Some y"
    by (rule field_decI [of _ "[]"]) (use assms in \<open>simp_all add: t Y_def\<close>)
  moreover have "field 5 2 ?t = Some m"
    by (rule field_decI [of _ "Y @ ''-''"]) (use md len in \<open>simp_all add: t M_def\<close>)
  moreover have "field 8 2 ?t = Some d"
    by (rule field_decI [of _ "Y @ ''-'' @ M @ ''-''"]) (use md len in \<open>simp_all add: t D_def\<close>)
  moreover have "field 11 2 ?t = Some h"
    by (rule field_decI [of _ "Y @ ''-'' @ M @ ''-'' @ D @ ''T''"]) (use r(1-6) len in \<open>simp_all add: t H_def\<close>)
  moreover have "field 14 2 ?t = Some mi"
    by (rule field_decI [of _ "Y @ ''-'' @ M @ ''-'' @ D @ ''T'' @ H @ '':''"])
      (use r(1-6) len in \<open>simp_all add: t I_def\<close>)
  moreover have "field 17 2 ?t = Some s"
    by (rule field_decI [of _ "Y @ ''-'' @ M @ ''-'' @ D @ ''T'' @ H @ '':'' @ I @ '':''"])
      (use r(1-6) len in \<open>simp_all add: t S_def\<close>)
  moreover have "days_from_civil (y, m, d) = n" using days_from_civil_civil [of n] assms(3) by simp
  ultimately show ?thesis
    using seps assms r by (simp add: read_clock_def)
qed

lemma read_offset_utc: "read_offset ''+00:00'' = Some 0"
  by code_simp

text \<open>Reading the text of an instant gives the instant back.\<close>

lemma fromisoformat_isoformat:
  assumes "valid_instant t"
  shows "fromisoformat (isoformat t) = Some t"
proof -
  define n sod us where "n = t div 1000000 div 86400" and "sod = t div 1000000 mod 86400"
    and "us = t mod 1000000"
  obtain y m d where c: "civil n = (y, m, d)" by (metis prod_cases3)
  have y: "1 \<le> y" "y \<le> 9999" using valid_year [OF assms] c by (simp_all add: n_def)
  have sod: "0 \<le> sod" "sod < 86400" and us: "0 \<le> us" "us < 1000000" by (simp_all add: sod_def us_def)
  have t: "t = (86400 * n + sod) * 1000000 + us" by (simp add: n_def sod_def us_def)
  let ?c = "clock_text ((y, m, d), sod)"
  have dt: "date_text t = ?c" using date_text_clock [OF assms] c by (simp add: n_def sod_def)
  have iso: "isoformat t = ?c @ (if us = 0 then [] else ''.'' @ dec 6 (nat us)) @ ''+00:00''"
  proof -
    have "pad0 6 (nat us) = dec 6 (nat us)" by (rule pad0_dec) (use us in simp_all)
    then show ?thesis unfolding isoformat_def dt us_def [symmetric] by simp
  qed
  have clock: "read_clock (?c @ r) = Some (86400 * n + sod)" for r
    by (rule read_clock_text [OF y c sod])
  show ?thesis
  proof (cases "us = 0")
    case True
    then show ?thesis
      using iso clock [of "''+00:00''"] read_offset_utc t by (simp add: fromisoformat_def)
  next
    case False
    have "field 20 6 (isoformat t) = Some us"
      by (rule field_decI [of _ "?c @ ''.''" _ _ "''+00:00''"]) (use iso us False in simp_all)
    moreover have "drop 26 (isoformat t) = ''+00:00''" "drop 19 (isoformat t) = ''.'' @ dec 6 (nat us) @ ''+00:00''"
      using iso False by (simp_all del: dec.simps)
    moreover have "read_clock (isoformat t) = Some (86400 * n + sod)"
      using iso False clock [of "''.'' @ dec 6 (nat us) @ ''+00:00''"] by (simp del: dec.simps)
    ultimately show ?thesis using read_offset_utc t by (simp add: fromisoformat_def del: dec.simps)
  qed
qed

lemma isoformat_inj: "valid_instant t \<Longrightarrow> valid_instant t' \<Longrightarrow> isoformat t = isoformat t' \<Longrightarrow> t = t'"
  using fromisoformat_isoformat by (metis option.inject)

lemma isoformat_le_iff:
  "valid_instant t \<Longrightarrow> valid_instant t' \<Longrightarrow> isoformat t \<le> isoformat t' \<longleftrightarrow> t \<le> t'"
  using isoformat_less_iff [of t' t] by (simp add: not_less [symmetric])

end
