(* ===== verification/SqliteStore.thy ===== *)
theory SqliteStore
  imports ChangeLedger JsonLoads IsoTime
begin

text \<open>
  \<open>kuberca/ledger/sqlite_store.py\<close>: the persistent copy of the change ledger.  SQLite is modelled by
  what the statements of the file mean on a table: a list of rows in the order of their ids.  The
  connection sees its own uncommitted rows (\<open>sq_rows\<close>); what survives it is what was committed
  (\<open>sq_saved\<close>).  In which order SQLite lists rows with equal keys of an \<open>ORDER BY\<close> is not specified, so
  the ordering is the parameter \<open>ord\<close>; the resources over their cap come in the order of their first rows.
  Outcomes of the statements and measured latencies (in microseconds) are inputs.  A statement that is
  being awaited lets other operations run: a flush is its start and the ends of its two statements, a
  clean-up its start and the ends of the deletion, the count, one deletion per resource and the commit,
  and the steps of both interleave with each other and with \<open>store\<close>.  \<open>close\<close> is one step.
\<close>

definition BACKPRESSURE_THRESHOLD :: duration where "BACKPRESSURE_THRESHOLD = 50000"

record sql_row =
  row_id :: nat
  row_kind :: str
  row_namespace :: str
  row_name :: str
  row_hash :: str
  row_json :: str
  row_captured :: str

text \<open>The statement a flush and a clean-up are awaiting\<close>

datatype flush_phase = Writing "resource_snapshot list" | Committing "resource_snapshot list"

datatype cleanup_phase =
    DeletingExpired str
  | CountingVersions
  | Capping "(rkey \<times> nat) list"
  | CommittingCleanup

record sqlite_store =
  sq_max_versions :: nat
  sq_retention :: duration
  sq_open :: bool
  sq_saved :: "sql_row list"
  sq_rows :: "sql_row list"
  sq_pending :: "resource_snapshot list"
  sq_flushing :: "flush_phase option"
  sq_cleaning :: "cleanup_phase option"
  sq_degraded :: bool

text \<open>What \<open>load\<close> returns: a \<open>ResourceSnapshot\<close> whose spec is whatever the text held\<close>

record loaded =
  ld_kind :: str
  ld_namespace :: str
  ld_name :: str
  ld_hash :: str
  ld_spec :: pyval
  ld_captured_at :: instant
  ld_resource_version :: str

type_synonym row_ordering = "sql_row list \<Rightarrow> sql_row list"

definition row_key :: "sql_row \<Rightarrow> rkey" where
  "row_key r = (row_kind r, row_namespace r, row_name r)"

subsection \<open>Opening and writing\<close>

definition sq_init :: "int \<Rightarrow> duration \<Rightarrow> sql_row list \<Rightarrow> sqlite_store" where
  "sq_init max_versions retention file =
     \<lparr>sq_max_versions = nat (max 1 max_versions), sq_retention = retention, sq_open = False,
      sq_saved = file, sq_rows = [], sq_pending = [], sq_flushing = None, sq_cleaning = None, sq_degraded = False\<rparr>"

definition sq_connect :: "sqlite_store \<Rightarrow> sqlite_store" where
  "sq_connect st = st\<lparr>sq_open := True, sq_rows := sq_saved st\<rparr>"

definition sq_store :: "resource_snapshot \<Rightarrow> sqlite_store \<Rightarrow> sqlite_store" where
  "sq_store s st = (if sq_degraded st then st else st\<lparr>sq_pending := sq_pending st @ [s]\<rparr>)"

text \<open>
  \<open>json.dumps(spec, default=str)\<close>: an integer of more than 4300 digits raises \<open>ValueError\<close>, and with it
  the whole batch fails before anything is written.
\<close>

definition encodable :: "resource_snapshot \<Rightarrow> bool" where
  "encodable s \<longleftrightarrow> ints_ok (PDict (sn_spec s))"

definition next_row_id :: "sql_row list \<Rightarrow> nat" where
  "next_row_id rows = Suc (fold max (map row_id rows) 0)"

definition insert_row :: "resource_snapshot \<Rightarrow> sql_row list \<Rightarrow> sql_row list" where
  "insert_row s rows = rows @
     [\<lparr>row_id = next_row_id rows, row_kind = sn_kind s, row_namespace = sn_namespace s,
       row_name = sn_name s, row_hash = sn_spec_hash s, row_json = json_spaced (PDict (sn_spec s)),
       row_captured = isoformat (sn_captured_at s)\<rparr>]"

definition insert_rows :: "resource_snapshot list \<Rightarrow> sql_row list \<Rightarrow> sql_row list" where
  "insert_rows batch rows = fold insert_row batch rows"

text \<open>A flush takes what is pending and sends it to be written.\<close>

definition flush_take :: "sqlite_store \<Rightarrow> sqlite_store" where
  "flush_take st =
     (if sq_pending st = [] \<or> \<not> sq_open st then st
      else if list_all encodable (sq_pending st)
      then st\<lparr>sq_pending := [], sq_flushing := Some (Writing (sq_pending st))\<rparr>
      else st\<lparr>sq_pending := []\<rparr>)"

text \<open>
  How \<open>executemany\<close> ends: with an error after some rows, which stay in the open transaction, or with an
  error that rolls the transaction back; and how \<open>commit\<close> ends, with the latency measured.
\<close>

datatype insert_outcome = Inserted | InsertFails nat | InsertRollsBack

datatype commit_outcome = Committed duration | CommitFails | CommitRollsBack

definition flush_insert :: "insert_outcome \<Rightarrow> sqlite_store \<Rightarrow> sqlite_store" where
  "flush_insert out st =
     (case sq_flushing st of
        Some (Writing batch) \<Rightarrow>
          (case out of
             Inserted \<Rightarrow> st\<lparr>sq_rows := insert_rows batch (sq_rows st), sq_flushing := Some (Committing batch)\<rparr>
           | InsertFails n \<Rightarrow> st\<lparr>sq_rows := insert_rows (take n batch) (sq_rows st), sq_flushing := None\<rparr>
           | InsertRollsBack \<Rightarrow> st\<lparr>sq_rows := sq_saved st, sq_flushing := None\<rparr>)
      | _ \<Rightarrow> st)"

definition flush_commit :: "commit_outcome \<Rightarrow> sqlite_store \<Rightarrow> sqlite_store" where
  "flush_commit out st =
     (case sq_flushing st of
        Some (Committing batch) \<Rightarrow>
          (case out of
             Committed elapsed \<Rightarrow>
               st\<lparr>sq_saved := sq_rows st, sq_flushing := None,
                  sq_degraded := sq_degraded st \<or> BACKPRESSURE_THRESHOLD < elapsed\<rparr>
           | CommitFails \<Rightarrow> st\<lparr>sq_flushing := None\<rparr>
           | CommitRollsBack \<Rightarrow> st\<lparr>sq_rows := sq_saved st, sq_flushing := None\<rparr>)
      | _ \<Rightarrow> st)"

text \<open>One round of \<open>_flush_loop\<close>: it awaits its own flush, so none is in progress.\<close>

definition flush_tick :: "sqlite_store \<Rightarrow> sqlite_store" where
  "flush_tick st =
     (if sq_pending st \<noteq> [] \<and> \<not> sq_degraded st \<and> sq_flushing st = None then flush_take st else st)"

subsection \<open>Reading\<close>

definition cutoff_text :: "instant \<Rightarrow> duration \<Rightarrow> py_exn + str" where
  "cutoff_text now window =
     (if valid_instant (now - window) then Inr (isoformat (now - window)) else Inl OverflowError)"

text \<open>\<open>None\<close>: the row is logged and skipped.\<close>

definition decode_row :: "sql_row \<Rightarrow> loaded option" where
  "decode_row r =
     (case loads_json (row_json r) of
        Inl e \<Rightarrow> None
      | Inr spec \<Rightarrow>
          (case fromisoformat (row_captured r) of
             None \<Rightarrow> None
           | Some t \<Rightarrow>
               Some \<lparr>ld_kind = row_kind r, ld_namespace = row_namespace r, ld_name = row_name r,
                 ld_hash = row_hash r, ld_spec = spec, ld_captured_at = t, ld_resource_version = []\<rparr>))"

definition sq_load ::
  "row_ordering \<Rightarrow> instant \<Rightarrow> str \<Rightarrow> str \<Rightarrow> str \<Rightarrow> duration option \<Rightarrow> sqlite_store
    \<Rightarrow> py_exn + loaded list" where
  "sq_load ord now kind namespace name since st =
     (if \<not> sq_open st then Inr []
      else
        (case cutoff_text now (case since of Some d \<Rightarrow> d | None \<Rightarrow> sq_retention st) of
           Inl e \<Rightarrow> Inl e
         | Inr cutoff \<Rightarrow>
             Inr (List.map_filter decode_row
               (ord (filter (\<lambda>r. row_key r = (kind, namespace, name) \<and> cutoff \<le> row_captured r)
                  (sq_rows st))))))"

subsection \<open>Cleaning up and closing\<close>

definition delete_expired :: "str \<Rightarrow> sql_row list \<Rightarrow> sql_row list" where
  "delete_expired cutoff rows = filter (\<lambda>r. \<not> row_captured r < cutoff) rows"

definition rows_of :: "rkey \<Rightarrow> sql_row list \<Rightarrow> sql_row list" where
  "rows_of key rows = filter (\<lambda>r. row_key r = key) rows"

text \<open>The resources with more rows than allowed, with their number of rows\<close>

definition over_cap :: "nat \<Rightarrow> sql_row list \<Rightarrow> (rkey \<times> nat) list" where
  "over_cap max_versions rows =
     filter (\<lambda>(k, n). max_versions < n)
       (map (\<lambda>k. (k, length (rows_of k rows))) (remdups (map row_key rows)))"

definition delete_oldest :: "row_ordering \<Rightarrow> rkey \<Rightarrow> nat \<Rightarrow> sql_row list \<Rightarrow> sql_row list" where
  "delete_oldest ord key n rows =
     (let ids = map row_id (take n (ord (rows_of key rows))) in
      filter (\<lambda>r. row_id r \<notin> set ids) rows)"

text \<open>A round of the clean-up loop up to its first statement; the loop awaits the whole clean-up.\<close>

definition sq_cleanup :: "instant \<Rightarrow> sqlite_store \<Rightarrow> py_exn + sqlite_store" where
  "sq_cleanup now st =
     (if \<not> sq_open st then Inr st
      else
        (case cutoff_text now (sq_retention st) of
           Inl e \<Rightarrow> Inl e
         | Inr cutoff \<Rightarrow> Inr (st\<lparr>sq_cleaning := Some (DeletingExpired cutoff)\<rparr>)))"

text \<open>The rest of the loop over the resources that had too many rows when they were counted\<close>

definition cap_next :: "(rkey \<times> nat) list \<Rightarrow> cleanup_phase" where
  "cap_next counted = (if counted = [] then CommittingCleanup else Capping counted)"

fun cleanup_statement :: "row_ordering \<Rightarrow> cleanup_phase \<Rightarrow> sqlite_store \<Rightarrow> sqlite_store" where
  "cleanup_statement ord (DeletingExpired cutoff) st =
     st\<lparr>sq_rows := delete_expired cutoff (sq_rows st), sq_cleaning := Some CountingVersions\<rparr>"
| "cleanup_statement ord CountingVersions st =
     st\<lparr>sq_cleaning := Some (cap_next (over_cap (sq_max_versions st) (sq_rows st)))\<rparr>"
| "cleanup_statement ord (Capping []) st = st\<lparr>sq_cleaning := Some CommittingCleanup\<rparr>"
| "cleanup_statement ord (Capping ((key, n) # counted)) st =
     st\<lparr>sq_rows := delete_oldest ord key (n - sq_max_versions st) (sq_rows st),
        sq_cleaning := Some (cap_next counted)\<rparr>"
| "cleanup_statement ord CommittingCleanup st = st\<lparr>sq_saved := sq_rows st, sq_cleaning := None\<rparr>"

text \<open>How a statement of the clean-up ends; the loop logs an error and waits for its next round.\<close>

datatype stmt_outcome = StmtRan | StmtFails | StmtRollsBack

definition cleanup_step :: "row_ordering \<Rightarrow> stmt_outcome \<Rightarrow> sqlite_store \<Rightarrow> sqlite_store" where
  "cleanup_step ord out st =
     (case sq_cleaning st of
        None \<Rightarrow> st
      | Some phase \<Rightarrow>
          (case out of
             StmtRan \<Rightarrow> cleanup_statement ord phase st
           | StmtFails \<Rightarrow> st\<lparr>sq_cleaning := None\<rparr>
           | StmtRollsBack \<Rightarrow> st\<lparr>sq_cleaning := None, sq_rows := sq_saved st\<rparr>))"

text \<open>
  \<open>close\<close> cancels the flush task and then the clean-up task.  The statement such a task awaits is with the
  thread of the connection already and may still take effect (\<open>executed\<close>), a commit included, but no
  statement follows it.  Then comes a last flush, and closing the connection drops what is uncommitted.
\<close>

definition cancel_flush :: "bool \<Rightarrow> sqlite_store \<Rightarrow> sqlite_store" where
  "cancel_flush executed st =
     (if \<not> executed then st\<lparr>sq_flushing := None\<rparr>
      else
        (case sq_flushing st of
           None \<Rightarrow> st
         | Some (Writing batch) \<Rightarrow> st\<lparr>sq_rows := insert_rows batch (sq_rows st), sq_flushing := None\<rparr>
         | Some (Committing batch) \<Rightarrow> st\<lparr>sq_saved := sq_rows st, sq_flushing := None\<rparr>))"

definition cancel_cleanup :: "row_ordering \<Rightarrow> bool \<Rightarrow> sqlite_store \<Rightarrow> sqlite_store" where
  "cancel_cleanup ord executed st =
     (if executed then cleanup_step ord StmtRan st else st)\<lparr>sq_cleaning := None\<rparr>"

definition disconnect :: "sqlite_store \<Rightarrow> sqlite_store" where
  "disconnect st = (if sq_open st then st\<lparr>sq_open := False, sq_rows := []\<rparr> else st)"

text \<open>How the statements of a close end: the cancelled ones and those of the last flush\<close>

record closing =
  cl_flush_executed :: bool
  cl_cleanup_executed :: bool
  cl_insert :: insert_outcome
  cl_commit :: commit_outcome

definition sq_close :: "row_ordering \<Rightarrow> closing \<Rightarrow> sqlite_store \<Rightarrow> sqlite_store" where
  "sq_close ord cl st =
     (let st1 = cancel_cleanup ord (cl_cleanup_executed cl) (cancel_flush (cl_flush_executed cl) st);
          st2 = (if sq_pending st1 \<noteq> [] \<and> sq_open st1 \<and> \<not> sq_degraded st1
                 then flush_commit (cl_commit cl) (flush_insert (cl_insert cl) (flush_take st1)) else st1)
      in disconnect st2)"

subsection \<open>Runs\<close>

datatype sq_input =
    SqOpen
  | SqStore resource_snapshot
  | SqTick
  | SqInsert insert_outcome
  | SqCommit commit_outcome
  | SqCleanup instant
  | SqClean stmt_outcome
  | SqClose closing

text \<open>A clean-up that raises before its first statement is logged by its loop.\<close>

fun sq_step :: "row_ordering \<Rightarrow> sq_input \<Rightarrow> sqlite_store \<Rightarrow> sqlite_store" where
  "sq_step ord SqOpen st = (if sq_open st then st else sq_connect st)"
| "sq_step ord (SqStore s) st = sq_store s st"
| "sq_step ord SqTick st = flush_tick st"
| "sq_step ord (SqInsert out) st = flush_insert out st"
| "sq_step ord (SqCommit out) st = flush_commit out st"
| "sq_step ord (SqCleanup now) st =
     (if sq_cleaning st \<noteq> None then st else case sq_cleanup now st of Inl e \<Rightarrow> st | Inr st' \<Rightarrow> st')"
| "sq_step ord (SqClean out) st = cleanup_step ord out st"
| "sq_step ord (SqClose cl) st = sq_close ord cl st"

definition sq_run :: "row_ordering \<Rightarrow> sq_input list \<Rightarrow> sqlite_store \<Rightarrow> sqlite_store" where
  "sq_run ord ins st = fold (sq_step ord) ins st"

text \<open>The snapshots a run passes to \<open>store\<close>\<close>

fun stored_by :: "sq_input list \<Rightarrow> resource_snapshot list" where
  "stored_by [] = []"
| "stored_by (SqStore s # ins) = s # stored_by ins"
| "stored_by (_ # ins) = stored_by ins"

subsection \<open>What the rows hold\<close>

text \<open>What \<open>ORDER BY captured_at ASC\<close> promises\<close>

definition row_order :: "row_ordering \<Rightarrow> bool" where
  "row_order ord \<longleftrightarrow> (\<forall>rows. mset (ord rows) = mset rows \<and> sorted (map row_captured (ord rows)))"

lemma row_order_sort_key: "row_order (sort_key row_captured)"
  by (simp add: row_order_def)

lemma row_order_set: "row_order ord \<Longrightarrow> set (ord rows) = set rows"
  unfolding row_order_def by (metis mset_eq_setD)

definition storable :: "resource_snapshot \<Rightarrow> bool" where
  "storable s \<longleftrightarrow> vwf (PDict (sn_spec s)) \<and> valid_instant (sn_captured_at s)"

definition encodes :: "sql_row \<Rightarrow> resource_snapshot \<Rightarrow> bool" where
  "encodes r s \<longleftrightarrow> storable s \<and> encodable s \<and>
     row_key r = snap_key s \<and> row_hash r = sn_spec_hash s \<and> row_json r = json_spaced (PDict (sn_spec s))
     \<and> row_captured r = isoformat (sn_captured_at s)"

definition loaded_of :: "resource_snapshot \<Rightarrow> loaded" where
  "loaded_of s = \<lparr>ld_kind = sn_kind s, ld_namespace = sn_namespace s, ld_name = sn_name s,
     ld_hash = sn_spec_hash s, ld_spec = PDict (sn_spec s), ld_captured_at = sn_captured_at s,
     ld_resource_version = []\<rparr>"

lemma decode_encodes: "encodes r s \<Longrightarrow> decode_row r = Some (loaded_of s)"
  by (simp add: encodes_def storable_def encodable_def decode_row_def loaded_of_def row_key_def snap_key_def
      json_loads_spaced fromisoformat_isoformat del: json_spaced.simps vwf.simps ints_ok.simps)

text \<open>The rows, as the list of the snapshots they encode\<close>

definition holds :: "sql_row list \<Rightarrow> resource_snapshot list \<Rightarrow> bool" where
  "holds rows log \<longleftrightarrow> list_all2 encodes rows log \<and> sorted_wrt (<) (map row_id rows)"

lemma holds_Nil [simp]: "holds [] []"
  by (simp add: holds_def)

lemma fold_max_start: "(a::nat) \<le> fold max xs a"
proof (induction xs arbitrary: a)
  case (Cons y ys)
  have "max y a \<le> fold max ys (max y a)" by (rule Cons.IH)
  then show ?case by simp
qed simp

lemma fold_max_bound: "x \<in> set xs \<Longrightarrow> x \<le> fold max xs (a::nat)"
proof (induction xs arbitrary: a)
  case (Cons y ys)
  show ?case
  proof (cases "x = y")
    case True
    then show ?thesis using fold_max_start [of "max y a" ys] by simp
  next
    case False
    then show ?thesis using Cons by simp
  qed
qed simp

lemma next_row_id_fresh: "r \<in> set rows \<Longrightarrow> row_id r < next_row_id rows"
  using fold_max_bound [of "row_id r" "map row_id rows" 0] by (simp add: next_row_id_def less_Suc_eq_le)

lemma insert_row_holds:
  assumes "holds rows log" "storable s" "encodable s"
  shows "holds (insert_row s rows) (log @ [s])"
proof -
  define r where "r = \<lparr>row_id = next_row_id rows, row_kind = sn_kind s, row_namespace = sn_namespace s,
       row_name = sn_name s, row_hash = sn_spec_hash s, row_json = json_spaced (PDict (sn_spec s)),
       row_captured = isoformat (sn_captured_at s)\<rparr>"
  then have r: "insert_row s rows = rows @ [r]" "row_id r = next_row_id rows" "encodes r s"
    using assms(2,3)
    by (simp_all add: insert_row_def encodes_def row_key_def snap_key_def del: json_spaced.simps)
  have "sorted_wrt (<) (map row_id (rows @ [r]))"
    using assms(1) next_row_id_fresh [of _ rows] r(2) by (auto simp: holds_def sorted_wrt_append)
  moreover have "list_all2 encodes (rows @ [r]) (log @ [s])"
    using assms(1) r(3) by (simp add: holds_def list_all2_appendI)
  ultimately show ?thesis unfolding r(1) holds_def by blast
qed

lemma insert_rows_holds:
  "holds rows log \<Longrightarrow> list_all storable batch \<Longrightarrow> list_all encodable batch
    \<Longrightarrow> holds (insert_rows batch rows) (log @ batch)"
proof (induction batch arbitrary: rows log)
  case (Cons s batch)
  then have "holds (insert_row s rows) (log @ [s])" by (intro insert_row_holds) simp_all
  from Cons.IH [OF this] Cons.prems show ?case by (simp add: insert_rows_def)
qed (simp add: insert_rows_def)

lemma holds_filter:
  assumes "holds rows log"
  obtains log' where "holds (filter P rows) log'" "subseq log' log"
proof -
  have "\<exists>log'. list_all2 encodes (filter P rows) log' \<and> subseq log' log"
    if "list_all2 encodes rows log" for rows log
    using that
  proof (induction rule: list_all2_induct)
    case (Cons r rows s log)
    then obtain log' where "list_all2 encodes (filter P rows) log'" "subseq log' log" by blast
    with Cons(1) show ?case
      by (cases "P r") (auto intro: exI [of _ "s # log'"] exI [of _ log'])
  qed simp
  then obtain log' where "list_all2 encodes (filter P rows) log'" "subseq log' log"
    using assms unfolding holds_def by blast
  moreover have "sorted_wrt (<) (map row_id (filter P rows))"
    using assms unfolding holds_def by (metis sorted_wrt_filter sorted_wrt_map)
  ultimately show ?thesis using that by (auto simp: holds_def)
qed

text \<open>A statement of a clean-up selects rows, and touches neither what is flushed nor what waits.\<close>

lemma cleanup_step_rows:
  obtains P where "sq_rows (cleanup_step ord out st) = filter P (sq_rows st)"
      "sq_saved (cleanup_step ord out st) = sq_saved st"
    | "sq_rows (cleanup_step ord out st) = sq_rows st" "sq_saved (cleanup_step ord out st) = sq_rows st"
    | "sq_rows (cleanup_step ord out st) = sq_saved st" "sq_saved (cleanup_step ord out st) = sq_saved st"
proof (cases "sq_cleaning st")
  case None
  then show ?thesis using that(1) [of "\<lambda>_. True"] by (simp add: cleanup_step_def)
next
  case (Some phase)
  show ?thesis
  proof (cases out)
    case StmtRan
    then show ?thesis
      using Some that(1) [of "\<lambda>_. True"] that(1) that(2)
      by (cases "(ord, phase, st)" rule: cleanup_statement.cases)
        (auto simp: cleanup_step_def delete_expired_def delete_oldest_def Let_def)
  next
    case StmtFails
    then show ?thesis using Some that(1) [of "\<lambda>_. True"] by (simp add: cleanup_step_def)
  next
    case StmtRollsBack
    then show ?thesis using Some that(3) by (simp add: cleanup_step_def)
  qed
qed

lemma cleanup_step_keeps [simp]:
  "sq_flushing (cleanup_step ord out st) = sq_flushing st" "sq_pending (cleanup_step ord out st) = sq_pending st"
  "sq_degraded (cleanup_step ord out st) = sq_degraded st" "sq_open (cleanup_step ord out st) = sq_open st"
  "sq_retention (cleanup_step ord out st) = sq_retention st"
  "sq_max_versions (cleanup_step ord out st) = sq_max_versions st"
proof -
  have "sq_flushing (cleanup_statement ord phase st) = sq_flushing st \<and> sq_pending (cleanup_statement ord phase st) = sq_pending st
     \<and> sq_degraded (cleanup_statement ord phase st) = sq_degraded st \<and> sq_open (cleanup_statement ord phase st) = sq_open st
     \<and> sq_retention (cleanup_statement ord phase st) = sq_retention st
     \<and> sq_max_versions (cleanup_statement ord phase st) = sq_max_versions st" for phase
    by (cases "(ord, phase, st)" rule: cleanup_statement.cases) simp_all
  then show "sq_flushing (cleanup_step ord out st) = sq_flushing st" "sq_pending (cleanup_step ord out st) = sq_pending st"
    "sq_degraded (cleanup_step ord out st) = sq_degraded st" "sq_open (cleanup_step ord out st) = sq_open st"
    "sq_retention (cleanup_step ord out st) = sq_retention st"
    "sq_max_versions (cleanup_step ord out st) = sq_max_versions st"
    by (simp_all add: cleanup_step_def split: option.split stmt_outcome.split)
qed

subsection \<open>The invariant of a run\<close>

text \<open>The batch being flushed, as long as its rows are not inserted\<close>

definition unwritten :: "sqlite_store \<Rightarrow> resource_snapshot list" where
  "unwritten st = (case sq_flushing st of Some (Writing batch) \<Rightarrow> batch | _ \<Rightarrow> [])"

text \<open>
  The rows seen and the rows saved encode snapshots that were stored, in the order they were stored, and
  what waits or is being written comes after them.  A degraded store writes nothing.
\<close>

definition sq_inv :: "resource_snapshot list \<Rightarrow> sqlite_store \<Rightarrow> bool" where
  "sq_inv stored st \<longleftrightarrow>
     (\<exists>log. holds (sq_rows st) log \<and> subseq (log @ unwritten st @ sq_pending st) stored) \<and>
     (\<exists>log. holds (sq_saved st) log \<and> subseq (log @ unwritten st @ sq_pending st) stored) \<and>
     list_all storable stored \<and> list_all encodable (unwritten st) \<and> (sq_degraded st \<longrightarrow> sq_flushing st = None)"

lemma subseq_shrink: "subseq (a @ b) s \<Longrightarrow> subseq a' a \<Longrightarrow> subseq b' b \<Longrightarrow> subseq (a' @ b') s"
  by (meson list_emb_append_mono subseq_order.trans)

lemma subseq_drop_mid: "subseq (a @ b @ c) s \<Longrightarrow> subseq (a @ c) s"
  by (erule subseq_shrink) (simp_all add: list_emb_append2)

lemma subseq_all: "subseq xs ys \<Longrightarrow> list_all P ys \<Longrightarrow> list_all P xs"
  by (auto simp: list_all_iff dest: list_emb_set)

lemma list_all_take: "list_all P xs \<Longrightarrow> list_all P (take n xs)"
  by (auto simp: list_all_iff dest: in_set_takeD)

lemma sq_init_inv: "sq_inv [] (sq_init m ret [])"
  by (simp add: sq_inv_def sq_init_def unwritten_def) (metis holds_Nil list_emb_Nil)

lemma sq_invE:
  assumes "sq_inv stored st"
  obtains log slog where "holds (sq_rows st) log" "subseq (log @ unwritten st @ sq_pending st) stored"
    "holds (sq_saved st) slog" "subseq (slog @ unwritten st @ sq_pending st) stored"
    "list_all storable stored" "list_all encodable (unwritten st)" "sq_degraded st \<Longrightarrow> sq_flushing st = None"
  using assms unfolding sq_inv_def by blast

lemma sq_invI:
  assumes "holds (sq_rows st) log" "subseq (log @ unwritten st @ sq_pending st) stored"
    "holds (sq_saved st) slog" "subseq (slog @ unwritten st @ sq_pending st) stored"
    "list_all storable stored" "list_all encodable (unwritten st)" "sq_degraded st \<Longrightarrow> sq_flushing st = None"
  shows "sq_inv stored st"
  using assms unfolding sq_inv_def by blast

lemma sq_store_inv:
  assumes "sq_inv stored st" "storable s"
  shows "sq_inv (stored @ [s]) (sq_store s st)"
proof -
  obtain log slog where i: "holds (sq_rows st) log" "subseq (log @ unwritten st @ sq_pending st) stored"
    "holds (sq_saved st) slog" "subseq (slog @ unwritten st @ sq_pending st) stored"
    "list_all storable stored" "list_all encodable (unwritten st)" "sq_degraded st \<Longrightarrow> sq_flushing st = None"
    using assms(1) by (rule sq_invE) blast
  have app: "subseq (l @ b @ sq_pending st @ [s]) (stored @ [s])" "subseq (l @ b @ sq_pending st) (stored @ [s])"
    if "subseq (l @ b @ sq_pending st) stored" for l b
    using list_emb_append_mono [OF that, of "[s]" "[s]"] that by (simp_all add: subseq_rev_drop_many)
  show ?thesis
    by (rule sq_invI [of _ log _ slog])
       (use i app assms(2) in \<open>auto simp: sq_store_def unwritten_def\<close>)
qed

lemma flush_take_inv:
  assumes "sq_inv stored st" "sq_flushing st = None" "\<not> sq_degraded st"
  shows "sq_inv stored (flush_take st)"
proof -
  obtain log slog where i: "holds (sq_rows st) log" "subseq (log @ sq_pending st) stored"
    "holds (sq_saved st) slog" "subseq (slog @ sq_pending st) stored" "list_all storable stored"
    using assms(1,2) by (elim sq_invE) (auto simp: unwritten_def)
  have lost: "subseq log stored" "subseq slog stored"
    using i(2,4) subseq_shrink [of _ "sq_pending st" stored _ "[]"] by auto
  show ?thesis
    using i lost assms by (intro sq_invI [of _ log _ slog]) (auto simp: flush_take_def unwritten_def)
qed

lemma flush_tick_inv: "sq_inv stored st \<Longrightarrow> sq_inv stored (flush_tick st)"
  by (simp add: flush_tick_def flush_take_inv)

text \<open>A batch that is being written is inserted, or inserted in part, or given up.\<close>

lemma sq_inv_writing:
  assumes "sq_inv stored st" "sq_flushing st = Some (Writing batch)"
  shows "sq_inv stored (st\<lparr>sq_rows := insert_rows batch (sq_rows st), sq_flushing := Some (Committing batch)\<rparr>)"
    and "sq_inv stored (st\<lparr>sq_rows := insert_rows (take n batch) (sq_rows st), sq_flushing := None\<rparr>)"
    and "sq_inv stored (st\<lparr>sq_rows := sq_saved st, sq_flushing := None\<rparr>)"
    and "sq_inv stored (st\<lparr>sq_flushing := None\<rparr>)"
proof -
  obtain log slog where i: "holds (sq_rows st) log" "subseq (log @ batch @ sq_pending st) stored"
    "holds (sq_saved st) slog" "subseq (slog @ batch @ sq_pending st) stored"
    "list_all storable stored" "list_all encodable batch" "\<not> sq_degraded st"
    using assms by (elim sq_invE) (auto simp: unwritten_def)
  have b: "list_all storable batch" using subseq_all [OF i(2) i(5)] by simp
  have drop: "subseq (log @ sq_pending st) stored" "subseq (slog @ sq_pending st) stored"
    using i(2,4) subseq_drop_mid by blast+
  have ins: "holds (insert_rows batch (sq_rows st)) (log @ batch)"
    by (rule insert_rows_holds [OF i(1) b i(6)])
  have tins: "holds (insert_rows (take n batch) (sq_rows st)) (log @ take n batch)"
    by (rule insert_rows_holds [OF i(1) list_all_take [OF b] list_all_take [OF i(6)]])
  have tsub: "subseq (log @ take n batch @ sq_pending st) stored"
  proof (rule subseq_shrink [OF i(2)])
    show "subseq (take n batch @ sq_pending st) (batch @ sq_pending st)"
      by (simp add: list_emb_append_mono prefix_imp_subseq take_is_prefix)
  qed simp
  show "sq_inv stored (st\<lparr>sq_rows := insert_rows batch (sq_rows st), sq_flushing := Some (Committing batch)\<rparr>)"
    by (rule sq_invI [of _ "log @ batch" _ slog]) (use ins i drop in \<open>simp_all add: unwritten_def\<close>)
  show "sq_inv stored (st\<lparr>sq_rows := insert_rows (take n batch) (sq_rows st), sq_flushing := None\<rparr>)"
    by (rule sq_invI [of _ "log @ take n batch" _ slog])
       (use tins tsub i drop in \<open>simp_all add: unwritten_def\<close>)
  show "sq_inv stored (st\<lparr>sq_rows := sq_saved st, sq_flushing := None\<rparr>)"
    by (rule sq_invI [of _ slog _ slog]) (use i drop in \<open>simp_all add: unwritten_def\<close>)
  show "sq_inv stored (st\<lparr>sq_flushing := None\<rparr>)"
    by (rule sq_invI [of _ log _ slog]) (use i drop in \<open>simp_all add: unwritten_def\<close>)
qed

text \<open>A batch whose commit is awaited is saved, or stays in the transaction, or is rolled back.\<close>

lemma sq_inv_committing:
  assumes "sq_inv stored st" "sq_flushing st = Some (Committing batch)"
  shows "sq_inv stored (st\<lparr>sq_saved := sq_rows st, sq_flushing := None\<rparr>)"
    and "sq_inv stored (st\<lparr>sq_saved := sq_rows st, sq_flushing := None, sq_degraded := d\<rparr>)"
    and "sq_inv stored (st\<lparr>sq_flushing := None\<rparr>)"
    and "sq_inv stored (st\<lparr>sq_rows := sq_saved st, sq_flushing := None\<rparr>)"
proof -
  obtain log slog where i: "holds (sq_rows st) log" "subseq (log @ sq_pending st) stored"
    "holds (sq_saved st) slog" "subseq (slog @ sq_pending st) stored" "list_all storable stored"
    using assms by (elim sq_invE) (auto simp: unwritten_def)
  show "sq_inv stored (st\<lparr>sq_saved := sq_rows st, sq_flushing := None\<rparr>)"
    "sq_inv stored (st\<lparr>sq_saved := sq_rows st, sq_flushing := None, sq_degraded := d\<rparr>)"
    by (rule sq_invI [of _ log _ log]; use i in \<open>simp add: unwritten_def\<close>)+
  show "sq_inv stored (st\<lparr>sq_flushing := None\<rparr>)"
    by (rule sq_invI [of _ log _ slog]) (use i in \<open>simp_all add: unwritten_def\<close>)
  show "sq_inv stored (st\<lparr>sq_rows := sq_saved st, sq_flushing := None\<rparr>)"
    by (rule sq_invI [of _ slog _ slog]) (use i in \<open>simp_all add: unwritten_def\<close>)
qed

lemma flush_insert_inv: "sq_inv stored st \<Longrightarrow> sq_inv stored (flush_insert out st)"
  by (auto simp: flush_insert_def sq_inv_writing split: option.split flush_phase.split insert_outcome.split)

lemma flush_commit_inv: "sq_inv stored st \<Longrightarrow> sq_inv stored (flush_commit out st)"
  by (auto simp: flush_commit_def sq_inv_committing split: option.split flush_phase.split commit_outcome.split)

lemma idle_inv:
  assumes "sq_inv stored st"
  shows "sq_inv stored (st\<lparr>sq_flushing := None\<rparr>)"
proof (cases "sq_flushing st")
  case None
  then have "st\<lparr>sq_flushing := None\<rparr> = st" by (cases st) simp
  then show ?thesis using assms by simp
next
  case (Some phase)
  then show ?thesis using assms by (cases phase) (simp_all add: sq_inv_writing(4) sq_inv_committing(3))
qed

lemma written_idle_inv:
  assumes "sq_inv stored st" "sq_flushing st = Some (Writing batch)"
  shows "sq_inv stored (st\<lparr>sq_rows := insert_rows batch (sq_rows st), sq_flushing := None\<rparr>)"
  using sq_inv_writing(2) [OF assms, of "length batch"] by simp

lemma cancel_flush_inv: "sq_inv stored st \<Longrightarrow> sq_inv stored (cancel_flush executed st)"
  by (auto simp: cancel_flush_def written_idle_inv sq_inv_committing(1) idle_inv split: option.split flush_phase.split)

lemma cancel_flush_idle [simp]: "sq_flushing (cancel_flush executed st) = None"
  by (simp add: cancel_flush_def split: option.split flush_phase.split)

lemma cleaning_inv [simp]: "sq_inv stored (st\<lparr>sq_cleaning := c\<rparr>) = sq_inv stored st"
  by (simp add: sq_inv_def unwritten_def)

text \<open>Selecting rows, saving the rows seen and rolling back keep the invariant while a flush goes on.\<close>

lemma sq_inv_select:
  assumes "sq_inv stored st" "sq_rows st' = filter P (sq_rows st)" "sq_saved st' = sq_saved st"
    "sq_flushing st' = sq_flushing st" "sq_pending st' = sq_pending st" "sq_degraded st' = sq_degraded st"
  shows "sq_inv stored st'"
proof -
  obtain log slog where i: "holds (sq_rows st) log" "subseq (log @ unwritten st @ sq_pending st) stored"
    "holds (sq_saved st) slog" "subseq (slog @ unwritten st @ sq_pending st) stored"
    "list_all storable stored" "list_all encodable (unwritten st)" "sq_degraded st \<Longrightarrow> sq_flushing st = None"
    using assms(1) by (rule sq_invE) blast
  obtain log' where l: "holds (filter P (sq_rows st)) log'" "subseq log' log"
    using holds_filter [OF i(1)] by blast
  have "subseq (log' @ unwritten st @ sq_pending st) stored"
    using subseq_shrink [OF i(2) l(2)] by blast
  then show ?thesis
    by (intro sq_invI [of _ log' _ slog]) (use l i assms(2-) in \<open>simp_all add: unwritten_def\<close>)
qed

lemma sq_inv_synced:
  assumes "sq_inv stored st" "sq_rows st' = sq_saved st'" "sq_saved st' \<in> {sq_rows st, sq_saved st}"
    "sq_flushing st' = sq_flushing st" "sq_pending st' = sq_pending st" "sq_degraded st' = sq_degraded st"
  shows "sq_inv stored st'"
  using assms unfolding sq_inv_def unwritten_def by auto

lemma cleanup_step_inv:
  assumes "sq_inv stored st"
  shows "sq_inv stored (cleanup_step ord out st)"
proof (rule cleanup_step_rows [of ord out st])
  fix P
  assume "sq_rows (cleanup_step ord out st) = filter P (sq_rows st)" "sq_saved (cleanup_step ord out st) = sq_saved st"
  then show ?thesis by (intro sq_inv_select [OF assms]) simp_all
qed (intro sq_inv_synced [OF assms], simp_all)+

lemma sq_cleanup_inv: "sq_inv stored st \<Longrightarrow> sq_cleanup now st = Inr st' \<Longrightarrow> sq_inv stored st'"
  by (auto simp: sq_cleanup_def split: if_splits sum.splits)

lemma cancel_cleanup_inv: "sq_inv stored st \<Longrightarrow> sq_inv stored (cancel_cleanup ord executed st)"
  by (simp add: cancel_cleanup_def cleanup_step_inv)

lemma cancel_cleanup_keeps [simp]:
  "sq_flushing (cancel_cleanup ord executed st) = sq_flushing st" "sq_pending (cancel_cleanup ord executed st) = sq_pending st"
  "sq_degraded (cancel_cleanup ord executed st) = sq_degraded st" "sq_open (cancel_cleanup ord executed st) = sq_open st"
  by (simp_all add: cancel_cleanup_def)

lemma disconnect_inv:
  assumes "sq_inv stored st"
  shows "sq_inv stored (disconnect st)"
proof (cases "sq_open st")
  case True
  obtain log slog where i: "subseq (log @ unwritten st @ sq_pending st) stored"
    "holds (sq_saved st) slog" "subseq (slog @ unwritten st @ sq_pending st) stored"
    "list_all storable stored" "list_all encodable (unwritten st)" "sq_degraded st \<Longrightarrow> sq_flushing st = None"
    using assms by (rule sq_invE) blast
  have "subseq ([] @ unwritten st @ sq_pending st) stored"
    by (rule subseq_shrink [OF i(1)]) simp_all
  then show ?thesis
    using True i(2-) by (intro sq_invI [of _ "[]" _ slog]) (simp_all add: disconnect_def unwritten_def)
qed (simp add: disconnect_def assms)

lemma sq_close_inv:
  assumes "sq_inv stored st"
  shows "sq_inv stored (sq_close ord cl st)"
proof -
  let ?st1 = "cancel_cleanup ord (cl_cleanup_executed cl) (cancel_flush (cl_flush_executed cl) st)"
  have i: "sq_inv stored ?st1" by (intro cancel_cleanup_inv cancel_flush_inv assms)
  have "sq_inv stored (flush_commit c (flush_insert n (flush_take ?st1)))" if "\<not> sq_degraded ?st1" for c n
    by (intro flush_commit_inv flush_insert_inv flush_take_inv [OF i _ that]) simp
  with i show ?thesis by (simp add: sq_close_def Let_def disconnect_inv)
qed

lemma sq_step_inv:
  assumes "sq_inv stored st" "list_all storable (stored_by [i])"
  shows "sq_inv (stored @ stored_by [i]) (sq_step ord i st)"
proof (cases i)
  case SqOpen
  then show ?thesis using assms by (auto simp: sq_inv_def sq_connect_def unwritten_def)
next
  case (SqStore s)
  then show ?thesis using assms sq_store_inv by simp
next
  case (SqCleanup now)
  then show ?thesis using assms sq_cleanup_inv by (auto split: sum.split)
qed (use assms flush_tick_inv flush_insert_inv flush_commit_inv cleanup_step_inv sq_close_inv in simp_all)

lemma stored_by_append: "stored_by (a @ b) = stored_by a @ stored_by b"
  by (induction a rule: stored_by.induct) auto

lemma sq_run_append: "sq_run ord (a @ b) st = sq_run ord b (sq_run ord a st)"
  by (simp add: sq_run_def)

lemma sq_run_inv:
  assumes "list_all storable (stored_by ins)"
  shows "sq_inv (stored_by ins) (sq_run ord ins (sq_init m ret []))"
  using assms
proof (induction ins rule: rev_induct)
  case Nil
  show ?case using sq_init_inv by (simp add: sq_run_def)
next
  case (snoc i ins)
  have i: "list_all storable (stored_by ins)" "list_all storable (stored_by [i])"
    using snoc.prems by (simp_all add: stored_by_append)
  have "sq_inv (stored_by ins @ stored_by [i]) (sq_step ord i (sq_run ord ins (sq_init m ret [])))"
    by (rule sq_step_inv [OF snoc.IH [OF i(1)] i(2)])
  then show ?case by (simp add: sq_run_append stored_by_append) (simp add: sq_run_def)
qed

subsection \<open>What load returns\<close>

definition in_window :: "rkey \<Rightarrow> instant \<Rightarrow> resource_snapshot \<Rightarrow> bool" where
  "in_window key cutoff s \<longleftrightarrow> snap_key s = key \<and> cutoff \<le> sn_captured_at s"

text \<open>The snapshots the connection sees, decoded from the rows\<close>

definition visible :: "sqlite_store \<Rightarrow> loaded list" where
  "visible st = List.map_filter decode_row (sq_rows st)"

lemma map_filter_all: "list_all2 (\<lambda>r s. f r = Some (g s)) rows log \<Longrightarrow> List.map_filter f rows = map g log"
  by (induction rule: list_all2_induct) (simp_all add: List.map_filter_simps)

lemma mset_map_filter: "mset xs = mset ys \<Longrightarrow> mset (List.map_filter f xs) = mset (List.map_filter f ys)"
  by (simp add: List.map_filter_def)

lemma filter_list_all2:
  assumes "list_all2 R xs ys" "\<And>x y. R x y \<Longrightarrow> P x = Q y"
  shows "list_all2 R (filter P xs) (filter Q ys)"
  using assms(1) by (induction rule: list_all2_induct) (auto simp: assms(2))

lemma list_all2_mem1: "list_all2 R xs ys \<Longrightarrow> x \<in> set xs \<Longrightarrow> \<exists>y \<in> set ys. R x y"
  by (induction rule: list_all2_induct) auto

lemma decode_sorted:
  assumes "sorted (map row_captured rows)" "\<And>r. r \<in> set rows \<Longrightarrow> \<exists>s. encodes r s"
  shows "sorted (map ld_captured_at (List.map_filter decode_row rows))"
  using assms
proof (induction rows)
  case (Cons r rows)
  obtain s where s: "encodes r s" using Cons.prems(2) by fastforce
  have "sn_captured_at s \<le> ld_captured_at l" if "l \<in> set (List.map_filter decode_row rows)" for l
  proof -
    from that have "\<exists>q \<in> set rows. decode_row q = Some l" by (force simp: List.map_filter_def)
    then obtain q where q: "q \<in> set rows" "decode_row q = Some l" by blast
    obtain u where u: "encodes q u" using Cons.prems(2) q(1) by fastforce
    have "row_captured r \<le> row_captured q" using Cons.prems(1) q(1) by simp
    then have "sn_captured_at s \<le> sn_captured_at u"
      using s u isoformat_le_iff [of "sn_captured_at s" "sn_captured_at u"]
      by (simp add: encodes_def storable_def)
    moreover have "l = loaded_of u" using q(2) decode_encodes [OF u] by simp
    ultimately show ?thesis by (simp add: loaded_of_def)
  qed
  moreover have "sorted (map ld_captured_at (List.map_filter decode_row rows))"
    using Cons by simp
  ultimately show ?case
    using decode_encodes [OF s] by (auto simp: List.map_filter_simps loaded_of_def)
qed (simp add: List.map_filter_simps)

lemma load_holds:
  assumes ord: "row_order ord" and h: "holds (sq_rows st) log" and o: "sq_open st"
    and w: "valid_instant (now - w)" "w = (case since of Some d \<Rightarrow> d | None \<Rightarrow> sq_retention st)"
  shows "\<exists>ls. sq_load ord now k ns n since st = Inr ls \<and>
     mset ls = mset (map loaded_of (filter (in_window (k, ns, n) (now - w)) log)) \<and>
     sorted (map ld_captured_at ls)"
proof -
  define P where "P = (\<lambda>r. row_key r = (k, ns, n) \<and> isoformat (now - w) \<le> row_captured r)"
  have enc: "list_all2 encodes (sq_rows st) log" using h by (simp add: holds_def)
  have P: "P r = in_window (k, ns, n) (now - w) s" if "encodes r s" for r s
    using that isoformat_le_iff [OF w(1), of "sn_captured_at s"]
    by (simp add: P_def in_window_def encodes_def storable_def)
  have fenc: "list_all2 encodes (filter P (sq_rows st)) (filter (in_window (k, ns, n) (now - w)) log)"
    by (rule filter_list_all2 [OF enc P])
  have "List.map_filter decode_row (filter P (sq_rows st)) =
      map loaded_of (filter (in_window (k, ns, n) (now - w)) log)"
    by (rule map_filter_all) (use fenc decode_encodes in \<open>auto elim: list_all2_mono\<close>)
  moreover have "mset (List.map_filter decode_row (ord (filter P (sq_rows st)))) =
      mset (List.map_filter decode_row (filter P (sq_rows st)))"
    by (rule mset_map_filter) (use ord in \<open>simp add: row_order_def\<close>)
  moreover have "sorted (map ld_captured_at (List.map_filter decode_row (ord (filter P (sq_rows st)))))"
  proof (rule decode_sorted)
    show "sorted (map row_captured (ord (filter P (sq_rows st))))" using ord by (simp add: row_order_def)
    show "\<exists>s. encodes r s" if "r \<in> set (ord (filter P (sq_rows st)))" for r
      using that list_all2_mem1 [OF fenc, of r] by (auto simp: row_order_set [OF ord])
  qed
  moreover have "sq_load ord now k ns n since st = Inr (List.map_filter decode_row (ord (filter P (sq_rows st))))"
    using o w by (simp add: sq_load_def cutoff_text_def P_def)
  ultimately show ?thesis by simp
qed

lemma visible_holds: "holds (sq_rows st) log \<Longrightarrow> visible st = map loaded_of log"
  unfolding visible_def holds_def
  by (rule map_filter_all) (auto elim: list_all2_mono simp: decode_encodes)

definition loaded_in_window :: "rkey \<Rightarrow> instant \<Rightarrow> loaded \<Rightarrow> bool" where
  "loaded_in_window key cutoff l \<longleftrightarrow>
     (ld_kind l, ld_namespace l, ld_name l) = key \<and> cutoff \<le> ld_captured_at l"

lemma in_window_loaded: "in_window key cutoff = (\<lambda>s. loaded_in_window key cutoff (loaded_of s))"
  by (simp add: fun_eq_iff in_window_def loaded_in_window_def loaded_of_def snap_key_def)

text \<open>
  C9: After any run from an empty file, whatever the outcomes of the writes, \<open>load\<close> returns exactly the
  visible snapshots of the resource that lie in the time window, oldest first, although the code compares
  texts and not instants; what is visible is a selection of what was stored, in its order, unchanged but
  for the resource version, which is not kept.
\<close>

theorem persisted_ledger_query:
  fixes ins :: "sq_input list" and m :: int and ret w :: duration
  assumes "row_order ord" "list_all storable (stored_by ins)"
    and "sq_open (sq_run ord ins (sq_init m ret []))"
    and "valid_instant (now - w)"
  shows "\<exists>ls. sq_load ord now k ns n (Some w) (sq_run ord ins (sq_init m ret [])) = Inr ls \<and>
     mset ls = mset (filter (loaded_in_window (k, ns, n) (now - w)) (visible (sq_run ord ins (sq_init m ret [])))) \<and>
     sorted (map ld_captured_at ls) \<and>
     subseq (visible (sq_run ord ins (sq_init m ret []))) (map loaded_of (stored_by ins))"
proof -
  let ?st = "sq_run ord ins (sq_init m ret [])"
  obtain log where l: "holds (sq_rows ?st) log" "subseq (log @ unwritten ?st @ sq_pending ?st) (stored_by ins)"
    using sq_run_inv [OF assms(2)] by (rule sq_invE) blast
  have vis: "visible ?st = map loaded_of log" by (rule visible_holds [OF l(1)])
  obtain ls where ls: "sq_load ord now k ns n (Some w) ?st = Inr ls"
    "mset ls = mset (map loaded_of (filter (in_window (k, ns, n) (now - w)) log))"
    "sorted (map ld_captured_at ls)"
    using load_holds [OF assms(1) l(1) assms(3,4), of "Some w" k ns n] by auto
  have "filter (loaded_in_window (k, ns, n) (now - w)) (visible ?st) =
      map loaded_of (filter (in_window (k, ns, n) (now - w)) log)"
    by (simp add: vis filter_map comp_def in_window_loaded)
  moreover have "subseq (log @ []) (stored_by ins)"
    by (rule subseq_shrink [OF l(2)]) simp_all
  then have "subseq (visible ?st) (map loaded_of (stored_by ins))"
    by (simp add: vis subseq_map)
  ultimately show ?thesis using ls by auto
qed

subsection \<open>Nothing is lost as long as the writes succeed\<close>

text \<open>The snapshots on disk: what another connection reads, and what survives this one\<close>

definition committed :: "sqlite_store \<Rightarrow> loaded list" where
  "committed st = List.map_filter decode_row (sq_saved st)"

text \<open>The batch that has left the queue and is not known to be committed\<close>

definition in_flight :: "sqlite_store \<Rightarrow> resource_snapshot list" where
  "in_flight st =
     (case sq_flushing st of None \<Rightarrow> [] | Some (Writing batch) \<Rightarrow> batch | Some (Committing batch) \<Rightarrow> batch)"

fun healthy_input :: "sq_input \<Rightarrow> bool" where
  "healthy_input (SqInsert out) = (out = Inserted)"
| "healthy_input (SqCommit (Committed e)) = (e \<le> BACKPRESSURE_THRESHOLD)"
| "healthy_input (SqCommit _) = False"
| "healthy_input (SqCleanup now) = False"
| "healthy_input (SqClose cl) = False"
| "healthy_input (SqStore s) = (storable s \<and> encodable s)"
| "healthy_input _ = True"

lemma sq_open_run: "sq_run ord (SqOpen # ins) st = sq_run ord ins (sq_step ord SqOpen st)"
  by (simp add: sq_run_def)

definition all_kept :: "resource_snapshot list \<Rightarrow> sqlite_store \<Rightarrow> bool" where
  "all_kept stored st \<longleftrightarrow> sq_open st \<and> \<not> sq_degraded st \<and> sq_cleaning st = None \<and>
     list_all (\<lambda>s. storable s \<and> encodable s) stored \<and>
     (\<exists>log. holds (sq_saved st) log \<and> stored = log @ in_flight st @ sq_pending st \<and>
        sq_rows st = (case sq_flushing st of Some (Committing batch) \<Rightarrow> insert_rows batch (sq_saved st) | _ \<Rightarrow> sq_saved st))"

lemma healthy_step:
  assumes "all_kept stored st" "healthy_input i"
  shows "all_kept (stored @ stored_by [i]) (sq_step ord i st)"
proof -
  obtain log where l: "holds (sq_saved st) log" "stored = log @ in_flight st @ sq_pending st"
      "sq_rows st = (case sq_flushing st of Some (Committing batch) \<Rightarrow> insert_rows batch (sq_saved st) | _ \<Rightarrow> sq_saved st)"
    and o: "sq_open st" "\<not> sq_degraded st" "sq_cleaning st = None" "list_all (\<lambda>s. storable s \<and> encodable s) stored"
    using assms(1) by (auto simp: all_kept_def)
  have flying: "list_all storable (in_flight st)" "list_all encodable (in_flight st)" "list_all encodable (sq_pending st)"
    using o(4) l(2) by (auto simp: list_all_iff)
  have ins: "holds (insert_rows (in_flight st) (sq_saved st)) (log @ in_flight st)"
    by (rule insert_rows_holds [OF l(1) flying(1,2)])
  show ?thesis
  proof (cases i)
    case (SqInsert out)
    then show ?thesis
      using assms l o by (auto simp: all_kept_def flush_insert_def in_flight_def split: option.split flush_phase.split)
  next
    case (SqCommit out)
    then obtain e where "out = Committed e" "e \<le> BACKPRESSURE_THRESHOLD"
      using assms(2) by (cases out) auto
    then show ?thesis
      using SqCommit l o ins by (auto simp: all_kept_def flush_commit_def in_flight_def split: option.split flush_phase.split)
  next
    case (SqStore s)
    then show ?thesis
      using assms(2) l o by (auto simp: all_kept_def sq_store_def in_flight_def split: option.split flush_phase.split)
  next
    case SqTick
    then show ?thesis
      using l o flying(3) by (auto simp: all_kept_def flush_tick_def flush_take_def in_flight_def)
  qed (use assms o in \<open>simp_all add: cleanup_step_def\<close>)
qed

lemma healthy_run:
  assumes "list_all healthy_input ins"
  shows "all_kept (stored_by ins) (sq_run ord (SqOpen # ins) (sq_init m ret []))"
  using assms
proof (induction ins rule: rev_induct)
  case Nil
  show ?case by (auto simp: sq_run_def sq_init_def sq_connect_def all_kept_def in_flight_def)
next
  case (snoc i ins)
  then have "all_kept (stored_by ins @ stored_by [i])
      (sq_step ord i (sq_run ord (SqOpen # ins) (sq_init m ret [])))"
    by (intro healthy_step) simp_all
  then show ?case
    using sq_run_append [of ord "SqOpen # ins" "[i]"] by (simp add: stored_by_append) (simp add: sq_run_def)
qed

text \<open>
  C34: In any run without a clean-up and without a close, in which every snapshot can be encoded and every
  flush succeeds within the latency threshold, every stored snapshot is committed to disk, or belongs to
  the flush in progress, or waits for the next one, in the order in which they came; and when no flush is
  in progress, \<open>load\<close> sees exactly what is committed.
\<close>

theorem persistence_keeps_everything:
  assumes "list_all healthy_input ins"
  shows "map loaded_of (stored_by ins) =
     committed (sq_run ord (SqOpen # ins) (sq_init m ret []))
     @ map loaded_of (in_flight (sq_run ord (SqOpen # ins) (sq_init m ret []))
        @ sq_pending (sq_run ord (SqOpen # ins) (sq_init m ret [])))
   \<and> (in_flight (sq_run ord (SqOpen # ins) (sq_init m ret [])) = [] \<longrightarrow>
        visible (sq_run ord (SqOpen # ins) (sq_init m ret [])) = committed (sq_run ord (SqOpen # ins) (sq_init m ret [])))"
proof -
  let ?st = "sq_run ord (SqOpen # ins) (sq_init m ret [])"
  obtain log where l: "holds (sq_saved ?st) log" "stored_by ins = log @ in_flight ?st @ sq_pending ?st"
    "sq_rows ?st = (case sq_flushing ?st of Some (Committing batch) \<Rightarrow> insert_rows batch (sq_saved ?st) | _ \<Rightarrow> sq_saved ?st)"
    using healthy_run [OF assms] unfolding all_kept_def by blast
  have "committed ?st = map loaded_of log"
    using l(1) unfolding committed_def holds_def
    by (intro map_filter_all) (auto elim: list_all2_mono simp: decode_encodes)
  moreover have "sq_rows ?st = sq_saved ?st" if "in_flight ?st = []"
    using l(3) that by (simp add: in_flight_def insert_rows_def split: option.splits flush_phase.splits)
  ultimately show ?thesis using l(2) by (simp add: visible_def committed_def)
qed

subsection \<open>Degradation and losses\<close>

lemma sq_cleanup_cases: "sq_cleanup now st = Inr st' \<Longrightarrow> \<exists>c. st' = st\<lparr>sq_cleaning := c\<rparr>"
  by (auto simp: sq_cleanup_def split: if_splits sum.splits intro: exI [of _ "sq_cleaning st"])

lemma cleanup_step_subset:
  "set (sq_rows (cleanup_step ord out st)) \<union> set (sq_saved (cleanup_step ord out st)) \<subseteq> set (sq_rows st) \<union> set (sq_saved st)"
  by (rule cleanup_step_rows [of ord out st]) auto

lemma cancel_subset:
  assumes "sq_flushing st = None"
  shows "set (sq_rows (cancel_cleanup ord x (cancel_flush y st))) \<union> set (sq_saved (cancel_cleanup ord x (cancel_flush y st)))
    \<subseteq> set (sq_rows st) \<union> set (sq_saved st)"
  using assms cleanup_step_subset [of ord StmtRan "cancel_flush y st"] by (auto simp: cancel_cleanup_def cancel_flush_def)

lemma cancel_flush_keeps [simp]:
  "sq_pending (cancel_flush x st) = sq_pending st" "sq_degraded (cancel_flush x st) = sq_degraded st"
  "sq_open (cancel_flush x st) = sq_open st"
  by (simp_all add: cancel_flush_def split: option.split flush_phase.split)

lemma degraded_close:
  assumes "sq_degraded st"
  shows "sq_close ord cl st = disconnect (cancel_cleanup ord (cl_cleanup_executed cl) (cancel_flush (cl_flush_executed cl) st))"
  using assms by (simp add: sq_close_def Let_def)

lemma disconnect_keeps [simp]:
  "sq_flushing (disconnect st) = sq_flushing st" "sq_pending (disconnect st) = sq_pending st"
  "sq_degraded (disconnect st) = sq_degraded st" "sq_saved (disconnect st) = sq_saved st"
  "set (sq_rows (disconnect st)) \<subseteq> set (sq_rows st)"
  by (simp_all add: disconnect_def)

lemma degraded_step:
  assumes "sq_degraded st" "sq_flushing st = None"
  shows "sq_degraded (sq_step ord i st) \<and> sq_flushing (sq_step ord i st) = None
    \<and> sq_pending (sq_step ord i st) = sq_pending st"
  using assms
  by (cases i)
     (auto simp: sq_connect_def sq_store_def flush_tick_def flush_insert_def flush_commit_def degraded_close
       dest!: sq_cleanup_cases split: sum.split)

lemma degraded_step_saved:
  assumes "sq_degraded st" "sq_flushing st = None" "set (sq_rows st) \<union> set (sq_saved st) \<subseteq> R"
  shows "set (sq_rows (sq_step ord i st)) \<union> set (sq_saved (sq_step ord i st)) \<subseteq> R"
proof (cases i)
  case (SqClean out)
  then show ?thesis using assms(3) cleanup_step_subset [of ord out st] by (simp, blast)
next
  case (SqClose cl)
  then show ?thesis
    using assms cancel_subset [OF assms(2), of ord "cl_cleanup_executed cl" "cl_flush_executed cl"]
    by (auto simp: degraded_close disconnect_def)
qed (use assms in \<open>auto simp: sq_connect_def sq_store_def flush_tick_def flush_insert_def flush_commit_def
       dest!: sq_cleanup_cases split: sum.split\<close>)

lemma degraded_run:
  assumes "sq_degraded st" "sq_flushing st = None" "set (sq_rows st) \<union> set (sq_saved st) \<subseteq> R"
  shows "sq_degraded (sq_run ord ins st) \<and> sq_flushing (sq_run ord ins st) = None \<and>
    sq_pending (sq_run ord ins st) = sq_pending st \<and>
    set (sq_rows (sq_run ord ins st)) \<union> set (sq_saved (sq_run ord ins st)) \<subseteq> R"
proof (induction ins rule: rev_induct)
  case Nil
  show ?case using assms by (simp add: sq_run_def)
next
  case (snoc i ins)
  have "sq_run ord (ins @ [i]) st = sq_step ord i (sq_run ord ins st)" by (simp add: sq_run_def)
  then show ?case using snoc degraded_step degraded_step_saved by metis
qed

text \<open>
  One flush that takes longer than 50 ms switches the store off for good: whatever follows, reopening
  included, no row is ever added, and what waited at that moment waits for ever.
\<close>

theorem slow_flush_disables_store:
  fixes ins more :: "sq_input list" and ret :: duration
  assumes "list_all storable (stored_by ins)"
    and "sq_degraded (sq_run ord ins (sq_init m ret []))"
  shows "let st = sq_run ord ins (sq_init m ret []); st' = sq_run ord more st in
     sq_degraded st' \<and> sq_pending st' = sq_pending st \<and>
     set (sq_rows st') \<union> set (sq_saved st') \<subseteq> set (sq_rows st) \<union> set (sq_saved st)"
proof -
  have "sq_flushing (sq_run ord ins (sq_init m ret [])) = None"
    using sq_run_inv [OF assms(1), of ord m ret] assms(2) by (simp add: sq_inv_def)
  from degraded_run [OF assms(2) this order_refl] show ?thesis unfolding Let_def by blast
qed

text \<open>A snapshot is read back from the row written for it, its resource version excepted.\<close>

theorem stored_row_roundtrip:
  assumes "vwf (PDict (sn_spec s))" "ints_ok (PDict (sn_spec s))" "valid_instant (sn_captured_at s)"
  shows "decode_row (last (insert_row s rows)) =
     Some \<lparr>ld_kind = sn_kind s, ld_namespace = sn_namespace s, ld_name = sn_name s,
       ld_hash = sn_spec_hash s, ld_spec = PDict (sn_spec s), ld_captured_at = sn_captured_at s,
       ld_resource_version = []\<rparr>"
  using json_loads_spaced [OF assms(1,2)] fromisoformat_isoformat [OF assms(3)]
  by (simp add: insert_row_def decode_row_def del: json_spaced.simps)

text \<open>Two ways to lose snapshots for good: a flush that fails, and a close in the middle of a flush.\<close>

lemma failed_flush_loses_batch:
  assumes "sq_flushing st = Some (Writing batch)"
  shows "sq_rows (flush_insert InsertRollsBack st) = sq_saved st \<and>
    sq_pending (flush_insert InsertRollsBack st) = sq_pending st \<and>
    sq_flushing (flush_insert InsertRollsBack st) = None"
  using assms by (simp add: flush_insert_def)

text \<open>
  A close while the inserts of a flush are awaited commits nothing of it when nothing else waits, whether
  the inserts still run or not; a close while the commit is awaited saves the batch exactly when the
  commit still runs.
\<close>

lemma close_loses_flush_in_progress:
  assumes "sq_open st" "sq_pending st = []" "sq_cleaning st = None"
  shows "sq_flushing st = Some (Writing batch) \<Longrightarrow> sq_saved (sq_close ord cl st) = sq_saved st"
    and "sq_flushing st = Some (Committing batch) \<Longrightarrow>
      sq_saved (sq_close ord cl st) = (if cl_flush_executed cl then sq_rows st else sq_saved st)"
    and "sq_flushing (sq_close ord cl st) = None" "sq_pending (sq_close ord cl st) = []"
proof -
  show "sq_flushing st = Some (Writing batch) \<Longrightarrow> sq_saved (sq_close ord cl st) = sq_saved st"
    using assms by (auto simp: sq_close_def cancel_cleanup_def cleanup_step_def cancel_flush_def Let_def)
  show "sq_flushing st = Some (Committing batch) \<Longrightarrow>
      sq_saved (sq_close ord cl st) = (if cl_flush_executed cl then sq_rows st else sq_saved st)"
    using assms by (auto simp: sq_close_def cancel_cleanup_def cleanup_step_def cancel_flush_def Let_def)
  show "sq_flushing (sq_close ord cl st) = None" "sq_pending (sq_close ord cl st) = []"
    using assms by (simp_all add: sq_close_def Let_def)
qed

subsection \<open>Examples\<close>

definition demo_inputs :: "sq_input list" where
  "demo_inputs = [SqStore (demo_snapshot (days 19000) 1), SqTick, SqStore (demo_snapshot (days 19001) 2),
     SqInsert Inserted, SqCommit (Committed 3000)]"

lemma demo_valid [simp]: "valid_instant (days 18999)" "valid_instant (days 19000)" "valid_instant (days 19001)"
  by (simp_all add: valid_instant_def duration_defs)

lemma demo_storable:
  "storable (demo_snapshot (days 19000) 1)" "storable (demo_snapshot (days 19001) 2)"
  "encodable (demo_snapshot (days 19000) 1)" "encodable (demo_snapshot (days 19001) 2)"
  by (simp_all add: storable_def encodable_def demo_snapshot_def dwf_def show_nat.simps)

lemma demo_stored: "list_all storable (stored_by (SqOpen # demo_inputs))"
  by (simp add: demo_inputs_def demo_storable)

lemma demo_flags:
  "sq_open (sq_run (sort_key row_captured) (SqOpen # demo_inputs) (sq_init 5 (hours 6) []))"
  by (simp add: demo_inputs_def sq_run_def sq_init_def sq_connect_def sq_store_def flush_tick_def
      flush_take_def flush_insert_def flush_commit_def Let_def)

theorem persisted_ledger_query_witness:
  "\<exists>ls. sq_load (sort_key row_captured) (days 19002) ''Deployment'' ''default'' ''web'' (Some (days 3))
       (sq_run (sort_key row_captured) (SqOpen # demo_inputs) (sq_init 5 (hours 6) [])) = Inr ls \<and>
     sorted (map ld_captured_at ls)"
proof -
  have "days 19002 - days 3 = days 18999" by (simp add: duration_defs)
  then show ?thesis
    using persisted_ledger_query [OF row_order_sort_key demo_stored demo_flags, of "days 19002" "days 3"
        "''Deployment''" "''default''" "''web''"]
    by auto
qed

theorem persistence_keeps_everything_witness:
  "length (committed (sq_run (sort_key row_captured) (SqOpen # demo_inputs) (sq_init 5 (hours 6) []))) + 1 = 2"
proof -
  have "list_all healthy_input demo_inputs"
    by (simp add: demo_inputs_def demo_storable BACKPRESSURE_THRESHOLD_def)
  from arg_cong [OF conjunct1 [OF persistence_keeps_everything [OF this, of "sort_key row_captured" 5 "hours 6"]], of length]
  show ?thesis
    by (simp add: demo_inputs_def sq_run_def sq_init_def sq_connect_def sq_store_def flush_tick_def
        flush_take_def flush_insert_def flush_commit_def in_flight_def Let_def demo_storable)
qed

theorem slow_flush_disables_store_witness:
  "sq_degraded (sq_run (sort_key row_captured) [SqOpen]
     (sq_run (sort_key row_captured)
        [SqOpen, SqStore (demo_snapshot (days 19000) 1), SqTick, SqInsert Inserted, SqCommit (Committed 60000)]
        (sq_init 5 (hours 6) [])))"
proof -
  have s: "list_all storable (stored_by
      [SqOpen, SqStore (demo_snapshot (days 19000) 1), SqTick, SqInsert Inserted, SqCommit (Committed 60000)])"
    by (simp add: demo_storable)
  have "sq_degraded (sq_run (sort_key row_captured)
        [SqOpen, SqStore (demo_snapshot (days 19000) 1), SqTick, SqInsert Inserted, SqCommit (Committed 60000)]
        (sq_init 5 (hours 6) []))"
    by (simp add: sq_run_def sq_init_def sq_connect_def sq_store_def flush_tick_def
        flush_take_def flush_insert_def flush_commit_def Let_def demo_storable BACKPRESSURE_THRESHOLD_def)
  from slow_flush_disables_store [OF s this, of "[SqOpen]"] show ?thesis unfolding Let_def by blast
qed

theorem stored_row_roundtrip_witness:
  "decode_row (last (insert_row (demo_snapshot (days 19000) 1) [])) =
     Some (loaded_of (demo_snapshot (days 19000) 1))"
  unfolding loaded_of_def
  by (rule stored_row_roundtrip)
     (use demo_storable(1,3) in \<open>simp_all add: storable_def encodable_def\<close>)

end
