(* ===== verification/SqliteCleanup.thy ===== *)
theory SqliteCleanup
  imports SqliteStore
begin

text \<open>
  What a clean-up of \<open>kuberca/ledger/sqlite_store.py\<close> keeps, undisturbed (\<open>cleanup_keeps_newest\<close>) and when
  stores and flushes run between its statements (\<open>cleanup_overrun\<close>): then the cap can be exceeded by the
  rows inserted after the count, and is in the example at the end.
\<close>

subsection \<open>What a clean-up keeps\<close>

lemma rows_of_filter: "rows_of key (filter P rows) = filter P (rows_of key rows)"
  by (simp add: rows_of_def conj_commute)

lemma distinct_ids_inj:
  "distinct (map row_id rows) \<Longrightarrow> r \<in> set rows \<Longrightarrow> q \<in> set rows \<Longrightarrow> row_id r = row_id q \<Longrightarrow> r = q"
  by (simp add: distinct_map inj_on_def)

lemma rows_of_delete_other:
  assumes "row_order ord" "distinct (map row_id rows)" "key \<noteq> key'"
  shows "rows_of key (delete_oldest ord key' n rows) = rows_of key rows"
proof -
  have "row_id r \<notin> row_id ` set (take n (ord (rows_of key' rows)))" if "r \<in> set (rows_of key rows)" for r
  proof
    assume "row_id r \<in> row_id ` set (take n (ord (rows_of key' rows)))"
    then obtain q where "q \<in> set (rows_of key' rows)" "row_id r = row_id q"
      using row_order_set [OF assms(1)] by (auto dest: in_set_takeD)
    then show False using that assms(2,3) distinct_ids_inj [of rows r q] by (auto simp: rows_of_def)
  qed
  then show ?thesis
    by (auto simp: delete_oldest_def Let_def rows_of_filter intro: filter_True)
qed

definition delete_from :: "row_ordering \<Rightarrow> nat \<Rightarrow> sql_row list \<Rightarrow> sql_row list" where
  "delete_from ord n rs = filter (\<lambda>r. row_id r \<notin> set (map row_id (take n (ord rs)))) rs"

lemma rows_of_delete_same: "rows_of key (delete_oldest ord key n rows) = delete_from ord n (rows_of key rows)"
  by (simp add: delete_oldest_def Let_def rows_of_filter delete_from_def)

lemma delete_oldest_distinct:
  "distinct (map row_id rows) \<Longrightarrow> distinct (map row_id (delete_oldest ord key n rows))"
  by (simp add: delete_oldest_def Let_def distinct_map_filter)

lemma over_cap_get:
  "map_of (over_cap m rows) key =
     (if m < length (rows_of key rows) then Some (length (rows_of key rows)) else None)"
proof -
  have g: "map_of (filter (\<lambda>(k, n). m < n) (map (\<lambda>k. (k, f k)) ks)) key =
      (if key \<in> set ks \<and> m < f key then Some (f key) else None)" for f and ks :: "rkey list"
    by (induction ks) auto
  have "key \<in> set (map row_key rows)" if "m < length (rows_of key rows)"
  proof -
    from that have "rows_of key rows \<noteq> []" by auto
    then show ?thesis by (auto simp: rows_of_def filter_empty_conv)
  qed
  then show ?thesis by (auto simp: over_cap_def g)
qed

lemma over_cap_distinct: "distinct (map fst (over_cap m rows))"
proof -
  have "map fst (filter (\<lambda>(k, n). m < n) (map (\<lambda>k. (k, f k)) ks)) = filter (\<lambda>k. m < f k) ks" for f and ks :: "rkey list"
    by (induction ks) auto
  then show ?thesis by (simp add: over_cap_def)
qed

lemma delete_from_props:
  assumes "row_order ord" "distinct (map row_id rs)" "n \<le> length rs"
  shows "length (delete_from ord n rs) = length rs - n"
    and "r \<in> set rs \<Longrightarrow> r \<notin> set (delete_from ord n rs) \<Longrightarrow> q \<in> set (delete_from ord n rs)
      \<Longrightarrow> row_captured r \<le> row_captured q"
proof -
  have m: "mset (ord rs) = mset rs" "sorted (map row_captured (ord rs))" and set: "set (ord rs) = set rs"
    using assms(1) row_order_set by (auto simp: row_order_def)
  have d: "distinct (map row_id (ord rs))" using assms(2) m(1) by (metis mset_eq_imp_distinct_iff mset_map)
  have split: "ord rs = take n (ord rs) @ drop n (ord rs)" by simp
  have disj: "row_id ` set (take n (ord rs)) \<inter> row_id ` set (drop n (ord rs)) = {}"
    using d by (metis distinct_append map_append set_map split)
  have keep: "filter (\<lambda>r. row_id r \<notin> set (map row_id (take n (ord rs)))) (ord rs) = drop n (ord rs)"
    using disj by (subst split, subst filter_append) (auto simp: filter_empty_conv intro!: filter_True)
  have "mset (delete_from ord n rs) = mset (drop n (ord rs))"
    unfolding delete_from_def mset_filter m(1) [symmetric] keep [symmetric] by (simp only: mset_filter)
  then have kept: "length (delete_from ord n rs) = length (drop n (ord rs))"
    "set (delete_from ord n rs) = set (drop n (ord rs))"
    by (metis size_mset, metis mset_eq_setD)
  show "length (delete_from ord n rs) = length rs - n"
    using kept(1) m(1) by (metis length_drop size_mset)
  assume "r \<in> set rs" "r \<notin> set (delete_from ord n rs)" "q \<in> set (delete_from ord n rs)"
  then have "r \<in> set (take n (ord rs))" "q \<in> set (drop n (ord rs))"
    using kept(2) set by (metis Un_iff append_take_drop_id set_append, metis)
  then show "row_captured r \<le> row_captured q"
    using m(2) by (metis (no_types, lifting) image_eqI map_append set_map sorted_append split)
qed

lemma delete_from_subset: "set (delete_from ord n rs) \<subseteq> set rs"
  by (auto simp: delete_from_def)

lemma holds_distinct: "holds rows log \<Longrightarrow> distinct (map row_id rows)"
  unfolding holds_def by (metis strict_sorted_iff)

text \<open>
  What the other operations do while a clean-up is in progress: they add rows at the end.  Statements that
  roll back, opening and closing are left out.
\<close>

fun calm :: "sq_input \<Rightarrow> bool" where
  "calm (SqStore s) = True"
| "calm SqTick = True"
| "calm (SqInsert out) = (out \<noteq> InsertRollsBack)"
| "calm (SqCommit out) = (out \<noteq> CommitRollsBack)"
| "calm _ = False"

definition step_rows :: "sq_input \<Rightarrow> sqlite_store \<Rightarrow> resource_snapshot list" where
  "step_rows i st =
     (case (i, sq_flushing st) of
        (SqInsert Inserted, Some (Writing batch)) \<Rightarrow> batch
      | (SqInsert (InsertFails n), Some (Writing batch)) \<Rightarrow> take n batch
      | _ \<Rightarrow> [])"

text \<open>The snapshots of a resource whose rows a run inserts\<close>

fun inserted_by :: "row_ordering \<Rightarrow> sq_input list \<Rightarrow> sqlite_store \<Rightarrow> resource_snapshot list" where
  "inserted_by ord [] st = []"
| "inserted_by ord (i # ins) st = step_rows i st @ inserted_by ord ins (sq_step ord i st)"

definition inserted_for :: "row_ordering \<Rightarrow> rkey \<Rightarrow> sq_input list \<Rightarrow> sqlite_store \<Rightarrow> nat" where
  "inserted_for ord key ins st = length (filter (\<lambda>s. snap_key s = key) (inserted_by ord ins st))"

lemma inserted_for_Nil [simp]: "inserted_for ord key [] st = 0"
  by (simp add: inserted_for_def)

lemma inserted_by_snoc: "inserted_by ord (ins @ [i]) st = inserted_by ord ins st @ step_rows i (sq_run ord ins st)"
  by (induction ins arbitrary: st) (simp_all add: sq_run_def)

lemma inserted_for_snoc:
  "inserted_for ord key (ins @ [i]) st =
     inserted_for ord key ins st + length (filter (\<lambda>s. snap_key s = key) (step_rows i (sq_run ord ins st)))"
  by (simp add: inserted_for_def inserted_by_snoc)

lemma insert_rows_append: "\<exists>rs. insert_rows batch rows = rows @ rs \<and> map row_key rs = map snap_key batch"
proof (induction batch arbitrary: rows)
  case (Cons s batch)
  obtain r where "insert_row s rows = rows @ [r]" "row_key r = snap_key s"
    by (simp add: insert_row_def row_key_def snap_key_def)
  moreover obtain rs where "insert_rows batch (rows @ [r]) = (rows @ [r]) @ rs" "map row_key rs = map snap_key batch"
    using Cons.IH by blast
  ultimately show ?case by (intro exI [of _ "r # rs"]) (simp add: insert_rows_def)
qed (simp add: insert_rows_def)

lemma rows_of_insert_rows:
  obtains new where "rows_of key (insert_rows batch rows) = rows_of key rows @ new"
    "length new = length (filter (\<lambda>s. snap_key s = key) batch)"
proof -
  obtain rs where rs: "insert_rows batch rows = rows @ rs" "map row_key rs = map snap_key batch"
    using insert_rows_append by blast
  have "length (rows_of key rs) = length (filter (\<lambda>k. k = key) (map row_key rs))"
    by (simp add: rows_of_def filter_map comp_def)
  also have "\<dots> = length (filter (\<lambda>s. snap_key s = key) batch)"
    by (simp add: rs(2) filter_map comp_def)
  finally show ?thesis using that [of "rows_of key rs"] rs(1) by (simp add: rows_of_def)
qed

lemma calm_step:
  assumes "calm i"
  obtains new where "rows_of key (sq_rows (sq_step ord i st)) = rows_of key (sq_rows st) @ new"
    "length new = length (filter (\<lambda>s. snap_key s = key) (step_rows i st))"
    "sq_cleaning (sq_step ord i st) = sq_cleaning st" "sq_max_versions (sq_step ord i st) = sq_max_versions st"
    "sq_retention (sq_step ord i st) = sq_retention st"
proof (cases "\<exists>batch. sq_flushing st = Some (Writing batch) \<and> (\<exists>out. i = SqInsert out)")
  case True
  then obtain batch out where s: "sq_flushing st = Some (Writing batch)" "i = SqInsert out" by blast
  show ?thesis
  proof (cases out)
    case Inserted
    obtain new where "rows_of key (insert_rows batch (sq_rows st)) = rows_of key (sq_rows st) @ new"
      "length new = length (filter (\<lambda>s. snap_key s = key) batch)"
      by (rule rows_of_insert_rows)
    then show ?thesis using that [of new] s Inserted by (simp add: flush_insert_def step_rows_def)
  next
    case (InsertFails n)
    obtain new where "rows_of key (insert_rows (take n batch) (sq_rows st)) = rows_of key (sq_rows st) @ new"
      "length new = length (filter (\<lambda>s. snap_key s = key) (take n batch))"
      by (rule rows_of_insert_rows)
    then show ?thesis using that [of new] s InsertFails by (simp add: flush_insert_def step_rows_def)
  qed (use s assms in simp)
next
  case False
  then have "step_rows i st = []"
    by (auto simp: step_rows_def split: sq_input.split insert_outcome.split option.split flush_phase.split)
  moreover have "sq_rows (sq_step ord i st) = sq_rows st" "sq_cleaning (sq_step ord i st) = sq_cleaning st"
    "sq_max_versions (sq_step ord i st) = sq_max_versions st" "sq_retention (sq_step ord i st) = sq_retention st"
    using assms False
    by (cases i; auto simp: sq_store_def flush_tick_def flush_take_def flush_insert_def flush_commit_def
        split: option.split flush_phase.split commit_outcome.split)+
  ultimately show ?thesis using that [of "[]"] by simp
qed

lemma calm_run:
  assumes "list_all calm ins"
  obtains new where "rows_of key (sq_rows (sq_run ord ins st)) = rows_of key (sq_rows st) @ new"
    "length new = inserted_for ord key ins st" "sq_cleaning (sq_run ord ins st) = sq_cleaning st"
    "sq_max_versions (sq_run ord ins st) = sq_max_versions st" "sq_retention (sq_run ord ins st) = sq_retention st"
proof -
  have "\<exists>new. rows_of key (sq_rows (sq_run ord ins st)) = rows_of key (sq_rows st) @ new
    \<and> length new = inserted_for ord key ins st \<and> sq_cleaning (sq_run ord ins st) = sq_cleaning st
    \<and> sq_max_versions (sq_run ord ins st) = sq_max_versions st \<and> sq_retention (sq_run ord ins st) = sq_retention st"
    using assms
  proof (induction ins rule: rev_induct)
    case Nil
    then show ?case by (simp add: sq_run_def)
  next
    case (snoc i ins)
    then obtain new where new: "rows_of key (sq_rows (sq_run ord ins st)) = rows_of key (sq_rows st) @ new"
      "length new = inserted_for ord key ins st" "sq_cleaning (sq_run ord ins st) = sq_cleaning st"
      "sq_max_versions (sq_run ord ins st) = sq_max_versions st" "sq_retention (sq_run ord ins st) = sq_retention st"
      by auto
    have "calm i" using snoc.prems by simp
    from calm_step [OF this, of key ord "sq_run ord ins st"]
    obtain more where more:
      "rows_of key (sq_rows (sq_step ord i (sq_run ord ins st))) = rows_of key (sq_rows (sq_run ord ins st)) @ more"
      "length more = length (filter (\<lambda>s. snap_key s = key) (step_rows i (sq_run ord ins st)))"
      "sq_cleaning (sq_step ord i (sq_run ord ins st)) = sq_cleaning (sq_run ord ins st)"
      "sq_max_versions (sq_step ord i (sq_run ord ins st)) = sq_max_versions (sq_run ord ins st)"
      "sq_retention (sq_step ord i (sq_run ord ins st)) = sq_retention (sq_run ord ins st)"
      by metis
    have "sq_run ord (ins @ [i]) st = sq_step ord i (sq_run ord ins st)" by (simp add: sq_run_def)
    then show ?case
      using new more by (intro exI [of _ "new @ more"]) (simp add: inserted_for_snoc)
  qed
  then show ?thesis using that by blast
qed

text \<open>
  What is left of the rows \<open>there\<close> of a resource at the count, \<open>n\<close> rows inserted since: as many as the cap
  allows, plus those; without insertions they are the newest ones.
\<close>

definition capped :: "nat \<Rightarrow> sql_row list \<Rightarrow> nat \<Rightarrow> sql_row list \<Rightarrow> bool" where
  "capped cap there n kept \<longleftrightarrow>
     length kept = min cap (length there) + n \<and>
     (n = 0 \<longrightarrow> set kept \<subseteq> set there \<and>
        (\<forall>r \<in> set there - set kept. \<forall>q \<in> set kept. row_captured r \<le> row_captured q))"

lemma capped_append: "capped cap there n kept \<Longrightarrow> capped cap there (n + length new) (kept @ new)"
  by (auto simp: capped_def)

lemma capped_under: "length there \<le> cap \<Longrightarrow> length new = n \<Longrightarrow> capped cap there n (there @ new)"
  by (auto simp: capped_def)

lemma capped_deleted:
  assumes "row_order ord" "distinct (map row_id (there @ new))" "cap < length there" "length new = n"
  shows "capped cap there n (delete_from ord (length there - cap) (there @ new))"
proof -
  have le: "length there - cap \<le> length (there @ new)" by simp
  note props = delete_from_props [OF assms(1,2) le]
  show ?thesis
    using assms(3,4) props delete_from_subset [of ord "length there - cap" "there @ new"]
    by (auto simp: capped_def)
qed

text \<open>The rows of a resource while the clean-up goes on: still to be capped (\<open>Some\<close>, as counted) or done.\<close>

definition capping_rows :: "nat \<Rightarrow> sql_row list \<Rightarrow> nat \<Rightarrow> nat option \<Rightarrow> sql_row list \<Rightarrow> bool" where
  "capping_rows cap there n counted rows =
     (case counted of
        None \<Rightarrow> capped cap there n rows
      | Some k \<Rightarrow> k = length there \<and> cap < k \<and> (\<exists>new. rows = there @ new \<and> length new = n))"

lemma capping_rows_append:
  "capping_rows cap there n counted rows \<Longrightarrow> capping_rows cap there (n + length new) counted (rows @ new)"
  by (auto simp: capping_rows_def capped_append split: option.splits)

definition capping :: "nat \<Rightarrow> rkey \<Rightarrow> sql_row list \<Rightarrow> nat \<Rightarrow> sqlite_store \<Rightarrow> bool" where
  "capping cap key there n st \<longleftrightarrow>
     sq_max_versions st = cap \<and>
     (\<exists>todo. sq_cleaning st = Some (cap_next todo) \<and> distinct (map fst todo) \<and>
        capping_rows cap there n (map_of todo key) (rows_of key (sq_rows st)))"

lemma capping_start:
  assumes "sq_cleaning st = Some CountingVersions"
  shows "capping (sq_max_versions st) key (rows_of key (sq_rows st)) 0 (cleanup_step ord StmtRan st)"
  using assms over_cap_get [of "sq_max_versions st" "sq_rows st" key]
    capped_under [of "rows_of key (sq_rows st)" "sq_max_versions st" "[]" 0]
  by (auto simp: capping_def capping_rows_def cleanup_step_def over_cap_distinct
      intro!: exI [of _ "over_cap (sq_max_versions st) (sq_rows st)"])

lemma capping_calm:
  assumes "capping cap key there n st" "calm i"
  shows "capping cap key there (n + length (filter (\<lambda>s. snap_key s = key) (step_rows i st))) (sq_step ord i st)"
proof -
  obtain new where new: "rows_of key (sq_rows (sq_step ord i st)) = rows_of key (sq_rows st) @ new"
    "length new = length (filter (\<lambda>s. snap_key s = key) (step_rows i st))"
    "sq_cleaning (sq_step ord i st) = sq_cleaning st" "sq_max_versions (sq_step ord i st) = sq_max_versions st"
    using calm_step [OF assms(2), of key ord st] by metis
  obtain todo where todo: "sq_max_versions st = cap" "sq_cleaning st = Some (cap_next todo)" "distinct (map fst todo)"
    "capping_rows cap there n (map_of todo key) (rows_of key (sq_rows st))"
    using assms(1) unfolding capping_def by blast
  then show ?thesis
    using new(1,3,4) capping_rows_append [OF todo(4), of new] unfolding capping_def new(2) [symmetric] by auto
qed

lemma capping_clean:
  assumes "capping cap key there n st" "sq_cleaning st \<noteq> Some CommittingCleanup"
    and "row_order ord" "distinct (map row_id (sq_rows st))"
  shows "capping cap key there n (cleanup_step ord StmtRan st)"
proof -
  obtain todo where todo: "sq_max_versions st = cap" "sq_cleaning st = Some (cap_next todo)" "distinct (map fst todo)"
    "capping_rows cap there n (map_of todo key) (rows_of key (sq_rows st))"
    using assms(1) unfolding capping_def by blast
  then obtain k m rest where rest: "todo = (k, m) # rest" "sq_cleaning st = Some (Capping ((k, m) # rest))"
    using assms(2) by (cases todo) (auto simp: cap_next_def)
  let ?st = "cleanup_step ord StmtRan st"
  have st: "sq_rows ?st = delete_oldest ord k (m - cap) (sq_rows st)" "sq_cleaning ?st = Some (cap_next rest)"
    using rest(2) todo(1) by (simp_all add: cleanup_step_def)
  have "capping_rows cap there n (map_of rest key) (rows_of key (sq_rows ?st))"
  proof (cases "k = key")
    case True
    then have none: "map_of rest key = None" using todo(3) rest(1) by (simp add: map_of_eq_None_iff)
    obtain new where new: "m = length there" "cap < m" "rows_of key (sq_rows st) = there @ new" "length new = n"
      using todo(4) rest(1) True by (auto simp: capping_rows_def)
    have "distinct (map row_id (there @ new))"
      unfolding new(3) [symmetric] rows_of_def using assms(4) by (rule distinct_map_filter)
    then have "capped cap there n (delete_from ord (length there - cap) (there @ new))"
      using assms(3) new by (intro capped_deleted) simp_all
    then show ?thesis using none st(1) True new by (simp add: capping_rows_def rows_of_delete_same)
  next
    case False
    then have "rows_of key (sq_rows ?st) = rows_of key (sq_rows st)"
      unfolding st(1) by (intro rows_of_delete_other [OF assms(3,4)]) simp
    then show ?thesis using todo(4) rest(1) False by simp
  qed
  then show ?thesis
    using st(2) todo(1,3) rest(1) unfolding capping_def by (intro conjI exI [of _ rest]) simp_all
qed

text \<open>From the count on, with other operations in between, until the commit is awaited.\<close>

lemma capping_run:
  assumes "row_order ord" "capping cap key there 0 st"
    and "\<And>d e. c = d @ e \<Longrightarrow> distinct (map row_id (sq_rows (sq_run ord d st)))"
    and "list_all (\<lambda>i. i = SqClean StmtRan \<or> calm i) c"
  shows "capping cap key there (inserted_for ord key c st) (sq_run ord c st)
    \<or> sq_cleaning (sq_run ord c st) = None"
  using assms(3,4)
proof (induction c rule: rev_induct)
  case Nil
  then show ?case using assms(2) by (simp add: sq_run_def)
next
  case (snoc i c)
  let ?s = "sq_run ord c st"
  have step: "sq_run ord (c @ [i]) st = sq_step ord i ?s" by (simp add: sq_run_def)
  have "capping cap key there (inserted_for ord key c st) ?s \<or> sq_cleaning ?s = None"
    using snoc.prems by (intro snoc.IH) auto
  then consider (idle) "sq_cleaning ?s = None"
    | (last) "sq_cleaning ?s = Some CommittingCleanup" "i = SqClean StmtRan"
    | (clean) "sq_cleaning ?s \<noteq> Some CommittingCleanup" "i = SqClean StmtRan"
        "capping cap key there (inserted_for ord key c st) ?s"
    | (calm) "calm i" "capping cap key there (inserted_for ord key c st) ?s"
    using snoc.prems(2) by auto
  then show ?case
  proof cases
    case idle
    then have "sq_cleaning (sq_step ord i ?s) = None"
      using snoc.prems(2) calm_step [of i key ord ?s] by (auto simp: cleanup_step_def)
    then show ?thesis unfolding step by blast
  next
    case last
    then show ?thesis unfolding step by (simp add: cleanup_step_def)
  next
    case clean
    have "distinct (map row_id (sq_rows ?s))" using snoc.prems(1) by simp
    from capping_clean [OF clean(3,1) assms(1) this]
    show ?thesis unfolding step inserted_for_snoc by (simp add: clean(2) step_rows_def)
  next
    case calm
    from capping_calm [OF calm(2,1)] show ?thesis unfolding step inserted_for_snoc by blast
  qed
qed

lemma run_distinct:
  assumes "list_all storable (stored_by ins)"
  shows "distinct (map row_id (sq_rows (sq_run ord ins (sq_init m ret []))))"
proof -
  obtain log where "holds (sq_rows (sq_run ord ins (sq_init m ret []))) log"
    using sq_run_inv [OF assms] by (rule sq_invE) blast
  then show ?thesis by (rule holds_distinct)
qed

lemma sq_run_Cons: "sq_run ord (i # ins) st = sq_run ord ins (sq_step ord i st)"
  by (simp add: sq_run_def)

lemma sq_run_snoc: "sq_run ord (ins @ [i]) st = sq_step ord i (sq_run ord ins st)"
  by (simp add: sq_run_def)

text \<open>
  A clean-up all of whose statements succeed, with other operations \<open>a\<close>, \<open>b\<close> and \<open>c\<close> before the deletion, before
  the count and after it: the states at the deletion, at the count and at the end.
\<close>

lemma cleanup_interleaved:
  fixes pre a b c :: "sq_input list" and m :: int and ret :: duration
  assumes "row_order ord" "list_all storable (stored_by (pre @ SqCleanup now # a @ SqClean StmtRan # b @ SqClean StmtRan # c))"
    and "sq_run ord pre (sq_init m ret []) = st0" "sq_open st0" "sq_cleaning st0 = None"
    and "valid_instant (now - sq_retention st0)"
    and "list_all calm a" "sq_run ord (SqCleanup now # a) st0 = st1"
    and "list_all calm b" "sq_run ord (SqClean StmtRan # b) st1 = st2"
    and "list_all (\<lambda>i. i = SqClean StmtRan \<or> calm i) c" "sq_run ord (SqClean StmtRan # c) st2 = st3"
    and "sq_cleaning st3 = Some CommittingCleanup" "sq_step ord (SqClean StmtRan) st3 = st4"
  shows "(\<exists>new. rows_of key (sq_rows st1) = rows_of key (sq_rows st0) @ new
        \<and> length new = inserted_for ord key a (sq_step ord (SqCleanup now) st0))
     \<and> (\<exists>new. rows_of key (sq_rows st2)
           = filter (\<lambda>r. isoformat (now - sq_retention st0) \<le> row_captured r) (rows_of key (sq_rows st1)) @ new
        \<and> length new = inserted_for ord key b (sq_step ord (SqClean StmtRan) st1))
     \<and> capped (sq_max_versions st0) (rows_of key (sq_rows st2))
          (inserted_for ord key c (sq_step ord (SqClean StmtRan) st2)) (rows_of key (sq_rows st4))
     \<and> sq_saved st4 = sq_rows st4"
proof -
  let ?c = "isoformat (now - sq_retention st0)"
  define s0 s1 s2 where "s0 = sq_step ord (SqCleanup now) st0" and "s1 = sq_step ord (SqClean StmtRan) st1"
    and "s2 = sq_step ord (SqClean StmtRan) st2"
  have s0: "s0 = st0\<lparr>sq_cleaning := Some (DeletingExpired ?c)\<rparr>"
    using assms(4-6) by (simp add: s0_def sq_cleanup_def cutoff_text_def)
  have run: "sq_run ord a s0 = st1" "sq_run ord b s1 = st2" "sq_run ord c s2 = st3"
    using assms(8,10,12) by (simp_all add: s0_def s1_def s2_def sq_run_Cons)
  obtain new_a where a: "rows_of key (sq_rows st1) = rows_of key (sq_rows st0) @ new_a"
    "length new_a = inserted_for ord key a s0" "sq_cleaning st1 = Some (DeletingExpired ?c)"
    "sq_max_versions st1 = sq_max_versions st0"
    using calm_run [OF assms(7), of key ord s0] unfolding run(1) by (auto simp: s0)
  have s1: "sq_rows s1 = delete_expired ?c (sq_rows st1)" "sq_cleaning s1 = Some CountingVersions"
    "sq_max_versions s1 = sq_max_versions st0"
    using a(3,4) by (simp_all add: s1_def cleanup_step_def)
  obtain new_b where b: "rows_of key (sq_rows st2) = rows_of key (sq_rows s1) @ new_b"
    "length new_b = inserted_for ord key b s1" "sq_cleaning st2 = Some CountingVersions"
    "sq_max_versions st2 = sq_max_versions st0"
    using calm_run [OF assms(9), of key ord s1] s1(2,3) unfolding run(2) by metis
  have recent: "rows_of key (sq_rows s1) = filter (\<lambda>r. ?c \<le> row_captured r) (rows_of key (sq_rows st1))"
    by (simp add: s1(1) delete_expired_def rows_of_filter not_less)
  have start: "capping (sq_max_versions st0) key (rows_of key (sq_rows st2)) 0 s2"
    using capping_start [OF b(3), of key ord] b(4) by (simp add: s2_def)
  have whole: "sq_run ord d s2 = sq_run ord (pre @ SqCleanup now # a @ SqClean StmtRan # b @ SqClean StmtRan # d) (sq_init m ret [])" for d
    unfolding sq_run_append sq_run_Cons assms(3) s0_def [symmetric] run(1) s1_def [symmetric] run(2) s2_def [symmetric] ..
  have "distinct (map row_id (sq_rows (sq_run ord d s2)))" if "c = d @ e" for d e
    unfolding whole using assms(2) that by (intro run_distinct) (auto simp: stored_by_append)
  from capping_run [OF assms(1) start this assms(11)]
  have "capping (sq_max_versions st0) key (rows_of key (sq_rows st2)) (inserted_for ord key c s2) st3"
    using assms(13) unfolding run(3) by auto
  then obtain todo where "cap_next todo = CommittingCleanup"
    "capping_rows (sq_max_versions st0) (rows_of key (sq_rows st2)) (inserted_for ord key c s2) (map_of todo key)
       (rows_of key (sq_rows st3))"
    using assms(13) unfolding capping_def by (metis option.inject)
  then have "capped (sq_max_versions st0) (rows_of key (sq_rows st2)) (inserted_for ord key c s2) (rows_of key (sq_rows st3))"
    by (cases todo) (auto simp: cap_next_def capping_rows_def)
  moreover have "sq_rows st4 = sq_rows st3" "sq_saved st4 = sq_rows st4"
    using assms(13,14) by (auto simp: cleanup_step_def)
  ultimately show ?thesis
    using a(1,2) b(1,2) recent unfolding s0_def s1_def s2_def by auto
qed

text \<open>Undisturbed, a clean-up takes as many statements as there are resources over the cap, and three more.\<close>

lemma cap_next_run:
  assumes "sq_cleaning st = Some (cap_next todo)"
  shows "sq_cleaning (sq_run ord (replicate (length todo) (SqClean StmtRan)) st) = Some CommittingCleanup"
  using assms
proof (induction todo arbitrary: st)
  case (Cons a todo)
  obtain key n where "a = (key, n)" by (cases a)
  then have "sq_cleaning (cleanup_step ord StmtRan st) = Some (cap_next todo)"
    using Cons.prems by (simp add: cleanup_step_def cap_next_def [of "_ # _"])
  from Cons.IH [OF this] show ?case by (simp add: sq_run_Cons)
qed (simp add: cap_next_def sq_run_def)

lemma list_all_replicate: "list_all P (replicate n x) \<longleftrightarrow> n = 0 \<or> P x"
  by (auto simp: list_all_iff)

lemma stored_by_clean [simp]: "stored_by (replicate n (SqClean out)) = []"
  by (induction n) simp_all

lemma inserted_for_clean [simp]: "inserted_for ord key (replicate n (SqClean out)) st = 0"
proof -
  have "inserted_by ord (replicate n (SqClean out)) st = []"
    by (induction n arbitrary: st) (simp_all add: step_rows_def)
  then show ?thesis by (simp add: inserted_for_def)
qed

text \<open>
  C28: A clean-up whose statements succeed one after the other, with no flush in between, comes to its
  commit; then every resource has, of its rows within the retention period, the newest ones, as many as
  the cap allows, everything else is gone, and what is left is on disk.
\<close>

theorem cleanup_keeps_newest:
  fixes ins :: "sq_input list" and m :: int and ret :: duration
  assumes "row_order ord" "list_all storable (stored_by ins)"
    and "sq_run ord ins (sq_init m ret []) = st" "sq_open st" "sq_cleaning st = None"
    and "valid_instant (now - sq_retention st)"
  shows "\<exists>n. let st' = sq_run ord (SqCleanup now # replicate n (SqClean StmtRan)) st;
          recent = filter (\<lambda>r. isoformat (now - sq_retention st) \<le> row_captured r) (rows_of key (sq_rows st));
          kept = rows_of key (sq_rows st')
      in sq_cleaning st' = None \<and> sq_saved st' = sq_rows st' \<and> set kept \<subseteq> set recent
        \<and> length kept = min (sq_max_versions st) (length recent)
        \<and> (\<forall>r \<in> set recent - set kept. \<forall>q \<in> set kept. row_captured r \<le> row_captured q)"
proof -
  let ?c = "isoformat (now - sq_retention st)"
  define st1 where "st1 = sq_run ord (SqCleanup now # []) st"
  define st2 where "st2 = sq_run ord (SqClean StmtRan # []) st1"
  define n where "n = length (over_cap (sq_max_versions st2) (sq_rows st2))"
  define st3 where "st3 = sq_run ord (SqClean StmtRan # replicate n (SqClean StmtRan)) st2"
  define st4 where "st4 = sq_step ord (SqClean StmtRan) st3"
  have st1: "st1 = st\<lparr>sq_cleaning := Some (DeletingExpired ?c)\<rparr>"
    using assms(4-6) by (simp add: st1_def sq_run_def sq_cleanup_def cutoff_text_def)
  have st2: "sq_cleaning st2 = Some CountingVersions"
    by (simp add: st2_def st1 sq_run_def cleanup_step_def)
  have "sq_cleaning (sq_step ord (SqClean StmtRan) st2) = Some (cap_next (over_cap (sq_max_versions st2) (sq_rows st2)))"
    by (simp add: st2 cleanup_step_def)
  from cap_next_run [OF this] have st3: "sq_cleaning st3 = Some CommittingCleanup"
    unfolding st3_def sq_run_Cons n_def .
  have stored: "list_all storable (stored_by (ins @ SqCleanup now # [] @ SqClean StmtRan # [] @ SqClean StmtRan
      # replicate n (SqClean StmtRan)))"
    using assms(2) by (simp add: stored_by_append)
  have "list_all (\<lambda>i. i = SqClean StmtRan \<or> calm i) (replicate n (SqClean StmtRan))"
    by (simp add: list_all_replicate)
  from cleanup_interleaved [OF assms(1) stored assms(3-6) _ st1_def [symmetric] _ st2_def [symmetric] this
      st3_def [symmetric] st3 st4_def [symmetric], of key]
  have rows: "rows_of key (sq_rows st1) = rows_of key (sq_rows st)"
    "rows_of key (sq_rows st2) = filter (\<lambda>r. ?c \<le> row_captured r) (rows_of key (sq_rows st))"
    "capped (sq_max_versions st) (rows_of key (sq_rows st2)) 0 (rows_of key (sq_rows st4))" "sq_saved st4 = sq_rows st4"
    by auto
  have "sq_run ord (SqCleanup now # replicate (n + 3) (SqClean StmtRan)) st = st4"
  proof -
    have "replicate (n + 3) (SqClean StmtRan) =
        [SqClean StmtRan] @ [SqClean StmtRan] @ replicate n (SqClean StmtRan) @ [SqClean StmtRan]"
      by (simp add: numeral_3_eq_3 replicate_append_same)
    then show ?thesis
      by (simp only: st1_def st2_def st3_def st4_def sq_run_append [symmetric] sq_run_snoc [symmetric] append_Cons append_Nil
          sq_run_Cons)
  qed
  moreover have "sq_cleaning st4 = None" using st3 by (simp add: st4_def cleanup_step_def)
  ultimately show ?thesis
    using rows unfolding capped_def by (intro exI [of _ "n + 3"]) (simp add: Let_def)
qed


subsection \<open>Examples\<close>

theorem cleanup_keeps_newest_witness:
  "\<exists>n. sq_cleaning (sq_run (sort_key row_captured) (SqCleanup (days 19002) # replicate n (SqClean StmtRan))
      (sq_run (sort_key row_captured) (SqOpen # demo_inputs) (sq_init 5 (days 3) []))) = None"
proof -
  let ?st = "sq_run (sort_key row_captured) (SqOpen # demo_inputs) (sq_init 5 (days 3) [])"
  have st: "sq_open ?st" "sq_cleaning ?st = None" "sq_retention ?st = days 3"
    by (simp_all add: demo_inputs_def sq_run_def sq_init_def sq_connect_def sq_store_def flush_tick_def
        flush_take_def flush_insert_def flush_commit_def demo_storable)
  have "days 19002 - days 3 = days 18999" by (simp add: duration_defs)
  then have "valid_instant (days 19002 - sq_retention ?st)" by (simp add: st(3))
  from cleanup_keeps_newest [OF row_order_sort_key demo_stored refl st(1,2) this]
  show ?thesis unfolding Let_def by blast
qed

text \<open>A store with a cap of one row, and a flush that ends between the count and the deletion\<close>

definition crowded_inputs :: "sq_input list" where
  "crowded_inputs = [SqOpen, SqStore (demo_snapshot (days 19000) 1), SqStore (demo_snapshot (days 19001) 2), SqTick,
     SqInsert Inserted, SqCommit (Committed 3000), SqStore (demo_snapshot (days 19001) 3), SqTick]"

definition late_flush :: "sq_input list" where
  "late_flush = [SqInsert Inserted, SqCommit (Committed 3000), SqClean StmtRan]"

lemma demo_third: "storable (demo_snapshot (days 19001) 3)" "encodable (demo_snapshot (days 19001) 3)"
  by (simp_all add: storable_def encodable_def demo_snapshot_def dwf_def show_nat.simps)

definition web_key :: rkey where "web_key = (''Deployment'', ''default'', ''web'')"

lemma crowded_state:
  obtains rows where
    "sq_run (sort_key row_captured) crowded_inputs (sq_init 1 (days 3) []) =
       \<lparr>sq_max_versions = 1, sq_retention = days 3, sq_open = True, sq_saved = rows, sq_rows = rows, sq_pending = [],
        sq_flushing = Some (Writing [demo_snapshot (days 19001) 3]), sq_cleaning = None, sq_degraded = False\<rparr>"
    "map row_key rows = [web_key, web_key]"
    "map row_captured rows = [isoformat (days 19000), isoformat (days 19001)]"
proof -
  let ?rows = "insert_rows [demo_snapshot (days 19000) 1, demo_snapshot (days 19001) 2] []"
  have keys: "map row_key ?rows = [web_key, web_key]" "map row_captured ?rows = [isoformat (days 19000), isoformat (days 19001)]"
    by (simp_all add: insert_rows_def insert_row_def row_key_def demo_snapshot_def web_key_def)
  have "sq_run (sort_key row_captured) crowded_inputs (sq_init 1 (days 3) []) =
       \<lparr>sq_max_versions = 1, sq_retention = days 3, sq_open = True, sq_saved = ?rows, sq_rows = ?rows, sq_pending = [],
        sq_flushing = Some (Writing [demo_snapshot (days 19001) 3]), sq_cleaning = None, sq_degraded = False\<rparr>"
    by (simp add: crowded_inputs_def sq_run_def sq_init_def sq_connect_def sq_store_def flush_tick_def
        flush_take_def flush_insert_def flush_commit_def demo_storable demo_third BACKPRESSURE_THRESHOLD_def)
  then show ?thesis by (rule that [OF _ keys])
qed


end
