(* ===== verification/Config.thy ===== *)
theory Config
  imports ChangeLedger Notify Scout
begin

text \<open>
  \<open>kuberca/config.py\<close> and \<open>models/config.py\<close>: the settings read from the \<open>KUBERCA_*\<close> environment
  variables.  The environment is a dictionary; \<open>float(s)\<close> is the parameter \<open>fl\<close> (the conversion of
  decimals to binary64 is not modelled), and every other reader is.
\<close>

record ollama_settings =
  os_enabled :: bool
  os_endpoint :: str
  os_model :: str
  os_timeout_seconds :: int
  os_max_retries :: int
  os_temperature :: dbl
  os_max_tokens :: int
  os_health_check_interval :: int

record rule_engine_settings =
  re_time_window :: str
  re_tier2_enabled :: bool

record change_ledger_settings =
  cl_max_versions :: int
  cl_retention :: str
  cl_persistence_enabled :: bool

record kuberca_config =
  kc_cluster_id :: str
  kc_ollama :: ollama_settings
  kc_rule_engine :: rule_engine_settings
  kc_change_ledger :: change_ledger_settings
  kc_anomaly_cooldown :: str
  kc_notifications :: notification_config
  kc_api_port :: int
  kc_log_level :: str

type_synonym environ = "(str, str) dict"

subsection \<open>Reading integers\<close>

text \<open>
  \<open>int(s)\<close>: blanks around, a sign, digits with single underscores between them, and at most 4300
  digits; everything else is a \<open>ValueError\<close>.
\<close>

definition split_sign :: "str \<Rightarrow> bool \<times> str" where
  "split_sign s =
     (case s of
        [] \<Rightarrow> (False, [])
      | c # cs \<Rightarrow> if c = CHR ''-'' then (True, cs) else if c = CHR ''+'' then (False, cs) else (False, s))"

definition py_int :: "str \<Rightarrow> py_exn + int" where
  "py_int s =
     (case split_sign (strip s) of (neg, u) \<Rightarrow>
        let ps = split_on (CHR ''_'') u; ds = concat ps in
        if list_all (\<lambda>p. p \<noteq> [] \<and> list_all is_digit p) ps \<and> length ds \<le> 4300
        then Inr (if neg then - int (read_nat ds) else int (read_nat ds))
        else Inl ValueError)"

subsection \<open>Readers\<close>

definition env_str :: "environ \<Rightarrow> str \<Rightarrow> str \<Rightarrow> str" where
  "env_str env key dflt = dget_or dflt env (''KUBERCA_'' @ key)"

definition env_bool :: "environ \<Rightarrow> str \<Rightarrow> bool \<Rightarrow> bool" where
  "env_bool env key dflt =
     (lower (env_str env key (if dflt then ''true'' else ''false'')) \<in> {''true'', ''1'', ''yes''})"

definition clamp :: "int option \<Rightarrow> int option \<Rightarrow> int \<Rightarrow> int" where
  "clamp min_val max_val v =
     (let v1 = (case min_val of None \<Rightarrow> v | Some a \<Rightarrow> max v a) in
      case max_val of None \<Rightarrow> v1 | Some b \<Rightarrow> min v1 b)"

definition env_int :: "environ \<Rightarrow> str \<Rightarrow> int \<Rightarrow> int option \<Rightarrow> int option \<Rightarrow> py_exn + int" where
  "env_int env key dflt min_val max_val =
     (case py_int (env_str env key (show_int dflt)) of
        Inl e \<Rightarrow> Inl e | Inr v \<Rightarrow> Inr (clamp min_val max_val v))"

definition env_float :: "(str \<Rightarrow> py_exn + dbl) \<Rightarrow> environ \<Rightarrow> str \<Rightarrow> str \<Rightarrow> py_exn + dbl" where
  "env_float fl env key dflt = fl (env_str env key dflt)"

definition check_time_window :: "str \<Rightarrow> py_exn + str" where
  "check_time_window v = (case re_match duration_re v of None \<Rightarrow> Inl ValueError | Some _ \<Rightarrow> Inr v)"

definition LOG_LEVELS :: "str list" where
  "LOG_LEVELS = [''debug'', ''info'', ''warning'', ''error'']"

definition validate_log_level :: "str \<Rightarrow> py_exn + str" where
  "validate_log_level v = (if lower v \<in> set LOG_LEVELS then Inr (lower v) else Inl ValueError)"

subsection \<open>load_config\<close>

definition bind_err :: "'e + 'a \<Rightarrow> ('a \<Rightarrow> 'e + 'b) \<Rightarrow> 'e + 'b" where
  "bind_err r f = (case r of Inl e \<Rightarrow> Inl e | Inr v \<Rightarrow> f v)"

lemma bind_err_Inr_iff: "bind_err r f = Inr v \<longleftrightarrow> (\<exists>x. r = Inr x \<and> f x = Inr v)"
  by (simp add: bind_err_def split: sum.splits)

lemma bind_err_Inl_iff: "(\<exists>e. bind_err r f = Inl e) \<longleftrightarrow> (\<exists>e. r = Inl e) \<or> (\<exists>x e. r = Inr x \<and> f x = Inl e)"
  by (simp add: bind_err_def split: sum.splits)

definition load_ollama :: "(str \<Rightarrow> py_exn + dbl) \<Rightarrow> environ \<Rightarrow> py_exn + ollama_settings" where
  "load_ollama fl env =
     bind_err (env_int env ''OLLAMA_TIMEOUT'' 30 (Some 10) (Some 90)) (\<lambda>timeout.
     bind_err (env_int env ''OLLAMA_MAX_RETRIES'' 3 (Some 0) (Some 5)) (\<lambda>retries.
     bind_err (env_float fl env ''OLLAMA_TEMPERATURE'' ''0.1'') (\<lambda>temperature.
     bind_err (env_int env ''OLLAMA_MAX_TOKENS'' 2048 None None) (\<lambda>tokens.
     bind_err (env_int env ''OLLAMA_HEALTH_CHECK_INTERVAL'' 60 None None) (\<lambda>interval.
     Inr \<lparr>os_enabled = env_bool env ''OLLAMA_ENABLED'' False,
       os_endpoint = env_str env ''OLLAMA_ENDPOINT'' ''http://localhost:11434'',
       os_model = env_str env ''OLLAMA_MODEL'' ''qwen2.5:7b'', os_timeout_seconds = timeout,
       os_max_retries = retries, os_temperature = temperature, os_max_tokens = tokens,
       os_health_check_interval = interval\<rparr>)))))"

definition load_rule_engine :: "environ \<Rightarrow> py_exn + rule_engine_settings" where
  "load_rule_engine env =
     bind_err (check_time_window (env_str env ''RULE_ENGINE_TIME_WINDOW'' ''2h'')) (\<lambda>w.
     Inr \<lparr>re_time_window = w, re_tier2_enabled = env_bool env ''RULE_ENGINE_TIER2_ENABLED'' True\<rparr>)"

definition load_change_ledger :: "environ \<Rightarrow> py_exn + change_ledger_settings" where
  "load_change_ledger env =
     bind_err (env_int env ''CHANGE_LEDGER_MAX_VERSIONS'' 5 (Some 2) (Some 20)) (\<lambda>versions.
     bind_err (check_time_window (env_str env ''CHANGE_LEDGER_RETENTION'' ''6h'')) (\<lambda>retention.
     Inr \<lparr>cl_max_versions = versions, cl_retention = retention,
       cl_persistence_enabled = env_bool env ''LEDGER_PERSISTENCE_ENABLED'' False\<rparr>))"

definition load_notifications :: "environ \<Rightarrow> notification_config" where
  "load_notifications env =
     \<lparr>nc_slack_ref = env_str env ''NOTIFICATIONS_SLACK_SECRET_REF'' '''',
      nc_email_ref = env_str env ''NOTIFICATIONS_EMAIL_SECRET_REF'' '''',
      nc_email_to = env_str env ''NOTIFICATIONS_EMAIL_TO'' '''',
      nc_webhook_ref = env_str env ''NOTIFICATIONS_WEBHOOK_SECRET_REF'' ''''\<rparr>"

definition load_config :: "(str \<Rightarrow> py_exn + dbl) \<Rightarrow> environ \<Rightarrow> py_exn + kuberca_config" where
  "load_config fl env =
     bind_err (load_ollama fl env) (\<lambda>ollama.
     bind_err (load_rule_engine env) (\<lambda>rules.
     bind_err (load_change_ledger env) (\<lambda>ledger.
     bind_err (check_time_window (env_str env ''SCOUT_ANOMALY_COOLDOWN'' ''15m'')) (\<lambda>cooldown.
     bind_err (env_int env ''API_PORT'' 8080 (Some 1024) (Some 65535)) (\<lambda>port.
     bind_err (validate_log_level (env_str env ''LOG_LEVEL'' ''info'')) (\<lambda>level.
     Inr \<lparr>kc_cluster_id = env_str env ''CLUSTER_ID'' '''', kc_ollama = ollama, kc_rule_engine = rules,
       kc_change_ledger = ledger, kc_anomaly_cooldown = cooldown,
       kc_notifications = load_notifications env, kc_api_port = port, kc_log_level = level\<rparr>))))))"

text \<open>\<open>KubeRCAConfig()\<close>: the defaults of the dataclasses\<close>

definition default_config :: kuberca_config where
  "default_config =
     \<lparr>kc_cluster_id = '''',
      kc_ollama = \<lparr>os_enabled = False, os_endpoint = ''http://localhost:11434'', os_model = ''qwen2.5:7b'',
        os_timeout_seconds = 30, os_max_retries = 3, os_temperature = dlit 1 10, os_max_tokens = 2048,
        os_health_check_interval = 60\<rparr>,
      kc_rule_engine = \<lparr>re_time_window = ''2h'', re_tier2_enabled = True\<rparr>,
      kc_change_ledger = \<lparr>cl_max_versions = 5, cl_retention = ''6h'', cl_persistence_enabled = False\<rparr>,
      kc_anomaly_cooldown = ''15m'',
      kc_notifications = \<lparr>nc_slack_ref = '''', nc_email_ref = '''', nc_email_to = '''', nc_webhook_ref = ''''\<rparr>,
      kc_api_port = 8080, kc_log_level = ''info''\<rparr>"

subsection \<open>What a loaded configuration satisfies\<close>

definition window_ok :: "str \<Rightarrow> bool" where
  "window_ok s \<longleftrightarrow> (\<exists>ds u. ds \<noteq> [] \<and> (\<forall>c \<in> set ds. is_digit c) \<and> unit_char u
     \<and> (s = ds @ [u] \<or> s = ds @ [u, CHR 0x0A]))"

definition config_ok :: "kuberca_config \<Rightarrow> bool" where
  "config_ok c \<longleftrightarrow>
     10 \<le> os_timeout_seconds (kc_ollama c) \<and> os_timeout_seconds (kc_ollama c) \<le> 90 \<and>
     0 \<le> os_max_retries (kc_ollama c) \<and> os_max_retries (kc_ollama c) \<le> 5 \<and>
     2 \<le> cl_max_versions (kc_change_ledger c) \<and> cl_max_versions (kc_change_ledger c) \<le> 20 \<and>
     1024 \<le> kc_api_port c \<and> kc_api_port c \<le> 65535 \<and>
     kc_log_level c \<in> set LOG_LEVELS \<and>
     window_ok (re_time_window (kc_rule_engine c)) \<and> window_ok (cl_retention (kc_change_ledger c)) \<and>
     window_ok (kc_anomaly_cooldown c)"

lemma re_match_window: "re_match duration_re s \<noteq> None \<longleftrightarrow> duration_shape s \<noteq> None"
  using re_match_duration [of s] by (cases "re_match duration_re s"; cases "duration_shape s") simp_all

lemma window_ok_shape: "window_ok s \<longleftrightarrow> duration_shape s \<noteq> None"
  by (auto simp: window_ok_def duration_shape_Some split_paired_Ex simp flip: duration_shape_Some)

lemma check_time_window_Inr: "check_time_window s = Inr v \<longleftrightarrow> v = s \<and> window_ok s"
  using re_match_window [of s]
  by (auto simp: check_time_window_def window_ok_shape split: option.splits)

lemma clamp_range:
  "a \<le> b \<Longrightarrow> a \<le> clamp (Some a) (Some b) v \<and> clamp (Some a) (Some b) v \<le> b"
  by (simp add: clamp_def)

lemma env_int_range:
  "env_int env key d (Some a) (Some b) = Inr v \<Longrightarrow> a \<le> b \<Longrightarrow> a \<le> v \<and> v \<le> b"
  using clamp_range by (auto simp: env_int_def split: sum.splits)

lemma load_config_ok:
  assumes "load_config fl env = Inr c"
  shows "config_ok c"
proof -
  obtain oc r l where oc: "load_ollama fl env = Inr oc" "kc_ollama c = oc"
    and r: "load_rule_engine env = Inr r" "kc_rule_engine c = r"
    and l: "load_change_ledger env = Inr l" "kc_change_ledger c = l"
    and rest: "window_ok (kc_anomaly_cooldown c)"
      "env_int env ''API_PORT'' 8080 (Some 1024) (Some 65535) = Inr (kc_api_port c)"
      "validate_log_level (env_str env ''LOG_LEVEL'' ''info'') = Inr (kc_log_level c)"
    using assms by (auto simp: load_config_def bind_err_Inr_iff check_time_window_Inr)
  have "10 \<le> os_timeout_seconds oc \<and> os_timeout_seconds oc \<le> 90"
    "0 \<le> os_max_retries oc \<and> os_max_retries oc \<le> 5"
    using oc(1) by (auto simp: load_ollama_def bind_err_Inr_iff dest!: env_int_range)
  moreover have "2 \<le> cl_max_versions l \<and> cl_max_versions l \<le> 20" "window_ok (cl_retention l)"
    using l(1) by (auto simp: load_change_ledger_def bind_err_Inr_iff check_time_window_Inr dest!: env_int_range)
  moreover have "window_ok (re_time_window r)"
    using r(1) by (auto simp: load_rule_engine_def bind_err_Inr_iff check_time_window_Inr)
  moreover have "kc_log_level c \<in> set LOG_LEVELS"
    using rest(3) by (auto simp: validate_log_level_def split: if_splits)
  ultimately show ?thesis
    using rest env_int_range [OF rest(2)] oc(2) r(2) l(2) by (simp add: config_ok_def)
qed

text \<open>
  C17: Whatever the environment holds, a configuration that is loaded at all has every number within its
  documented range, a known log level in lower case, and duration strings of the accepted form.
\<close>

theorem loaded_config_in_range:
  assumes "load_config fl env = Inr c"
  shows "config_ok c"
  using assms by (rule load_config_ok)

subsection \<open>When loading fails\<close>

definition INT_SETTINGS :: "(str \<times> int) list" where
  "INT_SETTINGS = [(''OLLAMA_TIMEOUT'', 30), (''OLLAMA_MAX_RETRIES'', 3), (''OLLAMA_MAX_TOKENS'', 2048),
     (''OLLAMA_HEALTH_CHECK_INTERVAL'', 60), (''CHANGE_LEDGER_MAX_VERSIONS'', 5), (''API_PORT'', 8080)]"

definition WINDOW_SETTINGS :: "(str \<times> str) list" where
  "WINDOW_SETTINGS = [(''RULE_ENGINE_TIME_WINDOW'', ''2h''), (''CHANGE_LEDGER_RETENTION'', ''6h''),
     (''SCOUT_ANOMALY_COOLDOWN'', ''15m'')]"

abbreviation fails :: "'e + 'a \<Rightarrow> bool" where
  "fails r \<equiv> \<exists>e. r = Inl e"

lemma env_int_fails: "fails (env_int env key d a b) \<longleftrightarrow> fails (py_int (env_str env key (show_int d)))"
  by (simp add: env_int_def split: sum.splits)

lemma check_time_window_fails: "fails (check_time_window s) \<longleftrightarrow> \<not> window_ok s"
  using re_match_window [of s] by (auto simp: check_time_window_def window_ok_shape split: option.splits)

lemma validate_log_level_fails: "fails (validate_log_level s) \<longleftrightarrow> lower s \<notin> set LOG_LEVELS"
  by (simp add: validate_log_level_def)

lemma fails_bind: "fails (bind_err r f) \<longleftrightarrow> fails r \<or> (\<exists>x. r = Inr x \<and> fails (f x))"
  by (auto simp: bind_err_def split: sum.splits)

lemma fails_bind_const:
  assumes "\<And>x. fails (f x) \<longleftrightarrow> B"
  shows "fails (bind_err r f) \<longleftrightarrow> fails r \<or> B"
  using assms by (cases r) (auto simp: bind_err_def)

lemma load_ollama_fails:
  "fails (load_ollama fl env) \<longleftrightarrow>
     fails (env_int env ''OLLAMA_TIMEOUT'' 30 (Some 10) (Some 90)) \<or>
     fails (env_int env ''OLLAMA_MAX_RETRIES'' 3 (Some 0) (Some 5)) \<or>
     fails (env_float fl env ''OLLAMA_TEMPERATURE'' ''0.1'') \<or>
     fails (env_int env ''OLLAMA_MAX_TOKENS'' 2048 None None) \<or>
     fails (env_int env ''OLLAMA_HEALTH_CHECK_INTERVAL'' 60 None None)"
  unfolding load_ollama_def
  by (subst fails_bind_const, (rule refl | subst fails_bind_const)+) auto

lemma load_rule_engine_fails:
  "fails (load_rule_engine env) \<longleftrightarrow> \<not> window_ok (env_str env ''RULE_ENGINE_TIME_WINDOW'' ''2h'')"
  unfolding load_rule_engine_def by (subst fails_bind_const [of _ False]) (simp_all add: check_time_window_fails)

lemma load_change_ledger_fails:
  "fails (load_change_ledger env) \<longleftrightarrow>
     fails (env_int env ''CHANGE_LEDGER_MAX_VERSIONS'' 5 (Some 2) (Some 20)) \<or>
     \<not> window_ok (env_str env ''CHANGE_LEDGER_RETENTION'' ''6h'')"
  unfolding load_change_ledger_def
  by (subst fails_bind_const, (rule refl | subst fails_bind_const)+) (auto simp: check_time_window_fails)

lemma load_config_fails_iff:
  "fails (load_config fl env) \<longleftrightarrow>
     (\<exists>(key, d) \<in> set INT_SETTINGS. fails (py_int (env_str env key (show_int d)))) \<or>
     fails (fl (env_str env ''OLLAMA_TEMPERATURE'' ''0.1'')) \<or>
     (\<exists>(key, d) \<in> set WINDOW_SETTINGS. \<not> window_ok (env_str env key d)) \<or>
     lower (env_str env ''LOG_LEVEL'' ''info'') \<notin> set LOG_LEVELS"
proof -
  have "fails (load_config fl env) \<longleftrightarrow>
      fails (load_ollama fl env) \<or> fails (load_rule_engine env) \<or> fails (load_change_ledger env) \<or>
      fails (check_time_window (env_str env ''SCOUT_ANOMALY_COOLDOWN'' ''15m'')) \<or>
      fails (env_int env ''API_PORT'' 8080 (Some 1024) (Some 65535)) \<or>
      fails (validate_log_level (env_str env ''LOG_LEVEL'' ''info''))"
    unfolding load_config_def by (subst fails_bind_const, (rule refl | subst fails_bind_const)+) auto
  then show ?thesis
    unfolding load_ollama_fails load_rule_engine_fails load_change_ledger_fails check_time_window_fails
      validate_log_level_fails env_int_fails env_float_def INT_SETTINGS_def WINDOW_SETTINGS_def
    by (simp del: lower_def) blast
qed

lemma fails_iff: "(\<exists>v. r = Inr v) \<longleftrightarrow> \<not> fails r"
  by (cases r) simp_all

text \<open>
  Exactly which environments load: those whose numeric settings are integers, whose temperature is a
  number, whose duration strings have the accepted form, and whose log level is known in whatever case;
  no other setting is ever refused.
\<close>

theorem load_config_accepts_iff:
  "(\<exists>cfg. load_config fl env = Inr cfg) \<longleftrightarrow>
     list_all (\<lambda>(key, d). \<exists>n. py_int (env_str env key (show_int d)) = Inr n) INT_SETTINGS \<and>
     (\<exists>t. fl (env_str env ''OLLAMA_TEMPERATURE'' ''0.1'') = Inr t) \<and>
     list_all (\<lambda>(key, d). window_ok (env_str env key d)) WINDOW_SETTINGS \<and>
     lower (env_str env ''LOG_LEVEL'' ''info'') \<in> set LOG_LEVELS"
  unfolding fails_iff load_config_fails_iff list_all_iff by auto

subsection \<open>Integers\<close>

lemma digit_not_space: "is_digit c \<Longrightarrow> \<not> is_space c"
  by (auto simp: is_digit_def is_space_def Let_def)

lemma strip_solid:
  assumes "s \<noteq> []" "\<not> is_space (hd s)" "\<not> is_space (last s)"
  shows "strip s = s"
proof -
  have "dropWhile is_space s = s" using assms by (cases s) auto
  moreover have "dropWhile is_space (rev s) = rev s" using assms by (cases s rule: rev_cases) auto
  ultimately show ?thesis by (simp add: strip_def)
qed

lemma show_nat_solid: "\<not> is_space (hd (show_nat n))" "\<not> is_space (last (show_nat n))"
  using show_nat_digits [of n] digit_not_space by auto

lemma show_nat_no_sep: "CHR ''_'' \<notin> set (show_nat n)"
proof
  assume "CHR ''_'' \<in> set (show_nat n)"
  then have "is_digit (CHR ''_'')" using show_nat_digits by blast
  then show False by (simp add: is_digit_def)
qed

lemma read_digits_of:
  assumes "length (show_nat n) \<le> 4300"
  shows "(let ps = split_on (CHR ''_'') (show_nat n); ds = concat ps in
     if list_all (\<lambda>p. p \<noteq> [] \<and> list_all is_digit p) ps \<and> length ds \<le> 4300
     then Inr (if neg then - int (read_nat ds) else int (read_nat ds)) else Inl ValueError) =
     Inr (if neg then - int n else int n)"
  using assms show_nat_digits [of n]
  by (simp add: split_on_no_sep [OF show_nat_no_sep] read_show_nat list_all_iff)

text \<open>\<open>int(str(n)) = n\<close>\<close>

lemma py_int_show_int:
  assumes "length (show_nat (nat \<bar>n\<bar>)) \<le> 4300"
  shows "py_int (show_int n) = Inr n"
proof (cases "n < 0")
  case True
  let ?d = "show_nat (nat (- n))"
  have "\<not> is_space (CHR ''-'')" by (simp add: is_space_def)
  then have "strip (CHR ''-'' # ?d) = CHR ''-'' # ?d"
    by (intro strip_solid) (simp_all add: show_nat_solid)
  then show ?thesis
    using True read_digits_of [of "nat (- n)" True] assms
    by (simp add: py_int_def show_int_def split_sign_def)
next
  case False
  let ?d = "show_nat (nat n)"
  have strip: "strip ?d = ?d" by (rule strip_solid) (simp_all add: show_nat_solid)
  obtain c cs where c: "?d = c # cs" using show_nat_nonempty by (cases ?d) auto
  have "is_digit c" using show_nat_digits [of "nat n"] by (simp add: c)
  then have "c \<noteq> CHR ''-''" "c \<noteq> CHR ''+''" by (auto simp: is_digit_def)
  then have "split_sign ?d = (False, ?d)" by (simp add: split_sign_def c)
  then show ?thesis
    using False strip read_digits_of [of "nat n" False] assms by (simp add: py_int_def show_int_def)
qed

lemma env_str_empty [simp]: "env_str [] key d = d"
  by (simp add: env_str_def dget_or_def)

text \<open>Without any variable set, the configuration is the one the dataclasses declare.\<close>

theorem empty_environment_gives_defaults:
  assumes "fl ''0.1'' = Inr (dlit 1 10)"
  shows "load_config fl [] = Inr default_config"
proof -
  have int: "env_int [] key d a b = Inr (clamp a b d)" if "0 \<le> d" "d < 10000" for key d a b
  proof -
    have "length (show_nat (nat \<bar>d\<bar>)) \<le> 4300"
    proof -
      have "nat d < 10000" using that by simp
      then have "length (show_nat (nat d)) \<le> 4"
        by (subst show_nat.simps, subst show_nat.simps, subst show_nat.simps, subst show_nat.simps) auto
      then show ?thesis using that by simp
    qed
    then show ?thesis using py_int_show_int [of d] by (simp add: env_int_def)
  qed
  have win: "check_time_window ''2h'' = Inr ''2h''" "check_time_window ''6h'' = Inr ''6h''"
    "check_time_window ''15m'' = Inr ''15m''"
    by (simp_all add: check_time_window_Inr window_ok_shape duration_shape_def is_digit_def unit_char_def)
  have "lower ''true'' = ''true''" "lower ''false'' = ''false''" "lower ''info'' = ''info''" by code_simp+
  then show ?thesis
    using assms win
    by (simp add: load_config_def load_ollama_def load_rule_engine_def load_change_ledger_def
        load_notifications_def bind_err_def int clamp_def env_float_def env_bool_def validate_log_level_def
        LOG_LEVELS_def default_config_def)
qed

text \<open>
  What the validation lets through and a component then refuses: the pattern accepts a trailing newline,
  which the retention of the ledger does not, and any number of digits.
\<close>

theorem accepted_retention_refused:
  assumes "ds \<noteq> []" "\<forall>c \<in> set ds. is_digit c" "unit_char u"
  shows "check_time_window (ds @ [u, CHR 0x0A]) = Inr (ds @ [u, CHR 0x0A]) \<and>
     app_retention_hours (ds @ [u, CHR 0x0A]) = Inl ValueError"
proof -
  have nl: "\<not> unit_char (CHR 0x0A)" "\<not> is_digit (CHR 0x0A)" by (simp_all add: unit_char_def is_digit_def)
  have "window_ok (ds @ [u, CHR 0x0A])" using assms by (auto simp: window_ok_def)
  then show ?thesis
    using nl by (simp add: check_time_window_Inr app_retention_hours_def rstrip_units_def)
qed

subsection \<open>Examples\<close>

definition demo_float :: "str \<Rightarrow> py_exn + dbl" where
  "demo_float s = (if s = ''0.1'' then Inr (dlit 1 10) else Inl ValueError)"

theorem empty_environment_gives_defaults_witness: "load_config demo_float [] = Inr default_config"
  by (rule empty_environment_gives_defaults) (simp add: demo_float_def)

theorem loaded_config_in_range_witness: "config_ok default_config"
  by (rule loaded_config_in_range [OF empty_environment_gives_defaults_witness])

theorem accepted_retention_refused_witness:
  "check_time_window (''6h'' @ [CHR 0x0A]) = Inr (''6h'' @ [CHR 0x0A])"
  using accepted_retention_refused [of "''6''" "CHR ''h''"] by (simp add: is_digit_def unit_char_def)

end
