(* ===== verification/Lifecycle.thy ===== *)
theory Lifecycle
  imports Config
begin

text \<open>
  \<open>kuberca/app.py\<close>, the lifecycle: \<open>start\<close> brings the components up in dependency order, a mandatory one
  that fails ends it, an optional one is left out; \<open>stop\<close> takes them down in the reverse order; \<open>main\<close>
  ties both to the exit code and the signals.  What the components need from outside (the Kubernetes
  client, the API, the network, imports) is an input: the error that starting a component raises, if any.
\<close>

datatype component =
    K8sClientC | CacheC | GraphC | LedgerC | CollectorC | RuleEngineC | LlmC | CoordinatorC | QueueC
  | ScoutC | NotificationsC | McpC | RestC | RateUpdaterC

definition START_ORDER :: "component list" where
  "START_ORDER = [K8sClientC, CacheC, GraphC, LedgerC, CollectorC, RuleEngineC, LlmC, CoordinatorC, QueueC,
     ScoutC, NotificationsC, McpC, RestC, RateUpdaterC]"

definition optional_component :: "component \<Rightarrow> bool" where
  "optional_component c \<longleftrightarrow> c = GraphC \<or> c = LlmC \<or> c = NotificationsC \<or> c = McpC"

fun task_of :: "component \<Rightarrow> str list" where
  "task_of QueueC = [''analysis-queue'']"
| "task_of McpC = [''mcp-server'']"
| "task_of RestC = [''rest-server'']"
| "task_of RateUpdaterC = [''rate-gauge-updater'']"
| "task_of _ = []"

text \<open>The tasks of the watchers, which belong to the watchers and not to the application\<close>

fun watchers_of :: "component \<Rightarrow> str list" where
  "watchers_of CollectorC = [''event'', ''pod'', ''node'']"
| "watchers_of _ = []"

record app =
  ap_config :: "kuberca_config option"
  ap_logging :: bool
  ap_handles :: "component list"
  ap_tasks :: "str list"
  ap_watchers :: "str list"
  ap_running :: bool

definition app_init :: app where
  "app_init = \<lparr>ap_config = None, ap_logging = False, ap_handles = [], ap_tasks = [], ap_watchers = [],
     ap_running = False\<rparr>"

record boot_env =
  be_environ :: environ
  be_float :: "str \<Rightarrow> py_exn + dbl"
  be_failure :: "component \<Rightarrow> str option"

datatype boot_error = ConfigError py_exn | ComponentError component str

subsection \<open>Starting\<close>

text \<open>\<open>timedelta(hours=n)\<close> in the constructor of the ledger overflows beyond 999999999 days.\<close>

definition start_ledger :: "change_ledger_settings \<Rightarrow> py_exn + ledger" where
  "start_ledger s =
     (case app_retention_hours (cl_retention s) of
        Inl e \<Rightarrow> Inl e
      | Inr h \<Rightarrow>
          if days 1000000000 \<le> hours h then Inl OverflowError else Inr (ledger_init (cl_max_versions s) h))"

definition exn_name :: "py_exn \<Rightarrow> str" where
  "exn_name e =
     (case e of ValueError \<Rightarrow> ''ValueError'' | OverflowError \<Rightarrow> ''OverflowError'' | TypeError \<Rightarrow> ''TypeError''
      | IndexError \<Rightarrow> ''IndexError'' | OtherError n \<Rightarrow> n)"

text \<open>The start of the rate updater only creates its task, so nothing it meets outside makes it fail.\<close>

definition component_failure :: "boot_env \<Rightarrow> kuberca_config \<Rightarrow> component \<Rightarrow> str option" where
  "component_failure be cfg c =
     (case (if c = RateUpdaterC then None else be_failure be c) of
        Some e \<Rightarrow> Some e
      | None \<Rightarrow>
          if c = LedgerC then
            (case start_ledger (kc_change_ledger cfg) of Inl e \<Rightarrow> Some (exn_name e) | Inr l \<Rightarrow> None)
          else if c = ScoutC then
            (case detector_init (kc_anomaly_cooldown cfg) of Inl e \<Rightarrow> Some (exn_name e) | Inr d \<Rightarrow> None)
          else None)"

definition start_component :: "boot_env \<Rightarrow> kuberca_config \<Rightarrow> component \<Rightarrow> app \<Rightarrow> boot_error option \<times> app" where
  "start_component be cfg c app =
     (if c = LlmC \<and> \<not> os_enabled (kc_ollama cfg) then (None, app)
      else
        (case component_failure be cfg c of
           Some e \<Rightarrow> if optional_component c then (None, app) else (Some (ComponentError c e), app)
         | None \<Rightarrow>
             (None, app\<lparr>ap_handles := ap_handles app @ [c], ap_tasks := ap_tasks app @ task_of c,
                ap_watchers := ap_watchers app @ watchers_of c\<rparr>)))"

fun start_components ::
  "boot_env \<Rightarrow> kuberca_config \<Rightarrow> component list \<Rightarrow> app \<Rightarrow> boot_error option \<times> app" where
  "start_components be cfg [] app = (None, app)"
| "start_components be cfg (c # cs) app =
     (case start_component be cfg c app of
        (Some e, app') \<Rightarrow> (Some e, app')
      | (None, app') \<Rightarrow> start_components be cfg cs app')"

definition mark_running :: "boot_error option \<times> app \<Rightarrow> boot_error option \<times> app" where
  "mark_running r = (case r of (None, app) \<Rightarrow> (None, app\<lparr>ap_running := True\<rparr>) | (Some e, app) \<Rightarrow> (Some e, app))"

definition app_start :: "boot_env \<Rightarrow> app \<Rightarrow> boot_error option \<times> app" where
  "app_start be app =
     (case load_config (be_float be) (be_environ be) of
        Inl e \<Rightarrow> (Some (ConfigError e), app)
      | Inr cfg \<Rightarrow>
          mark_running (start_components be cfg START_ORDER (app\<lparr>ap_config := Some cfg, ap_logging := True\<rparr>)))"

subsection \<open>Stopping\<close>

definition STOP_ORDER :: "component list" where
  "STOP_ORDER = [RestC, McpC, NotificationsC, ScoutC, QueueC, CoordinatorC, LlmC, RuleEngineC, CollectorC,
     LedgerC, CacheC]"

text \<open>
  The handles with a \<open>stop\<close> method: the queue and the event watcher.  Whether the server object of
  uvicorn has one is the parameter \<open>rest\<close>.
\<close>

definition has_stop :: "bool \<Rightarrow> component \<Rightarrow> bool" where
  "has_stop rest c \<longleftrightarrow> c = QueueC \<or> c = CollectorC \<or> (c = RestC \<and> rest)"

definition stop_component :: "bool \<Rightarrow> app \<Rightarrow> component \<Rightarrow> component list" where
  "stop_component rest app c = (if c \<in> set (ap_handles app) \<and> has_stop rest c then [c] else [])"

text \<open>
  The \<open>stop\<close> calls made, in order; their errors and time-outs are caught.  The background tasks are
  cancelled; of the watchers, only the one kept as the collector is stopped, the event watcher.
\<close>

definition app_stop :: "bool \<Rightarrow> app \<Rightarrow> component list \<times> app" where
  "app_stop rest app =
     (if \<not> ap_running app \<and> \<not> ap_logging app then ([], app)
      else (concat (map (stop_component rest app) STOP_ORDER),
        app\<lparr>ap_running := False, ap_tasks := [],
            ap_watchers := (if CollectorC \<in> set (ap_handles app) then removeAll ''event'' (ap_watchers app)
              else ap_watchers app),
            ap_handles := filter (\<lambda>c. c \<noteq> GraphC) (ap_handles app)\<rparr>))"

subsection \<open>main\<close>

datatype process = Serving app | Exited nat "component list"

text \<open>
  A mandatory component that fails stops the others and exits with 1; any other exception leaves \<open>main\<close>
  with a traceback (also status 1), and \<open>stop\<close> runs only when the application is running.
\<close>

definition main_boot :: "bool \<Rightarrow> boot_env \<Rightarrow> process" where
  "main_boot rest be =
     (case app_start be app_init of
        (None, app) \<Rightarrow> Serving app
      | (Some (ComponentError c e), app) \<Rightarrow> Exited 1 (fst (app_stop rest app))
      | (Some (ConfigError e), app) \<Rightarrow> Exited 1 (if ap_running app then fst (app_stop rest app) else []))"

definition main_shutdown :: "bool \<Rightarrow> process \<Rightarrow> process" where
  "main_shutdown rest p = (case p of Serving app \<Rightarrow> Exited 0 (fst (app_stop rest app)) | Exited n cs \<Rightarrow> Exited n cs)"

subsection \<open>What a start brings up\<close>

definition comes_up :: "boot_env \<Rightarrow> kuberca_config \<Rightarrow> component \<Rightarrow> bool" where
  "comes_up be cfg c \<longleftrightarrow>
     component_failure be cfg c = None \<and> (c = LlmC \<longrightarrow> os_enabled (kc_ollama cfg))"

definition blocks :: "boot_env \<Rightarrow> kuberca_config \<Rightarrow> component \<Rightarrow> bool" where
  "blocks be cfg c \<longleftrightarrow> \<not> optional_component c \<and> component_failure be cfg c \<noteq> None"

lemma start_component_cases:
  "start_component be cfg c app =
     (if blocks be cfg c then (Some (ComponentError c (the (component_failure be cfg c))), app)
      else if comes_up be cfg c
        then (None, app\<lparr>ap_handles := ap_handles app @ [c], ap_tasks := ap_tasks app @ task_of c,
          ap_watchers := ap_watchers app @ watchers_of c\<rparr>)
      else (None, app))"
  by (auto simp: start_component_def blocks_def comes_up_def optional_component_def split: option.split)

lemma start_components_result:
  "start_components be cfg cs app =
     (let up = takeWhile (\<lambda>c. \<not> blocks be cfg c) cs; started = filter (comes_up be cfg) up in
      (case dropWhile (\<lambda>c. \<not> blocks be cfg c) cs of
         [] \<Rightarrow> None | c # _ \<Rightarrow> Some (ComponentError c (the (component_failure be cfg c))),
       app\<lparr>ap_handles := ap_handles app @ started, ap_tasks := ap_tasks app @ concat (map task_of started),
           ap_watchers := ap_watchers app @ concat (map watchers_of started)\<rparr>))"
  by (induction cs arbitrary: app) (auto simp: start_component_cases Let_def)


subsection \<open>Shutting down\<close>

lemma start_order_distinct: "distinct START_ORDER"
  by (simp add: START_ORDER_def)

lemma stop_order_reverses: "STOP_ORDER = filter (\<lambda>c. c \<in> set STOP_ORDER) (rev START_ORDER)"
  by (simp add: STOP_ORDER_def START_ORDER_def)

lemma stop_calls_filter:
  "concat (map (stop_component rest app) cs) = filter (\<lambda>c. c \<in> set (ap_handles app) \<and> has_stop rest c) cs"
  by (induction cs) (auto simp: stop_component_def)

lemma has_stop_listed: "has_stop rest c \<Longrightarrow> c \<in> set STOP_ORDER"
  by (auto simp: has_stop_def STOP_ORDER_def)

lemma up_in_order:
  assumes "up = filter P (takeWhile Q START_ORDER)"
  shows "filter (\<lambda>c. c \<in> set up \<and> has_stop rest c) STOP_ORDER = filter (has_stop rest) (rev up)"
proof -
  have keep: "filter (\<lambda>c. c \<in> set (filter P (takeWhile Q xs))) xs = filter P (takeWhile Q xs)"
    if "distinct xs" for xs
  proof -
    let ?t = "takeWhile Q xs" and ?d = "dropWhile Q xs"
    have "distinct (?t @ ?d)" using that by simp
    then have "set ?t \<inter> set ?d = {}" by (simp only: distinct_append)
    then have "filter (\<lambda>c. c \<in> set (filter P ?t)) ?d = []" by (auto simp: filter_empty_conv)
    moreover have "filter (\<lambda>c. c \<in> set (filter P ?t)) ?t = filter P ?t" by (rule filter_cong) auto
    moreover have "filter (\<lambda>c. c \<in> set (filter P ?t)) (?t @ ?d) =
        filter (\<lambda>c. c \<in> set (filter P ?t)) ?t @ filter (\<lambda>c. c \<in> set (filter P ?t)) ?d"
      by (rule filter_append)
    ultimately show ?thesis by simp
  qed
  have "filter (\<lambda>c. c \<in> set up \<and> has_stop rest c) STOP_ORDER =
      filter (\<lambda>c. (c \<in> set STOP_ORDER \<and> c \<in> set up) \<and> has_stop rest c) (rev START_ORDER)"
    by (subst stop_order_reverses) (simp add: conj_ac)
  also have "\<dots> = filter (has_stop rest) (rev (filter (\<lambda>c. c \<in> set up) START_ORDER))"
    using has_stop_listed by (auto simp: rev_filter intro!: filter_cong)
  also have "filter (\<lambda>c. c \<in> set up) START_ORDER = up"
    unfolding assms by (rule keep [OF start_order_distinct])
  finally show ?thesis .
qed

lemma watchers_of_up:
  "concat (map watchers_of up) = concat (replicate (count_list up CollectorC) [''event'', ''pod'', ''node''])"
proof (induction up)
  case (Cons c up)
  then show ?case by (cases c) simp_all
qed simp

lemma count_distinct: "distinct xs \<Longrightarrow> count_list xs x = (if x \<in> set xs then 1 else 0)"
  by (induction xs) (auto simp: count_list_0_iff)

text \<open>
  C33: Whatever came up, also in a start that failed half-way, a stop makes the \<open>stop\<close> calls of what is
  there in the reverse order of the start, cancels every background task of the application and leaves it
  not running.  It does not stop everything: when the collectors had been started, the tasks of the pod
  watcher and of the node watcher go on.
\<close>

theorem shutdown_reverses_startup:
  "fst (app_stop rest (snd (app_start be app_init))) =
     filter (has_stop rest) (rev (ap_handles (snd (app_start be app_init)))) \<and>
   \<not> ap_running (snd (app_stop rest (snd (app_start be app_init)))) \<and>
   ap_tasks (snd (app_stop rest (snd (app_start be app_init)))) = [] \<and>
   ap_watchers (snd (app_stop rest (snd (app_start be app_init)))) =
     (if CollectorC \<in> set (ap_handles (snd (app_start be app_init))) then [''pod'', ''node''] else [])"
proof (cases "load_config (be_float be) (be_environ be)")
  case (Inl e)
  then show ?thesis by (simp add: app_start_def app_stop_def app_init_def)
next
  case (Inr cfg)
  define app where "app = snd (app_start be app_init)"
  obtain up where up: "ap_handles app = up" "ap_logging app" "ap_watchers app = concat (map watchers_of up)"
    "up = filter (comes_up be cfg) (takeWhile (\<lambda>c. \<not> blocks be cfg c) START_ORDER)"
  proof (rule that [OF refl])
    have f: "mark_running r = (None, (snd r)\<lparr>ap_running := True\<rparr>) \<or> mark_running r = r" for r
      by (auto simp: mark_running_def split: prod.split option.split)
    show "ap_logging app" "ap_handles app =
        filter (comes_up be cfg) (takeWhile (\<lambda>c. \<not> blocks be cfg c) START_ORDER)"
      "ap_watchers app = concat (map watchers_of (ap_handles app))"
      using f [of "start_components be cfg START_ORDER (app_init\<lparr>ap_config := Some cfg, ap_logging := True\<rparr>)"]
      by (auto simp: app_def app_start_def Inr start_components_result Let_def app_init_def)
  qed
  have "distinct up" unfolding up(4) using start_order_distinct by simp
  then have "count_list up CollectorC = (if CollectorC \<in> set up then 1 else 0)"
    by (rule count_distinct)
  then show ?thesis
    unfolding app_def [symmetric] using up(1-3) up_in_order [OF up(4), of rest]
    by (simp add: app_stop_def stop_calls_filter watchers_of_up)
qed

text \<open>
  A configuration that loads can still keep the application from starting: the retention \<open>6h\<close> with a
  trailing newline passes the pattern, and the ledger then fails on it.
\<close>

theorem accepted_configuration_does_not_start:
  assumes "load_config (be_float be) (be_environ be) = Inr cfg"
    and "be_failure be K8sClientC = None" "be_failure be CacheC = None" "be_failure be LedgerC = None"
    and "app_retention_hours (cl_retention (kc_change_ledger cfg)) = Inl e"
  shows "fst (app_start be app_init) = Some (ComponentError LedgerC (exn_name e))"
  using assms
  by (simp add: app_start_def START_ORDER_def start_component_def component_failure_def optional_component_def
      start_ledger_def mark_running_def split: option.split)

definition newline_env :: boot_env where
  "newline_env = \<lparr>be_environ = [(''KUBERCA_CHANGE_LEDGER_RETENTION'', ''6h'' @ [CHR 0x0A])],
     be_float = demo_float, be_failure = (\<lambda>_. None)\<rparr>"

subsection \<open>A signal during the start\<close>

text \<open>
  \<open>stop\<close> run by a signal while \<open>start\<close> is awaiting its \<open>k\<close>-th component: \<open>start\<close> then goes on with
  the rest and declares the application running.
\<close>

definition interrupted_start :: "bool \<Rightarrow> boot_env \<Rightarrow> kuberca_config \<Rightarrow> nat \<Rightarrow> app \<Rightarrow> boot_error option \<times> app" where
  "interrupted_start rest be cfg k app =
     (case start_components be cfg (take k START_ORDER) (app\<lparr>ap_config := Some cfg, ap_logging := True\<rparr>) of
        (Some e, app') \<Rightarrow> (Some e, app')
      | (None, app') \<Rightarrow>
          mark_running (start_components be cfg (drop k START_ORDER) (snd (app_stop rest app'))))"

theorem stop_during_start_is_undone:
  assumes "\<And>c. component_failure be cfg c = None" "k < length START_ORDER"
  shows "fst (interrupted_start rest be cfg k app_init) = None \<and>
     ap_running (snd (interrupted_start rest be cfg k app_init)) \<and>
     ''rate-gauge-updater'' \<in> set (ap_tasks (snd (interrupted_start rest be cfg k app_init)))"
proof -
  have nb: "\<not> blocks be cfg c" for c using assms(1) by (simp add: blocks_def)
  have tw: "takeWhile (\<lambda>c. \<not> blocks be cfg c) cs = cs" "dropWhile (\<lambda>c. \<not> blocks be cfg c) cs = []" for cs
    using nb by simp_all
  have "last (drop k START_ORDER) = last START_ORDER" using assms(2) by (rule last_drop)
  then have "RateUpdaterC \<in> set (drop k START_ORDER)"
    using assms(2) last_in_set [of "drop k START_ORDER"] by (simp add: START_ORDER_def)
  then have "RateUpdaterC \<in> set (filter (comes_up be cfg) (drop k START_ORDER))"
    using assms(1) by (simp add: comes_up_def)
  then have "''rate-gauge-updater'' \<in> set (concat (map task_of (filter (comes_up be cfg) (drop k START_ORDER))))"
    by force
  then show ?thesis
    by (simp add: interrupted_start_def start_components_result tw Let_def mark_running_def)
qed

end
