(* ===== verification/Wiring.thy ===== *)
theory Wiring
  imports Coordinator ObjectWatchers
begin

text \<open>
  \<open>kuberca/app.py\<close>, the running system: the handlers that \<open>_start_collector\<close> puts in front of the pod
  and node watchers, so that every watch event also updates the resource cache and the dependency graph,
  and the seeding of the graph from the cache at startup.
\<close>

subsection \<open>Seeding the graph (_seed_graph_from_cache)\<close>

definition cached_objects :: "store \<Rightarrow> cached_resource list" where
  "cached_objects st =
     concat (map (\<lambda>(_, ns_map). concat (map (\<lambda>(_, name_map). map snd name_map) ns_map)) st)"

definition seed_snapshot :: "instant \<Rightarrow> cached_resource \<Rightarrow> resource_snapshot" where
  "seed_snapshot now r =
     \<lparr>sn_kind = cr_kind r, sn_namespace = cr_namespace r, sn_name = cr_name r, sn_spec_hash = [],
      sn_spec =
        [(''metadata'', PDict
            [(''namespace'', PStr (cr_namespace r)), (''name'', PStr (cr_name r)),
             (''labels'', PDict (text_dict (cr_labels r))),
             (''annotations'', PDict (text_dict (cr_annotations r))),
             (''resourceVersion'', PStr (cr_resource_version r))]),
         (''spec'', PDict (cr_spec r)), (''status'', PDict (cr_status r))],
      sn_captured_at = now, sn_resource_version = cr_resource_version r\<rparr>"

definition seed_graph :: "instant \<Rightarrow> store \<Rightarrow> graph" where
  "seed_graph now st = fold (\<lambda>r. add_resource now (seed_snapshot now r)) (cached_objects st) graph_init"

subsection \<open>The wired handlers\<close>

record wired =
  wi_cache :: rcache
  wi_graph :: "graph option"
  wi_pods :: pod_watcher
  wi_nodes :: condition_states

definition raw_snapshot :: "instant \<Rightarrow> str \<Rightarrow> str \<Rightarrow> str \<Rightarrow> pydict \<Rightarrow> resource_snapshot" where
  "raw_snapshot now kind ns name raw =
     \<lparr>sn_kind = kind, sn_namespace = ns, sn_name = name, sn_spec_hash = [], sn_spec = raw,
      sn_captured_at = now,
      sn_resource_version = py_str (vget (PStr []) (dict_field raw ''metadata'') ''resourceVersion'')\<rparr>"

definition feed_graph :: "instant \<Rightarrow> graph option \<Rightarrow> str \<Rightarrow> str \<Rightarrow> str \<Rightarrow> pydict \<Rightarrow> graph option" where
  "feed_graph now g kind ns name raw =
     map_option (add_resource now (raw_snapshot now kind ns name raw)) g"

text \<open>What both handlers do before they hand the event to the watcher.\<close>

definition track :: "str \<Rightarrow> str \<Rightarrow> str \<Rightarrow> str \<Rightarrow> instant \<Rightarrow> pydict \<Rightarrow> wired \<Rightarrow> wired" where
  "track event_type kind ns name now raw st =
     (if name = [] then st
      else if event_type = ''ADDED'' \<or> event_type = ''MODIFIED'' then
        st\<lparr>wi_cache := cache_update now kind ns name raw (wi_cache st),
           wi_graph := feed_graph now (wi_graph st) kind ns name raw\<rparr>
      else if event_type = ''DELETED'' then
        st\<lparr>wi_cache := cache_remove kind ns name (wi_cache st),
           wi_graph := map_option (remove_resource kind ns name) (wi_graph st)\<rparr>
      else st)"

text \<open>Metadata that is no dictionary makes \<open>metadata.get\<close> raise, before anything is done.\<close>

definition pod_handle_with_cache ::
  "str \<Rightarrow> pod_object watch_event \<Rightarrow> wired \<Rightarrow> (py_exn + emission list) \<times> wired" where
  "pod_handle_with_cache cluster_id e st =
     (case vget (PDict []) (we_raw e) ''metadata'' of
        PDict metadata \<Rightarrow>
          let ns = py_str (vget (PStr []) metadata ''namespace'');
              name = py_str (vget (PStr []) metadata ''name'');
              st1 = track (we_type e) ''Pod'' ns name (we_now e) (we_raw e) st;
              (out, pods) = pod_handle cluster_id e (wi_pods st1)
          in (Inr out, st1\<lparr>wi_pods := pods\<rparr>)
      | _ \<Rightarrow> (Inl (OtherError ''AttributeError''), st))"

definition node_handle_with_cache ::
  "str \<Rightarrow> node_object watch_event \<Rightarrow> wired \<Rightarrow> (py_exn + event_record list) \<times> wired" where
  "node_handle_with_cache cluster_id e st =
     (case vget (PDict []) (we_raw e) ''metadata'' of
        PDict metadata \<Rightarrow>
          let name = py_str (vget (PStr []) metadata ''name'');
              st1 = track (we_type e) ''Node'' [] name (we_now e) (we_raw e) st;
              (out, nodes) = node_handle cluster_id e (wi_nodes st1)
          in (Inr out, st1\<lparr>wi_nodes := nodes\<rparr>)
      | _ \<Rightarrow> (Inl (OtherError ''AttributeError''), st))"

datatype wired_event = PodEvent "pod_object watch_event" | NodeEvent "node_object watch_event"

fun wired_step :: "str \<Rightarrow> wired_event \<Rightarrow> wired \<Rightarrow> wired" where
  "wired_step cluster_id (PodEvent e) st = snd (pod_handle_with_cache cluster_id e st)"
| "wired_step cluster_id (NodeEvent e) st = snd (node_handle_with_cache cluster_id e st)"

definition wired_run :: "str \<Rightarrow> wired_event list \<Rightarrow> wired \<Rightarrow> wired" where
  "wired_run cluster_id es st = fold (wired_step cluster_id) es st"

text \<open>
  The state of the handlers that \<open>_start_collector\<close> installs over a cache and a graph, and the one after
  \<open>_start_cache\<close> and a successful \<open>_start_dependency_graph\<close>.
\<close>

definition wired_init :: "rcache \<Rightarrow> graph option \<Rightarrow> wired" where
  "wired_init c g =
     \<lparr>wi_cache = c, wi_graph = g, wi_pods = \<lparr>pw_phases = [], pw_spec_hashes = []\<rparr>, wi_nodes = []\<rparr>"

definition wired_start :: "instant \<Rightarrow> rcache \<Rightarrow> wired" where
  "wired_start now c = wired_init c (Some (seed_graph now (rc_store c)))"

subsection \<open>What is cached is known to the graph\<close>

definition known :: "graph \<Rightarrow> rkey set" where
  "known g = set (dkeys (gr_nodes g))"

definition cached_keys :: "store \<Rightarrow> rkey set" where
  "cached_keys st = {(kind, ns, name). store_get st kind ns name \<noteq> None}"

lemma known_iff: "k \<in> known g \<longleftrightarrow> dget (gr_nodes g) k \<noteq> None"
  unfolding known_def dkeys_iff by simp

lemma known_ensure: "known (ensure_node k g) = insert k (known g)"
  by (auto simp: known_iff ensure_node_get split: if_splits)

lemma known_add_edge [simp]: "known (add_edge s t e g) = known g"
  by (simp add: known_def add_edge_def)

lemma known_link: "known g \<subseteq> known (link now key ref g)"
  by (auto simp: link_def Let_def known_ensure split: prod.split)

lemma known_links: "known g \<subseteq> known (fold (link now key) refs g)"
proof (induction refs arbitrary: g)
  case (Cons r refs)
  show ?case using known_link [of g now key r] Cons [of "link now key r g"] by simp
qed simp

lemma known_quota: "known g \<subseteq> known (quota_link now snap key g)"
  by (auto simp: quota_link_def Let_def known_ensure)

lemma known_add_resource: "insert (snapshot_key snap) (known g) \<subseteq> known (add_resource now snap g)"
proof -
  let ?key = "snapshot_key snap"
  let ?g1 = "remove_edges_for ?key g"
  let ?g2 = "?g1\<lparr>gr_nodes := dset ?key (node_of ?key) (gr_nodes ?g1)\<rparr>"
  have "insert ?key (known g) \<subseteq> known ?g2" by (auto simp: known_iff)
  also have "\<dots> \<subseteq> known (fold (link now ?key) (declared_refs snap) ?g2)" by (rule known_links)
  also have "\<dots> \<subseteq> known (add_resource now snap g)"
    unfolding add_resource_def Let_def snapshot_key_def by (rule known_quota)
  finally show ?thesis .
qed

lemma known_remove_resource:
  assumes "graph_wf g"
  shows "known (remove_resource kind ns name g) = known g - {(kind, ns, name)}"
proof -
  have m: "mirrored g" using assms by (simp add: graph_wf_def)
  show ?thesis
    by (rule set_eqI) (simp add: known_iff remove_resource_adj(3) [OF m])
qed

lemma seed_fold:
  "graph_wf g \<Longrightarrow> graph_wf (fold (\<lambda>r. add_resource now (seed_snapshot now r)) rs g) \<and>
    known g \<union> (\<lambda>r. (cr_kind r, cr_namespace r, cr_name r)) ` set rs
      \<subseteq> known (fold (\<lambda>r. add_resource now (seed_snapshot now r)) rs g)"
proof (induction rs arbitrary: g)
  case (Cons r rs)
  let ?g = "add_resource now (seed_snapshot now r) g"
  have "graph_wf ?g" by (rule add_resource_wf [OF Cons.prems])
  from Cons.IH [OF this] known_add_resource [of "seed_snapshot now r" g now] show ?case
    by (auto simp: snapshot_key_def seed_snapshot_def)
qed simp

lemma cached_object_mem:
  assumes "store_get st kind ns name = Some r"
  shows "r \<in> set (cached_objects st)"
proof -
  obtain m where m: "dget st kind = Some m" "dget (dget_or [] m ns) name = Some r"
    using assms by (auto simp: store_get_def dget_or_def split: option.splits)
  then obtain d where d: "dget m ns = Some d" "dget d name = Some r"
    by (auto simp: dget_or_def split: option.splits)
  show ?thesis
    using m(1) d by (force simp: cached_objects_def dest!: map_of_SomeD)
qed

lemma seed_graph_knows:
  assumes "store_wf st"
  shows "graph_wf (seed_graph now st)" "cached_keys st \<subseteq> known (seed_graph now st)"
proof -
  note s = seed_fold [OF graph_init_wf, of now "cached_objects st"]
  show "graph_wf (seed_graph now st)" using s by (simp add: seed_graph_def)
  show "cached_keys st \<subseteq> known (seed_graph now st)"
  proof
    fix key assume "key \<in> cached_keys st"
    then obtain kind ns name r where k: "key = (kind, ns, name)" "store_get st kind ns name = Some r"
      by (auto simp: cached_keys_def)
    have "per_name_wf kind ns (dget_or [] (dget_or [] st kind) ns)"
      using assms by (simp add: store_wf_parts)
    then have "cr_kind r = kind \<and> cr_namespace r = ns \<and> cr_name r = name"
      using k(2) dall_get unfolding per_name_wf_def store_get_def by fast
    then show "key \<in> known (seed_graph now st)"
      using s cached_object_mem [OF k(2)] k(1) by (force simp: seed_graph_def)
  qed
qed

text \<open>Without a graph (its start failed) only the cache is constrained.\<close>

definition wired_ok :: "wired \<Rightarrow> bool" where
  "wired_ok st \<longleftrightarrow> store_wf (rc_store (wi_cache st)) \<and>
     (case wi_graph st of
        None \<Rightarrow> True
      | Some g \<Rightarrow> graph_wf g \<and> cached_keys (rc_store (wi_cache st)) \<subseteq> known g)"

lemma cached_keys_put: "cached_keys (store_put r st) = insert (cr_kind r, cr_namespace r, cr_name r) (cached_keys st)"
  by (auto simp: cached_keys_def store_put_get)

lemma cached_keys_touch: "cached_keys (touch kind ns st) = cached_keys st"
  by (simp add: cached_keys_def)

lemma cached_keys_update:
  "cached_keys (rc_store (cache_update now kind ns name raw c)) \<subseteq> insert (kind, ns, name) (cached_keys (rc_store c))"
  by (auto simp: cache_update_store cached_keys_put cached_keys_touch)

lemma cached_keys_remove:
  "cached_keys (rc_store (cache_remove kind ns name c)) = cached_keys (rc_store c) - {(kind, ns, name)}"
  by (auto simp: cached_keys_def cache_remove_get)

lemma cache_update_store_wf: "store_wf (rc_store c) \<Longrightarrow> store_wf (rc_store (cache_update now kind ns name raw c))"
  by (simp add: cache_update_store touch_wf store_put_wf)

lemma cache_remove_store_wf:
  assumes "store_wf (rc_store c)"
  shows "store_wf (rc_store (cache_remove kind ns name c))"
proof -
  let ?m = "dget_or [] (rc_store c) kind"
  have "per_name_wf kind ns (dget_or [] ?m ns)" using assms by (simp add: store_wf_parts)
  then have "per_name_wf kind ns (dpop name (dget_or [] ?m ns))" by (simp add: per_name_wf_def dall_dpop)
  with assms show ?thesis by (simp add: cache_remove_store store_wf_parts)
qed

lemma track_ok:
  assumes "wired_ok st"
  shows "wired_ok (track ty kind ns name now raw st)"
proof (cases "wi_graph st")
  case None
  then show ?thesis using assms
    by (simp add: track_def wired_ok_def feed_graph_def cache_update_store_wf cache_remove_store_wf)
next
  case (Some g)
  with assms have g: "wi_graph st = Some g" "graph_wf g" "cached_keys (rc_store (wi_cache st)) \<subseteq> known g"
    and st: "store_wf (rc_store (wi_cache st))"
    by (simp_all add: wired_ok_def)
  have key: "snapshot_key (raw_snapshot now kind ns name raw) = (kind, ns, name)"
    by (simp add: snapshot_key_def raw_snapshot_def)
  show ?thesis
    using g st known_add_resource [of "raw_snapshot now kind ns name raw" g now]
      cached_keys_update [of now kind ns name raw "wi_cache st"]
    by (auto simp: track_def wired_ok_def feed_graph_def key add_resource_wf remove_resource_wf
        cache_update_store_wf cache_remove_store_wf cached_keys_remove known_remove_resource)
qed

lemma wired_ok_watchers [simp]:
  "wired_ok (st\<lparr>wi_pods := p\<rparr>) = wired_ok st" "wired_ok (st\<lparr>wi_nodes := n\<rparr>) = wired_ok st"
  by (simp_all add: wired_ok_def split: option.split)

lemma wired_step_ok: "wired_ok st \<Longrightarrow> wired_ok (wired_step cluster_id e st)"
  by (cases e) (auto simp: pod_handle_with_cache_def node_handle_with_cache_def Let_def track_ok
      split: pyval.split prod.split)

lemma wired_run_ok: "wired_ok st \<Longrightarrow> wired_ok (wired_run cluster_id es st)"
  by (induction es arbitrary: st) (simp_all add: wired_run_def wired_step_ok)

text \<open>No event makes the graph appear or vanish.\<close>

lemma wired_step_graph: "(wi_graph (wired_step cluster_id e st) = None) = (wi_graph st = None)"
  by (cases e) (auto simp: pod_handle_with_cache_def node_handle_with_cache_def Let_def track_def feed_graph_def
      split: pyval.split prod.split)

lemma wired_run_graph: "(wi_graph (wired_run cluster_id es st) = None) = (wi_graph st = None)"
  by (induction es arbitrary: st) (simp_all add: wired_run_def wired_step_graph)

lemma wired_init_ok:
  "store_wf (rc_store c) \<Longrightarrow> g = None \<or> g = Some (seed_graph now (rc_store c)) \<Longrightarrow> wired_ok (wired_init c g)"
  by (auto simp: wired_ok_def wired_init_def seed_graph_knows)

lemma wired_start_ok: "store_wf (rc_store c) \<Longrightarrow> wired_ok (wired_start now c)"
  by (simp add: wired_start_def wired_init_ok)

lemma ingest_wf: "store_wf st \<Longrightarrow> store_wf (ingest_object now kind obj st)"
  by (auto simp: ingest_object_def Let_def store_put_wf split: option.split)

lemma ingest_all_wf: "store_wf st \<Longrightarrow> store_wf (fold (ingest_object now kind) items st)"
  by (induction items arbitrary: st) (simp_all add: ingest_wf)

lemma list_kind_wf: "store_wf (rc_store c) \<Longrightarrow> store_wf (rc_store (list_kind now kind out c))"
  by (auto simp: list_kind_def ingest_all_wf split: list_outcome.split)

lemma list_kinds_wf:
  "store_wf (rc_store c) \<Longrightarrow> store_wf (rc_store (fold (\<lambda>kind. list_kind now kind (api kind)) kinds c))"
  by (induction kinds arbitrary: c) (simp_all add: list_kind_wf)

lemma populate_store_wf: "store_wf (rc_store (cache_populate now api kinds cache_init))"
proof -
  have "rc_store (recompute_readiness t c) = rc_store c" for t c
    using is_diverged_keeps [of t c]
    by (auto simp: recompute_readiness_def Let_def simp del: is_diverged_keeps split: prod.splits option.splits)
  moreover have "store_wf (rc_store (cache_init\<lparr>rc_all_kinds := S, rc_readiness := r\<rparr>))" for S r
    by (simp add: cache_init_def store_wf_def)
  ultimately show ?thesis by (simp add: cache_populate_def Let_def list_kinds_wf)
qed

text \<open>
  In every state the wired system can reach, from whatever the API listed at startup and by whatever
  watch events, the graph is consistent and every cached resource is one of its nodes.
\<close>

theorem wired_state_consistent:
  "case wi_graph (wired_run cluster_id es (wired_start t (cache_populate now api kinds cache_init))) of
     None \<Rightarrow> False
   | Some g \<Rightarrow> graph_wf g \<and>
       {(kind, ns, name). store_get (rc_store (wi_cache (wired_run cluster_id es
            (wired_start t (cache_populate now api kinds cache_init))))) kind ns name \<noteq> None}
         \<subseteq> set (dkeys (gr_nodes g))"
  using wired_run_ok [OF wired_start_ok [OF populate_store_wf], of cluster_id es t now api kinds]
    wired_run_graph [of cluster_id es "wired_start t (cache_populate now api kinds cache_init)"]
  unfolding wired_ok_def cached_keys_def known_def by (auto simp: wired_start_def wired_init_def split: option.splits)

subsection \<open>Three machines fed by the same events\<close>

text \<open>What the cache and the graph are told about an event: the type, the key, the time and the object\<close>

definition named_event :: "str \<Rightarrow> bool \<Rightarrow> str \<Rightarrow> instant \<Rightarrow> pydict \<Rightarrow> store_event list" where
  "named_event kind namespaced ty now raw =
     (case vget (PDict []) raw ''metadata'' of
        PDict metadata \<Rightarrow>
          let ns = (if namespaced then py_str (vget (PStr []) metadata ''namespace'') else []);
              name = py_str (vget (PStr []) metadata ''name'')
          in if name = [] then []
             else if ty = ''ADDED'' \<or> ty = ''MODIFIED'' then [Upsert now kind ns name raw]
             else if ty = ''DELETED'' then [Delete kind ns name] else []
      | _ \<Rightarrow> [])"

fun store_events :: "wired_event \<Rightarrow> store_event list" where
  "store_events (PodEvent e) = named_event ''Pod'' True (we_type e) (we_now e) (we_raw e)"
| "store_events (NodeEvent e) = named_event ''Node'' False (we_type e) (we_now e) (we_raw e)"

fun graph_op :: "store_event \<Rightarrow> instant \<times> resource_snapshot + rkey" where
  "graph_op (Upsert now kind ns name raw) = Inl (now, raw_snapshot now kind ns name raw)"
| "graph_op (Delete kind ns name) = Inr (kind, ns, name)"

definition has_metadata :: "pydict \<Rightarrow> bool" where
  "has_metadata raw \<longleftrightarrow> as_dict (vget (PDict []) raw ''metadata'') \<noteq> None"

definition pod_events :: "wired_event list \<Rightarrow> pod_object watch_event list" where
  "pod_events es =
     concat (map (\<lambda>e. case e of PodEvent p \<Rightarrow> if has_metadata (we_raw p) then [p] else [] | _ \<Rightarrow> []) es)"

definition node_events :: "wired_event list \<Rightarrow> node_object watch_event list" where
  "node_events es =
     concat (map (\<lambda>e. case e of NodeEvent p \<Rightarrow> if has_metadata (we_raw p) then [p] else [] | _ \<Rightarrow> []) es)"

lemma track_cache:
  "wi_cache (track ty kind (if namespaced then py_str (vget (PStr []) m ''namespace'') else [])
      (py_str (vget (PStr []) m ''name'')) now raw st) =
     watch_run (named_event kind namespaced ty now raw) (wi_cache st)"
  if "vget (PDict []) raw ''metadata'' = PDict m"
  using that by (auto simp: track_def named_event_def Let_def)

lemma track_graph:
  "wi_graph (track ty kind (if namespaced then py_str (vget (PStr []) m ''namespace'') else [])
      (py_str (vget (PStr []) m ''name'')) now raw st) =
     map_option (graph_run (map graph_op (named_event kind namespaced ty now raw))) (wi_graph st)"
  if "vget (PDict []) raw ''metadata'' = PDict m"
proof (cases "wi_graph st")
  case None
  with that show ?thesis by (simp add: track_def feed_graph_def)
next
  case (Some g)
  with that show ?thesis by (simp add: track_def named_event_def Let_def feed_graph_def)
qed

lemma track_watchers [simp]:
  "wi_pods (track ty kind ns name now raw st) = wi_pods st"
  "wi_nodes (track ty kind ns name now raw st) = wi_nodes st"
  by (simp_all add: track_def)

lemma named_event_none: "\<not> has_metadata raw \<Longrightarrow> named_event kind namespaced ty now raw = []"
  by (auto simp: has_metadata_def named_event_def split: pyval.splits)

lemma watch_run_append: "watch_run (a @ b) c = watch_run b (watch_run a c)"
  by (induction a arbitrary: c) auto

lemma graph_run_append: "graph_run (a @ b) g = graph_run b (graph_run a g)"
  by (induction a g rule: graph_run.induct) auto

lemma steps_append_state: "snd (steps f (a @ b) s) = snd (steps f b (snd (steps f a s)))"
  by (induction a arbitrary: s) (auto simp: case_prod_beta)

lemma wired_step_parts:
  "wi_cache (wired_step cid e st) = watch_run (store_events e) (wi_cache st)"
  "wi_graph (wired_step cid e st) = map_option (graph_run (map graph_op (store_events e))) (wi_graph st)"
  "wi_pods (wired_step cid e st) = snd (steps (pod_handle cid) (pod_events [e]) (wi_pods st))"
  "wi_nodes (wired_step cid e st) = snd (steps (node_handle cid) (node_events [e]) (wi_nodes st))"
proof -
  have id: "map_option (graph_run []) g = g" for g by (cases g) simp_all
  have pod: "wi_cache (snd (pod_handle_with_cache cid p st)) = watch_run (store_events (PodEvent p)) (wi_cache st) \<and>
      wi_graph (snd (pod_handle_with_cache cid p st)) =
        map_option (graph_run (map graph_op (store_events (PodEvent p)))) (wi_graph st)" for p
  proof (cases "vget (PDict []) (we_raw p) ''metadata''")
    case (PDict m)
    then show ?thesis
      using track_cache [OF PDict, of "we_type p" "''Pod''" True "we_now p" st]
        track_graph [OF PDict, of "we_type p" "''Pod''" True "we_now p" st]
      unfolding pod_handle_with_cache_def PDict pyval.case Let_def split_beta store_events.simps
      by simp
  qed (simp_all add: pod_handle_with_cache_def named_event_def id)
  have node: "wi_cache (snd (node_handle_with_cache cid p st)) = watch_run (store_events (NodeEvent p)) (wi_cache st) \<and>
      wi_graph (snd (node_handle_with_cache cid p st)) =
        map_option (graph_run (map graph_op (store_events (NodeEvent p)))) (wi_graph st)" for p
  proof (cases "vget (PDict []) (we_raw p) ''metadata''")
    case (PDict m)
    then show ?thesis
      using track_cache [OF PDict, of "we_type p" "''Node''" False "we_now p" st]
        track_graph [OF PDict, of "we_type p" "''Node''" False "we_now p" st]
      unfolding node_handle_with_cache_def PDict pyval.case Let_def split_beta store_events.simps
      by simp
  qed (simp_all add: node_handle_with_cache_def named_event_def id)
  show "wi_cache (wired_step cid e st) = watch_run (store_events e) (wi_cache st)"
    "wi_graph (wired_step cid e st) = map_option (graph_run (map graph_op (store_events e))) (wi_graph st)"
    using pod node by (cases e; simp)+
  show "wi_pods (wired_step cid e st) = snd (steps (pod_handle cid) (pod_events [e]) (wi_pods st))"
    by (cases e) (auto simp: pod_handle_with_cache_def node_handle_with_cache_def Let_def has_metadata_def
        pod_events_def case_prod_beta split: pyval.split)
  show "wi_nodes (wired_step cid e st) = snd (steps (node_handle cid) (node_events [e]) (wi_nodes st))"
    by (cases e) (auto simp: pod_handle_with_cache_def node_handle_with_cache_def Let_def has_metadata_def
        node_events_def case_prod_beta split: pyval.split)
qed

text \<open>
  C20: The wired system is the composition of its parts: whatever the watch events, the cache, the graph,
  the pod watcher and the node watcher end in the states they reach on their own when each is fed the
  same events, so that what is proved of each of them holds in the running system.
\<close>

theorem wired_system_is_composition:
  "wi_cache (wired_run cid es st) = watch_run (concat (map store_events es)) (wi_cache st) \<and>
   wi_graph (wired_run cid es st) =
     map_option (graph_run (map graph_op (concat (map store_events es)))) (wi_graph st) \<and>
   wi_pods (wired_run cid es st) = snd (steps (pod_handle cid) (pod_events es) (wi_pods st)) \<and>
   wi_nodes (wired_run cid es st) = snd (steps (node_handle cid) (node_events es) (wi_nodes st))"
proof (induction es arbitrary: st)
  case Nil
  show ?case by (cases "wi_graph st") (simp_all add: wired_run_def pod_events_def node_events_def)
next
  case (Cons e es)
  have run: "wired_run cid (e # es) st = wired_run cid es (wired_step cid e st)"
    by (simp add: wired_run_def)
  have ev: "pod_events (e # es) = pod_events [e] @ pod_events es"
    "node_events (e # es) = node_events [e] @ node_events es"
    by (simp_all add: pod_events_def node_events_def)
  show ?case
    using Cons [of "wired_step cid e st"]
    by (simp only: run wired_step_parts ev steps_append_state list.map concat.simps map_append
        watch_run_append graph_run_append option.map_comp comp_def simp_thms)
qed

subsection \<open>What seeding misses\<close>

text \<open>
  \<open>_ingest_object\<close> stores what \<open>to_dict\<close> of the API objects gives, whose keys are the attribute names
  (\<open>node_name\<close>), while the edge extraction reads the names of the API (\<open>nodeName\<close>).
\<close>

definition is_capital :: "char \<Rightarrow> bool" where
  "is_capital c \<longleftrightarrow> (let n = of_char c :: nat in 65 \<le> n \<and> n \<le> 90)"

fun snake_keys :: "pyval \<Rightarrow> bool" where
  "snake_keys (PDict d) \<longleftrightarrow> list_all (\<lambda>(k, v). list_all (\<lambda>c. \<not> is_capital c) k \<and> snake_keys v) d"
| "snake_keys (PList xs) \<longleftrightarrow> list_all snake_keys xs"
| "snake_keys _ \<longleftrightarrow> True"

lemma snake_get: "snake_keys (PDict d) \<Longrightarrow> dget d k = Some v \<Longrightarrow> list_all (\<lambda>c. \<not> is_capital c) k \<and> snake_keys v"
  by (auto simp: list_all_iff dest: map_of_SomeD)

lemma snake_camel: "snake_keys (PDict d) \<Longrightarrow> list_ex is_capital k \<Longrightarrow> vget x d k = x"
proof (cases "dget d k")
  case (Some v)
  assume "snake_keys (PDict d)" "list_ex is_capital k"
  then have False using snake_get [OF _ Some] by (simp add: list_all_iff list_ex_iff del: snake_keys.simps)
  then show ?thesis ..
qed (simp add: vget_def dget_or_def)

lemma snake_sub: "snake_keys (PDict d) \<Longrightarrow> snake_keys x \<Longrightarrow> snake_keys (vget x d k)"
  using snake_get [of d k]
  by (cases "dget d k") (simp_all add: vget_def dget_or_def del: snake_keys.simps)

lemma capitals:
  "list_ex is_capital ''nodeName''" "list_ex is_capital ''persistentVolumeClaim''" "list_ex is_capital ''configMap''"
  "list_ex is_capital ''secretName''" "list_ex is_capital ''envFrom''" "list_ex is_capital ''volumeName''"
  by (simp_all add: is_capital_def)

lemmas camel_absent = snake_camel [OF _ capitals(1)] snake_camel [OF _ capitals(2)] snake_camel [OF _ capitals(3)]
  snake_camel [OF _ capitals(4)] snake_camel [OF _ capitals(5)] snake_camel [OF _ capitals(6)]

lemma snake_volume: "snake_keys v \<Longrightarrow> volume_refs ns v = []"
proof (cases v)
  case (PDict d)
  assume s: "snake_keys v"
  have "sub_ref d ''secret'' ''secretName'' k ns ty p = []" for k ty p
  proof (cases "vget PNone d ''secret''")
    case P: (PDict r)
    have "snake_keys (vget PNone d ''secret'')" by (rule snake_sub) (use s PDict in simp_all)
    then have "snake_keys (PDict r)" by (simp only: P)
    then show ?thesis using P by (simp add: sub_ref_def named_ref_def camel_absent del: snake_keys.simps)
  qed (simp_all add: sub_ref_def)
  then show ?thesis
    using s PDict by (simp add: volume_refs_def sub_ref_def camel_absent del: snake_keys.simps)
qed (simp_all add: volume_refs_def)

lemma snake_container: "snake_keys v \<Longrightarrow> container_refs ns v = []"
  by (cases v) (simp_all add: container_refs_def camel_absent list_or_empty_def del: snake_keys.simps)

lemma snake_items:
  assumes "snake_keys (vget (PList []) d k)" "\<And>v. snake_keys v \<Longrightarrow> f v = []"
  shows "concat (map f (list_or_empty (vget (PList []) d k))) = []"
  using assms by (cases "vget (PList []) d k") (auto simp: list_or_empty_def list_all_iff)

lemma seed_refs_empty:
  assumes "snake_keys (PDict (cr_spec r))"
  shows "declared_refs (seed_snapshot now r) = []"
proof -
  have "concat (map (volume_refs ns) (list_or_empty (vget (PList []) (cr_spec r) ''volumes''))) = []" for ns
    by (rule snake_items [OF snake_sub [OF assms]]) (simp_all add: snake_volume)
  moreover have "concat (map (container_refs ns) (list_or_empty (vget (PList []) (cr_spec r) ''containers''))) = []" for ns
    by (rule snake_items [OF snake_sub [OF assms]]) (simp_all add: snake_container)
  moreover have "named_ref (cr_spec r) ''nodeName'' k ns ty p = []" for k ns ty p
    using assms by (simp add: named_ref_def camel_absent del: snake_keys.simps)
  moreover have "volume_name (cr_spec r) = []"
    using assms by (simp add: volume_name_def camel_absent del: snake_keys.simps)
  ultimately show ?thesis
    by (simp add: declared_refs_def seed_snapshot_def owner_refs_def pod_refs_def claim_refs_def vget_def
        dget_or_def list_or_empty_def Let_def volume_name_def)
qed

definition quota_only :: "graph \<Rightarrow> bool" where
  "quota_only g \<longleftrightarrow> (\<forall>s. \<forall>te \<in> set (neighbours (gr_forward g) s). ge_type (snd te) = QUOTA_SCOPE)"

lemma seed_quota_only:
  "graph_wf g \<Longrightarrow> quota_only g \<Longrightarrow> \<forall>r \<in> set rs. snake_keys (PDict (cr_spec r))
    \<Longrightarrow> quota_only (fold (\<lambda>r. add_resource now (seed_snapshot now r)) rs g)"
proof (induction rs arbitrary: g)
  case (Cons r rs)
  let ?g = "add_resource now (seed_snapshot now r) g"
  have "quota_only ?g"
    using Cons.prems seed_refs_empty [of r now]
    by (auto simp: quota_only_def add_resource_forward [OF Cons.prems(1)] split: if_splits)
  then show ?case using Cons.IH [of ?g] Cons.prems add_resource_wf [of g] by simp
qed simp

text \<open>
  The graph built at startup from objects stored under attribute names has no edge at all but those from
  namespaces to their quotas: neither owners nor nodes, volumes or configuration are linked until the
  watchers see the objects.
\<close>

theorem seeded_graph_has_no_edges:
  assumes "\<forall>r \<in> set (cached_objects st). snake_keys (PDict (cr_spec r))"
  shows "quota_only (seed_graph now st)"
  unfolding seed_graph_def
  by (rule seed_quota_only [OF graph_init_wf _ assms]) (simp add: quota_only_def graph_init_def dget_or_def)

theorem seeded_graph_has_no_edges_witness:
  "quota_only (seed_graph 0
     [(''Pod'', [(''default'', [(''web'',
        \<lparr>cr_kind = ''Pod'', cr_namespace = ''default'', cr_name = ''web'', cr_resource_version = ''1'',
         cr_labels = [], cr_annotations = [], cr_spec = [(''node_name'', PStr ''n1'')], cr_status = [],
         cr_last_updated = 0\<rparr>)])])])"
  by (rule seeded_graph_has_no_edges) (simp add: cached_objects_def is_capital_def)

end
