(* ===== verification/Boot.thy ===== *)
theory Boot
  imports Wiring Lifecycle WorkQueue WatchLoop Watchers Notify
begin

text \<open>
  \<open>kuberca/app.py\<close>, the start of every component with its state: what each \<open>_start_*\<close> method asserts,
  builds and stores, and how it fails.  The state \<open>boot\<close> holds the handles of \<open>KubeRCAApp\<close>; what the start
  meets outside the repository is the record \<open>boot_world\<close>: the environment, whether a cluster configuration
  is found, what the list methods of the API classes answer, the answer of Ollama to the health check, the
  number of processors, and for each component the exception that its imports and the constructors of other
  packages raise, if any.  Theory Lifecycle is the abstraction of this start to the order of its components.
\<close>

subsection \<open>The lists of the cache\<close>

datatype api_group = CoreV1 | AppsV1 | BatchV1

definition API_MAP :: "(str, api_group) dict" where
  "API_MAP =
     [(''Pod'', CoreV1), (''Node'', CoreV1), (''Event'', CoreV1), (''Namespace'', CoreV1), (''Service'', CoreV1),
      (''Endpoints'', CoreV1), (''ConfigMap'', CoreV1), (''Secret'', CoreV1), (''PersistentVolumeClaim'', CoreV1),
      (''PersistentVolume'', CoreV1), (''ResourceQuota'', CoreV1), (''ServiceAccount'', CoreV1),
      (''Deployment'', AppsV1), (''ReplicaSet'', AppsV1), (''StatefulSet'', AppsV1), (''DaemonSet'', AppsV1),
      (''Job'', BatchV1), (''CronJob'', BatchV1)]"

definition KIND_TO_METHOD :: "(str, str) dict" where
  "KIND_TO_METHOD =
     [(''Pod'', ''list_pod_for_all_namespaces''), (''Node'', ''list_node''),
      (''Event'', ''list_event_for_all_namespaces''), (''Namespace'', ''list_namespace''),
      (''Deployment'', ''list_deployment_for_all_namespaces''),
      (''ReplicaSet'', ''list_replica_set_for_all_namespaces''),
      (''StatefulSet'', ''list_stateful_set_for_all_namespaces''),
      (''DaemonSet'', ''list_daemon_set_for_all_namespaces''),
      (''Service'', ''list_service_for_all_namespaces''),
      (''Endpoints'', ''list_endpoints_for_all_namespaces''),
      (''ConfigMap'', ''list_config_map_for_all_namespaces''),
      (''Secret'', ''list_secret_for_all_namespaces''),
      (''PersistentVolumeClaim'', ''list_persistent_volume_claim_for_all_namespaces''),
      (''PersistentVolume'', ''list_persistent_volume''),
      (''ResourceQuota'', ''list_resource_quota_for_all_namespaces''),
      (''Job'', ''list_job_for_all_namespaces''), (''CronJob'', ''list_cron_job_for_all_namespaces''),
      (''ServiceAccount'', ''list_service_account_for_all_namespaces'')]"

text \<open>An API object is the partial function of its list methods: \<open>getattr(api, method_name, None)\<close>.\<close>

type_synonym api_object = "str \<Rightarrow> list_outcome option"

definition get_list_func :: "api_object \<Rightarrow> str \<Rightarrow> list_outcome option" where
  "get_list_func api kind =
     (case dget KIND_TO_METHOD kind of None \<Rightarrow> None | Some method_name \<Rightarrow> api method_name)"

text \<open>What \<open>populate\<close> lists for a kind: no call without an API object or a list method.\<close>

definition kind_outcome :: "(api_group \<Rightarrow> api_object) \<Rightarrow> str \<Rightarrow> list_outcome" where
  "kind_outcome apis kind =
     (case dget API_MAP kind of
        None \<Rightarrow> NoListCall
      | Some g \<Rightarrow> (case get_list_func (apis g) kind of None \<Rightarrow> NoListCall | Some answer \<Rightarrow> answer))"

subsection \<open>The world and the handles\<close>

datatype incluster = InCluster | ConfigException | InClusterRaised str

record boot_world =
  bw_environ :: environ
  bw_float :: "str \<Rightarrow> py_exn + dbl"
  bw_incluster :: incluster
  bw_kubeconfig :: "str option"
  bw_apis :: "api_group \<Rightarrow> api_object"
  bw_now :: instant
  bw_tags :: reply
  bw_cpus :: nat
  bw_parse_dsn :: "str \<Rightarrow> dsn option"
  bw_raises :: "component \<Rightarrow> str option"

record started_watcher =
  sw_name :: str
  sw_list_method :: str
  sw_loop :: watcher

text \<open>
  The three watchers, of which \<open>_collector\<close> keeps the event watcher with its buffer; the handlers of the
  other two are wired to the cache and the graph.
\<close>

record collectors =
  cl_cluster_id :: str
  cl_events :: started_watcher
  cl_pods :: started_watcher
  cl_nodes :: started_watcher
  cl_buffer :: "event_record list"

text \<open>What the coordinator is given, next to the cache, the ledger and the event buffer it shares\<close>

record coordinator_parts =
  cp_rules :: "rule list"
  cp_llm :: bool
  cp_graph :: bool
  cp_config :: "kuberca_config option"

record api_app =
  aa_cluster_id :: str
  aa_llm :: bool
  aa_queue :: bool

record rest_server =
  rv_app :: api_app
  rv_host :: str
  rv_port :: int

record boot =
  bt_config :: "kuberca_config option"
  bt_log :: bool
  bt_k8s :: bool
  bt_cache :: "rcache option"
  bt_graph :: "graph option"
  bt_ledger :: "ledger option"
  bt_collector :: "collectors option"
  bt_rules :: "rule list option"
  bt_llm :: "analyzer option"
  bt_coordinator :: "coordinator_parts option"
  bt_queue :: "(rca_response work_queue \<times> queue_env) option"
  bt_scout :: "detector option"
  bt_notifications :: "dispatcher option"
  bt_mcp :: bool
  bt_rest :: "rest_server option"
  bt_tasks :: "str list"
  bt_running :: bool

definition boot_init :: boot where
  "boot_init =
     \<lparr>bt_config = None, bt_log = False, bt_k8s = False, bt_cache = None, bt_graph = None, bt_ledger = None,
      bt_collector = None, bt_rules = None, bt_llm = None, bt_coordinator = None, bt_queue = None,
      bt_scout = None, bt_notifications = None, bt_mcp = False, bt_rest = None, bt_tasks = [],
      bt_running = False\<rparr>"

text \<open>\<open>AssertionFailed\<close>: an \<open>assert\<close> on a handle that is still \<open>None\<close>, which \<open>main\<close> does not catch\<close>

datatype boot_failure = LoadFailed py_exn | AssertionFailed component | StartFailed component str

subsection \<open>The start methods\<close>

definition asserting :: "component \<Rightarrow> bool \<Rightarrow> boot_failure + boot \<Rightarrow> boot_failure + boot" where
  "asserting c P k = (if P then k else Inl (AssertionFailed c))"

definition asserted :: "component \<Rightarrow> 'a option \<Rightarrow> ('a \<Rightarrow> boot_failure + boot) \<Rightarrow> boot_failure + boot" where
  "asserted c x k = (case x of None \<Rightarrow> Inl (AssertionFailed c) | Some v \<Rightarrow> k v)"

definition mandatory :: "boot_world \<Rightarrow> component \<Rightarrow> boot_failure + boot \<Rightarrow> boot_failure + boot" where
  "mandatory w c k = (case bw_raises w c of Some e \<Rightarrow> Inl (StartFailed c e) | None \<Rightarrow> k)"

definition start_k8s_client :: "boot_world \<Rightarrow> boot \<Rightarrow> boot_failure + boot" where
  "start_k8s_client w b =
     asserting K8sClientC (bt_log b \<and> bt_config b \<noteq> None)
       (mandatory w K8sClientC
         (case bw_incluster w of
            InCluster \<Rightarrow> Inr (b\<lparr>bt_k8s := True\<rparr>)
          | ConfigException \<Rightarrow>
              (case bw_kubeconfig w of
                 None \<Rightarrow> Inr (b\<lparr>bt_k8s := True\<rparr>)
               | Some e \<Rightarrow> Inl (StartFailed K8sClientC e))
          | InClusterRaised e \<Rightarrow> Inl (StartFailed K8sClientC e)))"

definition start_cache :: "boot_world \<Rightarrow> boot \<Rightarrow> boot_failure + boot" where
  "start_cache w b =
     asserting CacheC (bt_log b \<and> bt_config b \<noteq> None)
       (mandatory w CacheC
         (Inr (b\<lparr>bt_cache := Some (cache_populate (bw_now w) (kind_outcome (bw_apis w)) [] cache_init)\<rparr>)))"

definition start_dependency_graph :: "boot_world \<Rightarrow> boot \<Rightarrow> boot_failure + boot" where
  "start_dependency_graph w b =
     asserting GraphC (bt_log b)
       (asserted GraphC (bt_cache b) (\<lambda>c.
         case bw_raises w GraphC of
           Some e \<Rightarrow> Inr (b\<lparr>bt_graph := None\<rparr>)
         | None \<Rightarrow> Inr (b\<lparr>bt_graph := Some (seed_graph (bw_now w) (rc_store c))\<rparr>)))"

definition boot_ledger :: "boot_world \<Rightarrow> boot \<Rightarrow> boot_failure + boot" where
  "boot_ledger w b =
     asserting LedgerC (bt_log b)
       (asserted LedgerC (bt_config b) (\<lambda>cfg.
         mandatory w LedgerC
           (case start_ledger (kc_change_ledger cfg) of
              Inl e \<Rightarrow> Inl (StartFailed LedgerC (exn_name e))
            | Inr l \<Rightarrow> Inr (b\<lparr>bt_ledger := Some l\<rparr>))))"

definition new_watcher :: "str \<Rightarrow> str \<Rightarrow> started_watcher" where
  "new_watcher name method = \<lparr>sw_name = name, sw_list_method = method, sw_loop = watcher_start watcher_init\<rparr>"

definition start_collector :: "boot_world \<Rightarrow> boot \<Rightarrow> boot_failure + boot" where
  "start_collector w b =
     asserting CollectorC (bt_log b \<and> bt_cache b \<noteq> None \<and> bt_ledger b \<noteq> None)
       (asserted CollectorC (bt_config b) (\<lambda>cfg.
         mandatory w CollectorC
           (Inr (b\<lparr>bt_collector := Some
              \<lparr>cl_cluster_id = kc_cluster_id cfg,
               cl_events = new_watcher ''event'' ''list_event_for_all_namespaces'',
               cl_pods = new_watcher ''pod'' ''list_pod_for_all_namespaces'',
               cl_nodes = new_watcher ''node'' ''list_node'', cl_buffer = []\<rparr>\<rparr>))))"

definition start_rule_engine :: "boot_world \<Rightarrow> boot \<Rightarrow> boot_failure + boot" where
  "start_rule_engine w b =
     asserting RuleEngineC (bt_log b \<and> bt_cache b \<noteq> None \<and> bt_ledger b \<noteq> None)
       (asserted RuleEngineC (bt_config b) (\<lambda>cfg.
         mandatory w RuleEngineC
           (Inr (b\<lparr>bt_rules := Some (kuberca_rules (re_tier2_enabled (kc_rule_engine cfg)))\<rparr>))))"

text \<open>The analyzer is kept when the health check answers, whatever it answers, and dropped when it raises.\<close>

definition ollama_of :: "kuberca_config \<Rightarrow> ollama_config" where
  "ollama_of cfg = \<lparr>oc_model = os_model (kc_ollama cfg), oc_max_retries = os_max_retries (kc_ollama cfg)\<rparr>"

definition llm_health :: "boot_world \<Rightarrow> kuberca_config \<Rightarrow> (str + bool) \<times> analyzer" where
  "llm_health w cfg = health_check (ollama_of cfg) (bw_tags w) \<lparr>la_available = False, la_requests = 0\<rparr>"

definition start_llm :: "boot_world \<Rightarrow> boot \<Rightarrow> boot_failure + boot" where
  "start_llm w b =
     asserting LlmC (bt_log b)
       (asserted LlmC (bt_config b) (\<lambda>cfg.
         if \<not> os_enabled (kc_ollama cfg) then Inr (b\<lparr>bt_llm := None\<rparr>)
         else case bw_raises w LlmC of
             Some e \<Rightarrow> Inr (b\<lparr>bt_llm := None\<rparr>)
           | None \<Rightarrow>
               (case llm_health w cfg of
                  (Inl e, st) \<Rightarrow> Inr (b\<lparr>bt_llm := None\<rparr>)
                | (Inr ok, st) \<Rightarrow> Inr (b\<lparr>bt_llm := Some st\<rparr>))))"

definition start_coordinator :: "boot_world \<Rightarrow> boot \<Rightarrow> boot_failure + boot" where
  "start_coordinator w b =
     asserting CoordinatorC (bt_log b \<and> bt_cache b \<noteq> None \<and> bt_ledger b \<noteq> None \<and> bt_collector b \<noteq> None)
       (asserted CoordinatorC (bt_rules b) (\<lambda>rules.
         mandatory w CoordinatorC
           (Inr (b\<lparr>bt_coordinator := Some
              \<lparr>cp_rules = rules, cp_llm = (bt_llm b \<noteq> None), cp_graph = (bt_graph b \<noteq> None),
               cp_config = bt_config b\<rparr>\<rparr>))))"

text \<open>
  The queue gets neither of the optional callbacks.  Its \<open>start\<close>, the background task, creates the workers.
\<close>

definition start_analysis_queue :: "boot_world \<Rightarrow> boot \<Rightarrow> boot_failure + boot" where
  "start_analysis_queue w b =
     asserting QueueC (bt_log b \<and> bt_coordinator b \<noteq> None)
       (mandatory w QueueC
         (Inr (b\<lparr>bt_tasks := bt_tasks b @ [''analysis-queue''],
            bt_queue := Some (wq_start (bw_cpus w), \<lparr>qe_readiness = None, qe_cpu = None\<rparr>)\<rparr>)))"

definition start_scout :: "boot_world \<Rightarrow> boot \<Rightarrow> boot_failure + boot" where
  "start_scout w b =
     asserting ScoutC (bt_log b)
       (asserted ScoutC (bt_config b) (\<lambda>cfg.
         mandatory w ScoutC
           (case detector_init (kc_anomaly_cooldown cfg) of
              Inl e \<Rightarrow> Inl (StartFailed ScoutC (exn_name e))
            | Inr d \<Rightarrow> Inr (b\<lparr>bt_scout := Some d\<rparr>))))"

definition start_notifications :: "boot_world \<Rightarrow> boot \<Rightarrow> boot_failure + boot" where
  "start_notifications w b =
     asserting NotificationsC (bt_log b \<and> bt_scout b \<noteq> None)
       (asserted NotificationsC (bt_config b) (\<lambda>cfg.
         case bw_raises w NotificationsC of
           Some e \<Rightarrow> Inr (b\<lparr>bt_notifications := None\<rparr>)
         | None \<Rightarrow> Inr (b\<lparr>bt_notifications := Some
             (build_notification_dispatcher (bw_parse_dsn w) (dget_or [] (bw_environ w)) (kc_notifications cfg))\<rparr>)))"

definition start_mcp :: "boot_world \<Rightarrow> boot \<Rightarrow> boot_failure + boot" where
  "start_mcp w b =
     asserting McpC (bt_log b \<and> bt_coordinator b \<noteq> None \<and> bt_cache b \<noteq> None)
       (case bw_raises w McpC of
          Some e \<Rightarrow> Inr (b\<lparr>bt_mcp := False\<rparr>)
        | None \<Rightarrow> Inr (b\<lparr>bt_tasks := bt_tasks b @ [''mcp-server''], bt_mcp := True\<rparr>))"

text \<open>\<open>create_app\<close>: the state the routes read; the coordinator and the cache are the shared ones.\<close>

definition create_app :: "bool \<Rightarrow> kuberca_config option \<Rightarrow> bool \<Rightarrow> api_app" where
  "create_app llm_analyzer config analysis_queue =
     \<lparr>aa_cluster_id = (case config of None \<Rightarrow> [] | Some cfg \<Rightarrow> kc_cluster_id cfg),
      aa_llm = llm_analyzer, aa_queue = analysis_queue\<rparr>"

definition start_rest :: "boot_world \<Rightarrow> boot \<Rightarrow> boot_failure + boot" where
  "start_rest w b =
     asserting RestC (bt_log b \<and> bt_coordinator b \<noteq> None \<and> bt_cache b \<noteq> None)
       (asserted RestC (bt_config b) (\<lambda>cfg.
         mandatory w RestC
           (Inr (b\<lparr>bt_tasks := bt_tasks b @ [''rest-server''],
              bt_rest := Some
                \<lparr>rv_app = create_app (bt_llm b \<noteq> None) (bt_config b) (bt_queue b \<noteq> None),
                 rv_host = ''0.0.0.0'', rv_port = kc_api_port cfg\<rparr>\<rparr>))))"

definition start_rate_gauge_updater :: "boot_world \<Rightarrow> boot \<Rightarrow> boot_failure + boot" where
  "start_rate_gauge_updater w b =
     asserting RateUpdaterC (bt_log b) (Inr (b\<lparr>bt_tasks := bt_tasks b @ [''rate-gauge-updater'']\<rparr>))"

fun boot_component :: "boot_world \<Rightarrow> component \<Rightarrow> boot \<Rightarrow> boot_failure + boot" where
  "boot_component w K8sClientC = start_k8s_client w"
| "boot_component w CacheC = start_cache w"
| "boot_component w GraphC = start_dependency_graph w"
| "boot_component w LedgerC = boot_ledger w"
| "boot_component w CollectorC = start_collector w"
| "boot_component w RuleEngineC = start_rule_engine w"
| "boot_component w LlmC = start_llm w"
| "boot_component w CoordinatorC = start_coordinator w"
| "boot_component w QueueC = start_analysis_queue w"
| "boot_component w ScoutC = start_scout w"
| "boot_component w NotificationsC = start_notifications w"
| "boot_component w McpC = start_mcp w"
| "boot_component w RestC = start_rest w"
| "boot_component w RateUpdaterC = start_rate_gauge_updater w"

fun boot_components :: "boot_world \<Rightarrow> component list \<Rightarrow> boot \<Rightarrow> boot_failure option \<times> boot" where
  "boot_components w [] b = (None, b)"
| "boot_components w (c # cs) b =
     (case boot_component w c b of
        Inl f \<Rightarrow> (Some f, b)
      | Inr b' \<Rightarrow> boot_components w cs b')"

definition boot_start :: "boot_world \<Rightarrow> boot \<Rightarrow> boot_failure option \<times> boot" where
  "boot_start w b =
     (case load_config (bw_float w) (bw_environ w) of
        Inl e \<Rightarrow> (Some (LoadFailed e), b)
      | Inr cfg \<Rightarrow>
          (case boot_components w START_ORDER (b\<lparr>bt_config := Some cfg, bt_log := True\<rparr>) of
             (Some f, b') \<Rightarrow> (Some f, b')
           | (None, b') \<Rightarrow> (None, b'\<lparr>bt_running := True\<rparr>)))"

subsection \<open>The start against its abstraction\<close>

fun present :: "boot \<Rightarrow> component \<Rightarrow> bool" where
  "present b K8sClientC \<longleftrightarrow> bt_k8s b"
| "present b CacheC \<longleftrightarrow> bt_cache b \<noteq> None"
| "present b GraphC \<longleftrightarrow> bt_graph b \<noteq> None"
| "present b LedgerC \<longleftrightarrow> bt_ledger b \<noteq> None"
| "present b CollectorC \<longleftrightarrow> bt_collector b \<noteq> None"
| "present b RuleEngineC \<longleftrightarrow> bt_rules b \<noteq> None"
| "present b LlmC \<longleftrightarrow> bt_llm b \<noteq> None"
| "present b CoordinatorC \<longleftrightarrow> bt_coordinator b \<noteq> None"
| "present b QueueC \<longleftrightarrow> bt_queue b \<noteq> None"
| "present b ScoutC \<longleftrightarrow> bt_scout b \<noteq> None"
| "present b NotificationsC \<longleftrightarrow> bt_notifications b \<noteq> None"
| "present b McpC \<longleftrightarrow> bt_mcp b"
| "present b RestC \<longleftrightarrow> bt_rest b \<noteq> None"
| "present b RateUpdaterC \<longleftrightarrow> ''rate-gauge-updater'' \<in> set (bt_tasks b)"

text \<open>The names of the watchers whose loop is running\<close>

definition running_watchers :: "boot \<Rightarrow> str list" where
  "running_watchers b =
     (case bt_collector b of
        None \<Rightarrow> []
      | Some cl \<Rightarrow> map sw_name (filter (\<lambda>w. wt_running (sw_loop w)) [cl_events cl, cl_pods cl, cl_nodes cl]))"

definition abs_boot :: "boot \<Rightarrow> app" where
  "abs_boot b =
     \<lparr>ap_config = bt_config b, ap_logging = bt_log b, ap_handles = filter (present b) START_ORDER,
      ap_tasks = bt_tasks b, ap_watchers = running_watchers b, ap_running = bt_running b\<rparr>"

fun abs_failure :: "boot_failure \<Rightarrow> boot_error option" where
  "abs_failure (LoadFailed e) = Some (ConfigError e)"
| "abs_failure (StartFailed c e) = Some (ComponentError c e)"
| "abs_failure (AssertionFailed c) = None"

text \<open>What makes the start of a component raise, apart from its own parameters\<close>

definition k8s_failure :: "boot_world \<Rightarrow> str option" where
  "k8s_failure w =
     (case bw_incluster w of InCluster \<Rightarrow> None | ConfigException \<Rightarrow> bw_kubeconfig w | InClusterRaised e \<Rightarrow> Some e)"

definition world_failure :: "boot_world \<Rightarrow> kuberca_config \<Rightarrow> component \<Rightarrow> str option" where
  "world_failure w cfg c =
     (if c = RateUpdaterC then None
      else case bw_raises w c of
          Some e \<Rightarrow> Some e
        | None \<Rightarrow>
            if c = K8sClientC then k8s_failure w
            else if c = LlmC then (case fst (llm_health w cfg) of Inl e \<Rightarrow> Some e | Inr ok \<Rightarrow> None)
            else None)"

definition lifecycle_env :: "boot_world \<Rightarrow> boot_env" where
  "lifecycle_env w =
     \<lparr>be_environ = bw_environ w, be_float = bw_float w,
      be_failure = (case load_config (bw_float w) (bw_environ w) of
          Inl e \<Rightarrow> (\<lambda>_. None) | Inr cfg \<Rightarrow> world_failure w cfg)\<rparr>"

text \<open>The handles each method asserts, and their place in the order of the start\<close>

fun asserts :: "component \<Rightarrow> component list" where
  "asserts GraphC = [CacheC]"
| "asserts CollectorC = [CacheC, LedgerC]"
| "asserts RuleEngineC = [CacheC, LedgerC]"
| "asserts CoordinatorC = [RuleEngineC, CacheC, LedgerC, CollectorC]"
| "asserts QueueC = [CoordinatorC]"
| "asserts NotificationsC = [ScoutC]"
| "asserts McpC = [CoordinatorC, CacheC]"
| "asserts RestC = [CoordinatorC, CacheC]"
| "asserts _ = []"

fun prefix_ok :: "component list \<Rightarrow> component list \<Rightarrow> bool" where
  "prefix_ok before [] \<longleftrightarrow> True"
| "prefix_ok before (c # cs) \<longleftrightarrow>
     list_all (\<lambda>d. d \<in> set before \<and> \<not> optional_component d) (asserts c) \<and> prefix_ok (before @ [c]) cs"

lemma start_order_prefix_ok: "prefix_ok [] START_ORDER"
  by (simp add: START_ORDER_def optional_component_def)

lemmas boot_steps = start_k8s_client_def start_cache_def start_dependency_graph_def boot_ledger_def
  start_collector_def start_rule_engine_def start_llm_def start_coordinator_def start_analysis_queue_def
  start_scout_def start_notifications_def start_mcp_def start_rest_def start_rate_gauge_updater_def

lemmas boot_guards = asserting_def asserted_def mandatory_def

lemma present_put:
  "present (b\<lparr>bt_k8s := True\<rparr>) d = (present b d \<or> d = K8sClientC)"
  "present (b\<lparr>bt_cache := Some c\<rparr>) d = (present b d \<or> d = CacheC)"
  "present (b\<lparr>bt_graph := Some g\<rparr>) d = (present b d \<or> d = GraphC)"
  "present (b\<lparr>bt_ledger := Some l\<rparr>) d = (present b d \<or> d = LedgerC)"
  "present (b\<lparr>bt_collector := Some cl\<rparr>) d = (present b d \<or> d = CollectorC)"
  "present (b\<lparr>bt_rules := Some rs\<rparr>) d = (present b d \<or> d = RuleEngineC)"
  "present (b\<lparr>bt_llm := Some la\<rparr>) d = (present b d \<or> d = LlmC)"
  "present (b\<lparr>bt_coordinator := Some cp\<rparr>) d = (present b d \<or> d = CoordinatorC)"
  "present (b\<lparr>bt_tasks := bt_tasks b @ [''analysis-queue''], bt_queue := Some q\<rparr>) d = (present b d \<or> d = QueueC)"
  "present (b\<lparr>bt_scout := Some dt\<rparr>) d = (present b d \<or> d = ScoutC)"
  "present (b\<lparr>bt_notifications := Some dp\<rparr>) d = (present b d \<or> d = NotificationsC)"
  "present (b\<lparr>bt_tasks := bt_tasks b @ [''mcp-server''], bt_mcp := True\<rparr>) d = (present b d \<or> d = McpC)"
  "present (b\<lparr>bt_tasks := bt_tasks b @ [''rest-server''], bt_rest := Some rv\<rparr>) d = (present b d \<or> d = RestC)"
  "present (b\<lparr>bt_tasks := bt_tasks b @ [''rate-gauge-updater'']\<rparr>) d = (present b d \<or> d = RateUpdaterC)"
  by (cases d; simp)+

lemma put_nothing:
  "bt_graph b = None \<Longrightarrow> b\<lparr>bt_graph := None\<rparr> = b"
  "bt_llm b = None \<Longrightarrow> b\<lparr>bt_llm := None\<rparr> = b"
  "bt_notifications b = None \<Longrightarrow> b\<lparr>bt_notifications := None\<rparr> = b"
  "\<not> bt_mcp b \<Longrightarrow> b\<lparr>bt_mcp := False\<rparr> = b"
  by simp_all

lemma running_watchers_put [simp]:
  "running_watchers (b\<lparr>bt_k8s := x1\<rparr>) = running_watchers b" "running_watchers (b\<lparr>bt_cache := x2\<rparr>) = running_watchers b"
  "running_watchers (b\<lparr>bt_graph := x3\<rparr>) = running_watchers b" "running_watchers (b\<lparr>bt_ledger := x4\<rparr>) = running_watchers b"
  "running_watchers (b\<lparr>bt_rules := x5\<rparr>) = running_watchers b" "running_watchers (b\<lparr>bt_llm := x6\<rparr>) = running_watchers b"
  "running_watchers (b\<lparr>bt_coordinator := x7\<rparr>) = running_watchers b" "running_watchers (b\<lparr>bt_queue := x8\<rparr>) = running_watchers b"
  "running_watchers (b\<lparr>bt_scout := x9\<rparr>) = running_watchers b" "running_watchers (b\<lparr>bt_notifications := x10\<rparr>) = running_watchers b"
  "running_watchers (b\<lparr>bt_mcp := x11\<rparr>) = running_watchers b" "running_watchers (b\<lparr>bt_rest := x12\<rparr>) = running_watchers b"
  "running_watchers (b\<lparr>bt_tasks := x13\<rparr>) = running_watchers b" "running_watchers (b\<lparr>bt_running := x14\<rparr>) = running_watchers b"
  "running_watchers (b\<lparr>bt_config := x15\<rparr>) = running_watchers b" "running_watchers (b\<lparr>bt_log := x16\<rparr>) = running_watchers b"
  "running_watchers boot_init = []"
  by (simp_all add: running_watchers_def boot_init_def)

lemma running_watchers_new:
  "running_watchers (b\<lparr>bt_collector := Some \<lparr>cl_cluster_id = cid, cl_events = new_watcher e m1,
     cl_pods = new_watcher p m2, cl_nodes = new_watcher n m3, cl_buffer = buf\<rparr>\<rparr>) = [e, p, n]"
  by (simp add: running_watchers_def new_watcher_def watcher_start_def)

lemmas outcome_defs = blocks_def comes_up_def component_failure_def world_failure_def optional_component_def
  k8s_failure_def

text \<open>One component: with its assertions met, it fails as the abstraction says, or comes up alone.\<close>

lemma boot_component_step:
  assumes "list_all (present b) (asserts c)" "bt_log b" "bt_config b = Some cfg" "\<not> present b c"
    and env: "be_failure env = world_failure w cfg"
  shows "case boot_component w c b of
      Inl x \<Rightarrow> blocks env cfg c \<and> x = StartFailed c (the (component_failure env cfg c))
    | Inr b' \<Rightarrow> \<not> blocks env cfg c \<and> bt_log b' \<and> bt_config b' = Some cfg \<and> bt_running b' = bt_running b
        \<and> bt_tasks b' = bt_tasks b @ (if comes_up env cfg c then task_of c else [])
        \<and> running_watchers b' = running_watchers b @ (if comes_up env cfg c then watchers_of c else [])
        \<and> (\<forall>d. present b' d = (present b d \<or> d = c \<and> comes_up env cfg c))"
proof (cases c)
  case K8sClientC
  then show ?thesis using assms
    by (auto simp: boot_steps boot_guards outcome_defs present_put split: option.splits incluster.splits)
next
  case LedgerC
  then show ?thesis using assms
    by (auto simp: boot_steps boot_guards outcome_defs present_put split: option.splits sum.splits)
next
  case ScoutC
  then show ?thesis using assms
    by (auto simp: boot_steps boot_guards outcome_defs present_put split: option.splits sum.splits)
next
  case LlmC
  then show ?thesis using assms
    by (auto simp: boot_steps boot_guards outcome_defs present_put put_nothing
        split: option.splits prod.splits sum.splits)
next
  case CollectorC
  then have "running_watchers b = []" using assms(4) by (simp add: running_watchers_def)
  then show ?thesis using assms CollectorC
    by (auto simp: boot_steps boot_guards outcome_defs present_put running_watchers_new split: option.splits)
qed (use assms in \<open>auto simp: boot_steps boot_guards outcome_defs present_put put_nothing split: option.splits\<close>)

text \<open>The components in turn: what is present are those that came up among the ones gone through.\<close>

lemma boot_components_refine:
  assumes "prefix_ok before cs" "distinct (before @ cs)" "bt_log b" "bt_config b = Some cfg"
    "be_failure env = world_failure w cfg"
    "list_all (\<lambda>c. \<not> blocks env cfg c) before"
    "\<forall>d. present b d = (d \<in> set before \<and> comes_up env cfg d)"
    "boot_components w cs b = (f, b')" "ap_handles app = filter (comes_up env cfg) before" "ap_tasks app = bt_tasks b"
    "ap_watchers app = running_watchers b"
  shows "\<exists>err app'. start_components env cfg cs app = (err, app')
    \<and> (case f of None \<Rightarrow> err = None | Some x \<Rightarrow> err \<noteq> None \<and> abs_failure x = err)
    \<and> bt_log b' \<and> bt_config b' = Some cfg \<and> bt_running b' = bt_running b
    \<and> ap_tasks app' = bt_tasks b' \<and> ap_watchers app' = running_watchers b' \<and> ap_config app' = ap_config app \<and> ap_logging app' = ap_logging app
    \<and> ap_running app' = ap_running app
    \<and> (\<exists>up. ap_handles app' = filter (comes_up env cfg) up \<and> up @ drop (length up) (before @ cs) = before @ cs
        \<and> (\<forall>d. present b' d = (d \<in> set up \<and> comes_up env cfg d)))"
  using assms
proof (induction cs arbitrary: before b app)
  case Nil
  then show ?case by (auto intro!: exI [of _ before])
next
  case (Cons c cs)
  have up: "comes_up env cfg d" if "\<not> optional_component d" "\<not> blocks env cfg d" for d
    using that by (auto simp: blocks_def comes_up_def optional_component_def)
  have "list_all (present b) (asserts c)"
    using Cons.prems(1,6,7) up by (auto simp: list_all_iff)
  moreover have "\<not> present b c" using Cons.prems(2,7) by auto
  ultimately have step: "case boot_component w c b of
      Inl x \<Rightarrow> blocks env cfg c \<and> x = StartFailed c (the (component_failure env cfg c))
    | Inr b1 \<Rightarrow> \<not> blocks env cfg c \<and> bt_log b1 \<and> bt_config b1 = Some cfg \<and> bt_running b1 = bt_running b
        \<and> bt_tasks b1 = bt_tasks b @ (if comes_up env cfg c then task_of c else [])
        \<and> running_watchers b1 = running_watchers b @ (if comes_up env cfg c then watchers_of c else [])
        \<and> (\<forall>d. present b1 d = (present b d \<or> d = c \<and> comes_up env cfg c))"
    using boot_component_step [of b c cfg env w] Cons.prems(3-5) by blast
  show ?case
  proof (cases "boot_component w c b")
    case (Inl x)
    then show ?thesis using step Cons.prems
      by (auto simp: start_component_cases intro!: exI [of _ before])
  next
    case (Inr b1)
    define app1 where "app1 = (if comes_up env cfg c
      then app\<lparr>ap_handles := ap_handles app @ [c], ap_tasks := ap_tasks app @ task_of c,
        ap_watchers := ap_watchers app @ watchers_of c\<rparr> else app)"
    from Inr step have nb: "\<not> blocks env cfg c" by simp
    then have start: "start_components env cfg (c # cs) app = start_components env cfg cs app1"
      by (simp add: start_component_cases app1_def)
    have app1: "ap_config app1 = ap_config app" "ap_logging app1 = ap_logging app" "ap_running app1 = ap_running app"
      "ap_handles app1 = filter (comes_up env cfg) (before @ [c])" "ap_tasks app1 = bt_tasks b1"
      "ap_watchers app1 = running_watchers b1"
      using Cons.prems(9-11) Inr step by (simp_all add: app1_def)
    have "boot_components w cs b1 = (f, b')" using Cons.prems(8) Inr by simp
    moreover have "\<forall>d. present b1 d = (d \<in> set (before @ [c]) \<and> comes_up env cfg d)"
      using Inr step Cons.prems(7) by auto
    moreover have "list_all (\<lambda>c. \<not> blocks env cfg c) (before @ [c])" using Cons.prems(6) nb by simp
    ultimately show ?thesis
      using Cons.IH [of "before @ [c]" b1 app1] Cons.prems(1,2,5) Inr step app1 unfolding start by simp
  qed
qed

lemma present_init: "\<not> present (boot_init\<lparr>bt_config := x, bt_log := y\<rparr>) d"
  by (cases d) (simp_all add: boot_init_def)

lemma present_running: "present (b\<lparr>bt_running := x\<rparr>) = present b"
proof
  show "present (b\<lparr>bt_running := x\<rparr>) d = present b d" for d by (cases d) simp_all
qed

lemma filter_prefix:
  "distinct xs \<Longrightarrow> up @ drop (length up) xs = xs \<Longrightarrow> filter (\<lambda>d. d \<in> set up \<and> P d) xs = filter P up"
proof -
  assume d: "distinct xs" and x: "up @ drop (length up) xs = xs"
  let ?r = "drop (length up) xs"
  have "distinct (up @ ?r)" using d x by simp
  then have "filter (\<lambda>d. d \<in> set up \<and> P d) ?r = []" by (auto simp: filter_empty_conv)
  moreover have "filter (\<lambda>d. d \<in> set up \<and> P d) up = filter P up" by (rule filter_cong) auto
  moreover have "filter Q xs = filter Q up @ filter Q ?r" for Q by (subst x [symmetric]) (rule filter_append)
  ultimately show ?thesis by simp
qed

lemma boot_refines:
  "case boot_start w boot_init of
     (f, b) \<Rightarrow> (case app_start (lifecycle_env w) app_init of
       (err, app) \<Rightarrow> (case f of None \<Rightarrow> err = None | Some x \<Rightarrow> err \<noteq> None \<and> abs_failure x = err)
         \<and> abs_boot b = app)"
proof (cases "load_config (bw_float w) (bw_environ w)")
  case (Inl e)
  have "filter (present boot_init) START_ORDER = []"
    by (simp add: filter_empty_conv START_ORDER_def boot_init_def)
  with Inl show ?thesis
    by (simp add: boot_start_def app_start_def lifecycle_env_def abs_boot_def app_init_def) (simp add: boot_init_def)
next
  case (Inr cfg)
  let ?env = "lifecycle_env w"
  let ?b = "boot_init\<lparr>bt_config := Some cfg, bt_log := True\<rparr>"
  let ?app = "app_init\<lparr>ap_config := Some cfg, ap_logging := True\<rparr>"
  obtain f b' where run: "boot_components w START_ORDER ?b = (f, b')" by fastforce
  have env: "be_failure ?env = world_failure w cfg" "load_config (be_float ?env) (be_environ ?env) = Inr cfg"
    using Inr by (simp_all add: lifecycle_env_def)
  have pre: "bt_log ?b" "bt_config ?b = Some cfg" "list_all (\<lambda>c. \<not> blocks ?env cfg c) []"
    "\<forall>d. present ?b d = (d \<in> set [] \<and> comes_up ?env cfg d)"
    "ap_handles ?app = filter (comes_up ?env cfg) []" "ap_tasks ?app = bt_tasks ?b" "distinct ([] @ START_ORDER)"
    "ap_watchers ?app = running_watchers ?b"
    using start_order_distinct by (simp_all add: present_init app_init_def) (simp add: boot_init_def)
  obtain err app' up where app: "start_components ?env cfg START_ORDER ?app = (err, app')"
      "case f of None \<Rightarrow> err = None | Some x \<Rightarrow> err \<noteq> None \<and> abs_failure x = err"
      "bt_log b'" "bt_config b' = Some cfg" "bt_running b' = bt_running ?b" "ap_tasks app' = bt_tasks b'" "ap_watchers app' = running_watchers b'"
      "ap_config app' = ap_config ?app" "ap_logging app' = ap_logging ?app" "ap_running app' = ap_running ?app"
      "ap_handles app' = filter (comes_up ?env cfg) up" "up @ drop (length up) START_ORDER = START_ORDER"
      "\<forall>d. present b' d = (d \<in> set up \<and> comes_up ?env cfg d)"
    using boot_components_refine [OF start_order_prefix_ok pre(7,1,2) env(1) pre(3,4) run pre(5,6,8)]
    unfolding append_Nil by blast
  have "filter (present b') START_ORDER = filter (comes_up ?env cfg) up"
  proof -
    have "present b' = (\<lambda>d. d \<in> set up \<and> comes_up ?env cfg d)" using app(13) by (intro ext) simp
    then show ?thesis using filter_prefix [OF start_order_distinct app(12)] by simp
  qed
  then have "abs_boot b' = app'"
    using app by (simp add: abs_boot_def app_init_def boot_init_def)
  moreover have "abs_boot (b'\<lparr>bt_running := True\<rparr>) = (abs_boot b')\<lparr>ap_running := True\<rparr>"
    by (simp add: abs_boot_def present_running)
  ultimately show ?thesis
    using Inr env(2) run app(1,2)
    by (auto simp: boot_start_def app_start_def mark_running_def split: option.splits)
qed

text \<open>
  C18: The start of the components with their states refines the start of the lifecycle: it fails exactly
  when and as that one fails, the components whose handles it holds, its background tasks and its running
  watchers are the same, and no assertion on a handle ever fails.
\<close>
theorem boot_refines_lifecycle:
  "case boot_start w boot_init of
     (f, b) \<Rightarrow> (case app_start (lifecycle_env w) app_init of
       (err, app) \<Rightarrow> (case f of None \<Rightarrow> err = None | Some x \<Rightarrow> err \<noteq> None \<and> abs_failure x = err)
         \<and> abs_boot b = app)"
  by (rule boot_refines)

subsection \<open>The state a start ends in\<close>

definition llm_handle :: "boot_world \<Rightarrow> kuberca_config \<Rightarrow> analyzer option" where
  "llm_handle w cfg =
     (if \<not> os_enabled (kc_ollama cfg) \<or> bw_raises w LlmC \<noteq> None then None
      else case llm_health w cfg of (Inl e, st) \<Rightarrow> None | (Inr ok, st) \<Rightarrow> Some st)"

definition booted :: "boot_world \<Rightarrow> kuberca_config \<Rightarrow> ledger \<Rightarrow> detector \<Rightarrow> boot" where
  "booted w cfg l d =
     (let c = cache_populate (bw_now w) (kind_outcome (bw_apis w)) [] cache_init;
          g = (if bw_raises w GraphC = None then Some (seed_graph (bw_now w) (rc_store c)) else None);
          rules = kuberca_rules (re_tier2_enabled (kc_rule_engine cfg));
          llm = llm_handle w cfg
      in \<lparr>bt_config = Some cfg, bt_log = True, bt_k8s = True, bt_cache = Some c, bt_graph = g, bt_ledger = Some l,
          bt_collector = Some \<lparr>cl_cluster_id = kc_cluster_id cfg,
             cl_events = new_watcher ''event'' ''list_event_for_all_namespaces'',
             cl_pods = new_watcher ''pod'' ''list_pod_for_all_namespaces'',
             cl_nodes = new_watcher ''node'' ''list_node'', cl_buffer = []\<rparr>,
          bt_rules = Some rules, bt_llm = llm,
          bt_coordinator = Some \<lparr>cp_rules = rules, cp_llm = (llm \<noteq> None), cp_graph = (g \<noteq> None),
             cp_config = Some cfg\<rparr>,
          bt_queue = Some (wq_start (bw_cpus w), \<lparr>qe_readiness = None, qe_cpu = None\<rparr>),
          bt_scout = Some d,
          bt_notifications = (if bw_raises w NotificationsC = None then Some
             (build_notification_dispatcher (bw_parse_dsn w) (dget_or [] (bw_environ w)) (kc_notifications cfg))
             else None),
          bt_mcp = (bw_raises w McpC = None),
          bt_rest = Some \<lparr>rv_app = create_app (llm \<noteq> None) (Some cfg) True, rv_host = ''0.0.0.0'',
             rv_port = kc_api_port cfg\<rparr>,
          bt_tasks = [''analysis-queue''] @ (if bw_raises w McpC = None then [''mcp-server''] else [])
             @ [''rest-server'', ''rate-gauge-updater''],
          bt_running = True\<rparr>)"

lemma boot_components_None:
  "boot_components w (c # cs) b = (None, b') \<longleftrightarrow>
     (\<exists>b1. boot_component w c b = Inr b1 \<and> boot_components w cs b1 = (None, b'))"
  by (auto split: sum.splits)

lemma start_inverts:
  "start_k8s_client w b = Inr b1 \<Longrightarrow> b1 = b\<lparr>bt_k8s := True\<rparr>"
  "start_cache w b = Inr b1 \<Longrightarrow>
     b1 = b\<lparr>bt_cache := Some (cache_populate (bw_now w) (kind_outcome (bw_apis w)) [] cache_init)\<rparr>"
  "start_dependency_graph w b = Inr b1 \<Longrightarrow> \<exists>c. bt_cache b = Some c
     \<and> b1 = b\<lparr>bt_graph := if bw_raises w GraphC = None then Some (seed_graph (bw_now w) (rc_store c)) else None\<rparr>"
  "boot_ledger w b = Inr b1 \<Longrightarrow> bt_config b = Some cfg \<Longrightarrow>
     \<exists>l. start_ledger (kc_change_ledger cfg) = Inr l \<and> b1 = b\<lparr>bt_ledger := Some l\<rparr>"
  "start_collector w b = Inr b1 \<Longrightarrow> bt_config b = Some cfg \<Longrightarrow>
     b1 = b\<lparr>bt_collector := Some \<lparr>cl_cluster_id = kc_cluster_id cfg,
       cl_events = new_watcher ''event'' ''list_event_for_all_namespaces'',
       cl_pods = new_watcher ''pod'' ''list_pod_for_all_namespaces'',
       cl_nodes = new_watcher ''node'' ''list_node'', cl_buffer = []\<rparr>\<rparr>"
  "start_rule_engine w b = Inr b1 \<Longrightarrow> bt_config b = Some cfg \<Longrightarrow>
     b1 = b\<lparr>bt_rules := Some (kuberca_rules (re_tier2_enabled (kc_rule_engine cfg)))\<rparr>"
  "start_coordinator w b = Inr b1 \<Longrightarrow> bt_rules b = Some rules \<Longrightarrow>
     b1 = b\<lparr>bt_coordinator := Some \<lparr>cp_rules = rules, cp_llm = (bt_llm b \<noteq> None), cp_graph = (bt_graph b \<noteq> None),
       cp_config = bt_config b\<rparr>\<rparr>"
  "start_analysis_queue w b = Inr b1 \<Longrightarrow>
     b1 = b\<lparr>bt_tasks := bt_tasks b @ [''analysis-queue''],
       bt_queue := Some (wq_start (bw_cpus w), \<lparr>qe_readiness = None, qe_cpu = None\<rparr>)\<rparr>"
  "start_rest w b = Inr b1 \<Longrightarrow> bt_config b = Some cfg \<Longrightarrow>
     b1 = b\<lparr>bt_tasks := bt_tasks b @ [''rest-server''],
       bt_rest := Some \<lparr>rv_app = create_app (bt_llm b \<noteq> None) (Some cfg) (bt_queue b \<noteq> None),
         rv_host = ''0.0.0.0'', rv_port = kc_api_port cfg\<rparr>\<rparr>"
  "start_rate_gauge_updater w b = Inr b1 \<Longrightarrow> b1 = b\<lparr>bt_tasks := bt_tasks b @ [''rate-gauge-updater'']\<rparr>"
  by (simp add: boot_steps boot_guards split: sum.splits option.splits if_splits incluster.splits; fail)+

lemma start_llm_inverts:
  "start_llm w b = Inr b1 \<Longrightarrow> bt_config b = Some cfg \<Longrightarrow> b1 = b\<lparr>bt_llm := llm_handle w cfg\<rparr>"
  by (auto simp: start_llm_def boot_guards llm_handle_def split: sum.splits option.splits if_splits prod.splits)

lemma start_scout_inverts:
  "start_scout w b = Inr b1 \<Longrightarrow> bt_config b = Some cfg \<Longrightarrow>
     \<exists>d. detector_init (kc_anomaly_cooldown cfg) = Inr d \<and> b1 = b\<lparr>bt_scout := Some d\<rparr>"
  by (simp add: start_scout_def boot_guards split: sum.splits option.splits if_splits)

lemma start_notifications_inverts:
  "start_notifications w b = Inr b1 \<Longrightarrow> bt_config b = Some cfg \<Longrightarrow>
     b1 = b\<lparr>bt_notifications := if bw_raises w NotificationsC = None then Some
       (build_notification_dispatcher (bw_parse_dsn w) (dget_or [] (bw_environ w)) (kc_notifications cfg)) else None\<rparr>"
  by (simp add: start_notifications_def boot_guards split: option.splits if_splits)

lemma start_mcp_inverts:
  "start_mcp w b = Inr b1 \<Longrightarrow>
     b1 = b\<lparr>bt_tasks := bt_tasks b @ (if bw_raises w McpC = None then [''mcp-server''] else []),
       bt_mcp := (bw_raises w McpC = None)\<rparr>"
  by (simp add: start_mcp_def boot_guards split: option.splits if_splits)

lemma boot_success:
  assumes "boot_start w boot_init = (None, b)"
  obtains cfg l d where "load_config (bw_float w) (bw_environ w) = Inr cfg"
    "start_ledger (kc_change_ledger cfg) = Inr l" "detector_init (kc_anomaly_cooldown cfg) = Inr d"
    "b = booted w cfg l d"
proof -
  from assms obtain cfg b' where cfg: "load_config (bw_float w) (bw_environ w) = Inr cfg"
    and run: "boot_components w START_ORDER (boot_init\<lparr>bt_config := Some cfg, bt_log := True\<rparr>) = (None, b')"
    and b: "b = b'\<lparr>bt_running := True\<rparr>"
    by (auto simp: boot_start_def split: sum.splits prod.splits option.splits)
  from run obtain b1 b2 b3 b4 b5 b6 b7 b8 b9 b10 b11 b12 b13 where s:
      "start_k8s_client w (boot_init\<lparr>bt_config := Some cfg, bt_log := True\<rparr>) = Inr b1"
      "start_cache w b1 = Inr b2" "start_dependency_graph w b2 = Inr b3" "boot_ledger w b3 = Inr b4"
      "start_collector w b4 = Inr b5" "start_rule_engine w b5 = Inr b6" "start_llm w b6 = Inr b7"
      "start_coordinator w b7 = Inr b8" "start_analysis_queue w b8 = Inr b9" "start_scout w b9 = Inr b10"
      "start_notifications w b10 = Inr b11" "start_mcp w b11 = Inr b12" "start_rest w b12 = Inr b13"
      "start_rate_gauge_updater w b13 = Inr b'"
    unfolding START_ORDER_def boot_components_None boot_component.simps boot_components.simps(1) by blast
  let ?c = "cache_populate (bw_now w) (kind_outcome (bw_apis w)) [] cache_init"
  note e1 = start_inverts(1) [OF s(1)] and e2 = start_inverts(2) [OF s(2)]
  have c2: "bt_config b2 = Some cfg" "bt_cache b2 = Some ?c" by (simp_all add: e1 e2)
  then have e3: "b3 = b2\<lparr>bt_graph := if bw_raises w GraphC = None then Some (seed_graph (bw_now w) (rc_store ?c)) else None\<rparr>"
    using start_inverts(3) [OF s(3)] by auto
  have c3: "bt_config b3 = Some cfg" by (simp add: e3 c2)
  obtain l where l: "start_ledger (kc_change_ledger cfg) = Inr l" and e4: "b4 = b3\<lparr>bt_ledger := Some l\<rparr>"
    using start_inverts(4) [OF s(4) c3] by blast
  have c4: "bt_config b4 = Some cfg" by (simp add: e4 c3)
  note e5 = start_inverts(5) [OF s(5) c4]
  have c5: "bt_config b5 = Some cfg" by (simp add: e5 c4)
  note e6 = start_inverts(6) [OF s(6) c5]
  have c6: "bt_config b6 = Some cfg" by (simp add: e6 c5)
  note e7 = start_llm_inverts [OF s(7) c6]
  have c7: "bt_config b7 = Some cfg" "bt_rules b7 = Some (kuberca_rules (re_tier2_enabled (kc_rule_engine cfg)))"
    by (simp_all add: e6 e7 c5)
  note e8 = start_inverts(7) [OF s(8) c7(2)] and e9 = start_inverts(8) [OF s(9)]
  have c9: "bt_config b9 = Some cfg" by (simp add: e8 e9 c7)
  obtain d where d: "detector_init (kc_anomaly_cooldown cfg) = Inr d" and e10: "b10 = b9\<lparr>bt_scout := Some d\<rparr>"
    using start_scout_inverts [OF s(10) c9] by blast
  have c10: "bt_config b10 = Some cfg" by (simp add: e10 c9)
  note e11 = start_notifications_inverts [OF s(11) c10] and e12 = start_mcp_inverts [OF s(12)]
  have c12: "bt_config b12 = Some cfg" by (simp add: e11 e12 c10)
  note e13 = start_inverts(9) [OF s(13) c12] and e14 = start_inverts(10) [OF s(14)]
  have "b = booted w cfg l d"
    unfolding b e14 e13 e12 e11 e10 e9 e8 e7 e6 e5 e4 e3 e2 e1 booted_def Let_def boot_init_def by simp
  with cfg l d show thesis by (rule that)
qed

subsection \<open>What the cache lists at start-up\<close>

text \<open>The tables agree: every kind of the default set has an API object and a list method.\<close>

lemma tables_cover_default_kinds:
  "list_all (\<lambda>kind. dget API_MAP kind \<noteq> None \<and> dget KIND_TO_METHOD kind \<noteq> None) default_kinds"
  by code_simp

lemma default_kind_resolved:
  "list_all (\<lambda>kind. \<exists>g method. dget API_MAP kind = Some g \<and> dget KIND_TO_METHOD kind = Some method
     \<and> kind_outcome apis kind = (case apis g method of None \<Rightarrow> NoListCall | Some answer \<Rightarrow> answer)) default_kinds"
  using tables_cover_default_kinds by (auto simp: list_all_iff kind_outcome_def get_list_func_def)

lemma startup_kinds_all: "take MAX_STARTUP_KINDS default_kinds = default_kinds" "length default_kinds = MAX_STARTUP_KINDS"
  by (simp_all add: default_kinds_def MAX_STARTUP_KINDS_def)

fun answered :: "list_outcome \<Rightarrow> bool" where
  "answered (list_outcome.Listed items rv continue) \<longleftrightarrow> True"
| "answered _ \<longleftrightarrow> False"

lemma recompute_keeps_kinds:
  "rc_all_kinds (recompute_readiness now c) = rc_all_kinds c"
  "rc_ready_kinds (recompute_readiness now c) = rc_ready_kinds c"
  using is_diverged_keeps [of now c]
  by (auto simp: recompute_readiness_def Let_def simp del: is_diverged_keeps split: prod.splits option.splits)

lemma list_kinds_ready:
  "rc_ready_kinds (fold (\<lambda>kind. list_kind now kind (api kind)) kinds c) =
     rc_ready_kinds c \<union> {kind \<in> set kinds. answered (api kind)}"
proof (induction kinds arbitrary: c)
  case (Cons k kinds)
  have "rc_ready_kinds (list_kind now k (api k) c) = rc_ready_kinds c \<union> {kind \<in> {k}. answered (api kind)}"
    by (auto simp: list_kind_def split: list_outcome.split)
  with Cons show ?case by auto
qed simp

lemma list_kinds_all:
  "rc_all_kinds (fold (\<lambda>kind. list_kind now kind (api kind)) kinds c) = rc_all_kinds c"
proof (induction kinds arbitrary: c)
  case (Cons k kinds)
  have "rc_all_kinds (list_kind now k (api k) c) = rc_all_kinds c"
    by (simp add: list_kind_def split: list_outcome.split)
  with Cons show ?case by simp
qed simp

lemma populate_kinds:
  "rc_all_kinds (cache_populate now api [] cache_init) = set default_kinds"
  "rc_ready_kinds (cache_populate now api [] cache_init) = {kind \<in> set default_kinds. answered (api kind)}"
  by (simp_all add: cache_populate_def startup_kinds_all Let_def recompute_keeps_kinds list_kinds_ready
      list_kinds_all) (simp add: cache_init_def)

text \<open>What an item of a list answer becomes in the cache; an item without a name is left out.\<close>

definition listed_key :: "list_item option \<Rightarrow> (str \<times> str) option" where
  "listed_key obj =
     (case obj of
        None \<Rightarrow> None
      | Some it \<Rightarrow>
          if the_default_str (li_name it) = [] then None
          else Some (the_default_str (li_namespace it), the_default_str (li_name it)))"

definition cached_item :: "instant \<Rightarrow> str \<Rightarrow> list_item \<Rightarrow> cached_resource" where
  "cached_item now kind it =
     \<lparr>cr_kind = kind, cr_namespace = the_default_str (li_namespace it), cr_name = the_default_str (li_name it),
      cr_resource_version = the_default_str (li_resource_version it),
      cr_labels = str_items (li_labels it), cr_annotations = str_items (li_annotations it),
      cr_spec = dict_or_empty (li_spec it), cr_status = dict_or_empty (li_status it), cr_last_updated = now\<rparr>"

definition last_listed :: "list_item option list \<Rightarrow> str \<Rightarrow> str \<Rightarrow> list_item option" where
  "last_listed items ns name =
     (let objs = filter (\<lambda>obj. listed_key obj = Some (ns, name)) items in if objs = [] then None else last objs)"

definition listed_resource :: "instant \<Rightarrow> str \<Rightarrow> list_outcome \<Rightarrow> str \<Rightarrow> str \<Rightarrow> cached_resource option" where
  "listed_resource now kind answer ns name =
     (case answer of
        list_outcome.Listed items rv continue \<Rightarrow> map_option (cached_item now kind) (last_listed items ns name)
      | _ \<Rightarrow> None)"

lemma listed_key_Some: "listed_key obj = Some key \<Longrightarrow> obj \<noteq> None"
  by (cases obj) (simp_all add: listed_key_def)

lemma last_listed_snoc:
  "last_listed (items @ [obj]) ns name = (if listed_key obj = Some (ns, name) then obj else last_listed items ns name)"
  by (simp add: last_listed_def Let_def)

lemma ingest_object_get:
  "store_get (ingest_object now kind obj st) k ns name =
     (if k = kind \<and> listed_key obj = Some (ns, name) then map_option (cached_item now kind) obj else store_get st k ns name)"
  by (auto simp: ingest_object_def listed_key_def store_put_get cached_item_def Let_def split: option.split)

lemma ingest_items_get:
  "store_get (fold (ingest_object now kind) items st) k ns name =
     (if k = kind \<and> last_listed items ns name \<noteq> None then map_option (cached_item now kind) (last_listed items ns name)
      else store_get st k ns name)"
proof (induction items rule: rev_induct)
  case Nil
  then show ?case by (simp add: last_listed_def)
next
  case (snoc obj items)
  then show ?case by (auto simp: ingest_object_get last_listed_snoc dest: listed_key_Some)
qed

lemma list_kind_get:
  "store_get (rc_store (list_kind now kind answer c)) k ns name =
     (if k = kind \<and> listed_resource now kind answer ns name \<noteq> None then listed_resource now kind answer ns name
      else store_get (rc_store c) k ns name)"
  by (auto simp: list_kind_def listed_resource_def ingest_items_get split: list_outcome.split)

lemma list_kinds_get:
  "distinct kinds \<Longrightarrow>
   store_get (rc_store (fold (\<lambda>kind. list_kind now kind (api kind)) kinds c)) k ns name =
     (if k \<in> set kinds \<and> listed_resource now k (api k) ns name \<noteq> None then listed_resource now k (api k) ns name
      else store_get (rc_store c) k ns name)"
proof (induction kinds arbitrary: c)
  case (Cons kind kinds)
  then show ?case by (auto simp: list_kind_get)
qed simp

lemma default_kinds_distinct: "distinct default_kinds"
  by code_simp

lemma recompute_keeps_store: "rc_store (recompute_readiness now c) = rc_store c"
  using is_diverged_keeps [of now c]
  by (auto simp: recompute_readiness_def Let_def simp del: is_diverged_keeps split: prod.splits option.splits)

lemma populate_get:
  "store_get (rc_store (cache_populate now api [] cache_init)) k ns name =
     (if k \<in> set default_kinds then listed_resource now k (api k) ns name else None)"
proof -
  have "store_get (rc_store (cache_init\<lparr>rc_all_kinds := x, rc_readiness := y\<rparr>)) k ns name = None" for x y
    by (simp add: cache_init_def store_get_def dget_or_def)
  then show ?thesis
    by (simp add: cache_populate_def startup_kinds_all Let_def recompute_keeps_store
        list_kinds_get [OF default_kinds_distinct])
qed


text \<open>A world in which everything is empty, and everything comes up but the language model\<close>

definition demo_world :: boot_world where
  "demo_world =
     \<lparr>bw_environ = [], bw_float = demo_float, bw_incluster = ConfigException, bw_kubeconfig = None,
      bw_apis = (\<lambda>_ _. Some (list_outcome.Listed [] None False)), bw_now = 0, bw_tags = Timeout [], bw_cpus = 2,
      bw_parse_dsn = (\<lambda>_. None), bw_raises = (\<lambda>_. None)\<rparr>"

lemma demo_world_boots: "\<exists>b. boot_start demo_world boot_init = (None, b)"
proof -
  obtain l where l: "start_ledger (kc_change_ledger default_config) = Inr l"
    by (simp add: start_ledger_def default_config_def app_retention_hours_def rstrip_units_def unit_char_def is_digit_def
        read_nat_def endswith_def days_def hours_def minutes_def seconds_def digit_val_def)
  obtain d where d: "detector_init (kc_anomaly_cooldown default_config) = Inr d"
  proof -
    have "parse_duration ''15m'' \<noteq> Inl e" for e by code_simp
    then obtain v where "parse_duration ''15m'' = Inr v" by (cases "parse_duration ''15m''") blast+
    then show thesis using that by (simp add: detector_init_def default_config_def)
  qed
  let ?env = "lifecycle_env demo_world"
  have cfg: "load_config (be_float ?env) (be_environ ?env) = Inr default_config"
    "be_failure ?env = world_failure demo_world default_config"
    using empty_environment_gives_defaults_witness by (simp_all add: lifecycle_env_def demo_world_def)
  have "world_failure demo_world default_config c = None" for c
    by (simp add: world_failure_def demo_world_def k8s_failure_def llm_health_def health_check_def)
  then have "component_failure ?env default_config c = None" for c
    using l d by (simp add: component_failure_def cfg(2))
  then have "fst (app_start ?env app_init) = None"
    by (simp add: app_start_def cfg(1) start_components_result blocks_def mark_running_def Let_def START_ORDER_def)
  then show ?thesis using boot_refines [of demo_world] by (auto split: prod.splits option.splits)
qed


subsection \<open>The stop\<close>

text \<open>
  \<open>stop\<close> on these handles: the \<open>stop\<close> calls made, whether an API client is closed, and the state left.  The
  handles stay, except that of the graph; only the watcher that is kept as the collector is stopped, and
  the queue clears \<open>_running\<close> at once.
\<close>

definition stop_watcher :: "started_watcher \<Rightarrow> started_watcher" where
  "stop_watcher w = w\<lparr>sw_loop := watcher_stop (sw_loop w)\<rparr>"

definition boot_stop_component :: "bool \<Rightarrow> boot \<Rightarrow> component \<Rightarrow> component list" where
  "boot_stop_component rest b c = (if present b c \<and> has_stop rest c then [c] else [])"

definition stop_k8s_client :: "boot \<Rightarrow> bool" where
  "stop_k8s_client b \<longleftrightarrow> bt_k8s b"

definition boot_stop :: "bool \<Rightarrow> boot \<Rightarrow> (component list \<times> bool) \<times> boot" where
  "boot_stop rest b =
     (if \<not> bt_running b \<and> \<not> bt_log b then (([], False), b)
      else ((concat (map (boot_stop_component rest b) STOP_ORDER), stop_k8s_client b),
        b\<lparr>bt_running := False, bt_tasks := [], bt_graph := None,
          bt_collector := map_option (\<lambda>cl. cl\<lparr>cl_events := stop_watcher (cl_events cl)\<rparr>) (bt_collector b),
          bt_queue := map_option (\<lambda>(q, env). (q\<lparr>wq_running := False\<rparr>, env)) (bt_queue b)\<rparr>))"

lemma stop_listed: "c \<in> set STOP_ORDER \<Longrightarrow> c \<in> set START_ORDER"
  by (auto simp: START_ORDER_def STOP_ORDER_def)

text \<open>
  The stop refines the one of the lifecycle on the components with a \<open>stop\<close> method; of the watchers that a
  start has set going, those of the pods and the nodes are still running after it.
\<close>
theorem pod_and_node_watchers_survive_stop:
  assumes "boot_start w boot_init = (None, b)" "boot_stop rest b = ((calls, closed), b')"
  shows "calls = fst (app_stop rest (abs_boot b)) \<and> closed \<and> \<not> bt_running b' \<and> bt_tasks b' = []
    \<and> running_watchers b' = ap_watchers (snd (app_stop rest (abs_boot b)))
    \<and> (\<exists>cl. bt_collector b' = Some cl \<and> \<not> wt_running (sw_loop (cl_events cl))
        \<and> wt_running (sw_loop (cl_pods cl)) \<and> wt_running (sw_loop (cl_nodes cl)))"
proof -
  from assms(1) obtain cfg l d where b: "b = booted w cfg l d" by (rule boot_success)
  have run: "bt_running b" "bt_k8s b" unfolding b by (simp_all add: booted_def Let_def)
  have abs: "ap_running (abs_boot b)" using run by (simp add: abs_boot_def)
  have "c \<in> set STOP_ORDER \<Longrightarrow> boot_stop_component rest b c = stop_component rest (abs_boot b) c" for c
    by (simp add: boot_stop_component_def stop_component_def abs_boot_def stop_listed)
  then have "map (boot_stop_component rest b) STOP_ORDER = map (stop_component rest (abs_boot b)) STOP_ORDER"
    by (intro map_cong refl)
  moreover have "fst (app_stop rest (abs_boot b)) = concat (map (stop_component rest (abs_boot b)) STOP_ORDER)"
    using abs by (simp add: app_stop_def)
  ultimately have "concat (map (boot_stop_component rest b) STOP_ORDER) = fst (app_stop rest (abs_boot b))"
    by (simp only:)
  moreover obtain cl where cl: "bt_collector b = Some cl" "wt_running (sw_loop (cl_events cl))"
    "wt_running (sw_loop (cl_pods cl))" "wt_running (sw_loop (cl_nodes cl))"
    "sw_name (cl_events cl) = ''event''" "sw_name (cl_pods cl) = ''pod''" "sw_name (cl_nodes cl) = ''node''"
    unfolding b by (simp add: booted_def Let_def new_watcher_def watcher_start_def)
  moreover have "CollectorC \<in> set (ap_handles (abs_boot b))" using cl(1) by (simp add: abs_boot_def START_ORDER_def)
  then have "ap_watchers (snd (app_stop rest (abs_boot b))) = [''pod'', ''node'']"
    using abs cl by (simp add: app_stop_def) (simp add: abs_boot_def running_watchers_def)
  ultimately show ?thesis
    using assms(2) run
    by (auto simp: boot_stop_def stop_k8s_client_def stop_watcher_def watcher_stop_def running_watchers_def)
qed

end
