(* ===== verification/Metrics.thy ===== *)
theory Metrics
  imports Models
begin

text \<open>
  \<open>kuberca/observability/metrics.py\<close>: the request counter by diagnosis, the three rate gauges computed
  from it, and the counter of rule matches.  A counter of prometheus_client is a dictionary from its
  label value to a count; counts are exact floats below \<open>2 ^ 53\<close>.  A gauge holds a float, here an integer
  number of units of \<open>2 ^ -200\<close>: a quotient of such counts is at least \<open>2 ^ -53\<close>, so the 53 significant
  bits of every value computed are whole units.
\<close>

type_synonym gauge = int

definition RATE_UNIT :: int where "RATE_UNIT = 2 ^ 200"

record metrics =
  mt_requests :: "(str, nat) dict"
  mt_rule_matches :: "(str, nat) dict"
  mt_hit_rate :: gauge
  mt_escalation_rate :: gauge
  mt_inconclusive_rate :: gauge

definition metrics_init :: metrics where
  "metrics_init = \<lparr>mt_requests = [], mt_rule_matches = [], mt_hit_rate = 0, mt_escalation_rate = 0,
     mt_inconclusive_rate = 0\<rparr>"

text \<open>\<open>counter.labels(...).inc()\<close>\<close>

definition counter_inc :: "str \<Rightarrow> (str, nat) dict \<Rightarrow> (str, nat) dict" where
  "counter_inc label c = dset label (Suc (dget_or 0 c label)) c"

definition count_request :: "str \<Rightarrow> metrics \<Rightarrow> metrics" where
  "count_request label m = m\<lparr>mt_requests := counter_inc label (mt_requests m)\<rparr>"

text \<open>\<open>n / total * 100.0\<close>\<close>

definition percentage :: "nat \<Rightarrow> nat \<Rightarrow> gauge" where
  "percentage n t = fl_quot (100 * fl_quot (int n * RATE_UNIT) (int t)) 1"

definition total_requests :: "(str, nat) dict \<Rightarrow> nat" where
  "total_requests counts = sum_list (map snd counts)"

definition compute_rolling_rates :: "metrics \<Rightarrow> metrics" where
  "compute_rolling_rates m =
     (let counts = filter (\<lambda>(label, n). label \<noteq> []) (mt_requests m);
          all = total_requests counts;
          rate = (\<lambda>label. if all = 0 then 0 else percentage (dget_or 0 counts label) all)
      in m\<lparr>mt_hit_rate := rate ''rule_engine'', mt_escalation_rate := rate ''llm'',
           mt_inconclusive_rate := rate ''inconclusive''\<rparr>)"

subsection \<open>The rates are percentages\<close>

lemma fl_quot_one: "0 < d \<Longrightarrow> fl_quot (d * RATE_UNIT) d = RATE_UNIT"
  using fl_quot_cancel [of d 1 RATE_UNIT]
  by (simp add: RATE_UNIT_def fl_quot_def bitlen.simps round_half_even_def)

lemma fl_quot_hundred: "fl_quot (100 * RATE_UNIT) 1 = 100 * RATE_UNIT"
  by (simp add: RATE_UNIT_def fl_quot_def bitlen.simps round_half_even_def)

lemma fl_quot_nonneg: "0 < d \<Longrightarrow> 0 \<le> n \<Longrightarrow> 0 \<le> fl_quot n d"
  by (cases "n = 0")
     (auto simp: fl_quot_def Let_def round_half_even_def pos_imp_zdiv_nonneg_iff intro!: mult_nonneg_nonneg)

lemma quotient_less:
  assumes "0 < d" "a < c * d"
  shows "a div d < (c :: int)"
proof (rule ccontr)
  assume "\<not> a div d < c"
  then have "c * d \<le> a div d * d" using assms(1) by simp
  also have "\<dots> \<le> a" using assms(1) by (metis div_mult_mod_eq le_add_same_cancel1 pos_mod_sign)
  finally show False using assms(2) by simp
qed

text \<open>The quotient of two counts, strictly below one.\<close>

lemma fraction_bounds:
  assumes "n < t" "t < 2 ^ 50"
  shows "\<bar>2 * (fl_quot (int n * RATE_UNIT) (int t) * int t - int n * RATE_UNIT)\<bar> \<le> int t * 2 ^ 147"
    "fl_quot (int n * RATE_UNIT) (int t) + 2 ^ 149 < RATE_UNIT"
proof -
  have t: "0 < int t" using assms(1) by simp
  have "int n * RATE_UNIT < RATE_UNIT * int t" using assms(1) by (simp add: RATE_UNIT_def)
  with t have "int n * RATE_UNIT div int t < 2 ^ 200" unfolding RATE_UNIT_def [symmetric] by (intro quotient_less)
  then show e: "\<bar>2 * (fl_quot (int n * RATE_UNIT) (int t) * int t - int n * RATE_UNIT)\<bar> \<le> int t * 2 ^ 147"
    using fl_quot_error [of "int t" "int n * RATE_UNIT" 200] t by (simp add: RATE_UNIT_def)
  define f where "f = fl_quot (int n * RATE_UNIT) (int t)"
  have f: "f * int t \<le> int n * RATE_UNIT + int t * 2 ^ 146" using e [folded f_def] by simp
  have n: "int n * RATE_UNIT \<le> int t * RATE_UNIT - RATE_UNIT"
  proof -
    have "int n * RATE_UNIT \<le> (int t - 1) * RATE_UNIT"
      using assms(1) by (intro mult_right_mono) (auto simp: RATE_UNIT_def)
    then show ?thesis by (simp add: left_diff_distrib)
  qed
  have "int t < 2 ^ 50" using assms(2) by (metis of_nat_less_iff of_nat_numeral of_nat_power)
  then have "int t * (9 * 2 ^ 146) < RATE_UNIT" by (simp add: RATE_UNIT_def)
  moreover have "(f + 2 ^ 149) * int t = f * int t + int t * (8 * 2 ^ 146)" by (simp add: distrib_right)
  ultimately have "(f + 2 ^ 149) * int t < RATE_UNIT * int t"
    using f n by (simp add: mult.commute)
  then show "fl_quot (int n * RATE_UNIT) (int t) + 2 ^ 149 < RATE_UNIT"
    using t by (simp add: f_def)
qed

text \<open>A percentage lies between 0 and 100, and within \<open>2 ^ -45\<close> of the exact one.\<close>

lemma percentage_bounds:
  assumes "n \<le> t" "0 < t" "t < 2 ^ 50"
  shows "0 \<le> percentage n t" "percentage n t \<le> 100 * RATE_UNIT"
    "\<bar>percentage n t * int t - 100 * int n * RATE_UNIT\<bar> \<le> int t * 2 ^ 155"
proof -
  define f where "f = fl_quot (int n * RATE_UNIT) (int t)"
  have f0: "0 \<le> f" using assms(2) by (simp add: f_def fl_quot_nonneg RATE_UNIT_def)
  then show "0 \<le> percentage n t" by (simp add: percentage_def f_def fl_quot_nonneg)
  have "percentage n t \<le> 100 * RATE_UNIT
    \<and> \<bar>percentage n t * int t - 100 * int n * RATE_UNIT\<bar> \<le> int t * 2 ^ 155"
  proof (cases "n = t")
    case True
    then have "f = RATE_UNIT" using assms(2) by (simp add: f_def fl_quot_one)
    then have "percentage n t = 100 * RATE_UNIT"
      by (simp add: percentage_def f_def [symmetric] fl_quot_hundred)
    then show ?thesis using True by simp
  next
    case False
    then have "n < t" using assms(1) by simp
    note b = fraction_bounds [OF this assms(3), folded f_def]
    have p: "\<bar>2 * (percentage n t - 100 * f)\<bar> \<le> 2 ^ 154"
      using fl_quot_error [of 1 "100 * f" 207] f0 b(2) unfolding percentage_def f_def [symmetric]
      by (simp add: RATE_UNIT_def)
    then have le: "percentage n t \<le> 100 * f + 2 ^ 153" by simp
    have "100 * f + 2 ^ 153 \<le> 100 * RATE_UNIT" using b(2) by simp
    with le have up: "percentage n t \<le> 100 * RATE_UNIT" by linarith
    have "\<bar>percentage n t - 100 * f\<bar> \<le> 2 ^ 153" using p by simp
    then have "\<bar>percentage n t - 100 * f\<bar> * int t \<le> 2 ^ 153 * int t" by (intro mult_right_mono) simp_all
    moreover have "\<bar>percentage n t - 100 * f\<bar> * int t = \<bar>percentage n t * int t - 100 * (f * int t)\<bar>"
    proof -
      have "\<bar>percentage n t - 100 * f\<bar> * int t = \<bar>(percentage n t - 100 * f) * int t\<bar>" by (simp add: abs_mult)
      then show ?thesis by (simp only: left_diff_distrib mult.assoc)
    qed
    ultimately have p2: "\<bar>percentage n t * int t - 100 * (f * int t)\<bar> \<le> 2 ^ 153 * int t" by simp
    have "\<bar>f * int t - int n * RATE_UNIT\<bar> \<le> int t * 2 ^ 146" using b(1) by simp
    with p2 have "\<bar>percentage n t * int t - 100 * (int n * RATE_UNIT)\<bar> \<le> int t * 2 ^ 155" by simp
    with up show ?thesis by (simp add: mult.assoc)
  qed
  then show "percentage n t \<le> 100 * RATE_UNIT"
    "\<bar>percentage n t * int t - 100 * int n * RATE_UNIT\<bar> \<le> int t * 2 ^ 155" by blast+
qed

lemma count_le_total: "dget_or 0 counts label \<le> total_requests counts"
  by (induction counts) (auto simp: dget_or_def total_requests_def)

lemma total_named: "total_requests (filter P counts) \<le> total_requests counts"
  by (induction counts) (auto simp: total_requests_def)

definition named_counts :: "metrics \<Rightarrow> (str, nat) dict" where
  "named_counts m = filter (\<lambda>(label, n). label \<noteq> []) (mt_requests m)"

definition is_percentage :: "gauge \<Rightarrow> nat \<Rightarrow> nat \<Rightarrow> bool" where
  "is_percentage r n t \<longleftrightarrow> 0 \<le> r \<and> r \<le> 100 * RATE_UNIT
     \<and> (if t = 0 then r = 0 else \<bar>r * int t - 100 * int n * RATE_UNIT\<bar> \<le> int t * 2 ^ 155)"

text \<open>
  The updater keeps the three coverage gauges percentages of the counted requests: for counters
  below \<open>2 ^ 50\<close> each gauge is set to a float between 0 and 100 that is within \<open>2 ^ -45\<close> of the exact
  percentage of its label, and to 0 while nothing has been counted.
\<close>
theorem rates_are_percentages:
  assumes "total_requests (mt_requests m) < 2 ^ 50"
  shows "is_percentage (mt_hit_rate (compute_rolling_rates m))
      (dget_or 0 (named_counts m) ''rule_engine'') (total_requests (named_counts m))
   \<and> is_percentage (mt_escalation_rate (compute_rolling_rates m))
      (dget_or 0 (named_counts m) ''llm'') (total_requests (named_counts m))
   \<and> is_percentage (mt_inconclusive_rate (compute_rolling_rates m))
      (dget_or 0 (named_counts m) ''inconclusive'') (total_requests (named_counts m))"
proof -
  let ?t = "total_requests (named_counts m)"
  have t: "?t < 2 ^ 50" using le_less_trans [OF total_named assms] by (simp add: named_counts_def)
  have "is_percentage (if ?t = 0 then 0 else percentage (dget_or 0 (named_counts m) label) ?t)
      (dget_or 0 (named_counts m) label) ?t" for label
  proof (cases "?t = 0")
    case False
    with percentage_bounds [OF count_le_total _ t, of label] show ?thesis unfolding is_percentage_def by simp
  qed (simp add: is_percentage_def RATE_UNIT_def)
  moreover have "mt_hit_rate (compute_rolling_rates m) =
      (if ?t = 0 then 0 else percentage (dget_or 0 (named_counts m) ''rule_engine'') ?t)"
    "mt_escalation_rate (compute_rolling_rates m) =
      (if ?t = 0 then 0 else percentage (dget_or 0 (named_counts m) ''llm'') ?t)"
    "mt_inconclusive_rate (compute_rolling_rates m) =
      (if ?t = 0 then 0 else percentage (dget_or 0 (named_counts m) ''inconclusive'') ?t)"
    by (simp_all add: compute_rolling_rates_def named_counts_def Let_def)
  ultimately show ?thesis by (simp only: simp_thms)
qed

theorem rates_are_percentages_witness:
  "is_percentage (mt_hit_rate (compute_rolling_rates (count_request ''llm'' metrics_init))) 0 1
   \<and> is_percentage (mt_escalation_rate (compute_rolling_rates (count_request ''llm'' metrics_init))) 1 1
   \<and> is_percentage (mt_inconclusive_rate (compute_rolling_rates (count_request ''llm'' metrics_init))) 0 1"
  using rates_are_percentages [of "count_request ''llm'' metrics_init"]
  by (simp add: count_request_def counter_inc_def metrics_init_def named_counts_def total_requests_def dget_or_def)

end
