(* ===== verification/Observability.thy ===== *)
theory Observability
  imports Config Metrics
begin

text \<open>
  \<open>kuberca/observability\<close>: the metrics that the module declares (\<open>metrics.py\<close>), and the level of the logger
  (\<open>logging.py\<close>).  The calls on the metrics throughout the program are left out, except for the counters that
  are read again (theory Metrics).  The names are those of the Prometheus exposition format.
\<close>

subsection \<open>The declarations (metrics.py)\<close>

text \<open>A bucket bound is the fraction \<open>(p, q)\<close> of its decimal literal.\<close>

datatype metric_type = CounterM | GaugeM | HistogramM

record metric_decl =
  md_var :: str
  md_type :: metric_type
  md_name :: str
  md_labels :: "str list"
  md_buckets :: "(int \<times> int) list"

definition counter_decl :: "str \<Rightarrow> str \<Rightarrow> str list \<Rightarrow> metric_decl" where
  "counter_decl var name labels =
     \<lparr>md_var = var, md_type = CounterM, md_name = name, md_labels = labels, md_buckets = []\<rparr>"

definition gauge_decl :: "str \<Rightarrow> str \<Rightarrow> str list \<Rightarrow> metric_decl" where
  "gauge_decl var name labels =
     \<lparr>md_var = var, md_type = GaugeM, md_name = name, md_labels = labels, md_buckets = []\<rparr>"

definition histogram_decl :: "str \<Rightarrow> str \<Rightarrow> str list \<Rightarrow> (int \<times> int) list \<Rightarrow> metric_decl" where
  "histogram_decl var name labels buckets =
     \<lparr>md_var = var, md_type = HistogramM, md_name = name, md_labels = labels, md_buckets = buckets\<rparr>"

definition EVENT_METRICS :: "metric_decl list" where
  "EVENT_METRICS =
     [counter_decl ''events_total'' ''kuberca_events_total'' [''source'', ''severity''],
      counter_decl ''rca_requests_total'' ''kuberca_rca_requests_total'' [''diagnosed_by''],
      histogram_decl ''rca_duration_seconds'' ''kuberca_rca_duration_seconds'' [''diagnosed_by'', ''rule_id'']
       [(1, 20), (1, 10), (1, 4), (1, 2), (1, 1), (5, 2), (5, 1), (10, 1), (30, 1)],
      counter_decl ''rule_matches_total'' ''kuberca_rule_matches_total'' [''rule_id'']]"

definition LLM_METRICS :: "metric_decl list" where
  "LLM_METRICS =
     [counter_decl ''llm_requests_total'' ''kuberca_llm_requests_total'' [''success'', ''retries''],
      gauge_decl ''llm_available'' ''kuberca_llm_available'' []]"

definition CACHE_METRICS :: "metric_decl list" where
  "CACHE_METRICS =
     [gauge_decl ''cache_resources'' ''kuberca_cache_resources'' [''kind''],
      gauge_decl ''cache_state'' ''kuberca_cache_state'' [''state''],
      gauge_decl ''cache_miss_rate'' ''kuberca_cache_miss_rate'' [],
      counter_decl ''cache_misses_total'' ''kuberca_cache_misses_total'' [],
      counter_decl ''cache_divergence_events_total'' ''kuberca_cache_divergence_events_total'' [''reason''],
      histogram_decl ''cache_relist_duration_seconds'' ''kuberca_cache_relist_duration_seconds'' []
       [(1, 1), (5, 2), (5, 1), (10, 1), (15, 1), (30, 1)],
      counter_decl ''cache_relist_timeout_total'' ''kuberca_cache_relist_timeout_total'' [],
      counter_decl ''cache_relist_fallback_total'' ''kuberca_cache_relist_fallback_total'' [],
      counter_decl ''cache_state_transitions_total'' ''kuberca_cache_state_transitions_total'' [''from_state'', ''to_state'']]"

definition LEDGER_METRICS :: "metric_decl list" where
  "LEDGER_METRICS =
     [counter_decl ''invariant_violations_total'' ''kuberca_invariant_violations_total'' [''invariant_name''],
      gauge_decl ''ledger_snapshots'' ''kuberca_ledger_snapshots'' [''kind''],
      gauge_decl ''ledger_memory_bytes'' ''kuberca_ledger_memory_bytes'' [],
      counter_decl ''ledger_trim_events_total'' ''kuberca_ledger_trim_events_total'' [],
      counter_decl ''ledger_memory_pressure_total'' ''kuberca_ledger_memory_pressure_total'' [],
      counter_decl ''sqlite_backpressure_total'' ''kuberca_sqlite_backpressure_total'' []]"

definition QUEUE_METRICS :: "metric_decl list" where
  "QUEUE_METRICS =
     [counter_decl ''notifications_total'' ''kuberca_notifications_total'' [''channel'', ''success''],
      gauge_decl ''analysis_queue_depth'' ''kuberca_analysis_queue_depth'' [],
      counter_decl ''analysis_dropped_total'' ''kuberca_analysis_dropped_total'' [''priority''],
      counter_decl ''analysis_rate_reduction_total'' ''kuberca_analysis_rate_reduction_total'' []]"

definition COVERAGE_METRICS :: "metric_decl list" where
  "COVERAGE_METRICS =
     [counter_decl ''llm_quality_check_failures_total'' ''kuberca_llm_quality_check_failures_total'' [''failure_type''],
      gauge_decl ''rule_engine_hit_rate'' ''kuberca_rule_engine_hit_rate'' [],
      gauge_decl ''llm_escalation_rate'' ''kuberca_llm_escalation_rate'' [],
      gauge_decl ''inconclusive_rate'' ''kuberca_inconclusive_rate'' [],
      counter_decl ''scheduler_unknown_pattern_total'' ''kuberca_scheduler_unknown_pattern_total'' [],
      counter_decl ''degraded_seconds_total'' ''kuberca_degraded_seconds_total'' []]"

definition WATCHER_METRICS :: "metric_decl list" where
  "WATCHER_METRICS =
     [counter_decl ''watcher_events_total'' ''kuberca_watcher_events_total'' [''watcher'', ''event_type''],
      counter_decl ''watcher_reconnects_total'' ''kuberca_watcher_reconnects_total'' [''watcher'', ''reason''],
      counter_decl ''watcher_relistings_total'' ''kuberca_watcher_relistings_total'' [''watcher''],
      counter_decl ''watcher_errors_total'' ''kuberca_watcher_errors_total'' [''watcher'', ''status_code''],
      histogram_decl ''watcher_backoff_seconds'' ''kuberca_watcher_backoff_seconds'' [''watcher'']
       [(1, 2), (1, 1), (2, 1), (5, 1), (10, 1), (30, 1), (60, 1)]]"

definition METRICS :: "metric_decl list" where
  "METRICS =
     EVENT_METRICS @ LLM_METRICS @ CACHE_METRICS @ LEDGER_METRICS @ QUEUE_METRICS @ COVERAGE_METRICS @ WATCHER_METRICS"

subsection \<open>The names\<close>

definition metric_char :: "char \<Rightarrow> bool" where
  "metric_char c \<longleftrightarrow> c \<in> set ''abcdefghijklmnopqrstuvwxyz_''"

definition well_named :: "metric_decl \<Rightarrow> bool" where
  "well_named m \<longleftrightarrow> md_name m \<noteq> [] \<and> list_all metric_char (md_name m) \<and> distinct (md_labels m)
     \<and> list_all (\<lambda>l. l \<noteq> [] \<and> hd l \<noteq> CHR ''_'' \<and> list_all metric_char l \<and> l \<noteq> ''le'') (md_labels m)"

definition bound_less :: "int \<times> int \<Rightarrow> int \<times> int \<Rightarrow> bool" where
  "bound_less x y \<longleftrightarrow> fst x * snd y < fst y * snd x"

definition bucketed :: "metric_decl \<Rightarrow> bool" where
  "bucketed m \<longleftrightarrow> (if md_type m = HistogramM then 2 \<le> length (md_buckets m) \<and> sorted_wrt bound_less (md_buckets m)
     else md_buckets m = [])"

text \<open>The names of the exposition format: a counter loses the ending \<open>_total\<close> from its base.\<close>

definition base_name :: "metric_decl \<Rightarrow> str" where
  "base_name m =
     (if md_type m = CounterM \<and> endswith (md_name m) ''_total''
      then take (length (md_name m) - 6) (md_name m) else md_name m)"

fun suffixes :: "metric_type \<Rightarrow> str list" where
  "suffixes CounterM = [[], ''_total'', ''_created'']"
| "suffixes GaugeM = [[]]"
| "suffixes HistogramM = [[], ''_bucket'', ''_sum'', ''_count'', ''_created'']"

definition exposed_names :: "metric_decl \<Rightarrow> str list" where
  "exposed_names m = map (\<lambda>s. base_name m @ s) (suffixes (md_type m))"

subsection \<open>The declarations do not clash\<close>

lemmas metric_groups = EVENT_METRICS_def LLM_METRICS_def CACHE_METRICS_def LEDGER_METRICS_def QUEUE_METRICS_def
  COVERAGE_METRICS_def WATCHER_METRICS_def

lemmas metric_kinds = counter_decl_def gauge_decl_def histogram_decl_def

lemma metrics_well_named: "list_all well_named METRICS"
  by code_simp

lemma metrics_bucketed: "list_all bucketed METRICS"
  by (simp add: METRICS_def metric_groups metric_kinds bucketed_def bound_less_def)

lemma bases_distinct: "distinct (map base_name METRICS)"
proof -
  have "distinct (map (drop 8) (map base_name METRICS))"
    by (simp add: METRICS_def metric_groups metric_kinds base_name_def endswith_def)
  then show ?thesis by (simp only: distinct_map)
qed

definition SUFFIXES :: "str list" where
  "SUFFIXES = [''_total'', ''_created'', ''_bucket'', ''_sum'', ''_count'']"

lemma bases_unsuffixed: "list_all (\<lambda>m. list_all (\<lambda>s. \<not> endswith (base_name m) s) SUFFIXES) METRICS"
  by (simp add: METRICS_def metric_groups metric_kinds base_name_def endswith_def SUFFIXES_def)

lemma suffix_cases: "s \<in> set (suffixes t) \<Longrightarrow> s = [] \<or> s \<in> set SUFFIXES"
  by (cases t) (auto simp: SUFFIXES_def)

lemma suffix_shape: "s \<in> set SUFFIXES \<Longrightarrow> \<exists>r. s = CHR ''_'' # r \<and> CHR ''_'' \<notin> set r"
  by (auto simp: SUFFIXES_def)

text \<open>A base with a suffix determines the base, as long as no base ends with a suffix.\<close>

lemma base_unique:
  assumes "b1 @ s = b2 @ t" "s = [] \<or> s \<in> set SUFFIXES" "t = [] \<or> t \<in> set SUFFIXES"
    "list_all (\<lambda>s. \<not> endswith b1 s) SUFFIXES" "list_all (\<lambda>s. \<not> endswith b2 s) SUFFIXES"
  shows "b1 = b2"
proof -
  have longer: "u = []" if h: "s = u @ t" "b2 = b1 @ u" "s = [] \<or> s \<in> set SUFFIXES" "t = [] \<or> t \<in> set SUFFIXES"
    "list_all (\<lambda>s. \<not> endswith b2 s) SUFFIXES" for u s t b1 b2
  proof (rule ccontr)
    assume u: "u \<noteq> []"
    then have s: "s \<in> set SUFFIXES" using h(1,3) by auto
    show False
    proof (cases "t = []")
      case True
      then have "endswith b2 s" using h(1,2) by (simp add: endswith_def)
      then show False using s h(5) by (simp add: list_all_iff)
    next
      case False
      then obtain r where t: "t = CHR ''_'' # r" using h(4) suffix_shape by blast
      obtain r' where "s = CHR ''_'' # r'" "CHR ''_'' \<notin> set r'" using suffix_shape [OF s] by blast
      with h(1) u t show False by (cases u) auto
    qed
  qed
  from assms(1) consider u where "b1 = b2 @ u" "u @ s = t" | u where "b1 @ u = b2" "s = u @ t"
    by (auto simp: append_eq_append_conv2)
  then show ?thesis
  proof cases
    case 1
    with longer [of t u s b1 b2] assms(2-4) show ?thesis by simp
  next
    case 2
    with longer [of s u t b2 b1] assms(2,3,5) show ?thesis by simp
  qed
qed

lemma exposed_disjoint:
  assumes "m \<in> set METRICS" "m' \<in> set METRICS" "base_name m \<noteq> base_name m'"
  shows "set (exposed_names m) \<inter> set (exposed_names m') = {}"
proof -
  have "list_all (\<lambda>s. \<not> endswith (base_name m) s) SUFFIXES" "list_all (\<lambda>s. \<not> endswith (base_name m') s) SUFFIXES"
    using bases_unsuffixed assms(1,2) by (simp_all add: list_all_iff)
  then show ?thesis
    using assms(3) base_unique [of "base_name m" _ "base_name m'"]
    by (auto simp: exposed_names_def dest!: suffix_cases)
qed

lemma exposed_distinct:
  assumes "set ms \<subseteq> set METRICS" "distinct (map base_name ms)"
  shows "distinct (concat (map exposed_names ms))"
  using assms
proof (induction ms)
  case (Cons m ms)
  have "set (exposed_names m) \<inter> set (exposed_names d) = {}" if "d \<in> set ms" for d
    using Cons.prems that by (intro exposed_disjoint) auto
  moreover have "distinct (exposed_names m)"
    by (cases "md_type m") (simp_all add: exposed_names_def)
  ultimately show ?case using Cons by auto
qed simp

text \<open>
  The declarations do not clash: each has a valid name, valid labels and increasing buckets, and no name of
  the exposition format belongs to two of them.
\<close>

lemma declarations_accepted:
  "list_all well_named METRICS \<and> list_all bucketed METRICS \<and> distinct (concat (map exposed_names METRICS))"
  using metrics_well_named metrics_bucketed exposed_distinct [OF _ bases_distinct] by simp

subsection \<open>The logger (logging.py)\<close>

text \<open>The levels of Python's \<open>logging\<close>, its upper-case attributes that are integers\<close>

definition LOGGING_LEVELS :: "(str, int) dict" where
  "LOGGING_LEVELS =
     [(''CRITICAL'', 50), (''FATAL'', 50), (''ERROR'', 40), (''WARNING'', 30), (''WARN'', 30), (''INFO'', 20),
      (''DEBUG'', 10), (''NOTSET'', 0)]"

text \<open>What \<open>setup_logging\<close> configures: the level below which the bound logger drops an event, the processors
  in their order, the keys they add, and the stream.\<close>

record logging_config =
  lg_level :: int
  lg_processors :: "str list"
  lg_timestamp_key :: str
  lg_stream :: str

definition setup_logging :: "str \<Rightarrow> logging_config" where
  "setup_logging level =
     \<lparr>lg_level = dget_or 20 LOGGING_LEVELS (upper level),
      lg_processors = [''merge_contextvars'', ''add_log_level'', ''StackInfoRenderer'', ''set_exc_info'',
        ''TimeStamper'', ''JSONRenderer''],
      lg_timestamp_key = ''ts'', lg_stream = ''stderr''\<rparr>"

definition emitted :: "logging_config \<Rightarrow> str \<Rightarrow> bool" where
  "emitted lg method \<longleftrightarrow> lg_level lg \<le> dget_or 0 LOGGING_LEVELS (upper method)"

definition get_logger :: "str \<Rightarrow> (str, str) dict" where
  "get_logger component = [(''component'', component)]"

lemma upper_levels:
  "upper ''debug'' = ''DEBUG''" "upper ''info'' = ''INFO''" "upper ''warning'' = ''WARNING''"
  "upper ''error'' = ''ERROR''" "upper ''critical'' = ''CRITICAL''"
  by code_simp+

lemma level_numbers:
  "dget_or n LOGGING_LEVELS (upper ''debug'') = 10" "dget_or n LOGGING_LEVELS (upper ''info'') = 20"
  "dget_or n LOGGING_LEVELS (upper ''warning'') = 30" "dget_or n LOGGING_LEVELS (upper ''error'') = 40"
  "dget_or n LOGGING_LEVELS (upper ''critical'') = 50"
  unfolding upper_levels by (simp_all add: LOGGING_LEVELS_def dget_or_def)

text \<open>
  A configuration that loads sets the logger to the level it names, and never falls back to another: of
  the methods \<open>debug\<close>, \<open>info\<close>, \<open>warning\<close>, \<open>error\<close> and \<open>critical\<close>, those from the configured one upwards
  are emitted and no others.
\<close>
theorem configured_level_is_used:
  assumes "load_config fl env = Inr cfg"
  shows "filter (emitted (setup_logging (kc_log_level cfg))) (LOG_LEVELS @ [''critical'']) =
    dropWhile (\<lambda>l. l \<noteq> kc_log_level cfg) (LOG_LEVELS @ [''critical''])"
proof -
  have "kc_log_level cfg \<in> set LOG_LEVELS" using load_config_ok [OF assms] by (simp add: config_ok_def)
  then consider "kc_log_level cfg = ''debug''" | "kc_log_level cfg = ''info''"
    | "kc_log_level cfg = ''warning''" | "kc_log_level cfg = ''error''"
    by (auto simp: LOG_LEVELS_def)
  then show ?thesis
    by cases (simp_all add: LOG_LEVELS_def emitted_def setup_logging_def level_numbers)
qed

theorem configured_level_is_used_witness:
  "filter (emitted (setup_logging (kc_log_level default_config))) (LOG_LEVELS @ [''critical'']) =
     [''info'', ''warning'', ''error'', ''critical'']"
  unfolding configured_level_is_used [OF empty_environment_gives_defaults_witness]
  by (simp add: LOG_LEVELS_def default_config_def)

end
