(* ===== verification/FloatText.thy ===== *)
theory FloatText
  imports JsonLoads PyFloat
begin

text \<open>
  \<open>float.__repr__\<close> and the reading of a float literal.  A float is a whole number of units of
  \<open>2 ^ -200\<close>, with 53 significant bits (\<open>is_float\<close>).  Python prints the shortest decimal that reads back as
  the same float; here the decimals with 1, 2, ... digits after the point are tried in turn.  A decimal with
  61 of them is always found, and the text reads back as the float it was written for.  The range is
  \<open>0 \<le> x < 10 ^ 16\<close>, where the text of a float has no positive exponent.
\<close>

definition FLOAT_UNIT :: int where
  "FLOAT_UNIT = 2 ^ 200"

text \<open>The float nearest to \<open>m / 10 ^ p\<close>\<close>

definition decimal :: "nat \<Rightarrow> nat \<Rightarrow> int" where
  "decimal m p = fl_quot (int m * FLOAT_UNIT) (10 ^ p)"

text \<open>The decimal with \<open>p\<close> digits nearest to \<open>x\<close>, and its neighbours, as \<open>m / 10 ^ p\<close>\<close>

definition near_decimals :: "int \<Rightarrow> nat \<Rightarrow> (nat \<times> nat) list" where
  "near_decimals x p = (let m = nat (round_half_even (x * 10 ^ p) FLOAT_UNIT) in [(m, p), (m + 1, p), (m - 1, p)])"

definition shortest :: "int \<Rightarrow> (nat \<times> nat) option" where
  "shortest x = find (\<lambda>(m, p). decimal m p = x) (concat (map (near_decimals x) [1..<62]))"

definition fixed_text :: "nat \<Rightarrow> nat \<Rightarrow> str" where
  "fixed_text m p = show_nat (m div 10 ^ p) @ CHR ''.'' # pad0 p (m mod 10 ^ p)"

definition exponent_text :: "nat \<Rightarrow> nat \<Rightarrow> str" where
  "exponent_text m p =
     (let ds = show_nat m in
      hd ds # (if tl ds = [] then [] else CHR ''.'' # tl ds) @ ''e-'' @ pad0 2 (p + 1 - length ds))"

definition float_repr :: "int \<Rightarrow> str" where
  "float_repr x =
     (case shortest x of
        None \<Rightarrow> []
      | Some (m, p) \<Rightarrow> if 0 < m \<and> m * 10 ^ 4 < 10 ^ p then exponent_text m p else fixed_text m p)"

subsection \<open>A decimal is always found\<close>

lemma round_half_even_unique:
  assumes "0 < d" "\<bar>2 * (n - y * d)\<bar> < d"
  shows "round_half_even n d = y"
proof (cases "y * d \<le> n")
  case True
  then have n: "n = d * y + (n - y * d)" "0 \<le> n - y * d" "n - y * d < d" using assms by (auto simp: algebra_simps)
  then have "n div d = y" "n mod d = n - y * d"
    by (metis assms(1) div_pos_pos_trivial mult.commute div_mult_self2 add.commute add.right_neutral less_irrefl
        , metis n(1) n(2) n(3) mod_mult_self2 mod_pos_pos_trivial add.commute)
  then show ?thesis using assms True by (simp add: round_half_even_def)
next
  case False
  then have "n = d * (y - 1) + (n - y * d + d)" "0 \<le> n - y * d + d" "n - y * d + d < d"
    using assms by (auto simp: algebra_simps)
  then have "n div d = y - 1" "n mod d = n - y * d + d" using int_div_pos_eq int_mod_pos_eq by blast+
  then show ?thesis using assms False by (simp add: round_half_even_def Let_def)
qed

lemma fl_quot_near:
  assumes "0 < d" "is_float x" "0 \<le> x" "0 \<le> n" "2 * \<bar>n - x * d\<bar> < d"
  shows "fl_quot n d = x"
proof -
  let ?k = "bitlen (nat (n div d)) - 53"
  have "z < d" if "2 * \<bar>z\<bar> < d" for z using that assms(1) by arith
  from this [OF assms(5)] have "n < (x + 1) * d" by (simp add: algebra_simps)
  then have "n div d < x + 1" using assms(1) by (intro int_div_less)
  then have "nat (n div d) \<le> nat x" by simp
  then have "?k \<le> bitlen (nat x) - 53" using bitlen_mono diff_le_mono by blast
  then have "2 ^ ?k dvd x"
    using assms(2,3) by (auto simp: is_float_def intro: dvd_trans le_imp_power_dvd)
  then obtain y where y: "x = 2 ^ ?k * y" by blast
  have "round_half_even n (d * 2 ^ ?k) = y"
  proof (rule round_half_even_unique)
    have "d * 1 \<le> d * 2 ^ ?k" using assms(1) by (intro mult_left_mono) auto
    moreover have "y * (d * 2 ^ ?k) = x * d" using arg_cong [OF y, of "\<lambda>z. z * d"] by (simp only: ac_simps)
    moreover have "\<bar>2 * z\<bar> < u" if "2 * \<bar>z\<bar> < d" "d * 1 \<le> u" for z u using that by arith
    ultimately show "\<bar>2 * (n - y * (d * 2 ^ ?k))\<bar> < d * 2 ^ ?k" using assms(5) by metis
  qed (use assms(1) in simp)
  moreover have "n = 0 \<Longrightarrow> x = 0"
  proof (rule ccontr)
    assume "n = 0" "x \<noteq> 0"
    then have "d * 1 \<le> d * x" using assms(1,3) by (intro mult_left_mono) auto
    with assms(5) \<open>n = 0\<close> assms(1,3) show False by (simp add: mult.commute)
  qed
  ultimately show ?thesis
    using y assms(4) by (cases "n = 0") (simp_all add: fl_quot_def Let_def mult.commute)
qed

lemma decimal_found:
  assumes "is_float x" "0 \<le> x"
  shows "decimal (nat (round_half_even (x * 10 ^ 61) FLOAT_UNIT)) 61 = x"
proof -
  let ?m = "round_half_even (x * 10 ^ 61) FLOAT_UNIT"
  have u: "0 < FLOAT_UNIT" "FLOAT_UNIT < 10 ^ 61" by (simp_all add: FLOAT_UNIT_def)
  have e: "\<bar>2 * (?m * FLOAT_UNIT - x * 10 ^ 61)\<bar> \<le> FLOAT_UNIT" by (rule round_half_even_bounds [OF u(1)])
  have "0 \<le> ?m"
  proof (rule ccontr)
    assume "\<not> 0 \<le> ?m"
    then have "?m * FLOAT_UNIT \<le> - 1 * FLOAT_UNIT" using u(1) by (intro mult_right_mono) auto
    moreover define q where "q = x * 10 ^ 61"
    moreover have "0 \<le> q" unfolding q_def using assms(2) by (intro mult_nonneg_nonneg zero_le_power) auto
    moreover have "False" if "z \<le> - 1 * FLOAT_UNIT" "\<bar>2 * (z - q)\<bar> \<le> FLOAT_UNIT" "0 \<le> q" for z
      using that u(1) by arith
    ultimately show False using e unfolding q_def [symmetric] by blast
  qed
  moreover have "fl_quot (?m * FLOAT_UNIT) (10 ^ 61) = x"
    using assms \<open>0 \<le> ?m\<close> e u by (intro fl_quot_near) (auto simp: abs_mult)
  ultimately show ?thesis by (simp add: decimal_def)
qed

lemma shortest_some:
  assumes "is_float x" "0 \<le> x"
  obtains m p where "shortest x = Some (m, p)" "decimal m p = x" "1 \<le> p" "p \<le> 61"
proof -
  let ?c = "concat (map (near_decimals x) [1..<62])"
  have "(nat (round_half_even (x * 10 ^ 61) FLOAT_UNIT), 61) \<in> set ?c"
    by (simp add: near_decimals_def Let_def) (rule bexI [of _ 61]; simp)
  with decimal_found [OF assms] have "find (\<lambda>(m, p). decimal m p = x) ?c \<noteq> None"
    by (auto simp: find_None_iff)
  then obtain m p where f: "find (\<lambda>(m, p). decimal m p = x) ?c = Some (m, p)" by auto
  then obtain i where "i < length ?c" "decimal m p = x" "(m, p) = ?c ! i"
    by (auto simp: find_Some_iff)
  moreover from this(1,3) have "(m, p) \<in> set ?c" using nth_mem by metis
  then have "1 \<le> p" "p \<le> 61" by (auto simp: near_decimals_def Let_def)
  ultimately show thesis using that f unfolding shortest_def by blast
qed


subsection \<open>Float literals\<close>

text \<open>\<open>(\.[0-9]+)?([eE][-+]?[0-9]+)?\<close>, after the integer digits\<close>

definition scan_fraction :: "str \<Rightarrow> str \<times> str" where
  "scan_fraction s =
     (case s of
        [] \<Rightarrow> ([], s)
      | c # cs \<Rightarrow> if c = CHR ''.'' \<and> digit_first cs then (takeWhile is_digit cs, dropWhile is_digit cs) else ([], s))"

definition scan_exponent :: "str \<Rightarrow> int \<times> str" where
  "scan_exponent s =
     (case s of
        [] \<Rightarrow> (0, s)
      | c # cs \<Rightarrow>
          if c \<noteq> CHR ''e'' \<and> c \<noteq> CHR ''E'' then (0, s)
          else if digit_first cs then (int (read_nat (takeWhile is_digit cs)), dropWhile is_digit cs)
          else
            (case cs of
               [] \<Rightarrow> (0, s)
             | d # ds \<Rightarrow>
                 if (d = CHR ''+'' \<or> d = CHR ''-'') \<and> digit_first ds
                 then ((if d = CHR ''-'' then -1 else 1) * int (read_nat (takeWhile is_digit ds)), dropWhile is_digit ds)
                 else (0, s)))"

definition float_value :: "str \<Rightarrow> str \<Rightarrow> int \<Rightarrow> int" where
  "float_value ds fs e =
     (let m = read_nat (ds @ fs); p = int (length fs) - e in
      if 0 \<le> p then decimal m (nat p) else decimal (m * 10 ^ nat (- p)) 0)"

definition scan_unsigned :: "str \<Rightarrow> int \<times> str" where
  "scan_unsigned t =
     (let ds = (if hd t = CHR ''0'' then [hd t] else takeWhile is_digit t);
          (fs, t1) = scan_fraction (drop (length ds) t);
          (e, t2) = scan_exponent t1
      in (float_value ds fs e, t2))"

definition scan_float :: "str \<Rightarrow> int scanned" where
  "scan_float s =
     (let neg = (prefix ''-'' s); t = (if neg then tl s else s) in
      if \<not> digit_first t then Inl NotRepresentable
      else case scan_unsigned t of (v, r) \<Rightarrow> Inr ((if neg then -1 else 1) * v, r))"

subsection \<open>Reading back what repr writes\<close>

lemma read_nat_append: "read_nat (s @ t) = read_nat s * 10 ^ length t + read_nat t"
proof (induction t rule: rev_induct)
  case (snoc c t)
  then show ?case by (simp add: read_nat_def)
qed (simp add: read_nat_def)

lemma read_zeros: "read_nat (replicate k (CHR ''0'') @ s) = read_nat s"
  by (induction k) (simp_all add: read_nat_def digit_val_def)

lemma read_pad0: "read_nat (pad0 w n) = n"
  by (simp add: pad0_def Let_def read_zeros read_show_nat)

lemma pad0_digits: "list_all is_digit (pad0 w n)"
proof -
  have "is_digit (CHR ''0'')" by (simp add: is_digit_def)
  then show ?thesis using show_nat_digits [of n] by (auto simp: pad0_def Let_def list_all_iff)
qed

lemma pad0_nonempty: "pad0 w n \<noteq> []"
  by (simp add: pad0_def Let_def)

lemma length_show_nat_le: "n < 10 ^ w \<Longrightarrow> 1 \<le> w \<Longrightarrow> length (show_nat n) \<le> w"
proof (induction w arbitrary: n)
  case (Suc w)
  show ?case
  proof (cases "n < 10")
    case False
    then have "n div 10 < 10 ^ w" "w \<noteq> 0" using Suc.prems by (auto intro: ccontr)
    then have "length (show_nat (n div 10)) \<le> w" using Suc.IH by simp
    then show ?thesis using False by (simp add: show_nat.simps [of n])
  qed (simp add: show_nat.simps [of n])
qed simp

lemma length_pad0: "n < 10 ^ w \<Longrightarrow> 1 \<le> w \<Longrightarrow> length (pad0 w n) = w"
  using length_show_nat_le [of n w] by (simp add: pad0_def Let_def)

lemma stops_not_exponent: "stops r \<Longrightarrow> scan_exponent r = (0, r)"
  by (cases r) (auto simp: stops_def scan_exponent_def json_space_def)

lemma takeWhile_digits:
  assumes "list_all is_digit ds" "r = [] \<or> \<not> is_digit (hd r)"
  shows "takeWhile is_digit (ds @ r) = ds" "dropWhile is_digit (ds @ r) = r"
proof -
  from assms(2) have "takeWhile is_digit r = []" "dropWhile is_digit r = r" by (cases r; auto)+
  with assms(1) show "takeWhile is_digit (ds @ r) = ds" "dropWhile is_digit (ds @ r) = r"
    by (simp_all add: list_all_iff takeWhile_append2 dropWhile_append2)
qed

text \<open>The digits of a number without leading zeros, before a point or an exponent\<close>

lemma scan_float_digits:
  assumes "rest = [] \<or> \<not> is_digit (hd rest)"
  shows "scan_float (show_nat n @ rest) =
    (let (fs, t1) = scan_fraction rest; (e, t2) = scan_exponent t1 in Inr (float_value (show_nat n) fs e, t2))"
proof -
  obtain c cs where c: "show_nat n = c # cs" "is_digit c" by (rule show_nat_Cons)
  have "list_all is_digit (show_nat n)" using show_nat_digits [of n] by (simp add: list_all_iff)
  note run = takeWhile_digits [OF this assms]
  have ds: "(if hd (show_nat n @ rest) = CHR ''0'' then [hd (show_nat n @ rest)]
      else takeWhile is_digit (show_nat n @ rest)) = show_nat n"
    using show_nat_zero_first [of n] c run by (auto simp: show_nat_zero)
  have "\<not> prefix ''-'' (show_nat n @ rest)" "digit_first (show_nat n @ rest)"
    using c by (auto simp: digit_first_def is_digit_def)
  moreover have "scan_unsigned (show_nat n @ rest) =
    (let (fs, t1) = scan_fraction rest; (e, t2) = scan_exponent t1 in (float_value (show_nat n) fs e, t2))"
    unfolding scan_unsigned_def ds by simp
  ultimately show ?thesis by (simp add: scan_float_def split: prod.split)
qed

lemma scan_fixed:
  assumes "stops r" "1 \<le> p"
  shows "scan_float (fixed_text m p @ r) = Inr (decimal m p, r)"
proof -
  let ?f = "pad0 p (m mod 10 ^ p)"
  have f: "length ?f = p" using assms(2) by (intro length_pad0) simp_all
  then have "read_nat (show_nat (m div 10 ^ p) @ ?f) = m"
    by (simp only: read_nat_append read_show_nat read_pad0 div_mult_mod_eq)
  moreover have "scan_fraction (CHR ''.'' # ?f @ r) = (?f, r)"
    using takeWhile_digits [OF pad0_digits stops_not_digit [OF assms(1)], of p "m mod 10 ^ p"]
      pad0_digits [of p "m mod 10 ^ p"] pad0_nonempty [of p "m mod 10 ^ p"]
    by (cases ?f) (auto simp: scan_fraction_def digit_first_def)
  ultimately show ?thesis
    using scan_float_digits [of "CHR ''.'' # ?f @ r" "m div 10 ^ p"] stops_not_exponent [OF assms(1)] f
    by (simp add: fixed_text_def float_value_def Let_def is_digit_def)
qed

lemma scan_minus_exponent:
  assumes "stops r"
  shows "scan_exponent (''e-'' @ pad0 2 k @ r) = (- int k, r)"
  using takeWhile_digits [OF pad0_digits stops_not_digit [OF assms], of 2 k] pad0_digits [of 2 k] pad0_nonempty [of 2 k]
    read_pad0 [of 2 k]
  by (cases "pad0 2 k") (auto simp: scan_exponent_def digit_first_def is_digit_def)

lemma digit_text:
  assumes "is_digit c"
  shows "show_nat (read_nat [c]) = [c]"
proof -
  have n: "48 \<le> (of_char c :: nat)" "(of_char c :: nat) \<le> 57" using assms by (auto simp: is_digit_def Let_def)
  then have "digit_val c < 10" "48 + digit_val c = of_char c" by (simp_all add: digit_val_def)
  then have "digit_val c < 10" "digit_char (digit_val c) = c" by (simp_all add: digit_char_def)
  then show ?thesis by (simp add: read_nat_def show_nat.simps [of "digit_val c"])
qed

lemma scan_exponent_text:
  assumes "stops r" "0 < m" "m < 10 ^ p"
  shows "scan_float (exponent_text m p @ r) = Inr (decimal m p, r)"
proof -
  obtain c cs where c: "show_nat m = c # cs" "is_digit c" by (rule show_nat_Cons)
  have "p \<noteq> 0" using assms(2,3) by (intro notI) simp
  then have len: "length cs < p" using length_show_nat_le [OF assms(3)] c by simp
  define k where "k = p + 1 - length (show_nat m)"
  have k: "int (length cs) + int k = int p" using len c by (simp add: k_def)
  have cs: "list_all is_digit cs" using show_nat_digits [of m] c by (simp add: list_all_iff)
  have m: "read_nat (c # cs) = m" using read_show_nat [of m] c by simp
  note one = digit_text [OF c(2)]
  show ?thesis
  proof (cases "cs = []")
    case True
    have "exponent_text m p @ r = show_nat m @ ''e-'' @ pad0 2 k @ r"
      using True c by (simp add: exponent_text_def Let_def k_def)
    then show ?thesis
      using scan_float_digits [of "''e-'' @ pad0 2 k @ r" m] scan_minus_exponent [OF assms(1), of k] k True c m
      by (simp add: scan_fraction_def float_value_def Let_def is_digit_def)
  next
    case False
    have "exponent_text m p @ r = show_nat (read_nat [c]) @ CHR ''.'' # cs @ ''e-'' @ pad0 2 k @ r"
      using False c by (simp add: exponent_text_def Let_def k_def one)
    moreover have "scan_fraction (CHR ''.'' # cs @ ''e-'' @ pad0 2 k @ r) = (cs, ''e-'' @ pad0 2 k @ r)"
      using takeWhile_digits [OF cs, of "''e-'' @ pad0 2 k @ r"] cs False
      by (cases cs) (auto simp: scan_fraction_def digit_first_def is_digit_def)
    ultimately show ?thesis
      using scan_float_digits [of "CHR ''.'' # cs @ ''e-'' @ pad0 2 k @ r" "read_nat [c]"]
        scan_minus_exponent [OF assms(1), of k] k m
      by (simp add: float_value_def Let_def is_digit_def one nat_int_add)
  qed
qed

lemma scan_float_repr:
  assumes "is_float x" "0 \<le> x" "stops r"
  shows "scan_float (float_repr x @ r) = Inr (x, r)"
proof -
  obtain m p where m: "shortest x = Some (m, p)" "decimal m p = x" "1 \<le> p" using shortest_some [OF assms(1,2)] by blast
  show ?thesis
  proof (cases "0 < m \<and> m * 10 ^ 4 < 10 ^ p")
    case True
    then have "m < 10 ^ p" by simp
    with True m scan_exponent_text [OF assms(3)] show ?thesis by (simp add: float_repr_def)
  next
    case False
    with m scan_fixed [OF assms(3)] show ?thesis by (auto simp: float_repr_def)
  qed
qed

end
