(* ===== verification/JsonDoc.thy ===== *)
theory JsonDoc
  imports FloatText
begin

text \<open>
  JSON documents with floats: what \<open>json.dumps\<close> writes with its default separators and with \<open>indent=2\<close>, and
  what \<open>json.loads\<close> reads.  The values of theory PyValue are the documents without floats (\<open>doc_of\<close>), and
  are written as theory Json writes them.
\<close>

datatype doc = JNull | JBool bool | JInt int | JFloat int | JStr str | JList "doc list" | JDict "(str \<times> doc) list"

fun doc_of :: "pyval \<Rightarrow> doc" where
  "doc_of PNone = JNull"
| "doc_of (PBool b) = JBool b"
| "doc_of (PInt n) = JInt n"
| "doc_of (PStr s) = JStr s"
| "doc_of (PList xs) = JList (map doc_of xs)"
| "doc_of (PDict d) = JDict (map (\<lambda>(k, v). (k, doc_of v)) d)"

text \<open>The break after an opening bracket at a depth, and what follows a comma\<close>

record layout =
  ly_open :: "nat \<Rightarrow> str"
  ly_sep :: "nat \<Rightarrow> str"

definition default_layout :: layout where
  "default_layout = \<lparr>ly_open = \<lambda>depth. [], ly_sep = \<lambda>depth. '' ''\<rparr>"

definition indented_layout :: layout where
  "indented_layout = \<lparr>ly_open = break_line, ly_sep = break_line\<rparr>"

fun doc_text :: "layout \<Rightarrow> nat \<Rightarrow> doc \<Rightarrow> str" where
  "doc_text L depth JNull = ''null''"
| "doc_text L depth (JBool b) = (if b then ''true'' else ''false'')"
| "doc_text L depth (JInt n) = show_int n"
| "doc_text L depth (JFloat x) = float_repr x"
| "doc_text L depth (JStr s) = json_text s"
| "doc_text L depth (JList xs) =
     (if xs = [] then ''[]''
      else CHR ''['' # ly_open L (Suc depth)
        @ join (CHR '','' # ly_sep L (Suc depth)) (map (doc_text L (Suc depth)) xs)
        @ ly_open L depth @ '']'')"
| "doc_text L depth (JDict d) =
     (if d = [] then ''{}''
      else CHR ''{'' # ly_open L (Suc depth)
        @ join (CHR '','' # ly_sep L (Suc depth))
            (map (\<lambda>(k, v). json_text k @ '': '' @ doc_text L (Suc depth) v) d)
        @ ly_open L depth @ ''}'')"

lemma doc_text_plain: "doc_text default_layout depth (doc_of v) = json_spaced v"
proof (induction v arbitrary: depth rule: pyval_induct)
  case (PList xs)
  then show ?case by (simp add: default_layout_def cong: map_cong)
next
  case (PDict d)
  have "map (\<lambda>(k, v). json_text k @ '': '' @ doc_text default_layout (Suc depth) v) (map (\<lambda>(k, v). (k, doc_of v)) d)
    = map (\<lambda>(k, v). json_text k @ '': '' @ json_spaced v) d"
    using PDict by auto
  then show ?case by (simp add: default_layout_def del: map_map)
qed simp_all

lemma doc_text_indented: "doc_text indented_layout depth (doc_of v) = json_indented depth v"
proof (induction v arbitrary: depth rule: pyval_induct)
  case (PList xs)
  then show ?case by (simp add: indented_layout_def cong: map_cong)
next
  case (PDict d)
  have "map (\<lambda>(k, v). json_text k @ '': '' @ doc_text indented_layout (Suc depth) v) (map (\<lambda>(k, v). (k, doc_of v)) d)
    = map (\<lambda>(k, v). json_text k @ '': '' @ json_indented (Suc depth) v) d"
    using PDict by auto
  then show ?case by (simp add: indented_layout_def del: map_map)
qed simp_all

subsection \<open>Reading\<close>

definition scan_doc_atom :: "str \<Rightarrow> doc scanned" where
  "scan_doc_atom s =
     (case scan_atom s of
        Inl NotRepresentable \<Rightarrow> scan_map JFloat (scan_float s)
      | r \<Rightarrow> scan_map doc_of r)"

fun doc_value :: "nat \<Rightarrow> str \<Rightarrow> doc scanned" where
  "doc_value 0 s = Inl OutOfFuel"
| "doc_value (Suc n) s =
     (case s of
        [] \<Rightarrow> Inl JSONDecodeError
      | c # cs \<Rightarrow>
          if c = dquote then
            scan_map JStr (scan_string cs)
          else if c = CHR ''{'' then
            (if prefix [CHR ''}''] (skip_ws cs) then Inr (JDict [], tl (skip_ws cs))
             else scan_map (\<lambda>ps. JDict (dict_of ps)) (json_members (doc_value n) n (skip_ws cs)))
          else if c = CHR ''['' then
            (if prefix [CHR '']''] (skip_ws cs) then Inr (JList [], tl (skip_ws cs))
             else scan_map JList (json_items (doc_value n) n (skip_ws cs)))
          else scan_doc_atom s)"

definition loads_doc :: "str \<Rightarrow> json_error + doc" where
  "loads_doc s =
     (case doc_value (Suc (length s)) (skip_ws s) of
        Inl e \<Rightarrow> Inl e
      | Inr (v, r) \<Rightarrow> if skip_ws r = [] then Inr v else Inl JSONDecodeError)"

subsection \<open>Reading back what dumps writes\<close>

text \<open>The documents of the range: at most 4300 digits in an integer, floats as in theory FloatText, distinct keys\<close>

fun doc_ok :: "doc \<Rightarrow> bool" where
  "doc_ok (JInt n) \<longleftrightarrow> length (show_nat (nat \<bar>n\<bar>)) \<le> 4300"
| "doc_ok (JFloat x) \<longleftrightarrow> is_float x \<and> 0 \<le> x \<and> x < 10 ^ 16 * FLOAT_UNIT"
| "doc_ok (JList xs) \<longleftrightarrow> list_all doc_ok xs"
| "doc_ok (JDict d) \<longleftrightarrow> dwf d \<and> list_all (\<lambda>(k, v). doc_ok v) d"
| "doc_ok _ \<longleftrightarrow> True"

definition layout_ok :: "layout \<Rightarrow> bool" where
  "layout_ok L \<longleftrightarrow> (\<forall>depth. list_all json_space (ly_open L depth) \<and> list_all json_space (ly_sep L depth))"

lemma layouts_ok: "layout_ok default_layout" "layout_ok indented_layout"
  by (simp_all add: layout_ok_def default_layout_def indented_layout_def break_line_def json_space_def list_all_iff)

lemma doc_of_ok: "vwf v \<Longrightarrow> ints_ok v \<Longrightarrow> doc_ok (doc_of v)"
proof (induction v rule: pyval_induct)
  case (PDict d)
  then show ?case by (fastforce simp: list_all_iff dwf_def comp_def case_prod_beta)
qed (auto simp: list_all_iff)

text \<open>The first character of a float is a digit, and what follows its integer digits is no integer.\<close>

lemma float_repr_shape:
  assumes "is_float x" "0 \<le> x"
  obtains n rest where "float_repr x = show_nat n @ rest" "float_follows (rest @ r)" "\<not> is_digit (hd rest)" "rest \<noteq> []"
proof -
  obtain m p where m: "shortest x = Some (m, p)" "decimal m p = x" "1 \<le> p" using shortest_some [OF assms] by blast
  have pad: "\<exists>c cs. pad0 w k = c # cs \<and> is_digit c" for w k
    using pad0_digits [of w k] pad0_nonempty [of w k] by (cases "pad0 w k") auto
  show thesis
  proof (cases "0 < m \<and> m * 10 ^ 4 < 10 ^ p")
    case False
    then have "float_repr x = show_nat (m div 10 ^ p) @ CHR ''.'' # pad0 p (m mod 10 ^ p)"
      using m by (auto simp: float_repr_def fixed_text_def)
    then show thesis
      using pad [of p "m mod 10 ^ p"] by (intro that) (auto simp: float_follows_def digit_first_def is_digit_def)
  next
    case True
    obtain c cs where c: "show_nat m = c # cs" "is_digit c" by (rule show_nat_Cons)
    define t where "t = ''e-'' @ pad0 2 (p + 1 - length (show_nat m))"
    define rest where "rest = (if cs = [] then [] else CHR ''.'' # cs) @ t"
    have shape: "float_repr x = show_nat (read_nat [c]) @ rest"
      using True m c digit_text [OF c(2)] by (simp add: float_repr_def exponent_text_def t_def rest_def Let_def)
    have "list_all is_digit cs" using show_nat_digits [of m] c by (simp add: list_all_iff)
    then have "float_follows (rest @ r)"
      using pad [of 2 "p + 1 - length (show_nat m)"]
      by (cases cs) (auto simp: rest_def t_def float_follows_def digit_first_def is_digit_def)
    moreover have "\<not> is_digit (hd rest)" "rest \<noteq> []"
      by (cases cs; simp add: rest_def t_def is_digit_def)+
    ultimately show thesis using that shape by blast
  qed
qed

lemma scan_atom_float:
  assumes "is_float x" "0 \<le> x"
  shows "scan_atom (float_repr x @ r) = Inl NotRepresentable"
proof -
  obtain n rest where f: "float_repr x = show_nat n @ rest" "float_follows (rest @ r)" "\<not> is_digit (hd rest)" "rest \<noteq> []"
    using float_repr_shape [OF assms] by metis
  obtain c cs where c: "show_nat n = c # cs" "is_digit c" by (rule show_nat_Cons)
  have "list_all is_digit (show_nat n)" using show_nat_digits [of n] by (simp add: list_all_iff)
  then have run: "takeWhile is_digit (show_nat n @ rest @ r) = show_nat n" using f(3,4) by (intro takeWhile_digits) simp_all
  have ds: "(if hd (show_nat n @ rest @ r) = CHR ''0'' then [hd (show_nat n @ rest @ r)]
      else takeWhile is_digit (show_nat n @ rest @ r)) = show_nat n"
    using show_nat_zero_first [of n] c run by (auto simp: show_nat_zero)
  have "digit_first (show_nat n @ rest @ r)" using c by (simp add: digit_first_def)
  then have "scan_digits False (show_nat n @ rest @ r) = Inl NotRepresentable"
    unfolding scan_digits_def Let_def ds using f(2) by simp
  then show ?thesis
    using digit_not_letter [OF c(2)] by (auto simp add: scan_atom_def scan_number_def f(1) c(1))
qed

lemma scan_doc_float:
  assumes "is_float x" "0 \<le> x" "stops r"
  shows "scan_doc_atom (float_repr x @ r) = Inr (JFloat x, r)"
  using scan_atom_float [OF assms(1,2)] scan_float_repr [OF assms] by (simp add: scan_doc_atom_def)

lemma opens_float:
  assumes "is_float x" "0 \<le> x"
  shows "opens (float_repr x)"
proof -
  obtain n rest where f: "float_repr x = show_nat n @ rest" using float_repr_shape [OF assms] by metis
  obtain c cs where c: "show_nat n = c # cs" "is_digit c" by (rule show_nat_Cons)
  show ?thesis using digit_not_letter [OF c(2)] by (simp add: f c(1))
qed

lemma opens_doc: "doc_ok v \<Longrightarrow> opens (doc_text L depth v)"
  by (cases v) (simp_all add: opens_show_int opens_float json_text_def json_space_def dquote_def)


lemma doc_induct [case_names JNull JBool JInt JFloat JStr JList JDict]:
  assumes "P JNull" "\<And>b. P (JBool b)" "\<And>n. P (JInt n)" "\<And>x. P (JFloat x)" "\<And>s. P (JStr s)"
    "\<And>xs. (\<And>x. x \<in> set xs \<Longrightarrow> P x) \<Longrightarrow> P (JList xs)"
    "\<And>d. (\<And>k v. (k, v) \<in> set d \<Longrightarrow> P v) \<Longrightarrow> P (JDict d)"
  shows "P v"
proof (induction v)
  case (JDict d)
  then show ?case using assms(7) by (metis fsts.intros prod.collapse snds.intros snd_conv)
qed (use assms in auto)

lemma show_int_Cons:
  obtains c cs where "show_int i = c # cs" "c \<noteq> dquote" "c \<noteq> CHR ''{''" "c \<noteq> CHR ''[''"
proof -
  obtain c cs where "show_nat (nat i) = c # cs" "is_digit c" by (rule show_nat_Cons)
  with digit_not_letter [OF this(2)] show thesis
    by (intro that [of "hd (show_int i)" "tl (show_int i)"]) (auto simp: show_int_def dquote_def)
qed

lemma float_repr_Cons:
  assumes "is_float x" "0 \<le> x"
  obtains c cs where "float_repr x = c # cs" "c \<noteq> dquote" "c \<noteq> CHR ''{''" "c \<noteq> CHR ''[''"
proof -
  obtain n rest where f: "float_repr x = show_nat n @ rest" using float_repr_shape [OF assms] by metis
  obtain c cs where c: "show_nat n = c # cs" "is_digit c" by (rule show_nat_Cons)
  show thesis using digit_not_letter [OF c(2)] by (intro that [of c "cs @ rest"]) (auto simp: f c(1))
qed

text \<open>A bracket, a break, elements separated by commas and breaks, a break, and the closing bracket\<close>

lemma skip_to_elements:
  assumes "list_all json_space ws" "opens s"
  shows "skip_ws (ws @ s) = s" "\<not> prefix [CHR '']''] s" "\<not> prefix [CHR ''}''] s"
  using assms by (auto simp: skip_ws_append opens_def prefix_def)

lemma doc_value_list:
  assumes "xs \<noteq> []" "layout_ok L" "list_all doc_ok xs" "length (doc_text L depth (JList xs)) \<le> n"
    and "\<And>x t. x \<in> set xs \<Longrightarrow> stops t \<Longrightarrow> length (doc_text L (Suc depth) x) < n
      \<Longrightarrow> doc_value n (doc_text L (Suc depth) x @ t) = Inr (x, t)"
  shows "doc_value (Suc n) (doc_text L depth (JList xs) @ r) = Inr (JList xs, r)"
proof -
  let ?f = "doc_text L (Suc depth)" and ?ws = "ly_sep L (Suc depth)"
  let ?s = "join (CHR '','' # ?ws) (map ?f xs)"
  have len: "length ?s < n" using assms(1,4) by simp
  have first: "opens (?f x)" if "x \<in> set xs" for x using that assms(3) opens_doc by (simp add: list_all_iff)
  then have "?f x \<noteq> []" if "x \<in> set xs" for x using that unfolding opens_def by blast
  then have "length (map ?f xs) \<le> length ?s" by (intro length_join_ge) auto
  moreover have "length (?f x) \<le> length ?s" if "x \<in> set xs" for x
    by (rule length_join_mem) (use that in simp)
  ultimately have items: "json_items (doc_value n) n (?s @ ly_open L depth @ CHR '']'' # r) = Inr (xs, r)"
    using assms(1,2,3) len assms(5) opens_doc
    by (intro json_items_join) (fastforce simp: layout_ok_def list_all_iff)+
  have "opens (?s @ ly_open L depth @ CHR '']'' # r)"
    using assms(1,3) opens_doc by (intro opens_join) (auto simp: list_all_iff)
  note skip = skip_to_elements [OF _ this, of "ly_open L (Suc depth)"]
  show ?thesis using items skip assms(1,2) by (simp add: layout_ok_def dquote_def)
qed

lemma doc_value_dict:
  assumes "d \<noteq> []" "layout_ok L" "dwf d" "list_all (\<lambda>(k, v). doc_ok v) d" "length (doc_text L depth (JDict d)) \<le> n"
    and "\<And>k v t. (k, v) \<in> set d \<Longrightarrow> stops t \<Longrightarrow> length (doc_text L (Suc depth) v) < n
      \<Longrightarrow> doc_value n (doc_text L (Suc depth) v @ t) = Inr (v, t)"
  shows "doc_value (Suc n) (doc_text L depth (JDict d) @ r) = Inr (JDict d, r)"
proof -
  let ?f = "member_with (doc_text L (Suc depth))" and ?ws = "ly_sep L (Suc depth)"
  let ?s = "join (CHR '','' # ?ws) (map ?f d)"
  have f: "(\<lambda>(k, v). json_text k @ '': '' @ doc_text L (Suc depth) v) = ?f"
    by (simp add: fun_eq_iff member_with_def)
  have len: "length ?s < n" using assms(1,5) by (simp add: f [simplified])
  have "length (map ?f d) \<le> length ?s"
    by (rule length_join_ge) (auto simp: member_with_def json_text_def)
  moreover have "length (doc_text L (Suc depth) v) \<le> length ?s" if "(k, v) \<in> set d" for k v
  proof -
    have "length (?f (k, v)) \<le> length ?s" by (rule length_join_mem) (use that in force)
    then show ?thesis by (simp add: member_with_def)
  qed
  ultimately have items: "json_members (doc_value n) n (?s @ ly_open L depth @ CHR ''}'' # r) = Inr (d, r)"
    using assms(1,2,4) len assms(6) opens_doc
    by (intro json_members_join) (fastforce simp: layout_ok_def list_all_iff)+
  have "opens (?s @ ly_open L depth @ CHR ''}'' # r)"
    using assms(1) opens_member by (intro opens_join) auto
  note skip = skip_to_elements [OF _ this, of "ly_open L (Suc depth)"]
  show ?thesis using items skip assms(1,2,3) by (simp add: layout_ok_def dquote_def f [simplified] dict_of_distinct)
qed

lemma doc_value_text:
  assumes "doc_ok v" "layout_ok L" "length (doc_text L depth v) < n" "stops r"
  shows "doc_value n (doc_text L depth v @ r) = Inr (v, r)"
  using assms(1,3,4)
proof (induction v arbitrary: depth n r rule: doc_induct)
  case JNull
  then show ?case by (cases n) (simp_all add: scan_doc_atom_def scan_atom_def dquote_def)
next
  case (JBool b)
  then show ?case by (cases n; cases b) (simp_all add: scan_doc_atom_def scan_atom_def dquote_def)
next
  case (JInt i)
  then obtain m where n: "n = Suc m" by (cases n) auto
  obtain c cs where c: "show_int i = c # cs" "c \<noteq> dquote" "c \<noteq> CHR ''{''" "c \<noteq> CHR ''[''" by (rule show_int_Cons)
  have "scan_atom (show_int i @ r) = Inr (PInt i, r)" using JInt by (intro scan_atom_int) simp_all
  then show ?case using c by (simp add: n scan_doc_atom_def)
next
  case (JFloat x)
  then obtain m where n: "n = Suc m" by (cases n) auto
  obtain c cs where c: "float_repr x = c # cs" "c \<noteq> dquote" "c \<noteq> CHR ''{''" "c \<noteq> CHR ''[''"
    using JFloat(1) by (auto elim: float_repr_Cons)
  show ?case using c scan_doc_float [of x r] JFloat by (simp add: n)
next
  case (JStr s)
  then show ?case by (cases n) (simp_all add: json_text_def scan_string_text)
next
  case (JList xs)
  then obtain m where n: "n = Suc m" by (cases n) auto
  show ?case
  proof (cases "xs = []")
    case True
    then show ?thesis by (simp add: n dquote_def)
  next
    case False
    show ?thesis unfolding n
    proof (rule doc_value_list [OF False assms(2)])
      show "list_all doc_ok xs" "length (doc_text L depth (JList xs)) \<le> m" using JList.prems n by simp_all
      show "doc_value m (doc_text L (Suc depth) x @ t) = Inr (x, t)"
        if "x \<in> set xs" "stops t" "length (doc_text L (Suc depth) x) < m" for x t
        using JList.IH [OF that(1) _ that(3) that(2)] JList.prems(1) that(1) by (simp add: list_all_iff)
    qed
  qed
next
  case (JDict d)
  then obtain m where n: "n = Suc m" by (cases n) auto
  show ?case
  proof (cases "d = []")
    case True
    then show ?thesis by (simp add: n dquote_def)
  next
    case False
    show ?thesis unfolding n
    proof (rule doc_value_dict [OF False assms(2)])
      show "dwf d" "list_all (\<lambda>(k, v). doc_ok v) d" "length (doc_text L depth (JDict d)) \<le> m"
        using JDict.prems n by simp_all
      show "doc_value m (doc_text L (Suc depth) v @ t) = Inr (v, t)"
        if "(k, v) \<in> set d" "stops t" "length (doc_text L (Suc depth) v) < m" for k v t
        using JDict.IH [OF that(1) _ that(3) that(2)] JDict.prems(1) that(1) by (auto simp: list_all_iff)
    qed
  qed
qed

lemma loads_doc_text:
  assumes "doc_ok v" "layout_ok L"
  shows "loads_doc (doc_text L depth v) = Inr v"
proof -
  have "doc_value (Suc (length (doc_text L depth v))) (doc_text L depth v @ []) = Inr (v, [])"
    by (rule doc_value_text [OF assms]) (simp_all add: stops_def)
  then show ?thesis
    using opens_doc [OF assms(1)] by (simp add: loads_doc_def skip_ws_def [of "[]"] del: doc_value.simps)
qed

subsection \<open>The fuel is enough\<close>

lemma scan_fraction_length: "length (snd (scan_fraction s)) \<le> length s"
  by (cases s) (simp_all add: scan_fraction_def le_SucI length_dropWhile_le)

lemma scan_exponent_length: "length (snd (scan_exponent s)) \<le> length s"
proof -
  have "length (dropWhile is_digit cs) \<le> Suc (length cs)" "length (dropWhile is_digit cs) \<le> Suc (Suc (length cs))" for cs
    using length_dropWhile_le [of is_digit cs] by simp_all
  then show ?thesis by (simp add: scan_exponent_def split: list.split)
qed

lemma scan_unsigned_length:
  assumes "digit_first t"
  shows "length (snd (scan_unsigned t)) < length t"
proof -
  obtain c cs where t: "t = c # cs" "is_digit c" using assms by (cases t) (auto simp: digit_first_def)
  define ds where "ds = (if hd t = CHR ''0'' then [hd t] else takeWhile is_digit t)"
  have "length (drop (length ds) t) < length t" using t by (auto simp: ds_def)
  moreover have "length (snd (scan_exponent (snd (scan_fraction (drop (length ds) t))))) \<le> length (drop (length ds) t)"
    using scan_fraction_length scan_exponent_length le_trans by blast
  moreover have "snd (scan_unsigned t) = snd (scan_exponent (snd (scan_fraction (drop (length ds) t))))"
    by (simp add: scan_unsigned_def ds_def [symmetric] split: prod.split)
  ultimately show ?thesis by (simp only: le_less_trans)
qed

lemma scan_doc_atom_progress:
  assumes "s \<noteq> []"
  shows "progress (length s) (scan_doc_atom s)"
proof -
  have "progress (length s) (scan_float s)"
    using scan_unsigned_length [of s] scan_unsigned_length [of "tl s"]
    by (cases s; cases "scan_unsigned s") (auto simp: scan_float_def Let_def split: prod.split)
  then show ?thesis
    using scan_atom_progress [OF assms] by (auto simp: scan_doc_atom_def split: sum.split json_error.split)
qed

lemma doc_value_progress: "length s < n \<Longrightarrow> progress (length s) (doc_value n s)"
proof (induction n arbitrary: s)
  case (Suc n)
  show ?case
  proof (cases s)
    case (Cons c cs)
    with Suc.prems have sk: "length (skip_ws cs) < n" using length_skip_ws [of cs] by simp
    have rec: "progress (length t) (doc_value n t)" if "length t \<le> length (skip_ws cs)" for t
      using that sk by (intro Suc.IH) simp
    have "progress (Suc (length cs)) (json_items (doc_value n) n (skip_ws cs))"
      "progress (Suc (length cs)) (json_members (doc_value n) n (skip_ws cs))"
      by (rule progress_skip, rule json_items_progress json_members_progress; use rec sk in auto)+
    moreover have "length (tl (skip_ws cs)) < Suc (length cs)" using length_skip_ws [of cs] by simp
    ultimately show ?thesis
      unfolding Cons doc_value.simps using scan_string_progress [of cs] scan_doc_atom_progress [of "c # cs"] by simp
  qed simp
qed simp

theorem loads_doc_ends: "loads_doc s \<noteq> Inl OutOfFuel"
  using doc_value_progress [of "skip_ws s" "Suc (length s)"] length_skip_ws [of s]
  by (auto simp: loads_doc_def progress_def split: sum.split prod.split)

end
