(* ===== verification/Api.thy ===== *)
theory Api
  imports Coordinator Metrics JsonDoc
begin

text \<open>
  The REST API: \<open>kuberca/api/routes.py\<close>, \<open>schemas.py\<close> and the validation handler of \<open>app.py\<close>.  A request
  body is the parsed JSON value, or nothing when the body is no JSON.  Pydantic checks the fields in
  their order and prefixes the message of a validator with \<open>Value error, \<close>; its message for a value of the
  wrong type is the parameter \<open>type_msg\<close>.  The bodies of the responses are given as JSON documents too.  In \<open>\d\<close> only ASCII digits are considered.  The objects the
  routes ask for optional methods (\<open>list_pods\<close>, \<open>is_full\<close> and the like) are records of optional functions.
\<close>

subsection \<open>Requests (schemas.py)\<close>

record analyze_request =
  rq_resource :: str
  rq_time_window :: "str option"

text \<open>\<open>parts = value.split("/")\<close>, when there are three parts and none is empty\<close>

definition resource_parts :: "str \<Rightarrow> rkey option" where
  "resource_parts v =
     (case split_on (CHR ''/'') v of
        [kind, ns, name] \<Rightarrow> if kind \<noteq> [] \<and> ns \<noteq> [] \<and> name \<noteq> [] then Some (kind, ns, name) else None
      | _ \<Rightarrow> None)"

definition validate_resource_format :: "str \<Rightarrow> str + str" where
  "validate_resource_format v =
     (if resource_parts v = None
      then Inl (''resource must be in Kind/namespace/name format, got: '' @ py_repr v) else Inr v)"

definition validate_time_window_format :: "str option \<Rightarrow> str + str option" where
  "validate_time_window_format v =
     (case v of
        None \<Rightarrow> Inr v
      | Some s \<Rightarrow>
          if re_match duration_re s = None
          then Inl (''time_window must be a positive integer followed by m, h, or d, got: '' @ py_repr s)
          else Inr v)"

type_synonym field_error = "str \<times> str"

definition resource_field :: "(str \<Rightarrow> pyval option \<Rightarrow> str) \<Rightarrow> pydict \<Rightarrow> field_error list + str" where
  "resource_field type_msg d =
     (case dget d ''resource'' of
        Some (PStr s) \<Rightarrow>
          (case validate_resource_format s of
             Inl msg \<Rightarrow> Inl [(''resource'', ''Value error, '' @ msg)]
           | Inr v \<Rightarrow> Inr v)
      | v \<Rightarrow> Inl [(''resource'', type_msg ''resource'' v)])"

definition time_window_field :: "(str \<Rightarrow> pyval option \<Rightarrow> str) \<Rightarrow> pydict \<Rightarrow> field_error list + str option" where
  "time_window_field type_msg d =
     (case dget d ''time_window'' of
        None \<Rightarrow> Inr None
      | Some PNone \<Rightarrow> Inr None
      | Some (PStr s) \<Rightarrow>
          (case validate_time_window_format (Some s) of
             Inl msg \<Rightarrow> Inl [(''time_window'', ''Value error, '' @ msg)]
           | Inr v \<Rightarrow> Inr v)
      | v \<Rightarrow> Inl [(''time_window'', type_msg ''time_window'' v)])"

definition parse_body ::
  "(str \<Rightarrow> pyval option \<Rightarrow> str) \<Rightarrow> pyval option \<Rightarrow> field_error list + analyze_request" where
  "parse_body type_msg body =
     (case body of
        Some (PDict d) \<Rightarrow>
          (case (resource_field type_msg d, time_window_field type_msg d) of
             (Inr r, Inr w) \<Rightarrow> Inr \<lparr>rq_resource = r, rq_time_window = w\<rparr>
           | (Inr r, Inl es) \<Rightarrow> Inl es
           | (Inl es, Inr w) \<Rightarrow> Inl es
           | (Inl es, Inl es') \<Rightarrow> Inl (es @ es'))
      | _ \<Rightarrow> Inl [(''body'', type_msg ''body'' body)])"

subsection \<open>Responses (schemas.py)\<close>

record evidence_response =
  er_type :: str
  er_timestamp :: str
  er_summary :: str

record rca_schema =
  sc_root_cause :: str
  sc_confidence :: dbl
  sc_diagnosed_by :: str
  sc_rule_id :: "str option"
  sc_evidence :: "evidence_response list"
  sc_affected :: "affected_resource list"
  sc_blast_radius :: "affected_resource list option"
  sc_remediation :: str
  sc_meta :: "response_meta option"

text \<open>A response with status 200, or an error envelope with its status, code and detail\<close>

datatype 'a http_reply = Reply 'a | ErrorReply nat str str

definition internal_error :: "'a http_reply" where
  "internal_error = ErrorReply 500 ''INTERNAL_ERROR'' ''An unexpected error occurred.''"

fun evidence_value :: "evidence_type \<Rightarrow> str" where
  "evidence_value EVENT = ''event''"
| "evidence_value CHANGE = ''change''"

definition evidence_schema :: "evidence_item \<Rightarrow> evidence_response" where
  "evidence_schema e =
     \<lparr>er_type = evidence_value (ei_type e), er_timestamp = ei_timestamp e, er_summary = ei_summary e\<rparr>"

definition rca_to_schema :: "rca_response \<Rightarrow> rca_schema" where
  "rca_to_schema rca =
     \<lparr>sc_root_cause = rs_root_cause rca, sc_confidence = rs_confidence rca,
      sc_diagnosed_by = diagnosis_value (rs_diagnosed_by rca), sc_rule_id = rs_rule_id rca,
      sc_evidence = map evidence_schema (rs_evidence rca), sc_affected = rs_affected rca,
      sc_blast_radius = (case rs_blast_radius rca of Some [] \<Rightarrow> None | b \<Rightarrow> b),
      sc_remediation = rs_remediation rca, sc_meta = Some (rs_meta rca)\<rparr>"

subsection \<open>The validation handler (app.py)\<close>

definition validation_exception_handler :: "field_error list \<Rightarrow> 'a http_reply" where
  "validation_exception_handler errors =
     (let (first_field, first_msg) = (case errors of [] \<Rightarrow> ([], []) | e # _ \<Rightarrow> e)
      in ErrorReply 400
           (if str_in ''time_window'' first_field then ''INVALID_TIME_WINDOW'' else ''INVALID_RESOURCE_FORMAT'')
           first_msg)"

subsection \<open>\<open>POST /analyze\<close>\<close>

record api_state =
  as_core :: co_state
  as_metrics :: metrics

text \<open>The label under which the coordinator itself counts an analysis (refused and warming ones are not counted)\<close>

definition coordinator_label :: "coordinator \<Rightarrow> str \<Rightarrow> str \<Rightarrow> co_state \<Rightarrow> str option" where
  "coordinator_label env resource time_window st =
     (case (parse_resource resource, validate_time_window time_window) of
        (Inr key, Inr None) \<Rightarrow>
          if fst (cache_readiness_of (co_now env) (cs_cache st)) = WARMING then None
          else (case fst (analyze env resource time_window st) of
                  Inl exc \<Rightarrow> None
                | Inr r \<Rightarrow> Some (diagnosis_value (rs_diagnosed_by r)))
      | _ \<Rightarrow> None)"

definition counted :: "str option \<Rightarrow> metrics \<Rightarrow> metrics" where
  "counted label m = (case label of None \<Rightarrow> m | Some l \<Rightarrow> count_request l m)"

definition run_analysis :: "coordinator \<Rightarrow> str \<Rightarrow> str \<Rightarrow> api_state \<Rightarrow> (str + rca_response) \<times> api_state" where
  "run_analysis env resource time_window st =
     (let (res, core) = analyze env resource time_window (as_core st) in
      (res, \<lparr>as_core = core,
             as_metrics = counted (coordinator_label env resource time_window (as_core st)) (as_metrics st)\<rparr>))"

definition look_up :: "coordinator \<Rightarrow> rkey \<Rightarrow> api_state \<Rightarrow> resource_view option \<times> api_state" where
  "look_up env key st =
     (case key of (kind, ns, name) \<Rightarrow>
        let (v, c) = cache_get (co_now env) kind ns name (cs_cache (as_core st)) in
        (v, st\<lparr>as_core := (as_core st)\<lparr>cs_cache := c\<rparr>\<rparr>))"

definition not_found_detail :: "rkey \<Rightarrow> str" where
  "not_found_detail key =
     (case key of (kind, ns, name) \<Rightarrow>
        kind @ '' '' @ [squote] @ name @ [squote] @ '' not found in namespace '' @ [squote] @ ns @ [squote])"

definition window_or_default :: "str option \<Rightarrow> str" where
  "window_or_default w = (case w of Some (c # cs) \<Rightarrow> c # cs | _ \<Rightarrow> ''2h'')"

text \<open>\<open>queue_full\<close> is what \<open>is_full()\<close> answers, when the queue has that method.\<close>

definition post_analyze ::
  "coordinator \<Rightarrow> bool option \<Rightarrow> analyze_request \<Rightarrow> api_state \<Rightarrow> rca_schema http_reply \<times> api_state" where
  "post_analyze env queue_full body st =
     (case split_on (CHR ''/'') (rq_resource body) of
        kind # ns # name # _ \<Rightarrow>
          (case look_up env (kind, ns, name) st of
             (None, st1) \<Rightarrow> (ErrorReply 404 ''RESOURCE_NOT_FOUND'' (not_found_detail (kind, ns, name)), st1)
           | (Some resource, st1) \<Rightarrow>
               if queue_full = Some True
               then (ErrorReply 429 ''QUEUE_FULL'' ''Analysis queue is at capacity; retry after a moment.'', st1)
               else (case run_analysis env (canonical (kind, ns, name)) (window_or_default (rq_time_window body)) st1 of
                       (Inl exc, st2) \<Rightarrow> (internal_error, st2)
                     | (Inr rca, st2) \<Rightarrow>
                         (Reply (rca_to_schema rca),
                          st2\<lparr>as_metrics := count_request (diagnosis_value (rs_diagnosed_by rca)) (as_metrics st2)\<rparr>)))
      | _ \<Rightarrow> (internal_error, st))"

definition serve_analyze ::
  "(str \<Rightarrow> pyval option \<Rightarrow> str) \<Rightarrow> coordinator \<Rightarrow> bool option \<Rightarrow> pyval option \<Rightarrow> api_state
   \<Rightarrow> rca_schema http_reply \<times> api_state" where
  "serve_analyze type_msg env queue_full body st =
     (case parse_body type_msg body of
        Inl errors \<Rightarrow> (validation_exception_handler errors, st)
      | Inr request \<Rightarrow> post_analyze env queue_full request st)"

text \<open>\<open>WorkQueue\<close> has no method \<open>is_full\<close>.\<close>

definition work_queue_is_full :: "bool option" where "work_queue_is_full = None"

subsection \<open>\<open>GET /status\<close> and \<open>GET /health\<close>\<close>

text \<open>The methods of the cache the status is read from, each one optional; a call may raise.\<close>

record status_source =
  ss_readiness_state :: "str option"
  ss_list_pods :: "(str option \<Rightarrow> str + resource_view list) option"
  ss_list_nodes :: "(str + resource_view list) option"
  ss_list_events :: "(str option \<Rightarrow> nat \<Rightarrow> str + event_record list) option"

record cluster_status =
  st_pod_counts :: "(str, nat) dict"
  st_node_conditions :: "pydict list"
  st_active_anomalies :: "pydict list"
  st_recent_events :: "pydict list"
  st_cache_state :: str

definition pod_phase :: "resource_view \<Rightarrow> str" where
  "pod_phase pod = (if vw_status pod \<noteq> [] then py_str (vget (PStr ''Unknown'') (vw_status pod) ''phase'') else ''Unknown'')"

definition count_phase :: "resource_view \<Rightarrow> (str, nat) dict \<Rightarrow> (str, nat) dict" where
  "count_phase pod counts = dset (pod_phase pod) (dget_or 0 counts (pod_phase pod) + 1) counts"

definition condition_row :: "str \<Rightarrow> pydict \<Rightarrow> pydict" where
  "condition_row name cond =
     [(''name'', PStr name), (''type'', vget (PStr []) cond ''type''), (''status'', vget (PStr []) cond ''status''),
      (''reason'', vget (PStr []) cond ''reason'')]"

text \<open>
  The rows of one node, and whether the loop got past it: iterating over a value that is no collection,
  or a condition that is no dictionary, raises, and what was appended before stays.
\<close>

fun condition_rows :: "str \<Rightarrow> pyval list \<Rightarrow> pydict list \<times> bool" where
  "condition_rows name [] = ([], True)"
| "condition_rows name (PDict cond # conds) =
     (let (rows, done) = condition_rows name conds in (condition_row name cond # rows, done))"
| "condition_rows name (_ # conds) = ([], False)"

definition node_rows :: "resource_view \<Rightarrow> pydict list \<times> bool" where
  "node_rows node =
     (case (if vw_status node \<noteq> [] then vget (PList []) (vw_status node) ''conditions'' else PList []) of
        PList conds \<Rightarrow> condition_rows (vw_name node) conds
      | PStr [] \<Rightarrow> ([], True)
      | PDict [] \<Rightarrow> ([], True)
      | _ \<Rightarrow> ([], False))"

fun all_node_rows :: "resource_view list \<Rightarrow> pydict list" where
  "all_node_rows [] = []"
| "all_node_rows (node # nodes) =
     (case node_rows node of (rows, done) \<Rightarrow> rows @ (if done then all_node_rows nodes else []))"

definition event_row :: "event_record \<Rightarrow> pydict" where
  "event_row evt =
     [(''namespace'', PStr (ev_namespace evt)), (''resource_kind'', PStr (ev_kind evt)),
      (''resource_name'', PStr (ev_name evt)), (''reason'', PStr (ev_reason evt)),
      (''message'', PStr (ev_message evt)), (''severity'', PStr (severity_value (ev_severity evt))),
      (''last_seen'', PStr (isoformat (ev_last_seen evt))), (''count'', PInt (ev_count evt))]"

definition namespace_filter :: "str option \<Rightarrow> str option" where
  "namespace_filter ns = (case ns of Some [] \<Rightarrow> None | _ \<Rightarrow> ns)"

definition build_cluster_status :: "status_source \<Rightarrow> str option \<Rightarrow> cluster_status" where
  "build_cluster_status src ns =
     \<lparr>st_pod_counts =
        (case ss_list_pods src of
           None \<Rightarrow> []
         | Some list_pods \<Rightarrow>
             (case list_pods (namespace_filter ns) of Inl exc \<Rightarrow> [] | Inr pods \<Rightarrow> fold count_phase pods [])),
      st_node_conditions =
        (case ss_list_nodes src of Some (Inr nodes) \<Rightarrow> all_node_rows nodes | _ \<Rightarrow> []),
      st_active_anomalies = [],
      st_recent_events =
        (case ss_list_events src of
           None \<Rightarrow> []
         | Some list_events \<Rightarrow>
             (case list_events (namespace_filter ns) 50 of Inl exc \<Rightarrow> [] | Inr evts \<Rightarrow> map event_row evts)),
      st_cache_state = (case ss_readiness_state src of None \<Rightarrow> ''ready'' | Some s \<Rightarrow> s)\<rparr>"

record rule_engine_coverage =
  rc_hit_rate :: gauge
  rc_escalation_rate :: gauge
  rc_inconclusive_rate :: gauge
  rc_total_rules :: nat
  rc_top_rules :: "str list"

definition get_top_rules_matched :: "nat \<Rightarrow> metrics \<Rightarrow> str list" where
  "get_top_rules_matched limit m =
     map fst (take limit (py_sorted_desc snd (filter (\<lambda>(rule_id, n). rule_id \<noteq> []) (mt_rule_matches m))))"

definition get_registered_rule_count :: "coordinator option \<Rightarrow> nat" where
  "get_registered_rule_count co = (case co of None \<Rightarrow> 0 | Some env \<Rightarrow> length (co_rules env))"

record cluster_status_response = cluster_status +
  st_coverage :: "rule_engine_coverage option"

definition cluster_status_to_response ::
  "cluster_status \<Rightarrow> rule_engine_coverage option \<Rightarrow> cluster_status_response" where
  "cluster_status_to_response status coverage =
     \<lparr>st_pod_counts = st_pod_counts status, st_node_conditions = st_node_conditions status,
      st_active_anomalies = st_active_anomalies status, st_recent_events = st_recent_events status,
      st_cache_state = st_cache_state status, st_coverage = coverage\<rparr>"

definition get_status ::
  "status_source \<Rightarrow> coordinator option \<Rightarrow> str option \<Rightarrow> metrics \<Rightarrow> cluster_status_response" where
  "get_status src co ns m =
     (let coverage =
        \<lparr>rc_hit_rate = mt_hit_rate m, rc_escalation_rate = mt_escalation_rate m,
         rc_inconclusive_rate = mt_inconclusive_rate m, rc_total_rules = get_registered_rule_count co,
         rc_top_rules = get_top_rules_matched 5 m\<rparr>
      in cluster_status_to_response (build_cluster_status src ns) (Some coverage))"

record health_status =
  hs_status :: str
  hs_version :: str
  hs_cache_state :: str

definition get_health :: "status_source \<Rightarrow> health_status" where
  "get_health src =
     \<lparr>hs_status = ''ok'', hs_version = KUBERCA_VERSION,
      hs_cache_state = (case ss_readiness_state src of None \<Rightarrow> ''ready'' | Some s \<Rightarrow> s)\<rparr>"

subsection \<open>The bodies (schemas.py)\<close>

text \<open>A confidence as a document: its units of \<open>2 ^ -64\<close> in those of a document\<close>

definition float_doc :: "dbl \<Rightarrow> doc" where
  "float_doc x = JFloat (x * 2 ^ 136)"

definition opt_doc :: "('a \<Rightarrow> doc) \<Rightarrow> 'a option \<Rightarrow> doc" where
  "opt_doc f x = (case x of None \<Rightarrow> JNull | Some v \<Rightarrow> f v)"

definition affected_doc :: "affected_resource \<Rightarrow> doc" where
  "affected_doc a = JDict [(''kind'', JStr (ar_kind a)), (''namespace'', JStr (ar_namespace a)), (''name'', JStr (ar_name a))]"

definition meta_doc :: "response_meta \<Rightarrow> doc" where
  "meta_doc m =
     JDict [(''kuberca_version'', JStr (rm_version m)), (''schema_version'', JStr (rm_schema m)),
            (''cluster_id'', JStr (rm_cluster_id m)), (''timestamp'', JStr (rm_timestamp m)),
            (''response_time_ms'', JInt (rm_response_time_ms m)), (''cache_state'', JStr (rm_cache_state m)),
            (''warnings'', JList (map JStr (rm_warnings m)))]"

definition evidence_doc :: "evidence_response \<Rightarrow> doc" where
  "evidence_doc e =
     JDict [(''type'', JStr (er_type e)), (''timestamp'', JStr (er_timestamp e)), (''summary'', JStr (er_summary e)),
            (''debug_context'', JNull)]"

definition rca_body :: "rca_schema \<Rightarrow> doc" where
  "rca_body sc =
     JDict [(''root_cause'', JStr (sc_root_cause sc)), (''confidence'', float_doc (sc_confidence sc)),
            (''diagnosed_by'', JStr (sc_diagnosed_by sc)), (''rule_id'', opt_doc JStr (sc_rule_id sc)),
            (''evidence'', JList (map evidence_doc (sc_evidence sc))),
            (''affected_resources'', JList (map affected_doc (sc_affected sc))),
            (''blast_radius'', opt_doc (\<lambda>rs. JList (map affected_doc rs)) (sc_blast_radius sc)),
            (''suggested_remediation'', JStr (sc_remediation sc)), (''meta'', opt_doc meta_doc (sc_meta sc))]"

definition coverage_doc :: "rule_engine_coverage \<Rightarrow> doc" where
  "coverage_doc c =
     JDict [(''hit_rate'', JFloat (rc_hit_rate c)), (''escalation_rate'', JFloat (rc_escalation_rate c)),
            (''inconclusive_rate'', JFloat (rc_inconclusive_rate c)), (''total_rules'', JInt (int (rc_total_rules c))),
            (''top_rules_matched'', JList (map JStr (rc_top_rules c)))]"

definition status_body :: "cluster_status_response \<Rightarrow> doc" where
  "status_body s =
     JDict [(''pod_counts'', JDict (map (\<lambda>(phase, n). (phase, JInt (int n))) (st_pod_counts s))),
            (''node_conditions'', JList (map (\<lambda>d. doc_of (PDict d)) (st_node_conditions s))),
            (''active_anomalies'', JList (map (\<lambda>d. doc_of (PDict d)) (st_active_anomalies s))),
            (''recent_events'', JList (map (\<lambda>d. doc_of (PDict d)) (st_recent_events s))),
            (''cache_state'', JStr (st_cache_state s)), (''rule_engine_coverage'', opt_doc coverage_doc (st_coverage s))]"

definition health_body :: "health_status \<Rightarrow> doc" where
  "health_body h =
     JDict [(''status'', JStr (hs_status h)), (''version'', JStr (hs_version h)), (''cache_state'', JStr (hs_cache_state h))]"

definition error_body :: "str \<Rightarrow> str \<Rightarrow> doc" where
  "error_body error detail = JDict [(''error'', JStr error), (''detail'', JStr detail)]"

text \<open>\<open>ResourceCache\<close> has none of those methods: its readiness is \<open>readiness()\<close> and its listing \<open>list(kind)\<close>.\<close>

definition resource_cache_source :: status_source where
  "resource_cache_source = \<lparr>ss_readiness_state = None, ss_list_pods = None, ss_list_nodes = None, ss_list_events = None\<rparr>"

subsection \<open>What the routes answer\<close>

lemma parse_body_valid:
  assumes "parse_body type_msg body = Inr request"
  obtains kind ns name where "split_on (CHR ''/'') (rq_resource request) = [kind, ns, name]"
    "resource_parts (rq_resource request) = Some (kind, ns, name)"
    "case rq_time_window request of None \<Rightarrow> True | Some w \<Rightarrow> re_match duration_re w \<noteq> None"
  using assms
  by (auto simp: parse_body_def resource_field_def time_window_field_def validate_resource_format_def
      validate_time_window_format_def resource_parts_def
      split: option.splits pyval.splits sum.splits if_splits list.splits)

definition is_cached :: "rkey \<Rightarrow> api_state \<Rightarrow> bool" where
  "is_cached key st \<longleftrightarrow>
     (case key of (kind, ns, name) \<Rightarrow> store_get (rc_store (cs_cache (as_core st))) kind ns name \<noteq> None)"

definition resource_accepted :: "(str \<Rightarrow> pyval option \<Rightarrow> str) \<Rightarrow> pyval option \<Rightarrow> bool" where
  "resource_accepted type_msg body =
     (case body of
        Some (PDict d) \<Rightarrow> (case resource_field type_msg d of Inl errors \<Rightarrow> False | Inr v \<Rightarrow> True)
      | _ \<Rightarrow> False)"

lemma resource_field_error: "resource_field type_msg d = Inl errors \<Longrightarrow> \<exists>msg. errors = [(''resource'', msg)]"
  by (auto simp: resource_field_def split: option.splits pyval.splits sum.splits)

lemma time_window_field_error: "time_window_field type_msg d = Inl errors \<Longrightarrow> \<exists>msg. errors = [(''time_window'', msg)]"
  by (auto simp: time_window_field_def split: option.splits pyval.splits sum.splits)

lemma validation_reply:
  assumes "parse_body type_msg body = Inl errors"
  obtains detail where "validation_exception_handler errors = ErrorReply 400 (if resource_accepted type_msg body
      then ''INVALID_TIME_WINDOW'' else ''INVALID_RESOURCE_FORMAT'') detail"
proof -
  consider (window) d v es where "body = Some (PDict d)" "resource_field type_msg d = Inr v"
      "time_window_field type_msg d = Inl es" "errors = es"
    | (resource) d es rest where "body = Some (PDict d)" "resource_field type_msg d = Inl es" "errors = es @ rest"
    | (no_object) "resource_accepted type_msg body = False" "\<exists>msg. errors = [(''body'', msg)]"
    using assms by (auto simp: parse_body_def resource_accepted_def split: option.splits pyval.splits sum.splits)
  then show ?thesis
    using that
    by cases (auto simp: validation_exception_handler_def resource_accepted_def
        dest: resource_field_error time_window_field_error)
qed

lemma look_up_cases:
  "(if is_cached key st then \<exists>v. fst (look_up env key st) = Some v else fst (look_up env key st) = None)
   \<and> as_metrics (snd (look_up env key st)) = as_metrics st"
  by (cases key) (auto simp: is_cached_def look_up_def cache_get_def split: option.split)

lemma run_analysis_fst: "fst (run_analysis env r w st) = fst (analyze env r w (as_core st))"
  by (simp add: run_analysis_def split: prod.split)

lemma post_analyze_valid:
  assumes "split_on (CHR ''/'') (rq_resource request) = [kind, ns, name]"
  shows "post_analyze env None request st =
    (let st1 = snd (look_up env (kind, ns, name) st) in
     if \<not> is_cached (kind, ns, name) st
     then (ErrorReply 404 ''RESOURCE_NOT_FOUND'' (not_found_detail (kind, ns, name)), st1)
     else (case run_analysis env (canonical (kind, ns, name)) (window_or_default (rq_time_window request)) st1 of
             (Inl exc, st2) \<Rightarrow> (internal_error, st2)
           | (Inr rca, st2) \<Rightarrow>
               (Reply (rca_to_schema rca),
                st2\<lparr>as_metrics := count_request (diagnosis_value (rs_diagnosed_by rca)) (as_metrics st2)\<rparr>)))"
  using look_up_cases [of "(kind, ns, name)" st env] assms
  by (auto simp: post_analyze_def Let_def split: if_splits prod.split option.split)


subsection \<open>What is counted\<close>

lemma counter_inc_get [simp]:
  "dget_or 0 (counter_inc l c) k = (if k = l then Suc (dget_or 0 c k) else dget_or 0 c k)"
  by (simp add: counter_inc_def)

lemma count_request_get [simp]:
  "mt_requests (count_request l m) = counter_inc l (mt_requests m)"
  by (simp add: count_request_def)

lemma schema_diagnosis [simp]: "sc_diagnosed_by (rca_to_schema rca) = diagnosis_value (rs_diagnosed_by rca)"
  by (simp add: rca_to_schema_def)

lemma coordinator_label_cases:
  "coordinator_label env r w st =
     (case fst (analyze env r w st) of
        Inl exc \<Rightarrow> None
      | Inr rca \<Rightarrow> if coordinator_label env r w st = None then None else Some (diagnosis_value (rs_diagnosed_by rca)))"
  by (auto simp: coordinator_label_def split: sum.splits option.splits if_splits)

text \<open>
  A served analysis is counted under its diagnosis by the route and, unless it was refused or the cache
  was still warming, a second time by the coordinator; no other label changes, and a request answered with
  an error is not counted at all.
\<close>
theorem rest_request_counting:
  "case serve_analyze type_msg env queue_full body st of
     (ErrorReply status code detail, st') \<Rightarrow> as_metrics st' = as_metrics st
   | (Reply sc, st') \<Rightarrow> \<exists>request key. parse_body type_msg body = Inr request
       \<and> resource_parts (rq_resource request) = Some key
       \<and> (let label = coordinator_label env (canonical key) (window_or_default (rq_time_window request))
                (as_core (snd (look_up env key st)));
              once = counter_inc (sc_diagnosed_by sc) (mt_requests (as_metrics st))
          in mt_requests (as_metrics st') = (if label = None then once else counter_inc (sc_diagnosed_by sc) once))"
proof (cases "parse_body type_msg body")
  case (Inl errors)
  then show ?thesis by (simp add: serve_analyze_def validation_exception_handler_def split: prod.split)
next
  case (Inr request)
  from Inr obtain kind ns name where parts: "split_on (CHR ''/'') (rq_resource request) = [kind, ns, name]"
    "resource_parts (rq_resource request) = Some (kind, ns, name)"
    by (rule parse_body_valid) blast
  let ?key = "(kind, ns, name)" and ?w = "window_or_default (rq_time_window request)"
  obtain v st1 where look: "look_up env ?key st = (v, st1)" by fastforce
  let ?label = "coordinator_label env (canonical ?key) ?w (as_core st1)"
  have m: "as_metrics st1 = as_metrics st" using look_up_cases [of ?key st env] look by simp
  obtain res core where an: "analyze env (canonical ?key) ?w (as_core st1) = (res, core)" by fastforce
  then have run: "run_analysis env (canonical ?key) ?w st1 = (res, \<lparr>as_core = core, as_metrics = counted ?label (as_metrics st)\<rparr>)"
    by (simp add: run_analysis_def m)
  have label: "?label = (case res of Inl exc \<Rightarrow> None
      | Inr rca \<Rightarrow> if ?label = None then None else Some (diagnosis_value (rs_diagnosed_by rca)))"
    using coordinator_label_cases [of env "canonical ?key" ?w "as_core st1"] an by simp
  show ?thesis
  proof (cases v)
    case None
    then show ?thesis using look Inr parts m by (simp add: serve_analyze_def post_analyze_def)
  next
    case (Some view)
    show ?thesis
    proof (cases "queue_full = Some True")
      case True
      then show ?thesis using look Some Inr parts m by (simp add: serve_analyze_def post_analyze_def)
    next
      case False
      show ?thesis
      proof (cases res)
        case (Inl exc)
        then show ?thesis using look Some \<open>parse_body type_msg body = Inr request\<close> parts run label False
          by (simp add: serve_analyze_def post_analyze_def internal_error_def counted_def)
      next
        case (Inr rca)
        then have "post_analyze env queue_full request st = (Reply (rca_to_schema rca),
            \<lparr>as_core = core, as_metrics = count_request (diagnosis_value (rs_diagnosed_by rca))
               (counted ?label (as_metrics st))\<rparr>)"
          using look Some parts run False by (simp add: post_analyze_def)
        then show ?thesis using \<open>parse_body type_msg body = Inr request\<close> parts label look Inr
          by (auto simp: serve_analyze_def counted_def Let_def split: if_splits)
      qed
    qed
  qed
qed

subsection \<open>What the routes cannot serve\<close>

text \<open>The status of the program's own cache is the same whatever the cache holds.\<close>

lemma status_reads_nothing:
  "build_cluster_status resource_cache_source ns =
     \<lparr>st_pod_counts = [], st_node_conditions = [], st_active_anomalies = [], st_recent_events = [],
      st_cache_state = ''ready''\<rparr>"
  by (simp add: build_cluster_status_def resource_cache_source_def)

text \<open>
  The look-up uses the kind as written, the analysis an alias table: \<open>pod/shop/cart\<close> is not found where
  \<open>Pod/shop/cart\<close> is analysed.
\<close>

lemma rest_kind_is_case_sensitive:
  assumes "dget (rc_store (cs_cache (as_core st))) kind = None"
    "split_on (CHR ''/'') (rq_resource request) = [kind, ns, name]"
  shows "fst (post_analyze env None request st) =
    ErrorReply 404 ''RESOURCE_NOT_FOUND'' (not_found_detail (kind, ns, name))"
  using assms post_analyze_valid [OF assms(2), of env st]
  by (simp add: is_cached_def store_get_def Let_def dget_or_def)

text \<open>One request for a resource that does not exist leaves a ready cache degraded.\<close>

lemma one_miss_degrades:
  assumes "rc_all_kinds c \<noteq> {}" "recent_accesses now c = []" "store_get (rc_store c) kind ns name = None"
  shows "fst (cache_readiness_of now (snd (cache_get now kind ns name c))) = DEGRADED"
proof -
  let ?c = "snd (cache_get now kind ns name c)"
  have c: "?c = record_access now False c" using assms(3) by (simp add: cache_get_def)
  have window: "0 \<le> MISS_RATE_WINDOW" by (simp add: MISS_RATE_WINDOW_def minutes_def seconds_def)
  have keep: "filter (\<lambda>(ts, _). now - MISS_RATE_WINDOW \<le> ts) (expire_left (\<lambda>(ts, _). ts < now - MISS_RATE_WINDOW) xs)
      = filter (\<lambda>(ts, _). now - MISS_RATE_WINDOW \<le> ts) xs" for xs :: "(instant \<times> bool) list"
    by (induction xs) auto
  have "recent_accesses now ?c = [(now, False)]"
    using assms(2) window by (simp add: c recent_accesses_def record_access_def keep)
  then have "MISS_RATE_THRESHOLD < current_miss_rate now ?c"
    by (simp add: current_miss_rate_def misses_of_def MISS_RATE_THRESHOLD_def dbl_eval)
  then show ?thesis
    using assms(1) by (simp add: cache_readiness_of_def recompute_readiness_def is_diverged_def c record_access_def)
qed

lemma rest_miss_degrades:
  assumes "rc_all_kinds (cs_cache (as_core st)) \<noteq> {}" "recent_accesses (co_now env) (cs_cache (as_core st)) = []"
    "split_on (CHR ''/'') (rq_resource request) = [kind, ns, name]" "\<not> is_cached (kind, ns, name) st"
  shows "fst (cache_readiness_of (co_now env) (cs_cache (as_core (snd (post_analyze env None request st))))) = DEGRADED"
  using post_analyze_valid [OF assms(3), of env st] one_miss_degrades [OF assms(1,2), of kind ns name] assms(4)
  by (cases "cache_get (co_now env) kind ns name (cs_cache (as_core st))") (simp add: look_up_def is_cached_def)

subsection \<open>What the status reports\<close>

lemma dget_or_empty: "dget_or x [] k = x"
  by (simp add: dget_or_def)

lemma fold_count_phase:
  "dget_or 0 (fold count_phase pods counts) phase
     = dget_or 0 counts phase + length (filter (\<lambda>pod. pod_phase pod = phase) pods)"
  by (induction pods arbitrary: counts) (auto simp: count_phase_def)

lemma dwf_count_phase: "dwf counts \<Longrightarrow> dwf (fold count_phase pods counts)"
  by (induction pods arbitrary: counts) (auto simp: count_phase_def)

lemma condition_rows_conditions:
  "condition_rows name (map PDict conds) = (map (condition_row name) conds, True)"
  by (induction conds) simp_all

lemma all_node_rows_complete:
  assumes "\<forall>node \<in> set nodes. dget (vw_status node) ''conditions'' = Some (PList (map PDict (conds node)))"
  shows "all_node_rows nodes = concat (map (\<lambda>node. map (condition_row (vw_name node)) (conds node)) nodes)"
  using assms
  by (induction nodes) (auto simp: node_rows_def vget_def dget_or_def condition_rows_conditions)

text \<open>
  The status of a source that lists pods, nodes and events without raising: every pod is counted once
  under its phase, every condition of every node is a row, in order, and every event listed is a row; the
  source is asked for at most 50 events, and for one namespace only when a non-empty one is given.
\<close>
theorem cluster_status_complete:
  assumes "ss_list_pods src = Some list_pods" "list_pods (namespace_filter ns) = Inr pods"
    "ss_list_nodes src = Some (Inr nodes)"
    "\<And>node. node \<in> set nodes \<Longrightarrow> dget (vw_status node) ''conditions'' = Some (PList (map PDict (conds node)))"
    "ss_list_events src = Some list_events" "list_events (namespace_filter ns) 50 = Inr events"
  shows "dwf (st_pod_counts (build_cluster_status src ns))
    \<and> dget_or 0 (st_pod_counts (build_cluster_status src ns)) phase
        = length (filter (\<lambda>pod. pod_phase pod = phase) pods)
    \<and> st_node_conditions (build_cluster_status src ns)
        = concat (map (\<lambda>node. map (condition_row (vw_name node)) (conds node)) nodes)
    \<and> st_recent_events (build_cluster_status src ns) = map event_row events"
  using assms all_node_rows_complete [of nodes conds]
  by (simp add: build_cluster_status_def fold_count_phase dwf_count_phase dget_or_empty)

definition demo_view :: "str \<Rightarrow> str \<Rightarrow> pydict \<Rightarrow> resource_view" where
  "demo_view kind name status =
     \<lparr>vw_kind = kind, vw_namespace = [], vw_name = name, vw_resource_version = [], vw_labels = [],
      vw_annotations = [], vw_spec = [], vw_status = status, vw_last_updated = 0\<rparr>"

definition demo_pods :: "resource_view list" where
  "demo_pods = [demo_view ''Pod'' ''cart'' [(''phase'', PStr ''Running'')], demo_view ''Pod'' ''web'' []]"

definition demo_condition :: pydict where
  "demo_condition = [(''type'', PStr ''Ready''), (''status'', PStr ''True'')]"

definition demo_nodes :: "resource_view list" where
  "demo_nodes = [demo_view ''Node'' ''n1'' [(''conditions'', PList [PDict demo_condition])]]"

definition demo_source :: status_source where
  "demo_source =
     \<lparr>ss_readiness_state = Some ''ready'', ss_list_pods = Some (\<lambda>ns. Inr demo_pods),
      ss_list_nodes = Some (Inr demo_nodes), ss_list_events = Some (\<lambda>ns limit. Inr (take limit [cart_event]))\<rparr>"

theorem cluster_status_complete_witness:
  "dget_or 0 (st_pod_counts (build_cluster_status demo_source None)) ''Unknown'' = 1
   \<and> length (st_node_conditions (build_cluster_status demo_source None)) = 1
   \<and> st_recent_events (build_cluster_status demo_source None) = [event_row cart_event]"
proof -
  have unknown: "length (filter (\<lambda>pod. pod_phase pod = ''Unknown'') demo_pods) = 1"
    by (simp add: demo_pods_def demo_view_def pod_phase_def vget_def dget_or_def py_str_def)
  have conds: "dget (vw_status node) ''conditions'' = Some (PList (map PDict [demo_condition]))"
    if "node \<in> set demo_nodes" for node
    using that by (simp add: demo_nodes_def demo_view_def)
  have nodes: "length demo_nodes = 1" by (simp add: demo_nodes_def)
  from cluster_status_complete [of demo_source "\<lambda>ns. Inr demo_pods" None demo_pods demo_nodes
      "\<lambda>node. [demo_condition]" "\<lambda>ns limit. Inr (take limit [cart_event])" "[cart_event]" "''Unknown''"]
  show ?thesis
    using conds unknown nodes by (simp add: demo_source_def length_concat comp_def sum_list_triv)
qed

subsection \<open>Every answer is a document\<close>

text \<open>\<open>monotonic_ns\<close> never goes back and fits 63 bits.\<close>

definition clock_ok :: "coordinator \<Rightarrow> bool" where
  "clock_ok env \<longleftrightarrow> (case co_clock env of (t, t') \<Rightarrow> 0 \<le> t \<and> t \<le> t' \<and> t' < 2 ^ 63)"

lemma clock_elapsed:
  assumes "clock_ok env"
  shows "0 \<le> elapsed_ms env" "length (show_nat (nat \<bar>elapsed_ms env\<bar>)) \<le> 4300"
proof -
  obtain t t' where t: "co_clock env = (t, t')" "0 \<le> t" "t \<le> t'" "t' < 2 ^ 63"
    using assms by (auto simp: clock_ok_def)
  then have d: "0 \<le> t div 1000000" "t div 1000000 \<le> t' div 1000000" "t' div 1000000 < 10 ^ 20"
    by (simp_all add: pos_imp_zdiv_nonneg_iff zdiv_mono1)
  then show "0 \<le> elapsed_ms env" by (simp add: elapsed_ms_def t(1))
  from d have "nat \<bar>elapsed_ms env\<bar> < 10 ^ 20" by (simp add: elapsed_ms_def t(1))
  then have "length (show_nat (nat \<bar>elapsed_ms env\<bar>)) \<le> 20" by (intro length_show_nat_le) simp_all
  then show "length (show_nat (nat \<bar>elapsed_ms env\<bar>)) \<le> 4300" by simp
qed

text \<open>The response time of an analysis is what its clock measured.\<close>

lemma escalate_elapsed:
  "fst (escalate env key w readiness incident events meta st) = Inr r \<Longrightarrow> rm_response_time_ms (rs_meta r) = elapsed_ms env"
  by (auto simp: escalate_def Let_def inconclusive_end_def inconclusive_response_def llm_result_to_rca_response_def
      make_meta_def split: option.splits if_splits prod.splits sum.splits)

lemma diagnose_elapsed:
  "fst (diagnose env key w readiness st) = Inr r \<Longrightarrow> rm_response_time_ms (rs_meta r) = elapsed_ms env"
  by (auto simp: diagnose_def Let_def inconclusive_response_def rule_result_to_rca_response_def make_meta_def
      dest: escalate_elapsed split: prod.splits list.splits option.splits if_splits)

lemma analyze_elapsed:
  "fst (analyze env resource w st) = Inr r \<Longrightarrow> rm_response_time_ms (rs_meta r) = elapsed_ms env"
  by (auto simp: analyze_def refuse_def Let_def inconclusive_response_def make_meta_def
      dest: diagnose_elapsed split: prod.splits sum.splits option.splits if_splits)

lemma float_doc_ok: "is_float x \<Longrightarrow> 0 \<le> x \<Longrightarrow> x \<le> dlit 95 100 \<Longrightarrow> doc_ok (float_doc x)"
  using is_float_scale [of x 136] by (simp add: float_doc_def FLOAT_UNIT_def dbl_eval)

lemma response_ok_confidence:
  assumes "response_ok r"
  shows "is_float (rs_confidence r)" "0 \<le> rs_confidence r" "rs_confidence r \<le> dlit 95 100"
proof -
  have "dlit 69 100 \<le> dlit 95 100" "0 \<le> dlit 95 100" by (simp_all add: dbl_eval)
  then show "is_float (rs_confidence r)" "0 \<le> rs_confidence r" "rs_confidence r \<le> dlit 95 100"
    using assms by (cases "rs_diagnosed_by r"; auto simp: response_ok_def)+
qed

lemma meta_doc_ok: "length (show_nat (nat \<bar>rm_response_time_ms m\<bar>)) \<le> 4300 \<Longrightarrow> doc_ok (meta_doc m)"
  by (simp add: meta_doc_def dwf_def list_all_iff)

lemma affected_doc_ok [simp]: "doc_ok (affected_doc a)"
  by (simp add: affected_doc_def dwf_def)

lemma rca_body_ok:
  assumes "response_ok r" "length (show_nat (nat \<bar>rm_response_time_ms (rs_meta r)\<bar>)) \<le> 4300"
  shows "doc_ok (rca_body (rca_to_schema r))"
  using float_doc_ok [OF response_ok_confidence [OF assms(1)]] meta_doc_ok [OF assms(2)]
  by (auto simp: rca_body_def rca_to_schema_def opt_doc_def dwf_def list_all_iff evidence_doc_def evidence_schema_def
      split: option.split list.split)

text \<open>A response of the route is that of a well-formed diagnosis, with the measured time.\<close>

lemma rest_reply:
  assumes "fst (serve_analyze type_msg (env\<lparr>co_rules := kuberca_rules tier2\<rparr>) None body st) = Reply sc"
  shows "\<exists>r. response_ok r \<and> sc = rca_to_schema r
    \<and> rm_response_time_ms (rs_meta r) = elapsed_ms (env\<lparr>co_rules := kuberca_rules tier2\<rparr>)"
proof -
  let ?env = "env\<lparr>co_rules := kuberca_rules tier2\<rparr>"
  obtain request where parse: "parse_body type_msg body = Inr request"
    using assms by (cases "parse_body type_msg body") (auto simp: serve_analyze_def validation_exception_handler_def split: prod.splits)
  then obtain kind ns name where parts: "split_on (CHR ''/'') (rq_resource request) = [kind, ns, name]"
    by (rule parse_body_valid) blast
  let ?resource = "canonical (kind, ns, name)" and ?w = "window_or_default (rq_time_window request)"
  let ?st1 = "snd (look_up ?env (kind, ns, name) st)"
  from assms have "fst (post_analyze ?env None request st) = Reply sc" by (simp add: serve_analyze_def parse)
  then obtain r st2 where run: "run_analysis ?env ?resource ?w ?st1 = (Inr r, st2)" "sc = rca_to_schema r"
    unfolding post_analyze_valid [OF parts] by (auto simp: Let_def internal_error_def split: if_splits prod.splits sum.splits)
  then have an: "fst (analyze ?env ?resource ?w (as_core ?st1)) = Inr r"
    using run_analysis_fst [of ?env ?resource ?w ?st1] by simp
  then have "response_ok r"
    using analyze_well_formed [where env = env and ?tier2.0 = tier2 and resource = ?resource and time_window = ?w
        and st = "as_core ?st1"] by simp
  then show ?thesis using run(2) analyze_elapsed [OF an] by blast
qed

end
