(* ===== verification/DiagnosisReads.thy ===== *)
theory DiagnosisReads
  imports Coordinator
begin

text \<open>
  What a diagnosis depends on.  A read of the cache changes its log of accesses, and with it the miss
  rate; an analysis reads the cache many times, and so do the routes before it.  Here: two states whose
  caches hold the same objects and report the same readiness, and whose LLM clients are the same, get the
  same diagnosis.  The proof goes through the contract of the rules (\<open>correlate_pure\<close>) and through every
  read of the pipeline.
\<close>

subsection \<open>The rules\<close>

lemma run_correlate_same:
  assumes "rca_rule r" "rc_store c = rc_store c'"
  shows "\<exists>corr t cap d d'. run_correlate env r event c = (corr, t, cap, d)
    \<and> run_correlate env r event c' = (corr, t, cap, d') \<and> rc_store d = rc_store d'"
proof -
  have "fst (ru_correlate r (en_now env) (en_ledger env) event c)
      = fst (ru_correlate r (en_now env) (en_ledger env) event c')"
    using rca_rule.correlate_pure [OF assms] .
  moreover have "rc_store (snd (ru_correlate r (en_now env) (en_ledger env) event c))
      = rc_store (snd (ru_correlate r (en_now env) (en_ledger env) event c'))"
    using rca_rule.correlate_reads [OF assms(1)] assms(2) by simp
  ultimately show ?thesis by (auto simp: run_correlate_def Let_def case_prod_unfold split: sum.split)
qed

text \<open>Two scans that differ in the cache's bookkeeping only\<close>

definition same_scan :: "scan \<Rightarrow> scan \<Rightarrow> bool" where
  "same_scan s s' \<longleftrightarrow> (\<exists>d. s' = s\<lparr>sc_cache := d\<rparr> \<and> rc_store d = rc_store (sc_cache s))"

definition same_step :: "(rule_result \<times> eval_meta \<times> rcache) + scan \<Rightarrow> (rule_result \<times> eval_meta \<times> rcache) + scan \<Rightarrow> bool" where
  "same_step x y \<longleftrightarrow>
     (case (x, y) of
        (Inl (a, m, c), Inl (a', m', c')) \<Rightarrow> a = a' \<and> m = m' \<and> rc_store c = rc_store c'
      | (Inr s, Inr s') \<Rightarrow> same_scan s s'
      | _ \<Rightarrow> False)"

lemma scan_rule_same:
  assumes "rca_rule r" "same_scan s s'"
  shows "same_step (scan_rule env event r s) (scan_rule env event r s')"
proof -
  obtain d where s': "s' = s\<lparr>sc_cache := d\<rparr>" "rc_store d = rc_store (sc_cache s)"
    using assms(2) by (auto simp: same_scan_def)
  obtain corr t cap e e' where run: "run_correlate env r event (sc_cache s) = (corr, t, cap, e)"
    "run_correlate env r event d = (corr, t, cap, e')" "rc_store e = rc_store e'"
    using run_correlate_same [OF assms(1) s'(2) [symmetric]] by blast
  have [simp]: "same_scan (x\<lparr>sc_cache := e\<rparr>) (x\<lparr>sc_cache := e'\<rparr>)" for x
    using run(3) by (auto simp: same_scan_def)
  have [simp]: "same_scan x (x\<lparr>sc_cache := d\<rparr>)" if "sc_cache x = sc_cache s" for x
    using s'(2) that by (auto simp: same_scan_def)
  show ?thesis
    by (cases s) (use run s' in \<open>auto simp: scan_rule_def s'(1) same_step_def same_scan_def Let_def split: sum.split option.split\<close>)
qed

lemma scan_rules_same:
  assumes "\<forall>r \<in> set rules. rca_rule r" "same_scan s s'"
  shows "\<exists>ans m c c'. scan_rules env event rules s = (ans, m, c) \<and> scan_rules env event rules s' = (ans, m, c')
    \<and> rc_store c = rc_store c'"
  using assms
proof (induction rules arbitrary: s s')
  case Nil
  then show ?case by (auto simp: same_scan_def)
next
  case (Cons r rules)
  then have step: "same_step (scan_rule env event r s) (scan_rule env event r s')"
    by (intro scan_rule_same) simp_all
  show ?case
  proof (cases "scan_rule env event r s")
    case (Inl a)
    with step show ?thesis by (cases "scan_rule env event r s'") (auto simp: same_step_def split: prod.splits)
  next
    case (Inr t)
    with step obtain t' where "scan_rule env event r s' = Inr t'" "same_scan t t'"
      by (cases "scan_rule env event r s'") (auto simp: same_step_def split: prod.splits)
    with Inr Cons show ?thesis by simp
  qed
qed

lemma evaluate_same:
  assumes "\<forall>r \<in> set rules. rca_rule r" "rc_store c = rc_store c'"
  shows "\<exists>ans m d d'. evaluate env rules event c = (ans, m, d) \<and> evaluate env rules event c' = (ans, m, d')
    \<and> rc_store d = rc_store d'"
  unfolding evaluate_def by (rule scan_rules_same [OF assms(1)]) (use assms(2) in \<open>auto simp: same_scan_def\<close>)

lemma first_match_same:
  assumes "\<forall>r \<in> set rules. rca_rule r" "rc_store c = rc_store c'"
  shows "\<exists>found m d d'. first_match env rules events meta c = (found, m, d)
    \<and> first_match env rules events meta c' = (found, m, d') \<and> rc_store d = rc_store d'"
  using assms(2)
proof (induction events arbitrary: meta c c')
  case (Cons e events)
  obtain ans m d d' where ev: "evaluate env rules e c = (ans, m, d)" "evaluate env rules e c' = (ans, m, d')"
    "rc_store d = rc_store d'"
    using evaluate_same [OF assms(1) Cons.prems] by blast
  then show ?case using Cons.IH [of d d' m] by (cases ans) simp_all
qed simp

subsection \<open>The reads of the pipeline\<close>

text \<open>An operation whose answer depends on the objects of the cache alone, and that keeps them\<close>

definition store_only :: "(rcache \<Rightarrow> 'a \<times> rcache) \<Rightarrow> bool" where
  "store_only f \<longleftrightarrow>
     (\<forall>c c'. rc_store c = rc_store c' \<longrightarrow> fst (f c) = fst (f c')) \<and> (\<forall>c. rc_store (snd (f c)) = rc_store c)"

lemma store_onlyD:
  assumes "store_only f" "rc_store c = rc_store c'"
  obtains x d d' where "f c = (x, d)" "f c' = (x, d')" "rc_store d = rc_store c" "rc_store d' = rc_store c"
  using assms unfolding store_only_def by (metis prod.collapse)

lemma store_only_return [simp]: "store_only (\<lambda>c. (x, c))"
  by (simp add: store_only_def)

lemma store_only_bind:
  assumes "store_only f" "\<And>x. store_only (g x)"
  shows "store_only (\<lambda>c. let (x, d) = f c in g x d)"
  unfolding store_only_def
proof (intro conjI allI impI)
  fix c c' :: rcache
  assume "rc_store c = rc_store c'"
  with assms(1) obtain x d d' where f: "f c = (x, d)" "f c' = (x, d')" "rc_store d = rc_store c" "rc_store d' = rc_store c"
    by (rule store_onlyD)
  then have "fst (g x d) = fst (g x d')" using assms(2) [of x] unfolding store_only_def by metis
  then show "fst (let (x, d) = f c in g x d) = fst (let (x, d) = f c' in g x d)" by (simp add: f)
next
  fix c
  obtain x d where f: "f c = (x, d)" by fastforce
  then have "rc_store d = rc_store c" using assms(1) unfolding store_only_def by (metis snd_conv)
  moreover have "rc_store (snd (g x d)) = rc_store d" using assms(2) [of x] unfolding store_only_def by blast
  ultimately show "rc_store (snd (let (x, d) = f c in g x d)) = rc_store c" by (simp add: f)
qed

lemma store_only_map:
  assumes "store_only f"
  shows "store_only (\<lambda>c. let (x, d) = f c in (h x, d))"
  using assms by (rule store_only_bind) simp

lemma cache_get_only: "store_only (cache_get now kind ns name)"
  by (simp add: store_only_def cache_get_fst)

lemma synthesise_only: "store_only (synthesise_status_events now ids cl kind ns name)"
proof -
  have "fst (synthesise_status_events now ids cl kind ns name c) = fst (synthesise_status_events now ids cl kind ns name c')"
    if same: "rc_store c = rc_store c'" for c c'
  proof -
    obtain x d d' where "cache_get now kind ns name c = (x, d)" "cache_get now kind ns name c' = (x, d')"
      using store_onlyD [OF cache_get_only same] by blast
    then show ?thesis
      by (cases "kind = ''Pod''"; cases x) (simp_all add: synthesise_status_events_def Let_def)
  qed
  then show ?thesis unfolding store_only_def by (metis synthesise_store)
qed

lemma container_statuses_only: "store_only (get_container_statuses now ns name)"
proof -
  have "get_container_statuses now ns name = (\<lambda>c. let (x, d) = cache_get now ''Pod'' ns name c in
      (case x of None \<Rightarrow> []
       | Some v \<Rightarrow> concat (map (\<lambda>x. case x of PDict d \<Rightarrow> [d] | _ \<Rightarrow> [])
             (list_or_empty (vget (PList []) (vw_status v) ''containerStatuses''))), d))"
    by (simp add: get_container_statuses_def fun_eq_iff split: prod.split option.split)
  then show ?thesis by (simp only: store_only_map [OF cache_get_only])
qed

lemma resource_specs_only: "store_only (get_resource_specs now key)"
proof -
  obtain kind ns name where key: "key = (kind, ns, name)" by (cases key) auto
  have "get_resource_specs now key = (\<lambda>c. let (x, d) = cache_get now kind ns name c in
      (case x of None \<Rightarrow> [] | Some v \<Rightarrow> [spec_entry v], d))"
    by (simp add: get_resource_specs_def key fun_eq_iff split: prod.split option.split)
  then show ?thesis by (simp only: store_only_map [OF cache_get_only])
qed

lemma assemble_evidence_only: "store_only (assemble_evidence env inc events tw context)"
  unfolding assemble_evidence_def Let_def
  by (rule store_only_bind [OF container_statuses_only, unfolded Let_def]) (rule store_only_map [OF resource_specs_only, unfolded Let_def])

lemma context_entry_only: "store_only (context_entry now res rel)"
  unfolding context_entry_def by (rule store_only_map [OF cache_get_only])

lemma downstream_entries_only: "store_only (downstream_entries now key edges rs)"
proof (induction rs)
  case Nil
  have "downstream_entries now key edges [] = (\<lambda>c. ([], c))" by (simp add: fun_eq_iff)
  then show ?case by simp
next
  case (Cons res rs)
  show ?case
  proof (cases "node_key res = key")
    case True
    then have "downstream_entries now key edges (res # rs) = downstream_entries now key edges rs" by (simp add: fun_eq_iff)
    then show ?thesis using Cons.IH by simp
  next
    case False
    then have "downstream_entries now key edges (res # rs) =
        (\<lambda>c. let (entry, c1) = context_entry now res (edge_relationship edges (fst key) (snd (snd key)) res) c in
             let (entries, c2) = downstream_entries now key edges rs c1 in (entry # entries, c2))"
      by (simp add: fun_eq_iff)
    then show ?thesis
      using store_only_bind [OF context_entry_only store_only_map [OF Cons.IH]] by simp
  qed
qed

lemma upstream_entries_only: "store_only (upstream_entries now key edges rs entries)"
proof (induction rs arbitrary: entries)
  case Nil
  have "upstream_entries now key edges [] entries = (\<lambda>c. (entries, c))" by (simp add: fun_eq_iff)
  then show ?case by simp
next
  case (Cons res rs)
  show ?case
  proof (cases "node_key res = key \<or> node_key res \<in> set (map entry_resource entries)")
    case True
    then have "upstream_entries now key edges (res # rs) entries = upstream_entries now key edges rs entries"
      by (simp add: fun_eq_iff)
    then show ?thesis using Cons.IH by simp
  next
    case False
    let ?rel = "edge_relationship edges (fst key) (snd (snd key)) res"
    let ?rel' = "if ?rel \<noteq> [] then ?rel else gn_kind res @ '' depends on '' @ fst key @ ''/'' @ snd (snd key)"
    from False have "upstream_entries now key edges (res # rs) entries =
        (\<lambda>c. let (entry, c1) = context_entry now res ?rel' c in upstream_entries now key edges rs (entries @ [entry]) c1)"
      by (simp add: fun_eq_iff Let_def)
    then show ?thesis
      using store_only_bind [OF context_entry_only Cons.IH] by simp
  qed
qed

lemma build_state_context_only: "store_only (build_state_context now graph key)"
proof (cases graph)
  case None
  then have "build_state_context now graph key = (\<lambda>c. ([], c))" by (simp add: build_state_context_def fun_eq_iff)
  then show ?thesis by simp
next
  case (Some g)
  let ?down = "downstream g key 2" and ?up = "upstream g key 1"
  from Some have "build_state_context now graph key =
      (\<lambda>c. let (entries, c1) = downstream_entries now key (dr_edges ?down) (dr_resources ?down) c in
           let (entries', c2) = upstream_entries now key (dr_edges ?up) (dr_resources ?up) entries c1 in (take 10 entries', c2))"
    by (simp add: build_state_context_def fun_eq_iff Let_def)
  then show ?thesis
    using store_only_bind [OF downstream_entries_only store_only_map [OF upstream_entries_only]] by simp
qed

subsection \<open>The pipeline\<close>

text \<open>Two outcomes that differ in the cache's bookkeeping only\<close>

definition same_outcome :: "analysis \<Rightarrow> analysis \<Rightarrow> bool" where
  "same_outcome a b \<longleftrightarrow>
     fst a = fst b \<and> cs_llm (snd a) = cs_llm (snd b) \<and> rc_store (cs_cache (snd a)) = rc_store (cs_cache (snd b))"

lemma escalate_same:
  assumes "rc_store (cs_cache st) = rc_store (cs_cache st')" "cs_llm st = cs_llm st'"
  shows "same_outcome (escalate env key tw readiness incident events meta st)
    (escalate env key tw readiness incident events meta st')"
proof -
  obtain ctx c1 c1' where ctx: "build_state_context (co_now env) (co_graph env) key (cs_cache st) = (ctx, c1)"
    "build_state_context (co_now env) (co_graph env) key (cs_cache st') = (ctx, c1')"
    "rc_store c1 = rc_store (cs_cache st)" "rc_store c1' = rc_store (cs_cache st)"
    by (rule store_onlyD [OF build_state_context_only assms(1)])
  then have "rc_store c1 = rc_store c1'" by simp
  then obtain ev c2 c2' where ev: "assemble_evidence env incident events tw ctx c1 = (ev, c2)"
    "assemble_evidence env incident events tw ctx c1' = (ev, c2')"
    "rc_store c2 = rc_store c1" "rc_store c2' = rc_store c1"
    by (rule store_onlyD [OF assemble_evidence_only])
  show ?thesis
    using assms ctx ev
    by (auto simp: escalate_def same_outcome_def Let_def split: option.split sum.split prod.split)
qed

lemma diagnose_same:
  assumes "\<forall>r \<in> set (co_rules env). rca_rule r"
    and "rc_store (cs_cache st) = rc_store (cs_cache st')" "cs_llm st = cs_llm st'"
  shows "same_outcome (diagnose env key tw readiness st) (diagnose env key tw readiness st')"
proof -
  obtain kind ns name where key: "key = (kind, ns, name)" by (cases key) auto
  obtain syn c1 c1' where syn:
    "synthesise_status_events (co_now env) (co_ids env) (co_cluster_id env) kind ns name (cs_cache st) = (syn, c1)"
    "synthesise_status_events (co_now env) (co_ids env) (co_cluster_id env) kind ns name (cs_cache st') = (syn, c1')"
    "rc_store c1 = rc_store (cs_cache st)" "rc_store c1' = rc_store (cs_cache st)"
    by (rule store_onlyD [OF synthesise_only assms(2)])
  define buffered where "buffered = sorted_events (co_now env) key (co_buffer env)"
  define events where "events = syn @ buffered"
  let ?m0 = "\<lparr>em_evaluated = 0, em_matched = 0, em_warnings = []\<rparr>"
  note unfolded = diagnose_def key Let_def prod.case syn(1,2) buffered_def [symmetric, unfolded key]
    events_def [symmetric]
  show ?thesis
  proof (cases events)
    case Nil
    then show ?thesis using syn(3,4) assms(3) by (simp add: unfolded same_outcome_def)
  next
    case (Cons first rest)
    from syn have "rc_store c1 = rc_store c1'" by simp
    from first_match_same [OF assms(1) this, of "co_engine env" events ?m0]
    obtain found m c2 c2' where fm: "first_match (co_engine env) (co_rules env) events ?m0 c1 = (found, m, c2)"
      "first_match (co_engine env) (co_rules env) events ?m0 c1' = (found, m, c2')" "rc_store c2 = rc_store c2'"
      by blast
    from escalate_same [of "st\<lparr>cs_cache := c2\<rparr>" "st'\<lparr>cs_cache := c2'\<rparr>"] fm(3) assms(3)
    have "same_outcome (escalate env key tw readiness first buffered m (st\<lparr>cs_cache := c2\<rparr>))
        (escalate env key tw readiness first buffered m (st'\<lparr>cs_cache := c2'\<rparr>))" by simp
    then show ?thesis
      using Cons fm assms(3)
      by (cases found) (auto simp: unfolded same_outcome_def)
  qed
qed

lemma analyze_same:
  assumes rules: "co_rules env = kuberca_rules tier2"
    and "rc_store (cs_cache st) = rc_store (cs_cache st')" "cs_llm st = cs_llm st'"
    and "fst (cache_readiness_of (co_now env) (cs_cache st)) = fst (cache_readiness_of (co_now env) (cs_cache st'))"
  shows "same_outcome (analyze env resource tw st) (analyze env resource tw st')"
proof -
  obtain re c c' where re: "cache_readiness_of (co_now env) (cs_cache st) = (re, c)"
    "cache_readiness_of (co_now env) (cs_cache st') = (re, c')"
    using assms(4) by (metis prod.collapse)
  have c: "rc_store c = rc_store (cs_cache st)" "rc_store c' = rc_store (cs_cache st)"
    using readiness_pair re assms(2) by metis+
  have contract: "\<forall>r \<in> set (co_rules env). rca_rule r" using rules kuberca_rules_contract by simp
  have refused: "same_outcome (refuse env cause ws st) (refuse env cause ws st')" for cause ws
    using re c assms(3) by (simp add: refuse_def same_outcome_def)
  have diagnosed: "same_outcome (diagnose env key tw re (st\<lparr>cs_cache := c\<rparr>)) (diagnose env key tw re (st'\<lparr>cs_cache := c'\<rparr>))" for key
    using diagnose_same [OF contract] c assms(3) by simp
  show ?thesis
    using refused diagnosed re c assms(2,3)
    by (auto simp: analyze_def same_outcome_def split: sum.split option.split)
qed

text \<open>
  C25: The response of an analysis, the requests it makes to the LLM and the objects it leaves depend on the
  cache only through its objects and the readiness it reports at the start: what was read before, and how
  often, does not matter.
\<close>
theorem diagnosis_depends_on_objects:
  assumes "co_rules env = kuberca_rules tier2"
    and "rc_store (cs_cache st) = rc_store (cs_cache st')" "cs_llm st = cs_llm st'"
    and "fst (cache_readiness_of (co_now env) (cs_cache st)) = fst (cache_readiness_of (co_now env) (cs_cache st'))"
  shows "fst (analyze env resource tw st) = fst (analyze env resource tw st')
    \<and> cs_llm (snd (analyze env resource tw st)) = cs_llm (snd (analyze env resource tw st'))
    \<and> rc_store (cs_cache (snd (analyze env resource tw st))) = rc_store (cs_cache (snd (analyze env resource tw st')))"
  using analyze_same [OF assms] by (simp add: same_outcome_def)

text \<open>Nineteen hits and one miss of the last five minutes leave the cache ready.\<close>

definition busy_state :: co_state where
  "busy_state = small_state\<lparr>cs_cache := (cs_cache small_state)\<lparr>rc_access := (0, False) # replicate 19 (0, True)\<rparr>\<rparr>"

lemma busy_ready: "fst (cache_readiness_of 0 (cs_cache busy_state)) = READY"
  unfolding busy_state_def small_state_def cache_readiness_of_def Let_def fst_conv
  by (subst recompute_readiness_iff)
     (simp_all add: cache_init_def readiness_spec_def diverged_spec_def recent_accesses_def misses_of_def
       recent_relist_timeouts_def recent_burst_duration_def)

theorem diagnosis_depends_on_objects_witness:
  "fst (analyze small_coordinator ''Pod/shop/cart'' ''2h'' busy_state)
     = fst (analyze small_coordinator ''Pod/shop/cart'' ''2h'' small_state)"
proof -
  have "co_rules small_coordinator = kuberca_rules True" "co_now small_coordinator = 0"
    by (simp_all add: small_coordinator_def)
  moreover have "rc_store (cs_cache busy_state) = rc_store (cs_cache small_state)" "cs_llm busy_state = cs_llm small_state"
    by (simp_all add: busy_state_def)
  moreover have "fst (cache_readiness_of 0 (cs_cache small_state)) = READY" by (simp add: small_ready)
  ultimately show ?thesis
    using diagnosis_depends_on_objects [of small_coordinator True busy_state small_state "''Pod/shop/cart''" "''2h''"] busy_ready
    by simp
qed

end
