(* ===== verification/Mcp.thy ===== *)
theory Mcp
  imports Api DiagnosisReads
begin

text \<open>
  \<open>kuberca/mcp/server.py\<close>: the two tools offered to AI assistants, as they are declared and as they answer.
  The arguments are strings: the input schemas of the tools say so, and the MCP library checks a call against
  them before the handler runs; that check is code of the library and is not modelled.  A tool answers with one text, the JSON of a dictionary (\<open>tool_text\<close>).  The stdio transport is not
  modelled.
\<close>

type_synonym payload = "(str, doc) dict"

definition plain :: "pydict \<Rightarrow> payload" where
  "plain d = map (\<lambda>(k, v). (k, doc_of v)) d"

text \<open>\<open>TextContent(type="text", text=json.dumps(payload))\<close>\<close>

definition tool_text :: "payload \<Rightarrow> str" where
  "tool_text payload = doc_text default_layout 0 (JDict payload)"

definition error_payload :: "str \<Rightarrow> str \<Rightarrow> payload" where
  "error_payload code detail =
     plain [(''isError'', PBool True), (''error'', PStr code), (''detail'', PStr detail)]"

definition item_doc :: "evidence_item \<Rightarrow> doc" where
  "item_doc e =
     JDict [(''type'', JStr (evidence_value (ei_type e))), (''timestamp'', JStr (ei_timestamp e)),
            (''summary'', JStr (ei_summary e)), (''debug_context'', JNull)]"

definition rca_response_to_dict :: "rca_response \<Rightarrow> payload" where
  "rca_response_to_dict rca =
     [(''root_cause'', JStr (rs_root_cause rca)), (''confidence'', float_doc (rs_confidence rca)),
      (''diagnosed_by'', JStr (diagnosis_value (rs_diagnosed_by rca))),
      (''rule_id'', opt_doc JStr (rs_rule_id rca)),
      (''evidence'', JList (map item_doc (rs_evidence rca))),
      (''affected_resources'', JList (map affected_doc (rs_affected rca))),
      (''suggested_remediation'', JStr (rs_remediation rca)), (''_meta'', meta_doc (rs_meta rca))]"

definition status_dict :: "cluster_status \<Rightarrow> pydict" where
  "status_dict s =
     [(''pod_counts'', PDict (map (\<lambda>(phase, n). (phase, PInt (int n))) (st_pod_counts s))),
      (''node_conditions'', PList (map PDict (st_node_conditions s))),
      (''active_anomalies'', PList (map PDict (st_active_anomalies s))),
      (''recent_events'', PList (map PDict (st_recent_events s))), (''cache_state'', PStr (st_cache_state s))]"

definition handle_cluster_status :: "status_source \<Rightarrow> (str, str) dict \<Rightarrow> payload" where
  "handle_cluster_status src args = plain (status_dict (build_cluster_status src (dget args ''namespace'')))"

definition handle_analyze_incident ::
  "coordinator \<Rightarrow> (str, str) dict \<Rightarrow> api_state \<Rightarrow> payload \<times> api_state" where
  "handle_analyze_incident env args st =
     (let resource = dget_or [] args ''resource''; time_window = dget args ''time_window'' in
      if resource = []
      then (error_payload ''INVALID_RESOURCE_FORMAT'' (py_repr ''resource'' @ '' argument is required''), st)
      else case resource_parts resource of
          None \<Rightarrow> (error_payload ''INVALID_RESOURCE_FORMAT''
                    (''resource must be Kind/namespace/name, got: '' @ py_repr resource), st)
        | Some key \<Rightarrow>
            (case run_analysis env (canonical key) (window_or_default time_window) st of
               (Inl exc, st1) \<Rightarrow> (error_payload ''INTERNAL_ERROR'' exc, st1)
             | (Inr rca, st1) \<Rightarrow> (rca_response_to_dict rca, st1)))"

definition call_tool ::
  "coordinator \<Rightarrow> status_source \<Rightarrow> str \<Rightarrow> (str, str) dict option \<Rightarrow> api_state \<Rightarrow> payload \<times> api_state" where
  "call_tool env src name arguments st =
     (let args = (case arguments of None \<Rightarrow> [] | Some a \<Rightarrow> a) in
      if name = ''k8s_cluster_status'' then (handle_cluster_status src args, st)
      else if name = ''k8s_analyze_incident'' then handle_analyze_incident env args st
      else (plain [(''error'', PStr (''Unknown tool: '' @ name))], st))"

subsection \<open>The declarations of the tools\<close>

record tool =
  tl_name :: str
  tl_description :: str
  tl_schema :: pydict

definition string_property :: "str \<Rightarrow> pyval" where
  "string_property description = PDict [(''type'', PStr ''string''), (''description'', PStr description)]"

definition STATUS_TOOL :: tool where
  "STATUS_TOOL =
     \<lparr>tl_name = ''k8s_cluster_status'',
      tl_description = ''Returns a JSON snapshot of the current Kubernetes cluster ''
        @ ''state: pod phase counts, node conditions, active anomalies, ''
        @ ''recent events, and cache readiness.'',
      tl_schema =
        [(''type'', PStr ''object''),
         (''properties'', PDict
            [(''namespace'', string_property ''Optional namespace filter.  Omit to include all namespaces.'')]),
         (''additionalProperties'', PBool False)]\<rparr>"

definition ANALYZE_TOOL :: tool where
  "ANALYZE_TOOL =
     \<lparr>tl_name = ''k8s_analyze_incident'',
      tl_description = ''Triggers root-cause analysis for a Kubernetes resource.  ''
        @ ''Returns an RCAResponse JSON object with root_cause, ''
        @ ''confidence, evidence, affected_resources, and remediation.'',
      tl_schema =
        [(''type'', PStr ''object''),
         (''properties'', PDict
            [(''resource'', string_property (''Resource in Kind/namespace/name format, e.g. '' @ py_repr ''Pod/default/my-pod''
                @ ''.'')),
             (''time_window'', string_property (''Look-back window, e.g. '' @ join '', '' (map py_repr [''2h'', ''30m'', ''1d''])
                @ ''.  Defaults to server configuration.''))]),
         (''required'', PList [PStr ''resource'']), (''additionalProperties'', PBool False)]\<rparr>"

definition TOOLS :: "tool list" where
  "TOOLS = [STATUS_TOOL, ANALYZE_TOOL]"

text \<open>\<open>MCPServer.start\<close>: what the server announces of itself\<close>

definition init_options :: "str \<times> str" where
  "init_options = (''kuberca'', KUBERCA_VERSION)"

subsection \<open>The tool and the route give the same diagnosis\<close>

definition tool_arguments :: "analyze_request \<Rightarrow> (str, str) dict" where
  "tool_arguments request =
     (''resource'', rq_resource request)
     # (case rq_time_window request of None \<Rightarrow> [] | Some w \<Rightarrow> [(''time_window'', w)])"

lemma handle_valid_request:
  assumes "resource_parts (rq_resource request) = Some key"
  shows "handle_analyze_incident env (tool_arguments request) st =
    (case run_analysis env (canonical key) (window_or_default (rq_time_window request)) st of
       (Inl exc, st1) \<Rightarrow> (error_payload ''INTERNAL_ERROR'' exc, st1)
     | (Inr rca, st1) \<Rightarrow> (rca_response_to_dict rca, st1))"
proof -
  have "rq_resource request \<noteq> []" using assms by (auto simp: resource_parts_def)
  then show ?thesis using assms
    by (simp add: handle_analyze_incident_def tool_arguments_def dget_or_def Let_def split: option.split)
qed

lemma serve_cached:
  assumes "parse_body type_msg body = Inr request" "resource_parts (rq_resource request) = Some key" "is_cached key st"
    and "run_analysis env (canonical key) (window_or_default (rq_time_window request)) (snd (look_up env key st)) = (res, st1)"
  shows "serve_analyze type_msg env None body st =
    (case res of
       Inl exc \<Rightarrow> (internal_error, st1)
     | Inr rca \<Rightarrow> (Reply (rca_to_schema rca),
         st1\<lparr>as_metrics := count_request (diagnosis_value (rs_diagnosed_by rca)) (as_metrics st1)\<rparr>))"
proof -
  from assms(1) obtain kind ns name where parts: "split_on (CHR ''/'') (rq_resource request) = [kind, ns, name]"
    "resource_parts (rq_resource request) = Some (kind, ns, name)"
    by (rule parse_body_valid) blast
  with assms(2) have key: "key = (kind, ns, name)" by simp
  with assms show ?thesis
    using post_analyze_valid [OF parts(1), of env st]
    by (auto simp: serve_analyze_def Let_def split: sum.split)
qed

text \<open>Whether the access that the route's look-up records changes the readiness the cache reports\<close>

definition look_up_keeps_readiness :: "coordinator \<Rightarrow> rkey \<Rightarrow> api_state \<Rightarrow> bool" where
  "look_up_keeps_readiness env key st \<longleftrightarrow>
     fst (cache_readiness_of (co_now env) (cs_cache (as_core (snd (look_up env key st)))))
     = fst (cache_readiness_of (co_now env) (cs_cache (as_core st)))"

text \<open>
  C24: Asked in the same state about the same cached resource and window, the REST route and the MCP tool
  give the same diagnosis, or both report an internal error, and leave the same cached objects and the
  same LLM client behind.  The route looks the resource up first and the tool does not: the one thing the
  two can differ by is the readiness of the cache, in case the hit that is recorded there changes it.
\<close>
theorem mcp_agrees_with_rest:
  assumes "parse_body type_msg body = Inr request" "resource_parts (rq_resource request) = Some key"
    and "is_cached key st" "look_up_keeps_readiness env key st" "co_rules env = kuberca_rules tier2"
    and "serve_analyze type_msg env work_queue_is_full body st = (rest, st1)"
    and "call_tool env src ''k8s_analyze_incident'' (Some (tool_arguments request)) st = (answer, st2)"
  shows "((\<exists>rca. rest = Reply (rca_to_schema rca) \<and> answer = rca_response_to_dict rca)
      \<or> (\<exists>exc. rest = internal_error \<and> answer = error_payload ''INTERNAL_ERROR'' exc))
    \<and> cs_llm (as_core st1) = cs_llm (as_core st2)
    \<and> rc_store (cs_cache (as_core st1)) = rc_store (cs_cache (as_core st2))"
proof -
  let ?w = "window_or_default (rq_time_window request)" and ?looked = "snd (look_up env key st)"
  obtain kind ns name where key: "key = (kind, ns, name)" by (cases key) auto
  have core: "rc_store (cs_cache (as_core ?looked)) = rc_store (cs_cache (as_core st))" "cs_llm (as_core ?looked) = cs_llm (as_core st)"
    by (auto simp: look_up_def key dest: cache_get_keeps split: prod.split)
  have "same_outcome (analyze env (canonical key) ?w (as_core ?looked)) (analyze env (canonical key) ?w (as_core st))"
    by (rule analyze_same [where ?tier2.0 = tier2])
       (use core assms(4,5) in \<open>simp_all add: look_up_keeps_readiness_def\<close>)
  then obtain res core1 core2 where an: "analyze env (canonical key) ?w (as_core ?looked) = (res, core1)"
    "analyze env (canonical key) ?w (as_core st) = (res, core2)"
    and same: "cs_llm core1 = cs_llm core2" "rc_store (cs_cache core1) = rc_store (cs_cache core2)"
    unfolding same_outcome_def by (metis prod.collapse)
  then obtain m1 m2 where run: "run_analysis env (canonical key) ?w ?looked = (res, \<lparr>as_core = core1, as_metrics = m1\<rparr>)"
    "run_analysis env (canonical key) ?w st = (res, \<lparr>as_core = core2, as_metrics = m2\<rparr>)"
    by (simp add: run_analysis_def)
  show ?thesis
    using serve_cached [OF assms(1-3) run(1)] handle_valid_request [OF assms(2), of env st] run(2) same assms(6,7)
    by (cases res) (auto simp: call_tool_def work_queue_is_full_def)
qed

text \<open>A cache that is still warming and holds one pod\<close>

definition warming_cart :: api_state where
  "warming_cart =
     \<lparr>as_core = \<lparr>cs_cache = cache_init\<lparr>rc_store :=
          [(''Pod'', [(''shop'', [(''cart'', watched 0 ''Pod'' ''shop'' ''cart'' [])])])]\<rparr>,
        cs_llm = \<lparr>la_available = False, la_requests = 0\<rparr>\<rparr>, as_metrics = metrics_init\<rparr>"

definition cart_body :: pyval where
  "cart_body = PDict [(''resource'', PStr ''Pod/shop/cart'')]"

definition cart_request :: analyze_request where
  "cart_request = \<lparr>rq_resource = ''Pod/shop/cart'', rq_time_window = None\<rparr>"

lemma cart_parsed:
  "parse_body type_msg (Some cart_body) = Inr cart_request"
  "split_on (CHR ''/'') (rq_resource cart_request) = [''Pod'', ''shop'', ''cart'']"
  "resource_parts (rq_resource cart_request) = Some (''Pod'', ''shop'', ''cart'')"
  by (simp_all add: parse_body_def cart_body_def resource_field_def time_window_field_def validate_resource_format_def
      resource_parts_def cart_request_def)

lemma analyze_warming:
  assumes "parse_resource resource = Inr key" "validate_time_window w = Inr None"
    "rc_all_kinds (cs_cache st) = {}"
  shows "\<exists>r. fst (analyze env resource w st) = Inr r"
  using assms by (simp add: analyze_def cache_readiness_of_def recompute_readiness_def Let_def)

lemma cart_served: "\<exists>sc st1. serve_analyze type_msg small_coordinator None (Some cart_body) warming_cart = (Reply sc, st1)"
proof -
  let ?key = "(''Pod'', ''shop'', ''cart'')" and ?st = "snd (look_up small_coordinator (''Pod'', ''shop'', ''cart'') warming_cart)"
  have cached: "is_cached ?key warming_cart"
    by (simp add: is_cached_def warming_cart_def store_get_def dget_or_def)
  have "rc_all_kinds (cs_cache (as_core ?st)) = {}"
    by (simp add: look_up_def warming_cart_def cache_get_def record_access_def cache_init_def split: option.split)
  moreover have "parse_resource (canonical ?key) = Inr ?key" by code_simp
  moreover have "validate_time_window (window_or_default (rq_time_window cart_request)) = Inr None" by code_simp
  ultimately obtain r where "fst (run_analysis small_coordinator (canonical ?key)
      (window_or_default (rq_time_window cart_request)) ?st) = Inr r"
    using analyze_warming run_analysis_fst by metis
  then show ?thesis
    using post_analyze_valid [OF cart_parsed(2), of small_coordinator warming_cart] cached
    by (auto simp: serve_analyze_def cart_parsed(1) Let_def split: prod.split)
qed

lemma cart_state:
  "is_cached (''Pod'', ''shop'', ''cart'') warming_cart"
  "look_up_keeps_readiness small_coordinator (''Pod'', ''shop'', ''cart'') warming_cart"
  "co_rules small_coordinator = kuberca_rules True"
proof -
  show cached: "is_cached (''Pod'', ''shop'', ''cart'') warming_cart"
    by (simp add: is_cached_def warming_cart_def store_get_def dget_or_def)
  show "look_up_keeps_readiness small_coordinator (''Pod'', ''shop'', ''cart'') warming_cart"
    by (simp add: look_up_keeps_readiness_def look_up_def warming_cart_def cache_get_def record_access_def cache_init_def
        cache_readiness_of_def recompute_readiness_def Let_def split: option.split)
  show "co_rules small_coordinator = kuberca_rules True"
    by (simp add: small_coordinator_def)
qed

theorem mcp_agrees_with_rest_witness:
  "\<exists>rca st1 st2. serve_analyze (\<lambda>_ _. []) small_coordinator None (Some cart_body) warming_cart = (Reply (rca_to_schema rca), st1)
    \<and> call_tool small_coordinator demo_source ''k8s_analyze_incident'' (Some (tool_arguments cart_request)) warming_cart
        = (rca_response_to_dict rca, st2)"
proof -
  obtain sc st1 where rest: "serve_analyze (\<lambda>_ _. []) small_coordinator work_queue_is_full (Some cart_body) warming_cart = (Reply sc, st1)"
    using cart_served [of "\<lambda>_ _. []"] unfolding work_queue_is_full_def by blast
  obtain answer st2 where mcp: "call_tool small_coordinator demo_source ''k8s_analyze_incident''
      (Some (tool_arguments cart_request)) warming_cart = (answer, st2)"
    by fastforce
  from mcp_agrees_with_rest [OF cart_parsed(1,3) cart_state rest mcp] rest mcp
  show ?thesis by (auto simp: work_queue_is_full_def internal_error_def)
qed

text \<open>The tool's dictionary leaves the blast radius out, and does not look the resource up first.\<close>

lemma mcp_drops_blast_radius: "dget (rca_response_to_dict rca) ''blast_radius'' = None"
  by (simp add: rca_response_to_dict_def)

subsection \<open>The text of an answer\<close>

lemma plain_ok: "vwf (PDict d) \<Longrightarrow> ints_ok (PDict d) \<Longrightarrow> doc_ok (JDict (plain d))"
  using doc_of_ok [of "PDict d"] by (simp add: plain_def)

lemma error_payload_ok: "doc_ok (JDict (error_payload code detail))"
  unfolding error_payload_def by (rule plain_ok) (simp_all add: dwf_def)

lemma rca_response_ok:
  assumes "response_ok r" "length (show_nat (nat \<bar>rm_response_time_ms (rs_meta r)\<bar>)) \<le> 4300"
  shows "doc_ok (JDict (rca_response_to_dict r))"
  using float_doc_ok [OF response_ok_confidence [OF assms(1)]] meta_doc_ok [OF assms(2)]
  by (auto simp: rca_response_to_dict_def opt_doc_def dwf_def list_all_iff item_doc_def split: option.split)

text \<open>
  C26: Whatever \<open>k8s_analyze_incident\<close> answers, a diagnosis or an error, its text is JSON that reads back as the very
  dictionary that was answered, the confidence bit for bit.
\<close>
theorem tool_answer_roundtrip:
  assumes "clock_ok env"
    and "call_tool (env\<lparr>co_rules := kuberca_rules tier2\<rparr>) src ''k8s_analyze_incident'' arguments st = (answer, st')"
  shows "loads_doc (tool_text answer) = Inr (JDict answer)"
proof -
  let ?env = "env\<lparr>co_rules := kuberca_rules tier2\<rparr>"
  have clock: "clock_ok ?env" using assms(1) by (simp add: clock_ok_def)
  have "doc_ok (JDict (rca_response_to_dict r))" if "run_analysis ?env resource w st1 = (Inr r, st2)" for resource w st1 r st2
  proof (rule rca_response_ok)
    from that have an: "fst (analyze ?env resource w (as_core st1)) = Inr r"
      using run_analysis_fst [of ?env resource w st1] by simp
    then show "response_ok r"
      using analyze_well_formed [where env = env and ?tier2.0 = tier2 and resource = resource and time_window = w
          and st = "as_core st1"] by simp
    show "length (show_nat (nat \<bar>rm_response_time_ms (rs_meta r)\<bar>)) \<le> 4300"
      using clock_elapsed(2) [OF clock] analyze_elapsed [OF an] by simp
  qed
  then have "doc_ok (JDict answer)"
    using assms(2) error_payload_ok
    by (auto simp: call_tool_def handle_analyze_incident_def Let_def simp del: doc_ok.simps
        split: if_splits option.splits prod.splits sum.splits)
  then show ?thesis unfolding tool_text_def by (rule loads_doc_text) (rule layouts_ok)
qed

theorem tool_answer_roundtrip_witness:
  "\<exists>answer st'. call_tool small_coordinator demo_source ''k8s_analyze_incident'' (Some (tool_arguments cart_request)) warming_cart
      = (answer, st') \<and> loads_doc (tool_text answer) = Inr (JDict answer)"
proof -
  have "clock_ok small_coordinator" "small_coordinator\<lparr>co_rules := kuberca_rules True\<rparr> = small_coordinator"
    by (simp_all add: clock_ok_def small_coordinator_def)
  then show ?thesis
    using tool_answer_roundtrip [of small_coordinator True demo_source "Some (tool_arguments cart_request)" warming_cart]
    by (metis prod.exhaust)
qed

end
