(* ===== verification/Cli.thy ===== *)
theory Cli
  imports Mcp
begin

text \<open>
  \<open>kuberca/cli/main.py\<close>: the commands, from their arguments to the lines they print, against the REST API of
  theory Api.  A printed line is a list of spans; \<open>click.style\<close> builds a styled one.  The bodies the commands
  receive are the ones the routes send, with every key of the response models; with \<open>--json\<close> a command prints the
  body as an indented document.
\<close>

subsection \<open>Colours\<close>

record style =
  fg :: "str option"
  bold :: bool
  underline :: bool

datatype span = Plain str | Styled str style

type_synonym line = "span list"

definition fg_style :: "str \<Rightarrow> style" where
  "fg_style color = \<lparr>fg = Some color, bold = False, underline = False\<rparr>"

definition bold_style :: style where
  "bold_style = \<lparr>fg = None, bold = True, underline = False\<rparr>"

definition SEVERITY_COLORS :: "(str, str) dict" where
  "SEVERITY_COLORS = [(''info'', ''green''), (''warning'', ''yellow''), (''error'', ''red''), (''critical'', ''bright_red'')]"

definition CACHE_STATE_COLORS :: "(str, str) dict" where
  "CACHE_STATE_COLORS =
     [(''ready'', ''green''), (''warming'', ''yellow''), (''partially_ready'', ''yellow''), (''degraded'', ''red'')]"

definition CONFIDENCE_THRESHOLDS :: "(dbl \<times> str) list" where
  "CONFIDENCE_THRESHOLDS = [(dlit 75 100, ''green''), (dlit 5 10, ''yellow''), (0, ''red'')]"

definition confidence_color :: "dbl \<Rightarrow> str" where
  "confidence_color confidence =
     (case find (\<lambda>(threshold, color). threshold \<le> confidence) CONFIDENCE_THRESHOLDS of
        None \<Rightarrow> ''red'' | Some (threshold, color) \<Rightarrow> color)"

definition styled_severity :: "str \<Rightarrow> span" where
  "styled_severity sev =
     Styled (upper sev) ((fg_style (dget_or ''white'' SEVERITY_COLORS (lower sev)))\<lparr>bold := True\<rparr>)"

definition styled_cache_state :: "str \<Rightarrow> span" where
  "styled_cache_state state = Styled state (fg_style (dget_or ''white'' CACHE_STATE_COLORS (lower state)))"

subsection \<open>HTTP\<close>

text \<open>
  What a request comes to: no connection, another exception of the HTTP client, or a response.  The
  exceptions of a command: \<open>ClickException\<close> and \<open>UsageError\<close> are shown to the user, others are not caught.
\<close>

datatype 'a exchange = ConnectError | TransportFailure str | Answered "'a http_reply"

datatype 'a outcome = Done 'a | ClickException str | UsageError str | Uncaught str

definition DEFAULT_API_URL :: str where
  "DEFAULT_API_URL = ''http://localhost:8080''"

text \<open>The option \<open>--api-url\<close>: as given, else from a non-empty environment variable, else the default\<close>

definition cli_api_url :: "str option \<Rightarrow> (str, str) dict \<Rightarrow> str" where
  "cli_api_url api_url env =
     (case api_url of
        Some url \<Rightarrow> url
      | None \<Rightarrow> (case dget env ''KUBERCA_API_URL'' of Some (c # cs) \<Rightarrow> c # cs | _ \<Rightarrow> DEFAULT_API_URL))"

text \<open>\<open>api_url.rstrip("/") + path\<close>\<close>

definition request_url :: "str \<Rightarrow> str \<Rightarrow> str" where
  "request_url api_url path = rev (dropWhile (\<lambda>c. c = CHR ''/'') (rev api_url)) @ path"

definition cannot_connect :: "str \<Rightarrow> str" where
  "cannot_connect api_url = ''Cannot connect to KubeRCA API at '' @ api_url @ ''. Is the server running?''"

definition handle_error_response :: "str \<Rightarrow> str \<Rightarrow> str" where
  "handle_error_response error_code detail = error_code @ '': '' @ detail"

definition http_result :: "str \<Rightarrow> 'a exchange \<Rightarrow> 'a outcome" where
  "http_result api_url answer =
     (case answer of
        ConnectError \<Rightarrow> ClickException (cannot_connect api_url)
      | TransportFailure exc \<Rightarrow> Uncaught exc
      | Answered (Reply body) \<Rightarrow> Done body
      | Answered (ErrorReply status code detail) \<Rightarrow> ClickException (handle_error_response code detail))"

subsection \<open>Printing a status\<close>

definition heading :: "str \<Rightarrow> str option \<Rightarrow> line" where
  "heading s color = [Styled s (bold_style\<lparr>fg := color\<rparr>)]"

definition phase_color :: "str \<Rightarrow> str" where
  "phase_color phase =
     (if phase = ''Running'' then ''green'' else if phase \<in> {''Pending'', ''Unknown''} then ''yellow'' else ''red'')"

definition pod_count_line :: "str \<times> nat \<Rightarrow> line" where
  "pod_count_line pc =
     (case pc of (phase, n) \<Rightarrow>
        [Plain ''  '', Styled phase (fg_style (phase_color phase)),
         Plain (replicate (18 - length phase) (CHR '' '') @ '' '' @ show_nat n)])"

definition field_text :: "str \<Rightarrow> pydict \<Rightarrow> str \<Rightarrow> str" where
  "field_text dflt d k = py_str (vget (PStr dflt) d k)"

definition unhealthy :: "pydict \<Rightarrow> bool" where
  "unhealthy cond \<longleftrightarrow> field_text [] cond ''status'' \<noteq> ''True''"

definition condition_line :: "pydict \<Rightarrow> line" where
  "condition_line cond =
     [Plain (''  '' @ field_text ''?'' cond ''name'' @ ''  ''), Styled (field_text ''?'' cond ''type'') (fg_style ''yellow''),
      Plain (''  reason='' @ field_text [] cond ''reason'')]"

definition incident_text :: "pydict \<Rightarrow> str" where
  "incident_text d =
     field_text ''?'' d ''resource_kind'' @ ''/'' @ field_text ''?'' d ''resource_name''
     @ '' ('' @ field_text ''?'' d ''namespace'' @ ''): '' @ field_text [] d ''reason''"

definition anomaly_line :: "pydict \<Rightarrow> line" where
  "anomaly_line a =
     [Plain ''  ['', styled_severity (field_text ''info'' a ''severity''), Plain (''] '' @ incident_text a)]"

definition recent_event_line :: "pydict \<Rightarrow> line" where
  "recent_event_line evt =
     [Plain ''  ['', styled_severity (field_text ''info'' evt ''severity''),
      Plain (''] '' @ incident_text evt @ '' '' @ em_dash @ '' '' @ take 80 (field_text [] evt ''message''))]"

definition section_of :: "line \<Rightarrow> line list \<Rightarrow> line list" where
  "section_of title body = title # body @ [[]]"

definition print_status :: "'a cluster_status_scheme \<Rightarrow> line list" where
  "print_status data =
     [[Styled ''Cluster Status'' bold_style, Plain ''  cache: '', styled_cache_state (st_cache_state data)], []]
     @ (if st_pod_counts data = [] then []
        else section_of (heading ''Pod Counts:'' None) (map pod_count_line (py_sorted fst (st_pod_counts data))))
     @ (let bad = filter unhealthy (st_node_conditions data) in
        if bad = [] then section_of [Styled ''All nodes healthy.'' (fg_style ''green'')] []
        else section_of (heading ''Node Conditions (unhealthy):'' (Some ''yellow'')) (map condition_line bad))
     @ (let anomalies = st_active_anomalies data in
        if anomalies = [] then section_of [Styled ''No active anomalies.'' (fg_style ''green'')] []
        else section_of (heading (''Active Anomalies ('' @ show_nat (length anomalies) @ ''):'') (Some ''red''))
               (map anomaly_line anomalies))
     @ (let events = st_recent_events data in
        if events = [] then []
        else heading (''Recent Events (showing up to 10 of '' @ show_nat (length events) @ ''):'') None
             # map recent_event_line (take 10 events))"

subsection \<open>Printing a diagnosis\<close>

text \<open>\<open>f"{confidence * 100:.0f}%"\<close>\<close>

definition percent_text :: "dbl \<Rightarrow> str" where
  "percent_text confidence = show_int (round_half_even (dmul_int 100 confidence) dbl_unit) @ ''%''"

definition evidence_line :: "evidence_response \<Rightarrow> line" where
  "evidence_line item =
     [Plain ''  ['', Styled (er_type item) (fg_style ''cyan''),
      Plain (''] '' @ er_timestamp item @ ''  '' @ er_summary item)]"

definition affected_line :: "affected_resource \<Rightarrow> line" where
  "affected_line res = [Plain (''  '' @ ar_kind res @ ''/'' @ ar_name res @ '' ('' @ ar_namespace res @ '')'')]"

definition meta_lines :: "response_meta \<Rightarrow> line list" where
  "meta_lines meta =
     [] # map (\<lambda>warn. [Styled (''  Warning: '' @ warn) (fg_style ''yellow'')]) (rm_warnings meta)
     @ [[Styled ''  Meta:'' (fg_style ''bright_black''), Plain ('' response_time='' @ show_int (rm_response_time_ms meta) @ ''ms  cache=''),
         styled_cache_state (rm_cache_state meta)]]"

definition print_rca :: "rca_schema \<Rightarrow> line list" where
  "print_rca data =
     [[], [Styled ''Root Cause Analysis'' (bold_style\<lparr>underline := True\<rparr>)], [],
      [Plain ''  '', Styled ''Root Cause:'' bold_style, Plain (''      '' @ sc_root_cause data)],
      [Plain ''  '', Styled ''Confidence:'' bold_style, Plain ''      '',
       Styled (percent_text (sc_confidence data)) ((fg_style (confidence_color (sc_confidence data)))\<lparr>bold := True\<rparr>)],
      [Plain ''  '', Styled ''Diagnosed By:'' bold_style,
       Plain (''    '' @ sc_diagnosed_by data
         @ (case sc_rule_id data of Some (c # cs) \<Rightarrow> ''  (rule: '' @ (c # cs) @ '')'' | _ \<Rightarrow> []))]]
     @ (if sc_evidence data = [] then []
        else [] # heading (''Evidence ('' @ show_nat (length (sc_evidence data)) @ '' items):'') None
             # map evidence_line (sc_evidence data))
     @ (if sc_affected data = [] then []
        else [] # heading (''Affected Resources ('' @ show_nat (length (sc_affected data)) @ ''):'') None
             # map affected_line (sc_affected data))
     @ (if sc_remediation data = [] then []
        else [[], [Styled ''Suggested Remediation:'' bold_style], [Plain (''  '' @ sc_remediation data)]])
     @ (case sc_meta data of None \<Rightarrow> [] | Some meta \<Rightarrow> meta_lines meta)
     @ [[]]"

subsection \<open>The commands\<close>

definition cmd_version :: "line list" where
  "cmd_version = [[Plain (''kuberca '' @ KUBERCA_VERSION)]]"

text \<open>\<open>click.echo(json.dumps(data, indent=2))\<close>\<close>

definition print_json :: "doc \<Rightarrow> line list" where
  "print_json data = [[Plain (doc_text indented_layout 0 data)]]"

text \<open>
  The server is a function of the URL and of what it is asked; a command prints lines and ends with an
  outcome.
\<close>

definition cmd_status ::
  "str \<Rightarrow> (str \<Rightarrow> str option \<Rightarrow> cluster_status_response exchange) \<Rightarrow> str option \<Rightarrow> bool \<Rightarrow> line list \<times> unit outcome" where
  "cmd_status api_url get ns output_json =
     (case http_result api_url (get (request_url api_url ''/api/v1/status'') (namespace_filter ns)) of
        Done data \<Rightarrow> (if output_json then print_json (status_body data) else print_status data, Done ())
      | ClickException msg \<Rightarrow> ([], ClickException msg)
      | UsageError msg \<Rightarrow> ([], UsageError msg)
      | Uncaught exc \<Rightarrow> ([], Uncaught exc))"

definition analyze_body :: "str \<Rightarrow> str option \<Rightarrow> pyval" where
  "analyze_body resource time_window =
     PDict ((''resource'', PStr resource)
       # (case time_window of Some (c # cs) \<Rightarrow> [(''time_window'', PStr (c # cs))] | _ \<Rightarrow> []))"

definition analyzing_line :: "str \<Rightarrow> str option \<Rightarrow> line" where
  "analyzing_line resource time_window =
     [Styled ''Analyzing'' bold_style,
      Plain ('' '' @ resource
        @ (case time_window of Some (c # cs) \<Rightarrow> '' (window: '' @ (c # cs) @ '')'' | _ \<Rightarrow> []) @ '' ...'')]"

definition cmd_analyze ::
  "str \<Rightarrow> (str \<Rightarrow> pyval \<Rightarrow> rca_schema exchange) \<Rightarrow> str \<Rightarrow> str option \<Rightarrow> bool \<Rightarrow> line list \<times> unit outcome" where
  "cmd_analyze api_url post resource time_window output_json =
     (if resource_parts resource = None
      then ([], UsageError (''RESOURCE must be in Kind/namespace/name format, got: '' @ py_repr resource))
      else
        let printed = (if output_json then [] else [analyzing_line resource time_window]) in
        case http_result api_url (post (request_url api_url ''/api/v1/analyze'') (analyze_body resource time_window)) of
          Done data \<Rightarrow> (printed @ (if output_json then print_json (rca_body data) else print_rca data), Done ())
        | ClickException msg \<Rightarrow> (printed, ClickException msg)
        | UsageError msg \<Rightarrow> (printed, UsageError msg)
        | Uncaught exc \<Rightarrow> (printed, Uncaught exc))"

subsection \<open>From the command line to the diagnosis and back\<close>

text \<open>The server in a given state, at any URL\<close>

definition served ::
  "(str \<Rightarrow> pyval option \<Rightarrow> str) \<Rightarrow> coordinator \<Rightarrow> api_state \<Rightarrow> str \<Rightarrow> pyval \<Rightarrow> rca_schema exchange" where
  "served type_msg env st url body = Answered (fst (serve_analyze type_msg env work_queue_is_full (Some body) st))"

lemma confidence_color_values:
  "confidence_color c = (if dlit 75 100 \<le> c then ''green'' else if dlit 5 10 \<le> c then ''yellow'' else ''red'')"
  by (simp add: confidence_color_def CONFIDENCE_THRESHOLDS_def)

text \<open>The colours a diagnosis can have\<close>

definition colours_of :: "str \<Rightarrow> str set" where
  "colours_of diagnosed_by =
     (if diagnosed_by = ''rule_engine'' then {''green'', ''yellow'', ''red''}
      else if diagnosed_by = ''llm'' then {''yellow'', ''red''} else {''red''})"

lemma response_colour:
  assumes "response_ok r"
  shows "confidence_color (rs_confidence r) \<in> colours_of (diagnosis_value (rs_diagnosed_by r))"
  using assms
  by (cases "rs_diagnosed_by r") (auto simp: response_ok_def confidence_color_values colours_of_def dbl_eval)

lemma body_accepted:
  assumes "resource_parts resource = Some key"
  shows "parse_body type_msg (Some (analyze_body resource w)) =
    (case w of
       Some (c # cs) \<Rightarrow>
         if re_match duration_re (c # cs) = None
         then Inl [(''time_window'', ''Value error, time_window must be a positive integer followed by m, h, or d, got: ''
                                       @ py_repr (c # cs))]
         else Inr \<lparr>rq_resource = resource, rq_time_window = Some (c # cs)\<rparr>
     | _ \<Rightarrow> Inr \<lparr>rq_resource = resource, rq_time_window = None\<rparr>)"
  using assms
  by (auto simp: parse_body_def analyze_body_def resource_field_def time_window_field_def validate_resource_format_def
      validate_time_window_format_def split: option.split list.split)

lemma cmd_analyze_reply:
  assumes "resource_parts resource = Some key"
  shows "cmd_analyze url (served type_msg env st) resource w False =
    (case fst (serve_analyze type_msg env None (Some (analyze_body resource w)) st) of
       Reply data \<Rightarrow> (analyzing_line resource w # print_rca data, Done ())
     | ErrorReply status code detail \<Rightarrow>
         ([analyzing_line resource w], ClickException (handle_error_response code detail)))"
    "cmd_analyze url (served type_msg env st) resource w True =
    (case fst (serve_analyze type_msg env None (Some (analyze_body resource w)) st) of
       Reply data \<Rightarrow> (print_json (rca_body data), Done ())
     | ErrorReply status code detail \<Rightarrow> ([], ClickException (handle_error_response code detail)))"
  using assms
  by (simp_all add: cmd_analyze_def served_def http_result_def work_queue_is_full_def split: http_reply.split)

text \<open>What can happen on the way to the server and back\<close>

datatype network = Connects | Refuses | Breaks str

definition over_network :: "network \<Rightarrow> (str \<Rightarrow> pyval \<Rightarrow> 'a exchange) \<Rightarrow> str \<Rightarrow> pyval \<Rightarrow> 'a exchange" where
  "over_network net post url body =
     (case net of Connects \<Rightarrow> post url body | Refuses \<Rightarrow> ConnectError | Breaks exc \<Rightarrow> TransportFailure exc)"

text \<open>The command against a server that is reached\<close>

lemma cli_connected:
  "case cmd_analyze url (served type_msg (env\<lparr>co_rules := kuberca_rules tier2\<rparr>) st) resource w False of
     (printed, UsageError msg) \<Rightarrow> resource_parts resource = None \<and> printed = []
   | (printed, Done u) \<Rightarrow> (\<exists>key r. resource_parts resource = Some key \<and> is_cached key st
       \<and> fst (analyze (env\<lparr>co_rules := kuberca_rules tier2\<rparr>) (canonical key) (window_or_default w)
              (as_core (snd (look_up env key st)))) = Inr r
       \<and> printed = analyzing_line resource w # print_rca (rca_to_schema r)
       \<and> confidence_color (rs_confidence r) \<in> colours_of (diagnosis_value (rs_diagnosed_by r)))
   | (printed, ClickException msg) \<Rightarrow> resource_parts resource \<noteq> None \<and> printed = [analyzing_line resource w]
       \<and> (prefix ''INVALID_TIME_WINDOW: '' msg \<or> prefix ''RESOURCE_NOT_FOUND: '' msg \<or> prefix ''INTERNAL_ERROR: '' msg)
   | (printed, Uncaught exc) \<Rightarrow> False"
proof (cases "resource_parts resource")
  case None
  then show ?thesis by (simp add: cmd_analyze_def)
next
  case (Some key)
  let ?env = "env\<lparr>co_rules := kuberca_rules tier2\<rparr>" and ?st1 = "snd (look_up env key st)"
  note reply = cmd_analyze_reply(1) [OF Some, of url type_msg ?env st w]
  consider (bad) detail where "parse_body type_msg (Some (analyze_body resource w)) = Inl [(''time_window'', detail)]"
    | (good) w' where "parse_body type_msg (Some (analyze_body resource w)) = Inr \<lparr>rq_resource = resource, rq_time_window = w'\<rparr>"
        "window_or_default w' = window_or_default w"
    using body_accepted [OF Some, of type_msg w]
    by (auto simp: window_or_default_def split: option.splits list.splits if_splits)
  then show ?thesis
  proof cases
    case bad
    then show ?thesis using Some
      by (simp add: reply serve_analyze_def validation_exception_handler_def handle_error_response_def)
  next
    case good
    then obtain kind ns name where parts: "split_on (CHR ''/'') resource = [kind, ns, name]"
      "resource_parts resource = Some (kind, ns, name)"
      by (auto elim: parse_body_valid)
    with Some have key: "key = (kind, ns, name)" by simp
    obtain res where res: "fst (analyze ?env (canonical key) (window_or_default w) (as_core ?st1)) = res" by simp
    then obtain st2 where run: "run_analysis ?env (canonical key) (window_or_default w) ?st1 = (res, st2)"
      using run_analysis_fst [of ?env "canonical key" "window_or_default w" ?st1] by (metis prod.collapse)
    have look: "look_up ?env key st = look_up env key st" by (simp add: look_up_def)
    have serve: "fst (serve_analyze type_msg ?env None (Some (analyze_body resource w)) st) =
      (if is_cached key st then (case res of Inl exc \<Rightarrow> internal_error | Inr r \<Rightarrow> Reply (rca_to_schema r))
       else ErrorReply 404 ''RESOURCE_NOT_FOUND'' (not_found_detail key))"
      using post_analyze_valid [of "\<lparr>rq_resource = resource, rq_time_window = w'\<rparr>" kind ns name ?env st] parts(1)
        good run look
      by (cases res) (simp_all add: serve_analyze_def key Let_def)
    have "case res of Inl exc \<Rightarrow> True | Inr r \<Rightarrow> response_ok r"
      using analyze_well_formed [where env = env and ?tier2.0 = tier2 and resource = "canonical key"
          and time_window = "window_or_default w" and st = "as_core ?st1"] res by (auto split: sum.splits)
    then show ?thesis
      using Some res response_colour
      by (cases res) (auto simp: reply serve handle_error_response_def internal_error_def)
  qed
qed

lemma cmd_analyze_unreached:
  assumes "resource_parts resource = Some key"
  shows "cmd_analyze url (over_network Refuses post) resource w False =
      ([analyzing_line resource w], ClickException (cannot_connect url))"
    "cmd_analyze url (over_network (Breaks exc) post) resource w False = ([analyzing_line resource w], Uncaught exc)"
  using assms by (simp_all add: cmd_analyze_def over_network_def http_result_def)


text \<open>Against the program's own cache \<open>kuberca status\<close> reports healthy nodes, whatever the cluster.\<close>

lemma cli_reports_healthy_nodes:
  "[Styled ''All nodes healthy.'' (fg_style ''green'')] \<in> set (print_status (build_cluster_status resource_cache_source ns))"
  by (simp add: print_status_def status_reads_nothing section_of_def)

subsection \<open>What \<open>--json\<close> prints\<close>

text \<open>
  C27: What \<open>kuberca analyze --json\<close> prints for a diagnosis is one JSON text that reads back as the body the server
  sent, which is that of a well-formed diagnosis; nothing else is printed, and an error prints nothing.
\<close>
theorem cli_json_roundtrip:
  assumes "clock_ok env"
  shows "case cmd_analyze url (served type_msg (env\<lparr>co_rules := kuberca_rules tier2\<rparr>) st) resource w True of
     (printed, Done u) \<Rightarrow> (\<exists>r txt. printed = [[Plain txt]] \<and> response_ok r
       \<and> loads_doc txt = Inr (rca_body (rca_to_schema r))
       \<and> fst (serve_analyze type_msg (env\<lparr>co_rules := kuberca_rules tier2\<rparr>) None (Some (analyze_body resource w)) st)
           = Reply (rca_to_schema r))
   | (printed, _) \<Rightarrow> printed = []"
proof (cases "resource_parts resource")
  case None
  then show ?thesis by (simp add: cmd_analyze_def)
next
  case (Some key)
  let ?env = "env\<lparr>co_rules := kuberca_rules tier2\<rparr>" and ?body = "Some (analyze_body resource w)"
  note reply = cmd_analyze_reply(2) [OF Some, of url type_msg ?env st w]
  show ?thesis
  proof (cases "fst (serve_analyze type_msg ?env None ?body st)")
    case (Reply sc)
    obtain r where r: "response_ok r" "sc = rca_to_schema r" "rm_response_time_ms (rs_meta r) = elapsed_ms ?env"
      using rest_reply [where env = env and ?tier2.0 = tier2 and st = st and body = ?body and type_msg = type_msg] Reply
      by fastforce
    have "clock_ok ?env" using assms by (simp add: clock_ok_def)
    from clock_elapsed(2) [OF this] have "doc_ok (rca_body sc)"
      unfolding r(2) using r by (intro rca_body_ok) simp_all
    then have "loads_doc (doc_text indented_layout 0 (rca_body sc)) = Inr (rca_body sc)"
      by (rule loads_doc_text) (rule layouts_ok)
    then show ?thesis using r Reply by (auto simp: reply print_json_def)
  qed (simp add: reply)
qed

theorem cli_json_roundtrip_witness:
  "\<exists>r txt. cmd_analyze ''http://localhost:8080/'' (served (\<lambda>_ _. []) small_coordinator warming_cart) ''Pod/shop/cart'' None True
      = ([[Plain txt]], Done ()) \<and> loads_doc txt = Inr (rca_body (rca_to_schema r))"
proof -
  obtain sc st1 where served: "serve_analyze (\<lambda>_ _. []) small_coordinator None (Some cart_body) warming_cart = (Reply sc, st1)"
    using cart_served by blast
  have env: "clock_ok small_coordinator" "small_coordinator\<lparr>co_rules := kuberca_rules True\<rparr> = small_coordinator"
    by (simp_all add: clock_ok_def small_coordinator_def)
  have "resource_parts ''Pod/shop/cart'' = Some (''Pod'', ''shop'', ''cart'')"
    using cart_parsed(3) by (simp add: cart_request_def)
  moreover have "analyze_body ''Pod/shop/cart'' None = cart_body" by (simp add: analyze_body_def cart_body_def)
  ultimately have "cmd_analyze url (served (\<lambda>_ _. []) small_coordinator warming_cart) ''Pod/shop/cart'' None True
      = (print_json (rca_body sc), Done ())" for url
    using served cmd_analyze_reply(2) by simp
  with cli_json_roundtrip [OF env(1), where url = "''http://localhost:8080/''" and type_msg = "\<lambda>_ _. []"
      and ?tier2.0 = True and st = warming_cart and resource = "''Pod/shop/cart''" and w = None]
  show ?thesis by (auto simp: env(2))
qed

end
