(* ===== verification/System.thy ===== *)
theory System
  imports Boot Mcp
begin

text \<open>
  \<open>kuberca/app.py\<close>, the composed system: the running process as one state, taken over from the handles that
  a successful start leaves (theory Boot), that watch events, cluster events, REST requests, MCP tool calls and
  the gauge updater change.  What a request finds outside the process (the clock,
  event ids, slow rules, the LLM server and the interpreter on its answers, the wording of pydantic's messages) is
  an input of that request.  No event reaches the ledger (no handler is registered for the snapshots of the
  pod watcher), so its state is a constant of a run.
\<close>

subsection \<open>The coordinator at a request\<close>

record outside =
  ou_now :: instant
  ou_ids :: "nat \<Rightarrow> str"
  ou_slow :: "str \<Rightarrow> bool"
  ou_server :: server
  ou_runtime :: runtime
  ou_clock :: "int \<times> int"
  ou_type_msg :: "str \<Rightarrow> pyval option \<Rightarrow> str"

definition llm_client_of :: "coordinator_parts \<Rightarrow> outside \<Rightarrow> llm_client option" where
  "llm_client_of parts out =
     (case cp_config parts of
        None \<Rightarrow> None
      | Some cfg \<Rightarrow>
          if cp_llm parts
          then Some \<lparr>lc_server = ou_server out, lc_runtime = ou_runtime out, lc_config = ollama_of cfg,
             lc_endpoint = os_endpoint (kc_ollama cfg)\<rparr>
          else None)"

definition coordinator_env ::
  "coordinator_parts \<Rightarrow> outside \<Rightarrow> ledger \<Rightarrow> event_record list \<Rightarrow> graph option \<Rightarrow> coordinator" where
  "coordinator_env parts out lg buf g =
     \<lparr>co_engine = \<lparr>en_now = ou_now out, en_ledger = lg, en_slow = ou_slow out\<rparr>,
      co_rules = cp_rules parts, co_buffer = buf, co_graph = (if cp_graph parts then g else None),
      co_llm = llm_client_of parts out,
      co_cluster_id = (case cp_config parts of None \<Rightarrow> [] | Some cfg \<Rightarrow> kc_cluster_id cfg), co_ids = ou_ids out, co_clock = ou_clock out\<rparr>"

subsection \<open>The running process\<close>

record system =
  sy_cluster_id :: str
  sy_parts :: coordinator_parts
  sy_ledger :: ledger
  sy_wired :: wired
  sy_buffer :: "event_record list"
  sy_llm :: analyzer
  sy_metrics :: metrics

datatype system_event =
    Watched wired_event
  | Reported instant str str "v1_event option" pydict
  | Requested outside "pyval option"
  | ToolCalled outside str "(str, str) dict option"
  | RatesUpdated

definition system_of :: "boot \<Rightarrow> system option" where
  "system_of b =
     (case (bt_cache b, bt_ledger b, bt_collector b, bt_coordinator b) of
        (Some c, Some l, Some cl, Some parts) \<Rightarrow>
          Some \<lparr>sy_cluster_id = cl_cluster_id cl, sy_parts = parts, sy_ledger = l,
             sy_wired = wired_init c (bt_graph b), sy_buffer = cl_buffer cl,
             sy_llm = (case bt_llm b of None \<Rightarrow> \<lparr>la_available = False, la_requests = 0\<rparr> | Some st \<Rightarrow> st),
             sy_metrics = metrics_init\<rparr>
      | _ \<Rightarrow> None)"

definition api_state_of :: "system \<Rightarrow> api_state" where
  "api_state_of sys =
     \<lparr>as_core = \<lparr>cs_cache = wi_cache (sy_wired sys), cs_llm = sy_llm sys\<rparr>, as_metrics = sy_metrics sys\<rparr>"

definition with_api_state :: "system \<Rightarrow> api_state \<Rightarrow> system" where
  "with_api_state sys st =
     sys\<lparr>sy_wired := (sy_wired sys)\<lparr>wi_cache := cs_cache (as_core st)\<rparr>, sy_llm := cs_llm (as_core st),
         sy_metrics := as_metrics st\<rparr>"

definition system_request ::
  "outside \<Rightarrow> pyval option \<Rightarrow> system \<Rightarrow> rca_schema http_reply \<times> system" where
  "system_request out body sys =
     (let env = coordinator_env (sy_parts sys) out (sy_ledger sys) (sy_buffer sys) (wi_graph (sy_wired sys));
          (answer, st) = serve_analyze (ou_type_msg out) env work_queue_is_full body (api_state_of sys)
      in (answer, with_api_state sys st))"

definition system_tool_call ::
  "outside \<Rightarrow> str \<Rightarrow> (str, str) dict option \<Rightarrow> system \<Rightarrow> payload \<times> system" where
  "system_tool_call out name arguments sys =
     (let env = coordinator_env (sy_parts sys) out (sy_ledger sys) (sy_buffer sys) (wi_graph (sy_wired sys));
          (answer, st) = call_tool env resource_cache_source name arguments (api_state_of sys)
      in (answer, with_api_state sys st))"

text \<open>A step of the process, with the REST answer it sends, if any\<close>

fun system_step :: "stdlib \<Rightarrow> system_event \<Rightarrow> system \<Rightarrow> rca_schema http_reply list \<times> system" where
  "system_step lib (Watched e) sys = ([], sys\<lparr>sy_wired := wired_step (sy_cluster_id sys) e (sy_wired sys)\<rparr>)"
| "system_step lib (Reported now event_id event_type ob raw) sys =
     ([], sys\<lparr>sy_buffer := snd (event_handle lib (sy_cluster_id sys) now event_id event_type ob raw (sy_buffer sys))\<rparr>)"
| "system_step lib (Requested out body) sys =
     (let (answer, sys') = system_request out body sys in ([answer], sys'))"
| "system_step lib (ToolCalled out name arguments) sys = ([], snd (system_tool_call out name arguments sys))"
| "system_step lib RatesUpdated sys = ([], sys\<lparr>sy_metrics := compute_rolling_rates (sy_metrics sys)\<rparr>)"

fun system_run ::
  "stdlib \<Rightarrow> system_event list \<Rightarrow> system \<Rightarrow> rca_schema http_reply list \<times> system" where
  "system_run lib [] sys = ([], sys)"
| "system_run lib (e # es) sys =
     (let (out, sys1) = system_step lib e sys; (rest, sys2) = system_run lib es sys1 in (out @ rest, sys2))"

subsection \<open>One request\<close>

lemma run_analysis_bounds:
  assumes "co_rules env = kuberca_rules tier2"
  shows "la_requests (cs_llm (as_core (snd (run_analysis env r w st)))) \<le> la_requests (cs_llm (as_core st)) + llm_budget env
    \<and> rc_store (cs_cache (as_core (snd (run_analysis env r w st)))) = rc_store (cs_cache (as_core st))"
proof -
  have "env\<lparr>co_rules := kuberca_rules tier2\<rparr> = env" using assms by simp
  with analyze_bounded [where env = env and ?tier2.0 = tier2 and resource = r and time_window = w and st = "as_core st"]
  show ?thesis by (cases "analyze env r w (as_core st)") (simp add: run_analysis_def)
qed

lemma look_up_keeps:
  "cs_llm (as_core (snd (look_up env key st))) = cs_llm (as_core st)
   \<and> rc_store (cs_cache (as_core (snd (look_up env key st)))) = rc_store (cs_cache (as_core st))"
  by (cases key) (auto simp: look_up_def cache_get_def split: option.split)

definition reply_ok :: "rca_schema http_reply \<Rightarrow> bool" where
  "reply_ok a \<longleftrightarrow>
     (case a of Reply sc \<Rightarrow> (\<exists>r. response_ok r \<and> sc = rca_to_schema r)
      | ErrorReply status code detail \<Rightarrow> status \<in> {400, 404, 500})"

lemma serve_bounds:
  assumes rules: "co_rules env = kuberca_rules tier2" and serve: "serve_analyze type_msg env None body st = (a, st')"
  shows "reply_ok a \<and> la_requests (cs_llm (as_core st')) \<le> la_requests (cs_llm (as_core st)) + llm_budget env
    \<and> rc_store (cs_cache (as_core st')) = rc_store (cs_cache (as_core st))"
proof (cases "parse_body type_msg body")
  case (Inl errors)
  then show ?thesis using serve
    by (auto simp: serve_analyze_def validation_exception_handler_def reply_ok_def split: prod.splits)
next
  case (Inr request)
  then obtain kind ns name where parts: "split_on (CHR ''/'') (rq_resource request) = [kind, ns, name]"
    by (rule parse_body_valid)
  let ?key = "(kind, ns, name)" and ?w = "window_or_default (rq_time_window request)"
  let ?st1 = "snd (look_up env ?key st)"
  note keeps = look_up_keeps [of env ?key st]
  have post: "post_analyze env None request st = (a, st')" using serve Inr by (simp add: serve_analyze_def)
  show ?thesis
  proof (cases "is_cached ?key st")
    case False
    then have "a = ErrorReply 404 ''RESOURCE_NOT_FOUND'' (not_found_detail ?key) \<and> st' = ?st1"
      using post post_analyze_valid [OF parts, of env st] by (simp add: Let_def)
    then show ?thesis using keeps by (simp add: reply_ok_def)
  next
    case True
    obtain res st2 where run: "run_analysis env (canonical ?key) ?w ?st1 = (res, st2)" by fastforce
    have core: "as_core st' = as_core st2"
      and a: "a = (case res of Inl exc \<Rightarrow> internal_error | Inr rca \<Rightarrow> Reply (rca_to_schema rca))"
      using post post_analyze_valid [OF parts, of env st] True run by (auto simp: Let_def split: sum.splits)
    have env: "env\<lparr>co_rules := kuberca_rules tier2\<rparr> = env" using rules by simp
    have "fst (analyze env (canonical ?key) ?w (as_core ?st1)) = res"
      using run_analysis_fst [of env "canonical ?key" ?w ?st1] run by simp
    then have "reply_ok a"
      using analyze_well_formed [where env = env and ?tier2.0 = tier2 and resource = "canonical ?key"
          and time_window = ?w and st = "as_core ?st1", unfolded env]
      by (auto simp: a reply_ok_def internal_error_def split: sum.splits)
    then show ?thesis
      using run_analysis_bounds [OF rules, of "canonical ?key" ?w ?st1] run core keeps by simp
  qed
qed

lemma tool_bounds:
  assumes rules: "co_rules env = kuberca_rules tier2" and tool: "call_tool env src name arguments st = (a, st')"
  shows "la_requests (cs_llm (as_core st')) \<le> la_requests (cs_llm (as_core st)) + llm_budget env
    \<and> rc_store (cs_cache (as_core st')) = rc_store (cs_cache (as_core st))"
proof -
  have "st' = st \<or> (\<exists>r w. st' = snd (run_analysis env r w st))"
    using tool by (auto simp: call_tool_def handle_analyze_incident_def Let_def
        split: if_splits option.splits prod.splits sum.splits) (metis snd_conv)+
  then show ?thesis using run_analysis_bounds [OF rules] by fastforce
qed

text \<open>The parts a start puts together: the rules of the package, and a configuration in range, which bounds
  the retries and hence the budget of one analysis.\<close>

definition parts_ok :: "coordinator_parts \<Rightarrow> bool" where
  "parts_ok parts \<longleftrightarrow> (\<exists>tier2. cp_rules parts = kuberca_rules tier2)
     \<and> (case cp_config parts of None \<Rightarrow> True | Some cfg \<Rightarrow> config_ok cfg)"

lemma configured_budget:
  assumes "parts_ok parts"
  shows "llm_budget (coordinator_env parts out lg buf g) \<le> 8"
  using assms
  by (auto simp: llm_budget_def coordinator_env_def llm_client_of_def ollama_of_def parts_ok_def config_ok_def
      MAX_QUALITY_RETRIES_def nat_le_iff split: option.split)

lemma coordinator_rules:
  assumes "parts_ok parts"
  obtains tier2 where "co_rules (coordinator_env parts out lg buf g) = kuberca_rules tier2"
  using assms by (auto simp: coordinator_env_def parts_ok_def)

definition system_ok :: "system \<Rightarrow> bool" where
  "system_ok sys \<longleftrightarrow> parts_ok (sy_parts sys) \<and> wired_ok (sy_wired sys)"

subsection \<open>Every run\<close>

definition request_count :: "system_event list \<Rightarrow> nat" where
  "request_count es = length (filter (\<lambda>e. case e of Requested out body \<Rightarrow> True | _ \<Rightarrow> False) es)"

definition analysis_count :: "system_event list \<Rightarrow> nat" where
  "analysis_count es =
     length (filter (\<lambda>e. case e of Requested out body \<Rightarrow> True | ToolCalled out name a \<Rightarrow> True | _ \<Rightarrow> False) es)"

lemma wired_ok_cache: "rc_store c = rc_store (wi_cache w) \<Longrightarrow> wired_ok (w\<lparr>wi_cache := c\<rparr>) = wired_ok w"
  by (simp add: wired_ok_def split: option.split)

definition has_graph :: "system \<Rightarrow> bool" where
  "has_graph sys \<longleftrightarrow> wi_graph (sy_wired sys) \<noteq> None"

text \<open>What a request or a tool call may do to the state\<close>

lemma with_api_state_ok:
  assumes "system_ok sys" "rc_store (cs_cache (as_core st)) = rc_store (wi_cache (sy_wired sys))"
  shows "system_ok (with_api_state sys st) \<and> has_graph (with_api_state sys st) = has_graph sys
    \<and> sy_llm (with_api_state sys st) = cs_llm (as_core st)"
  using assms wired_ok_cache [OF assms(2)] by (simp add: system_ok_def with_api_state_def has_graph_def)

lemma system_step_ok:
  assumes "system_ok sys" "system_step lib e sys = (out, sys')"
  shows "list_all reply_ok out \<and> length out = request_count [e] \<and> system_ok sys' \<and> has_graph sys' = has_graph sys
    \<and> la_requests (sy_llm sys') \<le> la_requests (sy_llm sys) + 8 * analysis_count [e]"
proof (cases e)
  case (Requested o1 body)
  let ?env = "coordinator_env (sy_parts sys) o1 (sy_ledger sys) (sy_buffer sys) (wi_graph (sy_wired sys))"
  obtain a st' where serve: "serve_analyze (ou_type_msg o1) ?env None body (api_state_of sys) = (a, st')" by fastforce
  from assms(1) have parts: "parts_ok (sy_parts sys)" by (simp add: system_ok_def)
  then obtain tier2 where "co_rules ?env = kuberca_rules tier2" by (rule coordinator_rules)
  from serve_bounds [OF this serve] configured_budget [OF parts]
  have b: "reply_ok a" "rc_store (cs_cache (as_core st')) = rc_store (wi_cache (sy_wired sys))"
    "la_requests (cs_llm (as_core st')) \<le> la_requests (sy_llm sys) + 8"
    by (auto simp: api_state_of_def intro: order_trans)
  have "out = [a] \<and> sys' = with_api_state sys st'"
    using assms(2) serve Requested by (simp add: system_request_def work_queue_is_full_def)
  then show ?thesis
    using b Requested with_api_state_ok [OF assms(1) b(2)] by (simp add: request_count_def analysis_count_def)
next
  case (ToolCalled o1 name arguments)
  let ?env = "coordinator_env (sy_parts sys) o1 (sy_ledger sys) (sy_buffer sys) (wi_graph (sy_wired sys))"
  obtain a st' where tool: "call_tool ?env resource_cache_source name arguments (api_state_of sys) = (a, st')" by fastforce
  from assms(1) have parts: "parts_ok (sy_parts sys)" by (simp add: system_ok_def)
  then obtain tier2 where "co_rules ?env = kuberca_rules tier2" by (rule coordinator_rules)
  from tool_bounds [OF this tool] configured_budget [OF parts]
  have b: "rc_store (cs_cache (as_core st')) = rc_store (wi_cache (sy_wired sys))"
    "la_requests (cs_llm (as_core st')) \<le> la_requests (sy_llm sys) + 8"
    by (auto simp: api_state_of_def intro: order_trans)
  have "out = [] \<and> sys' = with_api_state sys st'"
    using assms(2) tool ToolCalled by (simp add: system_tool_call_def)
  then show ?thesis
    using b ToolCalled with_api_state_ok [OF assms(1) b(1)] by (simp add: request_count_def analysis_count_def)
qed (use assms in \<open>auto simp: request_count_def analysis_count_def system_ok_def has_graph_def wired_step_ok wired_step_graph
    simp del: not_None_eq\<close>)

lemma system_run_ok:
  assumes "system_ok sys" "system_run lib es sys = (out, sys')"
  shows "list_all reply_ok out \<and> length out = request_count es \<and> system_ok sys' \<and> has_graph sys' = has_graph sys
    \<and> la_requests (sy_llm sys') \<le> la_requests (sy_llm sys) + 8 * analysis_count es"
  using assms
proof (induction es arbitrary: sys out)
  case (Cons e es)
  obtain o1 s1 where 1: "system_step lib e sys = (o1, s1)" by fastforce
  obtain o2 s2 where 2: "system_run lib es s1 = (o2, s2)" by fastforce
  have split: "request_count (e # es) = request_count [e] + request_count es"
    "analysis_count (e # es) = analysis_count [e] + analysis_count es"
    by (simp_all add: request_count_def analysis_count_def)
  have "out = o1 @ o2" "sys' = s2" using Cons.prems(2) 1 2 by simp_all
  moreover from system_step_ok [OF Cons.prems(1) 1] have "system_ok s1" by blast
  note Cons.IH [OF this]
  ultimately show ?case
    using system_step_ok [OF Cons.prems(1) 1] 2 unfolding split by fastforce
qed (simp add: request_count_def analysis_count_def)

text \<open>The health check of the start asks no analysis.\<close>

lemma llm_handle_requests: "llm_handle w cfg = Some st \<Longrightarrow> la_requests st = 0"
  by (auto simp: llm_handle_def llm_health_def health_check_def
      split: if_splits prod.splits sum.splits reply.splits pyval.splits)

lemma booted_system:
  assumes "load_config (bw_float w) (bw_environ w) = Inr cfg"
  obtains sys where "system_of (booted w cfg l d) = Some sys" "system_ok sys" "la_requests (sy_llm sys) = 0"
    "has_graph sys \<longleftrightarrow> bw_raises w GraphC = None"
proof -
  let ?b = "booted w cfg l d"
  obtain sys where sys: "system_of ?b = Some sys" by (simp add: system_of_def booted_def Let_def)
  then have "parts_ok (sy_parts sys)"
    using load_config_ok [OF assms] by (auto simp: system_of_def booted_def Let_def parts_ok_def)
  moreover have "wired_ok (sy_wired sys)"
    using sys by (auto simp: system_of_def booted_def Let_def wired_init_ok populate_store_wf)
  moreover have "la_requests (sy_llm sys) = 0"
    using sys llm_handle_requests [of w cfg] by (auto simp: system_of_def booted_def Let_def split: option.split)
  moreover have "has_graph sys \<longleftrightarrow> bw_raises w GraphC = None"
    using sys by (auto simp: system_of_def booted_def Let_def has_graph_def wired_init_def split: if_splits)
  ultimately show thesis using that sys by (simp add: system_ok_def)
qed

text \<open>
  C6: The running system, from any start that succeeds, whatever the world it starts in: after any interleaving
  of watch events, cluster events, REST requests, MCP tool calls and gauge updates, the dependency graph is
  consistent and knows every cached resource (it is missing only where its own start failed), every REST
  request has got exactly one answer, each of them a well-formed diagnosis or one of the statuses 400, 404
  and 500, and the LLM server has been asked at most eight times per request and tool call.
\<close>
theorem running_system_invariant:
  assumes "boot_start w boot_init = (None, b)"
  shows "\<exists>sys. system_of b = Some sys
    \<and> (case system_run lib es sys of
         (replies, sys') \<Rightarrow> list_all reply_ok replies \<and> length replies = request_count es
           \<and> la_requests (sy_llm sys') \<le> 8 * analysis_count es
           \<and> (case wi_graph (sy_wired sys') of
                None \<Rightarrow> bw_raises w GraphC \<noteq> None
              | Some g \<Rightarrow> graph_wf g
                  \<and> {(kind, ns, name). store_get (rc_store (wi_cache (sy_wired sys'))) kind ns name \<noteq> None}
                      \<subseteq> set (dkeys (gr_nodes g))))"
proof -
  from assms obtain cfg l d where cfg: "load_config (bw_float w) (bw_environ w) = Inr cfg" and b: "b = booted w cfg l d"
    by (rule boot_success)
  from cfg obtain sys where sys: "system_of b = Some sys" "system_ok sys" "la_requests (sy_llm sys) = 0"
    "has_graph sys \<longleftrightarrow> bw_raises w GraphC = None"
    unfolding b by (rule booted_system)
  obtain replies sys' where run: "system_run lib es sys = (replies, sys')" by fastforce
  from system_run_ok [OF sys(2) run] sys
  have "list_all reply_ok replies \<and> length replies = request_count es \<and> wired_ok (sy_wired sys')
    \<and> la_requests (sy_llm sys') \<le> 8 * analysis_count es \<and> has_graph sys' = (bw_raises w GraphC = None)"
    by (simp add: system_ok_def)
  with sys(1) run show ?thesis
    unfolding wired_ok_def cached_keys_def known_def has_graph_def by (auto split: option.splits)
qed

definition nothing_outside :: outside where
  "nothing_outside =
     \<lparr>ou_now = 0, ou_ids = (\<lambda>_. []), ou_slow = (\<lambda>_. False), ou_server = (\<lambda>_ _. Timeout []),
      ou_runtime = \<lparr>rt_loads = (\<lambda>_. Inl (DecodeError [])), rt_encode = (\<lambda>_. Inr []), rt_decode = (\<lambda>_. []), rt_debug = False\<rparr>, ou_clock = (0, 0), ou_type_msg = (\<lambda>_ _. [])\<rparr>"

theorem running_system_invariant_witness:
  "\<exists>b sys replies sys'. boot_start demo_world boot_init = (None, b) \<and> system_of b = Some sys
     \<and> system_run \<lparr>sl_fromisoformat = (\<lambda>_. None), sl_int = (\<lambda>_. None)\<rparr> [Requested nothing_outside None, RatesUpdated] sys
         = (replies, sys') \<and> length replies = 1"
proof -
  obtain b where b: "boot_start demo_world boot_init = (None, b)" using demo_world_boots by blast
  from running_system_invariant [OF b, where es = "[Requested nothing_outside None, RatesUpdated]"
      and lib = "\<lparr>sl_fromisoformat = (\<lambda>_. None), sl_int = (\<lambda>_. None)\<rparr>"] b
  show ?thesis by (fastforce simp: request_count_def split: prod.splits)
qed

end
