(* ===== verification/Spec2Isabelle.thy ===== *)
theory Spec2Isabelle
  imports RuleRegistry RuleMatching DependencyGraph ResourceCache Scout Notify WorkQueue LlmAnalyzer
    WatchLoop ObjectWatchers Coordinator QueueDrain MailBody
    SqliteStore SqliteCleanup Config Lifecycle Wiring Boot Metrics Observability Api DiagnosisReads Mcp Cli System
begin

text \<open>
  KubeRCA watches a Kubernetes cluster, keeps what it saw, and answers questions of the form "what is
  wrong with this resource" by rules and, when no rule fires, by a language model.  This library is a
  model of its Python code (\<open>src/kuberca\<close>) in HOL, function by function, with the theorems that make
  the parts correct.  All definitions are executable.

  \<^bold>\<open>How the parts interact.\<close>  The watchers (\<open>collector/\<close>) turn the watch streams of the API server into
  event records, pod snapshots and cache updates.  The cache (\<open>cache/\<close>) holds the current objects and
  only hands out redacted views; the ledger (\<open>ledger/\<close>) holds past specifications and reports field
  changes; the graph (\<open>graph/\<close>) holds the references between objects.  The scout (\<open>scout/\<close>) raises
  alerts on events, which the dispatcher (\<open>notifications/\<close>) sends out.  Requests for an analysis wait in
  the work queue (\<open>analyst/queue.py\<close>); the coordinator (\<open>analyst/coordinator.py\<close>) answers each from the
  event buffer, the rule engine (\<open>rules/\<close>) with the cache and the ledger, and the LLM analyzer
  (\<open>llm/\<close>) with the evidence it gathers.  The application (\<open>app.py\<close>) builds all of them from the
  configuration (\<open>config.py\<close>); the REST API (\<open>api/\<close>), the MCP server (\<open>mcp/\<close>) and the command line
  (\<open>cli/\<close>) ask the coordinator.  The SQLite store (\<open>ledger/sqlite_store.py\<close>) is a persistent ledger of its own.

  \<^bold>\<open>Foundations.\<close>
  \<^item> \<open>Prelude\<close>: association lists as Python dictionaries (insertion order, distinct keys), bounded deques,
    expiry, stable sorts.
  \<^item> \<open>PyStr\<close>, \<open>PyRegex\<close>, \<open>PyValue\<close>, \<open>Json\<close>, \<open>JsonLoads\<close>, \<open>JsonDoc\<close>, \<open>PyFloat\<close>, \<open>FloatText\<close>, \<open>PyTime\<close>, \<open>IsoTime\<close>, \<open>Sha256\<close>: the parts of the
    language and its standard library the program uses: string methods, backtracking regular expressions,
    dynamic values with \<open>str\<close>, \<open>repr\<close>, \<open>json.dumps\<close> and \<open>json.loads\<close>, binary64 arithmetic as integers over
    \<open>2 ^ 64\<close> with rounding to nearest even, the shortest decimal text of a float and its reading (inverse to
    each other), datetimes as microseconds with \<open>isoformat\<close> and \<open>fromisoformat\<close>
    (both proved inverse to each other, and texts ordered as their instants), SHA-256.  Strings are lists of
    8-bit characters; the few texts of the program with a dash outside Latin-1 hold its three bytes in UTF-8.
  \<^item> \<open>Models\<close>: the dataclasses and enums of \<open>models/\<close>.
  \<^item> \<open>BoundedLog\<close>, \<open>CooldownGate\<close>: interfaces shared by several components.  \<open>bounded_log\<close> is a buffer that
    keeps a suffix of what was pushed; the ledger, the event buffer and others interpret it.
    \<open>cooldown_gate\<close> is an operation that passes at most once per period; the scout's alerts, the
    dispatcher's deduplication and the relists of a watcher interpret it.

  \<^bold>\<open>Components.\<close>
  \<^item> \<open>SpecDiff\<close>, \<open>ChangeLedger\<close> (\<open>ledger/diff.py\<close>, \<open>ledger/change_ledger.py\<close>): ring buffers per resource with
    memory tiers and expiry.  Theorems: each buffer is a suffix of what was accepted for its key, and every
    call drops exactly what the tiers, the retention and the depth account for; a recorded snapshot is the
    latest one.  A difference reads the clock once per pair of snapshots, as the code does.
  \<^item> \<open>Redaction\<close> (\<open>cache/redaction.py\<close>): nothing that the rules call sensitive survives, redacting twice
    changes nothing.
  \<^item> \<open>ResourceCache\<close> (\<open>cache/resource_cache.py\<close>): a map with capacities whose reads are redacted, and the
    readiness state machine, characterised as a function of the state.
  \<^item> \<open>DependencyGraph\<close> (\<open>graph/\<close>): both adjacency maps mirror each other in every reachable state;
    traversal is bounded reachability, path search is connectedness.
  \<^item> \<open>Confidence\<close>, \<open>RuleBase\<close>, \<open>RuleContract\<close>, \<open>RulesTier1\<close>, \<open>RulesTier2a\<close>, \<open>RulesTier2b\<close>, \<open>RuleRegistry\<close>,
    \<open>RuleMatching\<close> (\<open>rules/\<close>): the engine, the score, and the eighteen rules.  The contract of a rule is
    the locale \<open>rca_rule\<close>, interpreted by every rule; the engine's theorems rest on the contract: which
    verdict it answers with, band by band.
  \<^item> \<open>Scout\<close> (\<open>scout/detector.py\<close>): which events raise alerts, and how rarely.
  \<^item> \<open>Notify\<close>, \<open>MailBody\<close> (\<open>notifications/\<close>): deduplication, fan-out, payloads, the SMTP session, the channels
    a configuration gives.
  \<^item> \<open>WorkQueue\<close> (\<open>analyst/queue.py\<close>): a step relation of submissions, workers and shutdown with its
    invariant; no request is lost, the rate holds in every minute, the workers can drain the queue.
    \<open>QueueDrain\<close>: every run of the workers ends, and where it ends everybody is answered.
  \<^item> \<open>Evidence\<close>, \<open>LlmAnalyzer\<close> (\<open>llm/\<close>): the prompt and its byte budget, the requests, retries and parsing,
    the capped text that is kept, the confidence by citations, the quality check.  An exception that the
    analyzer does not catch is a value of the result, and goes through the coordinator to the route and the
    tool (\<open>raises_on\<close>).
  \<^item> \<open>WatchLoop\<close>, \<open>Watchers\<close>, \<open>ObjectWatchers\<close> (\<open>collector/\<close>): the loop's back-off and relists, the event
    buffer and its queries, and the pod and node watchers as families of independent machines, one per
    object (the locale \<open>keyed_machine\<close>).
  \<^item> \<open>Coordinator\<close> (\<open>analyst/coordinator.py\<close>): the whole analysis, composed of the models above: its
    responses are well formed, it is about the first event a rule fires for, its requests are bounded.
    \<open>DiagnosisReads\<close>: a diagnosis depends on the cache only through its objects and its readiness.
  \<^item> \<open>SqliteStore\<close>, \<open>SqliteCleanup\<close> (\<open>ledger/sqlite_store.py\<close>): the table as a list of rows.  A flush takes the
    pending snapshots, inserts them and commits; a clean-up deletes the old rows, counts, deletes the excess
    of one resource after the other and commits.  Each of these is a step of its own with its outcome, and
    steps of a flush, of a clean-up, stores and closes interleave as the tasks do.  What \<open>load\<close> returns after
    any run, what is on disk, what a clean-up keeps when it is undisturbed and by how much a resource can
    exceed its cap when it is not, what is never lost and what is.  A close is one step: a task that it
    cancels may still have its awaited statement executed.
  \<^item> \<open>Config\<close> (\<open>config.py\<close>, \<open>models/config.py\<close>): every setting; which environments load, and the ranges of
    what is loaded.
  \<^item> \<open>Lifecycle\<close>, \<open>Boot\<close>, \<open>Wiring\<close>, \<open>System\<close> (\<open>app.py\<close>): \<open>Lifecycle\<close> is the start and stop of the components
    with nothing known of each but whether it fails, and \<open>main\<close>; \<open>Boot\<close> is the start that builds every
    component from the configuration and from what the API server lists, a refinement of the first;
    \<open>Wiring\<close> holds the handlers that feed the cache and the graph from the watch events, the composition of
    the machines they feed.  The tasks of the watchers, of which a stop cancels only one, are part of the state.
    \<open>System\<close> is the running process that a successful start leaves, whose
    invariant spans the watchers, the cache, the graph, the coordinator, the REST API and the tools.
  \<^item> \<open>Metrics\<close>, \<open>Observability\<close> (\<open>observability/\<close>): the request counter and the coverage gauges, as percentages;
    the declarations of the metrics, which do not clash; the level of the logger.
  \<^item> \<open>Api\<close>, \<open>Mcp\<close>, \<open>Cli\<close> (\<open>api/\<close>, \<open>mcp/server.py\<close>, \<open>cli/main.py\<close>): validation, routes, tools with their schemas, and
    commands; every answer of the route, the agreement of the tool with the route asked in the same state, the
    command line end to end over a network that may fail, and the texts of the tool and of \<open>--json\<close>, which read back as what was answered.

  \<^bold>\<open>Bounds and termination.\<close>  All recursions terminate by structure or a measure; the only fuel,
  besides the numbers the code itself bounds its loops by (retries, traversal depth, quality retries), is
  that of the two JSON parsers, the length of their text, which never runs out (\<open>json_loads_ends\<close>,
  \<open>loads_doc_ends\<close>).  The text of a float has at most 61 digits after the point, and such a decimal is always found.  The path
  search terminates because each key is visited once.  The regular expressions are matched by recursion
  over the expression and the rest of the text.

  \<^bold>\<open>Parameters.\<close>  What is not code of the repository is an argument: clock readings, the API server's and
  the LLM server's answers, \<open>sys.getsizeof\<close>, which rules exceed their time limit, event ids, \<open>urlparse\<close>,
  in the watchers \<open>datetime.fromisoformat\<close>, in the LLM analyzer the record \<open>runtime\<close>: \<open>json.loads\<close> (its results
  include floating-point numbers, which the values of the model leave out; it may raise a \<open>JSONDecodeError\<close> or
  another exception), \<open>str.encode\<close> and \<open>bytes.decode\<close> and whether debug logging is on; \<open>float\<close> of a string, the wording of
  pydantic's type errors, the outcome and latency of SQLite writes, and whether starting a component raises.

  \<^bold>\<open>Not modelled.\<close>  The texts that are logged and the metrics that are only written; HTTP, SMTP, SQLite and
  Kubernetes client calls beyond their answers; the MCP transport and the library's check of a call against
  the schema of its tool.  The recursion limit of the interpreter: \<open>json.dumps\<close> of a specification nested that
  deep fails in the code and counts as an insertion that fails here, and \<open>str\<close> of such a value is total.  Two
  requests of the same priority and the same reading of the clock are served in their order; the heap of the
  code compares the items and raises.  The message of a container state that is no string is rendered by
  \<open>str\<close> in a synthesised event.
\<close>

end
